(* ===== verification/Prelude.thy ===== *)
theory Prelude
  imports Main
begin

text \<open>
  Shared vocabulary of the development.

  The JavaScript of the repository signals failure by throwing.  Every operation that can
  throw is modelled by a function into the sum type \<open>'e + 'a\<close>: \<open>Inl e\<close> is the thrown value
  and \<open>Inr a\<close> the value returned.  \<open>ebind\<close> is sequential composition, \<open>try_catch\<close> the
  \<open>try { .. } catch { .. }\<close> statement, \<open>anyE\<close> the short-circuiting \<open>||\<close> chain of conditions
  that may throw, \<open>first_code\<close> a sequence of guards \<open>if (cond) return code;\<close>, and \<open>mapE\<close> a loop
  that pushes the result of a call that may throw.

  Three theorem collections carry the component proofs: \<open>result_simps\<close> (composition and
  inversion of sum-typed results), \<open>guard_simps\<close> (guard sequences) and \<open>js_simps\<close>
  (evaluation of the JavaScript primitives).
\<close>

named_theorems result_simps
named_theorems guard_simps
named_theorems js_simps

section \<open>Results that may be thrown values\<close>

definition ebind :: "'e + 'a \<Rightarrow> ('a \<Rightarrow> 'e + 'b) \<Rightarrow> 'e + 'b" where
  "ebind m f = (case m of Inl e \<Rightarrow> Inl e | Inr a \<Rightarrow> f a)"

definition emap :: "('a \<Rightarrow> 'b) \<Rightarrow> 'e + 'a \<Rightarrow> 'e + 'b" where
  "emap f m = ebind m (\<lambda>a. Inr (f a))"

definition try_catch :: "'e + 'a \<Rightarrow> ('e \<Rightarrow> 'f + 'a) \<Rightarrow> 'f + 'a" where
  "try_catch m h = (case m of Inl e \<Rightarrow> h e | Inr a \<Rightarrow> Inr a)"

lemma ebind_simps [simp, result_simps]:
  "ebind (Inl e) f = Inl e"
  "ebind (Inr a) f = f a"
  by (simp_all add: ebind_def)

lemma ebind_Inr_conv [result_simps]: "ebind m f = Inr b \<longleftrightarrow> (\<exists>a. m = Inr a \<and> f a = Inr b)"
  by (cases m) auto

lemma ebind_Inl_conv [result_simps]:
  "ebind m f = Inl e \<longleftrightarrow> m = Inl e \<or> (\<exists>a. m = Inr a \<and> f a = Inl e)"
  by (cases m) auto

lemma ebind_cong [fundef_cong]:
  "m = m' \<Longrightarrow> (\<And>a. m' = Inr a \<Longrightarrow> f a = f' a) \<Longrightarrow> ebind m f = ebind m' f'"
  by (cases m') auto

lemma ebind_assoc: "ebind (ebind m f) g = ebind m (\<lambda>a. ebind (f a) g)"
  by (cases m) auto

lemma emap_simps [simp, result_simps]:
  "emap f (Inl e) = Inl e"
  "emap f (Inr a) = Inr (f a)"
  by (simp_all add: emap_def)

lemma emap_Inr_conv [result_simps]: "emap f m = Inr b \<longleftrightarrow> (\<exists>a. m = Inr a \<and> b = f a)"
  by (cases m) auto

lemma emap_Inl_conv [result_simps]: "emap f m = Inl e \<longleftrightarrow> m = Inl e"
  by (cases m) auto

lemma try_catch_simps [simp, result_simps]:
  "try_catch (Inl e) h = h e"
  "try_catch (Inr a) h = Inr a"
  by (simp_all add: try_catch_def)

text \<open>\<open>if (c) throw e;\<close> followed by the rest.\<close>

definition throw_if :: "'e + bool \<Rightarrow> 'e \<Rightarrow> 'e + 'a \<Rightarrow> 'e + 'a" where
  "throw_if c e k = ebind c (\<lambda>b. if b then Inl e else k)"

lemma throw_if_Inr_conv [result_simps]: "throw_if c e k = Inr x \<longleftrightarrow> c = Inr False \<and> k = Inr x"
  by (auto simp: throw_if_def ebind_def split: sum.splits)

lemma throw_if_simps [simp]:
  "throw_if (Inr True) e k = Inl e" "throw_if (Inr False) e k = k" "throw_if (Inl e') e k = Inl e'"
  by (simp_all add: throw_if_def)

fun mapE :: "('a \<Rightarrow> 'e + 'b) \<Rightarrow> 'a list \<Rightarrow> 'e + 'b list" where
  "mapE f [] = Inr []"
| "mapE f (x # xs) = ebind (f x) (\<lambda>y. ebind (mapE f xs) (\<lambda>ys. Inr (y # ys)))"

lemma mapE_cong [fundef_cong]:
  "xs = ys \<Longrightarrow> (\<And>x. x \<in> set ys \<Longrightarrow> f x = g x) \<Longrightarrow> mapE f xs = mapE g ys"
  by (induction ys arbitrary: xs) auto

lemma mapE_Inr_iff: "mapE f xs = Inr ys \<longleftrightarrow> list_all2 (\<lambda>x y. f x = Inr y) xs ys"
  by (induction xs arbitrary: ys) (auto simp: result_simps list_all2_Cons1)

lemma mapE_all_Inr: "(\<And>x. x \<in> set xs \<Longrightarrow> f x = Inr (g x)) \<Longrightarrow> mapE f xs = Inr (map g xs)"
  by (induction xs) auto

lemma mapE_length: "mapE f xs = Inr ys \<Longrightarrow> length ys = length xs"
  by (auto simp: mapE_Inr_iff dest: list_all2_lengthD)

section \<open>Guards\<close>

text \<open>A condition \<open>c1 || c2 || ..\<close> whose parts may throw, evaluated from the left.\<close>

fun anyE :: "('e + bool) list \<Rightarrow> 'e + bool" where
  "anyE [] = Inr False"
| "anyE (m # ms) = ebind m (\<lambda>b. if b then Inr True else anyE ms)"

text \<open>A condition \<open>c1 && c2 && ..\<close>.\<close>

fun allE :: "('e + bool) list \<Rightarrow> 'e + bool" where
  "allE [] = Inr True"
| "allE (m # ms) = ebind m (\<lambda>b. if b then allE ms else Inr False)"

definition negE :: "'e + bool \<Rightarrow> 'e + bool" where
  "negE m = emap Not m"

text \<open>A sequence \<open>if (c1) return k1; if (c2) return k2; .. return null\<close>.\<close>

fun first_code :: "(('e + bool) \<times> 'c) list \<Rightarrow> 'e + 'c option" where
  "first_code [] = Inr None"
| "first_code ((m, k) # gs) = ebind m (\<lambda>b. if b then Inr (Some k) else first_code gs)"

text \<open>\<open>const code = m; if (code) return code;\<close> followed by the rest of the function.\<close>

definition or_code :: "'e + 'c option \<Rightarrow> 'e + 'c option \<Rightarrow> 'e + 'c option" where
  "or_code m k = ebind m (\<lambda>code. case code of Some c \<Rightarrow> Inr (Some c) | None \<Rightarrow> k)"

lemma or_code_None_iff [guard_simps]: "or_code m k = Inr None \<longleftrightarrow> m = Inr None \<and> k = Inr None"
  by (auto simp: or_code_def result_simps split: option.splits)

lemma or_code_simps [simp]:
  "or_code (Inl e) k = Inl e" "or_code (Inr (Some c)) k = Inr (Some c)" "or_code (Inr None) k = k"
  by (simp_all add: or_code_def)

lemma negE_conv [result_simps]:
  "negE m = Inr b \<longleftrightarrow> m = Inr (\<not> b)"
  "negE m = Inl e \<longleftrightarrow> m = Inl e"
  by (cases m; auto simp: negE_def)+

lemma anyE_False_iff [guard_simps]: "anyE ms = Inr False \<longleftrightarrow> (\<forall>m \<in> set ms. m = Inr False)"
  by (induction ms) (auto simp: result_simps)

lemma allE_True_iff [guard_simps]: "allE ms = Inr True \<longleftrightarrow> (\<forall>m \<in> set ms. m = Inr True)"
  by (induction ms) (auto simp: result_simps)

lemma first_code_None_iff [guard_simps]:
  "first_code gs = Inr None \<longleftrightarrow> (\<forall>(m, k) \<in> set gs. m = Inr False)"
  by (induction gs rule: first_code.induct) (auto simp: result_simps)

lemma first_code_Some_cases:
  "first_code gs = Inr (Some k) \<Longrightarrow>
   \<exists>pre m post. gs = pre @ (m, k) # post \<and> m = Inr True \<and> (\<forall>(m', k') \<in> set pre. m' = Inr False)"
proof (induction gs rule: first_code.induct)
  case (2 m k' gs)
  show ?case
  proof (cases "m = Inr True")
    case True
    with "2.prems" have "(m, k') # gs = [] @ (m, k) # gs" by simp
    with True show ?thesis by fastforce
  next
    case False
    with "2.prems" have m: "m = Inr False" and rest: "first_code gs = Inr (Some k)"
      by (auto simp: result_simps split: if_splits)
    from "2.IH" [OF m] rest obtain pre m' post
      where "gs = pre @ (m', k) # post" "m' = Inr True" "\<forall>(m'', k'') \<in> set pre. m'' = Inr False"
      by auto
    with m have "(m, k') # gs = ((m, k') # pre) @ (m', k) # post \<and> m' = Inr True \<and>
        (\<forall>(m'', k'') \<in> set ((m, k') # pre). m'' = Inr False)" by auto
    then show ?thesis by blast
  qed
qed simp

lemma first_code_in_range: "first_code gs = Inr (Some k) \<Longrightarrow> k \<in> snd ` set gs"
  by (drule first_code_Some_cases) force

text \<open>Guard sequences are reasoned about by the inversion lemmas, not by unfolding.\<close>

lemmas guard_eval = anyE.simps allE.simps first_code.simps

declare anyE.simps [simp del] allE.simps [simp del] first_code.simps [simp del]

section \<open>Association lists in insertion order\<close>

text \<open>
  A plain JavaScript object is an association list with distinct keys.  \<open>upsert\<close> is
  property assignment: an existing key keeps its position.
\<close>

fun upsert :: "'k \<Rightarrow> 'v \<Rightarrow> ('k \<times> 'v) list \<Rightarrow> ('k \<times> 'v) list" where
  "upsert k v [] = [(k, v)]"
| "upsert k v ((k', v') # ps) = (if k' = k then (k, v) # ps else (k', v') # upsert k v ps)"

definition remove_key :: "'k \<Rightarrow> ('k \<times> 'v) list \<Rightarrow> ('k \<times> 'v) list" where
  "remove_key k ps = filter (\<lambda>p. fst p \<noteq> k) ps"

lemma map_of_upsert [simp]: "map_of (upsert k v ps) = (map_of ps)(k \<mapsto> v)"
  by (induction k v ps rule: upsert.induct) (auto simp: fun_eq_iff)

lemma map_of_remove_key [simp]: "map_of (remove_key k ps) = (map_of ps)(k := None)"
  by (induction ps) (auto simp: remove_key_def fun_eq_iff)

lemma distinct_upsert: "distinct (map fst ps) \<Longrightarrow> distinct (map fst (upsert k v ps))"
proof (induction k v ps rule: upsert.induct)
  case (2 k v k' v' ps)
  have "set (map fst (upsert k v ps)) = insert k (set (map fst ps))" for ps :: "('a \<times> 'b) list"
    by (induction k v ps rule: upsert.induct) auto
  with 2 show ?case by auto
qed simp

lemma distinct_remove_key: "distinct (map fst ps) \<Longrightarrow> distinct (map fst (remove_key k ps))"
  by (induction ps) (auto simp: remove_key_def)

section \<open>Lists\<close>

lemma map_of_mapk_inj:
  "inj f \<Longrightarrow> map_of (map (\<lambda>(k, v). (f k, v)) ps) (f k) = map_of ps k"
  by (induction ps) (auto dest: injD)

lemma filter_distinct_map: "distinct (map f xs) \<Longrightarrow> distinct (map f (filter P xs))"
  by (induction xs) auto

lemma list_all2_eq_map: "list_all2 (\<lambda>x y. y = f x) xs ys \<longleftrightarrow> ys = map f xs"
  by (induction xs arbitrary: ys) (auto simp: list_all2_Cons1)

end
