(* ===== verification/JsNumber.thy ===== *)
theory JsNumber
  imports Prelude Complex_Main "HOL-Library.Log_Nat"
begin

text \<open>
  The Number type of JavaScript: IEEE 754 binary64.

  A finite non-zero number is represented by its exact rational value; \<open>-0\<close>, the two
  infinities and \<open>NaN\<close> are constructors of their own.  \<open>to_double\<close> rounds a rational to
  the nearest binary64 value, ties to even, with gradual underflow and overflow to infinity;
  \<open>is_double\<close> says that a rational is exactly a binary64 value, and \<open>is_double_iff\<close> gives
  the usual description by a 53 bit significand and an exponent between -1074 and 971.
\<close>

datatype number = Fin rat | NegZero | PInf | NInf | NaN

section \<open>Integer logarithms of positive rationals\<close>

definition ilog :: "nat \<Rightarrow> rat \<Rightarrow> int" where
  "ilog b a =
     (let (p, q) = quotient_of a;
          d = int (floorlog b (nat p)) - int (floorlog b (nat q))
      in if of_nat b powi d \<le> a then d else d - 1)"

lemma ilog_bounds:
  assumes "0 < a" and b: "1 < b"
  shows "of_nat b powi (ilog b a) \<le> a" and "a < of_nat b powi (ilog b a + 1)"
proof -
  obtain p q where pq: "quotient_of a = (p, q)" by (cases "quotient_of a")
  have q: "0 < q" using quotient_of_denom_pos [OF pq] .
  have a: "a = of_int p / of_int q" using quotient_of_div [OF pq] .
  have p: "0 < p" using \<open>0 < a\<close> q unfolding a by (simp add: zero_less_divide_iff)
  define P where "P = floorlog b (nat p)"
  define Q where "Q = floorlog b (nat q)"
  define B where "B = (of_nat b :: rat)"
  have B: "1 < B" using b by (simp add: B_def)
  have B0: "B \<noteq> 0" "0 < B" using B by auto
  have rn: "(of_int x :: rat) = of_nat (nat x)" if "0 < x" for x using that by simp
  have p1: "B powi (int P - 1) \<le> of_int p" and p2: "of_int p < B powi int P"
  proof -
    have *: "b ^ (P - 1) \<le> nat p \<and> nat p < b ^ P"
      unfolding P_def by (rule floorlog_bounds) (use p b in auto)
    have "P \<noteq> 0" using * p by (cases P) auto
    then have e: "int P - 1 = int (P - 1)" by simp
    have "of_nat (b ^ (P - 1)) \<le> (of_nat (nat p) :: rat)" using * by (simp only: of_nat_le_iff)
    then show "B powi (int P - 1) \<le> of_int p" using p by (simp add: e B_def)
    have "(of_nat (nat p) :: rat) < of_nat (b ^ P)" using * by (simp only: of_nat_less_iff)
    then show "of_int p < B powi int P" using p by (simp add: B_def)
  qed
  have q1: "B powi (int Q - 1) \<le> of_int q" and q2: "of_int q < B powi int Q"
  proof -
    have *: "b ^ (Q - 1) \<le> nat q \<and> nat q < b ^ Q"
      unfolding Q_def by (rule floorlog_bounds) (use q b in auto)
    have "Q \<noteq> 0" using * q by (cases Q) auto
    then have e: "int Q - 1 = int (Q - 1)" by simp
    have "of_nat (b ^ (Q - 1)) \<le> (of_nat (nat q) :: rat)" using * by (simp only: of_nat_le_iff)
    then show "B powi (int Q - 1) \<le> of_int q" using q by (simp add: e B_def)
    have "(of_nat (nat q) :: rat) < of_nat (b ^ Q)" using * by (simp only: of_nat_less_iff)
    then show "of_int q < B powi int Q" using q by (simp add: B_def)
  qed
  define d where "d = int P - int Q"
  have lo: "B powi (d - 1) \<le> a"
  proof -
    have "B powi (d - 1) * of_int q \<le> B powi (d - 1) * B powi int Q"
      using q2 B0 by (intro mult_left_mono) auto
    also have "\<dots> = B powi (d - 1 + int Q)" using B0 by (simp only: power_int_add simp_thms)
    also have "\<dots> = B powi (int P - 1)" by (simp add: d_def)
    finally have "B powi (d - 1) * of_int q \<le> of_int p" using p1 by linarith
    then show ?thesis unfolding a using q by (simp add: pos_le_divide_eq)
  qed
  have hi: "a < B powi (d + 1)"
  proof -
    have "of_int p < B powi (d + 1) * B powi (int Q - 1)"
      using p2 B0 by (simp add: d_def flip: power_int_add)
    also have "\<dots> \<le> B powi (d + 1) * of_int q"
      using q1 B0 by (intro mult_left_mono) auto
    finally show ?thesis unfolding a using q by (simp add: pos_divide_less_eq)
  qed
  have il: "ilog b a = (if B powi d \<le> a then d else d - 1)"
    by (simp add: ilog_def pq d_def P_def Q_def B_def)
  show "of_nat b powi (ilog b a) \<le> a"
    using lo unfolding il B_def by simp
  show "a < of_nat b powi (ilog b a + 1)"
    using hi unfolding il B_def by (auto split: if_splits)
qed

lemma powi_le_less_exponent:
  fixes B :: rat
  assumes "1 < B" "B powi i \<le> a" "a < B powi j"
  shows "i < j"
proof (rule ccontr)
  assume "\<not> i < j"
  then have "B powi j \<le> B powi i" using assms(1) by (intro power_int_increasing) auto
  with assms show False by linarith
qed

lemma ilog_unique:
  assumes "1 < b" "of_nat b powi e \<le> a" "a < of_nat b powi (e + 1)"
  shows "ilog b a = e"
proof -
  have "0 < (of_nat b :: rat) powi e" using assms(1) by simp
  then have a: "0 < a" using assms(2) by linarith
  have B: "1 < (of_nat b :: rat)" using assms(1) by simp
  note bs = ilog_bounds [OF a assms(1)]
  have "ilog b a < e + 1" by (rule powi_le_less_exponent [OF B bs(1) assms(3)])
  moreover have "e < ilog b a + 1" by (rule powi_le_less_exponent [OF B assms(2) bs(2)])
  ultimately show ?thesis by linarith
qed

section \<open>Rounding to binary64\<close>

definition round_half_even :: "rat \<Rightarrow> int" where
  "round_half_even x =
     (let f = \<lfloor>x\<rfloor>; d = x - of_int f
      in if d < 1 / 2 then f else if 1 / 2 < d then f + 1 else if even f then f else f + 1)"

definition quantum :: "rat \<Rightarrow> int" where
  "quantum a = max (ilog 2 a - 52) (- 1074)"

definition round_mag :: "rat \<Rightarrow> rat" where
  "round_mag a = (let e = quantum a in of_int (round_half_even (a / 2 powi e)) * 2 powi e)"

definition to_double :: "rat \<Rightarrow> number" where
  "to_double q =
     (if q = 0 then Fin 0
      else let r = round_mag \<bar>q\<bar>
           in if 2 ^ 1024 \<le> r then (if q < 0 then NInf else PInf)
              else if q < 0 then (if r = 0 then NegZero else Fin (- r)) else Fin r)"

definition is_double :: "rat \<Rightarrow> bool" where
  "is_double q \<longleftrightarrow> to_double q = Fin q"

definition wf_number :: "number \<Rightarrow> bool" where
  "wf_number n = (case n of Fin q \<Rightarrow> is_double q | _ \<Rightarrow> True)"

lemma round_half_even_of_int [simp]: "round_half_even (of_int n) = n"
  by (simp add: round_half_even_def)

lemma round_half_even_mono_int:
  "of_int k \<le> x \<Longrightarrow> k \<le> round_half_even x"
  "x \<le> of_int k \<Longrightarrow> round_half_even x \<le> k"
proof -
  assume "of_int k \<le> x"
  then have "k \<le> \<lfloor>x\<rfloor>" by (simp add: le_floor_iff)
  then show "k \<le> round_half_even x" by (simp add: round_half_even_def Let_def)
next
  assume x: "x \<le> of_int k"
  show "round_half_even x \<le> k"
  proof (cases "x = of_int k")
    case False
    with x have "x < of_int k" by simp
    then have "\<lfloor>x\<rfloor> < k" by (simp add: floor_less_iff)
    then have "\<lfloor>x\<rfloor> + 1 \<le> k" by simp
    then show ?thesis by (auto simp add: round_half_even_def Let_def)
  qed simp
qed

lemma round_mag_exact:
  assumes "a / 2 powi (quantum a) = of_int m"
  shows "round_mag a = a"
proof -
  have "a = of_int m * 2 powi (quantum a)" using assms by (simp add: field_simps)
  then show ?thesis using assms by (simp add: round_mag_def Let_def)
qed

lemma powi_int_div:
  fixes e q :: int
  assumes "q \<le> e"
  shows "of_int m * 2 powi e / (2 powi q :: rat) = of_int (m * 2 ^ nat (e - q))"
proof -
  have "(2 :: rat) powi e = 2 powi (e - q) * 2 powi q" by (simp flip: power_int_add)
  moreover have "(2 :: rat) powi (e - q) = 2 ^ nat (e - q)"
    using assms by (simp add: power_int_def)
  ultimately show ?thesis by simp
qed

lemma round_mag_scaled:
  assumes m: "0 < m" "m \<le> 2 ^ 53" and e: "- 1074 \<le> e"
  shows "round_mag (of_int m * 2 powi e) = of_int m * 2 powi e"
proof -
  let ?a = "of_int m * 2 powi e :: rat"
  have a: "0 < ?a" using m by simp
  note il = ilog_bounds [OF a, of 2, simplified]
  show ?thesis
  proof (cases "quantum ?a \<le> e")
    case True
    show ?thesis by (rule round_mag_exact, rule powi_int_div [OF True])
  next
    case False
    then have q: "quantum ?a = ilog 2 ?a - 52" and gt: "e + 53 \<le> ilog 2 ?a"
      using e by (auto simp: quantum_def)
    have "(2 :: rat) powi (e + 53) \<le> 2 powi (ilog 2 ?a)"
      using gt by (intro power_int_increasing) auto
    with il(1) have "2 powi (e + 53) \<le> ?a" by linarith
    then have "(2 :: rat) ^ 53 * 2 powi e \<le> of_int m * 2 powi e"
      by (simp add: power_int_add mult.commute)
    then have "(2 :: rat) ^ 53 \<le> of_int m" by simp
    then have "(of_int (2 ^ 53) :: rat) \<le> of_int m" by simp
    then have "2 ^ 53 \<le> m" by (simp only: of_int_le_iff)
    with m have m': "m = 2 ^ 53" by simp
    have a': "?a = of_int 1 * 2 powi (e + 53)" by (simp add: m' power_int_add mult.commute)
    have "ilog 2 ?a = e + 53"
    proof (rule ilog_unique)
      show "of_nat 2 powi (e + 53) \<le> ?a" by (simp add: a')
      have "(2 :: rat) powi (e + 53) < 2 powi (e + 53 + 1)"
        by (intro power_int_strict_increasing) auto
      then show "?a < of_nat 2 powi (e + 53 + 1)" by (simp add: a')
    qed simp
    then have "quantum ?a \<le> e + 53" using q by simp
    then show ?thesis
      using round_mag_exact [of "of_int 1 * 2 powi (e + 53)"] powi_int_div a' by metis
  qed
qed

text \<open>Rounding a magnitude is monotone against every double.\<close>

lemma round_mag_bound:
  assumes a: "0 < a" and m: "0 < m" "m \<le> 2 ^ 53" and e: "- 1074 \<le> e"
  shows "a \<le> of_int m * 2 powi e \<Longrightarrow> round_mag a \<le> of_int m * 2 powi e"
    and "of_int m * 2 powi e \<le> a \<Longrightarrow> of_int m * 2 powi e \<le> round_mag a"
proof -
  let ?d = "of_int m * 2 powi e :: rat" and ?q = "quantum a"
  have p: "0 < (2 :: rat) powi ?q" by simp
  have scale: "x \<le> of_int k * 2 powi ?q \<longleftrightarrow> x / 2 powi ?q \<le> of_int k"
    "of_int k * 2 powi ?q \<le> x \<longleftrightarrow> of_int k \<le> x / 2 powi ?q" for x :: rat and k
    using p by (simp_all add: pos_divide_le_eq pos_le_divide_eq)
  have upper: "round_mag a \<le> of_int k * 2 powi ?q" if "a \<le> of_int k * 2 powi ?q" for k
    using round_half_even_mono_int(2) [of "a / 2 powi ?q" k] that scale(1) [of a k] p
    by (auto simp: round_mag_def Let_def)
  have lower: "of_int k * 2 powi ?q \<le> round_mag a" if "of_int k * 2 powi ?q \<le> a" for k
    using round_half_even_mono_int(1) [of k "a / 2 powi ?q"] that scale(2) [of k a] p
    by (auto simp: round_mag_def Let_def)
  have "?d \<le> of_int (2 ^ 52) * 2 powi ?q \<and> of_int (2 ^ 52) * 2 powi ?q \<le> a" if "e < ?q"
  proof
    have q: "?q = ilog 2 a - 52" using that e by (auto simp: quantum_def max_def split: if_splits)
    have "(2 :: rat) powi (ilog 2 a) = of_int (2 ^ 52) * 2 powi ?q"
      using power_int_add [of "2 :: rat" 52 ?q] q by simp
    then show "of_int (2 ^ 52) * 2 powi ?q \<le> a" using ilog_bounds(1) [OF a, of 2] by simp
    have "?d \<le> of_int (2 ^ 53) * 2 powi (?q - 1)"
      using m that by (intro mult_mono power_int_increasing) (simp_all only: of_int_le_iff, simp_all)
    also have "\<dots> = of_int (2 ^ 52) * 2 powi ?q"
      using power_int_add [of "2 :: rat" 1 "?q - 1"] by simp
    finally show "?d \<le> of_int (2 ^ 52) * 2 powi ?q" .
  qed
  moreover have "\<exists>k. ?d = of_int k * 2 powi ?q" if "?q \<le> e"
    using powi_int_div [OF that, of m] p by (intro exI [of _ "m * 2 ^ nat (e - ?q)"]) (simp add: divide_eq_eq)
  ultimately show "a \<le> ?d \<Longrightarrow> round_mag a \<le> ?d" "?d \<le> a \<Longrightarrow> ?d \<le> round_mag a"
    using upper lower by (metis dual_order.trans linorder_not_le order_refl)+
qed

lemma to_double_scaled:
  assumes m: "\<bar>m\<bar> \<le> 2 ^ 53" and e: "- 1074 \<le> e" and b: "\<bar>of_int m * 2 powi e :: rat\<bar> < 2 ^ 1024"
  shows "to_double (of_int m * 2 powi e) = Fin (of_int m * 2 powi e)"
proof (cases "m = 0")
  case True
  then show ?thesis by (simp add: to_double_def)
next
  case False
  have ab: "\<bar>of_int m * 2 powi e :: rat\<bar> = of_int \<bar>m\<bar> * 2 powi e" by (simp add: abs_mult)
  have "round_mag \<bar>of_int m * 2 powi e\<bar> = \<bar>of_int m * 2 powi e\<bar>"
    unfolding ab using False m e by (intro round_mag_scaled) auto
  then show ?thesis using False b by (auto simp: to_double_def Let_def)
qed

lemma round_mag_scaled_form:
  assumes "0 < a"
  shows "\<exists>m e. round_mag a = of_int m * 2 powi e \<and> 0 \<le> m \<and> m \<le> 2 ^ 53 \<and> - 1074 \<le> e"
proof -
  define e where "e = quantum a"
  define m where "m = round_half_even (a / 2 powi e)"
  have "0 \<le> a / 2 powi e" using assms by simp
  then have "0 \<le> m" unfolding m_def by (intro round_half_even_mono_int(1)) simp
  moreover have "m \<le> 2 ^ 53"
  proof -
    have "a < 2 powi (ilog 2 a + 1)" using ilog_bounds(2) [OF assms, of 2] by simp
    also have "\<dots> \<le> 2 powi (53 + e)"
      by (intro power_int_increasing) (auto simp: e_def quantum_def)
    finally have "a / 2 powi e \<le> 2 ^ 53" by (simp add: power_int_add field_simps)
    then show ?thesis unfolding m_def by (intro round_half_even_mono_int(2)) simp
  qed
  moreover have "- 1074 \<le> e" by (simp add: e_def quantum_def)
  moreover have "round_mag a = of_int m * 2 powi e" by (simp add: round_mag_def m_def e_def Let_def)
  ultimately show ?thesis by blast
qed

lemma to_double_Fin_form:
  assumes "to_double q = Fin r"
  shows "\<exists>m e. r = of_int m * 2 powi e \<and> \<bar>m\<bar> \<le> 2 ^ 53 \<and> - 1074 \<le> e \<and> \<bar>r\<bar> < 2 ^ 1024"
proof (cases "q = 0")
  case True
  with assms have "r = of_int 0 * 2 powi 0" by (simp add: to_double_def)
  then show ?thesis by (intro exI [of _ 0]) simp
next
  case False
  then obtain m e where me: "round_mag \<bar>q\<bar> = of_int m * 2 powi e" "0 \<le> m" "m \<le> 2 ^ 53" "- 1074 \<le> e"
    using round_mag_scaled_form [of "\<bar>q\<bar>"] by auto
  then have nn: "0 \<le> round_mag \<bar>q\<bar>" by simp
  show ?thesis
  proof (cases "q < 0")
    case True
    with assms False have "r = - round_mag \<bar>q\<bar>" "round_mag \<bar>q\<bar> < 2 ^ 1024"
      by (auto simp: to_double_def Let_def split: if_splits)
    then have "r = of_int (- m) * 2 powi e \<and> \<bar>- m\<bar> \<le> 2 ^ 53 \<and> - 1074 \<le> e \<and> \<bar>r\<bar> < 2 ^ 1024"
      using me nn by simp
    then show ?thesis by blast
  next
    case F: False
    with assms False have "r = round_mag \<bar>q\<bar>" "round_mag \<bar>q\<bar> < 2 ^ 1024"
      by (auto simp: to_double_def Let_def split: if_splits)
    then have "r = of_int m * 2 powi e \<and> \<bar>m\<bar> \<le> 2 ^ 53 \<and> - 1074 \<le> e \<and> \<bar>r\<bar> < 2 ^ 1024"
      using me nn by simp
    then show ?thesis by blast
  qed
qed

lemma is_double_iff:
  "is_double q \<longleftrightarrow>
     (\<exists>m e. q = of_int m * 2 powi e \<and> \<bar>m\<bar> \<le> 2 ^ 53 \<and> - 1074 \<le> e \<and> \<bar>q\<bar> < 2 ^ 1024)"
  unfolding is_double_def using to_double_Fin_form to_double_scaled by blast

lemma to_double_is_double: "to_double q = Fin r \<Longrightarrow> is_double r"
  unfolding is_double_iff by (rule to_double_Fin_form)

lemma wf_to_double [simp]: "wf_number (to_double q)"
  by (cases "to_double q") (auto simp: wf_number_def intro: to_double_is_double)

lemma is_double_of_int:
  assumes "\<bar>n\<bar> \<le> 2 ^ 53"
  shows "is_double (of_int n)"
proof -
  have "\<bar>of_int n :: rat\<bar> = of_int \<bar>n\<bar>" by simp
  also have "\<dots> \<le> of_int (2 ^ 53)" using assms by (simp only: of_int_le_iff)
  also have "\<dots> < 2 ^ 1024" by simp
  finally have "\<bar>of_int n :: rat\<bar> < 2 ^ 1024" .
  then have "(of_int n :: rat) = of_int n * 2 powi 0 \<and> \<bar>n\<bar> \<le> 2 ^ 53 \<and> - 1074 \<le> (0 :: int) \<and>
      \<bar>of_int n :: rat\<bar> < 2 ^ 1024" using assms by (simp del: of_int_abs)
  then show ?thesis unfolding is_double_iff by blast
qed

lemma is_double_0 [simp]: "is_double 0"
  using is_double_of_int [of 0] by simp

lemma is_double_minus [simp]: "is_double (- q) \<longleftrightarrow> is_double q"
proof -
  have "is_double (- q)" if "is_double q" for q
  proof -
    from that obtain m e where me: "q = of_int m * 2 powi e" "\<bar>m\<bar> \<le> 2 ^ 53" "- 1074 \<le> e" "\<bar>q\<bar> < 2 ^ 1024"
      unfolding is_double_iff by blast
    then have "- q = of_int (- m) * 2 powi e \<and> \<bar>- m\<bar> \<le> 2 ^ 53 \<and> - 1074 \<le> e \<and> \<bar>- q\<bar> < 2 ^ 1024"
      by simp
    then show ?thesis unfolding is_double_iff by blast
  qed
  from this [of q] this [of "- q"] show ?thesis by auto
qed

lemma scaled_pow10_int:
  fixes e :: int
  assumes "- int N \<le> e"
  shows "\<exists>n. of_int m * 2 powi e * (10 :: rat) ^ N = of_int n"
proof -
  have "(2 :: rat) powi e = 2 powi (e + int N) * 2 powi (- int N)" by (simp flip: power_int_add)
  also have "(2 :: rat) powi (e + int N) = of_int (2 ^ nat (e + int N))"
    using assms by (simp add: power_int_def)
  also have "(2 :: rat) powi (- int N) = inverse (2 ^ N)" by (simp add: power_int_minus)
  finally have two: "(2 :: rat) powi e = of_int (2 ^ nat (e + int N)) / 2 ^ N"
    by (simp add: divide_inverse)
  have ten: "(10 :: rat) ^ N = 2 ^ N * 5 ^ N"
    by (simp flip: power_mult_distrib)
  have "of_int m * 2 powi e * (10 :: rat) ^ N = of_int (m * 2 ^ nat (e + int N) * 5 ^ N)"
    unfolding two ten by simp
  then show ?thesis by blast
qed

lemma is_double_pow10_int:
  assumes "is_double q"
  shows "\<exists>n. q * 10 ^ 1074 = of_int n"
proof -
  from assms obtain m e where q: "q = of_int m * 2 powi e" and e: "- 1074 \<le> e"
    unfolding is_double_iff by blast
  have "- int 1074 \<le> e" using e by simp
  then show ?thesis unfolding q by (rule scaled_pow10_int)
qed

section \<open>Operators\<close>

text \<open>\<open>===\<close> and \<open><=\<close> on numbers, \<open>Number.isFinite\<close> and \<open>Number.isInteger\<close>.\<close>

fun num_value :: "number \<Rightarrow> rat option" where
  "num_value (Fin q) = Some q"
| "num_value NegZero = Some 0"
| "num_value _ = None"

definition num_eq :: "number \<Rightarrow> number \<Rightarrow> bool" where
  "num_eq x y =
     (case (num_value x, num_value y) of
        (Some p, Some q) \<Rightarrow> p = q
      | (None, None) \<Rightarrow> x = y \<and> x \<noteq> NaN
      | _ \<Rightarrow> False)"

fun num_le :: "number \<Rightarrow> number \<Rightarrow> bool" where
  "num_le NaN y = False"
| "num_le x NaN = False"
| "num_le NInf y = True"
| "num_le x PInf = True"
| "num_le PInf y = False"
| "num_le x NInf = False"
| "num_le x y = (the (num_value x) \<le> the (num_value y))"

definition num_lt :: "number \<Rightarrow> number \<Rightarrow> bool" where
  "num_lt x y = (num_le x y \<and> \<not> num_eq x y)"

definition is_finite :: "number \<Rightarrow> bool" where
  "is_finite x = (num_value x \<noteq> None)"

definition is_integer :: "number \<Rightarrow> bool" where
  "is_integer x = (case num_value x of Some q \<Rightarrow> q \<in> \<int> | None \<Rightarrow> False)"

definition num_of_nat :: "nat \<Rightarrow> number" where
  "num_of_nat n = to_double (of_nat n)"

lemma num_of_nat_small: "n \<le> 2 ^ 53 \<Longrightarrow> num_of_nat n = Fin (of_nat n)"
  using is_double_of_int [of "int n"] by (simp add: num_of_nat_def is_double_def)

lemma is_finite_simps [simp, js_simps]:
  "is_finite (Fin q)" "is_finite NegZero" "\<not> is_finite PInf" "\<not> is_finite NInf" "\<not> is_finite NaN"
  by (simp_all add: is_finite_def)

lemma num_le_Fin [simp, js_simps]: "num_le (Fin p) (Fin q) = (p \<le> q)"
  by simp

lemma num_le_lt_cases: "x \<noteq> NaN \<Longrightarrow> y \<noteq> NaN \<Longrightarrow> num_le x y \<or> num_lt y x"
  by (cases x; cases y) (auto simp: num_lt_def num_eq_def)

lemma num_lt_le_trans: "num_lt x y \<Longrightarrow> num_le y z \<Longrightarrow> num_lt x z"
  by (cases x; cases y; cases z) (auto simp: num_lt_def num_eq_def)

section \<open>Rounding is monotone\<close>

lemma round_mag_nonneg: "0 < a \<Longrightarrow> 0 \<le> round_mag a"
  using round_mag_scaled_form [of a] by auto

lemma round_mag_double_bound:
  assumes "0 < a" "is_double d" "0 < d"
  shows "a \<le> d \<Longrightarrow> round_mag a \<le> d" and "d \<le> a \<Longrightarrow> d \<le> round_mag a"
proof -
  obtain m e where d: "d = of_int m * 2 powi e" "\<bar>m\<bar> \<le> 2 ^ 53" "- 1074 \<le> e"
    using assms(2) by (auto simp: is_double_iff)
  have "0 < (2 :: rat) powi e" by simp
  then have m: "0 < m" using assms(3) d(1) zero_less_mult_pos2 [of "of_int m :: rat" "2 powi e"] by simp
  show "a \<le> d \<Longrightarrow> round_mag a \<le> d" "d \<le> a \<Longrightarrow> d \<le> round_mag a"
    using round_mag_bound [OF assms(1) m _ d(3)] d m by simp_all
qed

lemma is_double_small: "is_double d \<Longrightarrow> \<bar>d\<bar> < 2 ^ 1024"
  by (auto simp: is_double_iff)

lemma to_double_cases:
  obtains (zero) "q = 0" "to_double q = Fin 0"
  | (pos) "0 < q" "2 ^ 1024 \<le> round_mag q \<and> to_double q = PInf \<or> round_mag q < 2 ^ 1024 \<and> to_double q = Fin (round_mag q)"
  | (neg) "q < 0" "2 ^ 1024 \<le> round_mag (- q) \<and> to_double q = NInf \<or> round_mag (- q) = 0 \<and> to_double q = NegZero \<or>
       round_mag (- q) < 2 ^ 1024 \<and> to_double q = Fin (- round_mag (- q))"
  by (cases q "0 :: rat" rule: linorder_cases) (auto simp: to_double_def Let_def split: if_splits)

text \<open>Rounding is monotone against every double.\<close>

lemma to_double_le:
  assumes d: "is_double d" and "q \<le> d"
  shows "num_le (to_double q) (Fin d)"
proof (cases q rule: to_double_cases)
  case zero
  then show ?thesis using assms by simp
next
  case pos
  then have "round_mag q \<le> d" "round_mag q < 2 ^ 1024"
    using round_mag_double_bound(1) [OF _ d] is_double_small [OF d] assms(2) by fastforce+
  then show ?thesis using pos by auto
next
  case neg
  have "- d \<le> round_mag (- q)"
    using round_mag_double_bound(2) [of "- q" "- d"] round_mag_nonneg [of "- q"] neg d assms(2)
    by (cases "d < 0") auto
  then show ?thesis using neg by (auto simp: num_lt_def num_eq_def)
qed

lemma to_double_ge:
  assumes d: "is_double d" and "d \<le> q"
  shows "num_le (Fin d) (to_double q)"
proof (cases q rule: to_double_cases)
  case zero
  then show ?thesis using assms by simp
next
  case neg
  then have "round_mag (- q) \<le> - d" "round_mag (- q) < 2 ^ 1024"
    using round_mag_double_bound(1) [of "- q" "- d"] is_double_small [OF d] d assms(2) by fastforce+
  then show ?thesis using neg by (auto simp: num_lt_def num_eq_def)
next
  case pos
  have "d \<le> round_mag q"
    using round_mag_double_bound(2) [of "q" "d"] round_mag_nonneg [of q] pos d assms(2)
    by (cases "0 < d") auto
  then show ?thesis using pos by (auto simp: num_lt_def num_eq_def)
qed

end
