(* ===== verification/JsString.thy ===== *)
theory JsString
  imports Prelude "HOL-Library.Word" "HOL-Library.List_Lexorder" "HOL-Library.Sublist"
begin

text \<open>
  JavaScript strings and the bytes they encode to.

  A string is a list of 16 bit code units, so unpaired surrogates are representable, exactly
  as in the language; \<open>u\<close> turns an ASCII literal into such a string.  The order of
  \<open>List_Lexorder\<close> on code unit lists is the order of \<open>Array.prototype.sort\<close>.
  \<open>utf8_encode\<close> is \<open>Buffer.from(s, 'utf8')\<close> (an unpaired surrogate becomes U+FFFD),
  \<open>utf8_decode\<close> the fatal UTF-8 decoder of \<open>TextDecoder\<close>; they are inverse on well-formed
  strings (\<open>utf8_decode_encode\<close>), which makes the encoding injective there.
  \<open>json_quote\<close> is \<open>JSON.stringify\<close> on a string.
\<close>

type_synonym code_unit = "16 word"
type_synonym jstring = "code_unit list"
type_synonym byte = "8 word"

definition u :: "string \<Rightarrow> jstring" where
  "u s = map of_char s"

lemma unat_code_unit: "unat (c :: code_unit) < 65536"
proof -
  have "unat c < 2 ^ LENGTH(16)" by (rule unsigned_less)
  then show ?thesis by simp
qed

lemma unat_byte: "unat (b :: byte) < 256"
proof -
  have "unat b < 2 ^ LENGTH(8)" by (rule unsigned_less)
  then show ?thesis by simp
qed

text \<open>Code units and bytes from natural numbers.\<close>

definition unit_of :: "nat \<Rightarrow> code_unit" where
  "unit_of n = of_nat n"

definition byte_of :: "nat \<Rightarrow> byte" where
  "byte_of n = of_nat n"

lemma unat_unit_of: "n < 65536 \<Longrightarrow> unat (unit_of n) = n"
  by (simp add: unit_of_def unat_of_nat)

lemma unat_byte_of: "n < 256 \<Longrightarrow> unat (byte_of n) = n"
  by (simp add: byte_of_def unat_of_nat)

lemma unit_of_unat [simp]: "unit_of (unat c) = c"
  by (simp add: unit_of_def)

lemma of_char_less: "(of_char c :: nat) < 256"
  by simp

lemma of_char_unit: "(of_char c :: code_unit) = unit_of (of_char c)"
  by (simp add: unit_of_def of_nat_of_char)

lemma of_char_unat: "unat (of_char c :: code_unit) = (of_char c :: nat)"
  unfolding of_char_unit by (rule unat_unit_of) (use of_char_less [of c] in linarith)

lemma of_char_word_inject: "(of_char c :: code_unit) = of_char d \<longleftrightarrow> c = d"
  by (metis of_char_unat of_char_eq_iff)

lemma u_inject [simp, js_simps]: "u s = u t \<longleftrightarrow> s = t"
  unfolding u_def by (rule inj_map_eq_map) (auto intro: injI simp: of_char_word_inject)

lemma inj_u: "inj u"
  by (rule injI) simp

lemma u_append: "u (s @ t) = u s @ u t"
  by (simp add: u_def)

section \<open>Surrogates and well-formed strings\<close>

definition is_high :: "code_unit \<Rightarrow> bool" where
  "is_high c \<longleftrightarrow> 0xD800 \<le> c \<and> c \<le> 0xDBFF"

definition is_low :: "code_unit \<Rightarrow> bool" where
  "is_low c \<longleftrightarrow> 0xDC00 \<le> c \<and> c \<le> 0xDFFF"

fun wf_utf16 :: "jstring \<Rightarrow> bool" where
  "wf_utf16 [] = True"
| "wf_utf16 (c # cs) =
     (if is_high c then (case cs of [] \<Rightarrow> False | d # ds \<Rightarrow> is_low d \<and> wf_utf16 ds)
      else \<not> is_low c \<and> wf_utf16 cs)"

lemma wf_utf16_induct [consumes 1, case_names Nil Bmp Pair]:
  assumes "wf_utf16 s"
    and "P []"
    and "\<And>c cs. \<not> is_high c \<Longrightarrow> \<not> is_low c \<Longrightarrow> wf_utf16 cs \<Longrightarrow> P cs \<Longrightarrow> P (c # cs)"
    and "\<And>c d cs. is_high c \<Longrightarrow> is_low d \<Longrightarrow> wf_utf16 cs \<Longrightarrow> P cs \<Longrightarrow> P (c # d # cs)"
  shows "P s"
  using assms(1)
proof (induction s rule: wf_utf16.induct)
  case (2 c cs)
  show ?case
  proof (cases "is_high c")
    case True
    with 2 obtain d ds where "cs = d # ds" "is_low d" "wf_utf16 ds" by (auto split: list.splits)
    with 2 True show ?thesis by (auto intro: assms(4))
  next
    case False
    with 2 show ?thesis by (auto intro: assms(3))
  qed
qed (rule assms(2))

lemma high_unat: "is_high c \<longleftrightarrow> 0xD800 \<le> unat c \<and> unat c \<le> 0xDBFF"
  by (simp add: is_high_def word_le_nat_alt)

lemma low_unat: "is_low c \<longleftrightarrow> 0xDC00 \<le> unat c \<and> unat c \<le> 0xDFFF"
  by (simp add: is_low_def word_le_nat_alt)

lemma not_high_and_low: "is_high c \<Longrightarrow> \<not> is_low c"
  unfolding high_unat low_unat by linarith

lemma wf_utf16_u [simp, js_simps]: "wf_utf16 (u s)"
proof (induction s)
  case (Cons c s)
  have "\<not> is_high (of_char c)" "\<not> is_low (of_char c)"
    using of_char_less [of c] unfolding high_unat low_unat of_char_unat by linarith+
  with Cons show ?case by (simp add: u_def)
qed (simp add: u_def)

section \<open>Code points\<close>

definition pair_value :: "code_unit \<Rightarrow> code_unit \<Rightarrow> nat" where
  "pair_value c d = 0x10000 + (unat c - 0xD800) * 0x400 + (unat d - 0xDC00)"

fun code_points :: "jstring \<Rightarrow> nat list" where
  "code_points [] = []"
| "code_points (c # cs) =
     (case cs of
        [] \<Rightarrow> [unat c]
      | d # ds \<Rightarrow> if is_high c \<and> is_low d then pair_value c d # code_points ds
                  else unat c # code_points cs)"

definition units_of_cp :: "nat \<Rightarrow> jstring" where
  "units_of_cp n =
     (if n < 0x10000 then [unit_of n]
      else [unit_of (0xD800 + (n - 0x10000) div 0x400), unit_of (0xDC00 + (n - 0x10000) mod 0x400)])"

lemma code_points_Bmp: "\<not> is_high c \<Longrightarrow> code_points (c # cs) = unat c # code_points cs"
  by (cases cs) auto

lemma code_points_Pair:
  "is_high c \<Longrightarrow> is_low d \<Longrightarrow> code_points (c # d # cs) = pair_value c d # code_points cs"
  by simp

lemma pair_value_bounds:
  "is_high c \<Longrightarrow> is_low d \<Longrightarrow> 0x10000 \<le> pair_value c d \<and> pair_value c d \<le> 0x10FFFF"
  unfolding pair_value_def high_unat low_unat by linarith

lemma units_of_pair:
  assumes "is_high c" "is_low d"
  shows "units_of_cp (pair_value c d) = [c, d]"
proof -
  from assms have b: "0xD800 \<le> unat c" "unat c \<le> 0xDBFF" "0xDC00 \<le> unat d" "unat d \<le> 0xDFFF"
    by (auto simp: high_unat low_unat)
  have lt: "unat d - 0xDC00 < 0x400" using b by linarith
  have "pair_value c d - 0x10000 = (unat c - 0xD800) * 0x400 + (unat d - 0xDC00)"
    by (simp add: pair_value_def)
  then have "(pair_value c d - 0x10000) div 0x400 = unat c - 0xD800"
    and "(pair_value c d - 0x10000) mod 0x400 = unat d - 0xDC00"
    using lt by auto
  then show ?thesis using b pair_value_bounds [OF assms] by (simp add: units_of_cp_def)
qed

lemma units_of_bmp: "units_of_cp (unat c) = [c]"
  using unat_code_unit [of c] by (simp add: units_of_cp_def)

lemma units_of_code_points: "wf_utf16 s \<Longrightarrow> concat (map units_of_cp (code_points s)) = s"
  by (induction s rule: wf_utf16_induct)
     (simp_all add: code_points_Bmp code_points_Pair units_of_bmp units_of_pair del: code_points.simps(2))

section \<open>UTF-8\<close>

definition utf8_cp :: "nat \<Rightarrow> byte list" where
  "utf8_cp n =
     (if n < 0x80 then [byte_of n]
      else if n < 0x800 then [byte_of (0xC0 + n div 0x40), byte_of (0x80 + n mod 0x40)]
      else if n < 0x10000 then
        [byte_of (0xE0 + n div 0x1000), byte_of (0x80 + (n div 0x40) mod 0x40), byte_of (0x80 + n mod 0x40)]
      else
        [byte_of (0xF0 + n div 0x40000), byte_of (0x80 + (n div 0x1000) mod 0x40),
         byte_of (0x80 + (n div 0x40) mod 0x40), byte_of (0x80 + n mod 0x40)])"

definition replace_surrogate :: "nat \<Rightarrow> nat" where
  "replace_surrogate n = (if 0xD800 \<le> n \<and> n \<le> 0xDFFF then 0xFFFD else n)"

definition utf8_encode :: "jstring \<Rightarrow> byte list" where
  "utf8_encode s = concat (map (\<lambda>n. utf8_cp (replace_surrogate n)) (code_points s))"

definition cont :: "nat \<Rightarrow> bool" where
  "cont b \<longleftrightarrow> 0x80 \<le> b \<and> b \<le> 0xBF"

text \<open>One code point of well-formed UTF-8, with the lower and upper bound of the second byte
  that exclude overlong forms, surrogates and values above U+10FFFF.\<close>

definition utf8_step :: "nat list \<Rightarrow> (nat \<times> nat) option" where
  "utf8_step bs =
     (case bs of
        [] \<Rightarrow> None
      | b0 # bs1 \<Rightarrow>
          if b0 < 0x80 then Some (b0, 1)
          else (case bs1 of
              [] \<Rightarrow> None
            | b1 # bs2 \<Rightarrow>
                if 0xC2 \<le> b0 \<and> b0 \<le> 0xDF \<and> cont b1 then Some ((b0 - 0xC0) * 0x40 + (b1 - 0x80), 2)
                else (case bs2 of
                    [] \<Rightarrow> None
                  | b2 # bs3 \<Rightarrow>
                      if 0xE0 \<le> b0 \<and> b0 \<le> 0xEF \<and> cont b1 \<and> cont b2 \<and>
                         (b0 = 0xE0 \<longrightarrow> 0xA0 \<le> b1) \<and> (b0 = 0xED \<longrightarrow> b1 \<le> 0x9F)
                      then Some ((b0 - 0xE0) * 0x1000 + (b1 - 0x80) * 0x40 + (b2 - 0x80), 3)
                      else (case bs3 of
                          [] \<Rightarrow> None
                        | b3 # _ \<Rightarrow>
                            if 0xF0 \<le> b0 \<and> b0 \<le> 0xF4 \<and> cont b1 \<and> cont b2 \<and> cont b3 \<and>
                               (b0 = 0xF0 \<longrightarrow> 0x90 \<le> b1) \<and> (b0 = 0xF4 \<longrightarrow> b1 \<le> 0x8F)
                            then Some ((b0 - 0xF0) * 0x40000 + (b1 - 0x80) * 0x1000
                                       + (b2 - 0x80) * 0x40 + (b3 - 0x80), 4)
                            else None))))"

lemma utf8_step_pos: "utf8_step bs = Some (n, k) \<Longrightarrow> 0 < k \<and> k \<le> length bs"
  by (auto simp: utf8_step_def split: list.splits if_splits)

function utf8_decode :: "byte list \<Rightarrow> jstring option" where
  "utf8_decode bs =
     (if bs = [] then Some []
      else (case utf8_step (map unat (take 4 bs)) of
          None \<Rightarrow> None
        | Some (n, k) \<Rightarrow> map_option (\<lambda>s. units_of_cp n @ s) (utf8_decode (drop k bs))))"
  by pat_completeness auto
termination
  by (relation "measure length") (auto dest: utf8_step_pos)

declare utf8_decode.simps [simp del]

lemma utf8_step_bytes:
  "a < 0x80 \<Longrightarrow> utf8_step (map unat [byte_of a] @ bs) = Some (a, 1)"
  "2 \<le> a \<Longrightarrow> a < 0x20 \<Longrightarrow> b < 0x40 \<Longrightarrow>
   utf8_step (map unat [byte_of (0xC0 + a), byte_of (0x80 + b)] @ bs) = Some (a * 0x40 + b, 2)"
  "a < 0x10 \<Longrightarrow> b < 0x40 \<Longrightarrow> c < 0x40 \<Longrightarrow> (a = 0 \<Longrightarrow> 0x20 \<le> b) \<Longrightarrow> (a = 0xD \<Longrightarrow> b \<le> 0x1F) \<Longrightarrow>
   utf8_step (map unat [byte_of (0xE0 + a), byte_of (0x80 + b), byte_of (0x80 + c)] @ bs) =
     Some (a * 0x1000 + b * 0x40 + c, 3)"
  "a < 5 \<Longrightarrow> b < 0x40 \<Longrightarrow> c < 0x40 \<Longrightarrow> d < 0x40 \<Longrightarrow> (a = 0 \<Longrightarrow> 0x10 \<le> b) \<Longrightarrow> (a = 4 \<Longrightarrow> b \<le> 0xF) \<Longrightarrow>
   utf8_step (map unat [byte_of (0xF0 + a), byte_of (0x80 + b), byte_of (0x80 + c), byte_of (0x80 + d)] @ bs) =
     Some (a * 0x40000 + b * 0x1000 + c * 0x40 + d, 4)"
  by (simp_all add: utf8_step_def unat_byte_of cont_def)

lemma split_base64: "n = n div 0x40 * 0x40 + n mod (0x40 :: nat)"
  by simp

lemma div_div_base64:
  "n div 0x40 div 0x40 = n div (0x1000 :: nat)"
  "n div 0x1000 div 0x40 = n div (0x40000 :: nat)"
  by (simp_all add: div_mult2_eq [symmetric])

lemma utf8_step_cp:
  assumes "n \<le> 0x10FFFF" "\<not> (0xD800 \<le> n \<and> n \<le> 0xDFFF)"
  shows "utf8_step (map unat (utf8_cp n) @ bs) = Some (n, length (utf8_cp n))"
proof -
  consider "n < 0x80" | "0x80 \<le> n" "n < 0x800" | "0x800 \<le> n" "n < 0x10000" | "0x10000 \<le> n"
    by linarith
  then show ?thesis
  proof cases
    case 1
    then show ?thesis using utf8_step_bytes(1) [of n bs] by (simp add: utf8_cp_def)
  next
    case 2
    define a b where ab: "a = n div 0x40" "b = n mod 0x40"
    have n: "n = a * 0x40 + b" unfolding ab by presburger
    have "2 \<le> a" "a < 0x20" "b < 0x40" using 2 unfolding ab by auto
    note step = utf8_step_bytes(2) [OF this, of bs]
    have "utf8_cp n = [byte_of (0xC0 + a), byte_of (0x80 + b)]"
      unfolding ab using 2 by (simp add: utf8_cp_def)
    then show ?thesis using step n by (metis length_Cons list.size(3) numeral_2_eq_2)
  next
    case 3
    define a b c where abc: "a = n div 0x1000" "b = (n div 0x40) mod 0x40" "c = n mod 0x40"
    have n: "n = a * 0x1000 + b * 0x40 + c"
      unfolding abc using split_base64 [of n] split_base64 [of "n div 0x40"] div_div_base64 [of n]
      by linarith
    have lt: "a < 0x10" "b < 0x40" "c < 0x40" using 3 unfolding abc by auto
    have "a = 0 \<Longrightarrow> 0x20 \<le> b" "a = 0xD \<Longrightarrow> b \<le> 0x1F" using 3 assms lt n by linarith+
    note step = utf8_step_bytes(3) [OF lt this, of bs]
    have "utf8_cp n = [byte_of (0xE0 + a), byte_of (0x80 + b), byte_of (0x80 + c)]"
      unfolding abc using 3 by (simp add: utf8_cp_def)
    then show ?thesis using step n by (metis length_Cons list.size(3) numeral_3_eq_3)
  next
    case 4
    define a b c d where abcd: "a = n div 0x40000" "b = (n div 0x1000) mod 0x40"
      "c = (n div 0x40) mod 0x40" "d = n mod 0x40"
    have n: "n = a * 0x40000 + b * 0x1000 + c * 0x40 + d"
      unfolding abcd using split_base64 [of n] split_base64 [of "n div 0x40"]
        split_base64 [of "n div 0x1000"] div_div_base64 [of n]
      by linarith
    have lt: "a < 5" "b < 0x40" "c < 0x40" "d < 0x40" using assms unfolding abcd by auto
    have "a = 0 \<Longrightarrow> 0x10 \<le> b" "a = 4 \<Longrightarrow> b \<le> 0xF" using 4 assms lt n by linarith+
    note step = utf8_step_bytes(4) [OF lt this, of bs]
    have cp: "utf8_cp n =
        [byte_of (0xF0 + a), byte_of (0x80 + b), byte_of (0x80 + c), byte_of (0x80 + d)]"
      unfolding abcd using 4 by (simp add: utf8_cp_def)
    have "length (utf8_cp n) = 4" unfolding cp by simp
    then show ?thesis using step n cp by metis
  qed
qed

lemma utf8_step_take4: "utf8_step (take 4 xs) = utf8_step xs"
proof (cases "length xs \<le> 4")
  case True
  then show ?thesis by simp
next
  case False
  then obtain a b c d r where xs: "xs = a # b # c # d # r"
    by (cases xs; cases "tl xs"; cases "tl (tl xs)"; cases "tl (tl (tl xs))") auto
  have "take 4 xs = [a, b, c, d]" by (simp add: xs)
  then show ?thesis by (simp only: xs utf8_step_def list.case)
qed

lemma utf8_decode_cp:
  assumes "n \<le> 0x10FFFF" "\<not> (0xD800 \<le> n \<and> n \<le> 0xDFFF)"
  shows "utf8_decode (utf8_cp n @ bs) = map_option (\<lambda>s. units_of_cp n @ s) (utf8_decode bs)"
proof -
  have "utf8_step (map unat (utf8_cp n @ bs)) = Some (n, length (utf8_cp n))"
    using utf8_step_cp [OF assms] by simp
  then have "utf8_step (map unat (take 4 (utf8_cp n @ bs))) = Some (n, length (utf8_cp n))"
    by (simp only: utf8_step_take4 flip: take_map)
  moreover have "utf8_cp n \<noteq> []" by (simp add: utf8_cp_def)
  ultimately show ?thesis by (subst utf8_decode.simps) simp
qed

lemma utf8_encode_Nil [simp]: "utf8_encode [] = []"
  by (simp add: utf8_encode_def)

theorem utf8_decode_encode: "wf_utf16 s \<Longrightarrow> utf8_decode (utf8_encode s) = Some s"
proof (induction s rule: wf_utf16_induct)
  case Nil
  then show ?case by (simp add: utf8_decode.simps)
next
  case (Bmp c cs)
  have b: "unat c \<le> 0x10FFFF" "\<not> (0xD800 \<le> unat c \<and> unat c \<le> 0xDFFF)"
    using Bmp.hyps unat_code_unit [of c] by (auto simp: high_unat low_unat)
  then have "utf8_encode (c # cs) = utf8_cp (unat c) @ utf8_encode cs"
    using Bmp.hyps by (auto simp: utf8_encode_def code_points_Bmp replace_surrogate_def
        simp del: code_points.simps(2))
  then show ?case using utf8_decode_cp [OF b] Bmp.IH by (simp add: units_of_bmp)
next
  case (Pair c d cs)
  let ?n = "pair_value c d"
  have b: "?n \<le> 0x10FFFF" "\<not> (0xD800 \<le> ?n \<and> ?n \<le> 0xDFFF)"
    using pair_value_bounds [OF Pair.hyps(1,2)] by auto
  then have "utf8_encode (c # d # cs) = utf8_cp ?n @ utf8_encode cs"
    using Pair.hyps by (auto simp: utf8_encode_def replace_surrogate_def)
  then show ?case using utf8_decode_cp [OF b] Pair.IH Pair.hyps by (simp add: units_of_pair)
qed

lemma utf8_encode_inject:
  "wf_utf16 s \<Longrightarrow> wf_utf16 t \<Longrightarrow> utf8_encode s = utf8_encode t \<longleftrightarrow> s = t"
  using utf8_decode_encode by (metis option.inject)

section \<open>JSON string literals\<close>

definition hex_unit :: "nat \<Rightarrow> code_unit" where
  "hex_unit d = (if d < 10 then unit_of (0x30 + d) else unit_of (0x61 + (d - 10)))"

definition hex4 :: "nat \<Rightarrow> jstring" where
  "hex4 n = [hex_unit (n div 0x1000 mod 16), hex_unit (n div 0x100 mod 16),
             hex_unit (n div 0x10 mod 16), hex_unit (n mod 16)]"

definition unicode_escape :: "code_unit \<Rightarrow> jstring" where
  "unicode_escape c = 0x5C # 0x75 # hex4 (unat c)"

definition quote_unit :: "code_unit \<Rightarrow> jstring" where
  "quote_unit c =
     (if c = 0x08 then [0x5C, 0x62]
      else if c = 0x09 then [0x5C, 0x74]
      else if c = 0x0A then [0x5C, 0x6E]
      else if c = 0x0C then [0x5C, 0x66]
      else if c = 0x0D then [0x5C, 0x72]
      else if c = 0x22 then [0x5C, 0x22]
      else if c = 0x5C then [0x5C, 0x5C]
      else if c < 0x20 then unicode_escape c
      else [c])"

fun quote_units :: "jstring \<Rightarrow> jstring" where
  "quote_units [] = []"
| "quote_units (c # cs) =
     (case cs of
        [] \<Rightarrow> if is_high c \<or> is_low c then unicode_escape c else quote_unit c
      | d # ds \<Rightarrow> if is_high c \<and> is_low d then c # d # quote_units ds
                  else (if is_high c \<or> is_low c then unicode_escape c else quote_unit c) @ quote_units cs)"

definition json_quote :: "jstring \<Rightarrow> jstring" where
  "json_quote s = 0x22 # quote_units s @ [0x22]"

lemma quote_units_Bmp:
  "\<not> is_high c \<Longrightarrow> \<not> is_low c \<Longrightarrow> quote_units (c # cs) = quote_unit c @ quote_units cs"
  by (cases cs) auto

lemma quote_units_Pair:
  "is_high c \<Longrightarrow> is_low d \<Longrightarrow> quote_units (c # d # cs) = c # d # quote_units cs"
  by simp

end
