(* ===== verification/JsText.thy ===== *)
theory JsText
  imports JsNumber JsString
begin

text \<open>
  Numbers as text: \<open>Number::toString\<close> (which \<open>JSON.stringify\<close> uses) and the numeric grammar
  of JSON with \<open>Number(token)\<close>.

  \<open>number_digits\<close> searches the shortest decimal significand \<open>s\<close> of \<open>k\<close> digits and the
  exponent \<open>n\<close> with \<open>s * 10^(n-k)\<close> rounding to the given value, the closest one when two
  exist; \<open>number_parts\<close> lays the digits out in the four formats of the language.  The search
  is bounded by 2100 digits, which \<open>shortest_digits_correct\<close> shows to be enough: the exact
  decimal expansion of a binary64 value is among the candidates.  \<open>match_number\<close> is the regular
  expression \<open>/^-?(?:0|[1-9][0-9]*)(?:\.[0-9]+)?(?:[eE][+-]?[0-9]+)?/\<close>.  The theory closes
  with the round trip \<open>match_number_text\<close>.
\<close>

section \<open>Decimal digits\<close>

fun dec_digits :: "nat \<Rightarrow> nat list" where
  "dec_digits n = (if n < 10 then [n] else dec_digits (n div 10) @ [n mod 10])"

declare dec_digits.simps [simp del]

definition dec_value :: "nat list \<Rightarrow> nat" where
  "dec_value ds = foldl (\<lambda>a d. 10 * a + d) 0 ds"

definition digit_unit :: "nat \<Rightarrow> code_unit" where
  "digit_unit d = unit_of (0x30 + d)"

definition is_digit :: "code_unit \<Rightarrow> bool" where
  "is_digit c \<longleftrightarrow> 0x30 \<le> unat c \<and> unat c \<le> 0x39"

definition digit_val :: "code_unit \<Rightarrow> nat" where
  "digit_val c = unat c - 0x30"

lemma dec_value_Nil [simp]: "dec_value [] = 0"
  by (simp add: dec_value_def)

lemma dec_value_snoc [simp]: "dec_value (ds @ [d]) = 10 * dec_value ds + d"
  by (simp add: dec_value_def)

lemma dec_value_append: "dec_value (ds @ es) = dec_value ds * 10 ^ length es + dec_value es"
  by (induction es rule: rev_induct) (simp_all flip: append_assoc add: algebra_simps)

lemma dec_value_zeros [simp]: "dec_value (replicate n 0) = 0"
  by (induction n) (simp_all flip: replicate_append_same)

lemma dec_value_Cons_zero: "dec_value (0 # ds) = dec_value ds"
  using dec_value_append [of "[0]" ds] dec_value_snoc [of "[]" 0] by simp

lemma dec_value_digits [simp]: "dec_value (dec_digits n) = n"
proof (induction n rule: dec_digits.induct)
  case (1 n)
  then show ?case
    using dec_value_snoc [of "[]" n] by (subst dec_digits.simps) simp
qed

lemma dec_digits_less: "d \<in> set (dec_digits n) \<Longrightarrow> d < 10"
proof (induction n rule: dec_digits.induct)
  case (1 n)
  then show ?case by (subst (asm) dec_digits.simps) (auto split: if_splits)
qed

lemma dec_digits_nonempty [simp]: "dec_digits n \<noteq> []"
  by (subst dec_digits.simps) simp

lemma hd_dec_digits: "0 < n \<Longrightarrow> hd (dec_digits n) \<noteq> 0"
proof (induction n rule: dec_digits.induct)
  case (1 n)
  then show ?case by (subst dec_digits.simps) (auto simp: hd_append)
qed

lemma length_dec_digits: "10 ^ m \<le> n \<Longrightarrow> n < 10 ^ Suc m \<Longrightarrow> length (dec_digits n) = Suc m"
proof (induction n arbitrary: m rule: dec_digits.induct)
  case (1 n)
  show ?case
  proof (cases m)
    case 0
    with 1 show ?thesis by (subst dec_digits.simps) simp
  next
    case (Suc m')
    with "1.prems" have "(10 :: nat) ^ Suc m' \<le> n" by simp
    moreover have "(10 :: nat) \<le> 10 ^ Suc m'" by simp
    ultimately have "\<not> n < 10" by linarith
    moreover have "10 ^ m' \<le> n div 10" using "1.prems"(1) Suc by (simp add: less_eq_div_iff_mult_less_eq)
    moreover have "n div 10 < 10 ^ Suc m'" using "1.prems"(2) Suc by (simp add: div_less_iff_less_mult)
    ultimately show ?thesis using "1.IH" Suc by (subst dec_digits.simps) simp
  qed
qed

lemma unat_digit_unit: "d < 10 \<Longrightarrow> unat (digit_unit d) = 0x30 + d"
  by (simp add: digit_unit_def unat_unit_of)

lemma is_digit_unit [simp]: "d < 10 \<Longrightarrow> is_digit (digit_unit d)"
  by (simp add: is_digit_def unat_digit_unit)

lemma digit_val_unit [simp]: "d < 10 \<Longrightarrow> digit_val (digit_unit d) = d"
  by (simp add: digit_val_def unat_digit_unit)

section \<open>The shortest decimal representation\<close>

definition pick_digits :: "nat \<Rightarrow> rat \<Rightarrow> int option" where
  "pick_digits k v =
     (let n = ilog 10 v + 1;
          sc = 10 powi (n - int k);
          lo = \<lfloor>v / sc\<rfloor>;
          hi = lo + 1;
          lo_ok = (to_double (of_int lo * sc) = Fin v);
          hi_ok = (to_double (of_int hi * sc) = Fin v);
          dl = v - of_int lo * sc;
          dh = of_int hi * sc - v
      in if lo_ok \<and> hi_ok then Some (if dl < dh then lo else if dh < dl then hi else if even lo then lo else hi)
         else if lo_ok then Some lo
         else if hi_ok then Some hi
         else None)"

function shortest_digits :: "nat \<Rightarrow> rat \<Rightarrow> int \<times> nat" where
  "shortest_digits k v =
     (case pick_digits k v of
        Some s \<Rightarrow> (s, k)
      | None \<Rightarrow> if k < 2100 then shortest_digits (Suc k) v else (0, k))"
  by pat_completeness auto
termination
  by (relation "measure (\<lambda>(k, v). 2100 - k)") auto

declare shortest_digits.simps [simp del]

definition number_digits :: "rat \<Rightarrow> nat \<times> nat \<times> int" where
  "number_digits v =
     (let n = ilog 10 v + 1; (s, k) = shortest_digits 1 v
      in if s = 10 ^ k then (1, 1, n + 1) else (nat s, k, n))"

lemma powi_split: "(10 :: rat) powi n = 10 ^ k * 10 powi (n - int k)"
proof -
  have "(10 :: rat) powi (int k + (n - int k)) = 10 powi (int k) * 10 powi (n - int k)"
    by (rule power_int_add) simp
  then show ?thesis by simp
qed

lemma pick_digits_Some:
  assumes "pick_digits k v = Some s"
  shows "to_double (of_int s * 10 powi (ilog 10 v + 1 - int k)) = Fin v"
    and "s = \<lfloor>v / 10 powi (ilog 10 v + 1 - int k)\<rfloor> \<or> s = \<lfloor>v / 10 powi (ilog 10 v + 1 - int k)\<rfloor> + 1"
  using assms by (auto simp: pick_digits_def Let_def split: if_splits)

lemma pick_digits_range:
  assumes "pick_digits k v = Some s" "0 < v" "1 \<le> k"
  shows "10 ^ (k - 1) \<le> s" and "s \<le> 10 ^ k"
proof -
  define n where "n = ilog 10 v + 1"
  define sc where "sc = (10 :: rat) powi (n - int k)"
  have sc: "0 < sc" by (simp add: sc_def)
  have v: "10 powi (n - 1) \<le> v" "v < 10 powi n"
    using ilog_bounds [OF assms(2), of 10] by (simp_all add: n_def)
  have e: "(10 :: rat) powi (n - 1) = 10 ^ (k - 1) * sc" "(10 :: rat) powi n = 10 ^ k * sc"
  proof -
    have "(10 :: rat) powi (n - 1) = 10 powi (int (k - 1)) * 10 powi (n - int k)"
      using assms(3) by (simp add: of_nat_diff flip: power_int_add)
    then show "(10 :: rat) powi (n - 1) = 10 ^ (k - 1) * sc" by (simp add: sc_def)
    show "(10 :: rat) powi n = 10 ^ k * sc" unfolding sc_def by (rule powi_split)
  qed
  have "(10 :: rat) ^ (k - 1) \<le> v / sc" using v(1) sc unfolding e by (simp add: pos_le_divide_eq)
  then have lo: "10 ^ (k - 1) \<le> \<lfloor>v / sc\<rfloor>" by (simp add: le_floor_iff)
  have "v / sc < (10 :: rat) ^ k" using v(2) sc unfolding e by (simp add: pos_divide_less_eq)
  then have hi: "\<lfloor>v / sc\<rfloor> < 10 ^ k" by (simp add: floor_less_iff)
  show "10 ^ (k - 1) \<le> s" "s \<le> 10 ^ k"
    using pick_digits_Some(2) [OF assms(1)] lo hi by (auto simp: sc_def n_def)
qed

lemma pick_digits_exact:
  assumes "is_double v" "v / 10 powi (ilog 10 v + 1 - int k) = of_int m"
  shows "pick_digits k v \<noteq> None"
proof -
  have "(10 :: rat) powi (ilog 10 v + 1 - int k) \<noteq> 0" by simp
  then have "of_int m * 10 powi (ilog 10 v + 1 - int k) = v"
    using assms(2) by (metis nonzero_divide_eq_eq)
  then show ?thesis using assms by (simp add: pick_digits_def Let_def is_double_def)
qed

lemma shortest_digits_search:
  assumes "pick_digits j v \<noteq> None" "k \<le> j" "j \<le> 2100"
  shows "\<exists>s k'. shortest_digits k v = (s, k') \<and> k \<le> k' \<and> pick_digits k' v = Some s"
  using assms
proof (induction k v rule: shortest_digits.induct)
  case (1 k v)
  show ?case
  proof (cases "pick_digits k v")
    case None
    then have "k \<noteq> j" using "1.prems" by auto
    then have "Suc k \<le> j" "k < 2100" using "1.prems" by auto
    from "1.IH" [OF None this(2) "1.prems"(1) this(1) "1.prems"(3)] None this show ?thesis
      by (subst shortest_digits.simps) auto
  next
    case (Some s)
    then show ?thesis by (subst shortest_digits.simps) auto
  qed
qed

lemma enough_digits:
  assumes d: "is_double v" and v: "0 < v"
  shows "\<exists>j. 1 \<le> j \<and> j \<le> 2100 \<and> pick_digits j v \<noteq> None"
proof -
  obtain N where N: "v * 10 ^ 1074 = of_int N" using is_double_pow10_int [OF d] ..
  define D where "D = (1074 :: nat)"
  have N': "v * 10 ^ D = of_int N" using N by (simp only: D_def)
  define n where "n = ilog 10 v"
  have bnds: "10 powi n \<le> v" "v < 10 powi (n + 1)"
    using ilog_bounds [OF v, of 10] by (simp_all add: n_def)
  have "0 < v * 10 ^ D" using v by simp
  then have "0 < N" unfolding N' by simp
  then have "1 \<le> N" by simp
  then have "1 \<le> v * 10 ^ D" unfolding N' by (metis of_int_1 of_int_le_iff)
  then have "10 powi (- int D) \<le> v" by (simp add: power_int_minus field_simps)
  then have lower: "- int D < n + 1"
    using powi_le_less_exponent [of 10 "- int D" v "n + 1"] bnds by simp
  obtain m e where "v = of_int m * 2 powi e" "\<bar>v\<bar> < 2 ^ 1024"
    using d unfolding is_double_iff by blast
  then have "v < 2 ^ 1024" using v by (simp only: abs_of_pos)
  also have "(2 :: rat) ^ 1024 \<le> 10 ^ 1024" by (rule power_mono) auto
  finally have "v < 10 powi (int 1024)" by (simp only: power_int_of_nat)
  then have upper: "n < int 1024"
    using powi_le_less_exponent [of 10 n v "int 1024"] bnds by linarith
  define j where "j = nat (n + 1 + int D)"
  have "n + 1 - int j = - int D" using lower by (simp add: j_def)
  then have "v / 10 powi (n + 1 - int j) = of_int N"
    using N' by (simp add: power_int_minus divide_inverse)
  then have "pick_digits j v \<noteq> None" using pick_digits_exact [OF d] by (simp add: n_def)
  moreover have "1 \<le> j" "j \<le> 2100" using lower upper by (simp_all add: j_def D_def)
  ultimately show ?thesis by blast
qed

lemma number_digits_correct:
  assumes "is_double v" "0 < v" "number_digits v = (s, k, n)"
  shows "1 \<le> k" and "10 ^ (k - 1) \<le> s" and "s < 10 ^ k"
    and "to_double (of_nat s * 10 powi (n - int k)) = Fin v"
proof -
  from enough_digits [OF assms(1,2)] obtain j
    where j: "1 \<le> j" "j \<le> 2100" "pick_digits j v \<noteq> None" by blast
  from shortest_digits_search [OF j(3,1,2)] obtain s' k'
    where sd: "shortest_digits 1 v = (s', k')" and k': "1 \<le> k'" and pick: "pick_digits k' v = Some s'"
    by blast
  note r = pick_digits_range [OF pick assms(2) k'] and ok = pick_digits_Some(1) [OF pick]
  define n' where "n' = ilog 10 v + 1"
  have res: "(s, k, n) = (if s' = 10 ^ k' then (1, 1, n' + 1) else (nat s', k', n'))"
    using assms(3) sd by (simp add: number_digits_def n'_def Let_def split: if_splits)
  have "1 \<le> k \<and> 10 ^ (k - 1) \<le> s \<and> s < 10 ^ k \<and> to_double (of_nat s * 10 powi (n - int k)) = Fin v"
  proof (cases "s' = 10 ^ k'")
    case True
    have "of_int s' * 10 powi (n' - int k') = (10 :: rat) powi n'"
      using powi_split [of n' k'] by (simp add: True)
    then show ?thesis using ok True res by (simp add: n'_def add.commute)
  next
    case False
    have "0 \<le> s'" using r(1) by (meson order_trans zero_le_numeral zero_le_power)
    moreover have "nat (10 ^ (k' - 1)) \<le> nat s'" "nat s' < nat (10 ^ k')"
      using r False by (auto simp: nat_mono nat_less_eq_zless)
    ultimately show ?thesis using ok res False k' by (auto simp: n'_def nat_power_eq)
  qed
  then show "1 \<le> k" "10 ^ (k - 1) \<le> s" "s < 10 ^ k"
    "to_double (of_nat s * 10 powi (n - int k)) = Fin v" by auto
qed

section \<open>Layout\<close>

type_synonym exponent = "(bool \<times> nat list) option"

definition exponent_value :: "exponent \<Rightarrow> int" where
  "exponent_value ex =
     (case ex of None \<Rightarrow> 0 | Some (neg, ds) \<Rightarrow> if neg then - int (dec_value ds) else int (dec_value ds))"

definition number_parts :: "rat \<Rightarrow> nat list \<times> nat list \<times> exponent" where
  "number_parts v =
     (let (s, k, n) = number_digits v; ds = dec_digits s
      in if int k \<le> n \<and> n \<le> 21 then (ds @ replicate (nat (n - int k)) 0, [], None)
         else if 0 < n \<and> n \<le> 21 then (take (nat n) ds, drop (nat n) ds, None)
         else if -6 < n \<and> n \<le> 0 then ([0], replicate (nat (- n)) 0 @ ds, None)
         else ([hd ds], tl ds, Some (n - 1 < 0, dec_digits (nat \<bar>n - 1\<bar>))))"

definition exponent_text :: "exponent \<Rightarrow> jstring" where
  "exponent_text ex =
     (case ex of
        None \<Rightarrow> []
      | Some (neg, ds) \<Rightarrow> 0x65 # (if neg then 0x2D else 0x2B) # map digit_unit ds)"

definition token_text :: "nat list \<times> nat list \<times> exponent \<Rightarrow> jstring" where
  "token_text t =
     (case t of (ip, fp, ex) \<Rightarrow>
        map digit_unit ip @ (if fp = [] then [] else 0x2E # map digit_unit fp) @ exponent_text ex)"

definition number_to_string :: "number \<Rightarrow> jstring" where
  "number_to_string x =
     (case x of
        Fin q \<Rightarrow> if q = 0 then [0x30]
                 else if q < 0 then 0x2D # token_text (number_parts (- q))
                 else token_text (number_parts q)
      | NegZero \<Rightarrow> [0x30]
      | PInf \<Rightarrow> u ''Infinity''
      | NInf \<Rightarrow> u ''-Infinity''
      | NaN \<Rightarrow> u ''NaN'')"

section \<open>The grammar of JSON numbers\<close>

definition match_frac :: "jstring \<Rightarrow> nat list \<times> jstring" where
  "match_frac cs =
     (case cs of
        [] \<Rightarrow> ([], cs)
      | c # r \<Rightarrow> if c = 0x2E \<and> takeWhile is_digit r \<noteq> []
                 then (map digit_val (takeWhile is_digit r), dropWhile is_digit r)
                 else ([], cs))"

definition match_exp :: "jstring \<Rightarrow> exponent \<times> jstring" where
  "match_exp cs =
     (case cs of
        [] \<Rightarrow> (None, cs)
      | c # r \<Rightarrow>
          if c = 0x65 \<or> c = 0x45 then
            (let (neg, r') = (case r of [] \<Rightarrow> (False, r)
                              | d # ds \<Rightarrow> if d = 0x2D then (True, ds) else if d = 0x2B then (False, ds)
                                          else (False, r))
             in if takeWhile is_digit r' \<noteq> []
                then (Some (neg, map digit_val (takeWhile is_digit r')), dropWhile is_digit r')
                else (None, cs))
          else (None, cs))"

definition match_int :: "jstring \<Rightarrow> (nat list \<times> jstring) option" where
  "match_int cs =
     (case cs of
        [] \<Rightarrow> None
      | c # r \<Rightarrow> if c = 0x30 then Some ([0], r)
                 else if is_digit c then Some (map digit_val (takeWhile is_digit cs), dropWhile is_digit cs)
                 else None)"

definition match_number :: "jstring \<Rightarrow> (bool \<times> (nat list \<times> nat list \<times> exponent) \<times> jstring) option" where
  "match_number cs =
     (let (neg, cs1) = (case cs of [] \<Rightarrow> (False, cs) | c # r \<Rightarrow> if c = 0x2D then (True, r) else (False, cs))
      in case match_int cs1 of
           None \<Rightarrow> None
         | Some (ip, cs2) \<Rightarrow>
             (let (fp, cs3) = match_frac cs2; (ex, cs4) = match_exp cs3
              in Some (neg, (ip, fp, ex), cs4)))"

text \<open>\<open>Number(token)\<close> on a token of the grammar.\<close>

definition token_value :: "nat list \<times> nat list \<times> exponent \<Rightarrow> rat" where
  "token_value t =
     (case t of (ip, fp, ex) \<Rightarrow>
        of_nat (dec_value (ip @ fp)) * 10 powi (exponent_value ex - int (length fp)))"

definition token_number :: "bool \<Rightarrow> nat list \<times> nat list \<times> exponent \<Rightarrow> number" where
  "token_number neg t =
     (if token_value t = 0 then (if neg then NegZero else Fin 0)
      else to_double (if neg then - token_value t else token_value t))"

lemma token_value_nonneg: "0 \<le> token_value t"
  by (auto simp: token_value_def split: prod.splits)

lemma wf_token_number: "wf_number (token_number neg t)"
  using wf_to_double by (auto simp: token_number_def) (simp_all add: wf_number_def)

lemma number_parts_value:
  assumes "is_double v" "0 < v"
  shows "to_double (token_value (number_parts v)) = Fin v"
proof -
  obtain s k n where nd: "number_digits v = (s, k, n)" by (cases "number_digits v")
  note c = number_digits_correct [OF assms nd]
  have "0 < (10 :: nat) ^ (k - 1)" by simp
  then have s: "0 < s" using c(2) by linarith
  have len: "length (dec_digits s) = k"
    using length_dec_digits [of "k - 1" s] c by simp
  let ?ds = "dec_digits s"
  have "token_value (number_parts v) = of_nat s * 10 powi (n - int k)"
  proof -
    consider "int k \<le> n \<and> n \<le> 21" | "\<not> int k \<le> n" "0 < n \<and> n \<le> 21" | "\<not> int k \<le> n" "-6 < n \<and> n \<le> 0"
      | "n \<le> -6 \<or> 21 < n" by linarith
    then show ?thesis
    proof cases
      case 1
      then have "(10 :: rat) powi (n - int k) = 10 ^ nat (n - int k)" by (simp add: power_int_def)
      then show ?thesis using 1 by (simp add: number_parts_def nd Let_def token_value_def dec_value_append exponent_value_def)
    next
      case 2
      then show ?thesis using len
        by (simp add: number_parts_def nd Let_def token_value_def exponent_value_def of_nat_diff)
    next
      case 3
      then show ?thesis using len
        by (simp add: number_parts_def nd Let_def token_value_def exponent_value_def dec_value_Cons_zero dec_value_append)
    next
      case 4
      have e: "hd ?ds # tl ?ds = ?ds" by simp
      have parts: "number_parts v =
          ([hd ?ds], tl ?ds, Some (n - 1 < 0, dec_digits (nat \<bar>n - 1\<bar>)))"
        using 4 c(1) by (auto simp: number_parts_def nd Let_def)
      have ev: "exponent_value (Some (n - 1 < 0, dec_digits (nat \<bar>n - 1\<bar>))) = n - 1"
        by (auto simp: exponent_value_def)
      have "int (length (tl ?ds)) = int k - 1" using len c(1) by (simp add: of_nat_diff)
      then show ?thesis unfolding parts token_value_def prod.case ev by (simp add: e)
    qed
  qed
  then show ?thesis using c(4) by simp
qed

section \<open>Round trip\<close>

definition ends_number :: "jstring \<Rightarrow> bool" where
  "ends_number rest = (case rest of [] \<Rightarrow> True | c # _ \<Rightarrow> \<not> is_digit c \<and> c \<noteq> 0x2E \<and> c \<noteq> 0x65 \<and> c \<noteq> 0x45)"

definition wf_token :: "nat list \<times> nat list \<times> exponent \<Rightarrow> bool" where
  "wf_token t =
     (case t of (ip, fp, ex) \<Rightarrow>
        ip \<noteq> [] \<and> (ip = [0] \<or> hd ip \<noteq> 0) \<and> (\<forall>d \<in> set ip \<union> set fp. d < 10) \<and>
        (case ex of None \<Rightarrow> True | Some (_, es) \<Rightarrow> es \<noteq> [] \<and> (\<forall>d \<in> set es. d < 10)))"

definition not_digit_start :: "jstring \<Rightarrow> bool" where
  "not_digit_start rest = (case rest of [] \<Rightarrow> True | c # _ \<Rightarrow> \<not> is_digit c)"

lemma span_digits:
  assumes "\<forall>d \<in> set ds. d < 10" "not_digit_start rest"
  shows "takeWhile is_digit (map digit_unit ds @ rest) = map digit_unit ds"
    and "dropWhile is_digit (map digit_unit ds @ rest) = rest"
    and "map digit_val (map digit_unit ds) = ds"
proof -
  have all: "\<forall>c \<in> set (map digit_unit ds). is_digit c" using assms(1) by auto
  have r: "takeWhile is_digit rest = []" "dropWhile is_digit rest = rest"
    using assms(2) by (auto simp: not_digit_start_def split: list.splits)
  show "takeWhile is_digit (map digit_unit ds @ rest) = map digit_unit ds"
    using all r by (subst takeWhile_append2) auto
  show "dropWhile is_digit (map digit_unit ds @ rest) = rest"
    using all r by (subst dropWhile_append2) auto
  show "map digit_val (map digit_unit ds) = ds"
    using assms(1) by (simp add: map_idI)
qed

lemma digit_marks: "\<not> is_digit 0x2E" "\<not> is_digit 0x65" "\<not> is_digit 0x45" "\<not> is_digit 0x2D" "\<not> is_digit 0x2B"
  by (simp_all add: is_digit_def)

lemma digit_unit_neq [simp]:
  "d < 10 \<Longrightarrow> digit_unit d \<noteq> 0x2D" "d < 10 \<Longrightarrow> digit_unit d \<noteq> 0x2B"
  "d < 10 \<Longrightarrow> digit_unit d = 0x30 \<longleftrightarrow> d = 0"
proof -
  show "d < 10 \<Longrightarrow> digit_unit d \<noteq> 0x2D" "d < 10 \<Longrightarrow> digit_unit d \<noteq> 0x2B"
    using is_digit_unit digit_marks by metis+
  show "digit_unit d = 0x30 \<longleftrightarrow> d = 0" if "d < 10"
  proof -
    have "digit_unit d = 0x30 \<longleftrightarrow> unat (digit_unit d) = unat (0x30 :: code_unit)"
      by (simp only: word_unat_eq_iff)
    then show ?thesis using that by (simp add: unat_digit_unit)
  qed
qed

lemma match_exp_text:
  assumes "case ex of None \<Rightarrow> True | Some (_, es) \<Rightarrow> es \<noteq> [] \<and> (\<forall>d \<in> set es. d < 10)" "ends_number rest"
  shows "match_exp (exponent_text ex @ rest) = (ex, rest)"
proof (cases ex)
  case None
  then show ?thesis using assms(2)
    by (auto simp: match_exp_def exponent_text_def ends_number_def split: list.splits)
next
  case (Some a)
  obtain neg es where a: "ex = Some (neg, es)" using Some by (cases a) auto
  have nd: "not_digit_start rest" using assms(2)
    by (auto simp: ends_number_def not_digit_start_def split: list.splits)
  have es: "es \<noteq> []" "\<forall>d \<in> set es. d < 10" using assms(1) a by auto
  show ?thesis using span_digits [OF es(2) nd] es(1)
    by (auto simp: a match_exp_def exponent_text_def)
qed

lemma match_frac_text:
  assumes "\<forall>d \<in> set fp. d < 10" "ends_number rest \<or> rest = exponent_text ex @ rest' \<and> ends_number rest'"
  shows "match_frac ((if fp = [] then [] else 0x2E # map digit_unit fp) @ rest) = (fp, rest)"
proof -
  have nd: "not_digit_start rest" "rest = [] \<or> hd rest \<noteq> 0x2E" using assms(2)
    by (auto simp: ends_number_def not_digit_start_def exponent_text_def digit_marks
        split: list.splits option.splits)
  show ?thesis
  proof (cases "fp = []")
    case True
    then show ?thesis using nd(2) by (cases rest) (auto simp: match_frac_def)
  next
    case False
    then show ?thesis using span_digits [OF assms(1) nd(1)] by (simp add: match_frac_def)
  qed
qed

lemma match_int_text:
  assumes "ip \<noteq> []" "ip = [0] \<or> hd ip \<noteq> 0" "\<forall>d \<in> set ip. d < 10" "not_digit_start rest"
  shows "match_int (map digit_unit ip @ rest) = Some (ip, rest)"
proof -
  obtain d ds where ip: "ip = d # ds" using assms(1) by (cases ip) auto
  show ?thesis
  proof (cases "d = 0")
    case True
    then show ?thesis using assms ip by (simp add: match_int_def)
  next
    case False
    then show ?thesis using assms span_digits [OF assms(3,4)] ip by (simp add: match_int_def)
  qed
qed

lemma match_number_token:
  assumes "wf_token t" "ends_number rest"
  shows "match_number (token_text t @ rest) = Some (False, t, rest)"
    and "match_number (0x2D # token_text t @ rest) = Some (True, t, rest)"
proof -
  obtain ip fp ex where t: "t = (ip, fp, ex)" by (cases t)
  have w: "ip \<noteq> []" "ip = [0] \<or> hd ip \<noteq> 0" "\<forall>d \<in> set ip. d < 10" "\<forall>d \<in> set fp. d < 10"
    "case ex of None \<Rightarrow> True | Some (_, es) \<Rightarrow> es \<noteq> [] \<and> (\<forall>d \<in> set es. d < 10)"
    using assms(1) by (auto simp: wf_token_def t)
  let ?r1 = "exponent_text ex @ rest"
  let ?r2 = "(if fp = [] then [] else 0x2E # map digit_unit fp) @ ?r1"
  have nd: "not_digit_start ?r2"
    using assms(2) by (auto simp: not_digit_start_def exponent_text_def ends_number_def digit_marks
        split: list.splits option.splits)
  have i: "match_int (map digit_unit ip @ ?r2) = Some (ip, ?r2)"
    by (rule match_int_text [OF w(1-3) nd])
  have f: "match_frac ?r2 = (fp, ?r1)"
    by (rule match_frac_text [OF w(4)]) (use assms(2) in blast)
  have e: "match_exp ?r1 = (ex, rest)" by (rule match_exp_text [OF w(5) assms(2)])
  have tx: "token_text t @ rest = map digit_unit ip @ ?r2" by (simp add: token_text_def t)
  have hdip: "hd ip < 10" using w by auto
  obtain c cs where c: "map digit_unit ip @ ?r2 = c # cs" "c \<noteq> 0x2D"
    using w(1) hdip by (cases ip) auto
  show "match_number (token_text t @ rest) = Some (False, t, rest)"
    unfolding tx match_number_def using i f e c(2) by (subst (2) c(1)) (simp add: t)
  show "match_number (0x2D # token_text t @ rest) = Some (True, t, rest)"
    unfolding tx match_number_def using i f e by (simp add: t)
qed

lemma wf_number_parts:
  assumes "is_double v" "0 < v"
  shows "wf_token (number_parts v)"
proof -
  obtain s k n where nd: "number_digits v = (s, k, n)" by (cases "number_digits v")
  note c = number_digits_correct [OF assms nd]
  have "0 < (10 :: nat) ^ (k - 1)" by simp
  then have s: "0 < s" using c(2) by linarith
  let ?ds = "dec_digits s"
  have less: "\<forall>d \<in> set ?ds. d < 10" using dec_digits_less by blast
  have h: "hd ?ds \<noteq> 0" "hd ?ds < 10" using hd_dec_digits [OF s] less by auto
  have tl: "\<forall>d \<in> set (tl ?ds). d < 10" using less by (meson list.set_sel(2) dec_digits_nonempty)
  have el: "\<forall>d \<in> set (dec_digits (nat \<bar>n - 1\<bar>)). d < 10" using dec_digits_less by blast
  show ?thesis
    using less h tl el
    by (auto simp: number_parts_def nd wf_token_def hd_append Let_def
        dest: in_set_takeD in_set_dropD)
qed

theorem match_number_text:
  assumes "wf_number x" "is_finite x" "ends_number rest"
  shows "\<exists>neg t. match_number (number_to_string x @ rest) = Some (neg, t, rest) \<and>
           token_number neg t = (if x = NegZero then Fin 0 else x)"
proof -
  have zero: ?thesis if "number_to_string x = [0x30]" "(if x = NegZero then Fin 0 else x) = Fin 0"
  proof -
    have w: "wf_token ([0], [], None)" by (simp add: wf_token_def)
    have "number_to_string x = token_text ([0], [], None)"
      using that by (simp add: token_text_def exponent_text_def digit_unit_def unit_of_def)
    moreover have "token_number False ([0], [], None) = Fin 0"
      using dec_value_snoc [of "[]" 0] by (simp add: token_number_def token_value_def)
    ultimately show ?thesis using match_number_token(1) [OF w assms(3)] that(2) by metis
  qed
  show ?thesis
  proof (cases x)
    case (Fin q)
    have d: "is_double q" using assms(1) Fin by (simp add: wf_number_def)
    show ?thesis
    proof (cases "q = 0")
      case True
      then show ?thesis using zero Fin by (simp add: number_to_string_def)
    next
      case False
      let ?v = "\<bar>q\<bar>" and ?neg = "q < 0"
      have v: "is_double ?v" "0 < ?v" using d False by (auto simp: abs_if)
      have td: "to_double (token_value (number_parts ?v)) = Fin ?v" by (rule number_parts_value [OF v])
      have nz: "token_value (number_parts ?v) \<noteq> 0"
        using td v(2) by (auto simp: to_double_def)
      have "to_double (- token_value (number_parts ?v)) = Fin (- ?v)"
        using td nz token_value_nonneg [of "number_parts ?v"] v(2)
        by (auto simp: to_double_def Let_def split: if_splits)
      then have "token_number ?neg (number_parts ?v) = x"
        using td nz Fin by (auto simp: token_number_def)
      moreover have "match_number (number_to_string x @ rest) = Some (?neg, number_parts ?v, rest)"
        using match_number_token [OF wf_number_parts [OF v] assms(3)] False Fin
        by (auto simp: number_to_string_def)
      ultimately show ?thesis using Fin by auto
    qed
  next
    case NegZero
    then show ?thesis using zero by (simp add: number_to_string_def)
  qed (use assms(2) in auto)
qed

end
