(* ===== verification/JsValue.thy ===== *)
theory JsValue
  imports JsText "HOL-Library.Multiset"
begin

text \<open>
  JavaScript values.

  \<open>json\<close> is a JSON value: what the strict parser returns and what the contract code handles
  once a value has been snapshotted.  An object is the list of its members in insertion order.
  \<open>json option\<close> adds \<open>undefined\<close> (\<open>None\<close>).  \<open>hval\<close> is a value as a caller hands it in: it may
  be a function or symbol (\<open>HOther\<close> with the \<open>typeof\<close> name), an object with a foreign prototype,
  symbol keys, accessors, non-enumerable or missing elements, or a reference back to an object
  that encloses it (\<open>HCycle\<close>, the edge at which a depth-first walk meets an object that is still
  active).  \<open>exn\<close> is what the code throws.

  The primitives below are the operators the code uses on such values: property reads with
  their \<open>TypeError\<close>, \<open>===\<close>, \<open>includes\<close>, truthiness, and the relational operators with
  the language's coercions.
\<close>

datatype json =
    JNull
  | JBool bool
  | JNum number
  | JStr jstring
  | JArr "json list"
  | JObj "(jstring \<times> json) list"

datatype proto = PlainProto | NullProto | OtherProto

datatype hval =
    HUndefined
  | HOther string
  | HCycle
  | HNull
  | HBool bool
  | HNum number
  | HStr jstring
  | HArr bool nat "hslot list" "(jstring \<times> hslot) list"
      \<comment> \<open>standard prototype, number of symbol keys, elements, named properties\<close>
  | HObj proto nat "(jstring \<times> hslot) list"
and hslot =
    HHole
  | HData bool hval \<comment> \<open>enumerable, value\<close>
  | HAccessor bool "hval option" \<comment> \<open>enumerable, what the getter returns (\<open>None\<close>: it throws)\<close>

text \<open>
  \<open>ContractError\<close> is the class \<open>KDNARuntimeContractError\<close>; \<open>CodedError\<close> a plain \<open>Error\<close> with a
  \<open>code\<close> property, \<open>PlainError\<close> one without; \<open>TypeErr\<close> a \<open>TypeError\<close>; \<open>GetterThrow\<close> whatever a caller's getter throws.
\<close>

datatype exn =
    ContractError string jstring "json option"
  | CodedError string jstring "json option"
  | PlainError jstring
  | TypeErr jstring
  | GetterThrow

definition error_message :: "exn \<Rightarrow> jstring" where
  "error_message e =
     (case e of ContractError _ m _ \<Rightarrow> m | CodedError _ m _ \<Rightarrow> m | PlainError m \<Rightarrow> m | TypeErr m \<Rightarrow> m
      | GetterThrow \<Rightarrow> u ''getter'')"

section \<open>Property reads and comparisons\<close>

definition quoted :: "string \<Rightarrow> jstring" where
  "quoted s = 0x27 # u s @ [0x27]"

definition get_prop :: "json option \<Rightarrow> string \<Rightarrow> exn + json option" where
  "get_prop v k =
     (case v of
        None \<Rightarrow> Inl (TypeErr (u ''Cannot read properties of undefined (reading '' @ quoted k @ u '')''))
      | Some JNull \<Rightarrow> Inl (TypeErr (u ''Cannot read properties of null (reading '' @ quoted k @ u '')''))
      | Some (JObj ps) \<Rightarrow> Inr (map_of ps (u k))
      | Some (JArr xs) \<Rightarrow> Inr (if k = ''length'' then Some (JNum (num_of_nat (length xs))) else None)
      | Some (JStr s) \<Rightarrow> Inr (if k = ''length'' then Some (JNum (num_of_nat (length s))) else None)
      | Some (JBool _) \<Rightarrow> Inr None
      | Some (JNum _) \<Rightarrow> Inr None)"

fun path :: "json option \<Rightarrow> string list \<Rightarrow> exn + json option" where
  "path v [] = Inr v"
| "path v (k # ks) = ebind (get_prop v k) (\<lambda>w. path w ks)"

text \<open>\<open>v?.k\<close>\<close>

definition get_opt :: "json option \<Rightarrow> string \<Rightarrow> json option" where
  "get_opt v k = (case get_prop v k of Inl _ \<Rightarrow> None | Inr w \<Rightarrow> w)"

text \<open>
  \<open>===\<close>.  The values compared come from separately parsed snapshots or from different places
  of one parsed tree, so two arrays or two objects are never the same reference.
\<close>

fun strict_eq :: "json option \<Rightarrow> json option \<Rightarrow> bool" where
  "strict_eq None None = True"
| "strict_eq (Some JNull) (Some JNull) = True"
| "strict_eq (Some (JBool a)) (Some (JBool b)) = (a = b)"
| "strict_eq (Some (JNum a)) (Some (JNum b)) = num_eq a b"
| "strict_eq (Some (JStr a)) (Some (JStr b)) = (a = b)"
| "strict_eq _ _ = False"

definition is_str :: "json option \<Rightarrow> string \<Rightarrow> bool" where
  "is_str v s \<longleftrightarrow> strict_eq v (Some (JStr (u s)))"

definition is_null :: "json option \<Rightarrow> bool" where
  "is_null v \<longleftrightarrow> v = Some JNull"

definition truthy :: "json option \<Rightarrow> bool" where
  "truthy v =
     (case v of None \<Rightarrow> False | Some JNull \<Rightarrow> False | Some (JBool b) \<Rightarrow> b
      | Some (JNum n) \<Rightarrow> \<not> (n = NaN \<or> num_eq n (Fin 0)) | Some (JStr s) \<Rightarrow> s \<noteq> [] | Some _ \<Rightarrow> True)"

definition nullish :: "json option \<Rightarrow> bool" where
  "nullish v \<longleftrightarrow> v = None \<or> v = Some JNull"

text \<open>\<open>v ?? d\<close>\<close>

definition coalesce :: "json option \<Rightarrow> json \<Rightarrow> json" where
  "coalesce v d = (case v of None \<Rightarrow> d | Some JNull \<Rightarrow> d | Some w \<Rightarrow> w)"

text \<open>\<open>path1 !== path2\<close>, \<open>path !== null\<close> and \<open>path !== 'literal'\<close> as conditions that may throw.\<close>

definition neq_paths :: "json option \<Rightarrow> string list \<Rightarrow> json option \<Rightarrow> string list \<Rightarrow> exn + bool" where
  "neq_paths a p b q = ebind (path a p) (\<lambda>x. ebind (path b q) (\<lambda>y. Inr (\<not> strict_eq x y)))"

definition neq_str :: "json option \<Rightarrow> string list \<Rightarrow> string \<Rightarrow> exn + bool" where
  "neq_str a p s = ebind (path a p) (\<lambda>x. Inr (\<not> is_str x s))"

definition neq_null :: "json option \<Rightarrow> string list \<Rightarrow> exn + bool" where
  "neq_null a p = ebind (path a p) (\<lambda>x. Inr (\<not> is_null x))"

definition neq_jstr :: "json option \<Rightarrow> string list \<Rightarrow> jstring \<Rightarrow> exn + bool" where
  "neq_jstr a p s = ebind (path a p) (\<lambda>x. Inr (\<not> strict_eq x (Some (JStr s))))"

definition neq_val :: "json option \<Rightarrow> string list \<Rightarrow> json option \<Rightarrow> exn + bool" where
  "neq_val a p x = ebind (path a p) (\<lambda>y. Inr (\<not> strict_eq y x))"

text \<open>\<open>path.includes('literal')\<close> on an array or a string.\<close>

definition js_includes :: "json option \<Rightarrow> string \<Rightarrow> exn + bool" where
  "js_includes v s =
     (case v of
        Some (JArr xs) \<Rightarrow> Inr (JStr (u s) \<in> set xs)
      | Some (JStr t) \<Rightarrow> Inr (sublist (u s) t)
      | None \<Rightarrow> Inl (TypeErr (u ''Cannot read properties of undefined (reading '' @ quoted ''includes'' @ u '')''))
      | Some JNull \<Rightarrow> Inl (TypeErr (u ''Cannot read properties of null (reading '' @ quoted ''includes'' @ u '')''))
      | Some _ \<Rightarrow> Inl (TypeErr (u ''includes is not a function'')))"

definition includes_path :: "json option \<Rightarrow> string list \<Rightarrow> string \<Rightarrow> exn + bool" where
  "includes_path v p s = ebind (path v p) (\<lambda>x. js_includes x s)"

section \<open>Coercions of the relational operators\<close>

definition is_space :: "code_unit \<Rightarrow> bool" where
  "is_space c \<longleftrightarrow>
     unat c \<in> {0x09, 0x0A, 0x0B, 0x0C, 0x0D, 0x20, 0xA0, 0x1680, 0x2028, 0x2029, 0x202F, 0x205F, 0x3000, 0xFEFF}
     \<or> 0x2000 \<le> unat c \<and> unat c \<le> 0x200A"

definition js_trim :: "jstring \<Rightarrow> jstring" where
  "js_trim s = rev (dropWhile is_space (rev (dropWhile is_space s)))"

fun join :: "jstring \<Rightarrow> jstring list \<Rightarrow> jstring" where
  "join sep [] = []"
| "join sep [s] = s"
| "join sep (s # t # ts) = s @ sep @ join sep (t # ts)"

text \<open>\<open>ToString\<close>; an object with its own \<open>toString\<close> member (never callable) has no primitive value.\<close>

fun to_str :: "json \<Rightarrow> exn + jstring"
and to_str_list :: "json list \<Rightarrow> exn + jstring list" where
  "to_str JNull = Inr (u ''null'')"
| "to_str (JBool b) = Inr (if b then u ''true'' else u ''false'')"
| "to_str (JNum n) = Inr (number_to_string n)"
| "to_str (JStr s) = Inr s"
| "to_str (JArr xs) = emap (join (u '','')) (to_str_list xs)"
| "to_str (JObj ps) =
     (if map_of ps (u ''toString'') = None then Inr (u ''[object Object]'')
      else Inl (TypeErr (u ''Cannot convert object to primitive value'')))"
| "to_str_list [] = Inr []"
| "to_str_list (x # xs) =
     ebind (if x = JNull then Inr [] else to_str x) (\<lambda>s. emap ((#) s) (to_str_list xs))"

definition hex_val :: "code_unit \<Rightarrow> nat option" where
  "hex_val c =
     (let n = unat c
      in if 0x30 \<le> n \<and> n \<le> 0x39 then Some (n - 0x30)
         else if 0x61 \<le> n \<and> n \<le> 0x66 then Some (n - 0x57)
         else if 0x41 \<le> n \<and> n \<le> 0x46 then Some (n - 0x37)
         else None)"

definition radix_number :: "nat \<Rightarrow> jstring \<Rightarrow> number" where
  "radix_number b s =
     (if s \<noteq> [] \<and> (\<forall>c \<in> set s. case hex_val c of Some d \<Rightarrow> d < b | None \<Rightarrow> False)
      then to_double (of_nat (foldl (\<lambda>a c. b * a + the (hex_val c)) 0 s)) else NaN)"

definition decimal_number :: "bool \<Rightarrow> jstring \<Rightarrow> number" where
  "decimal_number neg s =
     (let ip = takeWhile is_digit s; r = dropWhile is_digit s;
          (fp, r2) = (case r of [] \<Rightarrow> ([], r) | c # t \<Rightarrow> if c = 0x2E then (takeWhile is_digit t, dropWhile is_digit t)
                                                     else ([], r));
          (ex, r3) = match_exp r2
      in if ip @ fp \<noteq> [] \<and> r3 = [] then token_number neg (map digit_val ip, map digit_val fp, ex) else NaN)"

text \<open>\<open>StringToNumber\<close>\<close>

definition string_to_number :: "jstring \<Rightarrow> number" where
  "string_to_number s =
     (let t = js_trim s
      in if t = [] then Fin 0
         else if take 2 t \<in> {u ''0x'', u ''0X''} then radix_number 16 (drop 2 t)
         else if take 2 t \<in> {u ''0o'', u ''0O''} then radix_number 8 (drop 2 t)
         else if take 2 t \<in> {u ''0b'', u ''0B''} then radix_number 2 (drop 2 t)
         else (let (neg, r) = (if hd t = 0x2D then (True, tl t) else if hd t = 0x2B then (False, tl t)
                               else (False, t))
               in if r = u ''Infinity'' then (if neg then NInf else PInf) else decimal_number neg r))"

text \<open>\<open>ToPrimitive\<close> (hint number) and \<open>ToNumber\<close> of a primitive.\<close>

definition to_primitive :: "json option \<Rightarrow> exn + json option" where
  "to_primitive v =
     (case v of
        Some (JArr xs) \<Rightarrow> emap (\<lambda>s. Some (JStr s)) (to_str (JArr xs))
      | Some (JObj ps) \<Rightarrow> emap (\<lambda>s. Some (JStr s)) (to_str (JObj ps))
      | _ \<Rightarrow> Inr v)"

definition prim_number :: "json option \<Rightarrow> number" where
  "prim_number v =
     (case v of None \<Rightarrow> NaN | Some JNull \<Rightarrow> Fin 0 | Some (JBool b) \<Rightarrow> Fin (if b then 1 else 0)
      | Some (JNum n) \<Rightarrow> n | Some (JStr s) \<Rightarrow> string_to_number s | Some _ \<Rightarrow> NaN)"

definition prim_lt :: "json option \<Rightarrow> json option \<Rightarrow> bool" where
  "prim_lt a b =
     (case (a, b) of
        (Some (JStr s), Some (JStr t)) \<Rightarrow> s < t
      | _ \<Rightarrow> num_lt (prim_number a) (prim_number b))"

definition prim_le :: "json option \<Rightarrow> json option \<Rightarrow> bool" where
  "prim_le a b =
     (case (a, b) of
        (Some (JStr s), Some (JStr t)) \<Rightarrow> s \<le> t
      | _ \<Rightarrow> num_le (prim_number a) (prim_number b))"

definition js_lt :: "json option \<Rightarrow> json option \<Rightarrow> exn + bool" where
  "js_lt a b = ebind (to_primitive a) (\<lambda>p. ebind (to_primitive b) (\<lambda>q. Inr (prim_lt p q)))"

definition js_gt :: "json option \<Rightarrow> json option \<Rightarrow> exn + bool" where
  "js_gt a b = ebind (to_primitive a) (\<lambda>p. ebind (to_primitive b) (\<lambda>q. Inr (prim_lt q p)))"

definition js_le :: "json option \<Rightarrow> json option \<Rightarrow> exn + bool" where
  "js_le a b = ebind (to_primitive a) (\<lambda>p. ebind (to_primitive b) (\<lambda>q. Inr (prim_le p q)))"

lemma js_gt_num [simp, js_simps]: "js_gt (Some (JNum a)) (Some (JNum b)) = Inr (num_lt b a)"
  by (simp add: js_gt_def to_primitive_def prim_lt_def prim_number_def)

lemma js_le_num [simp, js_simps]: "js_le (Some (JNum a)) (Some (JNum b)) = Inr (num_le a b)"
  by (simp add: js_le_def to_primitive_def prim_le_def prim_number_def)

lemma js_lt_num [simp, js_simps]: "js_lt (Some (JNum a)) (Some (JNum b)) = Inr (num_lt a b)"
  by (simp add: js_lt_def to_primitive_def prim_lt_def prim_number_def)

section \<open>Lemmas on the primitives\<close>

lemma strict_eq_Str [simp, js_simps]: "strict_eq v (Some (JStr s)) \<longleftrightarrow> v = Some (JStr s)"
  by (cases v; simp; cases "the v"; auto)

lemma strict_eq_Str' [simp, js_simps]: "strict_eq (Some (JStr s)) v \<longleftrightarrow> v = Some (JStr s)"
  by (cases v; simp; cases "the v"; auto)

lemma strict_eq_Bool [simp, js_simps]: "strict_eq v (Some (JBool b)) \<longleftrightarrow> v = Some (JBool b)"
  by (cases v; simp; cases "the v"; auto)

lemma strict_eq_Null [simp, js_simps]: "strict_eq v (Some JNull) \<longleftrightarrow> v = Some JNull"
  by (cases v; simp; cases "the v"; auto)

lemma strict_eq_sym: "strict_eq a b = strict_eq b a"
  by (induction a b rule: strict_eq.induct) (auto simp: num_eq_def split: option.splits)

lemma is_str_iff [simp, js_simps]: "is_str v s \<longleftrightarrow> v = Some (JStr (u s))"
  by (simp add: is_str_def)

lemma get_prop_Obj [simp, js_simps]: "get_prop (Some (JObj ps)) k = Inr (map_of ps (u k))"
  by (simp add: get_prop_def)

lemma get_opt_Obj [simp, js_simps]: "get_opt (Some (JObj ps)) k = map_of ps (u k)"
  by (simp add: get_opt_def)

lemma get_opt_nullish [simp, js_simps]: "get_opt None k = None" "get_opt (Some JNull) k = None"
  by (simp_all add: get_opt_def get_prop_def)

lemma get_opt_Inr: "get_prop v k = Inr w \<Longrightarrow> get_opt v k = w"
  by (simp add: get_opt_def)

lemma path_append: "path v (p @ q) = ebind (path v p) (\<lambda>w. path w q)"
  by (induction v p rule: path.induct) (auto simp: ebind_assoc intro!: ebind_cong)

lemma neq_str_False_iff [guard_simps]:
  "neq_str a p s = Inr False \<longleftrightarrow> path a p = Inr (Some (JStr (u s)))"
  by (auto simp: neq_str_def result_simps)

lemma neq_jstr_False_iff [guard_simps]:
  "neq_jstr a p s = Inr False \<longleftrightarrow> path a p = Inr (Some (JStr s))"
  by (auto simp: neq_jstr_def result_simps)

lemma neq_val_iff [guard_simps]:
  "neq_val a p x = Inr b \<longleftrightarrow> (\<exists>y. path a p = Inr y \<and> b = (\<not> strict_eq y x))"
  by (auto simp: neq_val_def result_simps)

lemma neq_null_False_iff [guard_simps]:
  "neq_null a p = Inr False \<longleftrightarrow> path a p = Inr (Some JNull)"
  by (auto simp: neq_null_def is_null_def result_simps)

lemma neq_paths_False_iff [guard_simps]:
  "neq_paths a p b q = Inr False \<longleftrightarrow>
     (\<exists>x y. path a p = Inr x \<and> path b q = Inr y \<and> strict_eq x y)"
  by (auto simp: neq_paths_def result_simps)

lemma neq_paths_StrD:
  "neq_paths a p b q = Inr False \<Longrightarrow> path b q = Inr (Some (JStr s)) \<Longrightarrow> path a p = Inr (Some (JStr s))"
  by (auto simp: neq_paths_False_iff)

section \<open>JSON values\<close>

fun hval_of :: "json \<Rightarrow> hval" where
  "hval_of JNull = HNull"
| "hval_of (JBool b) = HBool b"
| "hval_of (JNum n) = HNum n"
| "hval_of (JStr s) = HStr s"
| "hval_of (JArr xs) = HArr True 0 (map (\<lambda>x. HData True (hval_of x)) xs) []"
| "hval_of (JObj ps) = HObj PlainProto 0 (map (\<lambda>(k, x). (k, HData True (hval_of x))) ps)"

text \<open>
  A well-formed JSON value: scalar strings, binary64 numbers, distinct member names.
\<close>

fun wf_json :: "json \<Rightarrow> bool" where
  "wf_json (JNum n) = (is_finite n \<and> wf_number n)"
| "wf_json (JStr s) = wf_utf16 s"
| "wf_json (JArr xs) = (\<forall>x \<in> set xs. wf_json x)"
| "wf_json (JObj ps) = (distinct (map fst ps) \<and> (\<forall>(k, x) \<in> set ps. wf_utf16 k \<and> wf_json x))"
| "wf_json _ = True"

fun json_depth :: "json \<Rightarrow> nat" where
  "json_depth (JArr xs) = Suc (Max (insert 0 (json_depth ` set xs)))"
| "json_depth (JObj ps) = Suc (Max (insert 0 ((\<lambda>(k, x). json_depth x) ` set ps)))"
| "json_depth _ = 0"

text \<open>The canonical representative: members sorted by name, \<open>-0\<close> replaced by \<open>0\<close>.\<close>

fun jnorm :: "json \<Rightarrow> json" where
  "jnorm (JNum n) = JNum (if n = NegZero then Fin 0 else n)"
| "jnorm (JArr xs) = JArr (map jnorm xs)"
| "jnorm (JObj ps) = JObj (sort_key fst (map (\<lambda>(k, x). (k, jnorm x)) ps))"
| "jnorm v = v"

lemma sort_key_id_sorted: "sorted (map f xs) \<Longrightarrow> sort_key f xs = xs"
  by (rule sort_key_id_if_sorted)

lemma sort_key_map_fst: "sort_key fst (map (\<lambda>(k, x). (k, f x)) ps) = map (\<lambda>(k, x). (k, f x)) (sort_key fst ps)"
proof (induction ps)
  case (Cons p ps)
  obtain k x where p: "p = (k, x)" by (cases p)
  have "insort_key fst (k, f x) (map (\<lambda>(k, x). (k, f x)) qs) =
        map (\<lambda>(k, x). (k, f x)) (insort_key fst (k, x) qs)" for qs
    by (induction qs) auto
  with Cons show ?case by (simp add: p)
qed simp

lemma jnorm_jnorm [simp]: "jnorm (jnorm v) = jnorm v"
proof (induction v)
  case (JObj ps)
  let ?g = "\<lambda>(k, x). (k, jnorm x)"
  have gg: "map ?g (map ?g qs) = map ?g qs" if "set qs \<subseteq> set ps" for qs
    using JObj that by (auto simp: Basic_BNFs.snds.simps)
  have s: "sort_key fst (sort_key fst ps) = sort_key fst ps"
    by (rule sort_key_id_sorted) simp
  have "sort_key fst (map ?g (sort_key fst (map ?g ps))) = map ?g (map ?g (sort_key fst ps))"
    by (simp only: sort_key_map_fst s)
  also have "\<dots> = map ?g (sort_key fst ps)" by (rule gg) simp
  also have "\<dots> = sort_key fst (map ?g ps)" by (simp only: sort_key_map_fst)
  finally show ?case by simp
qed auto

lemma set_sort_members:
  "set (sort_key fst (map (\<lambda>(k, x). (k, f x)) ps)) = (\<lambda>(k, x). (k, f x)) ` set ps"
  by simp

lemma distinct_sort_members:
  "distinct (map fst ps) \<Longrightarrow> distinct (map fst (sort_key fst (map (\<lambda>(k, x). (k, f x)) ps)))"
proof -
  assume d: "distinct (map fst ps)"
  have "mset (map fst (sort_key fst (map (\<lambda>(k, x). (k, f x)) ps))) = mset (map fst ps)"
    by (simp add: multiset.map_comp comp_def split_def)
  then show ?thesis using d by (metis distinct_count_atmost_1 set_mset_mset)
qed

lemma wf_json_jnorm: "wf_json v \<Longrightarrow> wf_json (jnorm v)"
proof (induction v)
  case (JObj ps)
  have "\<forall>(k, x) \<in> set ps. wf_utf16 k \<and> wf_json (jnorm x)"
    using JObj by (fastforce simp: Basic_BNFs.snds.simps)
  then show ?case using JObj.prems distinct_sort_members by fastforce
qed (auto simp: wf_number_def)

lemma json_depth_jnorm: "json_depth (jnorm v) = json_depth v"
proof (induction v)
  case (JArr xs)
  then have "json_depth ` jnorm ` set xs = json_depth ` set xs" by (force simp: image_iff)
  then show ?case by simp
next
  case (JObj ps)
  then have "(\<lambda>(k, x). json_depth x) ` (\<lambda>(k, x). (k, jnorm x)) ` set ps = (\<lambda>(k, x). json_depth x) ` set ps"
    by (force simp: image_iff Basic_BNFs.snds.simps split_def)
  then show ?case by simp
qed auto

declare path.simps [simp del]

end
