(* ===== verification/Jcs.thy ===== *)
theory Jcs
  imports JsValue
begin

text \<open>
  Canonical JSON (\<open>canonicalizeJcs\<close> in \<open>packages/kdna-core/src/runtime-capsule.js\<close>).

  \<open>canonicalizeJcs\<close> is the serializer on caller values, with every refusal of the code; the
  path label of its messages is threaded as in the source.  \<open>canon\<close> is the text it produces for
  a plain JSON value and \<open>plain_view\<close> the JSON value it reads off a caller value;
  \<open>canonicalizeJcs_success\<close> says that these two describe exactly the accepted inputs.
\<close>

section \<open>Serialization of caller values\<close>

text \<open>The first unpaired surrogate of a string: \<open>Some True\<close> for a high one.\<close>

fun surrogate_fault :: "jstring \<Rightarrow> bool option" where
  "surrogate_fault [] = None"
| "surrogate_fault (c # cs) =
     (if is_high c then (case cs of [] \<Rightarrow> Some True | d # ds \<Rightarrow> if is_low d then surrogate_fault ds else Some True)
      else if is_low c then Some False
      else surrogate_fault cs)"

definition assertUnicodeScalarString :: "jstring \<Rightarrow> jstring \<Rightarrow> exn + unit" where
  "assertUnicodeScalarString v label =
     (case surrogate_fault v of
        None \<Rightarrow> Inr ()
      | Some True \<Rightarrow> Inl (CodedError ''KDNA_JCS_INVALID_UNICODE'' (label @ u '' contains an unpaired high surrogate.'') None)
      | Some False \<Rightarrow> Inl (CodedError ''KDNA_JCS_INVALID_UNICODE'' (label @ u '' contains an unpaired low surrogate.'') None))"

definition unsupported :: "jstring \<Rightarrow> string \<Rightarrow> exn" where
  "unsupported label m = CodedError ''KDNA_JCS_UNSUPPORTED_VALUE'' (label @ u m) None"

definition index_text :: "nat \<Rightarrow> jstring" where
  "index_text i = number_to_string (num_of_nat i)"

fun slot_enumerable :: "hslot \<Rightarrow> bool" where
  "slot_enumerable HHole = False"
| "slot_enumerable (HData e v) = e"
| "slot_enumerable (HAccessor e r) = e"

definition seqE :: "('e + 'a) list \<Rightarrow> 'e + 'a list" where
  "seqE ms = mapE (\<lambda>m. m) ms"

fun serialize :: "jstring \<Rightarrow> hval \<Rightarrow> exn + jstring"
and serialize_items :: "jstring \<Rightarrow> nat \<Rightarrow> hslot list \<Rightarrow> (exn + jstring) list"
and serialize_members :: "jstring \<Rightarrow> (jstring \<times> hslot) list \<Rightarrow> (jstring \<times> (exn + jstring)) list" where
  "serialize l HNull = Inr (u ''null'')"
| "serialize l (HBool b) = Inr (if b then u ''true'' else u ''false'')"
| "serialize l (HStr s) = ebind (assertUnicodeScalarString s l) (\<lambda>_. Inr (json_quote s))"
| "serialize l (HNum n) =
     (if is_finite n then Inr (number_to_string n)
      else Inl (CodedError ''KDNA_JCS_NON_FINITE_NUMBER'' (l @ u '' contains a non-finite number.'') None))"
| "serialize l HUndefined = Inl (unsupported l '' is not an RFC 8785 JSON value.'')"
| "serialize l (HOther t) = Inl (unsupported l '' is not an RFC 8785 JSON value.'')"
| "serialize l HCycle =
     Inl (CodedError ''KDNA_JCS_CYCLIC_VALUE'' (l @ u '' contains a cyclic reference.'') None)"
| "serialize l (HArr std nsym slots extras) =
     emap (\<lambda>items. u ''['' @ join (u '','') items @ u '']'') (seqE (serialize_items l 0 slots))"
| "serialize l (HObj pr nsym ps) =
     (if pr = OtherProto then Inl (unsupported l '' must be a plain JSON object.'')
      else if (\<exists>(k, s) \<in> set ps. \<not> slot_enumerable s) \<or> nsym \<noteq> 0
           then Inl (unsupported l '' contains non-JSON object members.'')
      else emap (\<lambda>ms. u ''{'' @ join (u '','') ms @ u ''}'')
             (seqE (map snd (sort_key fst (serialize_members l ps)))))"
| "serialize_items l i [] = []"
| "serialize_items l i (s # ss) =
     (case s of
        HHole \<Rightarrow> Inl (unsupported l '' contains a sparse array.'')
      | HData e v \<Rightarrow> serialize (l @ u ''['' @ index_text i @ u '']'') v
      | HAccessor e None \<Rightarrow> Inl GetterThrow
      | HAccessor e (Some v) \<Rightarrow> serialize (l @ u ''['' @ index_text i @ u '']'') v)
     # serialize_items l (Suc i) ss"
| "serialize_members l [] = []"
| "serialize_members l (p # ps) =
     (case p of (k, s) \<Rightarrow>
        (k, ebind (assertUnicodeScalarString k (l @ u '' key'')) (\<lambda>_.
           case s of
             HData e v \<Rightarrow> emap (\<lambda>t. json_quote k @ u '':'' @ t) (serialize (l @ u ''.'' @ k) v)
           | HHole \<Rightarrow> Inl (unsupported (l @ u ''.'' @ k) '' must be a data property.'')
           | HAccessor e r \<Rightarrow> Inl (unsupported (l @ u ''.'' @ k) '' must be a data property.''))))
     # serialize_members l ps"

definition canonicalizeJcs :: "hval \<Rightarrow> exn + jstring" where
  "canonicalizeJcs v = serialize (u ''$'') v"

section \<open>The canonical text\<close>

fun canon :: "json \<Rightarrow> jstring" where
  "canon JNull = u ''null''"
| "canon (JBool b) = (if b then u ''true'' else u ''false'')"
| "canon (JNum n) = number_to_string n"
| "canon (JStr s) = json_quote s"
| "canon (JArr xs) = u ''['' @ join (u '','') (map canon xs) @ u '']''"
| "canon (JObj ps) =
     u ''{'' @ join (u '','') (map (\<lambda>(k, t). json_quote k @ u '':'' @ t)
                                   (sort_key fst (map (\<lambda>(k, v). (k, canon v)) ps))) @ u ''}''"

text \<open>The strings and numbers that have a canonical text.\<close>

fun scalar_json :: "json \<Rightarrow> bool" where
  "scalar_json (JNum n) = is_finite n"
| "scalar_json (JStr s) = wf_utf16 s"
| "scalar_json (JArr xs) = (\<forall>x \<in> set xs. scalar_json x)"
| "scalar_json (JObj ps) = (\<forall>(k, x) \<in> set ps. wf_utf16 k \<and> scalar_json x)"
| "scalar_json _ = True"

fun plain_view :: "hval \<Rightarrow> json option"
and plain_items :: "hslot list \<Rightarrow> json list option"
and plain_members :: "(jstring \<times> hslot) list \<Rightarrow> (jstring \<times> json) list option" where
  "plain_view HNull = Some JNull"
| "plain_view (HBool b) = Some (JBool b)"
| "plain_view (HStr s) = Some (JStr s)"
| "plain_view (HNum n) = Some (JNum n)"
| "plain_view HUndefined = None"
| "plain_view (HOther t) = None"
| "plain_view HCycle = None"
| "plain_view (HArr std nsym slots extras) = map_option JArr (plain_items slots)"
| "plain_view (HObj pr nsym ps) =
     (if pr = OtherProto \<or> nsym \<noteq> 0 then None else map_option JObj (plain_members ps))"
| "plain_items [] = Some []"
| "plain_items (s # ss) =
     (case s of
        HHole \<Rightarrow> None
      | HData e v \<Rightarrow> Option.bind (plain_view v) (\<lambda>x. map_option ((#) x) (plain_items ss))
      | HAccessor e None \<Rightarrow> None
      | HAccessor e (Some v) \<Rightarrow> Option.bind (plain_view v) (\<lambda>x. map_option ((#) x) (plain_items ss)))"
| "plain_members [] = Some []"
| "plain_members (p # ps) =
     (case p of (k, s) \<Rightarrow>
        case s of
          HData True v \<Rightarrow> Option.bind (plain_view v) (\<lambda>x. map_option ((#) (k, x)) (plain_members ps))
        | _ \<Rightarrow> None)"

section \<open>Which inputs are accepted\<close>

lemma seqE_Inr_iff: "seqE ms = Inr xs \<longleftrightarrow> ms = map Inr xs"
  by (induction ms arbitrary: xs) (auto simp: seqE_def result_simps)

lemma surrogate_fault_None_iff: "surrogate_fault s = None \<longleftrightarrow> wf_utf16 s"
  by (induction s rule: surrogate_fault.induct) (auto split: list.splits)

lemma assertUnicodeScalarString_Inr [result_simps]:
  "assertUnicodeScalarString s l = Inr x \<longleftrightarrow> wf_utf16 s"
  by (auto simp: assertUnicodeScalarString_def simp flip: surrogate_fault_None_iff
      split: option.splits bool.splits)

lemma sort_key_map_snd_Inr:
  fixes ps :: "('k :: linorder \<times> ('e + 't)) list"
  shows "map snd (sort_key fst ps) = map Inr ts \<longleftrightarrow>
     (\<exists>qs. ps = map (\<lambda>(k, t). (k, Inr t)) qs \<and> ts = map snd (sort_key fst qs))"
proof
  assume eq: "map snd (sort_key fst ps) = map Inr ts"
  then have "\<forall>p \<in> set ps. \<exists>t. snd p = Inr t"
    by (metis (no_types, lifting) image_iff list.set_map set_sort)
  then have "ps = map (\<lambda>(k, t). (k, Inr t)) (map (\<lambda>(k, m). (k, projr m)) ps)"
    by (auto simp: list_eq_iff_nth_eq split_def) (metis nth_mem prod.collapse sum.sel(2))
  then obtain qs where qs: "ps = map (\<lambda>(k, t). (k, Inr t)) qs" by blast
  have "map (\<lambda>p. Inr (snd p) :: 'e + 't) (sort_key fst qs) = map Inr ts"
    using eq unfolding qs sort_key_map_fst by (simp add: comp_def split_def)
  then have "ts = map snd (sort_key fst qs)"
    by (metis (no_types, lifting) inj_map_eq_map inj_Inr map_map comp_def map_eq_conv)
  with qs show "\<exists>qs. ps = map (\<lambda>(k, t). (k, Inr t)) qs \<and> ts = map snd (sort_key fst qs)" by blast
next
  assume "\<exists>qs. ps = map (\<lambda>(k, t). (k, Inr t)) qs \<and> ts = map snd (sort_key fst qs)"
  then obtain qs where "ps = map (\<lambda>(k, t). (k, Inr t)) qs" "ts = map snd (sort_key fst qs)" by blast
  then show "map snd (sort_key fst ps) = map Inr ts"
    by (simp only: sort_key_map_fst) (simp add: comp_def split_def)
qed

definition members_text :: "(jstring \<times> json) list \<Rightarrow> (jstring \<times> jstring) list" where
  "members_text xs = map (\<lambda>(k, x). (k, json_quote k @ u '':'' @ canon x)) xs"

lemma canon_Obj:
  "canon (JObj xs) = u ''{'' @ join (u '','') (map snd (sort_key fst (members_text xs))) @ u ''}''"
proof -
  have "map (\<lambda>(k, t). json_quote k @ u '':'' @ t) (sort_key fst (map (\<lambda>(k, v). (k, canon v)) xs)) =
        map snd (sort_key fst (map (\<lambda>(k, x). (k, json_quote k @ u '':'' @ canon x)) xs))"
  proof -
    have "insort_key fst (k, json_quote k @ u '':'' @ canon x) (map (\<lambda>(k, t). (k, json_quote k @ u '':'' @ t)) qs) =
        map (\<lambda>(k, t). (k, json_quote k @ u '':'' @ t)) (insort_key fst (k, canon x) qs)" for k x qs
      by (induction qs) auto
    then have "sort_key fst (map (\<lambda>(k, x). (k, json_quote k @ u '':'' @ canon x)) xs) =
        map (\<lambda>(k, t). (k, json_quote k @ u '':'' @ t)) (sort_key fst (map (\<lambda>(k, v). (k, canon v)) xs))"
      by (induction xs) auto
    then show ?thesis by (simp add: comp_def split_def)
  qed
  then show ?thesis by (simp add: members_text_def)
qed

declare canon.simps(6) [simp del]

lemma serialize_sound:
  "serialize l v = Inr t \<Longrightarrow> \<exists>j. plain_view v = Some j \<and> scalar_json j \<and> t = canon j"
  "serialize_items l i ss = map Inr ts \<Longrightarrow>
     \<exists>js. plain_items ss = Some js \<and> (\<forall>j \<in> set js. scalar_json j) \<and> ts = map canon js"
  "serialize_members l ps = map (\<lambda>(k, t). (k, Inr t)) qs \<Longrightarrow> \<forall>(k, s) \<in> set ps. slot_enumerable s \<Longrightarrow>
     \<exists>js. plain_members ps = Some js \<and> (\<forall>(k, j) \<in> set js. wf_utf16 k \<and> scalar_json j) \<and> qs = members_text js"
proof (induction l v and l i ss and l ps arbitrary: t and ts and qs
    rule: serialize_serialize_items_serialize_members.induct)
  case (8 l std nsym slots extras)
  then show ?case by (fastforce simp: result_simps seqE_Inr_iff)
next
  case (9 l pr nsym ps)
  from "9.prems" obtain ms where ok: "pr \<noteq> OtherProto" "\<forall>(k, s) \<in> set ps. slot_enumerable s" "nsym = 0"
    and ms: "map snd (sort_key fst (serialize_members l ps)) = map Inr ms"
    and t: "t = u ''{'' @ join (u '','') ms @ u ''}''"
    by (auto simp: result_simps seqE_Inr_iff split: if_splits)
  from ms obtain qs where qs: "serialize_members l ps = map (\<lambda>(k, t). (k, Inr t)) qs"
    and ms': "ms = map snd (sort_key fst qs)" unfolding sort_key_map_snd_Inr by blast
  have "\<not> ((\<exists>(k, s) \<in> set ps. \<not> slot_enumerable s) \<or> nsym \<noteq> 0)" using ok by auto
  from "9.IH" [OF ok(1) this qs ok(2)] obtain js where
    "plain_members ps = Some js" "\<forall>(k, j) \<in> set js. wf_utf16 k \<and> scalar_json j" "qs = members_text js"
    by blast
  then show ?case using ok t ms' by (intro exI [of _ "JObj js"]) (simp add: canon_Obj)
next
  case (11 l i s ss)
  from "11.prems" obtain x xs where ts: "ts = x # xs"
    and hd: "(case s of HHole \<Rightarrow> Inl (unsupported l '' contains a sparse array.'')
      | HData e v \<Rightarrow> serialize (l @ u ''['' @ index_text i @ u '']'') v
      | HAccessor e None \<Rightarrow> Inl GetterThrow
      | HAccessor e (Some v) \<Rightarrow> serialize (l @ u ''['' @ index_text i @ u '']'') v) = Inr x"
    and tl: "serialize_items l (Suc i) ss = map Inr xs" by (cases ts) auto
  from "11.IH"(3) [OF tl] obtain js where js: "plain_items ss = Some js"
    "\<forall>j \<in> set js. scalar_json j" "xs = map canon js" by blast
  from hd "11.IH"(1,2) obtain v j where v: "s = HData True v \<or> s = HData False v \<or> (\<exists>e. s = HAccessor e (Some v))"
    and j: "plain_view v = Some j" "scalar_json j" "x = canon j"
    by (auto split: hslot.splits option.splits) metis+
  then show ?case using ts js by (auto intro!: exI [of _ "j # js"])
next
  case (13 l p ps)
  obtain k s where p: "p = (k, s)" by (cases p)
  from "13.prems" p obtain e v where s: "s = HData e v" and e: "e"
    by (auto simp: result_simps split: hslot.splits)
  from "13.prems" p s obtain x xs where qs: "qs = (k, x) # xs"
    and hd: "ebind (assertUnicodeScalarString k (l @ u '' key''))
               (\<lambda>_. emap (\<lambda>t. json_quote k @ u '':'' @ t) (serialize (l @ u ''.'' @ k) v)) = Inr x"
    and tl: "serialize_members l ps = map (\<lambda>(k, t). (k, Inr t)) xs" by (cases qs) auto
  from hd obtain t where t: "wf_utf16 k" "serialize (l @ u ''.'' @ k) v = Inr t" "x = json_quote k @ u '':'' @ t"
    by (auto simp: result_simps)
  obtain w where w: "assertUnicodeScalarString k (l @ u '' key'') = Inr w"
    using t(1) by (simp add: result_simps)
  from "13.IH"(1) [OF p [symmetric] w s t(2)] obtain j where
    j: "plain_view v = Some j" "scalar_json j" "t = canon j" by blast
  from "13.IH"(2) [OF tl] "13.prems"(2) obtain js where js: "plain_members ps = Some js"
    "\<forall>(k, j) \<in> set js. wf_utf16 k \<and> scalar_json j" "xs = members_text js" by auto
  show ?case using p s e t j js qs
    by (intro exI [of _ "(k, j) # js"]) (simp add: members_text_def)
qed (auto simp: result_simps members_text_def split: if_splits)

lemma serialize_complete:
  "plain_view v = Some j \<Longrightarrow> scalar_json j \<Longrightarrow> serialize l v = Inr (canon j)"
  "plain_items ss = Some js \<Longrightarrow> \<forall>j \<in> set js. scalar_json j \<Longrightarrow>
     serialize_items l i ss = map Inr (map canon js)"
  "plain_members ps = Some js' \<Longrightarrow> \<forall>(k, j) \<in> set js'. wf_utf16 k \<and> scalar_json j \<Longrightarrow>
     (\<forall>(k, s) \<in> set ps. slot_enumerable s) \<and>
     serialize_members l ps = map (\<lambda>(k, t). (k, Inr t)) (members_text js')"
proof (induction v and ss and ps arbitrary: l j and l i js and l js'
    rule: plain_view_plain_items_plain_members.induct)
  case (8 std nsym slots extras)
  then obtain js where js: "plain_items slots = Some js" "j = JArr js" by auto
  with 8 have "seqE (serialize_items l 0 slots) = Inr (map canon js)"
    by (simp add: seqE_Inr_iff)
  then show ?case using js by simp
next
  case (9 pr nsym ps)
  then obtain js' where js': "plain_members ps = Some js'" "j = JObj js'" "pr \<noteq> OtherProto" "nsym = 0"
    by (auto split: if_splits)
  with 9 have m: "(\<forall>(k, s) \<in> set ps. slot_enumerable s) \<and>
     serialize_members l ps = map (\<lambda>(k, t). (k, Inr t)) (members_text js')" by simp
  then have "map snd (sort_key fst (serialize_members l ps)) = map Inr (map snd (sort_key fst (members_text js')))"
    unfolding sort_key_map_snd_Inr by blast
  then have "seqE (map snd (sort_key fst (serialize_members l ps))) = Inr (map snd (sort_key fst (members_text js')))"
    by (simp only: seqE_Inr_iff)
  then show ?case using m js' by (simp only: serialize.simps emap_simps canon_Obj) auto
next
  case (11 s ss)
  then show ?case
    by (auto split: hslot.splits option.splits simp: bind_eq_Some_conv)
next
  case (13 p ps)
  obtain k s where p: "p = (k, s)" by (cases p)
  from "13.prems" p obtain v x xs where s: "s = HData True v" and x: "plain_view v = Some x"
    and xs: "plain_members ps = Some xs" and js': "js' = (k, x) # xs"
    by (auto split: hslot.splits bool.splits simp: bind_eq_Some_conv)
  have k: "wf_utf16 k" "scalar_json x" using "13.prems" js' by auto
  have a: "assertUnicodeScalarString k (l @ u '' key'') = Inr ()" using k(1) by (simp add: result_simps)
  have "serialize (l @ u ''.'' @ k) v = Inr (canon x)"
    using "13.IH"(1) [OF p [symmetric] s] x k(2) by simp
  moreover have "(\<forall>(k, s) \<in> set ps. slot_enumerable s) \<and>
     serialize_members l ps = map (\<lambda>(k, t). (k, Inr t)) (members_text xs)"
    using "13.IH"(2) [OF p [symmetric] s] x xs "13.prems"(2) js' by simp
  ultimately show ?case using p s a js' by (simp add: members_text_def)
qed (auto simp: result_simps members_text_def assertUnicodeScalarString_def surrogate_fault_None_iff [THEN iffD2])

theorem canonicalizeJcs_success:
  "canonicalizeJcs v = Inr t \<longleftrightarrow> (\<exists>j. plain_view v = Some j \<and> scalar_json j \<and> t = canon j)"
  unfolding canonicalizeJcs_def using serialize_sound(1) serialize_complete(1) by fastforce

lemma plain_view_hval_of [simp]: "plain_view (hval_of j) = Some j"
proof (induction j)
  case (JArr xs)
  then have "plain_items (map (\<lambda>x. HData True (hval_of x)) xs) = Some xs"
    by (induction xs) auto
  then show ?case by simp
next
  case (JObj ps)
  then have "\<forall>(k, x) \<in> set ps. plain_view (hval_of x) = Some x"
    by (fastforce simp: Basic_BNFs.snds.simps)
  then have "plain_members (map (\<lambda>(k, x). (k, HData True (hval_of x))) ps) = Some ps"
    by (induction ps) auto
  then show ?case by simp
qed auto

lemma scalar_json_wf: "wf_json j \<Longrightarrow> scalar_json j"
  by (induction j) (fastforce simp: Basic_BNFs.snds.simps)+

lemma canonicalizeJcs_hval_of: "scalar_json j \<Longrightarrow> canonicalizeJcs (hval_of j) = Inr (canon j)"
  by (subst canonicalizeJcs_success) auto

section \<open>Canonical text and normal form\<close>

lemma canon_jnorm [simp]: "canon (jnorm j) = canon j"
proof (induction j)
  case (JNum n)
  then show ?case by (simp add: number_to_string_def)
next
  case (JArr xs)
  then show ?case by (auto simp: comp_def cong: map_cong)
next
  case (JObj ps)
  have s: "sort_key fst (sort_key fst (map f ps)) = sort_key fst (map f ps)"
    for f :: "jstring \<times> json \<Rightarrow> jstring \<times> jstring"
    by (rule sort_key_id_sorted) simp
  have "map (\<lambda>(k, v). (k, canon v)) (sort_key fst (map (\<lambda>(k, x). (k, jnorm x)) ps)) =
        sort_key fst (map (\<lambda>(k, v). (k, canon v)) (map (\<lambda>(k, x). (k, jnorm x)) ps))"
    by (rule sort_key_map_fst [symmetric])
  also have "map (\<lambda>(k, v). (k, canon v)) (map (\<lambda>(k, x). (k, jnorm x)) ps) = map (\<lambda>(k, v). (k, canon v)) ps"
    using JObj by (auto simp: Basic_BNFs.snds.simps)
  finally show ?case by (simp add: s canon.simps(6))
qed auto

end
