(* ===== verification/StrictJson.thy ===== *)
theory StrictJson
  imports Jcs
begin

text \<open>
  The strict JSON parser of the execution contract (\<open>StrictJsonParser\<close> and
  \<open>parseRuntimeContractJson\<close> in \<open>packages/kdna-core/src/runtime-contract.js\<close>).

  The parser object of the source holds the text and an index.  Here the state is the suffix
  of the text from the index on; the index itself, which error details report, is the length
  \<open>N\<close> of the text minus the length of the suffix.  The method names are those of the source.
  \<open>parse_canon\<close> is the round trip with the canonical serializer and
  \<open>parse_wf\<close> says that whatever the parser returns is a well-formed JSON value.
\<close>

section \<open>Errors\<close>

definition offset_details :: "nat \<Rightarrow> json option" where
  "offset_details i = Some (JObj [(u ''code_unit_offset'', JNum (num_of_nat i))])"

definition syntax_at :: "nat \<Rightarrow> string \<Rightarrow> exn" where
  "syntax_at i m = ContractError ''KDNA_JSON_SYNTAX_INVALID'' (u m) (offset_details i)"

definition syntax_err :: "nat \<Rightarrow> jstring \<Rightarrow> string \<Rightarrow> exn" where
  "syntax_err N cs m = syntax_at (N - length cs) m"

definition invalidUnicode :: "nat \<Rightarrow> jstring \<Rightarrow> exn" where
  "invalidUnicode N cs =
     ContractError ''KDNA_JSON_INVALID_UNICODE''
       (u ''Execution-contract JSON contains an unpaired UTF-16 surrogate.'')
       (offset_details (N - length cs))"

section \<open>Tokens\<close>

definition is_ws :: "code_unit \<Rightarrow> bool" where
  "is_ws c \<longleftrightarrow> c = 0x20 \<or> c = 0x0A \<or> c = 0x0D \<or> c = 0x09"

definition skipWhitespace :: "jstring \<Rightarrow> jstring" where
  "skipWhitespace cs = dropWhile is_ws cs"

definition parseHexCodeUnit :: "nat \<Rightarrow> jstring \<Rightarrow> exn + code_unit \<times> jstring" where
  "parseHexCodeUnit N cs =
     (let hex = take 4 cs
      in if length hex = 4 \<and> (\<forall>c \<in> set hex. hex_val c \<noteq> None)
         then Inr (unit_of (foldl (\<lambda>a c. 16 * a + the (hex_val c)) 0 hex), drop 4 cs)
         else Inl (syntax_err N cs ''Invalid Unicode escape in JSON string.''))"

definition simple_escape :: "code_unit \<Rightarrow> code_unit option" where
  "simple_escape c =
     (if c = 0x22 then Some 0x22 else if c = 0x5C then Some 0x5C else if c = 0x2F then Some 0x2F
      else if c = 0x62 then Some 0x08 else if c = 0x66 then Some 0x0C else if c = 0x6E then Some 0x0A
      else if c = 0x72 then Some 0x0D else if c = 0x74 then Some 0x09 else None)"

definition parseEscape :: "nat \<Rightarrow> jstring \<Rightarrow> exn + jstring \<times> jstring" where
  "parseEscape N cs =
     (case cs of
        [] \<Rightarrow> Inl (syntax_err N cs ''Invalid JSON string escape.'')
      | c # r \<Rightarrow>
          (case simple_escape c of
             Some x \<Rightarrow> Inr ([x], r)
           | None \<Rightarrow>
               if c \<noteq> 0x75 then Inl (syntax_err N cs ''Invalid JSON string escape.'')
               else ebind (parseHexCodeUnit N r) (\<lambda>(first, r1).
                 if is_high first then
                   (if take 2 r1 \<noteq> [0x5C, 0x75] then Inl (invalidUnicode N r1)
                    else ebind (parseHexCodeUnit N (drop 2 r1)) (\<lambda>(second, r2).
                      if \<not> is_low second then Inl (invalidUnicode N r2)
                      else Inr (units_of_cp (pair_value first second), r2)))
                 else if is_low first then Inl (invalidUnicode N r1)
                 else Inr ([first], r1))))"

lemma parseHexCodeUnit_length: "parseHexCodeUnit N cs = Inr (h, r) \<Longrightarrow> length r < length cs"
  by (auto simp: parseHexCodeUnit_def Let_def split: if_splits)

lemma parseEscape_length: "parseEscape N cs = Inr (out, r) \<Longrightarrow> length r < length cs"
  by (auto simp: parseEscape_def result_simps split: list.splits option.splits if_splits
      dest!: parseHexCodeUnit_length)

text \<open>
  The loop of \<open>parseString\<close>, after the opening quote.  A high surrogate as the very last
  code unit passes the comparison with \<open>NaN\<close>, and the index runs one past the end.
\<close>

function parse_chars :: "nat \<Rightarrow> jstring \<Rightarrow> jstring \<Rightarrow> exn + jstring \<times> jstring" where
  "parse_chars N out cs =
     (case cs of
        [] \<Rightarrow> Inl (syntax_err N cs ''Unterminated JSON string.'')
      | c # r \<Rightarrow>
          if c = 0x22 then Inr (out, r)
          else if c = 0x5C then ebind (parseEscape N r) (\<lambda>(o1, r1). parse_chars N (out @ o1) r1)
          else if c \<le> 0x1F then Inl (syntax_err N cs ''Unescaped control character in JSON string.'')
          else if is_high c then
            (case r of
               [] \<Rightarrow> Inl (syntax_at (N + 1) ''Unterminated JSON string.'')
             | d # r1 \<Rightarrow> if \<not> is_low d then Inl (invalidUnicode N cs) else parse_chars N (out @ [c, d]) r1)
          else if is_low c then Inl (invalidUnicode N cs)
          else parse_chars N (out @ [c]) r)"
  by pat_completeness auto
termination
  by (relation "measure (\<lambda>(N, out, cs). length cs)") (auto dest: parseEscape_length)

declare parse_chars.simps [simp del]

definition parseString :: "nat \<Rightarrow> jstring \<Rightarrow> exn + jstring \<times> jstring" where
  "parseString N r = parse_chars N [] r"

lemma parse_chars_length: "parse_chars N out cs = Inr (s, r) \<Longrightarrow> length r < length cs"
proof (induction N out cs rule: parse_chars.induct)
  case (1 N out cs)
  show ?case using "1.prems"
    by (subst (asm) parse_chars.simps)
       (fastforce simp: result_simps split: list.splits if_splits dest: parseEscape_length "1.IH")
qed

lemma parseString_length: "parseString N cs = Inr (s, r) \<Longrightarrow> length r < length cs"
  unfolding parseString_def by (rule parse_chars_length)

definition parseNumber :: "nat \<Rightarrow> jstring \<Rightarrow> exn + json \<times> jstring" where
  "parseNumber N cs =
     (case match_number cs of
        None \<Rightarrow> Inl (syntax_err N cs ''Invalid JSON number.'')
      | Some (neg, t, r) \<Rightarrow>
          let number = token_number neg t
          in if is_finite number then Inr (JNum number, r)
             else Inl (ContractError ''KDNA_JSON_NUMBER_INVALID''
                    (u ''Execution-contract JSON number is outside the finite IEEE-754 range.'') None))"

lemma length_skipWhitespace: "length (skipWhitespace cs) \<le> length cs"
  unfolding skipWhitespace_def by (rule length_dropWhile_le)

lemma match_number_length: "match_number cs = Some (neg, t, r) \<Longrightarrow> length r < length cs"
proof -
  have i: "match_int cs = Some (ip, r) \<Longrightarrow> length r < length cs" for cs ip r
    using length_dropWhile_le [of is_digit "tl cs"]
    by (auto simp: match_int_def split: list.splits if_splits)
  have f: "match_frac cs = (fp, r) \<Longrightarrow> length r \<le> length cs" for cs fp r
    using length_dropWhile_le [of is_digit "tl cs"]
    by (auto simp: match_frac_def split: list.splits if_splits)
  have e: "match_exp cs = (ex, r) \<Longrightarrow> length r \<le> length cs" for cs ex r
    using length_dropWhile_le [of is_digit "tl cs"] length_dropWhile_le [of is_digit "tl (tl cs)"]
    by (auto simp: match_exp_def Let_def split: list.splits if_splits)
  show "match_number cs = Some (neg, t, r) \<Longrightarrow> length r < length cs"
    by (auto simp: match_number_def Let_def split: list.splits if_splits option.splits prod.splits
        dest!: i f e)
qed

lemma parseNumber_length: "parseNumber N cs = Inr (v, r) \<Longrightarrow> length r < length cs"
  by (auto simp: parseNumber_def Let_def split: option.splits if_splits dest: match_number_length)

section \<open>Values\<close>

definition limit_error :: exn where
  "limit_error =
     ContractError ''KDNA_JSON_LIMIT_EXCEEDED''
       (u ''Execution-contract JSON exceeds the configured nesting limit.'') None"

definition duplicate_key :: "nat \<Rightarrow> jstring \<Rightarrow> jstring \<Rightarrow> exn" where
  "duplicate_key N cs key =
     ContractError ''KDNA_JSON_DUPLICATE_KEY''
       (u ''Execution-contract JSON contains duplicate member name '' @ json_quote key @ u ''.'')
       (Some (JObj [(u ''key'', JStr key), (u ''code_unit_offset'', JNum (num_of_nat (N - length cs)))]))"

text \<open>The keyword branches of \<open>parseValue\<close>.\<close>

definition parseKeyword :: "nat \<Rightarrow> jstring \<Rightarrow> exn + json \<times> jstring" where
  "parseKeyword N cs =
     (if prefix (u ''true'') cs then Inr (JBool True, drop 4 cs)
      else if prefix (u ''false'') cs then Inr (JBool False, drop 5 cs)
      else if prefix (u ''null'') cs then Inr (JNull, drop 4 cs)
      else Inl (syntax_err N cs ''Expected a JSON value.''))"

text \<open>
  The punctuation of the two loops: the colon after a member name, and what follows a value
  (\<open>True\<close>: the closing bracket \<open>close\<close>; \<open>False\<close>: a comma, after which white space is skipped).
\<close>

definition parseColon :: "nat \<Rightarrow> jstring \<Rightarrow> exn + jstring" where
  "parseColon N cs =
     (case skipWhitespace cs of
        [] \<Rightarrow> Inl (syntax_err N [] ''Expected a colon after a JSON member name.'')
      | c # r \<Rightarrow>
          if c = 0x3A then Inr r
          else Inl (syntax_err N (c # r) ''Expected a colon after a JSON member name.''))"

definition parseNext :: "nat \<Rightarrow> code_unit \<Rightarrow> string \<Rightarrow> jstring \<Rightarrow> exn + bool \<times> jstring" where
  "parseNext N close m cs =
     (case skipWhitespace cs of
        [] \<Rightarrow> Inl (syntax_err N [] m)
      | c # r \<Rightarrow>
          if c = close then Inr (True, r)
          else if c = 0x2C then Inr (False, skipWhitespace r)
          else Inl (syntax_err N (c # r) m))"

definition parseKey :: "nat \<Rightarrow> (jstring \<times> json) list \<Rightarrow> jstring \<Rightarrow> exn + jstring \<times> jstring" where
  "parseKey N output cs =
     (case cs of
        [] \<Rightarrow> Inl (syntax_err N cs ''Unterminated JSON object.'')
      | c # r \<Rightarrow>
          if c \<noteq> 0x22 then Inl (syntax_err N cs ''Expected a quoted JSON member name.'')
          else ebind (parseString N r) (\<lambda>(key, r1).
            if key \<in> fst ` set output then Inl (duplicate_key N r1 key)
            else emap (Pair key) (parseColon N r1)))"

lemma skipWhitespace_ConsD: "skipWhitespace cs = c # r \<Longrightarrow> length r < length cs"
  using length_skipWhitespace [of cs] by simp

lemma parseKeyword_length: "parseKeyword N cs = Inr (v, r) \<Longrightarrow> length r < length cs"
  by (auto simp: parseKeyword_def u_def prefix_def split: if_splits)

lemma parseColon_length: "parseColon N cs = Inr r \<Longrightarrow> length r < length cs"
  by (auto simp: parseColon_def split: list.splits if_splits dest!: skipWhitespace_ConsD)

lemma parseNext_length: "parseNext N c m cs = Inr (b, r) \<Longrightarrow> length r < length cs"
  using length_skipWhitespace
  by (fastforce simp: parseNext_def split: list.splits if_splits dest!: skipWhitespace_ConsD
      intro: le_less_trans)

lemma parseKey_length: "parseKey N ps cs = Inr (k, r) \<Longrightarrow> length r < length cs"
  by (auto simp: parseKey_def result_simps split: list.splits if_splits
      dest!: parseString_length parseColon_length)

function parseValue :: "nat \<Rightarrow> nat \<Rightarrow> nat \<Rightarrow> jstring \<Rightarrow> exn + json \<times> jstring"
and parseObject :: "nat \<Rightarrow> nat \<Rightarrow> nat \<Rightarrow> jstring \<Rightarrow> exn + json \<times> jstring"
and parse_members :: "nat \<Rightarrow> nat \<Rightarrow> nat \<Rightarrow> (jstring \<times> json) list \<Rightarrow> jstring \<Rightarrow> exn + json \<times> jstring"
and parseArray :: "nat \<Rightarrow> nat \<Rightarrow> nat \<Rightarrow> jstring \<Rightarrow> exn + json \<times> jstring"
and parse_elements :: "nat \<Rightarrow> nat \<Rightarrow> nat \<Rightarrow> json list \<Rightarrow> jstring \<Rightarrow> exn + json \<times> jstring" where
  "parseValue N maxDepth depth cs =
     (case skipWhitespace cs of
        [] \<Rightarrow> Inl (syntax_err N [] ''Expected a JSON value.'')
      | c # r \<Rightarrow>
          if c = 0x7B \<or> c = 0x5B then
            (if maxDepth \<le> depth then Inl limit_error
             else if c = 0x7B then parseObject N maxDepth (Suc depth) r
             else parseArray N maxDepth (Suc depth) r)
          else if c = 0x22 then emap (\<lambda>(s, r1). (JStr s, r1)) (parseString N r)
          else if c = 0x2D \<or> is_digit c then parseNumber N (c # r)
          else parseKeyword N (c # r))"
| "parseObject N maxDepth depth r0 =
     (case skipWhitespace r0 of
        [] \<Rightarrow> parse_members N maxDepth depth [] []
      | c # r \<Rightarrow> if c = 0x7D then Inr (JObj [], r) else parse_members N maxDepth depth [] (c # r))"
| "parse_members N maxDepth depth output cs =
     ebind (parseKey N output cs) (\<lambda>(key, r).
     ebind (parseValue N maxDepth depth r) (\<lambda>(v, r1).
     ebind (parseNext N 0x7D ''Expected a comma or closing brace.'' r1) (\<lambda>(closed, r2).
       if closed then Inr (JObj (output @ [(key, v)]), r2)
       else parse_members N maxDepth depth (output @ [(key, v)]) r2)))"
| "parseArray N maxDepth depth r0 =
     (case skipWhitespace r0 of
        [] \<Rightarrow> parse_elements N maxDepth depth [] []
      | c # r \<Rightarrow> if c = 0x5D then Inr (JArr [], r) else parse_elements N maxDepth depth [] (c # r))"
| "parse_elements N maxDepth depth output cs =
     (if cs = [] then Inl (syntax_err N cs ''Unterminated JSON array.'')
      else ebind (parseValue N maxDepth depth cs) (\<lambda>(v, r1).
           ebind (parseNext N 0x5D ''Expected a comma or closing bracket.'' r1) (\<lambda>(closed, r2).
             if closed then Inr (JArr (output @ [v]), r2)
             else parse_elements N maxDepth depth (output @ [v]) r2)))"
  by pat_completeness auto

lemma parse_lengths:
  "parseValue_parseObject_parse_members_parseArray_parse_elements_dom (Inl (Inl (N, md, d, cs))) \<Longrightarrow>
     parseValue N md d cs = Inr (v, r) \<Longrightarrow> length r < length cs"
  "parseValue_parseObject_parse_members_parseArray_parse_elements_dom (Inl (Inr (N, md, d, cs))) \<Longrightarrow>
     parseObject N md d cs = Inr (v, r) \<Longrightarrow> length r < length cs"
  "parseValue_parseObject_parse_members_parseArray_parse_elements_dom (Inr (Inl (N, md, d, ps, cs))) \<Longrightarrow>
     parse_members N md d ps cs = Inr (v, r) \<Longrightarrow> length r < length cs"
  "parseValue_parseObject_parse_members_parseArray_parse_elements_dom (Inr (Inr (Inl (N, md, d, cs)))) \<Longrightarrow>
     parseArray N md d cs = Inr (v, r) \<Longrightarrow> length r < length cs"
  "parseValue_parseObject_parse_members_parseArray_parse_elements_dom (Inr (Inr (Inr (N, md, d, xs, cs)))) \<Longrightarrow>
     parse_elements N md d xs cs = Inr (v, r) \<Longrightarrow> length r < length cs"
proof (induction N md d cs and N md d cs and N md d ps cs and N md d cs and N md d xs cs
    arbitrary: v r and v r and v r and v r and v r
    rule: parseValue_parseObject_parse_members_parseArray_parse_elements.pinduct)
  case (1 N md d cs)
  from "1.prems" obtain c r0 where sk: "skipWhitespace cs = c # r0"
    by (auto simp: parseValue.psimps [OF "1.hyps"] split: list.splits)
  have l0: "length r0 < length cs" using skipWhitespace_ConsD [OF sk] .
  have res: "(if c = 0x7B \<or> c = 0x5B then
            (if md \<le> d then Inl limit_error
             else if c = 0x7B then parseObject N md (Suc d) r0
             else parseArray N md (Suc d) r0)
          else if c = 0x22 then emap (\<lambda>(s, r1). (JStr s, r1)) (parseString N r0)
          else if c = 0x2D \<or> is_digit c then parseNumber N (c # r0)
          else parseKeyword N (c # r0)) = Inr (v, r)"
    using "1.prems" by (simp add: parseValue.psimps [OF "1.hyps"] sk)
  consider (obj) "c = 0x7B" "\<not> md \<le> d" | (arr) "c = 0x5B" "\<not> md \<le> d" | (bad) "c = 0x7B \<or> c = 0x5B" "md \<le> d"
    | (other) "\<not> (c = 0x7B \<or> c = 0x5B)" by blast
  then show ?case
  proof cases
    case obj
    then have "length r < length r0" using "1.IH"(1) [OF sk] res by simp
    then show ?thesis using l0 by simp
  next
    case arr
    then have "length r < length r0" using "1.IH"(2) [OF sk] res by simp
    then show ?thesis using l0 by simp
  next
    case bad
    then show ?thesis using res by simp
  next
    case other
    have "length r < Suc (length r0)"
      using res other
      by (auto simp: result_simps split: if_splits
          dest!: parseString_length parseNumber_length parseKeyword_length)
    then show ?thesis using l0 by simp
  qed
next
  case (2 N md d cs)
  show ?case using "2.prems" length_skipWhitespace [of cs]
    by (auto simp: parseObject.psimps [OF "2.hyps"] split: list.splits if_splits dest!: "2.IH")
next
  case (3 N md d ps cs)
  from "3.prems" obtain key r0 v1 r1 cl r2 where k: "parseKey N ps cs = Inr (key, r0)"
    and val: "parseValue N md d r0 = Inr (v1, r1)"
    and nx: "parseNext N 0x7D ''Expected a comma or closing brace.'' r1 = Inr (cl, r2)"
    and fin: "if cl then r = r2 else parse_members N md d (ps @ [(key, v1)]) r2 = Inr (v, r)"
    by (auto simp: parse_members.psimps [OF "3.hyps"] result_simps split: if_splits)
  have "length r1 < length r0" using "3.IH"(1) [OF k refl val] .
  moreover have "length r \<le> length r2"
    using fin "3.IH"(2) [OF k refl val refl nx refl] by (cases cl) (auto intro: less_imp_le)
  ultimately show ?case using parseKey_length [OF k] parseNext_length [OF nx] by linarith
next
  case (4 N md d cs)
  show ?case using "4.prems" length_skipWhitespace [of cs]
    by (auto simp: parseArray.psimps [OF "4.hyps"] split: list.splits if_splits dest!: "4.IH")
next
  case (5 N md d xs cs)
  from "5.prems" obtain v1 r1 cl r2 where ne: "cs \<noteq> []" and val: "parseValue N md d cs = Inr (v1, r1)"
    and nx: "parseNext N 0x5D ''Expected a comma or closing bracket.'' r1 = Inr (cl, r2)"
    and fin: "if cl then r = r2 else parse_elements N md d (xs @ [v1]) r2 = Inr (v, r)"
    by (auto simp: parse_elements.psimps [OF "5.hyps"] result_simps split: if_splits)
  have "length r1 < length cs" using "5.IH"(1) [OF ne val] .
  moreover have "length r \<le> length r2"
    using fin "5.IH"(2) [OF ne val refl nx refl] by (cases cl) (auto intro: less_imp_le)
  ultimately show ?case using parseNext_length [OF nx] by linarith
qed

termination parseValue
proof (relation "measure (\<lambda>x. case x of
      Inl (Inl (N, md, d, cs)) \<Rightarrow> 3 * length cs
    | Inl (Inr (N, md, d, cs)) \<Rightarrow> 3 * length cs + 2
    | Inr (Inl (N, md, d, ps, cs)) \<Rightarrow> 3 * length cs + 1
    | Inr (Inr (Inl (N, md, d, cs))) \<Rightarrow> 3 * length cs + 2
    | Inr (Inr (Inr (N, md, d, xs, cs))) \<Rightarrow> 3 * length cs + 1)", goal_cases)
  case 1
  show ?case by simp
next
  case (2 N md d cs c r)
  then show ?case using skipWhitespace_ConsD [of cs c r] by simp
next
  case (3 N md d cs c r)
  then show ?case using skipWhitespace_ConsD [of cs c r] by simp
next
  case (4 N md d cs)
  then show ?case by simp
next
  case (5 N md d cs c r)
  then show ?case using length_skipWhitespace [of cs] by simp
next
  case (6 N md d ps cs k r)
  then show ?case by (auto dest!: parseKey_length)
next
  case (7 N md d ps cs kr k r vr v r1 br b r2)
  then show ?case by (auto dest!: parseKey_length parseNext_length parse_lengths(1))
next
  case (8 N md d cs)
  then show ?case by simp
next
  case (9 N md d cs c r)
  then show ?case using length_skipWhitespace [of cs] by simp
next
  case (10 N md d ps cs)
  then show ?case by simp
next
  case (11 N md d ps cs vr v r1 br b r2)
  then show ?case by (auto dest!: parseNext_length parse_lengths(1))
qed

declare parseValue.simps [simp del] parseObject.simps [simp del] parse_members.simps [simp del]
  parseArray.simps [simp del] parse_elements.simps [simp del]

end
