(* ===== verification/JsonRoundTrip.thy ===== *)
theory JsonRoundTrip
  imports StrictJson
begin

text \<open>
  The strict parser and the canonical serializer are inverse to each other.

  \<open>parse_canon\<close>: on the canonical text of a well-formed value whose nesting fits, the parser
  returns the normal form of that value and leaves exactly what follows the text.
  \<open>parse_wf\<close>: whatever the parser returns is well formed and within the nesting limit.
\<close>

section \<open>Strings\<close>

lemma hex_val_unit: "d < 16 \<Longrightarrow> hex_val (hex_unit d) = Some d"
  by (auto simp: hex_val_def hex_unit_def Let_def unat_unit_of)

lemma hex4_value:
  assumes "n < 65536"
  shows "foldl (\<lambda>a c. 16 * a + the (hex_val c)) 0 (hex4 n) = n"
proof -
  have "16 * (16 * (16 * (n div 4096) + n div 256 mod 16) + n div 16 mod 16) + n mod 16 = n"
  proof -
    have "n div 16 div 16 = n div 256" "n div 256 div 16 = n div 4096"
      by (simp_all flip: div_mult2_eq)
    moreover have "m = 16 * (m div 16) + m mod 16" for m :: nat by simp
    ultimately show ?thesis by metis
  qed
  then show ?thesis using assms by (simp add: hex4_def hex_val_unit)
qed

lemma parseHexCodeUnit_hex4 [simp]:
  "n < 65536 \<Longrightarrow> parseHexCodeUnit N (hex4 n @ rest) = Inr (unit_of n, rest)"
proof -
  assume n: "n < 65536"
  have l: "length (hex4 n) = 4" by (simp add: hex4_def)
  have "\<forall>c \<in> set (hex4 n). hex_val c \<noteq> None" by (auto simp: hex4_def hex_val_unit)
  with l show ?thesis by (simp add: parseHexCodeUnit_def Let_def hex4_value [OF n])
qed

lemma parse_chars_Bmp:
  assumes "\<not> is_high c" "\<not> is_low c"
  shows "parse_chars N out (quote_unit c @ rest) = parse_chars N (out @ [c]) rest"
proof -
  have esc: "parseEscape N (x # rest) = Inr ([y], rest)" if "simple_escape x = Some y" for x y
    using that by (simp add: parseEscape_def)
  have hx: "parseEscape N (0x75 # hex4 (unat c) @ rest) = Inr ([c], rest)"
    using assms unat_code_unit [of c] by (simp add: parseEscape_def simple_escape_def)
  show ?thesis
  proof (cases "c \<in> {0x08, 0x09, 0x0A, 0x0C, 0x0D, 0x22, 0x5C}")
    case True
    then show ?thesis
      by (auto simp: quote_unit_def parse_chars.simps [of N out "0x5C # x" for x] esc simple_escape_def)
  next
    case False
    show ?thesis
    proof (cases "c < 0x20")
      case True
      with False show ?thesis
        by (simp add: quote_unit_def unicode_escape_def parse_chars.simps [of N out "0x5C # x" for x] hx)
    next
      case c: False
      have "\<not> c \<le> 0x1F" using c by unat_arith
      with False c assms show ?thesis
        by (simp add: quote_unit_def parse_chars.simps [of N out "c # x" for x])
    qed
  qed
qed

lemma high_range: "is_high c \<Longrightarrow> c \<noteq> 0x22 \<and> c \<noteq> 0x5C \<and> \<not> c \<le> 0x1F"
  by (auto simp: is_high_def word_le_nat_alt)

lemma parse_chars_quoted:
  "wf_utf16 s \<Longrightarrow> parse_chars N out (quote_units s @ 0x22 # rest) = Inr (out @ s, rest)"
proof (induction s arbitrary: out rule: wf_utf16_induct)
  case Nil
  then show ?case by (simp add: parse_chars.simps)
next
  case (Bmp c cs)
  then show ?case by (simp add: quote_units_Bmp parse_chars_Bmp del: quote_units.simps)
next
  case (Pair c d cs)
  then show ?case using high_range [of c]
    by (simp add: quote_units_Pair parse_chars.simps [of N out "c # x" for x])
qed

lemma parseString_quoted [simp]: "wf_utf16 s \<Longrightarrow> parseString N (quote_units s @ 0x22 # rest) = Inr (s, rest)"
  using parse_chars_quoted [of s N "[]" rest] by (simp add: parseString_def)

section \<open>Numbers and keywords\<close>

lemma skipWhitespace_Cons [simp]: "\<not> is_ws c \<Longrightarrow> skipWhitespace (c # cs) = c # cs"
  by (simp add: skipWhitespace_def)

lemma ws_marks [simp]:
  "\<not> is_ws 0x22" "\<not> is_ws 0x2C" "\<not> is_ws 0x3A" "\<not> is_ws 0x5B" "\<not> is_ws 0x5D" "\<not> is_ws 0x7B" "\<not> is_ws 0x7D"
  "\<not> is_ws 0x2D" "\<not> is_ws 0x6E" "\<not> is_ws 0x74" "\<not> is_ws 0x66"
  by (simp_all add: is_ws_def)

lemma match_number_start:
  "match_number cs = Some (neg, t, r) \<Longrightarrow> \<exists>c cs'. cs = c # cs' \<and> (c = 0x2D \<or> is_digit c)"
  by (cases cs) (auto simp: match_number_def match_int_def is_digit_def split: list.splits if_splits prod.splits)

lemma digit_range: "is_digit c \<Longrightarrow> \<not> is_ws c \<and> c \<noteq> 0x7B \<and> c \<noteq> 0x5B \<and> c \<noteq> 0x22"
  by (auto simp: is_digit_def is_ws_def word_le_nat_alt)

lemma parseValue_number:
  assumes "wf_number x" "is_finite x" "ends_number rest"
  shows "parseValue N md d (number_to_string x @ rest) = Inr (JNum (if x = NegZero then Fin 0 else x), rest)"
proof -
  obtain neg t where m: "match_number (number_to_string x @ rest) = Some (neg, t, rest)"
    and v: "token_number neg t = (if x = NegZero then Fin 0 else x)"
    using match_number_text [OF assms] by blast
  obtain c cs where cs: "number_to_string x @ rest = c # cs" and c: "c = 0x2D \<or> is_digit c"
    using match_number_start [OF m] by blast
  have "\<not> is_ws c" "c \<noteq> 0x7B" "c \<noteq> 0x5B" "c \<noteq> 0x22" using c digit_range by auto
  then have "parseValue N md d (number_to_string x @ rest) = parseNumber N (number_to_string x @ rest)"
    using c by (simp add: cs parseValue.simps)
  also have "\<dots> = Inr (JNum (if x = NegZero then Fin 0 else x), rest)"
    using assms(2) by (simp add: parseNumber_def m v)
  finally show ?thesis .
qed

lemma u_literals:
  "u ''null'' = [0x6E, 0x75, 0x6C, 0x6C]" "u ''true'' = [0x74, 0x72, 0x75, 0x65]"
  "u ''false'' = [0x66, 0x61, 0x6C, 0x73, 0x65]"
  "u '','' = [0x2C]" "u '':'' = [0x3A]" "u ''['' = [0x5B]" "u '']'' = [0x5D]" "u ''{'' = [0x7B]" "u ''}'' = [0x7D]"
  by (simp_all add: u_def)

lemma parseValue_keyword:
  "parseValue N md d (u ''null'' @ rest) = Inr (JNull, rest)"
  "parseValue N md d (u ''true'' @ rest) = Inr (JBool True, rest)"
  "parseValue N md d (u ''false'' @ rest) = Inr (JBool False, rest)"
  by (simp_all add: parseValue.simps parseKeyword_def u_literals is_digit_def)

lemma parseValue_string:
  "wf_utf16 s \<Longrightarrow> parseValue N md d (json_quote s @ rest) = Inr (JStr s, rest)"
  by (simp add: json_quote_def parseValue.simps)

section \<open>The round trip\<close>

text \<open>No canonical text starts with white space, a closing bracket or a byte order mark.\<close>

definition starts_value :: "jstring \<Rightarrow> bool" where
  "starts_value cs = (case cs of [] \<Rightarrow> False | c # _ \<Rightarrow> \<not> is_ws c \<and> c \<noteq> 0x5D \<and> c \<noteq> 0x7D \<and> c \<noteq> 0xFEFF)"

lemma starts_value_append: "starts_value cs \<Longrightarrow> starts_value (cs @ ds)"
  by (cases cs) (auto simp: starts_value_def)

lemma starts_valueD:
  "starts_value cs \<Longrightarrow> \<exists>c cs'. cs = c # cs' \<and> c \<noteq> 0x5D \<and> c \<noteq> 0x7D \<and> skipWhitespace cs = c # cs'"
  by (cases cs) (auto simp: starts_value_def)

lemma canon_starts_value: "wf_json j \<Longrightarrow> starts_value (canon j)"
proof (cases j)
  case (JNum n)
  assume "wf_json j"
  with JNum have "wf_number n" "is_finite n" by simp_all
  moreover have "ends_number []" by (simp add: ends_number_def)
  ultimately obtain neg t where m: "match_number (number_to_string n @ []) = Some (neg, t, [])"
    using match_number_text by blast
  obtain c cs where "number_to_string n = c # cs" "c = 0x2D \<or> is_digit c"
    using match_number_start [OF m] by auto
  then show ?thesis using JNum digit_range [of c]
    by (auto simp: starts_value_def is_digit_def)
qed (auto simp: starts_value_def u_literals json_quote_def canon_Obj)

definition parses_back :: "nat \<Rightarrow> json \<Rightarrow> bool" where
  "parses_back md j \<longleftrightarrow> (\<forall>N d rest. json_depth j + d \<le> md \<longrightarrow> ends_number rest \<longrightarrow>
     parseValue N md d (canon j @ rest) = Inr (jnorm j, rest))"

lemma ends_number_marks [simp]:
  "ends_number (0x2C # cs)" "ends_number (0x5D # cs)" "ends_number (0x7D # cs)"
  by (simp_all add: ends_number_def is_digit_def)

lemma parseNext_marks:
  "c \<noteq> 0x2C \<Longrightarrow> \<not> is_ws c \<Longrightarrow> parseNext N c m (c # cs) = Inr (True, cs)"
  "c \<noteq> 0x2C \<Longrightarrow> starts_value cs \<Longrightarrow> parseNext N c m (0x2C # cs) = Inr (False, cs)"
  by (auto simp: parseNext_def dest: starts_valueD)

lemma parse_elements_text:
  assumes "xs \<noteq> []"
    and "\<And>x. x \<in> set xs \<Longrightarrow> parses_back md x \<and> wf_json x \<and> json_depth x + d \<le> md"
  shows "parse_elements N md d out (join (u '','') (map canon xs) @ 0x5D # rest) =
         Inr (JArr (out @ map jnorm xs), rest)"
  using assms
proof (induction xs arbitrary: out rule: list_nonempty_induct)
  case (single x)
  then have "canon x \<noteq> []" using canon_starts_value [of x] by (auto simp: starts_value_def)
  with single show ?case
    by (simp add: parse_elements.simps parses_back_def parseNext_marks)
next
  case (cons x xs)
  have w: "starts_value (join (u '','') (map canon xs) @ 0x5D # rest)"
    using cons canon_starts_value [of "hd xs"]
    by (cases xs rule: remdups_adj.cases) (auto intro: starts_value_append)
  have ne: "canon x \<noteq> []" using cons.prems canon_starts_value [of x] by (auto simp: starts_value_def)
  have j: "join (u '','') (map canon (x # xs)) = canon x @ 0x2C # join (u '','') (map canon xs)"
    using cons.hyps by (cases xs) (simp_all add: u_literals)
  show ?case using cons w ne
    unfolding j by (simp add: parse_elements.simps [of N md d out "canon x @ zs" for zs] parses_back_def parseNext_marks)
qed

lemma parseKey_text:
  assumes "wf_utf16 k" "k \<notin> fst ` set out"
  shows "parseKey N out (json_quote k @ 0x3A # rest) = Inr (k, rest)"
  using assms by (simp add: parseKey_def json_quote_def parseColon_def)

definition member_text :: "jstring \<times> json \<Rightarrow> jstring" where
  "member_text p = json_quote (fst p) @ 0x3A # canon (snd p)"

lemma starts_member: "starts_value (member_text p)"
  by (simp add: member_text_def json_quote_def starts_value_def)

lemma parse_members_text:
  assumes "ps \<noteq> []"
    and "\<And>k x. (k, x) \<in> set ps \<Longrightarrow> wf_utf16 k \<and> parses_back md x \<and> json_depth x + d \<le> md"
    and "distinct (map fst (out @ ps))"
  shows "parse_members N md d out (join (u '','') (map member_text ps) @ 0x7D # rest) =
         Inr (JObj (out @ map (\<lambda>(k, x). (k, jnorm x)) ps), rest)"
  using assms
proof (induction ps arbitrary: out rule: list_nonempty_induct)
  case (single p)
  obtain k x where p: "p = (k, x)" by (cases p)
  have "k \<notin> fst ` set out" using single.prems p by auto
  with single p show ?case
    by (simp add: parse_members.simps parses_back_def parseNext_marks member_text_def parseKey_text)
next
  case (cons p ps)
  obtain k x where p: "p = (k, x)" by (cases p)
  have w: "starts_value (join (u '','') (map member_text ps) @ 0x7D # rest)"
    using cons.hyps starts_member [of "hd ps"]
    by (cases ps rule: remdups_adj.cases) (auto intro: starts_value_append)
  have j: "join (u '','') (map member_text (p # ps)) = json_quote k @ 0x3A # canon x @ 0x2C # join (u '','') (map member_text ps)"
    using cons.hyps p by (cases ps) (simp_all add: u_literals member_text_def)
  have k: "k \<notin> fst ` set out" "wf_utf16 k" using cons.prems p by auto
  have v: "parseValue N md d (canon x @ 0x2C # zs) = Inr (jnorm x, 0x2C # zs)" for zs
    using cons.prems(1) [of k x] p by (simp add: parses_back_def)
  have ih: "parse_members N md d (out @ [(k, jnorm x)]) (join (u '','') (map member_text ps) @ 0x7D # rest) =
      Inr (JObj ((out @ [(k, jnorm x)]) @ map (\<lambda>(k, x). (k, jnorm x)) ps), rest)"
    by (rule cons.IH) (use cons.prems p in auto)
  show ?case using w ih unfolding j
    by (simp add: parse_members.simps [of N md d out "json_quote k @ zs" for zs] parseKey_text k v p parseNext_marks)
qed

lemma json_depth_Arr: "json_depth (JArr xs) \<le> Suc n \<longleftrightarrow> (\<forall>x \<in> set xs. json_depth x \<le> n)"
  by simp

lemma json_depth_Obj: "json_depth (JObj ps) \<le> Suc n \<longleftrightarrow> (\<forall>(k, x) \<in> set ps. json_depth x \<le> n)"
  by auto

lemma canon_Obj_members: "canon (JObj ps) = 0x7B # join (u '','') (map member_text (sort_key fst ps)) @ [0x7D]"
  by (simp only: canon.simps(6) sort_key_map_fst map_map)
     (simp add: u_literals member_text_def [abs_def] comp_def split_def)

lemma parses_back_wf: "wf_json j \<Longrightarrow> parses_back md j"
proof (induction j)
  case (JArr xs)
  have "parseValue N md d (canon (JArr xs) @ rest) = Inr (jnorm (JArr xs), rest)"
    if b: "json_depth (JArr xs) + d \<le> md" for N d rest
  proof -
    have d: "\<not> md \<le> d" using b by simp
    have e: "json_depth x + Suc d \<le> md" if "x \<in> set xs" for x
    proof -
      have "json_depth (JArr xs) \<le> Suc (md - Suc d)" using b d by linarith
      then have "json_depth x \<le> md - Suc d" using that unfolding json_depth_Arr by blast
      then show ?thesis using d by linarith
    qed
    show ?thesis
    proof (cases "xs = []")
      case True
      then show ?thesis using d by (simp add: parseValue.simps parseArray.simps u_literals)
    next
      case False
      have "starts_value (join (u '','') (map canon xs) @ 0x5D # rest)"
        using False JArr.prems canon_starts_value [of "hd xs"]
        by (cases xs rule: remdups_adj.cases) (auto intro: starts_value_append)
      then show ?thesis
        using d parse_elements_text [OF False, of md "Suc d" N "[]" rest] JArr e
        by (auto simp: parseValue.simps parseArray.simps u_literals dest: starts_valueD)
    qed
  qed
  then show ?case by (simp add: parses_back_def del: canon.simps jnorm.simps json_depth.simps)
next
  case (JObj ps)
  have "parseValue N md d (canon (JObj ps) @ rest) = Inr (jnorm (JObj ps), rest)"
    if b: "json_depth (JObj ps) + d \<le> md" for N d rest
  proof -
    have d: "\<not> md \<le> d" using b by simp
    have e: "json_depth x + Suc d \<le> md" if "(k, x) \<in> set ps" for k x
    proof -
      have "json_depth (JObj ps) \<le> Suc (md - Suc d)" using b d by linarith
      then have "json_depth x \<le> md - Suc d" using that unfolding json_depth_Obj by blast
      then show ?thesis using d by linarith
    qed
    show ?thesis
    proof (cases "ps = []")
      case True
      then show ?thesis using d by (simp add: canon_Obj_members parseValue.simps parseObject.simps u_literals)
    next
      case False
      let ?qs = "sort_key fst ps"
      have ne: "?qs \<noteq> []" using False by (metis length_0_conv length_sort)
      have di: "distinct (map fst ([] @ ?qs))"
        using distinct_sort_members [of ps "\<lambda>x. x"] JObj.prems by simp
      have el: "wf_utf16 k \<and> parses_back md x \<and> json_depth x + Suc d \<le> md" if "(k, x) \<in> set ?qs" for k x
        using that JObj e by (fastforce simp: Basic_BNFs.snds.simps)
      have "starts_value (join (u '','') (map member_text ?qs) @ 0x7D # rest)"
        using ne starts_member [of "hd ?qs"]
        by (cases ?qs rule: remdups_adj.cases) (auto intro: starts_value_append)
      then show ?thesis
        using d parse_members_text [OF ne el di, of N rest]
        by (auto simp: canon_Obj_members parseValue.simps parseObject.simps sort_key_map_fst dest!: starts_valueD)
    qed
  qed
  then show ?case by (simp add: parses_back_def del: canon.simps jnorm.simps json_depth.simps)
qed (simp_all add: parses_back_def parseValue_number parseValue_keyword parseValue_string)

theorem parse_canon:
  "wf_json j \<Longrightarrow> json_depth j + d \<le> md \<Longrightarrow> ends_number rest \<Longrightarrow>
   parseValue N md d (canon j @ rest) = Inr (jnorm j, rest)"
  using parses_back_wf [of j md] by (simp add: parses_back_def)

section \<open>What the parser returns\<close>

lemma wf_utf16_append: "wf_utf16 s \<Longrightarrow> wf_utf16 t \<Longrightarrow> wf_utf16 (s @ t)"
  by (induction s rule: wf_utf16_induct) (auto split: list.splits)

lemma parseEscape_wf: "parseEscape N cs = Inr (out, r) \<Longrightarrow> wf_utf16 out"
proof -
  assume p: "parseEscape N cs = Inr (out, r)"
  have simple: "simple_escape c = Some x \<Longrightarrow> \<not> is_high x \<and> \<not> is_low x" for c x
    by (auto simp: simple_escape_def is_high_def is_low_def split: if_splits)
  have pair: "is_high a \<Longrightarrow> is_low b \<Longrightarrow> wf_utf16 (units_of_cp (pair_value a b))" for a b
    by (simp add: units_of_pair)
  show ?thesis using p
    by (auto simp: parseEscape_def result_simps pair units_of_pair dest!: simple split: list.splits option.splits if_splits)
qed

lemma parse_chars_wf: "parse_chars N out cs = Inr (s, r) \<Longrightarrow> wf_utf16 out \<Longrightarrow> wf_utf16 s"
proof (induction N out cs rule: parse_chars.induct)
  case (1 N out cs)
  show ?case using "1.prems"
    by (subst (asm) parse_chars.simps)
       (fastforce simp: result_simps wf_utf16_append split: list.splits if_splits
          dest: parseEscape_wf "1.IH")
qed

lemma parseString_wf: "parseString N cs = Inr (s, r) \<Longrightarrow> wf_utf16 s"
  unfolding parseString_def by (erule parse_chars_wf) simp

lemma parseNumber_wf: "parseNumber N cs = Inr (v, r) \<Longrightarrow> wf_json v \<and> json_depth v = 0"
  by (auto simp: parseNumber_def Let_def wf_token_number split: option.splits if_splits)

lemma parseKeyword_wf: "parseKeyword N cs = Inr (v, r) \<Longrightarrow> wf_json v \<and> json_depth v = 0"
  by (auto simp: parseKeyword_def split: if_splits)

lemma parseKey_wf: "parseKey N ps cs = Inr (k, r) \<Longrightarrow> wf_utf16 k \<and> k \<notin> fst ` set ps"
  by (auto simp: parseKey_def result_simps split: list.splits if_splits dest: parseString_wf)

definition members_ok :: "nat \<Rightarrow> (jstring \<times> json) list \<Rightarrow> bool" where
  "members_ok n ps \<longleftrightarrow> distinct (map fst ps) \<and> (\<forall>(k, x) \<in> set ps. wf_utf16 k \<and> wf_json x \<and> json_depth x \<le> n)"

definition elements_ok :: "nat \<Rightarrow> json list \<Rightarrow> bool" where
  "elements_ok n xs \<longleftrightarrow> (\<forall>x \<in> set xs. wf_json x \<and> json_depth x \<le> n)"

lemma members_ok_Obj: "members_ok n ps \<Longrightarrow> wf_json (JObj ps) \<and> json_depth (JObj ps) \<le> Suc n"
  unfolding json_depth_Obj by (auto simp: members_ok_def)

lemma elements_ok_Arr: "elements_ok n xs \<Longrightarrow> wf_json (JArr xs) \<and> json_depth (JArr xs) \<le> Suc n"
  unfolding json_depth_Arr by (auto simp: elements_ok_def)

lemma parse_wf_mutual:
  "parseValue N md d cs = Inr (v, r) \<Longrightarrow> wf_json v \<and> json_depth v \<le> md - d"
  "parseObject N md d cs = Inr (v, r) \<Longrightarrow> wf_json v \<and> json_depth v \<le> Suc (md - d)"
  "parse_members N md d ps cs = Inr (v, r) \<Longrightarrow> members_ok (md - d) ps \<Longrightarrow>
     wf_json v \<and> json_depth v \<le> Suc (md - d)"
  "parseArray N md d cs = Inr (v, r) \<Longrightarrow> wf_json v \<and> json_depth v \<le> Suc (md - d)"
  "parse_elements N md d xs cs = Inr (v, r) \<Longrightarrow> elements_ok (md - d) xs \<Longrightarrow>
     wf_json v \<and> json_depth v \<le> Suc (md - d)"
proof (induction N md d cs and N md d cs and N md d ps cs and N md d cs and N md d xs cs
    arbitrary: v r and v r and v r and v r and v r
    rule: parseValue_parseObject_parse_members_parseArray_parse_elements.induct)
  case (1 N md d cs)
  from "1.prems" obtain c r0 where sk: "skipWhitespace cs = c # r0"
    by (auto simp: parseValue.simps split: list.splits)
  consider (obj) "c = 0x7B" "\<not> md \<le> d" | (arr) "c = 0x5B" "\<not> md \<le> d" | (bad) "c = 0x7B \<or> c = 0x5B" "md \<le> d"
    | (other) "\<not> (c = 0x7B \<or> c = 0x5B)" by blast
  then show ?case
  proof cases
    case obj
    then have "parseObject N md (Suc d) r0 = Inr (v, r)" using "1.prems" by (simp add: parseValue.simps sk)
    with "1.IH"(1) [OF sk _ obj(2,1)] obj show ?thesis by (simp add: Suc_diff_Suc)
  next
    case arr
    then have "parseArray N md (Suc d) r0 = Inr (v, r)" using "1.prems" by (simp add: parseValue.simps sk)
    with "1.IH"(2) [OF sk _ arr(2)] arr show ?thesis by (simp add: Suc_diff_Suc)
  next
    case bad
    then show ?thesis using "1.prems" by (auto simp: parseValue.simps sk)
  next
    case other
    then show ?thesis using "1.prems"
      by (auto simp: parseValue.simps sk result_simps split: if_splits
          dest: parseString_wf parseNumber_wf parseKeyword_wf)
  qed
next
  case (2 N md d cs)
  then show ?case
    by (auto simp: parseObject.simps [of N md d cs] members_ok_def split: list.splits if_splits)
next
  case (3 N md d ps cs)
  from "3.prems"(1) obtain key r0 v1 r1 cl r2 where k: "parseKey N ps cs = Inr (key, r0)"
    and val: "parseValue N md d r0 = Inr (v1, r1)"
    and nx: "parseNext N 0x7D ''Expected a comma or closing brace.'' r1 = Inr (cl, r2)"
    and fin: "if cl then v = JObj (ps @ [(key, v1)])
              else parse_members N md d (ps @ [(key, v1)]) r2 = Inr (v, r)"
    by (auto simp: parse_members.simps [of N md d ps cs] result_simps split: if_splits)
  have ok: "members_ok (md - d) (ps @ [(key, v1)])"
    using "3.prems"(2) "3.IH"(1) [OF k refl val] parseKey_wf [OF k] by (auto simp: members_ok_def)
  show ?case
  proof (cases cl)
    case True
    then show ?thesis using fin members_ok_Obj [OF ok] by simp
  next
    case False
    then show ?thesis using fin "3.IH"(2) [OF k refl val refl nx refl False _ ok] by simp
  qed
next
  case (4 N md d cs)
  then show ?case
    by (auto simp: parseArray.simps [of N md d cs] elements_ok_def split: list.splits if_splits)
next
  case (5 N md d xs cs)
  from "5.prems"(1) obtain v1 r1 cl r2 where ne: "cs \<noteq> []" and val: "parseValue N md d cs = Inr (v1, r1)"
    and nx: "parseNext N 0x5D ''Expected a comma or closing bracket.'' r1 = Inr (cl, r2)"
    and fin: "if cl then v = JArr (xs @ [v1]) else parse_elements N md d (xs @ [v1]) r2 = Inr (v, r)"
    by (auto simp: parse_elements.simps [of N md d xs cs] result_simps split: if_splits)
  have ok: "elements_ok (md - d) (xs @ [v1])"
    using "5.prems"(2) "5.IH"(1) [OF ne val] by (auto simp: elements_ok_def)
  show ?case
  proof (cases cl)
    case True
    then show ?thesis using fin elements_ok_Arr [OF ok] by simp
  next
    case False
    then show ?thesis using fin "5.IH"(2) [OF ne val refl nx refl False _ ok] by simp
  qed
qed

theorem parse_wf: "parseValue N md d cs = Inr (v, r) \<Longrightarrow> wf_json v \<and> json_depth v \<le> md - d"
  by (rule parse_wf_mutual(1))

section \<open>The nesting limit only rejects\<close>

lemma parse_mono_mutual:
  "parseValue N md d cs = Inr v \<Longrightarrow> md \<le> md' \<Longrightarrow> parseValue N md' d cs = Inr v"
  "parseObject N md d cs = Inr v \<Longrightarrow> md \<le> md' \<Longrightarrow> parseObject N md' d cs = Inr v"
  "parse_members N md d ps cs = Inr v \<Longrightarrow> md \<le> md' \<Longrightarrow> parse_members N md' d ps cs = Inr v"
  "parseArray N md d cs = Inr v \<Longrightarrow> md \<le> md' \<Longrightarrow> parseArray N md' d cs = Inr v"
  "parse_elements N md d xs cs = Inr v \<Longrightarrow> md \<le> md' \<Longrightarrow> parse_elements N md' d xs cs = Inr v"
proof (induction N md d cs and N md d cs and N md d ps cs and N md d cs and N md d xs cs
    arbitrary: v and v and v and v and v
    rule: parseValue_parseObject_parse_members_parseArray_parse_elements.induct)
  case (1 N md d cs)
  from "1.prems"(1) obtain c r0 where sk: "skipWhitespace cs = c # r0"
    by (auto simp: parseValue.simps split: list.splits)
  show ?case
  proof (cases "c = 0x7B \<or> c = 0x5B")
    case True
    then have d: "\<not> md \<le> d" using "1.prems" by (auto simp: parseValue.simps sk)
    then show ?thesis using True "1.prems" "1.IH"(1) [OF sk True d] "1.IH"(2) [OF sk True d]
      by (cases v) (auto simp: parseValue.simps sk)
  next
    case False
    then show ?thesis using "1.prems" by (auto simp: parseValue.simps sk)
  qed
next
  case (2 N md d cs)
  then show ?case
    by (auto simp: parseObject.simps [of N _ d cs] split: list.splits if_splits)
next
  case (3 N md d ps cs)
  from "3.prems"(1) obtain key r0 v1 r1 cl r2 where k: "parseKey N ps cs = Inr (key, r0)"
    and val: "parseValue N md d r0 = Inr (v1, r1)"
    and nx: "parseNext N 0x7D ''Expected a comma or closing brace.'' r1 = Inr (cl, r2)"
    and fin: "if cl then v = (JObj (ps @ [(key, v1)]), r2)
              else parse_members N md d (ps @ [(key, v1)]) r2 = Inr v"
    by (auto simp: parse_members.simps [of N md d ps cs] result_simps split: if_splits)
  have val': "parseValue N md' d r0 = Inr (v1, r1)" using "3.IH"(1) [OF k refl val "3.prems"(2)] .
  show ?case
  proof (cases cl)
    case False
    then have "parse_members N md' d (ps @ [(key, v1)]) r2 = Inr v"
      using "3.IH"(2) [OF k refl val refl nx refl False] fin "3.prems"(2) by (cases v) simp
    then show ?thesis using False by (simp add: parse_members.simps [of N _ d ps cs] k val' nx)
  qed (use fin in \<open>simp add: parse_members.simps [of N _ d ps cs] k val' nx\<close>)
next
  case (4 N md d cs)
  then show ?case
    by (auto simp: parseArray.simps [of N _ d cs] split: list.splits if_splits)
next
  case (5 N md d xs cs)
  from "5.prems"(1) obtain v1 r1 cl r2 where ne: "cs \<noteq> []" and val: "parseValue N md d cs = Inr (v1, r1)"
    and nx: "parseNext N 0x5D ''Expected a comma or closing bracket.'' r1 = Inr (cl, r2)"
    and fin: "if cl then v = (JArr (xs @ [v1]), r2) else parse_elements N md d (xs @ [v1]) r2 = Inr v"
    by (auto simp: parse_elements.simps [of N md d xs cs] result_simps split: if_splits)
  have val': "parseValue N md' d cs = Inr (v1, r1)" using "5.IH"(1) [OF ne val "5.prems"(2)] .
  show ?case
  proof (cases cl)
    case False
    then have "parse_elements N md' d (xs @ [v1]) r2 = Inr v"
      using "5.IH"(2) [OF ne val refl nx refl False] fin "5.prems"(2) by (cases v) simp
    then show ?thesis using False ne by (simp add: parse_elements.simps [of N _ d xs cs] val' nx)
  qed (use fin ne in \<open>simp add: parse_elements.simps [of N _ d xs cs] val' nx\<close>)
qed

lemma parse_canon_result:
  assumes "wf_json j" "ends_number rest" "parseValue N md d (canon j @ rest) = Inr (w, r)"
  shows "w = jnorm j \<and> r = rest \<and> json_depth j \<le> md - d"
proof -
  have "parseValue N (max md (json_depth j + d)) d (canon j @ rest) = Inr (w, r)"
    using parse_mono_mutual(1) [OF assms(3)] by simp
  then have "w = jnorm j \<and> r = rest" using parse_canon [OF assms(1) _ assms(2)] by simp
  then show ?thesis using parse_wf [OF assms(3)] by (simp add: json_depth_jnorm)
qed

end
