(* ===== verification/Sha256.thy ===== *)
theory Sha256
  imports JsString
begin

text \<open>
  SHA-256 (FIPS 180-4), the hash that \<open>crypto.createHash('sha256')\<close> computes: padding, the
  message schedule, the 64 rounds, and the lower-case hexadecimal digest.
\<close>

unbundle bit_operations_syntax

type_synonym word32 = "32 word"

section \<open>Round functions and constants\<close>

definition rotr :: "nat \<Rightarrow> word32 \<Rightarrow> word32" where
  "rotr n x = (drop_bit n x) OR (push_bit (32 - n) x)"

definition big_sigma0 :: "word32 \<Rightarrow> word32" where
  "big_sigma0 x = rotr 2 x XOR rotr 13 x XOR rotr 22 x"

definition big_sigma1 :: "word32 \<Rightarrow> word32" where
  "big_sigma1 x = rotr 6 x XOR rotr 11 x XOR rotr 25 x"

definition small_sigma0 :: "word32 \<Rightarrow> word32" where
  "small_sigma0 x = rotr 7 x XOR rotr 18 x XOR drop_bit 3 x"

definition small_sigma1 :: "word32 \<Rightarrow> word32" where
  "small_sigma1 x = rotr 17 x XOR rotr 19 x XOR drop_bit 10 x"

definition ch_word :: "word32 \<Rightarrow> word32 \<Rightarrow> word32 \<Rightarrow> word32" where
  "ch_word x y z = (x AND y) XOR (NOT x AND z)"

definition maj_word :: "word32 \<Rightarrow> word32 \<Rightarrow> word32 \<Rightarrow> word32" where
  "maj_word x y z = (x AND y) XOR (x AND z) XOR (y AND z)"

text \<open>The first 32 bits of the fractional parts of the cube roots (square roots) of the first primes.\<close>

definition round_constants :: "word32 list" where
  "round_constants =
     [1116352408, 1899447441, 3049323471, 3921009573, 961987163, 1508970993, 2453635748, 2870763221,
      3624381080, 310598401, 607225278, 1426881987, 1925078388, 2162078206, 2614888103, 3248222580,
      3835390401, 4022224774, 264347078, 604807628, 770255983, 1249150122, 1555081692, 1996064986,
      2554220882, 2821834349, 2952996808, 3210313671, 3336571891, 3584528711, 113926993, 338241895,
      666307205, 773529912, 1294757372, 1396182291, 1695183700, 1986661051, 2177026350, 2456956037,
      2730485921, 2820302411, 3259730800, 3345764771, 3516065817, 3600352804, 4094571909, 275423344,
      430227734, 506948616, 659060556, 883997877, 958139571, 1322822218, 1537002063, 1747873779,
      1955562222, 2024104815, 2227730452, 2361852424, 2428436474, 2756734187, 3204031479, 3329325298]"

definition initial_hash :: "word32 list" where
  "initial_hash = [1779033703, 3144134277, 1013904242, 2773480762, 1359893119, 2600822924, 528734635, 1541459225]"

section \<open>Padding and blocks\<close>

definition be_bytes :: "nat \<Rightarrow> nat \<Rightarrow> byte list" where
  "be_bytes n v = map (\<lambda>i. byte_of (v div 256 ^ i mod 256)) (rev [0..<n])"

definition pad :: "byte list \<Rightarrow> byte list" where
  "pad m = m @ [0x80] @ replicate ((119 - length m mod 64) mod 64) 0 @ be_bytes 8 (8 * length m)"

fun be_words :: "byte list \<Rightarrow> word32 list" where
  "be_words (a # b # c # d # bs) =
     of_nat (((unat a * 256 + unat b) * 256 + unat c) * 256 + unat d) # be_words bs"
| "be_words _ = []"

text \<open>The schedule, latest word first.\<close>

fun schedule :: "nat \<Rightarrow> word32 list \<Rightarrow> word32 list" where
  "schedule 0 ws = ws"
| "schedule (Suc n) ws =
     schedule n ((small_sigma1 (ws ! 1) + ws ! 6 + small_sigma0 (ws ! 14) + ws ! 15) # ws)"

fun round_step :: "word32 list \<Rightarrow> word32 \<times> word32 \<Rightarrow> word32 list" where
  "round_step [a, b, c, d, e, f, g, h] (k, w) =
     (let t1 = h + big_sigma1 e + ch_word e f g + k + w;
          t2 = big_sigma0 a + maj_word a b c
      in [t1 + t2, a, b, c, d + t1, e, f, g])"
| "round_step st _ = st"

definition compress :: "word32 list \<Rightarrow> word32 list \<Rightarrow> word32 list" where
  "compress st block =
     map2 (+) st (foldl round_step st (zip round_constants (rev (schedule 48 (rev block)))))"

function hash_words :: "word32 list \<Rightarrow> word32 list \<Rightarrow> word32 list" where
  "hash_words st ws = (if length ws < 16 then st else hash_words (compress st (take 16 ws)) (drop 16 ws))"
  by pat_completeness auto
termination by (relation "measure (\<lambda>(st, ws). length ws)") auto

declare hash_words.simps [simp del]

definition hex_word :: "word32 \<Rightarrow> jstring" where
  "hex_word w = concat (map (\<lambda>i. [hex_unit (unat w div 16 ^ i mod 16)]) (rev [0..<8]))"

definition sha256_hex :: "byte list \<Rightarrow> jstring" where
  "sha256_hex m = concat (map hex_word (hash_words initial_hash (be_words (pad m))))"

section \<open>Shape of the digest\<close>

text \<open>\<open>/^sha256:[a-f0-9]{64}$/\<close> and its hexadecimal part.\<close>

definition hex_lower :: "code_unit \<Rightarrow> bool" where
  "hex_lower c \<longleftrightarrow> (0x30 \<le> c \<and> c \<le> 0x39) \<or> (0x61 \<le> c \<and> c \<le> 0x66)"

definition is_hex64 :: "jstring \<Rightarrow> bool" where
  "is_hex64 s \<longleftrightarrow> length s = 64 \<and> (\<forall>c \<in> set s. hex_lower c)"

lemma length_round_step [simp]: "length (round_step st kw) = length st"
  by (induction st kw rule: round_step.induct) (auto simp: Let_def)

lemma length_rounds: "length (foldl round_step st kws) = length st"
  by (induction kws arbitrary: st) auto

lemma length_hash_words: "length (hash_words st ws) = length st"
proof (induction st ws rule: hash_words.induct)
  case (1 st ws)
  have "length (compress st b) = length st" for b by (simp add: compress_def length_rounds)
  with 1 show ?case by (simp add: hash_words.simps [of st ws])
qed

lemma hex_lower_unit: "d < 16 \<Longrightarrow> hex_lower (hex_unit d)"
  by (auto simp: hex_lower_def hex_unit_def word_le_nat_alt unat_unit_of)

lemma length_hex_word [simp]: "length (hex_word w) = 8"
  by (simp add: hex_word_def upt_rec)

lemma hex_lower_word: "c \<in> set (hex_word w) \<Longrightarrow> hex_lower c"
  by (auto simp: hex_word_def hex_lower_unit)

lemma is_hex64_sha256: "is_hex64 (sha256_hex m)"
proof -
  let ?ws = "hash_words initial_hash (be_words (pad m))"
  have "length ?ws = 8" by (simp add: length_hash_words initial_hash_def)
  moreover have "length (concat (map hex_word xs)) = 8 * length xs" for xs
    by (induction xs) auto
  ultimately show ?thesis by (auto simp: is_hex64_def sha256_hex_def hex_lower_word)
qed

end
