(* ===== verification/Codec.thy ===== *)
theory Codec
  imports Main
begin

text \<open>
  The interface between the canonical serializer and the code that compares and hashes values.

  A provider gives an encoder, a decoder and a normal form on its valid values, and promises that
  decoding an encoding gives the normal form and that the encoder sees nothing but the normal
  form.  The client facts: two valid values have the same encoding exactly when they have the same
  normal form (so comparing encodings is an equivalence relation), encodings are stable under
  re-encoding, and a digest of the encoding determines the value up to an explicit collision.
\<close>

locale canonical_codec =
  fixes valid :: "'a \<Rightarrow> bool"
    and normal :: "'a \<Rightarrow> 'a"
    and enc :: "'a \<Rightarrow> 't"
    and dec :: "'t \<Rightarrow> 'a option"
  assumes enc_normal: "enc (normal a) = enc a"
    and dec_enc: "valid a \<Longrightarrow> dec (enc a) = Some (normal a)"
begin

lemma enc_eq_iff: "valid a \<Longrightarrow> valid b \<Longrightarrow> enc a = enc b \<longleftrightarrow> normal a = normal b"
  by (metis dec_enc enc_normal option.inject)

lemma enc_inject_normal: "valid a \<Longrightarrow> valid b \<Longrightarrow> normal a = a \<Longrightarrow> normal b = b \<Longrightarrow> enc a = enc b \<Longrightarrow> a = b"
  by (simp add: enc_eq_iff)

lemma reencode: "valid a \<Longrightarrow> dec (enc a) = Some b \<Longrightarrow> enc b = enc a"
  by (metis dec_enc enc_normal option.inject)

end

locale digest_codec = canonical_codec valid normal enc dec
  for valid :: "'a \<Rightarrow> bool" and normal :: "'a \<Rightarrow> 'a" and enc :: "'a \<Rightarrow> 't" and dec :: "'t \<Rightarrow> 'a option" +
  fixes hash :: "'t \<Rightarrow> 'h"
begin

definition digest :: "'a \<Rightarrow> 'h" where
  "digest a = hash (enc a)"

lemma digest_normal: "digest (normal a) = digest a"
  by (simp add: digest_def enc_normal)

lemma digest_binds:
  "valid a \<Longrightarrow> valid b \<Longrightarrow> digest a = digest b \<Longrightarrow>
   normal a = normal b \<or> (enc a \<noteq> enc b \<and> hash (enc a) = hash (enc b))"
  by (auto simp: digest_def enc_eq_iff)

end

text \<open>
  Results of untrusted evaluators: whatever an evaluator hands back is normalized into a well-formed
  record under a fallback name, and a well-formed record, shown as a value again, is left alone.
\<close>

locale result_normalizer =
  fixes norm :: "'raw \<Rightarrow> 'n \<Rightarrow> 'r"
    and view :: "'r \<Rightarrow> 'raw"
    and wf :: "'r \<Rightarrow> bool"
    and name_ok :: "'n \<Rightarrow> bool"
  assumes norm_wf: "name_ok n \<Longrightarrow> wf (norm v n)"
    and norm_fixed: "wf r \<Longrightarrow> norm (view r) n = r"
begin

lemma norm_idem: "name_ok n \<Longrightarrow> norm (view (norm v n)) m = norm v n"
  by (simp add: norm_wf norm_fixed)

lemma norm_list_fixed: "list_all wf rs \<Longrightarrow> map (\<lambda>(n, r). norm (view r) n) (zip ns rs) = take (length ns) rs"
  by (induction ns rs rule: list_induct2') (auto simp: norm_fixed)

lemma norm_list_wf: "list_all (\<lambda>(n, v). name_ok n) nvs \<Longrightarrow> list_all wf (map (\<lambda>(n, v). norm v n) nvs)"
  by (induction nvs) (auto simp: norm_wf)

end

end
