(* ===== verification/ContractJson.thy ===== *)
theory ContractJson
  imports JsonRoundTrip Sha256 Codec
begin

text \<open>
  The JSON boundary of the execution contract
  (\<open>packages/kdna-core/src/runtime-contract.js\<close>): the public parser
  \<open>parseRuntimeContractJson\<close> with its options and limits, the snapshot of a caller value
  (\<open>snapshotJsonValue\<close>: serialize canonically, parse strictly), value equality
  (\<open>equalJson\<close>), the digest of a value (\<open>digestJcs\<close>) and its size (\<open>jcsCharacterCount\<close>).

  \<open>snapshotJsonValue_iff\<close> characterizes the accepted caller values and the value returned.
  The codec locales are interpreted here on the serializer and the parser.
\<close>

section \<open>The parser with its limits\<close>

definition JSON_MAX_BYTES :: nat where "JSON_MAX_BYTES = 2097152"
definition JSON_MAX_DEPTH :: nat where "JSON_MAX_DEPTH = 64"

datatype parse_input = InString jstring | InBytes "byte list" | InOther

definition options_error :: "string \<Rightarrow> exn" where
  "options_error m = ContractError ''KDNA_JSON_OPTIONS_INVALID'' (u m) None"

text \<open>\<open>options.maxBytes ?? limit\<close>, then the range check.\<close>

definition option_limit :: "(jstring \<times> hslot) list \<Rightarrow> string \<Rightarrow> nat \<Rightarrow> nat option" where
  "option_limit ps k limit =
     (case map_of ps (u k) of
        None \<Rightarrow> Some limit
      | Some (HData e HUndefined) \<Rightarrow> Some limit
      | Some (HData e HNull) \<Rightarrow> Some limit
      | Some (HData e (HNum n)) \<Rightarrow>
          (case n of
             Fin q \<Rightarrow> if is_integer n \<and> 1 \<le> q \<and> q \<le> of_nat limit then Some (nat \<lfloor>q\<rfloor>) else None
           | _ \<Rightarrow> None)
      | _ \<Rightarrow> None)"

definition is_data_slot :: "hslot \<Rightarrow> bool" where
  "is_data_slot s = (case s of HData _ _ \<Rightarrow> True | _ \<Rightarrow> False)"

definition parse_limits :: "hval \<Rightarrow> exn + nat \<times> nat" where
  "parse_limits options =
     (case options of
        HUndefined \<Rightarrow> Inr (JSON_MAX_BYTES, JSON_MAX_DEPTH)
      | HObj PlainProto nsym ps \<Rightarrow>
          if nsym \<noteq> 0 \<or> (\<exists>(k, s) \<in> set ps. k \<noteq> u ''maxBytes'' \<and> k \<noteq> u ''maxDepth'' \<or> \<not> is_data_slot s)
          then Inl (options_error ''Execution-contract JSON parser options contain an unknown or accessor property.'')
          else (case (option_limit ps ''maxBytes'' JSON_MAX_BYTES, option_limit ps ''maxDepth'' JSON_MAX_DEPTH) of
                  (Some b, Some d) \<Rightarrow> Inr (b, d)
                | _ \<Rightarrow> Inl (options_error ''maxBytes and maxDepth must be positive safe integers no greater than 2097152 and 64.''))
      | _ \<Rightarrow> Inl (options_error ''Execution-contract JSON parser options must be a plain object.''))"

definition byte_limit_error :: exn where
  "byte_limit_error =
     ContractError ''KDNA_JSON_LIMIT_EXCEEDED'' (u ''Execution-contract JSON exceeds the configured byte limit.'') None"

definition decode_input :: "nat \<Rightarrow> parse_input \<Rightarrow> exn + jstring" where
  "decode_input maxBytes input =
     (case input of
        InString text \<Rightarrow> Inr text
      | InBytes bs \<Rightarrow>
          if maxBytes < length bs then Inl byte_limit_error
          else if take 3 bs = [0xEF, 0xBB, 0xBF]
          then Inl (ContractError ''KDNA_JSON_BOM_FORBIDDEN'' (u ''Execution-contract JSON must not begin with a UTF-8 BOM.'') None)
          else (case utf8_decode bs of
                  Some text \<Rightarrow> Inr text
                | None \<Rightarrow> Inl (ContractError ''KDNA_JSON_INVALID_UNICODE'' (u ''Execution-contract JSON is not valid UTF-8.'') None))
      | InOther \<Rightarrow>
          Inl (ContractError ''KDNA_JSON_INPUT_INVALID''
                (u ''Execution-contract JSON input must be a string, Buffer, or Uint8Array.'') None))"

text \<open>\<open>StrictJsonParser.parse\<close>\<close>

definition parse :: "nat \<Rightarrow> jstring \<Rightarrow> exn + json" where
  "parse maxDepth text =
     (let N = length text
      in ebind (parseValue N maxDepth 0 (skipWhitespace text)) (\<lambda>(v, r).
           let r' = skipWhitespace r
           in if r' \<noteq> [] then Inl (syntax_err N r' ''Unexpected trailing JSON content.'') else Inr v))"

definition parseRuntimeContractJson :: "parse_input \<Rightarrow> hval \<Rightarrow> exn + json" where
  "parseRuntimeContractJson input options =
     ebind (parse_limits options) (\<lambda>(maxBytes, maxDepth).
     ebind (decode_input maxBytes input) (\<lambda>text.
       if take 1 text = [0xFEFF]
       then Inl (ContractError ''KDNA_JSON_BOM_FORBIDDEN'' (u ''Execution-contract JSON must not begin with a BOM.'') None)
       else if maxBytes < length (utf8_encode text) then Inl byte_limit_error
       else parse maxDepth text))"

section \<open>Equality, digests and snapshots\<close>

definition equalJson :: "hval \<Rightarrow> hval \<Rightarrow> bool" where
  "equalJson a b =
     (case (canonicalizeJcs a, canonicalizeJcs b) of (Inr s, Inr t) \<Rightarrow> s = t | _ \<Rightarrow> False)"

definition sha256_text :: "jstring \<Rightarrow> jstring" where
  "sha256_text t = u ''sha256:'' @ sha256_hex (utf8_encode t)"

definition digestJcs :: "hval \<Rightarrow> exn + jstring" where
  "digestJcs v = emap sha256_text (canonicalizeJcs v)"

definition computeCapsuleDeliveryDigest :: "hval \<Rightarrow> exn + jstring" where
  "computeCapsuleDeliveryDigest capsule = emap sha256_text (canonicalizeJcs capsule)"

definition jcsCharacterCount :: "hval \<Rightarrow> exn + nat" where
  "jcsCharacterCount v = emap (\<lambda>t. length (code_points t)) (canonicalizeJcs v)"

definition snapshotJsonValue :: "hval \<Rightarrow> exn + json" where
  "snapshotJsonValue v =
     ebind (canonicalizeJcs v) (\<lambda>t. parseRuntimeContractJson (InString t) HUndefined)"

text \<open>\<open>/^sha256:[0-9a-f]{64}$/\<close>\<close>

definition is_sha256_text :: "jstring \<Rightarrow> bool" where
  "is_sha256_text s \<longleftrightarrow> take 7 s = u ''sha256:'' \<and> is_hex64 (drop 7 s)"

lemma is_sha256_text_digest [simp]: "is_sha256_text (sha256_text t)"
proof -
  have "length (u ''sha256:'') = 7" by (simp add: u_def)
  then show ?thesis by (simp add: is_sha256_text_def sha256_text_def is_hex64_sha256)
qed

section \<open>The codec of JSON values\<close>

lemma length_join_mem: "x \<in> set xs \<Longrightarrow> length x \<le> length (join s xs)"
  by (induction s xs rule: join.induct) auto

lemma json_depth_length: "json_depth j \<le> length (canon j)"
proof (induction j)
  case (JArr xs)
  have "json_depth x \<le> length (join (u '','') (map canon xs))" if "x \<in> set xs" for x
    by (rule order_trans [OF JArr [OF that] length_join_mem]) (use that in simp)
  then have "json_depth (JArr xs) \<le> Suc (length (join (u '','') (map canon xs)))"
    unfolding json_depth_Arr by blast
  then show ?case by (auto simp: u_literals intro: le_SucI)
next
  case (JObj ps)
  have "json_depth x \<le> length (join (u '','') (map member_text (sort_key fst ps)))" if "(k, x) \<in> set ps" for k x
  proof -
    have "json_depth x \<le> length (member_text (k, x))"
      using JObj [OF that] by (simp add: member_text_def Basic_BNFs.snds.simps)
    also have "\<dots> \<le> length (join (u '','') (map member_text (sort_key fst ps)))"
      by (rule length_join_mem) (use that in auto)
    finally show ?thesis .
  qed
  then have "json_depth (JObj ps) \<le> Suc (length (join (u '','') (map member_text (sort_key fst ps))))"
    unfolding json_depth_Obj by blast
  then show ?case by (auto simp: canon_Obj_members intro: le_SucI)
qed auto

definition decode_text :: "jstring \<Rightarrow> json option" where
  "decode_text t = (case parse (length t) t of Inr j \<Rightarrow> Some j | Inl _ \<Rightarrow> None)"

lemma skipWhitespace_canon: "wf_json j \<Longrightarrow> skipWhitespace (canon j) = canon j"
  using canon_starts_value [of j] starts_valueD by fastforce

lemma parse_canon_text: "wf_json j \<Longrightarrow> json_depth j \<le> md \<Longrightarrow> parse md (canon j) = Inr (jnorm j)"
proof -
  assume "wf_json j" "json_depth j \<le> md"
  moreover have "ends_number []" by (simp add: ends_number_def)
  ultimately have "parseValue N md 0 (canon j @ []) = Inr (jnorm j, [])" for N
    by (intro parse_canon) simp_all
  then show "parse md (canon j) = Inr (jnorm j)"
    using \<open>wf_json j\<close> by (simp add: parse_def Let_def skipWhitespace_canon) (simp add: skipWhitespace_def)
qed

interpretation json_codec: canonical_codec wf_json jnorm canon decode_text
  by unfold_locales (auto simp: decode_text_def parse_canon_text json_depth_length)

interpretation json_digest: digest_codec wf_json jnorm canon decode_text sha256_text
  by unfold_locales

section \<open>Values as the engine can build them\<close>

text \<open>Numbers are binary64 and the property names of an object are distinct.\<close>

fun wf_hval :: "hval \<Rightarrow> bool"
and wf_slot :: "hslot \<Rightarrow> bool" where
  "wf_hval (HNum n) = wf_number n"
| "wf_hval (HArr std nsym slots extras) = (\<forall>s \<in> set slots. wf_slot s)"
| "wf_hval (HObj pr nsym ps) = (distinct (map fst ps) \<and> (\<forall>(k, s) \<in> set ps. wf_slot s))"
| "wf_hval _ = True"
| "wf_slot HHole = True"
| "wf_slot (HData e v) = wf_hval v"
| "wf_slot (HAccessor e None) = True"
| "wf_slot (HAccessor e (Some v)) = wf_hval v"

lemma plain_members_keys: "plain_members ps = Some js \<Longrightarrow> map fst js = map fst ps"
proof (induction ps arbitrary: js)
  case (Cons p ps)
  then show ?case by (cases p) (auto simp: bind_eq_Some_conv split: hslot.splits bool.splits)
qed simp

lemma plain_view_wf:
  "plain_view v = Some j \<Longrightarrow> wf_hval v \<Longrightarrow> scalar_json j \<Longrightarrow> wf_json j"
  "plain_items ss = Some js \<Longrightarrow> \<forall>s \<in> set ss. wf_slot s \<Longrightarrow> \<forall>j \<in> set js. scalar_json j \<Longrightarrow> \<forall>j \<in> set js. wf_json j"
  "plain_members ps = Some ms \<Longrightarrow> \<forall>(k, s) \<in> set ps. wf_slot s \<Longrightarrow>
     \<forall>(k, j) \<in> set ms. wf_utf16 k \<and> scalar_json j \<Longrightarrow> \<forall>(k, j) \<in> set ms. wf_json j"
proof (induction v and ss and ps arbitrary: j and js and ms
    rule: plain_view_plain_items_plain_members.induct)
  case (9 pr nsym ps)
  then show ?case by (fastforce simp: plain_members_keys split: if_splits)
next
  case (11 s ss)
  then show ?case by (auto simp: bind_eq_Some_conv split: hslot.splits option.splits)
next
  case (13 p ps)
  obtain k s where p: "p = (k, s)" by (cases p)
  from "13.prems" p obtain v x xs where s: "s = HData True v" and x: "plain_view v = Some x"
    and xs: "plain_members ps = Some xs" and ms: "ms = (k, x) # xs"
    by (auto split: hslot.splits bool.splits simp: bind_eq_Some_conv)
  show ?case
    using "13.IH"(1) [OF p [symmetric] s refl x] "13.IH"(2) [OF p [symmetric] s refl x xs] "13.prems" p s ms by auto
qed auto

lemma wf_hval_of: "wf_json j \<Longrightarrow> wf_hval (hval_of j)"
  by (induction j) (fastforce simp: comp_def split_def Basic_BNFs.snds.simps)+

section \<open>Snapshots\<close>

lemma canon_no_bom: "wf_json j \<Longrightarrow> take 1 (canon j) \<noteq> [0xFEFF]"
  using canon_starts_value [of j] by (cases "canon j") (auto simp: starts_value_def)

lemma parse_canon_only:
  assumes "wf_json j" "parse md (canon j) = Inr w"
  shows "w = jnorm j \<and> json_depth j \<le> md"
proof -
  have e: "ends_number []" by (simp add: ends_number_def)
  obtain v r where v: "parseValue (length (canon j)) md 0 (canon j @ []) = Inr (v, r)" and w: "v = w"
    using assms(2) by (auto simp: parse_def Let_def skipWhitespace_canon [OF assms(1)] result_simps split: if_splits)
  show ?thesis using parse_canon_result [OF assms(1) e v] w by simp
qed

definition fits_limits :: "json \<Rightarrow> bool" where
  "fits_limits j \<longleftrightarrow> json_depth j \<le> JSON_MAX_DEPTH \<and> length (utf8_encode (canon j)) \<le> JSON_MAX_BYTES"

lemma parseRuntimeContractJson_canon:
  assumes "wf_json j"
  shows "parseRuntimeContractJson (InString (canon j)) HUndefined = Inr w \<longleftrightarrow> fits_limits j \<and> w = jnorm j"
  using parse_canon_text [OF assms, of JSON_MAX_DEPTH] parse_canon_only [OF assms, of JSON_MAX_DEPTH w] canon_no_bom [OF assms]
  by (auto simp: parseRuntimeContractJson_def parse_limits_def decode_input_def fits_limits_def)

theorem snapshotJsonValue_iff:
  assumes "wf_hval v"
  shows "snapshotJsonValue v = Inr w \<longleftrightarrow>
     (\<exists>j. plain_view v = Some j \<and> scalar_json j \<and> fits_limits j \<and> w = jnorm j)"
proof -
  have "snapshotJsonValue v = Inr w \<longleftrightarrow>
     (\<exists>j. plain_view v = Some j \<and> scalar_json j \<and>
        parseRuntimeContractJson (InString (canon j)) HUndefined = Inr w)"
    by (auto simp: snapshotJsonValue_def result_simps canonicalizeJcs_success)
  also have "\<dots> \<longleftrightarrow> (\<exists>j. plain_view v = Some j \<and> scalar_json j \<and> fits_limits j \<and> w = jnorm j)"
    using plain_view_wf(1) assms parseRuntimeContractJson_canon by blast
  finally show ?thesis .
qed

lemma parseRuntimeContractJson_wf:
  assumes "parseRuntimeContractJson i opts = Inr j"
  shows "wf_json j \<and> json_depth j \<le> JSON_MAX_DEPTH"
proof -
  have lim: "parse_limits opts = Inr (b, d) \<Longrightarrow> d \<le> JSON_MAX_DEPTH" for b d
    by (auto simp: parse_limits_def option_limit_def JSON_MAX_DEPTH_def JSON_MAX_BYTES_def
        split: hval.splits proto.splits if_splits option.splits hslot.splits number.splits)
       (linarith | simp add: nat_le_iff floor_le_iff)+
  from assms obtain b d t where "parse_limits opts = Inr (b, d)" and p: "parse d t = Inr j"
    by (auto simp: parseRuntimeContractJson_def result_simps split: if_splits)
  moreover from p obtain r where "parseValue (length t) d 0 (skipWhitespace t) = Inr (j, r)"
    by (auto simp: parse_def Let_def result_simps split: if_splits)
  ultimately show ?thesis using parse_wf lim by fastforce
qed

lemma snapshot_wf: "snapshotJsonValue v = Inr w \<Longrightarrow> wf_json w"
  using parseRuntimeContractJson_wf by (auto simp: snapshotJsonValue_def result_simps)

lemma snapshot_normal: "wf_hval v \<Longrightarrow> snapshotJsonValue v = Inr w \<Longrightarrow> jnorm w = w"
  by (auto simp: snapshotJsonValue_iff)

lemma snapshot_hval_of: "wf_json j \<Longrightarrow> fits_limits j \<Longrightarrow> snapshotJsonValue (hval_of j) = Inr (jnorm j)"
  by (simp add: snapshotJsonValue_iff wf_hval_of scalar_json_wf)

lemma fits_limits_jnorm [simp]: "fits_limits (jnorm j) = fits_limits j"
  by (simp add: fits_limits_def json_depth_jnorm)

section \<open>Equality and digests of JSON values\<close>

lemma equalJson_hval_of [simp]:
  "scalar_json a \<Longrightarrow> scalar_json b \<Longrightarrow> equalJson (hval_of a) (hval_of b) \<longleftrightarrow> canon a = canon b"
  by (simp add: equalJson_def canonicalizeJcs_hval_of)

lemma equalJson_iff:
  "wf_json a \<Longrightarrow> wf_json b \<Longrightarrow> equalJson (hval_of a) (hval_of b) \<longleftrightarrow> jnorm a = jnorm b"
  by (simp add: scalar_json_wf json_codec.enc_eq_iff)

lemma digestJcs_hval_of: "scalar_json j \<Longrightarrow> digestJcs (hval_of j) = Inr (json_digest.digest j)"
  by (simp add: digestJcs_def canonicalizeJcs_hval_of json_digest.digest_def)

lemma computeCapsuleDeliveryDigest_hval_of:
  "scalar_json j \<Longrightarrow> computeCapsuleDeliveryDigest (hval_of j) = Inr (json_digest.digest j)"
  by (simp add: computeCapsuleDeliveryDigest_def canonicalizeJcs_hval_of json_digest.digest_def)

lemma jcsCharacterCount_hval_of:
  "scalar_json j \<Longrightarrow> jcsCharacterCount (hval_of j) = Inr (length (code_points (canon j)))"
  by (simp add: jcsCharacterCount_def canonicalizeJcs_hval_of)

section \<open>Digest texts survive a snapshot\<close>

lemma length_quote_unit: "length (quote_unit c) \<le> 6" "length (unicode_escape c) \<le> 6"
  by (simp_all add: quote_unit_def unicode_escape_def hex4_def)

lemma length_units_le: "length (quote_units s) \<le> 6 * length s"
proof (induction s rule: quote_units.induct)
  case (2 c cs)
  note l = length_quote_unit [of c]
  show ?case
  proof (cases cs)
    case Nil
    then show ?thesis using l by simp
  next
    case (Cons d ds)
    show ?thesis
    proof (cases "is_high c \<and> is_low d")
      case True
      then show ?thesis using "2.IH"(1) [OF Cons True] Cons by simp
    next
      case False
      then have "quote_units (c # cs) = (if is_high c \<or> is_low c then unicode_escape c else quote_unit c) @ quote_units cs"
        using Cons by auto
      then show ?thesis using "2.IH"(2) [OF Cons False] l by (simp split: if_splits)
    qed
  qed
qed simp

lemma length_utf8_cp: "length (utf8_cp n) \<le> 4" "n < 0x10000 \<Longrightarrow> length (utf8_cp n) \<le> 3"
  by (simp_all add: utf8_cp_def)

lemma length_utf8_le: "length (utf8_encode s) \<le> 3 * length s"
proof (induction s rule: code_points.induct)
  case (2 c cs)
  have "replace_surrogate (unat c) < 0x10000"
    using unat_code_unit [of c] by (simp add: replace_surrogate_def)
  then have b: "length (utf8_cp (replace_surrogate (unat c))) \<le> 3" by (rule length_utf8_cp)
  show ?case
  proof (cases "is_high c \<and> cs \<noteq> [] \<and> is_low (hd cs)")
    case True
    then obtain d ds where cs: "cs = d # ds" by (cases cs) auto
    with True have p: "is_high c" "is_low d" by auto
    have "length (utf8_encode ds) \<le> 3 * length ds" using "2.IH" cs p by simp
    then show ?thesis using length_utf8_cp(1) [of "replace_surrogate (pair_value c d)"] cs p
      by (simp add: utf8_encode_def)
  next
    case False
    then have e: "code_points (c # cs) = unat c # code_points cs" by (cases cs) auto
    have "length (utf8_encode cs) \<le> 3 * length cs" using "2.IH" False by (cases cs) auto
    then show ?thesis using b by (simp add: utf8_encode_def e del: code_points.simps)
  qed
qed simp

lemma wf_utf16_hex: "\<forall>c \<in> set s. hex_lower c \<Longrightarrow> wf_utf16 s"
proof (induction s)
  case (Cons c s)
  have "\<not> is_high c" "\<not> is_low c"
    using Cons.prems by (auto simp: hex_lower_def is_high_def is_low_def word_le_nat_alt)
  with Cons show ?case by simp
qed simp

lemma sha256_text_wf: "is_sha256_text s \<Longrightarrow> wf_json (JStr s) \<and> fits_limits (JStr s)"
proof -
  assume s: "is_sha256_text s"
  then have sp: "s = u ''sha256:'' @ drop 7 s" and h: "length (drop 7 s) = 64" "\<forall>c \<in> set (drop 7 s). hex_lower c"
    by (auto simp: is_sha256_text_def is_hex64_def) (metis append_take_drop_id)
  have l: "length s = 71" using h(1) by simp
  have "wf_utf16 s" using wf_utf16_append [OF wf_utf16_u wf_utf16_hex [OF h(2)]] sp by metis
  moreover have "length (json_quote s) \<le> 428"
    using length_units_le [of s] l by (simp add: json_quote_def)
  then have "length (utf8_encode (json_quote s)) \<le> 1284" using length_utf8_le [of "json_quote s"] by simp
  ultimately show ?thesis by (simp add: fits_limits_def JSON_MAX_BYTES_def)
qed

lemma snapshot_sha256_text: "is_sha256_text s \<Longrightarrow> snapshotJsonValue (HStr s) = Inr (JStr s)"
  using snapshot_hval_of [of "JStr s"] sha256_text_wf [of s] by simp

end
