(* ===== verification/ContractCore.thy ===== *)
theory ContractCore
  imports ContractJson
begin

text \<open>
  The shared machinery of \<open>packages/kdna-core/src/runtime-contract.js\<close>: results
  (\<open>ok\<close>, \<open>invalid\<close>, \<open>throwInvalid\<close>), schema validation of a snapshot (\<open>validateSchema\<close>) and
  the snapshots of contexts and builder inputs.

  Ajv is third-party code: the validators are the parameter \<open>E\<close> of type \<open>validators\<close>,
  \<open>E kind value\<close> being the error list of the packaged schema \<open>kind\<close>, or \<open>None\<close> when the value
  is accepted.
\<close>

type_synonym validators = "string \<Rightarrow> json \<Rightarrow> json list option"

section \<open>Object literals and reads of caller values\<close>

definition js :: "string \<Rightarrow> json" where "js s = JStr (u s)"

definition jo :: "(string \<times> json) list \<Rightarrow> json" where
  "jo ps = JObj (map (\<lambda>(k, v). (u k, v)) ps)"

lemma wf_js [simp]: "wf_json (js s)" "scalar_json (js s)"
  by (simp_all add: js_def)

lemma wf_jo: "wf_json (jo ps) \<longleftrightarrow> distinct (map fst ps) \<and> (\<forall>v \<in> snd ` set ps. wf_json v)"
  by (auto simp: jo_def comp_def split_def distinct_map inj_on_def)

definition ho :: "(string \<times> hval) list \<Rightarrow> hval" where
  "ho ps = HObj PlainProto 0 (map (\<lambda>(k, v). (u k, HData True v)) ps)"

definition hopt :: "json option \<Rightarrow> hval" where
  "hopt v = (case v of None \<Rightarrow> HUndefined | Some j \<Rightarrow> hval_of j)"

definition slot_get :: "hslot option \<Rightarrow> exn + hval" where
  "slot_get s =
     (case s of None \<Rightarrow> Inr HUndefined | Some HHole \<Rightarrow> Inr HUndefined | Some (HData _ v) \<Rightarrow> Inr v
      | Some (HAccessor _ None) \<Rightarrow> Inl GetterThrow | Some (HAccessor _ (Some v)) \<Rightarrow> Inr v)"

definition hget :: "hval \<Rightarrow> string \<Rightarrow> exn + hval" where
  "hget v k =
     (case v of
        HUndefined \<Rightarrow> Inl (TypeErr (u ''Cannot read properties of undefined (reading '' @ quoted k @ u '')''))
      | HNull \<Rightarrow> Inl (TypeErr (u ''Cannot read properties of null (reading '' @ quoted k @ u '')''))
      | HObj _ _ ps \<Rightarrow> slot_get (map_of ps (u k))
      | HArr _ _ _ ps \<Rightarrow> slot_get (map_of ps (u k))
      | _ \<Rightarrow> Inr HUndefined)"

definition htruthy :: "hval \<Rightarrow> bool" where
  "htruthy v =
     (case v of HUndefined \<Rightarrow> False | HNull \<Rightarrow> False | HBool b \<Rightarrow> b | HStr s \<Rightarrow> s \<noteq> []
      | HNum n \<Rightarrow> \<not> (n = NaN \<or> num_eq n (Fin 0)) | _ \<Rightarrow> True)"

text \<open>
  \<open>structuredClone\<close>: functions and symbols are refused, accessors are read, and only enumerable
  string-named properties survive, on plain objects and arrays.
\<close>

definition clone_error :: exn where
  "clone_error = CodedError ''DataCloneError'' (u ''could not be cloned.'') None"

fun structuredClone :: "hval \<Rightarrow> exn + hval"
and clone_slot :: "hslot \<Rightarrow> exn + hslot"
and clone_slots :: "hslot list \<Rightarrow> exn + hslot list"
and clone_members :: "(jstring \<times> hslot) list \<Rightarrow> exn + (jstring \<times> hslot) list" where
  "structuredClone (HOther t) = (if t = ''bigint'' then Inr (HOther t) else Inl clone_error)"
| "structuredClone (HArr std nsym slots extras) =
     ebind (clone_slots slots) (\<lambda>ss. ebind (clone_members extras) (\<lambda>es. Inr (HArr True 0 ss es)))"
| "structuredClone (HObj pr nsym ps) = emap (HObj PlainProto 0) (clone_members ps)"
| "structuredClone HUndefined = Inr HUndefined"
| "structuredClone HCycle = Inr HCycle"
| "structuredClone HNull = Inr HNull"
| "structuredClone (HBool b) = Inr (HBool b)"
| "structuredClone (HNum n) = Inr (HNum n)"
| "structuredClone (HStr s) = Inr (HStr s)"
| "clone_slot HHole = Inr HHole"
| "clone_slot (HData e v) = (if e then emap (HData True) (structuredClone v) else Inr HHole)"
| "clone_slot (HAccessor e None) = (if e then Inl GetterThrow else Inr HHole)"
| "clone_slot (HAccessor e (Some v)) = (if e then emap (HData True) (structuredClone v) else Inr HHole)"
| "clone_slots [] = Inr []"
| "clone_slots (s # ss) = ebind (clone_slot s) (\<lambda>s'. emap ((#) s') (clone_slots ss))"
| "clone_members [] = Inr []"
| "clone_members ((k, s) # ps) =
     ebind (clone_slot s) (\<lambda>s'. emap (\<lambda>qs. if s' = HHole then qs else (k, s') # qs) (clone_members ps))"

section \<open>Results\<close>

datatype vresult = Valid json | Invalid string jstring "json option"

definition ok :: "json \<Rightarrow> vresult" where "ok v = Valid v"

definition invalid :: "string \<Rightarrow> string \<Rightarrow> vresult" where
  "invalid code m = Invalid code (u m) None"

text \<open>The \<open>errors\<close> member of an invalid result, as nested into the details of another one.\<close>

definition result_errors :: "string \<Rightarrow> jstring \<Rightarrow> json option \<Rightarrow> json" where
  "result_errors code m d =
     JArr [JObj ([(u ''code'', js code), (u ''message'', JStr m)] @
                 (case d of None \<Rightarrow> [] | Some j \<Rightarrow> [(u ''details'', j)]))]"

definition throwInvalid :: "vresult \<Rightarrow> exn + json" where
  "throwInvalid r = (case r of Valid v \<Rightarrow> Inr v | Invalid c m d \<Rightarrow> Inl (ContractError c m d))"

definition cause_details :: "exn \<Rightarrow> json option" where
  "cause_details e = Some (jo [(''cause'', JStr (error_message e))])"

text \<open>\<open>if (!r.valid) return r;\<close> in an operation that may also throw.\<close>

definition vbind :: "vresult \<Rightarrow> (json \<Rightarrow> exn + vresult) \<Rightarrow> exn + vresult" where
  "vbind r f = (case r of Valid v \<Rightarrow> f v | Invalid c m d \<Rightarrow> Inr (Invalid c m d))"

text \<open>The same, reporting (or throwing) the failure as one of the validation context.\<close>

definition vbind_as :: "vresult \<Rightarrow> string \<Rightarrow> (json \<Rightarrow> exn + vresult) \<Rightarrow> exn + vresult" where
  "vbind_as r msg f =
     (case r of
        Valid v \<Rightarrow> f v
      | Invalid c m d \<Rightarrow>
          Inr (Invalid ''KDNA_VALIDATION_CONTEXT_INVALID'' (u msg) (Some (result_errors c m d))))"

definition throw_as :: "vresult \<Rightarrow> string \<Rightarrow> exn + json" where
  "throw_as r msg =
     (case r of
        Valid v \<Rightarrow> Inr v
      | Invalid c m d \<Rightarrow>
          Inl (ContractError ''KDNA_VALIDATION_CONTEXT_INVALID'' (u msg) (Some (result_errors c m d))))"

lemma vbind_as_Valid_conv [result_simps]:
  "vbind_as r msg f = Inr (Valid w) \<longleftrightarrow> (\<exists>v. r = Valid v \<and> f v = Inr (Valid w))"
  by (cases r) (auto simp: vbind_as_def)

lemma throw_as_Inr_conv [result_simps]: "throw_as r msg = Inr v \<longleftrightarrow> r = Valid v"
  by (cases r) (auto simp: throw_as_def)

lemma vbind_simps [simp, result_simps]:
  "vbind (Valid v) f = f v"
  "vbind (Invalid c m d) f = Inr (Invalid c m d)"
  by (simp_all add: vbind_def)

lemma vbind_Valid_conv [result_simps]:
  "vbind r f = Inr (Valid w) \<longleftrightarrow> (\<exists>v. r = Valid v \<and> f v = Inr (Valid w))"
  by (cases r) auto

lemma throwInvalid_simps [simp, result_simps]:
  "throwInvalid (Valid v) = Inr v"
  "throwInvalid (Invalid c m d) = Inl (ContractError c m d)"
  by (simp_all add: throwInvalid_def)

lemma throwInvalid_Inr_conv [result_simps]: "throwInvalid r = Inr v \<longleftrightarrow> r = Valid v"
  by (cases r) auto

section \<open>Schema validation\<close>

definition is_packaged_asset_error :: "json \<Rightarrow> exn + bool" where
  "is_packaged_asset_error e =
     ebind (path (Some e) [''keyword'']) (\<lambda>k.
       if \<not> is_str k ''const'' then Inr False
       else emap (\<lambda>p. is_str p ''/projection_request/require_packaged_asset'')
              (path (Some e) [''instancePath'']))"

definition schema_failure :: "string \<Rightarrow> json \<Rightarrow> json list \<Rightarrow> exn + vresult" where
  "schema_failure kind snapshot errs =
     (let details = Some (JArr errs) in
      ebind (if kind = ''plan'' then anyE (map is_packaged_asset_error errs) else Inr False) (\<lambda>pack.
        if pack then Inr (Invalid ''KDNA_ASSET_FILE_REQUIRED''
               (u ''ConsumptionPlan requires a packaged .kdna Runtime asset.'') details)
        else ebind (if kind = ''trace'' \<and> truthy (Some snapshot)
                    then emap (\<lambda>s. is_str s ''execution_completed'' \<and>
                             is_str (get_opt (get_opt (get_opt (Some snapshot) ''budget'') ''comparison'') ''overall'') ''exceeded'')
                           (path (Some snapshot) [''overall_status''])
                    else Inr False) (\<lambda>over.
          Inr (if over then Invalid ''KDNA_TRACE_BUDGET_LIMIT_VIOLATION''
                   (u ''A completed JudgmentTrace cannot cross an enforced budget limit.'') details
               else Invalid ''SCHEMA_INVALID'' (u (kind @ '' does not match its packaged JSON Schema.'')) details))))"

definition validateSchema :: "validators \<Rightarrow> string \<Rightarrow> hval \<Rightarrow> vresult" where
  "validateSchema E kind value =
     projr (try_catch
       (ebind (snapshotJsonValue value) (\<lambda>snapshot.
          case E kind snapshot of None \<Rightarrow> Inr (ok snapshot) | Some errs \<Rightarrow> schema_failure kind snapshot errs))
       (\<lambda>e. Inr (Invalid ''KDNA_INPUT_INVALID'' (u (kind @ '' is not a safe JSON value.'')) (cause_details e))
            :: exn + vresult))"

section \<open>Contexts and builder inputs\<close>

definition all_enumerable_data :: "(jstring \<times> hslot) list \<Rightarrow> bool" where
  "all_enumerable_data ps \<longleftrightarrow> (\<forall>(k, s) \<in> set ps. case s of HData True _ \<Rightarrow> True | _ \<Rightarrow> False)"

text \<open>The members \<open>keys\<close> of an object, snapshotted in order: \<open>Inl (Inl k)\<close> when \<open>k\<close> is missing.\<close>

fun snapshot_keys :: "(jstring \<times> hslot) list \<Rightarrow> string list \<Rightarrow> (string + exn) + (jstring \<times> json) list" where
  "snapshot_keys ps [] = Inr []"
| "snapshot_keys ps (k # ks) =
     (case map_of ps (u k) of
        Some (HData _ v) \<Rightarrow>
          (case snapshotJsonValue v of
             Inl e \<Rightarrow> Inl (Inr e)
           | Inr j \<Rightarrow> emap ((#) (u k, j)) (snapshot_keys ps ks))
      | _ \<Rightarrow> Inl (Inl k))"

definition snapshotContext :: "hval \<Rightarrow> string list \<Rightarrow> vresult" where
  "snapshotContext context keys =
     (case context of
        HObj PlainProto nsym ps \<Rightarrow>
          if nsym \<noteq> 0 \<or> \<not> all_enumerable_data ps
          then invalid ''KDNA_VALIDATION_CONTEXT_INVALID''
                 ''Validation context must contain only enumerable data properties.''
          else (case snapshot_keys ps keys of
                  Inr ms \<Rightarrow> ok (JObj ms)
                | Inl (Inl k) \<Rightarrow> invalid ''KDNA_VALIDATION_CONTEXT_INVALID''
                                  (''Validation context must explicitly provide '' @ k @ ''.'')
                | Inl (Inr e) \<Rightarrow> Invalid ''KDNA_VALIDATION_CONTEXT_INVALID''
                                  (u ''Validation context could not be safely snapshotted.'') (cause_details e))
      | _ \<Rightarrow> invalid ''KDNA_VALIDATION_CONTEXT_INVALID'' ''Validation context must be a plain object.'')"

definition snapshotPublicInput :: "hval \<Rightarrow> string list \<Rightarrow> string list \<Rightarrow> vresult" where
  "snapshotPublicInput input required optional =
     (case input of
        HObj PlainProto nsym ps \<Rightarrow>
          if nsym \<noteq> 0 \<or> \<not> all_enumerable_data ps \<or> \<not> fst ` set ps \<subseteq> u ` set (required @ optional)
          then invalid ''KDNA_INPUT_INVALID''
                 ''Builder input must contain only declared enumerable data properties.''
          else (case snapshot_keys ps (required @ filter (\<lambda>k. map_of ps (u k) \<noteq> None) optional) of
                  Inr ms \<Rightarrow> ok (JObj ms)
                | Inl (Inl k) \<Rightarrow> invalid ''KDNA_INPUT_INVALID''
                                  (''Builder input must explicitly provide '' @ k @ ''.'')
                | Inl (Inr e) \<Rightarrow> Invalid ''KDNA_INPUT_INVALID''
                                  (u ''Builder input could not be safely snapshotted.'') (cause_details e))
      | _ \<Rightarrow> invalid ''KDNA_INPUT_INVALID'' ''Builder input must be a plain object.'')"

section \<open>Facts about snapshots\<close>

lemma validateSchema_Valid:
  "validateSchema E kind v = Valid w \<longleftrightarrow> snapshotJsonValue v = Inr w \<and> E kind w = None"
proof (cases "snapshotJsonValue v")
  case (Inr s)
  have "schema_failure kind s errs \<noteq> Inr (Valid w)" for errs
    by (auto simp: schema_failure_def Let_def result_simps split: if_splits)
  with Inr show ?thesis
    by (cases "E kind s"; cases "schema_failure kind s (the (E kind s))")
       (auto simp: validateSchema_def ok_def)
qed (simp add: validateSchema_def)

lemma validateSchema_wf: "validateSchema E kind v = Valid w \<Longrightarrow> wf_json w \<and> E kind w = None"
  by (auto simp: validateSchema_Valid dest: snapshot_wf)

lemma snapshot_keys_Inr:
  "snapshot_keys ps ks = Inr ms \<Longrightarrow>
   map fst ms = map u ks \<and> (\<forall>(k, j) \<in> set ms. wf_json j) \<and>
   (\<forall>k \<in> set ks. \<exists>e v. map_of ps (u k) = Some (HData e v) \<and>
      (\<exists>j. snapshotJsonValue v = Inr j \<and> map_of ms (u k) = Some j))"
proof (induction ks arbitrary: ms)
  case (Cons k ks)
  from Cons.prems obtain e v j ms' where kv: "map_of ps (u k) = Some (HData e v)" "snapshotJsonValue v = Inr j"
    and ms': "snapshot_keys ps ks = Inr ms'" "ms = (u k, j) # ms'"
    by (auto simp: result_simps split: option.splits hslot.splits sum.splits)
  have wf: "wf_json j" using snapshot_wf [OF kv(2)] .
  show ?case using Cons.IH [OF ms'(1)] kv ms' wf by auto
qed simp

lemma snapshotContext_Valid:
  "snapshotContext c keys = Valid v \<Longrightarrow>
   \<exists>ps ms. c = HObj PlainProto 0 ps \<and> all_enumerable_data ps \<and> v = JObj ms \<and> snapshot_keys ps keys = Inr ms"
  by (auto simp: snapshotContext_def invalid_def ok_def
      split: hval.splits proto.splits if_splits sum.splits)

lemma snapshotContext_member:
  assumes "snapshotContext c keys = Valid v" "k \<in> set keys"
  shows "\<exists>j. get_prop (Some v) k = Inr (Some j) \<and> wf_json j"
proof -
  obtain ps ms where ms: "v = JObj ms" "snapshot_keys ps keys = Inr ms"
    using snapshotContext_Valid [OF assms(1)] by blast
  with snapshot_keys_Inr [OF ms(2)] assms(2) obtain j where "map_of ms (u k) = Some j"
    by blast
  moreover then have "wf_json j" using snapshot_keys_Inr [OF ms(2)] map_of_SomeD by fastforce
  ultimately show ?thesis using ms by simp
qed

lemma map_of_ho [simp]: "map_of (map (\<lambda>(k, v). (u k, f v)) ps) (u k) = map_option f (map_of ps k)"
  by (induction ps) auto

lemma snapshotContext_ho:
  "snapshotContext (ho ps) [k] = Valid v \<longleftrightarrow>
     (\<exists>w j. map_of ps k = Some w \<and> snapshotJsonValue w = Inr j \<and> v = JObj [(u k, j)])"
  by (auto simp: snapshotContext_def ho_def all_enumerable_data_def invalid_def ok_def
      split: option.splits sum.splits)

lemma structuredClone_json [simp]: "structuredClone (hval_of j) = Inr (hval_of j)"
proof (induction j)
  case (JArr xs)
  then have "clone_slots (map (\<lambda>x. HData True (hval_of x)) xs) = Inr (map (\<lambda>x. HData True (hval_of x)) xs)"
    by (induction xs) auto
  then show ?case by simp
next
  case (JObj ps)
  then have "\<forall>(k, x) \<in> set ps. structuredClone (hval_of x) = Inr (hval_of x)"
    by (fastforce simp: Basic_BNFs.snds.simps)
  then have "clone_members (map (\<lambda>(k, x). (k, HData True (hval_of x))) ps) =
             Inr (map (\<lambda>(k, x). (k, HData True (hval_of x))) ps)"
    by (induction ps) auto
  then show ?case by simp
qed auto

section \<open>Correlation conditions\<close>

text \<open>
  \<open>!equalJson(a.p, b.q)\<close>, \<open>!equalJson(a.p, w)\<close> and object literals whose members are read
  from other values, in evaluation order.
\<close>

definition differs :: "json option \<Rightarrow> string list \<Rightarrow> json option \<Rightarrow> string list \<Rightarrow> exn + bool" where
  "differs a p b q =
     ebind (path a p) (\<lambda>x. ebind (path b q) (\<lambda>y. Inr (\<not> equalJson (hopt x) (hopt y))))"

definition differs_from :: "json option \<Rightarrow> string list \<Rightarrow> hval \<Rightarrow> exn + bool" where
  "differs_from a p w = ebind (path a p) (\<lambda>x. Inr (\<not> equalJson (hopt x) w))"

definition field :: "json option \<Rightarrow> string list \<Rightarrow> exn + hval" where
  "field v p = emap hopt (path v p)"

definition object_of :: "(string \<times> (exn + hval)) list \<Rightarrow> exn + hval" where
  "object_of fs = emap ho (mapE (\<lambda>(k, m). emap (Pair k) m) fs)"

text \<open>The members a spread \<open>{ ...v }\<close> contributes.\<close>

definition index_key :: "nat \<Rightarrow> jstring" where
  "index_key i = number_to_string (num_of_nat i)"

definition spread :: "json option \<Rightarrow> (jstring \<times> json) list" where
  "spread v =
     (case v of
        Some (JObj ps) \<Rightarrow> ps
      | Some (JArr xs) \<Rightarrow> map (\<lambda>(i, x). (index_key i, x)) (enumerate 0 xs)
      | Some (JStr s) \<Rightarrow> map (\<lambda>(i, c). (index_key i, JStr [c])) (enumerate 0 s)
      | _ \<Rightarrow> [])"

definition with_member :: "json option \<Rightarrow> string \<Rightarrow> json \<Rightarrow> json" where
  "with_member v k x = JObj (upsert (u k) x (spread v))"

lemma equalJson_undefined [simp]: "\<not> equalJson HUndefined v" "\<not> equalJson v HUndefined"
  by (auto simp: equalJson_def canonicalizeJcs_def split: sum.splits)

lemma equalJson_hopt:
  "(\<And>j. x = Some j \<Longrightarrow> wf_json j) \<Longrightarrow> (\<And>j. y = Some j \<Longrightarrow> wf_json j) \<Longrightarrow>
   equalJson (hopt x) (hopt y) \<longleftrightarrow> (\<exists>a b. x = Some a \<and> y = Some b \<and> jnorm a = jnorm b)"
  by (cases x; cases y) (simp_all add: hopt_def equalJson_iff del: equalJson_hval_of)

lemma differs_False_iff [guard_simps]:
  "differs a p b q = Inr False \<longleftrightarrow>
     (\<exists>x y. path a p = Inr x \<and> path b q = Inr y \<and> equalJson (hopt x) (hopt y))"
  by (auto simp: differs_def result_simps)

lemma differs_from_False_iff [guard_simps]:
  "differs_from a p w = Inr False \<longleftrightarrow> (\<exists>x. path a p = Inr x \<and> equalJson (hopt x) w)"
  by (auto simp: differs_from_def result_simps)

lemma equalJson_refl: "canonicalizeJcs v = Inr t \<Longrightarrow> equalJson v v"
  by (simp add: equalJson_def)

lemma equalJson_sym: "equalJson v w \<Longrightarrow> equalJson w v"
  by (auto simp: equalJson_def split: sum.splits)

lemma equalJson_trans: "equalJson v w \<Longrightarrow> equalJson w x \<Longrightarrow> equalJson v x"
  by (auto simp: equalJson_def split: sum.splits)

end
