(* ===== verification/ConsumptionPlan.thy ===== *)
theory ConsumptionPlan
  imports ContractCore
begin

text \<open>
  The consumption plan and the negotiation of an execution pair
  (\<open>computeConsumptionPlanDigest\<close> .. \<open>negotiateRuntimePair\<close> of
  \<open>packages/kdna-core/src/runtime-contract.js\<close>).

  A plan carries the digest of itself without its \<open>integrity\<close> member.  \<open>validateConsumptionPlan_iff\<close>
  says exactly when a plan is accepted, \<open>plan_tamper_evidence\<close> that two plans accepted under one
  trusted digest are the same up to their \<open>integrity\<close> member, \<open>buildConsumptionPlan_json\<close> that
  the builder's plan passes, and \<open>negotiateRuntimePair_selected\<close> when a pair is selected.
\<close>

section \<open>The plan digest\<close>

definition computeConsumptionPlanDigest :: "hval \<Rightarrow> exn + jstring" where
  "computeConsumptionPlanDigest plan =
     try_catch
       (case plan of
          HObj pr nsym ps \<Rightarrow>
            ebind (structuredClone plan) (\<lambda>projection.
              digestJcs (case projection of
                           HObj pr' n' qs \<Rightarrow> HObj pr' n' (remove_key (u ''integrity'') qs)
                         | v \<Rightarrow> v))
        | _ \<Rightarrow> Inl (TypeErr (u ''plan must be an object'')))
       (\<lambda>e. case e of
          ContractError c m d \<Rightarrow> Inl e
        | _ \<Rightarrow> Inl (ContractError ''KDNA_PLAN_INPUT_INVALID''
               (u ''ConsumptionPlan digest input must be a finite, acyclic JSON object.'') (cause_details e)))"

definition plan_body :: "json \<Rightarrow> json" where
  "plan_body plan = (case plan of JObj ps \<Rightarrow> JObj (remove_key (u ''integrity'') ps) | j \<Rightarrow> j)"

definition is_obj :: "json \<Rightarrow> bool" where
  "is_obj j = (case j of JObj _ \<Rightarrow> True | _ \<Rightarrow> False)"

lemma hval_of_remove_key:
  "remove_key k (map (\<lambda>(k, x). (k, f x)) ps) = map (\<lambda>(k, x). (k, f x)) (remove_key k ps)"
  by (induction ps) (auto simp: remove_key_def)

lemma scalar_json_body: "scalar_json j \<Longrightarrow> scalar_json (plan_body j)"
  by (auto simp: plan_body_def remove_key_def split: json.splits)

lemma wf_json_body: "wf_json j \<Longrightarrow> wf_json (plan_body j)"
  by (auto simp: plan_body_def distinct_remove_key split: json.splits) (auto simp: remove_key_def)

lemma jnorm_body: "jnorm (plan_body j) = plan_body (jnorm j)"
  by (cases j) (auto simp: plan_body_def remove_key_def filter_sort filter_map comp_def split_def)

lemma computeConsumptionPlanDigest_json:
  "scalar_json j \<Longrightarrow> is_obj j \<Longrightarrow>
   computeConsumptionPlanDigest (hval_of j) = Inr (json_digest.digest (plan_body j))"
proof (cases j)
  case (JObj ps)
  assume s: "scalar_json j"
  let ?b = "JObj (remove_key (u ''integrity'') ps)"
  have "structuredClone (hval_of j) = Inr (hval_of j)" by simp
  moreover have "HObj PlainProto 0 (remove_key (u ''integrity'') (map (\<lambda>(k, x). (k, HData True (hval_of x))) ps)) = hval_of ?b"
    using hval_of_remove_key [of _ "\<lambda>x. HData True (hval_of x)"] by simp
  moreover have "digestJcs (hval_of ?b) = Inr (json_digest.digest ?b)"
    using scalar_json_body [OF s] JObj by (intro digestJcs_hval_of) (simp add: plan_body_def)
  ultimately show ?thesis using JObj by (simp add: computeConsumptionPlanDigest_def plan_body_def)
qed (auto simp: is_obj_def)

lemma computeConsumptionPlanDigest_not_obj:
  "\<not> is_obj j \<Longrightarrow> \<exists>e. computeConsumptionPlanDigest (hval_of j) = Inl e"
  by (cases j) (auto simp: is_obj_def computeConsumptionPlanDigest_def)

section \<open>Validation of a plan\<close>

definition validatePlanSemantics :: "json \<Rightarrow> json option \<Rightarrow> exn + string option" where
  "validatePlanSemantics plan trusted =
     (case computeConsumptionPlanDigest (hval_of plan) of
        Inl _ \<Rightarrow> Inr (Some ''KDNA_PLAN_INPUT_INVALID'')
      | Inr computed \<Rightarrow>
          first_code
            [(neq_jstr (Some plan) [''integrity'', ''plan_digest''] computed, ''KDNA_PLAN_DIGEST_MISMATCH''),
             (Inr (\<not> is_null trusted \<and> \<not> strict_eq (Some (JStr computed)) trusted),
              ''KDNA_TRUSTED_PLAN_DIGEST_MISMATCH'')])"

definition is_sha256_json :: "json option \<Rightarrow> bool" where
  "is_sha256_json v = (case v of Some (JStr s) \<Rightarrow> is_sha256_text s | _ \<Rightarrow> False)"

definition code_result :: "string option \<Rightarrow> string \<Rightarrow> json \<Rightarrow> vresult" where
  "code_result code m v = (case code of Some c \<Rightarrow> invalid c m | None \<Rightarrow> ok v)"

definition validateConsumptionPlan :: "validators \<Rightarrow> hval \<Rightarrow> hval \<Rightarrow> exn + vresult" where
  "validateConsumptionPlan E plan context =
     vbind (snapshotContext context [''trustedPlanDigest'']) (\<lambda>safeContext.
     vbind (validateSchema E ''plan'' plan) (\<lambda>safePlan.
       let trusted = get_opt (Some safeContext) ''trustedPlanDigest''
       in if \<not> is_sha256_json trusted
          then Inr (invalid ''KDNA_VALIDATION_CONTEXT_INVALID''
                     ''trustedPlanDigest must be a non-null lowercase sha256 digest.'')
          else emap (\<lambda>code. code_result code ''ConsumptionPlan integrity correlation failed.'' safePlan)
                 (validatePlanSemantics safePlan trusted)))"

definition plan_context :: "json \<Rightarrow> hval" where
  "plan_context safeContext =
     ho [(''trustedPlanDigest'', hopt (get_opt (Some safeContext) ''trustedPlanDigest''))]"

lemma code_result_Valid [simp]:
  "code_result c m v = Valid w \<longleftrightarrow> c = None \<and> w = v"
  "Valid w = code_result c m v \<longleftrightarrow> c = None \<and> w = v"
  by (cases c; auto simp: code_result_def ok_def invalid_def)+

lemma validatePlanSemantics_None:
  assumes "wf_json plan" "is_sha256_json trusted"
  shows "validatePlanSemantics plan trusted = Inr None \<longleftrightarrow>
    is_obj plan \<and> trusted = Some (JStr (json_digest.digest (plan_body plan))) \<and>
    path (Some plan) [''integrity'', ''plan_digest''] = Inr trusted"
proof (cases "is_obj plan")
  case True
  obtain t where t: "trusted = Some (JStr t)"
    using assms(2) by (auto simp: is_sha256_json_def split: option.splits json.splits)
  have c: "computeConsumptionPlanDigest (hval_of plan) = Inr (json_digest.digest (plan_body plan))"
    using computeConsumptionPlanDigest_json scalar_json_wf assms(1) True by blast
  show ?thesis using True unfolding validatePlanSemantics_def c t
    by (auto simp: guard_simps is_null_def)
next
  case False
  obtain e where "computeConsumptionPlanDigest (hval_of plan) = Inl e"
    using computeConsumptionPlanDigest_not_obj [OF False] by blast
  with False show ?thesis by (simp add: validatePlanSemantics_def)
qed

theorem validateConsumptionPlan_iff:
  "validateConsumptionPlan E plan context = Inr (Valid p) \<longleftrightarrow>
     (\<exists>sc t. snapshotContext context [''trustedPlanDigest''] = Valid sc \<and>
        get_opt (Some sc) ''trustedPlanDigest'' = Some (JStr t) \<and> is_sha256_text t \<and>
        snapshotJsonValue plan = Inr p \<and> E ''plan'' p = None \<and> is_obj p \<and>
        t = json_digest.digest (plan_body p) \<and>
        path (Some p) [''integrity'', ''plan_digest''] = Inr (Some (JStr t)))" (is "?L \<longleftrightarrow> ?R")
proof
  assume ?L
  then obtain sc where sc: "snapshotContext context [''trustedPlanDigest''] = Valid sc"
    and vs: "validateSchema E ''plan'' plan = Valid p"
    and sh: "is_sha256_json (get_opt (Some sc) ''trustedPlanDigest'')"
    and ps: "validatePlanSemantics p (get_opt (Some sc) ''trustedPlanDigest'') = Inr None"
    by (auto simp: validateConsumptionPlan_def result_simps Let_def invalid_def split: if_splits)
  moreover have "wf_json p" "snapshotJsonValue plan = Inr p" "E ''plan'' p = None"
    using vs validateSchema_wf validateSchema_Valid by auto
  ultimately show ?R using validatePlanSemantics_None [of p "get_opt (Some sc) ''trustedPlanDigest''"]
    by (auto simp: is_sha256_json_def)
next
  assume ?R
  then obtain sc t where R: "snapshotContext context [''trustedPlanDigest''] = Valid sc"
    "get_opt (Some sc) ''trustedPlanDigest'' = Some (JStr t)" "is_sha256_text t"
    "snapshotJsonValue plan = Inr p" "E ''plan'' p = None" "is_obj p"
    "t = json_digest.digest (plan_body p)"
    "path (Some p) [''integrity'', ''plan_digest''] = Inr (Some (JStr t))" by blast
  then have "validatePlanSemantics p (Some (JStr t)) = Inr None"
    using validatePlanSemantics_None [of p "Some (JStr t)"] snapshot_wf by (simp add: is_sha256_json_def)
  then show ?L using R validateSchema_Valid [of E "''plan''" plan p]
    by (simp add: validateConsumptionPlan_def Let_def is_sha256_json_def)
qed

lemma snapshot_StrD:
  assumes "snapshotJsonValue (hopt x) = Inr (JStr t)" "\<And>j. x = Some j \<Longrightarrow> wf_json j"
  shows "x = Some (JStr t)"
proof (cases x)
  case None
  then show ?thesis using assms(1) by (simp add: hopt_def snapshotJsonValue_def canonicalizeJcs_def)
next
  case (Some j)
  then have "JStr t = jnorm j"
    using assms snapshotJsonValue_iff [of "hval_of j"] wf_hval_of by (auto simp: hopt_def)
  then show ?thesis using Some by (cases j) auto
qed

lemma plan_context_Valid:
  assumes "snapshotContext (plan_context sc) [''trustedPlanDigest''] = Valid v"
    and "get_opt (Some v) ''trustedPlanDigest'' = Some (JStr t)"
    and "\<And>j. get_opt (Some sc) ''trustedPlanDigest'' = Some j \<Longrightarrow> wf_json j"
  shows "get_opt (Some sc) ''trustedPlanDigest'' = Some (JStr t)"
proof -
  obtain j where j: "snapshotJsonValue (hopt (get_opt (Some sc) ''trustedPlanDigest'')) = Inr j"
    "v = JObj [(u ''trustedPlanDigest'', j)]"
    using assms(1) unfolding plan_context_def snapshotContext_ho by (auto split: if_splits)
  with assms(2) have "j = JStr t" by simp
  with j(1) assms(3) show ?thesis by (intro snapshot_StrD) auto
qed

lemma validated_plan_normal:
  assumes "validateConsumptionPlan E plan ctx = Inr (Valid p)" "wf_hval plan"
  shows "wf_json (plan_body p)" "jnorm (plan_body p) = plan_body p"
    "path (Some p) [''integrity'', ''plan_digest''] = Inr (Some (JStr (json_digest.digest (plan_body p))))"
proof -
  from assms(1) have s: "snapshotJsonValue plan = Inr p"
    and "path (Some p) [''integrity'', ''plan_digest''] = Inr (Some (JStr (json_digest.digest (plan_body p))))"
    unfolding validateConsumptionPlan_iff by blast+
  with snapshot_wf [OF s] snapshot_normal [OF assms(2) s]
  show "wf_json (plan_body p)" "jnorm (plan_body p) = plan_body p"
    "path (Some p) [''integrity'', ''plan_digest''] = Inr (Some (JStr (json_digest.digest (plan_body p))))"
    by (simp_all add: wf_json_body jnorm_body)
qed

theorem plan_tamper_evidence:
  assumes "validateConsumptionPlan E plan1 ctx1 = Inr (Valid p1)" "wf_hval plan1"
    and "validateConsumptionPlan E plan2 ctx2 = Inr (Valid p2)" "wf_hval plan2"
    and "path (Some p1) [''integrity'', ''plan_digest''] = path (Some p2) [''integrity'', ''plan_digest'']"
  shows "plan_body p1 = plan_body p2 \<or>
         (canon (plan_body p1) \<noteq> canon (plan_body p2) \<and>
          sha256_text (canon (plan_body p1)) = sha256_text (canon (plan_body p2)))"
  using json_digest.digest_binds [of "plan_body p1" "plan_body p2"]
    validated_plan_normal [OF assms(1,2)] validated_plan_normal [OF assms(3,4)] assms(5)
  by simp

section \<open>Building a plan\<close>

definition integrity_literal :: "jstring \<Rightarrow> hval" where
  "integrity_literal d =
     ho [(''profile'', HStr (u ''kdna.canonicalization.consumption-plan-jcs'')),
         (''profile_version'', HStr (u ''0.1.0'')), (''plan_digest'', HStr d)]"

definition plan_literal ::
  "hval \<Rightarrow> hval \<Rightarrow> hval \<Rightarrow> hval \<Rightarrow> hval \<Rightarrow> hval \<Rightarrow> hval \<Rightarrow> hval \<Rightarrow> jstring \<Rightarrow> hval" where
  "plan_literal plan_id created task asset profile budget trace constraints d =
     ho [(''type'', HStr (u ''kdna.consumption-plan'')),
         (''contract_version'', HStr (u ''0.1.0'')),
         (''plan_id'', plan_id),
         (''created_at'', created),
         (''mode'', HStr (u ''single'')),
         (''task'', task),
         (''asset_ref'', asset),
         (''projection_request'',
            ho [(''profile'', profile),
                (''accepted_capsule_versions'', hval_of (JArr [js ''0.1.0''])),
                (''required_digest_profile'', HStr (u ''kdna.digest-evidence'')),
                (''required_digest_profile_version'', HStr (u ''0.1.0'')),
                (''require_packaged_asset'', HBool True)]),
         (''host_request'', ho [(''accepted_protocols'', hval_of (JArr [js ''kdna.agent-host'']))]),
         (''result_request'', ho [(''shape'', HStr (u ''structured_judgment''))]),
         (''budget'', budget),
         (''trace_policy'', trace),
         (''integrity'', integrity_literal d),
         (''constraints'', constraints)]"

definition assemble_plan :: "hval \<Rightarrow> exn + hval" where
  "assemble_plan input =
     ebind (hget input ''plan_id'') (\<lambda>plan_id.
     ebind (hget input ''created_at'') (\<lambda>created.
     ebind (ebind (hget input ''task'') structuredClone) (\<lambda>task.
     ebind (ebind (hget input ''asset_ref'') structuredClone) (\<lambda>asset.
     ebind (hget input ''projection_profile'') (\<lambda>profile.
     ebind (ebind (hget input ''budget'') structuredClone) (\<lambda>budget.
     ebind (ebind (hget input ''trace_policy'') structuredClone) (\<lambda>trace.
     ebind (ebind (hget input ''constraints'') structuredClone) (\<lambda>constraints.
     emap (plan_literal plan_id created task asset profile budget trace constraints)
       (computeConsumptionPlanDigest
          (plan_literal plan_id created task asset profile budget trace constraints []))))))))))"

definition hpath2 :: "hval \<Rightarrow> string \<Rightarrow> string \<Rightarrow> exn + hval" where
  "hpath2 v a b = ebind (hget v a) (\<lambda>w. hget w b)"

definition buildConsumptionPlan :: "validators \<Rightarrow> hval \<Rightarrow> exn + hval" where
  "buildConsumptionPlan E input =
     ebind (try_catch (assemble_plan input) (\<lambda>e. case e of
              ContractError c m d \<Rightarrow> Inl e
            | _ \<Rightarrow> Inl (ContractError ''KDNA_PLAN_INPUT_INVALID''
                         (u ''Cannot build ConsumptionPlan from the supplied input.'') None))) (\<lambda>plan.
     ebind (hpath2 plan ''integrity'' ''plan_digest'') (\<lambda>d.
     ebind (validateConsumptionPlan E plan (ho [(''trustedPlanDigest'', d)])) (\<lambda>r.
     ebind (throwInvalid r) (\<lambda>_. Inr plan))))"

definition plan_json ::
  "json \<Rightarrow> json \<Rightarrow> json \<Rightarrow> json \<Rightarrow> json \<Rightarrow> json \<Rightarrow> json \<Rightarrow> json \<Rightarrow> jstring \<Rightarrow> json" where
  "plan_json plan_id created task asset profile budget trace constraints d =
     jo [(''type'', js ''kdna.consumption-plan''),
         (''contract_version'', js ''0.1.0''),
         (''plan_id'', plan_id),
         (''created_at'', created),
         (''mode'', js ''single''),
         (''task'', task),
         (''asset_ref'', asset),
         (''projection_request'',
            jo [(''profile'', profile),
                (''accepted_capsule_versions'', JArr [js ''0.1.0'']),
                (''required_digest_profile'', js ''kdna.digest-evidence''),
                (''required_digest_profile_version'', js ''0.1.0''),
                (''require_packaged_asset'', JBool True)]),
         (''host_request'', jo [(''accepted_protocols'', JArr [js ''kdna.agent-host''])]),
         (''result_request'', jo [(''shape'', js ''structured_judgment'')]),
         (''budget'', budget),
         (''trace_policy'', trace),
         (''integrity'',
            jo [(''profile'', js ''kdna.canonicalization.consumption-plan-jcs''),
                (''profile_version'', js ''0.1.0''), (''plan_digest'', JStr d)]),
         (''constraints'', constraints)]"

lemma hval_of_jo: "hval_of (jo ps) = ho (map (\<lambda>(k, v). (k, hval_of v)) ps)"
  by (simp add: jo_def ho_def comp_def split_def)

lemma hval_of_js [simp]: "hval_of (js s) = HStr (u s)"
  by (simp add: js_def)

lemma hget_ho [simp]: "hget (ho ps) k = Inr (case map_of ps k of Some v \<Rightarrow> v | None \<Rightarrow> HUndefined)"
  by (simp add: hget_def ho_def slot_get_def split: option.splits)

lemma plan_literal_json:
  "plan_literal (hval_of a) (hval_of b) (hval_of c) (hval_of d) (hval_of e) (hval_of f) (hval_of g) (hval_of h) t =
   hval_of (plan_json a b c d e f g h t)"
  by (simp add: plan_literal_def plan_json_def hval_of_jo integrity_literal_def)

lemma get_plan_digest: "path (Some (plan_json a b c d e f g h t)) [''integrity'', ''plan_digest''] = Inr (Some (JStr t))"
  by (simp add: plan_json_def jo_def path.simps)

lemma plan_body_digest: "plan_body (plan_json a b c d e f g h t) = plan_body (plan_json a b c d e f g h t')"
  by (simp add: plan_json_def plan_body_def jo_def remove_key_def)

lemma map_of_jnorm:
  assumes "wf_json (JObj ps)"
  shows "map_of (sort_key fst (map (\<lambda>(k, x). (k, f x)) ps)) k = map_option f (map_of ps k)"
proof -
  have "distinct (map fst (sort_key fst (map (\<lambda>(k, x). (k, f x)) ps)))"
    by (rule distinct_sort_members) (use assms in simp)
  moreover have "distinct (map fst (map (\<lambda>(k, x). (k, f x)) ps))"
    using assms by (simp add: comp_def split_def)
  ultimately have "map_of (sort_key fst (map (\<lambda>(k, x). (k, f x)) ps)) k = map_of (map (\<lambda>(k, x). (k, f x)) ps) k"
    by (metis map_of_inject_set set_sort)
  then show ?thesis by (simp add: map_of_map)
qed

lemma get_prop_wf: "wf_json j \<Longrightarrow> ''length'' \<noteq> k \<Longrightarrow> get_prop (Some j) k = Inr (Some w) \<Longrightarrow> wf_json w"
  by (auto simp: get_prop_def split: json.splits dest!: map_of_SomeD)

lemma get_prop_jnorm:
  "wf_json j \<Longrightarrow> ''length'' \<noteq> k \<Longrightarrow>
   get_prop (Some (jnorm j)) k = emap (map_option jnorm) (get_prop (Some j) k)"
  by (cases j) (auto simp: get_prop_def map_of_jnorm)

lemma path_jnorm:
  "\<forall>j. v = Some j \<longrightarrow> wf_json j \<Longrightarrow> ''length'' \<notin> set ks \<Longrightarrow>
   path (map_option jnorm v) ks = emap (map_option jnorm) (path v ks)"
proof (induction v ks rule: path.induct)
  case (1 v)
  then show ?case by (simp add: path.simps)
next
  case (2 v k ks)
  show ?case
  proof (cases "get_prop v k")
    case (Inl e)
    then show ?thesis using 2 by (cases v) (auto simp: path.simps get_prop_jnorm get_prop_def [of None])
  next
    case (Inr w)
    then obtain j where v: "v = Some j" by (cases v) (auto simp: get_prop_def)
    have "\<forall>x. w = Some x \<longrightarrow> wf_json x" using get_prop_wf [of j k] 2 Inr v by auto
    with "2.IH" [OF Inr] 2 Inr v show ?thesis by (simp add: path.simps get_prop_jnorm)
  qed
qed

lemma is_obj_plan: "is_obj (jnorm (plan_json a b c d e f g h t))"
  by (simp add: plan_json_def jo_def is_obj_def)

theorem buildConsumptionPlan_json:
  assumes P_def: "P = plan_json a b c d e f g h" and wf: "wf_json a" "wf_json b" "wf_json c" "wf_json d" "wf_json e" "wf_json f" "wf_json g" "wf_json h"
    and t: "t = json_digest.digest (plan_body (P []))"
    and fits: "fits_limits (P t)"
    and schema: "E ''plan'' (jnorm (P t)) = None"
  shows "buildConsumptionPlan E
           (ho [(''plan_id'', hval_of a), (''created_at'', hval_of b), (''task'', hval_of c),
                (''asset_ref'', hval_of d), (''projection_profile'', hval_of e), (''budget'', hval_of f),
                (''trace_policy'', hval_of g), (''constraints'', hval_of h)]) = Inr (hval_of (P t))"
    and "validateConsumptionPlan E (hval_of (P t)) (ho [(''trustedPlanDigest'', HStr t)]) =
         Inr (Valid (jnorm (P t)))"
proof -
  have st: "is_sha256_text t" by (simp add: t json_digest.digest_def)
  have wfP: "wf_json (P s)" if "wf_utf16 s" for s
    using wf that by (simp add: P_def plan_json_def wf_jo js_def)
  have "wf_utf16 t" using sha256_text_wf [OF st] by simp
  note wft = wfP [OF this] and wf0 = wfP [of "[]", simplified]
  have "is_obj (P [])" by (simp add: P_def plan_json_def jo_def is_obj_def)
  then have c0: "computeConsumptionPlanDigest (hval_of (P [])) = Inr t"
    using computeConsumptionPlanDigest_json scalar_json_wf [OF wf0] t by blast
  have asm: "assemble_plan
           (ho [(''plan_id'', hval_of a), (''created_at'', hval_of b), (''task'', hval_of c),
                (''asset_ref'', hval_of d), (''projection_profile'', hval_of e), (''budget'', hval_of f),
                (''trace_policy'', hval_of g), (''constraints'', hval_of h)]) = Inr (hval_of (P t))"
    using c0 by (simp add: assemble_plan_def plan_literal_json P_def)
  have ctx: "snapshotContext (ho [(''trustedPlanDigest'', HStr t)]) [''trustedPlanDigest''] =
      Valid (JObj [(u ''trustedPlanDigest'', JStr t)])"
    unfolding snapshotContext_ho by (simp add: snapshot_sha256_text [OF st])
  have td: "t = json_digest.digest (plan_body (jnorm (P t)))"
    using plan_body_digest [of a b c d e f g h "[]" t]
    by (simp add: t P_def json_digest.digest_normal flip: jnorm_body)
  have "path (Some (P t)) [''integrity'', ''plan_digest''] = Inr (Some (JStr t))"
    unfolding P_def by (rule get_plan_digest)
  then have pd: "path (Some (jnorm (P t))) [''integrity'', ''plan_digest''] = Inr (Some (JStr t))"
    using path_jnorm [of "Some (P t)" "[''integrity'', ''plan_digest'']"] wft by simp
  show v: "validateConsumptionPlan E (hval_of (P t)) (ho [(''trustedPlanDigest'', HStr t)]) =
         Inr (Valid (jnorm (P t)))"
    unfolding validateConsumptionPlan_iff
    using ctx st td pd schema snapshot_hval_of [OF wft fits]
    by (intro exI conjI) (auto simp: P_def is_obj_plan)
  have "hpath2 (hval_of (P t)) ''integrity'' ''plan_digest'' = Inr (HStr t)"
    by (simp add: P_def plan_json_def hpath2_def hval_of_jo)
  with asm v show "buildConsumptionPlan E
           (ho [(''plan_id'', hval_of a), (''created_at'', hval_of b), (''task'', hval_of c),
                (''asset_ref'', hval_of d), (''projection_profile'', hval_of e), (''budget'', hval_of f),
                (''trace_policy'', hval_of g), (''constraints'', hval_of h)]) = Inr (hval_of (P t))"
    by (simp add: buildConsumptionPlan_def)
qed

section \<open>Negotiation\<close>

text \<open>
  The result object: \<open>state\<close> selected with the supported versions, or blocked with an issue code.
\<close>

datatype negotiation = Selected | Blocked string

definition is_string_array :: "json option \<Rightarrow> bool" where
  "is_string_array v =
     (case v of Some (JArr xs) \<Rightarrow> (\<forall>x \<in> set xs. case x of JStr _ \<Rightarrow> True | _ \<Rightarrow> False) | _ \<Rightarrow> False)"

text \<open>\<open>if (!r.valid) return blocked(r.code);\<close>\<close>

definition nbind :: "vresult \<Rightarrow> (json \<Rightarrow> exn + negotiation) \<Rightarrow> exn + negotiation" where
  "nbind r f = (case r of Valid v \<Rightarrow> f v | Invalid c m d \<Rightarrow> Inr (Blocked c))"

lemma nbind_Selected_conv [result_simps]:
  "nbind r f = Inr Selected \<longleftrightarrow> (\<exists>v. r = Valid v \<and> f v = Inr Selected)"
  by (cases r) (auto simp: nbind_def)

definition pair_guards :: "json \<Rightarrow> json \<Rightarrow> json \<Rightarrow> ((exn + bool) \<times> string) list" where
  "pair_guards sp sc caps =
     [(negE (allE [includes_path (Some sp) [''projection_request'', ''accepted_capsule_versions''] ''0.1.0'',
                   includes_path (Some sc) [''coreCapsuleVersions''] ''0.1.0'',
                   includes_path (Some caps) [''capsule_versions''] ''0.1.0'']),
       ''KDNA_CAPSULE_CONTRACT_VERSION_UNSUPPORTED''),
      (negE (allE [includes_path (Some sp) [''host_request'', ''accepted_protocols''] ''kdna.agent-host'',
                   includes_path (Some caps) [''host_protocols''] ''kdna.agent-host'']),
       ''KDNA_HOST_PROTOCOL_UNSUPPORTED''),
      (negE (allE [emap (\<lambda>v. is_str v ''registered_descriptor'') (path (Some caps) [''capability_basis'']),
                   includes_path (Some caps) [''capsule_digest_profiles'']
                     ''kdna.canonicalization.runtime-capsule-jcs'']),
       ''KDNA_HOST_CAPSULE_PAIR_UNSUPPORTED'')]"

definition negotiateRuntimePair :: "validators \<Rightarrow> hval \<Rightarrow> hval \<Rightarrow> exn + negotiation" where
  "negotiateRuntimePair E plan context =
     nbind (snapshotContext context [''trustedPlanDigest'', ''capabilities'', ''coreCapsuleVersions'']) (\<lambda>sc.
     ebind (validateConsumptionPlan E plan (plan_context sc)) (\<lambda>r.
     nbind r (\<lambda>sp.
     nbind (validateSchema E ''capabilities'' (hopt (get_opt (Some sc) ''capabilities''))) (\<lambda>caps.
       if \<not> is_string_array (get_opt (Some sc) ''coreCapsuleVersions'')
       then Inr (Blocked ''KDNA_VALIDATION_CONTEXT_INVALID'')
       else emap (\<lambda>code. case code of Some c \<Rightarrow> Blocked c | None \<Rightarrow> Selected)
              (first_code (pair_guards sp sc caps))))))"

lemma pair_guards_None:
  "first_code (pair_guards sp sc caps) = Inr None \<longleftrightarrow>
     includes_path (Some sp) [''projection_request'', ''accepted_capsule_versions''] ''0.1.0'' = Inr True \<and>
     includes_path (Some sc) [''coreCapsuleVersions''] ''0.1.0'' = Inr True \<and>
     includes_path (Some caps) [''capsule_versions''] ''0.1.0'' = Inr True \<and>
     includes_path (Some sp) [''host_request'', ''accepted_protocols''] ''kdna.agent-host'' = Inr True \<and>
     includes_path (Some caps) [''host_protocols''] ''kdna.agent-host'' = Inr True \<and>
     path (Some caps) [''capability_basis''] = Inr (Some (js ''registered_descriptor'')) \<and>
     includes_path (Some caps) [''capsule_digest_profiles'']
       ''kdna.canonicalization.runtime-capsule-jcs'' = Inr True"
  by (auto simp: pair_guards_def guard_simps result_simps js_def)

theorem negotiateRuntimePair_selected:
  "negotiateRuntimePair E plan context = Inr Selected \<longleftrightarrow>
     (\<exists>sc sp caps.
        snapshotContext context [''trustedPlanDigest'', ''capabilities'', ''coreCapsuleVersions''] = Valid sc \<and>
        validateConsumptionPlan E plan (plan_context sc) = Inr (Valid sp) \<and>
        validateSchema E ''capabilities'' (hopt (get_opt (Some sc) ''capabilities'')) = Valid caps \<and>
        is_string_array (get_opt (Some sc) ''coreCapsuleVersions'') \<and>
        includes_path (Some sp) [''projection_request'', ''accepted_capsule_versions''] ''0.1.0'' = Inr True \<and>
        includes_path (Some sc) [''coreCapsuleVersions''] ''0.1.0'' = Inr True \<and>
        includes_path (Some caps) [''capsule_versions''] ''0.1.0'' = Inr True \<and>
        includes_path (Some sp) [''host_request'', ''accepted_protocols''] ''kdna.agent-host'' = Inr True \<and>
        includes_path (Some caps) [''host_protocols''] ''kdna.agent-host'' = Inr True \<and>
        path (Some caps) [''capability_basis''] = Inr (Some (js ''registered_descriptor'')) \<and>
        includes_path (Some caps) [''capsule_digest_profiles'']
          ''kdna.canonicalization.runtime-capsule-jcs'' = Inr True)"
proof -
  have r: "negotiateRuntimePair E plan context = Inr Selected \<longleftrightarrow>
     (\<exists>sc sp caps.
        snapshotContext context [''trustedPlanDigest'', ''capabilities'', ''coreCapsuleVersions''] = Valid sc \<and>
        validateConsumptionPlan E plan (plan_context sc) = Inr (Valid sp) \<and>
        validateSchema E ''capabilities'' (hopt (get_opt (Some sc) ''capabilities'')) = Valid caps \<and>
        is_string_array (get_opt (Some sc) ''coreCapsuleVersions'') \<and>
        first_code (pair_guards sp sc caps) = Inr None)"
    by (auto simp: negotiateRuntimePair_def result_simps split: option.splits)
  show ?thesis unfolding r pair_guards_None by simp
qed

end
