(* ===== verification/HostRequest.thy ===== *)
theory HostRequest
  imports ConsumptionPlan
begin

text \<open>
  Agent Host requests (\<open>expectedAgainst\<close> .. \<open>buildAgentHostRequest\<close> of
  \<open>packages/kdna-core/src/runtime-contract.js\<close>): the correlation of a request with its plan, the
  public validator, and the builder.

  \<open>validateRequestSemantics\<close> is the sequence of guards of the source; \<open>request_correlates\<close> reads
  off what an accepted request satisfies.
\<close>

section \<open>Expected digests\<close>

definition expectedAgainst :: "json option \<Rightarrow> string" where
  "expectedAgainst source =
     (if is_str source ''kdna.json.content_digest'' then ''manifest_declaration''
      else if is_str source ''checksums.json.entry_set_digest'' then ''checksum_declaration''
      else ''external_expected'')"

definition expected_digest_differs :: "json option \<Rightarrow> json option \<Rightarrow> string \<Rightarrow> exn + bool" where
  "expected_digest_differs expectedDigests capsuleDigests name =
     ebind (path expectedDigests [name]) (\<lambda>expected.
       if is_null expected then Inr False
       else ebind (path capsuleDigests [name]) (\<lambda>observed.
         anyE
           [neq_paths observed [''value''] expected [''value''],
            neq_paths observed [''basis''] expected [''basis''],
            neq_paths observed [''comparison'', ''state''] expected [''comparison''],
            ebind (path expected [''comparison'']) (\<lambda>c.
              if is_str c ''matched''
              then anyE [neq_paths observed [''comparison'', ''expected''] expected [''value''],
                         neq_paths observed [''comparison'', ''source''] expected [''source''],
                         ebind (path expected [''source'']) (\<lambda>s.
                           neq_str observed [''comparison'', ''against''] (expectedAgainst s))]
              else anyE [neq_null observed [''comparison'', ''expected''],
                         neq_null observed [''comparison'', ''source''],
                         neq_null observed [''comparison'', ''against'']])]))"

definition validateExpectedDigests :: "json option \<Rightarrow> json option \<Rightarrow> exn + string option" where
  "validateExpectedDigests expectedDigests capsuleDigests =
     first_code (map (\<lambda>name. (expected_digest_differs expectedDigests capsuleDigests name,
                              ''KDNA_HOST_DIGEST_EXPECTATION_MISMATCH''))
                  [''asset'', ''content'', ''runtime_entry_set''])"

section \<open>Correlation of a request with its plan\<close>

definition over_limit :: "json option \<Rightarrow> string list \<Rightarrow> string list \<Rightarrow> exn + bool" where
  "over_limit r p q =
     ebind (path r p) (\<lambda>v. ebind (jcsCharacterCount (hopt v)) (\<lambda>n.
     ebind (path r q) (\<lambda>limit. js_gt (Some (JNum (num_of_nat n))) limit)))"

definition projection_contract_of :: "json \<Rightarrow> exn + hval" where
  "projection_contract_of plan =
     object_of
       [(''profile'', field (Some plan) [''projection_request'', ''profile'']),
        (''required_digest_profile'', field (Some plan) [''projection_request'', ''required_digest_profile'']),
        (''required_digest_profile_version'',
           field (Some plan) [''projection_request'', ''required_digest_profile_version'']),
        (''require_packaged_asset'', field (Some plan) [''projection_request'', ''require_packaged_asset''])]"

definition request_guards :: "json \<Rightarrow> json \<Rightarrow> bool \<Rightarrow> ((exn + bool) \<times> string) list" where
  "request_guards request plan enforceBudget =
     (let r = Some request; p = Some plan in
      [(anyE [neq_paths r [''plan_ref'', ''plan_id''] p [''plan_id''],
              neq_paths r [''plan_ref'', ''plan_digest_profile''] p [''integrity'', ''profile''],
              neq_paths r [''plan_ref'', ''plan_digest_profile_version''] p [''integrity'', ''profile_version''],
              neq_paths r [''plan_ref'', ''plan_digest''] p [''integrity'', ''plan_digest''],
              ebind (computeConsumptionPlanDigest (hval_of plan)) (\<lambda>d.
                neq_jstr p [''integrity'', ''plan_digest''] d)],
        ''KDNA_HOST_PLAN_REF_MISMATCH''),
       (differs r [''task''] p [''task''], ''KDNA_HOST_TASK_MISMATCH''),
       (neq_paths r [''authority'', ''asset_id''] p [''asset_ref'', ''asset_id''],
        ''KDNA_HOST_ASSET_ID_MISMATCH''),
       (ebind (path p [''asset_ref'']) (\<lambda>a.
          differs_from r [''asset''] (hval_of (with_member a ''role'' (js ''primary'')))),
        ''KDNA_HOST_ASSET_REF_MISMATCH''),
       (anyE (map (\<lambda>f. neq_paths r [''capsule'', ''asset'', f] p [''asset_ref'', f])
                [''asset_id'', ''asset_uid'', ''version'', ''judgment_version'']),
        ''KDNA_HOST_ASSET_REF_MISMATCH''),
       (neq_paths r [''capsule'', ''access''] p [''asset_ref'', ''access''], ''KDNA_HOST_ASSET_REF_MISMATCH''),
       (anyE [neq_paths r [''runtime_contract'', ''capsule_version''] r [''capsule'', ''contract_version''],
              neq_str r [''capsule'', ''contract_version''] ''0.1.0''],
        ''KDNA_HOST_CAPSULE_CONTRACT_VERSION_MISMATCH''),
       (anyE [neq_str r [''runtime_contract'', ''capsule_digest_profile'']
                ''kdna.canonicalization.runtime-capsule-jcs'',
              neq_str r [''runtime_contract'', ''capsule_digest_profile_version''] ''0.1.0'',
              neq_paths r [''capsule'', ''digests'', ''profile'']
                p [''projection_request'', ''required_digest_profile''],
              neq_paths r [''capsule'', ''digests'', ''profile_version'']
                p [''projection_request'', ''required_digest_profile_version'']],
        ''KDNA_HOST_PROJECTION_CONTRACT_MISMATCH''),
       (ebind (projection_contract_of plan) (\<lambda>expected.
          anyE [differs_from r [''projection_contract''] expected,
                neq_paths r [''capsule'', ''profile''] r [''projection_contract'', ''profile'']]),
        ''KDNA_HOST_PROJECTION_CONTRACT_MISMATCH''),
       (differs r [''result_contract''] p [''result_request''], ''KDNA_HOST_RESULT_CONTRACT_MISMATCH''),
       (differs r [''budget''] p [''budget''], ''KDNA_HOST_BUDGET_MISMATCH''),
       (differs r [''constraints''] p [''constraints''], ''KDNA_HOST_CONSTRAINTS_MISMATCH''),
       (if enforceBudget
        then anyE [over_limit r [''capsule''] [''budget'', ''max_projection_chars''],
                   over_limit r [''task''] [''budget'', ''max_task_chars'']]
        else Inr False,
        ''KDNA_HOST_BUDGET_LIMIT_EXCEEDED'')])"

definition validateRequestSemantics :: "json \<Rightarrow> json \<Rightarrow> bool \<Rightarrow> exn + string option" where
  "validateRequestSemantics request plan enforceBudget =
     or_code (first_code (request_guards request plan enforceBudget))
    (or_code (ebind (path (Some plan) [''asset_ref'', ''expected_digests'']) (\<lambda>expected.
              ebind (path (Some request) [''capsule'', ''digests'']) (\<lambda>digests.
                validateExpectedDigests expected digests)))
       (first_code
          [(ebind (path (Some request) [''capsule'']) (\<lambda>c.
            ebind (computeCapsuleDeliveryDigest (hopt c)) (\<lambda>d.
              neq_jstr (Some request) [''runtime_contract'', ''capsule_delivery_digest''] d)),
            ''KDNA_CAPSULE_DELIVERY_DIGEST_MISMATCH'')]))"

section \<open>The public validator\<close>

definition request_context_keys :: "string list" where
  "request_context_keys = [''plan'', ''trustedPlanDigest'', ''capabilities'', ''coreCapsuleVersions'']"

text \<open>\<open>try { .. } catch (error) { return invalid('KDNA_INPUT_INVALID', message, { cause }) }\<close>\<close>

definition guarded :: "string \<Rightarrow> exn + vresult \<Rightarrow> exn + vresult" where
  "guarded m r = try_catch r (\<lambda>e. Inr (Invalid ''KDNA_INPUT_INVALID'' (u m) (cause_details e)))"

definition validateAgentHostRequest :: "validators \<Rightarrow> hval \<Rightarrow> hval \<Rightarrow> exn + vresult" where
  "validateAgentHostRequest E request context =
     vbind (snapshotContext context request_context_keys) (\<lambda>sc.
     vbind (validateSchema E ''request'' request) (\<lambda>safeRequest.
     ebind (validateConsumptionPlan E (hopt (get_opt (Some sc) ''plan'')) (plan_context sc)) (\<lambda>planResult.
     vbind planResult (\<lambda>safePlan.
     ebind (negotiateRuntimePair E (hval_of safePlan) (hval_of sc)) (\<lambda>negotiation.
     case negotiation of
       Blocked c \<Rightarrow> Inr (invalid c ''No strict ConsumptionPlan / Agent Host pair was selected.'')
     | Selected \<Rightarrow>
         guarded ''Agent Host request is not a safe JSON value.''
           (emap (\<lambda>code. code_result code ''Agent Host request correlation failed.'' safeRequest)
             (validateRequestSemantics safeRequest safePlan True)))))))"

section \<open>The builder\<close>

definition assembleAgentHostRequest :: "json \<Rightarrow> json \<Rightarrow> exn + hval" where
  "assembleAgentHostRequest input plan =
     object_of
       [(''protocol'', Inr (HStr (u ''kdna.agent-host''))),
        (''protocol_version'', Inr (HStr (u ''0.1.0''))),
        (''request_id'', field (Some input) [''request_id'']),
        (''plan_ref'',
           object_of
             [(''plan_id'', field (Some plan) [''plan_id'']),
              (''plan_digest_profile'', field (Some plan) [''integrity'', ''profile'']),
              (''plan_digest_profile_version'', field (Some plan) [''integrity'', ''profile_version'']),
              (''plan_digest'', field (Some plan) [''integrity'', ''plan_digest''])]),
        (''runtime_contract'',
           object_of
             [(''capsule_version'', Inr (HStr (u ''0.1.0''))),
              (''capsule_digest_profile'', Inr (HStr (u ''kdna.canonicalization.runtime-capsule-jcs''))),
              (''capsule_digest_profile_version'', Inr (HStr (u ''0.1.0''))),
              (''capsule_delivery_digest'',
                 ebind (path (Some input) [''capsule'']) (\<lambda>c. emap HStr (computeCapsuleDeliveryDigest (hopt c))))]),
        (''projection_contract'', projection_contract_of plan),
        (''result_contract'', field (Some plan) [''result_request'']),
        (''budget'', field (Some plan) [''budget'']),
        (''constraints'', field (Some plan) [''constraints'']),
        (''phase'', Inr (HStr (u ''single_judgment''))),
        (''task'', field (Some plan) [''task'']),
        (''authority'',
           object_of
             [(''asset_id'', field (Some plan) [''asset_ref'', ''asset_id'']),
              (''role'', Inr (HStr (u ''primary''))),
              (''final_decision'', Inr (HBool True))]),
        (''asset'',
           emap (\<lambda>a. hval_of (with_member a ''role'' (js ''primary''))) (path (Some plan) [''asset_ref''])),
        (''capsule'', field (Some input) [''capsule''])]"

definition buildAgentHostRequest :: "validators \<Rightarrow> hval \<Rightarrow> hval \<Rightarrow> exn + hval" where
  "buildAgentHostRequest E input context =
     ebind (throwInvalid (snapshotContext context request_context_keys)) (\<lambda>sc.
     ebind (throwInvalid (snapshotPublicInput input [''request_id'', ''capsule''] [])) (\<lambda>safeInput.
     ebind (validateConsumptionPlan E (hopt (get_opt (Some sc) ''plan'')) (plan_context sc)) (\<lambda>planResult.
     ebind (throwInvalid planResult) (\<lambda>plan.
     ebind (negotiateRuntimePair E (hval_of plan) (hval_of sc)) (\<lambda>negotiation.
     case negotiation of
       Blocked c \<Rightarrow> Inl (ContractError c
         (u ''Cannot build Agent Host request without a selected strict execution pair.'') None)
     | Selected \<Rightarrow>
         ebind (try_catch (assembleAgentHostRequest safeInput plan) (\<lambda>_.
                  Inl (ContractError ''KDNA_HOST_REQUEST_INPUT_INVALID''
                        (u ''Cannot build Agent Host request from the supplied input.'') None))) (\<lambda>request.
         ebind (validateAgentHostRequest E request (hval_of (with_member (Some sc) ''plan'' plan))) (\<lambda>result.
         ebind (throwInvalid result) (\<lambda>_. Inr request))))))))"

section \<open>What an accepted request satisfies\<close>

lemma validateRequestSemantics_None:
  "validateRequestSemantics r p enforce = Inr None \<longleftrightarrow>
     first_code (request_guards r p enforce) = Inr None \<and>
     (\<exists>expected digests. path (Some p) [''asset_ref'', ''expected_digests''] = Inr expected \<and>
        path (Some r) [''capsule'', ''digests''] = Inr digests \<and>
        validateExpectedDigests expected digests = Inr None) \<and>
     (\<exists>c d. path (Some r) [''capsule''] = Inr c \<and> computeCapsuleDeliveryDigest (hopt c) = Inr d \<and>
        path (Some r) [''runtime_contract'', ''capsule_delivery_digest''] = Inr (Some (JStr d)))"
  by (auto simp: validateRequestSemantics_def result_simps guard_simps split: option.splits)

lemma validateRequestSemantics_enforce:
  "validateRequestSemantics r p True = Inr None \<Longrightarrow> validateRequestSemantics r p False = Inr None"
  by (auto simp: validateRequestSemantics_None request_guards_def Let_def guard_simps)

lemma path_wf:
  "wf_json j \<Longrightarrow> ''length'' \<notin> set ks \<Longrightarrow> path (Some j) ks = Inr (Some w) \<Longrightarrow> wf_json w"
proof (induction ks arbitrary: j)
  case Nil
  then show ?case by (simp add: path.simps)
next
  case (Cons k ks)
  then obtain x where x: "get_prop (Some j) k = Inr x" "path x ks = Inr (Some w)"
    by (auto simp: path.simps result_simps)
  show ?case
  proof (cases x)
    case None
    then show ?thesis using x by (cases ks) (auto simp: path.simps get_prop_def)
  next
    case (Some y)
    with get_prop_wf [of j k y] Cons x have "wf_json y" by auto
    then show ?thesis using Cons x Some by auto
  qed
qed

lemma path_one: "path (Some (JObj ps)) [k] = Inr (map_of ps (u k))"
  by (simp add: path.simps)

lemma capsule_digest_of:
  assumes "wf_json r" "validateRequestSemantics r p enforce = Inr None"
  obtains c where "path (Some r) [''capsule''] = Inr (Some c)" "wf_json c"
    "path (Some r) [''runtime_contract'', ''capsule_delivery_digest''] = Inr (Some (JStr (json_digest.digest c)))"
proof -
  obtain x d where x: "path (Some r) [''capsule''] = Inr x" "computeCapsuleDeliveryDigest (hopt x) = Inr d"
    "path (Some r) [''runtime_contract'', ''capsule_delivery_digest''] = Inr (Some (JStr d))"
    using assms(2) unfolding validateRequestSemantics_None by blast
  obtain c where c: "x = Some c"
    using x(2) by (cases x) (auto simp: hopt_def computeCapsuleDeliveryDigest_def canonicalizeJcs_def)
  have w: "wf_json c" using path_wf [OF assms(1) _ x(1) [unfolded c]] by simp
  then have "d = json_digest.digest c"
    using x(2) c computeCapsuleDeliveryDigest_hval_of [OF scalar_json_wf [OF w]] by (simp add: hopt_def)
  with x c w that show thesis by simp
qed

lemma request_plan_digest:
  assumes "validateRequestSemantics r p enforce = Inr None" "wf_json p"
  shows "is_obj p \<and> path (Some r) [''plan_ref'', ''plan_digest''] = Inr (Some (JStr (json_digest.digest (plan_body p))))"
proof -
  have g: "neq_paths (Some r) [''plan_ref'', ''plan_digest''] (Some p) [''integrity'', ''plan_digest''] = Inr False"
    "ebind (computeConsumptionPlanDigest (hval_of p)) (\<lambda>d. neq_jstr (Some p) [''integrity'', ''plan_digest''] d) = Inr False"
    using assms(1) by (simp_all add: validateRequestSemantics_None request_guards_def Let_def guard_simps)
  from g(2) obtain d where d: "computeConsumptionPlanDigest (hval_of p) = Inr d"
    "path (Some p) [''integrity'', ''plan_digest''] = Inr (Some (JStr d))"
    by (auto simp: result_simps guard_simps)
  have o: "is_obj p" using computeConsumptionPlanDigest_not_obj [of p] d(1) by auto
  with d(1) computeConsumptionPlanDigest_json [OF scalar_json_wf [OF assms(2)] o]
  have "d = json_digest.digest (plan_body p)" by simp
  with neq_paths_StrD [OF g(1) d(2)] o show ?thesis by simp
qed

lemma request_within_budget:
  assumes "validateRequestSemantics r p True = Inr None" "wf_json r"
    and "path (Some r) [''capsule''] = Inr (Some c)"
    and "path (Some r) [''budget'', ''max_projection_chars''] = Inr (Some (JNum limit))"
  shows "\<not> num_lt limit (num_of_nat (length (code_points (canon c))))"
proof -
  have "over_limit (Some r) [''capsule''] [''budget'', ''max_projection_chars''] = Inr False"
    using assms(1) by (simp add: validateRequestSemantics_None request_guards_def Let_def guard_simps)
  moreover have "wf_json c" using path_wf [OF assms(2) _ assms(3)] by simp
  ultimately show ?thesis
    by (simp add: over_limit_def assms(3,4) hopt_def jcsCharacterCount_hval_of scalar_json_wf)
qed

section \<open>What a request takes over from its plan\<close>

text \<open>
  The parts of a request that must be the same JSON value as in its plan (up to the order of the
  members), and the strings that must be equal; each pair is a path in the request and one in the plan.
\<close>

definition shared_values :: "(string list \<times> string list) list" where
  "shared_values =
     [([''task''], [''task'']), ([''budget''], [''budget'']), ([''constraints''], [''constraints'']),
      ([''result_contract''], [''result_request''])]"

definition shared_texts :: "(string list \<times> string list) list" where
  "shared_texts =
     [([''plan_ref'', ''plan_id''], [''plan_id'']),
      ([''authority'', ''asset_id''], [''asset_ref'', ''asset_id'']),
      ([''capsule'', ''asset'', ''asset_id''], [''asset_ref'', ''asset_id'']),
      ([''capsule'', ''asset'', ''asset_uid''], [''asset_ref'', ''asset_uid'']),
      ([''capsule'', ''asset'', ''version''], [''asset_ref'', ''version'']),
      ([''capsule'', ''asset'', ''judgment_version''], [''asset_ref'', ''judgment_version'']),
      ([''capsule'', ''access''], [''asset_ref'', ''access'']),
      ([''capsule'', ''profile''], [''projection_request'', ''profile'']),
      ([''capsule'', ''digests'', ''profile''], [''projection_request'', ''required_digest_profile'']),
      ([''capsule'', ''digests'', ''profile_version''],
       [''projection_request'', ''required_digest_profile_version''])]"

lemma differs_wf:
  assumes "differs (Some r) ks (Some p) qs = Inr False" "wf_json r" "wf_json p"
    and "''length'' \<notin> set ks" "''length'' \<notin> set qs"
  shows "\<exists>a b. path (Some r) ks = Inr (Some a) \<and> path (Some p) qs = Inr (Some b) \<and> jnorm a = jnorm b"
proof -
  obtain x y where h: "path (Some r) ks = Inr x" "path (Some p) qs = Inr y" "equalJson (hopt x) (hopt y)"
    using assms(1) unfolding differs_False_iff by blast
  have "\<exists>a b. x = Some a \<and> y = Some b \<and> jnorm a = jnorm b"
    using h(3) by (subst (asm) equalJson_hopt)
      (use path_wf [OF assms(2,4)] path_wf [OF assms(3,5)] h(1,2) in \<open>blast+\<close>)
  then show ?thesis using h by blast
qed

lemma request_shared_values:
  assumes "validateRequestSemantics r p enforce = Inr None" "wf_json r" "wf_json p"
    and "(k, q) \<in> set shared_values"
  shows "\<exists>a b. path (Some r) k = Inr (Some a) \<and> path (Some p) q = Inr (Some b) \<and> jnorm a = jnorm b"
proof (rule differs_wf [OF _ assms(2,3)])
  have "differs (Some r) [''task''] (Some p) [''task''] = Inr False"
    "differs (Some r) [''result_contract''] (Some p) [''result_request''] = Inr False"
    "differs (Some r) [''budget''] (Some p) [''budget''] = Inr False"
    "differs (Some r) [''constraints''] (Some p) [''constraints''] = Inr False"
    using assms(1) by (simp_all add: validateRequestSemantics_None request_guards_def Let_def guard_simps)
  then show "differs (Some r) k (Some p) q = Inr False"
    using assms(4) by (auto simp: shared_values_def simp del: differs_False_iff)
qed (use assms(4) in \<open>auto simp: shared_values_def\<close>)

lemma jnorm_text: "jnorm v = JStr s \<longleftrightarrow> v = JStr s"
  by (cases v) auto

lemma request_profile:
  assumes "validateRequestSemantics r p enforce = Inr None" "wf_json r" "wf_json p"
    and "path (Some p) [''projection_request'', ''profile''] = Inr (Some (JStr s))"
  shows "path (Some r) [''capsule'', ''profile''] = Inr (Some (JStr s))"
proof -
  obtain e x where e: "projection_contract_of p = Inr e" "path (Some r) [''projection_contract''] = Inr x"
    "equalJson (hopt x) e"
    and n: "neq_paths (Some r) [''capsule'', ''profile''] (Some r) [''projection_contract'', ''profile''] = Inr False"
    using assms(1) by (auto simp: validateRequestSemantics_None request_guards_def Let_def guard_simps result_simps)
  obtain b c d where f: "path (Some p) [''projection_request'', ''required_digest_profile''] = Inr b"
    "path (Some p) [''projection_request'', ''required_digest_profile_version''] = Inr c"
    "path (Some p) [''projection_request'', ''require_packaged_asset''] = Inr d"
    and ee: "e = ho [(''profile'', HStr s), (''required_digest_profile'', hopt b),
      (''required_digest_profile_version'', hopt c), (''require_packaged_asset'', hopt d)]"
    using e(1) assms(4) by (auto simp: projection_contract_of_def object_of_def field_def result_simps hopt_def)
  obtain t where t: "canonicalizeJcs e = Inr t" using e(3) by (auto simp: equalJson_def split: sum.splits)
  obtain j where "plain_view e = Some j" using t unfolding canonicalizeJcs_success by blast
  then have "b \<noteq> None \<and> c \<noteq> None \<and> d \<noteq> None"
    by (auto simp: ee ho_def hopt_def split: option.splits)
  then obtain b' c' d' where bcd: "b = Some b'" "c = Some c'" "d = Some d'" by blast
  define q where "q = jo [(''profile'', JStr s), (''required_digest_profile'', b'),
      (''required_digest_profile_version'', c'), (''require_packaged_asset'', d')]"
  have w: "wf_json (JStr s)" "wf_json b'" "wf_json c'" "wf_json d'"
    using path_wf [OF assms(3) _ assms(4)] path_wf [OF assms(3) _ f(1) [unfolded bcd]]
      path_wf [OF assms(3) _ f(2) [unfolded bcd]] path_wf [OF assms(3) _ f(3) [unfolded bcd]] by simp_all
  then have wq: "wf_json q" by (simp add: q_def wf_jo)
  have "e = hopt (Some q)" by (simp add: ee q_def hval_of_jo hopt_def bcd)
  with e(3) path_wf [OF assms(2) _ e(2)[THEN trans]] wq
  obtain a where a: "x = Some a" "jnorm a = jnorm q"
    using equalJson_hopt [of x "Some q"] path_wf [OF assms(2) _ e(2) [THEN trans]] by auto
  have wa: "wf_json a" using path_wf [OF assms(2) _ e(2) [unfolded a]] by simp
  have "emap (map_option jnorm) (get_prop (Some a) ''profile'') = emap (map_option jnorm) (get_prop (Some q) ''profile'')"
    using get_prop_jnorm [OF wa, of "''profile''"] get_prop_jnorm [OF wq, of "''profile''"] a(2) by simp
  then have "get_prop (Some a) ''profile'' = Inr (Some (JStr s))"
    by (cases "get_prop (Some a) ''profile''") (auto simp: q_def jo_def jnorm_text)
  then have "path (Some r) [''projection_contract'', ''profile''] = Inr (Some (JStr s))"
    using e(2) a(1) by (auto simp: path.simps result_simps)
  with n show ?thesis by (rule neq_paths_StrD)
qed

lemma request_shared_texts:
  assumes "validateRequestSemantics r p enforce = Inr None" "wf_json r" "wf_json p"
    and "(k, q) \<in> set shared_texts" "path (Some p) q = Inr (Some (JStr s))"
  shows "path (Some r) k = Inr (Some (JStr s))"
proof (cases "q = [''projection_request'', ''profile'']")
  case True
  then show ?thesis using assms request_profile by (auto simp: shared_texts_def)
next
  case False
  have g: "neq_paths (Some r) [''plan_ref'', ''plan_id''] (Some p) [''plan_id''] = Inr False"
    "neq_paths (Some r) [''authority'', ''asset_id''] (Some p) [''asset_ref'', ''asset_id''] = Inr False"
    "neq_paths (Some r) [''capsule'', ''asset'', ''asset_id''] (Some p) [''asset_ref'', ''asset_id''] = Inr False"
    "neq_paths (Some r) [''capsule'', ''asset'', ''asset_uid''] (Some p) [''asset_ref'', ''asset_uid''] = Inr False"
    "neq_paths (Some r) [''capsule'', ''asset'', ''version''] (Some p) [''asset_ref'', ''version''] = Inr False"
    "neq_paths (Some r) [''capsule'', ''asset'', ''judgment_version''] (Some p) [''asset_ref'', ''judgment_version''] = Inr False"
    "neq_paths (Some r) [''capsule'', ''access''] (Some p) [''asset_ref'', ''access''] = Inr False"
    "neq_paths (Some r) [''capsule'', ''digests'', ''profile'']
       (Some p) [''projection_request'', ''required_digest_profile''] = Inr False"
    "neq_paths (Some r) [''capsule'', ''digests'', ''profile_version'']
       (Some p) [''projection_request'', ''required_digest_profile_version''] = Inr False"
    using assms(1) by (simp_all add: validateRequestSemantics_None request_guards_def Let_def guard_simps)
  have "\<forall>(k, q) \<in> set shared_texts. q \<noteq> [''projection_request'', ''profile''] \<longrightarrow>
          neq_paths (Some r) k (Some p) q = Inr False"
    by (simp add: shared_texts_def g del: neq_paths_False_iff)
  with assms(4) False have "neq_paths (Some r) k (Some p) q = Inr False" by fast
  then show ?thesis using assms(5) by (rule neq_paths_StrD)
qed

text \<open>A digest the plan expects is the one the capsule of the request reports.\<close>

lemma request_expected_digest:
  assumes "validateRequestSemantics r p enforce = Inr None"
    and "name \<in> {''asset'', ''content'', ''runtime_entry_set''}"
    and "path (Some p) [''asset_ref'', ''expected_digests'', name, ''value''] = Inr (Some (JStr d))"
  shows "path (Some r) [''capsule'', ''digests'', name, ''value''] = Inr (Some (JStr d))"
proof -
  obtain expected digests where h: "path (Some p) [''asset_ref'', ''expected_digests''] = Inr expected"
    "path (Some r) [''capsule'', ''digests''] = Inr digests" "validateExpectedDigests expected digests = Inr None"
    using assms(1) unfolding validateRequestSemantics_None by blast
  have g: "expected_digest_differs expected digests name = Inr False"
    using h(3) assms(2) by (auto simp: validateExpectedDigests_def guard_simps)
  have pe: "path expected [name, ''value''] = Inr (Some (JStr d))"
    using assms(3) path_append [of "Some p" "[''asset_ref'', ''expected_digests'']" "[name, ''value'']"] h(1) by simp
  then obtain e where e: "path expected [name] = Inr e" "path e [''value''] = Inr (Some (JStr d))"
    using path_append [of expected "[name]" "[''value'']"] by (cases "path expected [name]") auto
  have "\<not> is_null e" using e(2) by (auto simp: is_null_def path.simps get_prop_def)
  then obtain ob where ob: "path digests [name] = Inr ob" "neq_paths ob [''value''] e [''value''] = Inr False"
    using g e(1) by (auto simp: expected_digest_differs_def guard_simps result_simps)
  have "path digests [name, ''value''] = Inr (Some (JStr d))"
    using path_append [of digests "[name]" "[''value'']"] ob neq_paths_StrD [OF ob(2) e(2)] by simp
  then show ?thesis
    using path_append [of "Some r" "[''capsule'', ''digests'']" "[name, ''value'']"] h(2) by simp
qed

section \<open>The accepted requests of the public validator\<close>

lemma validateAgentHostRequest_Valid:
  "validateAgentHostRequest E request context = Inr (Valid r) \<longleftrightarrow>
     (\<exists>sc p. snapshotContext context request_context_keys = Valid sc \<and>
        validateSchema E ''request'' request = Valid r \<and>
        validateConsumptionPlan E (hopt (get_opt (Some sc) ''plan'')) (plan_context sc) = Inr (Valid p) \<and>
        negotiateRuntimePair E (hval_of p) (hval_of sc) = Inr Selected \<and>
        validateRequestSemantics r p True = Inr None)"
proof
  assume "validateAgentHostRequest E request context = Inr (Valid r)"
  then obtain sc sr p n where h: "snapshotContext context request_context_keys = Valid sc"
    "validateSchema E ''request'' request = Valid sr"
    "validateConsumptionPlan E (hopt (get_opt (Some sc) ''plan'')) (plan_context sc) = Inr (Valid p)"
    "negotiateRuntimePair E (hval_of p) (hval_of sc) = Inr n"
    and g: "(case n of
       Blocked c \<Rightarrow> Inr (invalid c ''No strict ConsumptionPlan / Agent Host pair was selected.'')
     | Selected \<Rightarrow>
         guarded ''Agent Host request is not a safe JSON value.''
           (emap (\<lambda>code. code_result code ''Agent Host request correlation failed.'' sr)
             (validateRequestSemantics sr p True))) = Inr (Valid r)"
    by (auto simp: validateAgentHostRequest_def result_simps)
  show "\<exists>sc p. snapshotContext context request_context_keys = Valid sc \<and>
        validateSchema E ''request'' request = Valid r \<and>
        validateConsumptionPlan E (hopt (get_opt (Some sc) ''plan'')) (plan_context sc) = Inr (Valid p) \<and>
        negotiateRuntimePair E (hval_of p) (hval_of sc) = Inr Selected \<and>
        validateRequestSemantics r p True = Inr None"
  proof (cases n)
    case Selected
    with g h show ?thesis
      by (cases "validateRequestSemantics sr p True") (auto simp: guarded_def)
  next
    case (Blocked c)
    with g show ?thesis by (simp add: invalid_def)
  qed
next
  assume "\<exists>sc p. snapshotContext context request_context_keys = Valid sc \<and>
        validateSchema E ''request'' request = Valid r \<and>
        validateConsumptionPlan E (hopt (get_opt (Some sc) ''plan'')) (plan_context sc) = Inr (Valid p) \<and>
        negotiateRuntimePair E (hval_of p) (hval_of sc) = Inr Selected \<and>
        validateRequestSemantics r p True = Inr None"
  then show "validateAgentHostRequest E request context = Inr (Valid r)"
    by (auto simp: validateAgentHostRequest_def guarded_def code_result_def ok_def)
qed

theorem accepted_request:
  assumes "validateAgentHostRequest E request context = Inr (Valid r)"
  obtains sc p c where
    "snapshotContext context request_context_keys = Valid sc"
    "validateConsumptionPlan E (hopt (get_opt (Some sc) ''plan'')) (plan_context sc) = Inr (Valid p)"
    "E ''request'' r = None" "E ''plan'' p = None"
    "negotiateRuntimePair E (hval_of p) (hval_of sc) = Inr Selected"
    "path (Some r) [''plan_ref'', ''plan_digest''] = Inr (Some (JStr (json_digest.digest (plan_body p))))"
    "path (Some r) [''capsule''] = Inr (Some c)"
    "path (Some r) [''runtime_contract'', ''capsule_delivery_digest''] = Inr (Some (JStr (json_digest.digest c)))"
proof -
  obtain sc p where h: "snapshotContext context request_context_keys = Valid sc"
    "validateSchema E ''request'' request = Valid r"
    "validateConsumptionPlan E (hopt (get_opt (Some sc) ''plan'')) (plan_context sc) = Inr (Valid p)"
    "negotiateRuntimePair E (hval_of p) (hval_of sc) = Inr Selected"
    "validateRequestSemantics r p True = Inr None"
    using assms unfolding validateAgentHostRequest_Valid by blast
  have wr: "wf_json r" "E ''request'' r = None" using validateSchema_wf [OF h(2)] by auto
  have wp: "wf_json p" "E ''plan'' p = None"
    using h(3) snapshot_wf unfolding validateConsumptionPlan_iff by blast+
  obtain c where c: "path (Some r) [''capsule''] = Inr (Some c)"
    "path (Some r) [''runtime_contract'', ''capsule_delivery_digest''] = Inr (Some (JStr (json_digest.digest c)))"
    using capsule_digest_of [OF wr(1) h(5)] by metis
  show thesis
    by (rule that [OF h(1,3) wr(2) wp(2) h(4) _ c]) (use request_plan_digest [OF h(5) wp(1)] in blast)
qed

end
