(* ===== verification/HostReceipt.thy ===== *)
theory HostReceipt
  imports HostRequest
begin

text \<open>
  Agent Host receipts (\<open>validateReceiptSemantics\<close> and \<open>validateAgentHostReceipt\<close> of
  \<open>packages/kdna-core/src/runtime-contract.js\<close>).

  A receipt either proves delivery (the host recomputed the digest of exactly the capsule that was
  sent, and something was executed) or proves a mismatch (the host saw another digest, nothing was
  executed and there is no outcome): \<open>receipt_dichotomy\<close>.
\<close>

section \<open>Correlation of a receipt with its request\<close>

definition delivery_differs :: "json option \<Rightarrow> json option \<Rightarrow> json option \<Rightarrow> jstring \<Rightarrow> exn + bool" where
  "delivery_differs receipt runtimeReceipt senderP recomputedP =
     ebind (path runtimeReceipt [''capsule_delivery_comparison'']) (\<lambda>cmp.
       if is_str cmp ''mismatched''
       then anyE [negE (neq_val runtimeReceipt [''host_recomputed_capsule_delivery_digest''] senderP),
                  neq_str runtimeReceipt [''provider_execution_status''] ''not_started'',
                  neq_null receipt [''outcome'']]
       else anyE [Inr (\<not> is_str cmp ''matched''),
                  negE (neq_str runtimeReceipt [''provider_execution_status''] ''not_started''),
                  Inr (\<not> strict_eq senderP (Some (JStr recomputedP))),
                  neq_val runtimeReceipt [''host_recomputed_capsule_delivery_digest''] senderP,
                  neq_jstr runtimeReceipt [''host_recomputed_capsule_delivery_digest''] recomputedP])"

definition usage_differs :: "json option \<Rightarrow> json option \<Rightarrow> exn + bool" where
  "usage_differs receipt runtimeReceipt =
     ebind (path receipt [''outcome'']) (\<lambda>outcome.
     let outcomeUsage = coalesce (get_opt outcome ''usage'') JNull in
     ebind (path runtimeReceipt [''usage'']) (\<lambda>observed.
       if is_null outcome then Inr False
       else if outcomeUsage = JNull
       then anyE [neq_str observed [''basis''] ''not_observed'',
                  neq_null observed [''tokens_used''],
                  neq_null observed [''model_calls'']]
       else anyE [neq_str observed [''basis''] ''host_reported'',
                  neq_paths observed [''tokens_used''] (Some outcomeUsage) [''tokens_used''],
                  neq_paths observed [''model_calls''] (Some outcomeUsage) [''model_calls'']]))"

definition validateReceiptSemantics :: "json \<Rightarrow> json \<Rightarrow> exn + string option" where
  "validateReceiptSemantics receipt request =
     (let c = Some receipt; r = Some request in
      or_code
       (first_code
          [(anyE [neq_paths c [''protocol''] r [''protocol''],
                  neq_paths c [''protocol_version''] r [''protocol_version''],
                  neq_paths c [''request_id''] r [''request_id'']],
            ''KDNA_HOST_REQUEST_ID_MISMATCH'')])
       (ebind (path c [''runtime_receipt'']) (\<lambda>runtimeReceipt.
        ebind (path r [''runtime_contract'', ''capsule_delivery_digest'']) (\<lambda>senderP.
        ebind (path r [''capsule'']) (\<lambda>capsule.
        ebind (computeCapsuleDeliveryDigest (hopt capsule)) (\<lambda>recomputedP.
        first_code
          [(anyE [neq_val runtimeReceipt [''sender_capsule_delivery_digest''] senderP,
                  neq_paths runtimeReceipt [''echoed_capsule_delivery_digest'']
                    runtimeReceipt [''host_recomputed_capsule_delivery_digest'']],
            ''KDNA_HOST_CAPSULE_DELIVERY_DIGEST_MISMATCH''),
           (delivery_differs c runtimeReceipt senderP recomputedP,
            ''KDNA_HOST_CAPSULE_DELIVERY_DIGEST_MISMATCH''),
           (anyE [neq_paths runtimeReceipt [''capsule_version''] r [''runtime_contract'', ''capsule_version''],
                  neq_paths runtimeReceipt [''capsule_digest_profile'']
                    r [''runtime_contract'', ''capsule_digest_profile'']],
            ''KDNA_HOST_CAPSULE_CONTRACT_VERSION_MISMATCH''),
           (usage_differs c runtimeReceipt, ''KDNA_HOST_USAGE_MISMATCH'')]))))))"

section \<open>The public validator\<close>

definition validateAgentHostReceipt :: "validators \<Rightarrow> hval \<Rightarrow> hval \<Rightarrow> exn + vresult" where
  "validateAgentHostReceipt E receipt context =
     vbind (snapshotContext context [''request'']) (\<lambda>sc.
     vbind (validateSchema E ''receipt'' receipt) (\<lambda>safeReceipt.
     vbind_as (validateSchema E ''request'' (hopt (get_opt (Some sc) ''request'')))
       ''Receipt validation requires a schema-valid independent Agent Host request.'' (\<lambda>safeRequest.
         guarded ''Agent Host receipt is not a safe JSON value.''
           (emap (\<lambda>code. code_result code ''Agent Host receipt correlation failed.'' safeReceipt)
             (validateReceiptSemantics safeReceipt safeRequest)))))"

section \<open>What an accepted receipt proves\<close>

lemma guarded_Valid [result_simps]:
  "guarded m (emap (\<lambda>code. code_result code m' v) r) = Inr (Valid w) \<longleftrightarrow> r = Inr None \<and> w = v"
  by (cases r) (auto simp: guarded_def)

lemma validateAgentHostReceipt_Valid:
  "validateAgentHostReceipt E receipt context = Inr (Valid c) \<longleftrightarrow>
     (\<exists>sc r. snapshotContext context [''request''] = Valid sc \<and>
        validateSchema E ''receipt'' receipt = Valid c \<and>
        validateSchema E ''request'' (hopt (get_opt (Some sc) ''request'')) = Valid r \<and>
        validateReceiptSemantics c r = Inr None)"
  by (auto simp: validateAgentHostReceipt_def result_simps)

lemma receipt_parts:
  assumes "validateReceiptSemantics c r = Inr None" "wf_json r"
  obtains rr capsule cmp where
    "path (Some c) [''runtime_receipt''] = Inr rr"
    "path (Some r) [''capsule''] = Inr (Some capsule)" "wf_json capsule"
    "path rr [''capsule_delivery_comparison''] = Inr cmp"
    "delivery_differs (Some c) rr (projr (path (Some r) [''runtime_contract'', ''capsule_delivery_digest'']))
       (json_digest.digest capsule) = Inr False"
    "path (Some r) [''runtime_contract'', ''capsule_delivery_digest''] =
       Inr (projr (path (Some r) [''runtime_contract'', ''capsule_delivery_digest'']))"
proof -
  obtain rr sp x d where h: "path (Some c) [''runtime_receipt''] = Inr rr"
    "path (Some r) [''runtime_contract'', ''capsule_delivery_digest''] = Inr sp"
    "path (Some r) [''capsule''] = Inr x" "computeCapsuleDeliveryDigest (hopt x) = Inr d"
    "delivery_differs (Some c) rr sp d = Inr False"
    using assms(1) by (auto simp: validateReceiptSemantics_def Let_def guard_simps result_simps)
  obtain capsule where x: "x = Some capsule"
    using h(4) by (cases x) (auto simp: hopt_def computeCapsuleDeliveryDigest_def canonicalizeJcs_def)
  have w: "wf_json capsule" using path_wf [OF assms(2) _ h(3) [unfolded x]] by simp
  have d: "d = json_digest.digest capsule"
    using h(4) x computeCapsuleDeliveryDigest_hval_of [OF scalar_json_wf [OF w]] by (simp add: hopt_def)
  obtain cmp where "path rr [''capsule_delivery_comparison''] = Inr cmp"
    using h(5) by (auto simp: delivery_differs_def result_simps)
  with h x w d that show thesis by simp
qed

theorem receipt_dichotomy:
  assumes "validateReceiptSemantics c r = Inr None" "wf_json r"
  obtains (matched) rr capsule where
      "path (Some c) [''runtime_receipt''] = Inr rr"
      "path (Some r) [''capsule''] = Inr (Some capsule)"
      "path rr [''capsule_delivery_comparison''] = Inr (Some (js ''matched''))"
      "path (Some r) [''runtime_contract'', ''capsule_delivery_digest''] = Inr (Some (JStr (json_digest.digest capsule)))"
      "path rr [''host_recomputed_capsule_delivery_digest''] = Inr (Some (JStr (json_digest.digest capsule)))"
      "path rr [''provider_execution_status''] \<noteq> Inr (Some (js ''not_started''))"
  | (mismatched) rr where
      "path (Some c) [''runtime_receipt''] = Inr rr"
      "path rr [''capsule_delivery_comparison''] = Inr (Some (js ''mismatched''))"
      "path rr [''host_recomputed_capsule_delivery_digest''] \<noteq>
         path (Some r) [''runtime_contract'', ''capsule_delivery_digest''] \<or>
       \<not> is_sha256_json (projr (path (Some r) [''runtime_contract'', ''capsule_delivery_digest'']))"
      "path rr [''provider_execution_status''] = Inr (Some (js ''not_started''))"
      "path (Some c) [''outcome''] = Inr (Some JNull)"
proof -
  obtain rr capsule cmp where h: "path (Some c) [''runtime_receipt''] = Inr rr"
    "path (Some r) [''capsule''] = Inr (Some capsule)" "wf_json capsule"
    "path rr [''capsule_delivery_comparison''] = Inr cmp"
    "delivery_differs (Some c) rr (projr (path (Some r) [''runtime_contract'', ''capsule_delivery_digest'']))
       (json_digest.digest capsule) = Inr False"
    "path (Some r) [''runtime_contract'', ''capsule_delivery_digest''] =
       Inr (projr (path (Some r) [''runtime_contract'', ''capsule_delivery_digest'']))"
    using receipt_parts [OF assms] by blast
  define sp where "sp = projr (path (Some r) [''runtime_contract'', ''capsule_delivery_digest''])"
  show thesis
  proof (cases "is_str cmp ''mismatched''")
    case True
    then have m: "path rr [''capsule_delivery_comparison''] = Inr (Some (js ''mismatched''))"
      "path rr [''provider_execution_status''] = Inr (Some (js ''not_started''))"
      "path (Some c) [''outcome''] = Inr (Some JNull)"
      and n: "\<exists>y. path rr [''host_recomputed_capsule_delivery_digest''] = Inr y \<and> \<not> strict_eq y sp"
      using h(4,5) by (auto simp: delivery_differs_def guard_simps result_simps js_def sp_def)
    have "path rr [''host_recomputed_capsule_delivery_digest''] \<noteq>
         path (Some r) [''runtime_contract'', ''capsule_delivery_digest''] \<or> \<not> is_sha256_json sp"
    proof (rule disjCI)
      assume "\<not> \<not> is_sha256_json sp"
      then obtain t where "sp = Some (JStr t)"
        by (auto simp: is_sha256_json_def split: option.splits json.splits)
      with n h(6) show "path rr [''host_recomputed_capsule_delivery_digest''] \<noteq>
         path (Some r) [''runtime_contract'', ''capsule_delivery_digest'']"
        by (auto simp: sp_def)
    qed
    with m h(1) show thesis by (intro mismatched) (auto simp: sp_def)
  next
    case False
    then have m: "path rr [''capsule_delivery_comparison''] = Inr (Some (js ''matched''))"
      "sp = Some (JStr (json_digest.digest capsule))"
      "path rr [''host_recomputed_capsule_delivery_digest''] = Inr (Some (JStr (json_digest.digest capsule)))"
      "path rr [''provider_execution_status''] \<noteq> Inr (Some (js ''not_started''))"
      using h(4,5) by (auto simp: delivery_differs_def guard_simps result_simps js_def sp_def neq_str_def)
    show thesis
      by (rule matched [OF h(1,2) m(1) _ m(3,4)]) (use h(6) m(2) in \<open>simp add: sp_def\<close>)
  qed
qed

end
