(* ===== verification/Budget.thy ===== *)
theory Budget
  imports HostReceipt
begin

text \<open>
  Budget evidence (\<open>compareObserved\<close>, \<open>expectedBudgetEvidence\<close>, \<open>deriveBudgetEvidence\<close> of
  \<open>packages/kdna-core/src/runtime-contract.js\<close>): five dimensions, each compared with its limit,
  and an overall state that is the worst of them.
\<close>

section \<open>One dimension\<close>

definition compareObserved :: "json option \<Rightarrow> json option \<Rightarrow> exn + string" where
  "compareObserved v limit =
     (if is_null limit then Inr ''not_limited''
      else if is_null v then Inr ''not_observed''
      else emap (\<lambda>b. if b then ''within_limit'' else ''exceeded'') (js_le v limit))"

lemma compareObserved_range:
  "compareObserved v limit = Inr s \<Longrightarrow> s \<in> {''not_limited'', ''not_observed'', ''within_limit'', ''exceeded''}"
  by (auto simp: compareObserved_def result_simps split: if_splits)

lemma compareObserved_numbers:
  "compareObserved (Some (JNum a)) (Some (JNum b)) = Inr (if num_le a b then ''within_limit'' else ''exceeded'')"
  "compareObserved v (Some JNull) = Inr ''not_limited''"
  "compareObserved (Some JNull) (Some (JNum b)) = Inr ''not_observed''"
  by (simp_all add: compareObserved_def is_null_def)

section \<open>The evidence object\<close>

record budget_comparison =
  projection_chars :: string
  task_chars :: string
  elapsed_ms :: string
  tokens_used :: string
  model_calls :: string
  overall :: string

record budget_evidence =
  limits :: hval
  actual :: hval
  comparison :: budget_comparison

definition hs :: "string \<Rightarrow> hval" where "hs s = HStr (u s)"

definition comparison_value :: "budget_comparison \<Rightarrow> hval" where
  "comparison_value c =
     ho [(''projection_chars'', hs (projection_chars c)), (''task_chars'', hs (task_chars c)),
         (''elapsed_ms'', hs (elapsed_ms c)), (''tokens_used'', hs (tokens_used c)),
         (''model_calls'', hs (model_calls c)), (''overall'', hs (overall c))]"

definition budget_value :: "budget_evidence \<Rightarrow> hval" where
  "budget_value b =
     ho [(''limits'', limits b), (''actual'', actual b), (''comparison'', comparison_value (comparison b))]"

definition overall_state :: "string list \<Rightarrow> string" where
  "overall_state states =
     (if ''exceeded'' \<in> set states then ''exceeded''
      else if ''not_observed'' \<in> set states then ''not_observed''
      else ''within_limit'')"

definition default_usage :: json where
  "default_usage =
     jo [(''elapsed_ms'', JNull), (''elapsed_basis'', js ''not_observed''), (''tokens_used'', JNull),
         (''model_calls'', JNull), (''basis'', js ''not_observed'')]"

text \<open>\<open>receipt?.runtime_receipt.usage ?? { .. }\<close>\<close>

definition usage_of :: "json \<Rightarrow> exn + json" where
  "usage_of receipt =
     emap (\<lambda>v. coalesce v default_usage)
       (if nullish (Some receipt) then Inr None else path (Some receipt) [''runtime_receipt'', ''usage''])"

definition count_of :: "json option \<Rightarrow> exn + json" where
  "count_of v = emap (\<lambda>n. JNum (num_of_nat n)) (jcsCharacterCount (hopt v))"

definition expectedBudgetEvidence :: "json \<Rightarrow> json \<Rightarrow> json \<Rightarrow> exn + budget_evidence" where
  "expectedBudgetEvidence plan request receipt =
     ebind (if request = JNull then Inr JNull
            else ebind (path (Some request) [''capsule'']) count_of) (\<lambda>projectionChars.
     ebind (ebind (path (Some plan) [''task'']) count_of) (\<lambda>taskChars.
     ebind (usage_of receipt) (\<lambda>usage.
     let limit = (\<lambda>k. path (Some plan) [''budget'', k]);
         used = (\<lambda>k. path (Some usage) [k]) in
     ebind (object_of
       [(''projection_chars'', Inr (hval_of projectionChars)),
        (''task_chars'', Inr (hval_of taskChars)),
        (''elapsed_ms'', emap hopt (used ''elapsed_ms'')),
        (''elapsed_basis'', emap hopt (used ''elapsed_basis'')),
        (''tokens_used'', emap hopt (used ''tokens_used'')),
        (''model_calls'', emap hopt (used ''model_calls'')),
        (''usage_basis'', emap hopt (used ''basis''))]) (\<lambda>actual.
     ebind (ebind (limit ''max_projection_chars'') (compareObserved (Some projectionChars))) (\<lambda>s1.
     ebind (ebind (limit ''max_task_chars'') (compareObserved (Some taskChars))) (\<lambda>s2.
     ebind (ebind (used ''elapsed_ms'') (\<lambda>v. ebind (limit ''deadline_ms'') (compareObserved v))) (\<lambda>s3.
     ebind (ebind (used ''tokens_used'') (\<lambda>v. ebind (limit ''max_tokens'') (compareObserved v))) (\<lambda>s4.
     ebind (ebind (used ''model_calls'') (\<lambda>v. ebind (limit ''max_model_calls'') (compareObserved v))) (\<lambda>s5.
     ebind (path (Some plan) [''budget'']) (\<lambda>b.
       Inr \<lparr> limits = hopt b, actual = actual,
             comparison = \<lparr> projection_chars = s1, task_chars = s2, elapsed_ms = s3, tokens_used = s4,
                            model_calls = s5, overall = overall_state [s1, s2, s3, s4, s5] \<rparr> \<rparr>))))))))))"

definition deriveBudgetEvidence :: "validators \<Rightarrow> hval \<Rightarrow> hval \<Rightarrow> exn + budget_evidence" where
  "deriveBudgetEvidence E plan context =
     ebind (throwInvalid (snapshotContext context [''trustedPlanDigest'', ''request'', ''receipt''])) (\<lambda>sc.
     ebind (validateConsumptionPlan E plan (plan_context sc)) (\<lambda>planResult.
     ebind (throwInvalid planResult) (\<lambda>safePlan.
     let request0 = get_opt (Some sc) ''request''; receipt0 = get_opt (Some sc) ''receipt'' in
     ebind (if is_null request0 then Inr JNull
            else ebind (throw_as (validateSchema E ''request'' (hopt request0))
                         ''Budget derivation requires a schema-valid independent Agent Host request.'') (\<lambda>request.
                 ebind (validateRequestSemantics request safePlan False) (\<lambda>code.
                 case code of
                   Some c \<Rightarrow> Inl (ContractError c
                     (u ''Budget derivation requires an independently correlated Agent Host request.'') None)
                 | None \<Rightarrow> Inr request))) (\<lambda>request.
     ebind (if is_null receipt0 then Inr JNull
            else if request = JNull
            then Inl (ContractError ''KDNA_VALIDATION_CONTEXT_INVALID''
                   (u ''Budget derivation cannot use a receipt without its independent request.'') None)
            else ebind (validateAgentHostReceipt E (hopt receipt0) (ho [(''request'', hval_of request)]))
                   throwInvalid) (\<lambda>receipt.
       expectedBudgetEvidence safePlan request receipt)))))"

section \<open>The overall state\<close>

definition dimension_states :: "budget_comparison \<Rightarrow> string list" where
  "dimension_states c = [projection_chars c, task_chars c, elapsed_ms c, tokens_used c, model_calls c]"

lemma expectedBudgetEvidence_parts:
  assumes "expectedBudgetEvidence plan request receipt = Inr b"
  shows "overall (comparison b) = overall_state (dimension_states (comparison b)) \<and>
         set (dimension_states (comparison b)) \<subseteq> {''not_limited'', ''not_observed'', ''within_limit'', ''exceeded''}"
proof -
  obtain s1 s2 s3 s4 s5 v1 l1 v2 l2 v3 l3 v4 l4 v5 l5 where
    s: "compareObserved v1 l1 = Inr s1" "compareObserved v2 l2 = Inr s2" "compareObserved v3 l3 = Inr s3"
       "compareObserved v4 l4 = Inr s4" "compareObserved v5 l5 = Inr s5"
    and b: "comparison b = \<lparr> projection_chars = s1, task_chars = s2, elapsed_ms = s3, tokens_used = s4,
                            model_calls = s5, overall = overall_state [s1, s2, s3, s4, s5] \<rparr>"
    using assms by (auto simp: expectedBudgetEvidence_def Let_def result_simps)
  show ?thesis using s [THEN compareObserved_range] by (auto simp: b dimension_states_def)
qed

lemma expectedBudgetEvidence_dims:
  assumes "expectedBudgetEvidence plan request receipt = Inr b"
  obtains pc tc pl tl where
    "if request = JNull then pc = JNull else \<exists>c. path (Some request) [''capsule''] = Inr c \<and> count_of c = Inr pc"
    "\<exists>t. path (Some plan) [''task''] = Inr t \<and> count_of t = Inr tc"
    "path (Some plan) [''budget'', ''max_projection_chars''] = Inr pl"
    "path (Some plan) [''budget'', ''max_task_chars''] = Inr tl"
    "compareObserved (Some pc) pl = Inr (projection_chars (comparison b))"
    "compareObserved (Some tc) tl = Inr (task_chars (comparison b))"
  using assms by (auto simp: expectedBudgetEvidence_def Let_def result_simps split: if_splits)

theorem overall_exceeded_iff:
  assumes "expectedBudgetEvidence plan request receipt = Inr b"
  shows "overall (comparison b) = ''exceeded'' \<longleftrightarrow> ''exceeded'' \<in> set (dimension_states (comparison b))"
  using expectedBudgetEvidence_parts [OF assms] by (auto simp: overall_state_def)

theorem overall_within_iff:
  assumes "expectedBudgetEvidence plan request receipt = Inr b"
  shows "overall (comparison b) = ''within_limit'' \<longleftrightarrow>
         set (dimension_states (comparison b)) \<subseteq> {''not_limited'', ''within_limit''}"
  using expectedBudgetEvidence_parts [OF assms] by (auto simp: overall_state_def)

end
