(* ===== verification/TraceSemantics.thy ===== *)
theory TraceSemantics
  imports Budget
begin

text \<open>
  Correlation of a judgment trace with independent evidence (\<open>withoutExpectedDigests\<close>,
  \<open>validateTerminalState\<close>, \<open>validateTrustedDeliveryObservation\<close>, \<open>validateTraceSemantics\<close> of
  \<open>packages/kdna-core/src/runtime-contract.js\<close>).

  The source's \<open>validateTraceSemantics\<close> has a common prefix and three bodies: a blocked trace
  with a request, a blocked trace without one, and an executed trace.  Each body is a definition
  of its own, a list of guards in source order.
\<close>

section \<open>Fixed shapes\<close>

definition withoutExpectedDigests :: "json option \<Rightarrow> exn + hval" where
  "withoutExpectedDigests asset =
     (case asset of
        Some (JObj ps) \<Rightarrow> Inr (hval_of (JObj (remove_key (u ''role'') (remove_key (u ''expected_digests'') ps))))
      | None \<Rightarrow> Inl (TypeErr (u ''Cannot convert undefined or null to object''))
      | Some JNull \<Rightarrow> Inl (TypeErr (u ''Cannot convert undefined or null to object''))
      | Some v \<Rightarrow> Inr (hval_of v))"

definition unavailable_item :: "string \<Rightarrow> json" where
  "unavailable_item basis =
     jo [(''value'', JNull), (''basis'', js basis),
         (''comparison'', jo [(''state'', js ''unavailable''), (''against'', JNull), (''expected'', JNull),
                              (''source'', JNull)])]"

definition unavailableDigestEvidence :: json where
  "unavailableDigestEvidence =
     jo [(''profile'', js ''kdna.digest-evidence''), (''profile_version'', js ''0.1.0''),
         (''asset'', unavailable_item ''kdna.digest-basis.container-bytes''),
         (''content'', unavailable_item ''kdna.digest-basis.content-tree''),
         (''runtime_entry_set'', unavailable_item ''kdna.digest-basis.runtime-entry-set'')]"

definition negotiation_version :: "negotiation \<Rightarrow> json" where
  "negotiation_version n = (case n of Selected \<Rightarrow> js ''0.1.0'' | Blocked _ \<Rightarrow> JNull)"

definition negotiation_protocol :: "negotiation \<Rightarrow> json" where
  "negotiation_protocol n = (case n of Selected \<Rightarrow> js ''kdna.agent-host'' | Blocked _ \<Rightarrow> JNull)"

definition negotiation_issue :: "negotiation \<Rightarrow> json" where
  "negotiation_issue n = (case n of Selected \<Rightarrow> JNull | Blocked c \<Rightarrow> js c)"

definition is_true :: "json option \<Rightarrow> bool" where
  "is_true v \<longleftrightarrow> v = Some (JBool True)"

section \<open>The terminal state\<close>

text \<open>
  The table of executed states.  It is an object literal, so the names of
  \<open>Object.prototype\<close> find inherited values too, which cannot be destructured.
\<close>

record terminal_row =
  provider_status :: string
  execution_status :: string
  has_result :: bool
  minimum_errors :: nat

definition terminal_table :: "(string \<times> terminal_row) list" where
  "terminal_table =
     [(''execution_completed'', \<lparr> provider_status = ''completed'', execution_status = ''completed'',
                                   has_result = True, minimum_errors = 0 \<rparr>),
      (''execution_failed'', \<lparr> provider_status = ''failed'', execution_status = ''failed'',
                                has_result = False, minimum_errors = 1 \<rparr>),
      (''cancelled'', \<lparr> provider_status = ''cancelled'', execution_status = ''cancelled'',
                         has_result = False, minimum_errors = 1 \<rparr>),
      (''timed_out'', \<lparr> provider_status = ''timed_out'', execution_status = ''timed_out'',
                         has_result = False, minimum_errors = 1 \<rparr>)]"

definition inherited_names :: "string list" where
  "inherited_names =
     [''constructor'', ''hasOwnProperty'', ''isPrototypeOf'', ''propertyIsEnumerable'', ''toLocaleString'',
      ''toString'', ''valueOf'', ''__proto__'', ''__defineGetter__'', ''__defineSetter__'',
      ''__lookupGetter__'', ''__lookupSetter__'']"

text \<open>The property key a value is coerced to.\<close>

definition to_key :: "json option \<Rightarrow> exn + jstring" where
  "to_key v = (case v of None \<Rightarrow> Inr (u ''undefined'') | Some j \<Rightarrow> to_str j)"

definition lookup_row :: "jstring \<Rightarrow> terminal_row option" where
  "lookup_row key = map_of (map (\<lambda>(k, r). (u k, r)) terminal_table) key"

definition terminal_mismatch :: string where
  "terminal_mismatch = ''KDNA_TRACE_TERMINAL_STATE_MISMATCH''"

definition validateTerminalState :: "json \<Rightarrow> json \<Rightarrow> exn + string option" where
  "validateTerminalState trace receipt =
     (let t = Some trace; c = Some receipt in
      ebind (path t [''overall_status'']) (\<lambda>status.
      if is_str status ''blocked''
      then first_code
             [(anyE [neq_null t [''result_ref''],
                     neq_str t [''execution'', ''execution_status''] ''not_started'',
                     ebind (path t [''errors'', ''length'']) (\<lambda>n. js_lt n (Some (JNum (Fin 1))))],
               terminal_mismatch)]
      else ebind (to_key status) (\<lambda>key.
        case lookup_row key of
          None \<Rightarrow>
            if key \<in> set (map u inherited_names) \<and> receipt \<noteq> JNull
            then Inl (TypeErr (u ''object is not iterable''))
            else Inr (Some terminal_mismatch)
        | Some row \<Rightarrow>
            if receipt = JNull then Inr (Some terminal_mismatch)
            else first_code
              [(anyE [neq_str c [''runtime_receipt'', ''provider_execution_status''] (provider_status row),
                      neq_str t [''execution'', ''execution_status''] (execution_status row),
                      neq_str t [''execution'', ''delivery_status''] ''correlated_response'',
                      emap (\<lambda>b. b \<noteq> has_result row) (neq_null t [''result_ref'']),
                      ebind (path t [''errors'', ''length'']) (\<lambda>n.
                        js_lt n (Some (JNum (Fin (of_nat (minimum_errors row))))))],
                terminal_mismatch),
               (if is_str status ''execution_completed''
                then neq_val t [''errors'', ''length''] (Some (JNum (Fin 0))) else Inr False,
                terminal_mismatch)])))"

section \<open>The trusted delivery observation\<close>

definition validateTrustedDeliveryObservation :: "json \<Rightarrow> vresult" where
  "validateTrustedDeliveryObservation context =
     (let observation = get_opt (Some context) ''trustedDeliveryObservation'';
          receipt = get_opt (Some context) ''receipt'';
          request = get_opt (Some context) ''request'';
          bad = invalid ''KDNA_VALIDATION_CONTEXT_INVALID'' in
      if observation \<notin> (Some \<circ> js) ` {''host_receipt'', ''not_delivered'', ''not_observed''}
      then bad ''trustedDeliveryObservation must be host_receipt, not_delivered, or not_observed.''
      else if \<not> is_null receipt \<and> \<not> is_str observation ''host_receipt''
      then bad ''A correlated Host receipt requires trustedDeliveryObservation=host_receipt.''
      else if is_null receipt \<and> is_str observation ''host_receipt''
      then bad ''trustedDeliveryObservation=host_receipt requires an independent receipt.''
      else if is_null request \<and> \<not> is_str observation ''not_delivered''
      then bad ''Without a Host request the trusted delivery observation must be not_delivered.''
      else ok (the observation))"

section \<open>Correlation of a trace\<close>

definition trace_negotiation :: "validators \<Rightarrow> json \<Rightarrow> json \<Rightarrow> json \<Rightarrow> exn + negotiation" where
  "trace_negotiation E plan capabilities core =
     ebind (field (Some plan) [''integrity'', ''plan_digest'']) (\<lambda>d.
     negotiateRuntimePair E (hval_of plan)
       (ho [(''trustedPlanDigest'', d), (''capabilities'', hval_of capabilities),
            (''coreCapsuleVersions'', hval_of core)]))"

definition prefix_guards :: "json \<Rightarrow> json \<Rightarrow> json \<Rightarrow> json \<Rightarrow> ((exn + bool) \<times> string) list" where
  "prefix_guards trace plan capabilities core =
     (let t = Some trace; p = Some plan in
      [(anyE [neq_paths t [''plan_ref'', ''plan_id''] p [''plan_id''],
              neq_paths t [''plan_ref'', ''plan_digest_profile''] p [''integrity'', ''profile''],
              neq_paths t [''plan_ref'', ''plan_digest_profile_version''] p [''integrity'', ''profile_version''],
              neq_paths t [''plan_ref'', ''plan_digest''] p [''integrity'', ''plan_digest''],
              ebind (path t [''plan_ref'', ''plan_digest'']) (\<lambda>x.
              ebind (computeConsumptionPlanDigest (hval_of plan)) (\<lambda>d.
                Inr (\<not> strict_eq x (Some (JStr d)))))],
        ''KDNA_TRACE_PLAN_REF_MISMATCH''),
       (anyE [differs t [''runtime_contract'', ''plan_capsule_versions'']
                p [''projection_request'', ''accepted_capsule_versions''],
              differs t [''runtime_contract'', ''plan_host_protocols''] p [''host_request'', ''accepted_protocols''],
              differs_from t [''runtime_contract'', ''core_capsule_versions''] (hval_of core),
              differs_from t [''runtime_contract'', ''host_capabilities''] (hval_of capabilities)],
        ''KDNA_TRACE_NEGOTIATION_EVIDENCE_MISMATCH''),
       (ebind (path p [''asset_ref'']) (\<lambda>a. ebind (withoutExpectedDigests a) (\<lambda>w.
          differs_from t [''asset_identity''] w)),
        ''KDNA_TRACE_ASSET_IDENTITY_MISMATCH''),
       (differs t [''budget'', ''limits''] p [''budget''], ''KDNA_TRACE_BUDGET_MISMATCH'')])"

definition budget_guard :: "json \<Rightarrow> json \<Rightarrow> json \<Rightarrow> json \<Rightarrow> exn + string option" where
  "budget_guard trace plan request receipt =
     first_code
       [(ebind (expectedBudgetEvidence plan request receipt) (\<lambda>b.
           differs_from (Some trace) [''budget''] (budget_value b)),
         ''KDNA_TRACE_BUDGET_MISMATCH'')]"

definition selected_guard :: "json option \<Rightarrow> negotiation \<Rightarrow> exn + bool" where
  "selected_guard t negotiation =
     anyE [Inr (negotiation \<noteq> Selected),
           neq_str t [''runtime_contract'', ''negotiation_state''] ''selected'',
           neq_val t [''runtime_contract'', ''selected_capsule_version''] (Some (negotiation_version negotiation)),
           neq_val t [''runtime_contract'', ''selected_host_protocol''] (Some (negotiation_protocol negotiation)),
           neq_null t [''runtime_contract'', ''issue_code'']]"

text \<open>The host boundary of a blocked trace with a request, by its comparison state.\<close>

definition boundary_code :: "json \<Rightarrow> json \<Rightarrow> json \<Rightarrow> json \<Rightarrow> exn + string option" where
  "boundary_code trace request receipt observation =
     (let t = Some trace; r = Some request; c = Some receipt; obs = Some observation;
          d = (\<lambda>k. [''capsule_delivery_evidence'', k]) in
      ebind (path r [''runtime_contract'', ''capsule_delivery_digest'']) (\<lambda>p.
      ebind (path t (d ''host_boundary_comparison'')) (\<lambda>boundary.
      if is_str boundary ''mismatched''
      then first_code
        [(anyE [Inr (\<not> is_str obs ''host_receipt''),
                Inr (receipt = JNull),
                emap (\<lambda>code. code \<noteq> None) (validateReceiptSemantics receipt request),
                neq_str c [''runtime_receipt'', ''capsule_delivery_comparison''] ''mismatched'',
                neq_paths t (d ''host_recomputed'')
                  c [''runtime_receipt'', ''host_recomputed_capsule_delivery_digest''],
                neq_paths t (d ''host_echoed'') c [''runtime_receipt'', ''echoed_capsule_delivery_digest''],
                negE (neq_val t (d ''host_recomputed'') p),
                neq_str t (d ''delivered_capsule_version'') ''0.1.0'',
                neq_paths t (d ''request_id'') r [''request_id''],
                neq_str t [''execution'', ''delivery_status''] ''rejected_before_execution''],
          ''KDNA_TRACE_CAPSULE_DELIVERY_DIGEST_MISMATCH'')]
      else if is_str boundary ''not_observed''
      then first_code
        [(anyE [Inr (\<not> is_str obs ''not_observed''),
                Inr (receipt \<noteq> JNull),
                neq_null t (d ''host_recomputed''),
                neq_null t (d ''host_echoed''),
                neq_str t (d ''delivered_capsule_version'') ''0.1.0'',
                neq_paths t (d ''request_id'') r [''request_id''],
                neq_str t [''execution'', ''delivery_status''] ''rejected_before_execution''],
          ''KDNA_TRACE_UNDELIVERED_HOST_EVIDENCE'')]
      else first_code
        [(Inr (\<not> is_str obs ''not_delivered''), ''KDNA_TRACE_DELIVERY_OBSERVATION_MISMATCH''),
         (anyE [Inr (receipt \<noteq> JNull),
                neq_null t (d ''host_recomputed''),
                neq_null t (d ''host_echoed''),
                neq_null t (d ''delivered_capsule_version''),
                Inr (\<not> is_str boundary ''not_delivered''),
                neq_null t (d ''request_id''),
                neq_str t [''execution'', ''delivery_status''] ''not_delivered''],
          ''KDNA_TRACE_UNDELIVERED_HOST_EVIDENCE'')])))"

definition blocked_with_request ::
  "validators \<Rightarrow> json \<Rightarrow> json \<Rightarrow> json \<Rightarrow> json \<Rightarrow> json \<Rightarrow> json \<Rightarrow> json \<Rightarrow> exn + string option" where
  "blocked_with_request E trace plan request receipt capabilities core observation =
     (let t = Some trace; r = Some request in
      or_code (first_code
        [(emap (\<lambda>code. code \<noteq> None) (validateRequestSemantics request plan False), ''KDNA_TRACE_REQUEST_MISMATCH''),
         (ebind (trace_negotiation E plan capabilities core) (selected_guard t),
          ''KDNA_TRACE_NEGOTIATION_EVIDENCE_MISMATCH''),
         (anyE [ebind (path r [''asset'']) (\<lambda>a. ebind (withoutExpectedDigests a) (\<lambda>w.
                  differs_from t [''asset_identity''] w)),
                differs t [''digest_evidence''] r [''capsule'', ''digests'']],
          ''KDNA_TRACE_DIGEST_EVIDENCE_MISMATCH''),
         (ebind (path r [''runtime_contract'', ''capsule_delivery_digest'']) (\<lambda>p.
          ebind (anyE [neq_paths t [''projection_actual'', ''profile''] r [''projection_contract'', ''profile''],
                       neq_val t [''projection_actual'', ''capsule_delivery_digest''] p,
                       neq_val t [''projection_actual'', ''profile_deviated_from_plan''] (Some (JBool False))]) (\<lambda>mismatch.
            anyE [neq_val t [''capsule_delivery_evidence'', ''observed''] p,
                  neq_val t [''capsule_delivery_evidence'', ''sender_computed''] (Some (JBool True)),
                  Inr mismatch])),
          ''KDNA_TRACE_UNDELIVERED_HOST_EVIDENCE'')])
     (or_code (boundary_code trace request receipt observation)
     (or_code (budget_guard trace plan request receipt)
        (validateTerminalState trace JNull))))"

definition blocked_without_request ::
  "validators \<Rightarrow> json \<Rightarrow> json \<Rightarrow> json \<Rightarrow> json \<Rightarrow> json \<Rightarrow> json \<Rightarrow> exn + string option" where
  "blocked_without_request E trace plan receipt capabilities core observation =
     (let t = Some trace; rc = (\<lambda>k. [''runtime_contract'', k]) in
      or_code (first_code
        ([(anyE [Inr (\<not> is_str (Some observation) ''not_delivered''),
                 neq_null t (rc ''selected_capsule_version''),
                 neq_null t (rc ''selected_host_protocol''),
                 emap (\<lambda>s. \<not> (is_str s ''not_started'' \<or> is_str s ''blocked'')) (path t (rc ''negotiation_state'')),
                 neq_null t [''capsule_delivery_evidence'', ''host_recomputed''],
                 neq_null t [''capsule_delivery_evidence'', ''host_echoed''],
                 neq_str t [''capsule_delivery_evidence'', ''host_boundary_comparison''] ''unavailable'',
                 neq_null t [''projection_actual'', ''profile''],
                 neq_null t [''projection_actual'', ''capsule_delivery_digest''],
                 neq_null t [''projection_actual'', ''profile_deviated_from_plan'']],
           ''KDNA_TRACE_UNDELIVERED_HOST_EVIDENCE'')] @
         map (\<lambda>name. (anyE [neq_null t [''digest_evidence'', name, ''value''],
                            neq_str t [''digest_evidence'', name, ''comparison'', ''state''] ''unavailable''],
                      ''KDNA_TRACE_UNDELIVERED_HOST_EVIDENCE''))
           [''asset'', ''content'', ''runtime_entry_set''] @
         [(ebind (path t (rc ''negotiation_state'')) (\<lambda>s.
             if is_str s ''not_started'' then neq_null t (rc ''issue_code'') else Inr False),
           ''KDNA_TRACE_NEGOTIATION_EVIDENCE_MISMATCH''),
          (ebind (path t (rc ''negotiation_state'')) (\<lambda>s.
             if is_str s ''blocked''
             then ebind (trace_negotiation E plan capabilities core) (\<lambda>n.
                    anyE [Inr (n = Selected), neq_val t (rc ''issue_code'') (Some (negotiation_issue n))])
             else Inr False),
           ''KDNA_TRACE_NEGOTIATION_EVIDENCE_MISMATCH''),
          (anyE [Inr (receipt \<noteq> JNull),
                 neq_str t [''execution'', ''delivery_status''] ''not_delivered''],
           ''KDNA_TRACE_UNDELIVERED_HOST_EVIDENCE'')]))
     (or_code (budget_guard trace plan JNull JNull)
        (validateTerminalState trace JNull)))"

text \<open>\<open>runtime.core_capsule_versions.includes(runtime.selected_capsule_version)\<close>\<close>

definition includes_value :: "json option \<Rightarrow> json option \<Rightarrow> exn + bool" where
  "includes_value v x =
     (case v of
        Some (JArr xs) \<Rightarrow> Inr (\<exists>y \<in> set xs. strict_eq (Some y) x)
      | Some (JStr s) \<Rightarrow> ebind (to_key x) (\<lambda>k. Inr (sublist k s))
      | _ \<Rightarrow> emap (\<lambda>_. False) (js_includes v []))"

definition executed_first_guards ::
  "validators \<Rightarrow> json \<Rightarrow> json \<Rightarrow> json \<Rightarrow> json \<Rightarrow> json \<Rightarrow> json \<Rightarrow> ((exn + bool) \<times> string) list" where
  "executed_first_guards E trace plan request receipt capabilities core =
     (let t = Some trace; r = Some request in
      [(emap (\<lambda>code. code \<noteq> None) (validateReceiptSemantics receipt request), ''KDNA_TRACE_HOST_RECEIPT_MISMATCH''),
       (ebind (trace_negotiation E plan capabilities core) (selected_guard t),
        ''KDNA_TRACE_NEGOTIATION_EVIDENCE_MISMATCH''),
       (ebind (path t [''runtime_contract'', ''core_capsule_versions'']) (\<lambda>versions.
        ebind (path t [''runtime_contract'', ''selected_capsule_version'']) (\<lambda>v.
          negE (includes_value versions v))),
        ''KDNA_TRACE_NEGOTIATION_EVIDENCE_MISMATCH''),
       (ebind (path r [''asset'']) (\<lambda>a. ebind (withoutExpectedDigests a) (\<lambda>w.
          differs_from t [''asset_identity''] w)),
        ''KDNA_TRACE_ASSET_IDENTITY_MISMATCH''),
       (differs t [''digest_evidence''] r [''capsule'', ''digests''], ''KDNA_TRACE_DIGEST_EVIDENCE_MISMATCH'')])"

definition executed_delivery_guards ::
  "json \<Rightarrow> json \<Rightarrow> json \<Rightarrow> json option \<Rightarrow> ((exn + bool) \<times> string) list" where
  "executed_delivery_guards trace request receipt p =
     (let t = Some trace; r = Some request; c = Some receipt; d = (\<lambda>k. [''capsule_delivery_evidence'', k]) in
      [(anyE [neq_val t (d ''observed'') p,
              neq_str t (d ''host_boundary_comparison'') ''matched'',
              neq_paths t (d ''host_recomputed'')
                c [''runtime_receipt'', ''host_recomputed_capsule_delivery_digest''],
              neq_val t (d ''host_recomputed'') p,
              neq_paths t (d ''host_echoed'') c [''runtime_receipt'', ''echoed_capsule_delivery_digest''],
              neq_val t (d ''host_echoed'') p,
              neq_paths t (d ''delivered_capsule_version'') r [''runtime_contract'', ''capsule_version''],
              neq_paths t (d ''request_id'') r [''request_id''],
              neq_paths t [''projection_actual'', ''profile''] r [''projection_contract'', ''profile''],
              neq_val t [''projection_actual'', ''capsule_delivery_digest''] p,
              neq_val t [''projection_actual'', ''profile_deviated_from_plan''] (Some (JBool False))],
        ''KDNA_TRACE_CAPSULE_DELIVERY_DIGEST_MISMATCH''),
       (differs_from t [''host_receipt''] (hval_of receipt), ''KDNA_TRACE_HOST_RECEIPT_MISMATCH''),
       (anyE [differs t [''execution'', ''semantic_consumption''] c [''runtime_receipt'', ''semantic_consumption''],
              differs t [''execution'', ''model_identity''] c [''runtime_receipt'', ''model_identity'']],
        ''KDNA_TRACE_EXECUTION_EVIDENCE_MISMATCH'')])"

definition executed_budget :: "json \<Rightarrow> json \<Rightarrow> json \<Rightarrow> json \<Rightarrow> exn + string option" where
  "executed_budget trace plan request receipt =
     (let t = Some trace in
      ebind (expectedBudgetEvidence plan request receipt) (\<lambda>b.
      ebind (path t [''overall_status'']) (\<lambda>status.
      first_code
        [(differs_from t [''budget''] (budget_value b), ''KDNA_TRACE_BUDGET_MISMATCH''),
         (Inr (\<not> is_str status ''timed_out'' \<and> overall (comparison b) = ''exceeded''),
          ''KDNA_TRACE_BUDGET_LIMIT_VIOLATION''),
         (Inr (is_str status ''timed_out'' \<and> elapsed_ms (comparison b) \<noteq> ''exceeded''),
          ''KDNA_TRACE_BUDGET_MISMATCH'')])))"

definition result_differs :: "json \<Rightarrow> json \<Rightarrow> json \<Rightarrow> exn + bool" where
  "result_differs trace request receipt =
     (let t = Some trace in
      ebind (path t [''result_ref'']) (\<lambda>ref.
      if \<not> is_null ref
      then anyE [neq_paths t [''result_ref'', ''shape''] (Some request) [''result_contract'', ''shape''],
                 negE (neq_null (Some receipt) [''outcome'']),
                 ebind (path t [''result_ref'', ''result_digest'']) (\<lambda>x.
                 ebind (path (Some receipt) [''outcome'']) (\<lambda>outcome.
                 ebind (digestJcs (hopt outcome)) (\<lambda>dg. Inr (\<not> strict_eq x (Some (JStr dg))))))]
      else neq_null (Some receipt) [''outcome'']))"

definition executed_trace ::
  "validators \<Rightarrow> json \<Rightarrow> json \<Rightarrow> json \<Rightarrow> json \<Rightarrow> json \<Rightarrow> json \<Rightarrow> json \<Rightarrow> exn + string option" where
  "executed_trace E trace plan request receipt capabilities core observation =
     (if request = JNull \<or> receipt = JNull \<or> \<not> is_str (Some observation) ''host_receipt''
      then Inr (Some terminal_mismatch)
      else ebind (validateRequestSemantics request plan True) (\<lambda>requestError.
      case requestError of
        Some c \<Rightarrow> Inr (Some (if c = ''KDNA_HOST_BUDGET_LIMIT_EXCEEDED'' then ''KDNA_TRACE_BUDGET_LIMIT_VIOLATION''
                              else ''KDNA_TRACE_REQUEST_MISMATCH''))
      | None \<Rightarrow>
          or_code (first_code (executed_first_guards E trace plan request receipt capabilities core))
         (or_code (ebind (path (Some request) [''runtime_contract'', ''capsule_delivery_digest'']) (\<lambda>p.
                     first_code (executed_delivery_guards trace request receipt p)))
         (or_code (executed_budget trace plan request receipt)
         (or_code (first_code [(result_differs trace request receipt, ''KDNA_TRACE_RESULT_DIGEST_MISMATCH'')])
            (validateTerminalState trace receipt))))))"

definition validateTraceSemantics ::
  "validators \<Rightarrow> json \<Rightarrow> json \<Rightarrow> json \<Rightarrow> json \<Rightarrow> json \<Rightarrow> json \<Rightarrow> json \<Rightarrow> exn + string option" where
  "validateTraceSemantics E trace plan request receipt capabilities core observation =
     or_code (first_code (prefix_guards trace plan capabilities core))
      (ebind (path (Some trace) [''overall_status'']) (\<lambda>status.
       if is_str status ''blocked''
       then or_code (first_code [(differs_from (Some trace) [''host_receipt''] (hval_of receipt), terminal_mismatch)])
             (if request \<noteq> JNull
              then blocked_with_request E trace plan request receipt capabilities core observation
              else blocked_without_request E trace plan receipt capabilities core observation)
       else executed_trace E trace plan request receipt capabilities core observation))"

end
