(* ===== verification/JudgmentTrace.thy ===== *)
theory JudgmentTrace
  imports TraceSemantics
begin

text \<open>
  The judgment trace: public validator, builder, and the pre-Host budget-blocked path
  (\<open>validateJudgmentTrace\<close>, \<open>buildJudgmentTrace\<close>, \<open>preparePreHostBudgetBlocked\<close>,
  \<open>buildPreHostBudgetBlockedTrace\<close>, \<open>validatePreHostBudgetBlockedTrace\<close> of
  \<open>packages/kdna-core/src/runtime-contract.js\<close>).

  The source updates the snapshotted context in place; here the updated members are bound in turn.
\<close>

definition trace_context_keys :: "string list" where
  "trace_context_keys =
     [''plan'', ''trustedPlanDigest'', ''capabilities'', ''coreCapsuleVersions'', ''request'', ''receipt'',
      ''trustedDeliveryObservation'']"

definition member :: "json \<Rightarrow> string \<Rightarrow> json" where
  "member v k = (case get_opt (Some v) k of Some j \<Rightarrow> j | None \<Rightarrow> JNull)"

section \<open>Validation\<close>

text \<open>The correlated receipt of a validation context.\<close>

definition trace_receipt :: "validators \<Rightarrow> json \<Rightarrow> json \<Rightarrow> (json \<Rightarrow> exn + vresult) \<Rightarrow> exn + vresult" where
  "trace_receipt E request receipt0 k =
     (if receipt0 = JNull then k JNull
      else if request = JNull
      then Inr (invalid ''KDNA_VALIDATION_CONTEXT_INVALID''
             ''Trace validation cannot correlate a receipt without its independent request.'')
      else ebind (validateAgentHostReceipt E (hval_of receipt0) (ho [(''request'', hval_of request)])) (\<lambda>r.
        case r of
          Valid receipt \<Rightarrow> k receipt
        | Invalid c m d \<Rightarrow>
            Inr (if c = ''KDNA_HOST_CAPSULE_DELIVERY_DIGEST_MISMATCH''
                 then Invalid ''KDNA_TRACE_CAPSULE_DELIVERY_DIGEST_MISMATCH''
                   (u ''JudgmentTrace receipt context contains inconsistent Capsule delivery evidence.'')
                   (Some (result_errors c m d))
                 else Invalid ''KDNA_VALIDATION_CONTEXT_INVALID''
                   (u ''Trace validation requires a valid independently correlated Host receipt.'')
                   (Some (result_errors c m d)))))"

text \<open>The schema-valid request of a validation context.\<close>

definition trace_request :: "validators \<Rightarrow> json \<Rightarrow> (json \<Rightarrow> exn + vresult) \<Rightarrow> exn + vresult" where
  "trace_request E request0 k =
     (if request0 = JNull then k JNull
      else vbind_as (validateSchema E ''request'' (hval_of request0))
             ''Trace validation requires a schema-valid independent Host request.'' k)"

definition validateJudgmentTrace :: "validators \<Rightarrow> hval \<Rightarrow> hval \<Rightarrow> exn + vresult" where
  "validateJudgmentTrace E trace context =
     vbind (snapshotContext context trace_context_keys) (\<lambda>sc.
     vbind (validateTrustedDeliveryObservation sc) (\<lambda>_.
     vbind (validateSchema E ''trace'' trace) (\<lambda>safeTrace.
     ebind (validateConsumptionPlan E (hval_of (member sc ''plan'')) (plan_context sc)) (\<lambda>planResult.
     vbind planResult (\<lambda>plan.
     vbind_as (validateSchema E ''capabilities'' (hval_of (member sc ''capabilities'')))
       ''Trace validation requires schema-valid independent Host capabilities.'' (\<lambda>capabilities.
     trace_request E (member sc ''request'') (\<lambda>request.
     trace_receipt E request (member sc ''receipt'') (\<lambda>receipt.
       guarded ''JudgmentTrace is not a safe JSON value.''
         (emap (\<lambda>code. code_result code ''JudgmentTrace correlation failed.'' safeTrace)
           (validateTraceSemantics E safeTrace plan request receipt capabilities
              (member sc ''coreCapsuleVersions'') (member sc ''trustedDeliveryObservation'')))))))))))"

section \<open>Construction\<close>

definition hcoalesce :: "hval \<Rightarrow> hval \<Rightarrow> hval" where
  "hcoalesce v d = (if v = HUndefined \<or> v = HNull then d else v)"

text \<open>\<open>clone(input.k || [])\<close>\<close>

definition list_input :: "hval \<Rightarrow> string \<Rightarrow> exn + hval" where
  "list_input input k =
     ebind (hget input k) (\<lambda>v. structuredClone (if htruthy v then v else HArr True 0 [] []))"

definition plan_ref_literal :: "json \<Rightarrow> exn + hval" where
  "plan_ref_literal plan =
     object_of
       [(''plan_id'', field (Some plan) [''plan_id'']),
        (''plan_digest_profile'', field (Some plan) [''integrity'', ''profile'']),
        (''plan_digest_profile_version'', field (Some plan) [''integrity'', ''profile_version'']),
        (''plan_digest'', field (Some plan) [''integrity'', ''plan_digest'']),
        (''comparison'', Inr (hs ''matched''))]"

definition runtime_contract_literal ::
  "json \<Rightarrow> json \<Rightarrow> json \<Rightarrow> bool \<Rightarrow> negotiation \<Rightarrow> exn + hval" where
  "runtime_contract_literal plan core capabilities hasRequest negotiation =
     object_of
       [(''plan_capsule_versions'', field (Some plan) [''projection_request'', ''accepted_capsule_versions'']),
        (''core_capsule_versions'', Inr (hval_of core)),
        (''plan_host_protocols'', field (Some plan) [''host_request'', ''accepted_protocols'']),
        (''host_capabilities'', Inr (hval_of capabilities)),
        (''negotiation_state'',
           Inr (hs (if hasRequest then ''selected'' else if negotiation = Selected then ''not_started''
                    else ''blocked''))),
        (''selected_capsule_version'',
           Inr (hval_of (if hasRequest then negotiation_version negotiation else JNull))),
        (''selected_host_protocol'',
           Inr (hval_of (if hasRequest then negotiation_protocol negotiation else JNull))),
        (''issue_code'',
           Inr (hval_of (if hasRequest \<or> negotiation = Selected then JNull else negotiation_issue negotiation)))]"

definition delivery_literal :: "json \<Rightarrow> json \<Rightarrow> json \<Rightarrow> json option \<Rightarrow> json option \<Rightarrow> exn + hval" where
  "delivery_literal request receipt observation boundary p =
     (let hasRequest = request \<noteq> JNull; hasReceipt = receipt \<noteq> JNull;
          contacted = hasReceipt \<or> is_str (Some observation) ''not_observed'' in
      object_of
       [(''basis'', Inr (hs ''kdna.canonicalization.runtime-capsule-jcs'')),
        (''basis_version'', Inr (hs ''0.1.0'')),
        (''observed'', Inr (hopt p)),
        (''sender_computed'', Inr (HBool hasRequest)),
        (''host_recomputed'',
           if hasReceipt then field (Some receipt) [''runtime_receipt'', ''host_recomputed_capsule_delivery_digest'']
           else Inr HNull),
        (''host_echoed'',
           if hasReceipt then field (Some receipt) [''runtime_receipt'', ''echoed_capsule_delivery_digest'']
           else Inr HNull),
        (''delivered_capsule_version'', Inr (if contacted then hs ''0.1.0'' else HNull)),
        (''host_boundary_comparison'', Inr (hopt boundary)),
        (''request_id'', if contacted then field (Some request) [''request_id''] else Inr HNull)])"

definition execution_literal :: "json \<Rightarrow> json \<Rightarrow> bool \<Rightarrow> exn + hval" where
  "execution_literal receipt observation matched =
     (let c = Some receipt in
      object_of
       [(''delivery_status'',
           Inr (hs (if matched then ''correlated_response''
                    else if receipt \<noteq> JNull \<or> is_str (Some observation) ''not_observed''
                    then ''rejected_before_execution'' else ''not_delivered''))),
        (''semantic_consumption'',
           if matched then field c [''runtime_receipt'', ''semantic_consumption'']
           else Inr (ho [(''state'', hs ''not_observed''), (''basis'', HNull)])),
        (''execution_status'',
           if matched then field c [''runtime_receipt'', ''provider_execution_status'']
           else Inr (hs ''not_started'')),
        (''conformance_status'', Inr (hs ''not_evaluated'')),
        (''model_identity'',
           if matched then field c [''runtime_receipt'', ''model_identity'']
           else Inr (ho [(''value'', HNull), (''basis'', hs ''not_observed'')]))])"

definition result_literal :: "hval \<Rightarrow> json \<Rightarrow> json \<Rightarrow> bool \<Rightarrow> exn + hval" where
  "result_literal input request receipt matched =
     ebind (if matched then neq_null (Some receipt) [''outcome''] else Inr False) (\<lambda>has.
     if has
     then object_of
       [(''shape'', field (Some request) [''result_contract'', ''shape'']),
        (''result_digest'',
           ebind (path (Some receipt) [''outcome'']) (\<lambda>v. emap HStr (digestJcs (hopt v)))),
        (''basis'', Inr (hs ''kdna.canonicalization.result-jcs'')),
        (''stored'', emap (\<lambda>v. hcoalesce v (HBool True)) (hget input ''result_stored''))]
     else Inr HNull)"

definition trace_literal ::
  "hval \<Rightarrow> json \<Rightarrow> json \<Rightarrow> json \<Rightarrow> json \<Rightarrow> json \<Rightarrow> json \<Rightarrow> negotiation \<Rightarrow> json option \<Rightarrow> json option \<Rightarrow> exn + hval" where
  "trace_literal input plan capabilities core request receipt observation negotiation boundary p =
     (let hasRequest = request \<noteq> JNull; matched = is_str boundary ''matched'' in
      object_of
       [(''type'', Inr (hs ''kdna.judgment-trace'')),
        (''contract_version'', Inr (hs ''0.1.0'')),
        (''trace_id'', hget input ''trace_id''),
        (''plan_ref'', plan_ref_literal plan),
        (''parent_trace_id'', emap (\<lambda>v. hcoalesce v HNull) (hget input ''parent_trace_id'')),
        (''timestamp'', hget input ''timestamp''),
        (''overall_status'', hget input ''overall_status''),
        (''runtime_contract'', runtime_contract_literal plan core capabilities hasRequest negotiation),
        (''asset_identity'', ebind (path (Some plan) [''asset_ref'']) withoutExpectedDigests),
        (''digest_evidence'',
           if hasRequest then field (Some request) [''capsule'', ''digests'']
           else Inr (hval_of unavailableDigestEvidence)),
        (''capsule_delivery_evidence'', delivery_literal request receipt observation boundary p),
        (''projection_actual'',
           object_of
             [(''profile'',
                 if hasRequest then field (Some request) [''projection_contract'', ''profile''] else Inr HNull),
              (''capsule_delivery_digest'', Inr (hopt p)),
              (''profile_deviated_from_plan'', Inr (if hasRequest then HBool False else HNull))]),
        (''host_receipt'', Inr (hval_of receipt)),
        (''execution'', execution_literal receipt observation matched),
        (''budget'', emap budget_value (expectedBudgetEvidence plan request receipt)),
        (''result_ref'', result_literal input request receipt matched),
        (''errors'', list_input input ''errors''),
        (''warnings'', list_input input ''warnings'')])"

definition set_members :: "json \<Rightarrow> (string \<times> json) list \<Rightarrow> json" where
  "set_members v ms = foldl (\<lambda>acc (k, x). with_member (Some acc) k x) v ms"

text \<open>The independently correlated request of a construction context.\<close>

definition build_request :: "validators \<Rightarrow> json \<Rightarrow> json \<Rightarrow> json \<Rightarrow> exn + json" where
  "build_request E plan sc' request0 =
     (if request0 = JNull then Inr JNull
      else
        ebind (throw_as (validateSchema E ''request'' (hval_of request0))
                 ''Trace construction requires a schema-valid independent Host request.'') (\<lambda>request.
        ebind (validateRequestSemantics request plan False) (\<lambda>code.
        case code of
          Some c \<Rightarrow> Inl (ContractError c
            (u ''Trace construction requires an independently correlated Host request.'') None)
        | None \<Rightarrow>
            ebind (negotiateRuntimePair E (hval_of plan) (hval_of (set_members sc' [(''request'', request)]))) (\<lambda>n.
            case n of
              Blocked c \<Rightarrow> Inl (ContractError c
                (u ''Trace construction requires a selected strict execution pair.'') None)
            | Selected \<Rightarrow> Inr request))))"

definition buildJudgmentTrace :: "validators \<Rightarrow> hval \<Rightarrow> hval \<Rightarrow> exn + hval" where
  "buildJudgmentTrace E input context =
     ebind (throwInvalid (snapshotContext context trace_context_keys)) (\<lambda>sc.
     ebind (throwInvalid (validateTrustedDeliveryObservation sc)) (\<lambda>_.
     ebind (validateConsumptionPlan E (hval_of (member sc ''plan'')) (plan_context sc)) (\<lambda>planResult.
     ebind (throwInvalid planResult) (\<lambda>plan.
     ebind (throw_as (validateSchema E ''capabilities'' (hval_of (member sc ''capabilities'')))
              ''Trace construction requires schema-valid independent Host capabilities.'') (\<lambda>capabilities.
     let sc' = set_members sc [(''plan'', plan), (''capabilities'', capabilities)] in
     ebind (build_request E plan sc' (member sc ''request'')) (\<lambda>request.
     ebind (if member sc ''receipt'' = JNull then Inr JNull
            else if request = JNull
            then Inl (ContractError ''KDNA_VALIDATION_CONTEXT_INVALID''
                   (u ''Trace construction cannot use a receipt without its independent request.'') None)
            else ebind (validateAgentHostReceipt E (hval_of (member sc ''receipt''))
                          (ho [(''request'', hval_of request)])) throwInvalid) (\<lambda>receipt.
     let safeContext = set_members sc' [(''request'', request), (''receipt'', receipt)];
         core = member sc ''coreCapsuleVersions'';
         observation = member sc ''trustedDeliveryObservation'' in
     ebind (negotiateRuntimePair E (hval_of plan) (hval_of safeContext)) (\<lambda>negotiation.
     ebind (if receipt \<noteq> JNull then path (Some receipt) [''runtime_receipt'', ''capsule_delivery_comparison'']
            else Inr (Some (if request \<noteq> JNull then observation else js ''unavailable''))) (\<lambda>boundary.
     ebind (if request \<noteq> JNull then path (Some request) [''runtime_contract'', ''capsule_delivery_digest'']
            else Inr (Some JNull)) (\<lambda>p.
     ebind (try_catch
             (trace_literal input plan capabilities core request receipt observation negotiation boundary p)
             (\<lambda>_. Inl (ContractError ''KDNA_TRACE_INPUT_INVALID''
                    (u ''Cannot build JudgmentTrace from the supplied input and independent context.'') None))) (\<lambda>trace.
     ebind (validateJudgmentTrace E trace (hval_of safeContext)) (\<lambda>result.
     ebind (throwInvalid result) (\<lambda>_. Inr trace)))))))))))))"

section \<open>The pre-Host budget-blocked path\<close>

definition PRE_HOST_INTERNAL_REQUEST_ID :: string where
  "PRE_HOST_INTERNAL_REQUEST_ID = ''host_000000000000000000000000''"

definition PRE_HOST_BUDGET_ERROR :: json where
  "PRE_HOST_BUDGET_ERROR =
     jo [(''code'', js ''KDNA_HOST_BUDGET_LIMIT_EXCEEDED''),
         (''message'', js ''Pre-Host projection or task budget exceeded.''),
         (''phase'', js ''budget'')]"

text \<open>What was prepared, or the invalid result to return.\<close>

datatype prepared = Prepared json json budget_evidence | Refused string jstring "json option"

definition pbind :: "vresult \<Rightarrow> (json \<Rightarrow> exn + prepared) \<Rightarrow> exn + prepared" where
  "pbind r f = (case r of Valid v \<Rightarrow> f v | Invalid c m d \<Rightarrow> Inr (Refused c m d))"

lemma pbind_Prepared_conv [result_simps]:
  "pbind r f = Inr (Prepared a b c) \<longleftrightarrow> (\<exists>v. r = Valid v \<and> f v = Inr (Prepared a b c))"
  by (cases r) (auto simp: pbind_def)

definition preparePreHostBudgetBlocked :: "validators \<Rightarrow> json \<Rightarrow> json \<Rightarrow> exn + prepared" where
  "preparePreHostBudgetBlocked E capsule sc =
     ebind (validateConsumptionPlan E (hval_of (member sc ''plan'')) (plan_context sc)) (\<lambda>planResult.
     pbind planResult (\<lambda>plan.
     ebind (negotiateRuntimePair E (hval_of plan) (hval_of sc)) (\<lambda>negotiation.
     case negotiation of
       Blocked c \<Rightarrow> Inr (Refused c (u ''Pre-Host budget evidence requires a selected strict execution pair.'') None)
     | Selected \<Rightarrow>
     (case assembleAgentHostRequest
             (jo [(''request_id'', js PRE_HOST_INTERNAL_REQUEST_ID), (''capsule'', capsule)]) plan of
        Inl e \<Rightarrow> Inr (Refused ''KDNA_HOST_REQUEST_INPUT_INVALID''
                       (u ''Projected Capsule input is invalid.'') (cause_details e))
      | Inr candidate0 \<Rightarrow>
     pbind (validateSchema E ''request'' candidate0) (\<lambda>candidate.
     ebind (validateRequestSemantics candidate plan False) (\<lambda>requestCode.
     case requestCode of
       Some c \<Rightarrow> Inr (Refused c
         (u ''Projected Capsule does not correlate with the independently validated Plan.'') None)
     | None \<Rightarrow>
     ebind (expectedBudgetEvidence plan candidate JNull) (\<lambda>budget.
       if projection_chars (comparison budget) \<noteq> ''exceeded'' \<and> task_chars (comparison budget) \<noteq> ''exceeded''
       then Inr (Refused ''KDNA_PRE_HOST_BUDGET_NOT_EXCEEDED''
              (u ''Pre-Host blocked Trace construction requires an exceeded projection or task limit.'') None)
       else Inr (Prepared plan candidate budget))))))))"

definition pre_host_context :: "json \<Rightarrow> json \<Rightarrow> json \<Rightarrow> json" where
  "pre_host_context sc plan candidate =
     set_members sc [(''plan'', plan), (''request'', candidate), (''receipt'', JNull),
                     (''trustedDeliveryObservation'', js ''not_delivered'')]"

definition buildPreHostBudgetBlockedTrace :: "validators \<Rightarrow> hval \<Rightarrow> hval \<Rightarrow> exn + hval" where
  "buildPreHostBudgetBlockedTrace E input context =
     ebind (throwInvalid (snapshotPublicInput input [''trace_id'', ''timestamp'', ''capsule'']
                            [''parent_trace_id'', ''warnings''])) (\<lambda>si.
     ebind (throwInvalid (snapshotContext context request_context_keys)) (\<lambda>sc.
     ebind (preparePreHostBudgetBlocked E (member si ''capsule'') sc) (\<lambda>prepared.
     case prepared of
       Refused c m d \<Rightarrow> Inl (ContractError c m d)
     | Prepared plan candidate budget \<Rightarrow>
         buildJudgmentTrace E
           (ho [(''trace_id'', hval_of (member si ''trace_id'')),
                (''timestamp'', hval_of (member si ''timestamp'')),
                (''parent_trace_id'', hval_of (coalesce (get_opt (Some si) ''parent_trace_id'') JNull)),
                (''overall_status'', hs ''blocked''),
                (''errors'', hval_of (JArr [PRE_HOST_BUDGET_ERROR])),
                (''warnings'', hval_of (if truthy (get_opt (Some si) ''warnings'') then member si ''warnings''
                                        else JArr []))])
           (hval_of (pre_host_context sc plan candidate)))))"

definition validatePreHostBudgetBlockedTrace :: "validators \<Rightarrow> hval \<Rightarrow> hval \<Rightarrow> exn + vresult" where
  "validatePreHostBudgetBlockedTrace E trace context =
     vbind (snapshotContext context (request_context_keys @ [''capsule''])) (\<lambda>sc.
     ebind (preparePreHostBudgetBlocked E (member sc ''capsule'') sc) (\<lambda>prepared.
     case prepared of
       Refused c m d \<Rightarrow> Inr (Invalid c m d)
     | Prepared plan candidate budget \<Rightarrow>
         ebind (validateJudgmentTrace E trace (hval_of (pre_host_context sc plan candidate))) (\<lambda>traceResult.
         vbind traceResult (\<lambda>safeTrace.
         let t = Some safeTrace in
         ebind (anyE
           [neq_str t [''overall_status''] ''blocked'',
            neq_null t [''host_receipt''],
            neq_str t [''execution'', ''delivery_status''] ''not_delivered'',
            neq_str t [''execution'', ''execution_status''] ''not_started'',
            differs_from t [''execution'', ''semantic_consumption'']
              (ho [(''state'', hs ''not_observed''), (''basis'', HNull)]),
            differs_from t [''execution'', ''model_identity'']
              (ho [(''value'', HNull), (''basis'', hs ''not_observed'')]),
            neq_str t [''budget'', ''comparison'', ''overall''] ''exceeded'',
            allE [neq_str t [''budget'', ''comparison'', ''projection_chars''] ''exceeded'',
                  neq_str t [''budget'', ''comparison'', ''task_chars''] ''exceeded''],
            differs_from t [''errors''] (hval_of (JArr [PRE_HOST_BUDGET_ERROR]))]) (\<lambda>bad.
           Inr (if bad
                then invalid ''KDNA_TRACE_PRE_HOST_BUDGET_MISMATCH''
                       ''Trace is not an authentic pre-Host budget-blocked terminal.''
                else ok safeTrace))))))"

end
