(* ===== verification/TraceProperties.thy ===== *)
theory TraceProperties
  imports JudgmentTrace
begin

text \<open>
  What an accepted judgment trace proves.

  An executed trace rests on an accepted request and an accepted receipt whose host recomputed the
  digest of exactly the capsule that was sent; a budget may only be exceeded by a timed-out trace;
  a completed trace carries the digest of the outcome; a blocked trace claims no execution.
\<close>

lemma path_step: "path v [k] = Inr w \<Longrightarrow> path v (k # ks) = path w ks"
  by (auto simp: path.simps result_simps)

lemma executed_inversion:
  assumes "validateTraceSemantics E t p r c caps core obs = Inr None"
    and "path (Some t) [''overall_status''] = Inr s" "s \<noteq> Some (js ''blocked'')"
  shows "r \<noteq> JNull" "c \<noteq> JNull" "obs = js ''host_receipt''"
    "validateRequestSemantics r p True = Inr None"
    "first_code (executed_first_guards E t p r c caps core) = Inr None"
    "\<exists>dp. path (Some r) [''runtime_contract'', ''capsule_delivery_digest''] = Inr dp \<and>
       first_code (executed_delivery_guards t r c dp) = Inr None"
    "executed_budget t p r c = Inr None"
    "result_differs t r c = Inr False"
    "validateTerminalState t c = Inr None"
proof -
  have b: "\<not> is_str s ''blocked''" using assms(3) by (simp add: js_def)
  have x: "executed_trace E t p r c caps core obs = Inr None"
    using assms(1,2) b by (auto simp: validateTraceSemantics_def guard_simps)
  then have y: "r \<noteq> JNull \<and> c \<noteq> JNull \<and> is_str (Some obs) ''host_receipt''"
    by (auto simp: executed_trace_def split: if_splits)
  then show "r \<noteq> JNull" "c \<noteq> JNull" "obs = js ''host_receipt''" by (auto simp: js_def)
  show "validateRequestSemantics r p True = Inr None"
    "first_code (executed_first_guards E t p r c caps core) = Inr None"
    "\<exists>dp. path (Some r) [''runtime_contract'', ''capsule_delivery_digest''] = Inr dp \<and>
       first_code (executed_delivery_guards t r c dp) = Inr None"
    "executed_budget t p r c = Inr None"
    "result_differs t r c = Inr False"
    "validateTerminalState t c = Inr None"
    using x y by (auto simp: executed_trace_def result_simps guard_simps split: option.splits)
qed

lemma executed_receipt:
  assumes "validateTraceSemantics E t p r c caps core obs = Inr None"
    and "path (Some t) [''overall_status''] = Inr s" "s \<noteq> Some (js ''blocked'')"
  shows "validateReceiptSemantics c r = Inr None" "trace_negotiation E p caps core = Inr Selected"
proof -
  have g: "first_code (executed_first_guards E t p r c caps core) = Inr None"
    using executed_inversion [OF assms] by blast
  then show "validateReceiptSemantics c r = Inr None" "trace_negotiation E p caps core = Inr Selected"
    by (auto simp: executed_first_guards_def selected_guard_def Let_def guard_simps result_simps)
qed

theorem executed_matched:
  assumes "validateTraceSemantics E t p r c caps core obs = Inr None" "wf_json r"
    and "path (Some t) [''overall_status''] = Inr s" "s \<noteq> Some (js ''blocked'')"
  shows "\<exists>capsule. path (Some r) [''capsule''] = Inr (Some capsule) \<and>
     path (Some c) [''runtime_receipt'', ''host_recomputed_capsule_delivery_digest''] =
       Inr (Some (JStr (json_digest.digest capsule))) \<and>
     path (Some t) [''capsule_delivery_evidence'', ''host_recomputed''] =
       Inr (Some (JStr (json_digest.digest capsule))) \<and>
     path (Some c) [''runtime_receipt'', ''capsule_delivery_comparison''] = Inr (Some (js ''matched''))"
proof -
  obtain dp where dp: "path (Some r) [''runtime_contract'', ''capsule_delivery_digest''] = Inr dp"
    and g: "first_code (executed_delivery_guards t r c dp) = Inr None"
    using executed_inversion [OF assms(1,3,4)] by blast
  have req: "validateRequestSemantics r p True = Inr None" using executed_inversion [OF assms(1,3,4)] by blast
  obtain capsule where cap: "path (Some r) [''capsule''] = Inr (Some capsule)"
    "path (Some r) [''runtime_contract'', ''capsule_delivery_digest''] = Inr (Some (JStr (json_digest.digest capsule)))"
    using capsule_digest_of [OF assms(2) req] by metis
  then have dpv: "dp = Some (JStr (json_digest.digest capsule))" using dp by simp
  have hr: "neq_paths (Some t) [''capsule_delivery_evidence'', ''host_recomputed'']
        (Some c) [''runtime_receipt'', ''host_recomputed_capsule_delivery_digest''] = Inr False"
    "neq_val (Some t) [''capsule_delivery_evidence'', ''host_recomputed''] dp = Inr False"
    using g by (simp_all add: executed_delivery_guards_def Let_def guard_simps)
  have th: "path (Some t) [''capsule_delivery_evidence'', ''host_recomputed''] = Inr dp"
    using hr(2) dpv by (auto simp: guard_simps)
  then have ch: "path (Some c) [''runtime_receipt'', ''host_recomputed_capsule_delivery_digest''] = Inr dp"
    using hr(1) dpv by (auto simp: guard_simps)
  have rc: "validateReceiptSemantics c r = Inr None" by (rule executed_receipt [OF assms(1,3,4)])
  have "path (Some c) [''runtime_receipt'', ''capsule_delivery_comparison''] = Inr (Some (js ''matched''))"
    using rc assms(2)
  proof (cases rule: receipt_dichotomy)
    case (matched rr capsule')
    then show ?thesis by (simp add: path_step [OF matched(1)])
  next
    case (mismatched rr)
    have "path rr [''host_recomputed_capsule_delivery_digest''] = Inr dp"
      using ch by (simp add: path_step [OF mismatched(1)])
    then have "\<not> is_sha256_json dp" using mismatched(3) dp by simp
    then show ?thesis by (simp add: dpv is_sha256_json_def json_digest.digest_def)
  qed
  with cap th ch dpv show ?thesis by simp
qed

theorem executed_budget_sound:
  assumes "validateTraceSemantics E t p r c caps core obs = Inr None"
    and "path (Some t) [''overall_status''] = Inr s" "s \<noteq> Some (js ''blocked'')"
  shows "\<exists>b. expectedBudgetEvidence p r c = Inr b \<and>
     (overall (comparison b) = ''exceeded'' \<longrightarrow> s = Some (js ''timed_out'') \<and> elapsed_ms (comparison b) = ''exceeded'')"
proof -
  have "executed_budget t p r c = Inr None" using executed_inversion [OF assms] by blast
  then show ?thesis using assms(2)
    by (auto simp: executed_budget_def Let_def result_simps guard_simps js_def)
qed

lemma terminal_executed:
  assumes "validateTerminalState t c = Inr None" "path (Some t) [''overall_status''] = Inr s"
    and "s \<noteq> Some (js ''blocked'')"
  obtains key row where "to_key s = Inr key" "lookup_row key = Some row"
    "path (Some c) [''runtime_receipt'', ''provider_execution_status''] = Inr (Some (js (provider_status row)))"
    "path (Some t) [''execution'', ''execution_status''] = Inr (Some (js (execution_status row)))"
    "path (Some t) [''execution'', ''delivery_status''] = Inr (Some (js ''correlated_response''))"
    "neq_null (Some t) [''result_ref''] = Inr (has_result row)"
proof -
  have b: "\<not> is_str s ''blocked''" using assms(3) by (simp add: js_def)
  obtain key where k: "to_key s = Inr key"
    using assms(1,2) b by (auto simp: validateTerminalState_def Let_def result_simps)
  obtain row where row: "lookup_row key = Some row"
    using assms(1,2) b k by (auto simp: validateTerminalState_def Let_def split: option.splits if_splits)
  have "c \<noteq> JNull"
    using assms(1,2) b k row by (auto simp: validateTerminalState_def Let_def split: if_splits)
  then have "first_code
              [(anyE [neq_str (Some c) [''runtime_receipt'', ''provider_execution_status''] (provider_status row),
                      neq_str (Some t) [''execution'', ''execution_status''] (execution_status row),
                      neq_str (Some t) [''execution'', ''delivery_status''] ''correlated_response'',
                      emap (\<lambda>b. b \<noteq> has_result row) (neq_null (Some t) [''result_ref'']),
                      ebind (path (Some t) [''errors'', ''length'']) (\<lambda>n.
                        js_lt n (Some (JNum (Fin (of_nat (minimum_errors row))))))],
                terminal_mismatch),
               (if is_str s ''execution_completed''
                then neq_val (Some t) [''errors'', ''length''] (Some (JNum (Fin 0))) else Inr False,
                terminal_mismatch)] = Inr None"
    using assms(1,2) b k row by (simp add: validateTerminalState_def Let_def)
  then have "path (Some c) [''runtime_receipt'', ''provider_execution_status''] = Inr (Some (js (provider_status row)))"
    "path (Some t) [''execution'', ''execution_status''] = Inr (Some (js (execution_status row)))"
    "path (Some t) [''execution'', ''delivery_status''] = Inr (Some (js ''correlated_response''))"
    "neq_null (Some t) [''result_ref''] = Inr (has_result row)"
    by (simp_all add: guard_simps js_def) (auto simp: result_simps)
  with k row that show thesis by blast
qed

theorem completed_result:
  assumes "validateTraceSemantics E t p r c caps core obs = Inr None" "wf_json c"
    and "path (Some t) [''overall_status''] = Inr (Some (js ''execution_completed''))"
  shows "\<exists>outcome. path (Some c) [''outcome''] = Inr (Some outcome) \<and> outcome \<noteq> JNull \<and>
     path (Some t) [''result_ref'', ''result_digest''] = Inr (Some (JStr (json_digest.digest outcome))) \<and>
     path (Some c) [''runtime_receipt'', ''provider_execution_status''] = Inr (Some (js ''completed''))"
proof -
  have nb: "Some (js ''execution_completed'') \<noteq> Some (js ''blocked'')" by (simp add: js_def)
  note inv = executed_inversion [OF assms(1,3) nb]
  obtain key row where row: "to_key (Some (js ''execution_completed'')) = Inr key" "lookup_row key = Some row"
    "path (Some c) [''runtime_receipt'', ''provider_execution_status''] = Inr (Some (js (provider_status row)))"
    "neq_null (Some t) [''result_ref''] = Inr (has_result row)"
    using terminal_executed [OF inv(9) assms(3) nb] by metis
  have k: "key = u ''execution_completed''" using row(1) by (simp add: to_key_def js_def)
  have r: "provider_status row = ''completed''" "has_result row"
    using row(2) by (auto simp: lookup_row_def terminal_table_def k)
  from row(4) r obtain ref where ref: "path (Some t) [''result_ref''] = Inr ref" "\<not> is_null ref"
    by (auto simp: neq_null_def result_simps)
  have g: "negE (neq_null (Some c) [''outcome'']) = Inr False"
    "ebind (path (Some t) [''result_ref'', ''result_digest'']) (\<lambda>x.
                 ebind (path (Some c) [''outcome'']) (\<lambda>outcome.
                 ebind (digestJcs (hopt outcome)) (\<lambda>dg. Inr (\<not> strict_eq x (Some (JStr dg)))))) = Inr False"
    using inv(8) ref by (simp_all add: result_differs_def Let_def guard_simps)
  from g(2) obtain x ov dg where o: "path (Some t) [''result_ref'', ''result_digest''] = Inr x"
    "path (Some c) [''outcome''] = Inr ov" "digestJcs (hopt ov) = Inr dg" "x = Some (JStr dg)"
    by (auto simp: result_simps)
  from o(3) obtain outcome where ov: "ov = Some outcome"
    by (cases ov) (auto simp: hopt_def digestJcs_def canonicalizeJcs_def)
  have w: "wf_json outcome" using path_wf [OF assms(2) _ o(2) [unfolded ov]] by simp
  have "dg = json_digest.digest outcome"
    using o(3) digestJcs_hval_of [OF scalar_json_wf [OF w]] by (simp add: ov hopt_def)
  moreover have "outcome \<noteq> JNull"
    using g(1) o(2) ov by (auto simp: neq_null_def is_null_def result_simps)
  ultimately show ?thesis using o ov row r by simp
qed

theorem blocked_no_execution:
  assumes "validateTraceSemantics E t p r c caps core obs = Inr None"
    and "path (Some t) [''overall_status''] = Inr (Some (js ''blocked''))"
  shows "path (Some t) [''result_ref''] = Inr (Some JNull) \<and>
     path (Some t) [''execution'', ''execution_status''] = Inr (Some (js ''not_started''))"
proof -
  have "validateTerminalState t JNull = Inr None"
    using assms by (auto simp: validateTraceSemantics_def guard_simps js_def blocked_with_request_def
        blocked_without_request_def Let_def split: if_splits)
  then show ?thesis using assms(2)
    by (auto simp: validateTerminalState_def Let_def guard_simps js_def)
qed

text \<open>A blocked trace with a receipt: the receipt is one of a refused delivery.\<close>

lemma blocked_receipt:
  assumes "validateTraceSemantics E t p r c caps core obs = Inr None" "wf_json r"
    and "path (Some t) [''overall_status''] = Inr (Some (js ''blocked''))" "c \<noteq> JNull"
  shows "path (Some c) [''runtime_receipt'', ''capsule_delivery_comparison''] = Inr (Some (js ''mismatched''))"
    "path (Some c) [''runtime_receipt'', ''provider_execution_status''] = Inr (Some (js ''not_started''))"
    "path (Some c) [''outcome''] = Inr (Some JNull)"
    "path (Some t) [''execution'', ''delivery_status''] = Inr (Some (js ''rejected_before_execution''))"
proof -
  have r: "r \<noteq> JNull" "blocked_with_request E t p r c caps core obs = Inr None"
    using assms(1,3,4)
    by (auto simp: validateTraceSemantics_def guard_simps js_def blocked_without_request_def Let_def split: if_splits)
  have b: "boundary_code t r c obs = Inr None"
    using r(2) by (auto simp: blocked_with_request_def Let_def guard_simps)
  have m: "validateReceiptSemantics c r = Inr None"
    "neq_str (Some c) [''runtime_receipt'', ''capsule_delivery_comparison''] ''mismatched'' = Inr False"
    "path (Some t) [''execution'', ''delivery_status''] = Inr (Some (js ''rejected_before_execution''))"
    using b assms(4)
    by (auto simp: boundary_code_def Let_def guard_simps result_simps js_def split: if_splits)
  show "path (Some t) [''execution'', ''delivery_status''] = Inr (Some (js ''rejected_before_execution''))"
    by (rule m(3))
  have c: "path (Some c) [''runtime_receipt'', ''capsule_delivery_comparison''] = Inr (Some (js ''mismatched''))"
    using m(2) by (simp add: guard_simps js_def)
  then show "path (Some c) [''runtime_receipt'', ''capsule_delivery_comparison''] = Inr (Some (js ''mismatched''))" .
  have "path (Some c) [''runtime_receipt'', ''provider_execution_status''] = Inr (Some (js ''not_started'')) \<and>
     path (Some c) [''outcome''] = Inr (Some JNull)"
    using m(1) assms(2)
  proof (cases rule: receipt_dichotomy)
    case (matched rr capsule)
    then have False using c by (simp add: path_step [OF matched(1)] js_def)
    then show ?thesis ..
  next
    case (mismatched rr)
    then show ?thesis by (simp add: path_step [OF mismatched(1)])
  qed
  then show "path (Some c) [''runtime_receipt'', ''provider_execution_status''] = Inr (Some (js ''not_started''))"
    "path (Some c) [''outcome''] = Inr (Some JNull)" by auto
qed

text \<open>A blocked trace without a request: nothing was delivered, so no digest is claimed.\<close>

lemma blocked_unrequested:
  assumes "validateTraceSemantics E t p JNull c caps core obs = Inr None"
    and "path (Some t) [''overall_status''] = Inr (Some (js ''blocked''))"
  shows "c = JNull"
    "path (Some t) [''execution'', ''delivery_status''] = Inr (Some (js ''not_delivered''))"
    "path (Some t) [''capsule_delivery_evidence'', ''host_recomputed''] = Inr (Some JNull)"
    "path (Some t) [''projection_actual'', ''capsule_delivery_digest''] = Inr (Some JNull)"
    "name \<in> {''asset'', ''content'', ''runtime_entry_set''} \<Longrightarrow>
       path (Some t) [''digest_evidence'', name, ''value''] = Inr (Some JNull)"
proof -
  have b: "blocked_without_request E t p c caps core obs = Inr None"
    using assms by (auto simp: validateTraceSemantics_def guard_simps js_def split: if_splits)
  show "c = JNull"
    "path (Some t) [''execution'', ''delivery_status''] = Inr (Some (js ''not_delivered''))"
    "path (Some t) [''capsule_delivery_evidence'', ''host_recomputed''] = Inr (Some JNull)"
    "path (Some t) [''projection_actual'', ''capsule_delivery_digest''] = Inr (Some JNull)"
    "name \<in> {''asset'', ''content'', ''runtime_entry_set''} \<Longrightarrow>
       path (Some t) [''digest_evidence'', name, ''value''] = Inr (Some JNull)"
    using b by (auto simp: blocked_without_request_def Let_def guard_simps js_def)
qed

lemma blocked_errors:
  assumes "validateTraceSemantics E t p r c caps core obs = Inr None"
    and "path (Some t) [''overall_status''] = Inr (Some (js ''blocked''))"
    and "path (Some t) [''errors''] = Inr (Some (JArr xs))"
  shows "xs \<noteq> []"
proof
  assume "xs = []"
  then have "path (Some t) [''errors'', ''length''] = Inr (Some (JNum (Fin 0)))"
    using path_step [OF assms(3), of "[''length'']"] by (simp add: path.simps get_prop_def num_of_nat_small)
  moreover have "validateTerminalState t JNull = Inr None"
    using assms(1,2) by (auto simp: validateTraceSemantics_def guard_simps js_def blocked_with_request_def
        blocked_without_request_def Let_def split: if_splits)
  then obtain n where "path (Some t) [''errors'', ''length''] = Inr n" "js_lt n (Some (JNum (Fin 1))) = Inr False"
    using assms(2) by (auto simp: validateTerminalState_def Let_def guard_simps result_simps js_def)
  ultimately show False by (simp add: num_lt_def num_eq_def)
qed

section \<open>The public operations\<close>

lemma trace_request_Valid [result_simps]:
  "trace_request E r0 k = Inr (Valid w) \<longleftrightarrow>
     (\<exists>r. (if r0 = JNull then r = JNull else validateSchema E ''request'' (hval_of r0) = Valid r) \<and>
          k r = Inr (Valid w))"
  by (auto simp: trace_request_def result_simps)

lemma trace_receipt_Valid [result_simps]:
  "trace_receipt E r c0 k = Inr (Valid w) \<longleftrightarrow>
     (\<exists>c. (if c0 = JNull then c = JNull
           else r \<noteq> JNull \<and> validateAgentHostReceipt E (hval_of c0) (ho [(''request'', hval_of r)]) = Inr (Valid c)) \<and>
          k c = Inr (Valid w))"
proof (cases "validateAgentHostReceipt E (hval_of c0) (ho [(''request'', hval_of r)])")
  case (Inr v)
  then show ?thesis by (cases v) (auto simp: trace_receipt_def invalid_def)
qed (auto simp: trace_receipt_def invalid_def)

theorem validateJudgmentTrace_Valid:
  "validateJudgmentTrace E trace context = Inr (Valid t) \<longleftrightarrow>
     (\<exists>sc obs p caps r c. snapshotContext context trace_context_keys = Valid sc \<and>
        validateTrustedDeliveryObservation sc = Valid obs \<and>
        validateSchema E ''trace'' trace = Valid t \<and>
        validateConsumptionPlan E (hval_of (member sc ''plan'')) (plan_context sc) = Inr (Valid p) \<and>
        validateSchema E ''capabilities'' (hval_of (member sc ''capabilities'')) = Valid caps \<and>
        (if member sc ''request'' = JNull then r = JNull
         else validateSchema E ''request'' (hval_of (member sc ''request'')) = Valid r) \<and>
        (if member sc ''receipt'' = JNull then c = JNull
         else r \<noteq> JNull \<and> validateAgentHostReceipt E (hval_of (member sc ''receipt''))
                (ho [(''request'', hval_of r)]) = Inr (Valid c)) \<and>
        validateTraceSemantics E t p r c caps (member sc ''coreCapsuleVersions'')
          (member sc ''trustedDeliveryObservation'') = Inr None)"
  by (simp add: validateJudgmentTrace_def result_simps) blast

theorem buildJudgmentTrace_validates:
  assumes "buildJudgmentTrace E input context = Inr trace"
  obtains ctx t where "validateJudgmentTrace E trace ctx = Inr (Valid t)"
  using assms by (auto simp: buildJudgmentTrace_def Let_def result_simps)

theorem pre_host_trace_exceeded:
  assumes "validatePreHostBudgetBlockedTrace E trace context = Inr (Valid t)"
  obtains sc p r b where
    "snapshotContext context (request_context_keys @ [''capsule'']) = Valid sc"
    "preparePreHostBudgetBlocked E (member sc ''capsule'') sc = Inr (Prepared p r b)"
    "projection_chars (comparison b) = ''exceeded'' \<or> task_chars (comparison b) = ''exceeded''"
    "path (Some t) [''overall_status''] = Inr (Some (js ''blocked''))"
    "path (Some t) [''host_receipt''] = Inr (Some JNull)"
    "path (Some t) [''execution'', ''delivery_status''] = Inr (Some (js ''not_delivered''))"
    "path (Some t) [''execution'', ''execution_status''] = Inr (Some (js ''not_started''))"
proof -
  have nI: "invalid c m \<noteq> Valid v" for c m v by (simp add: invalid_def)
  from assms obtain sc where sc: "snapshotContext context (request_context_keys @ [''capsule'']) = Valid sc"
    by (auto simp: validatePreHostBudgetBlockedTrace_def result_simps)
  from assms sc obtain pr where pr: "preparePreHostBudgetBlocked E (member sc ''capsule'') sc = Inr pr"
    by (auto simp: validatePreHostBudgetBlockedTrace_def result_simps)
  obtain p r b where prb: "pr = Prepared p r b"
    using assms sc pr by (cases pr) (auto simp: validatePreHostBudgetBlockedTrace_def)
  from assms sc pr prb have
    "path (Some t) [''overall_status''] = Inr (Some (js ''blocked''))"
    "path (Some t) [''host_receipt''] = Inr (Some JNull)"
    "path (Some t) [''execution'', ''delivery_status''] = Inr (Some (js ''not_delivered''))"
    "path (Some t) [''execution'', ''execution_status''] = Inr (Some (js ''not_started''))"
    by (auto simp: validatePreHostBudgetBlockedTrace_def Let_def result_simps guard_simps nI js_def ok_def split: if_splits)
  moreover have "projection_chars (comparison b) = ''exceeded'' \<or> task_chars (comparison b) = ''exceeded''"
    using pr unfolding prb preparePreHostBudgetBlocked_def
    by (auto simp: result_simps split: negotiation.splits sum.splits option.splits if_splits)
       (metis negotiation.exhaust)+
  ultimately show thesis using that sc pr prb by blast
qed

end
