(* ===== verification/JsArith.thy ===== *)
theory JsArith
  imports ContractCore
begin

text \<open>
  Arithmetic of JavaScript values: the binary \<open>+\<close> with its coercions, \<open>Math.max\<close> of two values,
  \<open>??\<close> and \<open>||\<close>, the copy made by \<open>JSON.parse(JSON.stringify(v))\<close>, and the tests of the shape of
  a value that several components share.
\<close>

text \<open>Integers up to \<open>2 ^ 53\<close> are doubles.\<close>

lemma to_double_int:
  assumes "\<bar>m\<bar> \<le> 2 ^ 53"
  shows "to_double (of_int m) = Fin (of_int m)"
proof -
  have "\<bar>of_int m :: rat\<bar> = of_int \<bar>m\<bar>" by simp
  also have "\<dots> \<le> of_int (2 ^ 53)" using assms by (simp only: of_int_le_iff)
  also have "\<dots> < 2 ^ 1024" by simp
  finally show ?thesis using to_double_scaled [OF assms, of 0] by simp
qed

section \<open>Addition\<close>

definition is_string :: "json option \<Rightarrow> bool" where
  "is_string v = (case v of Some (JStr _) \<Rightarrow> True | _ \<Rightarrow> False)"

fun num_add :: "number \<Rightarrow> number \<Rightarrow> number" where
  "num_add NaN y = NaN"
| "num_add x NaN = NaN"
| "num_add PInf y = (if y = NInf then NaN else PInf)"
| "num_add NInf y = (if y = PInf then NaN else NInf)"
| "num_add x PInf = PInf"
| "num_add x NInf = NInf"
| "num_add NegZero y = y"
| "num_add x NegZero = x"
| "num_add (Fin a) (Fin b) = to_double (a + b)"

definition prim_text :: "json option \<Rightarrow> exn + jstring" where
  "prim_text v = (case v of None \<Rightarrow> Inr (u ''undefined'') | Some j \<Rightarrow> to_str j)"

definition js_add :: "json option \<Rightarrow> json option \<Rightarrow> exn + json" where
  "js_add a b =
     ebind (to_primitive a) (\<lambda>p. ebind (to_primitive b) (\<lambda>q.
       if is_string p \<or> is_string q
       then ebind (prim_text p) (\<lambda>s. ebind (prim_text q) (\<lambda>t. Inr (JStr (s @ t))))
       else Inr (JNum (num_add (prim_number p) (prim_number q)))))"

lemma js_add_num [simp, js_simps]: "js_add (Some (JNum a)) (Some (JNum b)) = Inr (JNum (num_add a b))"
  by (simp add: js_add_def is_string_def to_primitive_def prim_number_def)

lemma num_add_nat:
  "m + n \<le> 2 ^ 53 \<Longrightarrow> num_add (num_of_nat m) (num_of_nat n) = num_of_nat (m + n)"
  using num_of_nat_small [of m] num_of_nat_small [of n] by (simp add: num_of_nat_def)

section \<open>Maximum\<close>

definition num_max :: "number \<Rightarrow> number \<Rightarrow> number" where
  "num_max a b =
     (if a = NaN \<or> b = NaN then NaN
      else if num_lt a b then b
      else if a = NegZero \<and> b = Fin 0 then b
      else a)"

definition to_number :: "json option \<Rightarrow> exn + number" where
  "to_number v = ebind (to_primitive v) (\<lambda>p. Inr (prim_number p))"

lemma to_number_num [simp, js_simps]: "to_number (Some (JNum n)) = Inr n"
  by (simp add: to_number_def to_primitive_def prim_number_def)

definition js_max :: "json option \<Rightarrow> json option \<Rightarrow> exn + json" where
  "js_max a b = ebind (to_number a) (\<lambda>x. ebind (to_number b) (\<lambda>y. Inr (JNum (num_max x y))))"

lemma js_max_num [simp, js_simps]: "js_max (Some (JNum a)) (Some (JNum b)) = Inr (JNum (num_max a b))"
  by (simp add: js_max_def)

lemma num_max_upper:
  "a \<noteq> NaN \<Longrightarrow> b \<noteq> NaN \<Longrightarrow> num_le a (num_max a b) \<and> num_le b (num_max a b)"
  by (cases a; cases b) (auto simp: num_max_def num_lt_def num_eq_def split: if_splits)

lemma num_max_one: "num_max a b \<in> {a, b, NaN}"
  by (simp add: num_max_def)

section \<open>Defaults\<close>

text \<open>\<open>a ?? b\<close> and \<open>a || b\<close> for an already evaluated right side.\<close>

definition default_to :: "json option \<Rightarrow> json option \<Rightarrow> json option" where
  "default_to a b = (if nullish a then b else a)"

definition or_else :: "json option \<Rightarrow> json option \<Rightarrow> json option" where
  "or_else a b = (if truthy a then a else b)"

lemma default_to_simps [simp]:
  "default_to None b = b" "default_to (Some JNull) b = b" "default_to (Some (JNum n)) b = Some (JNum n)"
  "default_to (Some (JStr s)) b = Some (JStr s)"
  by (simp_all add: default_to_def nullish_def)

lemma default_to_Some: "\<exists>j. default_to a (Some b) = Some j"
  by (cases a) (auto simp: default_to_def nullish_def)

section \<open>JSON text round trip of a value\<close>

fun json_clone :: "json \<Rightarrow> json" where
  "json_clone (JNum n) = (case n of Fin q \<Rightarrow> JNum (Fin q) | NegZero \<Rightarrow> JNum (Fin 0) | _ \<Rightarrow> JNull)"
| "json_clone (JArr xs) = JArr (map json_clone xs)"
| "json_clone (JObj ps) = JObj (map (\<lambda>(k, x). (k, json_clone x)) ps)"
| "json_clone v = v"

lemma json_clone_idem: "json_clone (json_clone v) = json_clone v"
proof (induction v)
  case (JNum n)
  then show ?case by (cases n) auto
next
  case (JObj ps)
  then show ?case by (auto simp: Basic_BNFs.snds.simps)
qed auto

section \<open>Shapes\<close>

text \<open>A non-empty string, a finite number, a plain object, an array of strings.\<close>

definition non_empty_string :: "json option \<Rightarrow> bool" where
  "non_empty_string v = (case v of Some (JStr s) \<Rightarrow> s \<noteq> [] | _ \<Rightarrow> False)"

definition is_finite_num :: "json option \<Rightarrow> bool" where
  "is_finite_num v = (case v of Some (JNum n) \<Rightarrow> is_finite n | _ \<Rightarrow> False)"

definition is_record :: "json option \<Rightarrow> bool" where
  "is_record v = (case v of Some (JObj _) \<Rightarrow> True | _ \<Rightarrow> False)"

definition is_text_list :: "json option \<Rightarrow> bool" where
  "is_text_list v = (case v of Some (JArr xs) \<Rightarrow> (\<forall>x \<in> set xs. is_string (Some x)) | _ \<Rightarrow> False)"

text \<open>\<open>['a', ..].includes(v)\<close> for string literals.\<close>

definition one_of :: "json option \<Rightarrow> string list \<Rightarrow> bool" where
  "one_of v names \<longleftrightarrow> v \<in> (\<lambda>n. Some (js n)) ` set names"

end
