(* ===== verification/RuntimeCapsule.thy ===== *)
theory RuntimeCapsule
  imports JsArith
begin

text \<open>
  The Runtime Capsule (\<open>packages/kdna-core/src/runtime-capsule.js\<close>): expected and declared digests
  and their comparison, the evidence a capsule must carry, signature evidence, and the builder.

  The reader of packaged bytes supplies the digests and the parsed \<open>kdna.json\<close> and
  \<open>checksums.json\<close>; they are arguments here.  The compiled capsule schema, \<open>Date.parse\<close> (whose
  answer is implementation-defined on most strings) and the clock are the parameter \<open>V\<close>.
\<close>

record capsule_env =
  capsule_errors :: "json \<Rightarrow> json list option"
  date_parses :: "jstring \<Rightarrow> bool"
  now_iso :: jstring

section \<open>Shared primitives\<close>

definition coded :: "string \<Rightarrow> string \<Rightarrow> exn" where
  "coded code m = CodedError code (u m) None"

definition fail :: "string \<Rightarrow> string \<Rightarrow> exn + 'a" where
  "fail code m = Inl (coded code m)"

lemma fail_not_Inr [simp]: "fail c m \<noteq> Inr x"
  by (simp add: fail_def)

text \<open>\<open>SHA256_RE.test(v || '')\<close>; the argument of \<open>test\<close> is coerced to a string.\<close>

definition sha_test :: "json option \<Rightarrow> exn + bool" where
  "sha_test v = (if truthy v then emap is_sha256_text (to_str (the v)) else Inr False)"

text \<open>\<open>JSON.stringify\<close> of a JSON value.\<close>

fun stringify :: "json \<Rightarrow> jstring" where
  "stringify JNull = u ''null''"
| "stringify (JBool b) = (if b then u ''true'' else u ''false'')"
| "stringify (JNum n) = (if is_finite n then number_to_string n else u ''null'')"
| "stringify (JStr s) = json_quote s"
| "stringify (JArr xs) = u ''['' @ join (u '','') (map stringify xs) @ u '']''"
| "stringify (JObj ps) =
     u ''{'' @ join (u '','') (map (\<lambda>(k, v). json_quote k @ u '':'' @ stringify v) ps) @ u ''}''"

definition stringify_opt :: "json option \<Rightarrow> jstring" where
  "stringify_opt v = (case v of None \<Rightarrow> u ''undefined'' | Some j \<Rightarrow> stringify j)"

definition is_object :: "json option \<Rightarrow> bool" where
  "is_object v = (case v of Some (JObj _) \<Rightarrow> True | Some (JArr _) \<Rightarrow> True | _ \<Rightarrow> False)"

definition is_array :: "json option \<Rightarrow> bool" where
  "is_array v = (case v of Some (JArr _) \<Rightarrow> True | _ \<Rightarrow> False)"

section \<open>Expected and declared digests\<close>

text \<open>A normalized expectation: its value and its source.\<close>

type_synonym expectation = "json \<times> jstring"

definition EXTERNAL_COMPARISON_SOURCES :: "string list" where
  "EXTERNAL_COMPARISON_SOURCES = [''caller'', ''registry'', ''install_receipt'', ''lockfile'']"

definition COMPARISON_SOURCES :: "string list" where
  "COMPARISON_SOURCES =
     EXTERNAL_COMPARISON_SOURCES @
     [''kdna.json.content_digest'', ''kdna.json.authoring.content_digest'', ''checksums.json.entry_set_digest'']"

definition COMPARISON_TARGETS :: "string list" where
  "COMPARISON_TARGETS = [''external_expected'', ''manifest_declaration'', ''checksum_declaration'']"

definition expectation_error :: "exn + 'a" where
  "expectation_error =
     fail ''KDNA_DIGEST_EXPECTATION_INVALID''
       ''Expected digest must provide a lowercase sha256 value and a factual source.''"

definition normalizeExpectedDigest :: "json option \<Rightarrow> string \<Rightarrow> string list \<Rightarrow> exn + expectation option" where
  "normalizeExpectedDigest expected defaultSource allowed =
     (if nullish expected then Inr None
      else
        let normalized = (case expected of
              Some (JStr s) \<Rightarrow> Some (jo [(''value'', JStr s), (''source'', js defaultSource)])
            | _ \<Rightarrow> expected)
        in if \<not> is_object normalized then expectation_error
           else ebind (path normalized [''value'']) (\<lambda>value.
                ebind (sha_test value) (\<lambda>good.
                ebind (path normalized [''source'']) (\<lambda>source.
                  case (good, value, source) of
                    (True, Some v, Some (JStr s)) \<Rightarrow>
                      if s \<in> u ` set allowed then Inr (Some (v, s)) else expectation_error
                  | _ \<Rightarrow> expectation_error))))"

definition normalizeDeclaredDigest :: "json option \<Rightarrow> string \<Rightarrow> exn + expectation option" where
  "normalizeDeclaredDigest v source =
     normalizeExpectedDigest
       (Some (JObj ((case v of None \<Rightarrow> [] | Some j \<Rightarrow> [(u ''value'', j)]) @ [(u ''source'', js source)])))
       source [source]"

definition digest_comparison :: "jstring \<Rightarrow> expectation option \<Rightarrow> string \<Rightarrow> json" where
  "digest_comparison observed expected against =
     (case expected of
        None \<Rightarrow> jo [(''state'', js ''not_compared''), (''against'', JNull), (''expected'', JNull), (''source'', JNull)]
      | Some (v, source) \<Rightarrow>
          jo [(''state'', js (if strict_eq (Some (JStr observed)) (Some v) then ''matched'' else ''mismatched'')),
              (''against'', js against), (''expected'', v), (''source'', JStr source)])"

definition conflict_error :: "json \<Rightarrow> json \<Rightarrow> exn" where
  "conflict_error a b =
     CodedError ''KDNA_CONTENT_DIGEST_DECLARATION_CONFLICT''
       (u ''kdna.json content_digest conflicts with authoring.content_digest.'')
       (Some (jo [(''top_level'', a), (''authoring'', b)]))"

definition declaredContentDigest :: "json option \<Rightarrow> exn + expectation option" where
  "declaredContentDigest manifest =
     ebind (if truthy manifest \<and> get_opt manifest ''content_digest'' \<noteq> None
            then normalizeDeclaredDigest (get_opt manifest ''content_digest'') ''kdna.json.content_digest''
            else Inr None) (\<lambda>topLevel.
     let authoring0 = get_opt (get_opt manifest ''authoring'') ''content_digest'' in
     ebind (if authoring0 \<noteq> None
            then normalizeDeclaredDigest authoring0 ''kdna.json.authoring.content_digest''
            else Inr None) (\<lambda>authoring.
     case (topLevel, authoring) of
       (Some (a, s), Some (b, t)) \<Rightarrow>
         if strict_eq (Some a) (Some b) then Inr topLevel else Inl (conflict_error a b)
     | (Some t, None) \<Rightarrow> Inr (Some t)
     | (None, _) \<Rightarrow> Inr authoring))"

definition declaredEntrySetDigest :: "json option \<Rightarrow> exn + expectation option" where
  "declaredEntrySetDigest checksums =
     (if \<not> truthy checksums then Inr None
      else if get_opt checksums ''entry_set_digest'' \<noteq> None
      then normalizeDeclaredDigest (get_opt checksums ''entry_set_digest'') ''checksums.json.entry_set_digest''
      else Inr None)"

definition comparisonWithDeclarationPriority ::
  "jstring \<Rightarrow> expectation option \<Rightarrow> expectation option \<Rightarrow> string \<Rightarrow> json" where
  "comparisonWithDeclarationPriority observed declared external declarationTarget =
     (let declarationComparison = digest_comparison observed declared declarationTarget
      in if is_str (get_opt (Some declarationComparison) ''state'') ''mismatched'' then declarationComparison
         else if external \<noteq> None then digest_comparison observed external ''external_expected''
         else declarationComparison)"

definition BASIS :: "(string \<times> string) list" where
  "BASIS = [(''asset'', ''kdna.digest-basis.container-bytes''),
            (''content'', ''kdna.digest-basis.content-tree''),
            (''runtime_entry_set'', ''kdna.digest-basis.runtime-entry-set'')]"

definition evidence_item :: "string \<Rightarrow> jstring \<Rightarrow> json \<Rightarrow> json" where
  "evidence_item basis value cmp = jo [(''value'', JStr value), (''basis'', js basis), (''comparison'', cmp)]"

text \<open>
  \<open>computeDigestEvidenceFromBytes\<close>, after the reader has computed the three digests.
\<close>

definition computeDigestEvidence ::
  "jstring \<Rightarrow> jstring \<Rightarrow> jstring \<Rightarrow> json option \<Rightarrow> json option \<Rightarrow> json option \<Rightarrow> exn + json" where
  "computeDigestEvidence assetDigest contentDigest entrySetDigest manifest checksums expectedDigests =
     (let ext = (if truthy expectedDigests then expectedDigests else Some (JObj [])) in
      ebind (ebind (path ext [''asset'']) (\<lambda>v.
             normalizeExpectedDigest v ''caller'' EXTERNAL_COMPARISON_SOURCES)) (\<lambda>expectedAsset.
      ebind (ebind (path ext [''content'']) (\<lambda>v.
             normalizeExpectedDigest v ''caller'' EXTERNAL_COMPARISON_SOURCES)) (\<lambda>externalContent.
      ebind (ebind (path ext [''runtime_entry_set'']) (\<lambda>v.
             normalizeExpectedDigest v ''caller'' EXTERNAL_COMPARISON_SOURCES)) (\<lambda>externalEntrySet.
      ebind (declaredContentDigest manifest) (\<lambda>declaredContent.
      ebind (declaredEntrySetDigest checksums) (\<lambda>declaredEntrySet.
        Inr (jo
          [(''profile'', js ''kdna.digest-evidence''), (''profile_version'', js ''0.1.0''),
           (''asset'', evidence_item ''kdna.digest-basis.container-bytes'' assetDigest
              (digest_comparison assetDigest expectedAsset ''external_expected'')),
           (''content'', evidence_item ''kdna.digest-basis.content-tree'' contentDigest
              (comparisonWithDeclarationPriority contentDigest declaredContent externalContent
                 ''manifest_declaration'')),
           (''runtime_entry_set'', evidence_item ''kdna.digest-basis.runtime-entry-set'' entrySetDigest
              (comparisonWithDeclarationPriority entrySetDigest declaredEntrySet externalEntrySet
                 ''checksum_declaration''))])))))))"

section \<open>Evidence a capsule must carry\<close>

definition evidence_code :: string where
  "evidence_code = ''KDNA_RUNTIME_CAPSULE_DIGEST_EVIDENCE_INVALID''"

definition mismatch_code :: "string \<Rightarrow> string" where
  "mismatch_code name =
     (if name = ''asset'' then ''KDNA_ASSET_DIGEST_MISMATCH''
      else if name = ''content'' then ''KDNA_CONTENT_DIGEST_MISMATCH''
      else ''KDNA_RUNTIME_ENTRY_SET_DIGEST_MISMATCH'')"

text \<open>\<open>item.comparison && item.comparison.state\<close>\<close>

definition comparison_state :: "json option \<Rightarrow> exn + json option" where
  "comparison_state item =
     ebind (path item [''comparison'']) (\<lambda>c. if truthy c then path c [''state''] else Inr c)"

definition assert_state :: "json option \<Rightarrow> string \<Rightarrow> json option \<Rightarrow> exn + unit" where
  "assert_state item name state =
     (if \<not> is_str state ''matched'' \<and> \<not> is_str state ''not_compared''
      then ebind (if truthy state then to_str (the state) else Inr (u ''missing'')) (\<lambda>shown.
        Inl (CodedError (if is_str state ''mismatched'' then mismatch_code name else evidence_code)
          (u (''Runtime Capsule cannot be emitted with '' @ name @ '' comparison '') @ shown @ u ''.'')
          (Some (jo [(''digest'', js name), (''evidence'', the item)]))))
      else
        throw_if (if is_str state ''matched''
                  then anyE [neq_paths item [''comparison'', ''expected''] item [''value''],
                             emap (\<lambda>a. a \<notin> (Some \<circ> js) ` set COMPARISON_TARGETS) (path item [''comparison'', ''against'']),
                             emap (\<lambda>a. a \<notin> (Some \<circ> js) ` set COMPARISON_SOURCES) (path item [''comparison'', ''source''])]
                  else Inr False)
          (coded evidence_code (''Runtime Capsule '' @ name @ '' matched comparison is internally inconsistent.''))
       (throw_if (if is_str state ''not_compared''
                  then anyE [neq_null item [''comparison'', ''expected''],
                             neq_null item [''comparison'', ''against''],
                             neq_null item [''comparison'', ''source'']]
                  else Inr False)
          (coded evidence_code (''Runtime Capsule '' @ name @ '' not_compared evidence must not claim an expectation.''))
          (Inr ())))"

definition assert_item :: "json option \<Rightarrow> string \<Rightarrow> exn + unit" where
  "assert_item digests name =
     ebind (path digests [name]) (\<lambda>item.
     throw_if (if \<not> truthy item then Inr True
               else anyE [negE (ebind (path item [''value'']) sha_test),
                          neq_str item [''basis''] (the (map_of BASIS name))])
       (coded evidence_code (''Runtime Capsule '' @ name @ '' digest evidence is invalid.''))
       (ebind (comparison_state item) (assert_state item name)))"

definition assertSuccessfulDigestEvidence :: "json option \<Rightarrow> exn + unit" where
  "assertSuccessfulDigestEvidence digests =
     throw_if (if \<not> truthy digests then Inr True
               else anyE [neq_str digests [''profile''] ''kdna.digest-evidence'',
                          neq_str digests [''profile_version''] ''0.1.0''])
       (coded evidence_code ''Runtime Capsule digest evidence is missing or uses the wrong profile coordinate.'')
       (emap (\<lambda>_. ()) (mapE (assert_item digests) [''asset'', ''content'', ''runtime_entry_set'']))"

section \<open>Signature evidence\<close>

definition KDSIG_PROFILE :: string where "KDSIG_PROFILE = ''kdsig.ed25519''"
definition KDSIG_PROFILE_VERSION :: string where "KDSIG_PROFILE_VERSION = ''0.1.0''"

definition VERIFIED_FIELDS :: "string list" where
  "VERIFIED_FIELDS = [''state'', ''profile'', ''profile_version'', ''key_fingerprint'', ''content_digest'']"

definition build_error :: "string \<Rightarrow> exn + 'a" where
  "build_error m = fail ''KDNA_RUNTIME_CAPSULE_BUILD_INVALID'' m"

lemma build_error_not_Inr [simp]: "build_error m \<noteq> Inr x"
  by (simp add: build_error_def)

definition unsupported_signature :: "string \<Rightarrow> json option \<Rightarrow> string \<Rightarrow> exn + 'a" where
  "unsupported_signature what v supported =
     Inl (CodedError ''KDNA_ASSET_SIGNATURE_UNSUPPORTED''
       (u (''Signature '' @ what @ '' '') @ stringify_opt v @ u ('' is not supported (supported: '' @ supported @ '').'')) None)"

definition normalizeSignatureEvidence :: "json option \<Rightarrow> exn + json" where
  "normalizeSignatureEvidence signature =
     (case signature of
        None \<Rightarrow> Inr (jo [(''state'', js ''absent'')])
      | Some (JObj ps) \<Rightarrow>
          let get = (\<lambda>k. map_of ps (u k)) in
          if is_str (get ''state'') ''absent''
          then (if filter (\<lambda>k. k \<noteq> u ''state'') (map fst ps) \<noteq> []
                then build_error ''Absent signature evidence must not carry extra fields.''
                else Inr (jo [(''state'', js ''absent'')]))
          else if is_str (get ''state'') ''verified''
          then (if join (u '','') (sort (map fst ps)) \<noteq> join (u '','') (sort (map u VERIFIED_FIELDS))
                then build_error
                  ''Verified signature evidence must carry exactly: state, profile, profile_version, key_fingerprint, content_digest.''
                else if \<not> is_str (get ''profile'') KDSIG_PROFILE
                then unsupported_signature ''profile'' (get ''profile'') KDSIG_PROFILE
                else if \<not> is_str (get ''profile_version'') KDSIG_PROFILE_VERSION
                then unsupported_signature ''profile_version'' (get ''profile_version'') KDSIG_PROFILE_VERSION
                else ebind (sha_test (get ''key_fingerprint'')) (\<lambda>f.
                  if \<not> f then build_error ''Verified signature evidence requires a sha256 key_fingerprint.''
                  else ebind (sha_test (get ''content_digest'')) (\<lambda>c.
                    if \<not> c then build_error ''Verified signature evidence requires a sha256 content_digest.''
                    else Inr (jo [(''state'', js ''verified''), (''profile'', the (get ''profile'')),
                                  (''profile_version'', the (get ''profile_version'')),
                                  (''key_fingerprint'', the (get ''key_fingerprint'')),
                                  (''content_digest'', the (get ''content_digest''))]))))
          else unsupported_signature ''state'' (get ''state'') ''absent, verified''
      | _ \<Rightarrow> build_error ''Runtime Capsule signature evidence must be an object.'')"

section \<open>The builder\<close>

definition assertRuntimeCapsuleSuccess :: "capsule_env \<Rightarrow> hval \<Rightarrow> string \<Rightarrow> exn + json" where
  "assertRuntimeCapsuleSuccess V capsule code =
     (case canonicalizeJcs capsule of
        Inl e \<Rightarrow> Inl (CodedError code (u ''Runtime Capsule is not an RFC 8785 JSON value: '' @ error_message e)
                  (Some (jo [(''cause_code'', case e of CodedError c _ _ \<Rightarrow> js c | ContractError c _ _ \<Rightarrow> js c
                                              | _ \<Rightarrow> JNull)])))
      | Inr _ \<Rightarrow>
          let c = the (plain_view capsule) in
          (case capsule_errors V c of
             Some errs \<Rightarrow> Inl (CodedError code (u ''Runtime Capsule does not satisfy the current contract.'')
                                (Some (JArr errs)))
           | None \<Rightarrow>
               ebind (ebind (path (Some c) [''digests'']) assertSuccessfulDigestEvidence) (\<lambda>_.
               throw_if (neq_paths (Some c) [''signature'', ''state''] (Some c) [''trace'', ''signature_state''])
                 (coded code ''Runtime Capsule signature state conflicts with its trace.'')
              (throw_if (neq_paths (Some c) [''profile''] (Some c) [''trace'', ''profile''])
                 (coded code ''Runtime Capsule profile conflicts with its trace.'')
                 (Inr c)))))"

definition normalizeRuntimeAccess :: "json option \<Rightarrow> json" where
  "normalizeRuntimeAccess access = (case access of None \<Rightarrow> js ''public'' | Some a \<Rightarrow> a)"

text \<open>\<open>v || d\<close>\<close>

definition js_or :: "json option \<Rightarrow> json \<Rightarrow> json" where
  "js_or v d = (if truthy v then the v else d)"

record capsule_input =
  in_projection :: "json option"
  in_manifest :: "json option"
  in_digests :: "json option"
  in_signature :: "json option"
  in_kind :: "json option"
  in_loaded_at :: "json option"
  in_schema_valid :: "json option"

definition manifest_checks :: "json option \<Rightarrow> exn + unit" where
  "manifest_checks manifest =
     emap (\<lambda>_. ())
       (mapE (\<lambda>f. ebind (path manifest [f]) (\<lambda>v.
                if non_empty_string v then Inr ()
                else build_error (''Runtime manifest '' @ f @ '' is required.'')))
          [''asset_id'', ''asset_uid'', ''version'', ''judgment_version''])"

definition capsule_literal :: "json option \<Rightarrow> json option \<Rightarrow> hval \<Rightarrow> json \<Rightarrow> json \<Rightarrow> json option \<Rightarrow> json \<Rightarrow> bool \<Rightarrow> exn + hval" where
  "capsule_literal projection manifest digests signature access kind timestamp schemaValid =
     ebind (object_of
       ([(''payload_encoding'',
           emap (\<lambda>p. hval_of (js_or (get_opt p ''encoding'') (js ''cbor''))) (path manifest [''payload''])),
         (''loaded_by'', Inr (HStr (u ''kdna-core''))),
         (''loaded_at'', Inr (hval_of timestamp)),
         (''input_kind'', Inr (hopt kind)),
         (''runtime_eligible'', Inr (HBool True)),
         (''schema_valid'', Inr (HBool schemaValid)),
         (''signature_state'', field (Some signature) [''state'']),
         (''profile'', field projection [''profile''])] @
        (if get_opt projection ''projection_report'' = None then []
         else [(''projection_report'', field projection [''projection_report''])]))) (\<lambda>trace.
     object_of
       [(''type'', Inr (HStr (u ''kdna.runtime-capsule''))),
        (''contract_version'', Inr (HStr (u ''0.1.0''))),
        (''asset'', object_of (map (\<lambda>f. (f, field manifest [f]))
                                [''asset_id'', ''asset_uid'', ''version'', ''judgment_version''])),
        (''digests'', Inr digests),
        (''signature'', Inr (hval_of signature)),
        (''access'', Inr (hval_of access)),
        (''profile'', field projection [''profile'']),
        (''context'', emap (\<lambda>c. hval_of (js_or c (JObj []))) (path projection [''content''])),
        (''trace'', Inr trace)])"

definition buildRuntimeCapsule :: "capsule_env \<Rightarrow> capsule_input \<Rightarrow> exn + json" where
  "buildRuntimeCapsule V i =
     (if \<not> is_object (in_projection i) \<or> is_array (in_projection i)
      then build_error ''Runtime Capsule builder requires a projection.''
      else if \<not> is_object (in_manifest i)
      then build_error ''Runtime Capsule builder requires the manifest.''
      else ebind (manifest_checks (in_manifest i)) (\<lambda>_.
      if in_kind i \<notin> (Some \<circ> js) ` {''packaged_file'', ''packaged_bytes''}
      then build_error ''Runtime Capsule input_kind must identify packaged bytes.''
      else ebind (assertSuccessfulDigestEvidence (in_digests i)) (\<lambda>_.
      let timestamp = js_or (in_loaded_at i) (JStr (now_iso V)) in
      if (case timestamp of JStr s \<Rightarrow> \<not> date_parses V s | _ \<Rightarrow> True)
      then build_error ''Runtime Capsule loaded_at must be an ISO date-time string.''
      else ebind (path (in_manifest i) [''access'']) (\<lambda>access0.
      let access = normalizeRuntimeAccess access0 in
      if access \<notin> js ` {''public'', ''licensed'', ''remote''}
      then ebind (to_str access) (\<lambda>shown.
             Inl (CodedError ''KDNA_RUNTIME_CAPSULE_BUILD_INVALID'' (u ''Unsupported Runtime access: '' @ shown @ u ''.'') None))
      else ebind (normalizeSignatureEvidence (in_signature i)) (\<lambda>signature.
      ebind (capsule_literal (in_projection i) (in_manifest i) (hopt (in_digests i)) signature access (in_kind i)
               timestamp (in_schema_valid i = Some (JBool True))) (\<lambda>capsule.
      assertRuntimeCapsuleSuccess V capsule ''KDNA_RUNTIME_CAPSULE_BUILD_INVALID''))))))"

section \<open>Comparisons\<close>

lemma get_jo [simp]: "map_of (map (\<lambda>(k, v). (u k, v)) ps) (u k) = map_of ps k"
  using map_of_ho [of "\<lambda>v. v" ps k] by (simp add: option.map_ident)

declare option.map_ident [simp]

lemma is_object_jo [simp]: "is_object (Some (jo ps))"
  by (simp add: is_object_def jo_def)

lemma get_opt_jo [simp]: "get_opt (Some (jo ps)) k = map_of ps k"
  by (simp add: jo_def)

lemma get_prop_jo [simp]: "get_prop (Some (jo ps)) k = Inr (map_of ps k)"
  by (simp add: jo_def)

lemma truthy_jo [simp]: "truthy (Some (jo ps))"
  by (simp add: truthy_def jo_def)

lemma js_inject [simp]: "js s = js t \<longleftrightarrow> s = t" "js s \<noteq> JNull" "JNull \<noteq> js s"
  by (simp_all add: js_def)

lemma is_str_js [simp]: "is_str (Some (js s)) t \<longleftrightarrow> s = t"
  by (simp add: js_def)

definition state_of :: "json \<Rightarrow> json option" where
  "state_of cmp = get_opt (Some cmp) ''state''"

lemma state_of_comparison [simp]:
  "state_of (digest_comparison a None t) = Some (js ''not_compared'')"
  "state_of (digest_comparison a (Some (v, s)) t) =
     Some (js (if strict_eq (Some (JStr a)) (Some v) then ''matched'' else ''mismatched''))"
  by (simp_all add: state_of_def digest_comparison_def)

text \<open>A declared digest that differs is reported whatever the caller expects.\<close>

lemma declaration_mismatch_wins:
  "\<not> strict_eq (Some (JStr a)) (Some v) \<Longrightarrow>
   comparisonWithDeclarationPriority a (Some (v, s)) ext t = digest_comparison a (Some (v, s)) t"
  using state_of_comparison(2) [of a v s t]
  by (simp add: comparisonWithDeclarationPriority_def Let_def state_of_def js_def)

lemma priority_not_mismatched:
  assumes "state_of (comparisonWithDeclarationPriority a decl ext t) \<noteq> Some (js ''mismatched'')"
  shows "decl = Some (v, s) \<Longrightarrow> v = JStr a" "ext = Some (w, s') \<Longrightarrow> w = JStr a"
proof -
  have d: "v = JStr a" if "decl = Some (v, s)" for v s
    using assms declaration_mismatch_wins [of a v s ext t] that
    by (cases "strict_eq (Some (JStr a)) (Some v)") auto
  then show "decl = Some (v, s) \<Longrightarrow> v = JStr a" .
  have "state_of (digest_comparison a decl t) \<noteq> Some (js ''mismatched'')"
    using d by (cases decl) auto
  then have "comparisonWithDeclarationPriority a decl (Some (w, s')) t = digest_comparison a (Some (w, s')) ''external_expected''"
    by (simp add: comparisonWithDeclarationPriority_def Let_def state_of_def js_def)
  then show "ext = Some (w, s') \<Longrightarrow> w = JStr a"
    using assms by (auto split: if_splits)
qed

lemma assert_item_state:
  assumes "assert_item digests name = Inr ()"
  obtains item state where "path digests [name] = Inr item" "truthy item"
    "comparison_state item = Inr state" "state = Some (js ''matched'') \<or> state = Some (js ''not_compared'')"
    "state = Some (js ''matched'') \<Longrightarrow>
       neq_paths item [''comparison'', ''expected''] item [''value''] = Inr False"
    "ebind (path item [''value'']) sha_test = Inr True"
    "neq_str item [''basis''] (the (map_of BASIS name)) = Inr False"
proof -
  obtain item state where i: "path digests [name] = Inr item" and st: "comparison_state item = Inr state"
    and g: "(if \<not> truthy item then Inr True
             else anyE [negE (ebind (path item [''value'']) sha_test),
                        neq_str item [''basis''] (the (map_of BASIS name))]) = Inr False"
    and a: "assert_state item name state = Inr ()"
    using assms by (auto simp: assert_item_def result_simps)
  have t: "truthy item" using g by (auto split: if_splits)
  have k: "is_str state ''matched'' \<or> is_str state ''not_compared''"
    using a by (auto simp: assert_state_def result_simps split: if_splits)
  have m: "neq_paths item [''comparison'', ''expected''] item [''value''] = Inr False" if "is_str state ''matched''"
    using a that by (auto simp: assert_state_def result_simps guard_simps)
  show thesis
    by (rule that [OF i t st]) (use k m g t in \<open>auto simp: js_def guard_simps result_simps\<close>)
qed

lemma assert_all_items:
  assumes "assertSuccessfulDigestEvidence digests = Inr ()" "name \<in> {''asset'', ''content'', ''runtime_entry_set''}"
  shows "assert_item digests name = Inr ()"
  using assms by (auto simp: assertSuccessfulDigestEvidence_def result_simps)

section \<open>Accepted evidence meets every expectation\<close>

lemma evidence_item_state:
  "comparison_state (Some (evidence_item b v c)) = (if truthy (Some c) then path (Some c) [''state''] else Inr (Some c))"
  by (simp add: comparison_state_def evidence_item_def path.simps)

lemma comparison_is_jo: "\<exists>ps. digest_comparison a e t = jo ps"
  by (cases e) (auto simp: digest_comparison_def)

lemma priority_is_jo: "\<exists>ps. comparisonWithDeclarationPriority a d e t = jo ps"
  using comparison_is_jo by (auto simp: comparisonWithDeclarationPriority_def Let_def)

lemma not_mismatched:
  assumes "assertSuccessfulDigestEvidence (Some ev) = Inr ()" "name \<in> {''asset'', ''content'', ''runtime_entry_set''}"
    and "get_prop (Some ev) name = Inr (Some (evidence_item b v c))" "\<exists>ps. c = jo ps"
  shows "state_of c \<noteq> Some (js ''mismatched'')"
proof -
  obtain ps where c: "c = jo ps" using assms(4) by blast
  obtain item state where "path (Some ev) [name] = Inr item" "comparison_state item = Inr state"
    "state = Some (js ''matched'') \<or> state = Some (js ''not_compared'')"
    using assert_item_state [OF assert_all_items [OF assms(1,2)]] by metis
  moreover have "path (Some ev) [name] = Inr (Some (evidence_item b v c))"
    using assms(3) by (simp add: path.simps)
  ultimately show ?thesis
    by (auto simp: evidence_item_state c path.simps state_of_def)
qed

lemma normalizeExpectedDigest_str:
  "normalizeExpectedDigest (Some (JStr v)) d al = Inr e \<Longrightarrow> e = Some (JStr v, u d)"
  by (auto simp: normalizeExpectedDigest_def nullish_def expectation_error_def js_def path.simps Let_def
      result_simps split: if_splits bool.splits option.splits json.splits)

lemma normalizeDeclaredDigest_str:
  "normalizeDeclaredDigest (Some (JStr v)) d = Inr e \<Longrightarrow> e = Some (JStr v, u d)"
  by (auto simp: normalizeDeclaredDigest_def normalizeExpectedDigest_def nullish_def expectation_error_def
      js_def path.simps result_simps is_object_def Let_def split: if_splits bool.splits option.splits json.splits)

theorem accepted_evidence_matches:
  assumes "computeDigestEvidence a c r manifest checksums (Some (JObj ext)) = Inr ev"
    and "assertSuccessfulDigestEvidence (Some ev) = Inr ()"
  shows "map_of ext (u ''asset'') = Some (JStr v) \<Longrightarrow> v = a"
    and "map_of ext (u ''content'') = Some (JStr v) \<Longrightarrow> v = c"
    and "map_of ext (u ''runtime_entry_set'') = Some (JStr v) \<Longrightarrow> v = r"
    and "declaredContentDigest manifest = Inr (Some (d, s)) \<Longrightarrow> d = JStr c"
    and "declaredEntrySetDigest checksums = Inr (Some (d, s)) \<Longrightarrow> d = JStr r"
proof -
  obtain ea ec er dc de where
    e: "normalizeExpectedDigest (map_of ext (u ''asset'')) ''caller'' EXTERNAL_COMPARISON_SOURCES = Inr ea"
       "normalizeExpectedDigest (map_of ext (u ''content'')) ''caller'' EXTERNAL_COMPARISON_SOURCES = Inr ec"
       "normalizeExpectedDigest (map_of ext (u ''runtime_entry_set'')) ''caller'' EXTERNAL_COMPARISON_SOURCES = Inr er"
    and d: "declaredContentDigest manifest = Inr dc" "declaredEntrySetDigest checksums = Inr de"
    and ev: "ev = jo
          [(''profile'', js ''kdna.digest-evidence''), (''profile_version'', js ''0.1.0''),
           (''asset'', evidence_item ''kdna.digest-basis.container-bytes'' a
              (digest_comparison a ea ''external_expected'')),
           (''content'', evidence_item ''kdna.digest-basis.content-tree'' c
              (comparisonWithDeclarationPriority c dc ec ''manifest_declaration'')),
           (''runtime_entry_set'', evidence_item ''kdna.digest-basis.runtime-entry-set'' r
              (comparisonWithDeclarationPriority r de er ''checksum_declaration''))]"
    using assms(1) by (auto simp: computeDigestEvidence_def truthy_def path.simps result_simps)
  have sa: "state_of (digest_comparison a ea ''external_expected'') \<noteq> Some (js ''mismatched'')"
    by (rule not_mismatched [OF assms(2), of "''asset''" "''kdna.digest-basis.container-bytes''" a])
       (use comparison_is_jo in \<open>simp_all add: ev\<close>)
  have sc: "state_of (comparisonWithDeclarationPriority c dc ec ''manifest_declaration'') \<noteq> Some (js ''mismatched'')"
    by (rule not_mismatched [OF assms(2), of "''content''" "''kdna.digest-basis.content-tree''" c])
       (use priority_is_jo in \<open>simp_all add: ev\<close>)
  have sr: "state_of (comparisonWithDeclarationPriority r de er ''checksum_declaration'') \<noteq> Some (js ''mismatched'')"
    by (rule not_mismatched [OF assms(2), of "''runtime_entry_set''" "''kdna.digest-basis.runtime-entry-set''" r])
       (use priority_is_jo in \<open>simp_all add: ev\<close>)
  show "v = a" if "map_of ext (u ''asset'') = Some (JStr v)"
  proof -
    have "ea = Some (JStr v, u ''caller'')" using normalizeExpectedDigest_str e(1) that by metis
    then show ?thesis using sa by (auto split: if_splits)
  qed
  show "v = c" if "map_of ext (u ''content'') = Some (JStr v)"
  proof -
    have "ec = Some (JStr v, u ''caller'')" using normalizeExpectedDigest_str e(2) that by metis
    then show ?thesis using priority_not_mismatched(2) [OF sc] by auto
  qed
  show "v = r" if "map_of ext (u ''runtime_entry_set'') = Some (JStr v)"
  proof -
    have "er = Some (JStr v, u ''caller'')" using normalizeExpectedDigest_str e(3) that by metis
    then show ?thesis using priority_not_mismatched(2) [OF sr] by auto
  qed
  show "d = JStr c" if "declaredContentDigest manifest = Inr (Some (d, s))"
    using that d(1) priority_not_mismatched(1) [OF sc] by simp
  show "d = JStr r" if "declaredEntrySetDigest checksums = Inr (Some (d, s))"
    using that d(2) priority_not_mismatched(1) [OF sr] by simp
qed

section \<open>Signatures never downgrade\<close>

lemma sha_test_Str: "sha_test (Some (JStr s)) = Inr True \<longleftrightarrow> is_sha256_text s"
  by (auto simp: sha_test_def truthy_def is_sha256_text_def is_hex64_def)

theorem signature_evidence_cases:
  "normalizeSignatureEvidence signature = Inr out \<longleftrightarrow>
     (signature = None \<or> (\<exists>ps. signature = Some (JObj ps) \<and> map_of ps (u ''state'') = Some (js ''absent'') \<and>
        (\<forall>k \<in> fst ` set ps. k = u ''state''))) \<and> out = jo [(''state'', js ''absent'')] \<or>
     (\<exists>ps f c. signature = Some (JObj ps) \<and> map_of ps (u ''state'') = Some (js ''verified'') \<and>
        join (u '','') (sort (map fst ps)) = join (u '','') (sort (map u VERIFIED_FIELDS)) \<and>
        map_of ps (u ''profile'') = Some (js KDSIG_PROFILE) \<and>
        map_of ps (u ''profile_version'') = Some (js KDSIG_PROFILE_VERSION) \<and>
        map_of ps (u ''key_fingerprint'') = Some f \<and> sha_test (Some f) = Inr True \<and>
        map_of ps (u ''content_digest'') = Some c \<and> sha_test (Some c) = Inr True \<and>
        out = jo [(''state'', js ''verified''), (''profile'', js KDSIG_PROFILE),
                  (''profile_version'', js KDSIG_PROFILE_VERSION), (''key_fingerprint'', f), (''content_digest'', c)])"
  (is "?L \<longleftrightarrow> ?A \<or> ?V")
proof (cases signature)
  case None
  then show ?thesis by (auto simp: normalizeSignatureEvidence_def)
next
  case (Some j)
  have n: "sha_test None \<noteq> Inr True" by (simp add: sha_test_def truthy_def)
  show ?thesis
  proof (cases j)
    case (JObj ps)
    have f: "filter (\<lambda>k. k \<noteq> u ''state'') (map fst ps) = [] \<longleftrightarrow> (\<forall>k \<in> fst ` set ps. k = u ''state'')"
      by (auto simp: filter_empty_conv)
    show ?thesis
    proof (cases "is_str (map_of ps (u ''state'')) ''absent''")
      case True
      then show ?thesis using Some JObj f
        by (auto simp: normalizeSignatureEvidence_def build_error_def fail_def js_def)
    next
      case na: False
      show ?thesis
      proof (cases "is_str (map_of ps (u ''state'')) ''verified''")
        case True
        then show ?thesis using Some JObj na n
          by (cases "map_of ps (u ''key_fingerprint'')"; cases "map_of ps (u ''content_digest'')")
             (auto simp: normalizeSignatureEvidence_def build_error_def fail_def unsupported_signature_def js_def result_simps)
      next
        case False
        then show ?thesis using Some JObj na
          by (auto simp: normalizeSignatureEvidence_def unsupported_signature_def js_def)
      qed
    qed
  qed (use Some in \<open>auto simp: normalizeSignatureEvidence_def build_error_def fail_def\<close>)
qed

section \<open>Built capsules\<close>

theorem buildRuntimeCapsule_sound:
  assumes "buildRuntimeCapsule V i = Inr c"
  shows "capsule_errors V c = None" "scalar_json c"
    "\<exists>d. path (Some c) [''digests''] = Inr d \<and> assertSuccessfulDigestEvidence d = Inr ()"
    "neq_paths (Some c) [''signature'', ''state''] (Some c) [''trace'', ''signature_state''] = Inr False"
    "\<exists>s. normalizeSignatureEvidence (in_signature i) = Inr s"
proof -
  obtain capsule where cap: "assertRuntimeCapsuleSuccess V capsule ''KDNA_RUNTIME_CAPSULE_BUILD_INVALID'' = Inr c"
    and s: "\<exists>s. normalizeSignatureEvidence (in_signature i) = Inr s"
    using assms by (auto simp: buildRuntimeCapsule_def build_error_def fail_def Let_def result_simps split: if_splits)
  show "\<exists>s. normalizeSignatureEvidence (in_signature i) = Inr s" by (rule s)
  obtain t where t: "canonicalizeJcs capsule = Inr t"
    using cap by (cases "canonicalizeJcs capsule") (auto simp: assertRuntimeCapsuleSuccess_def)
  then obtain j where j: "plain_view capsule = Some j" "scalar_json j"
    by (auto simp: canonicalizeJcs_success)
  have cj: "c = j" "capsule_errors V j = None"
    using cap t j by (auto simp: assertRuntimeCapsuleSuccess_def Let_def fail_def result_simps
        split: option.splits if_splits)
  then show "capsule_errors V c = None" "scalar_json c" using j by simp_all
  show "\<exists>d. path (Some c) [''digests''] = Inr d \<and> assertSuccessfulDigestEvidence d = Inr ()"
    "neq_paths (Some c) [''signature'', ''state''] (Some c) [''trace'', ''signature_state''] = Inr False"
    using cap t j cj by (auto simp: assertRuntimeCapsuleSuccess_def Let_def fail_def result_simps split: if_splits)
qed

end
