(* ===== verification/Scenario.thy ===== *)
theory Scenario
  imports TraceProperties RuntimeCapsule
begin

text \<open>
  A complete concrete exchange: a plan, the capabilities of a host, a capsule, the request built from
  them, the receipt of a host that executed it, and the judgment trace of the execution; and a second
  trace for the same plan that never reached a host.  The lemmas show that every validator accepts
  its part when the schema validators accept everything, so the theorems about accepted values are
  not vacuous.  The values are what the contract calls for; only the digests stay symbolic terms.
\<close>

section \<open>Bounds on canonical texts\<close>

definition limit_text :: jstring where "limit_text = map digit_unit [1, 0, 0, 0, 0, 0]"

lemma number_to_string_limit: "number_to_string (Fin 100000) = limit_text"
proof -
  have i: "ilog 10 (100000 :: rat) = 5" by (rule ilog_unique) simp_all
  have d: "to_double 100000 = Fin 100000" "to_double 200000 = Fin 200000"
    using is_double_of_int [of 100000] is_double_of_int [of 200000] by (simp_all add: is_double_def)
  have p: "pick_digits 1 100000 = Some 1"
    by (simp add: pick_digits_def i d)
  have "shortest_digits 1 100000 = (1, 1)"
    by (subst shortest_digits.simps) (simp only: p option.case)
  then have "number_digits 100000 = (1, 1, 6)"
    by (simp add: number_digits_def i)
  then have "number_parts 100000 = ([1, 0, 0, 0, 0, 0], [], None)"
    by (simp add: number_parts_def eval_nat_numeral dec_digits.simps)
  then show ?thesis
    by (simp add: number_to_string_def token_text_def exponent_text_def limit_text_def)
qed

fun csize :: "json \<Rightarrow> nat" where
  "csize JNull = 4"
| "csize (JBool b) = 5"
| "csize (JNum n) = length (number_to_string n)"
| "csize (JStr s) = 6 * length s + 2"
| "csize (JArr xs) = sum_list (map (\<lambda>x. Suc (csize x)) xs) + 2"
| "csize (JObj ps) = sum_list (map (\<lambda>(k, x). 6 * length k + 4 + csize x) ps) + 2"

lemma length_join_le: "length (join (u '','') ts) \<le> sum_list (map (\<lambda>t. Suc (length t)) ts)"
  by (induction "u '',''" ts rule: join.induct) (auto simp: u_def)

lemma length_json_quote: "length (json_quote s) \<le> 6 * length s + 2"
  using length_units_le [of s] by (simp add: json_quote_def)

lemma sum_list_sort: "sum_list (map f (sort_key g xs)) = sum_list (map (f :: 'a \<Rightarrow> nat) xs)"
  by (metis mset_map mset_sort sum_mset_sum_list)

lemma length_canon_csize: "length (canon j) \<le> csize j"
proof (induction j)
  case (JArr xs)
  have "length (join (u '','') (map canon xs)) \<le> sum_list (map (\<lambda>t. Suc (length t)) (map canon xs))"
    by (rule length_join_le)
  also have "\<dots> \<le> sum_list (map (\<lambda>x. Suc (csize x)) xs)"
    unfolding map_map by (rule sum_list_mono) (use JArr in auto)
  finally show ?case by (simp add: u_def)
next
  case (JObj ps)
  let ?t = "\<lambda>(k, t). json_quote k @ u '':'' @ t"
  let ?ms = "map (\<lambda>(k, v). (k, canon v)) ps"
  have "length (join (u '','') (map ?t (sort_key fst ?ms)))
        \<le> sum_list (map (\<lambda>t. Suc (length t)) (map ?t (sort_key fst ?ms)))"
    by (rule length_join_le)
  also have "\<dots> = sum_list (map (\<lambda>p. Suc (length (?t p))) ?ms)"
    by (simp only: map_map comp_def sum_list_sort)
  also have "\<dots> \<le> sum_list (map (\<lambda>(k, x). 6 * length k + 4 + csize x) ps)"
    unfolding map_map
  proof (rule sum_list_mono)
    fix p assume p: "p \<in> set ps"
    obtain k x where kx: "p = (k, x)" by (cases p)
    have "length (canon x) \<le> csize x" using JObj p kx by (auto simp: Basic_BNFs.snds.simps)
    then show "((\<lambda>p. Suc (length (?t p))) \<circ> (\<lambda>(k, v). (k, canon v))) p \<le> (\<lambda>(k, x). 6 * length k + 4 + csize x) p"
      using length_json_quote [of k] by (simp add: kx u_def)
  qed
  finally show ?case by (simp add: u_def canon.simps)
qed (use length_json_quote in \<open>auto simp: u_def\<close>)

lemma fits_limits_csize: "csize j \<le> 699050 \<Longrightarrow> json_depth j \<le> 64 \<Longrightarrow> fits_limits j"
  using length_canon_csize [of j] length_utf8_le [of "canon j"]
  by (simp add: fits_limits_def JSON_MAX_DEPTH_def JSON_MAX_BYTES_def)

lemma csize_jo: "csize (jo ps) = sum_list (map (\<lambda>(k, x). 6 * length k + 4 + csize x) ps) + 2"
  by (simp add: jo_def comp_def split_def u_def)

lemma csize_js: "csize (js s) = 6 * length s + 2"
  by (simp add: js_def u_def)

lemma depth_jo: "json_depth (jo ps) = Suc (Max (insert 0 (json_depth ` snd ` set ps)))"
  by (simp add: jo_def image_image split_def)

lemma depth_js [simp]: "json_depth (js s) = 0"
  by (simp add: js_def)

lemma length_digest [simp]: "length (json_digest.digest j) = 71"
  using is_sha256_text_digest [of "canon j"]
  by (auto simp: json_digest.digest_def is_sha256_text_def is_hex64_def u_def)

lemma wf_digest [simp]: "wf_json (JStr (json_digest.digest j))" "wf_utf16 (json_digest.digest j)"
  using sha256_text_wf [OF is_sha256_text_digest [of "canon j"]] by (simp_all add: json_digest.digest_def)

lemma sha_digest [simp]: "is_sha256_text (json_digest.digest j)"
  by (simp add: json_digest.digest_def)

section \<open>Plan, host and capsule\<close>

definition accept_all :: validators where "accept_all = (\<lambda>_ _. None)"

definition d_limit :: json where "d_limit = JNum (Fin 100000)"

definition d_expected :: json where
  "d_expected = jo [(''asset'', JNull), (''content'', JNull), (''runtime_entry_set'', JNull)]"

definition d_asset :: json where
  "d_asset =
     jo [(''asset_id'', js ''kdna:example''), (''asset_uid'', js ''uid-1''), (''version'', js ''1.0.0''),
         (''judgment_version'', js ''1.0.0''), (''access'', js ''public''), (''expected_digests'', d_expected)]"

definition d_budget :: json where
  "d_budget =
     jo [(''max_projection_chars'', d_limit), (''max_task_chars'', d_limit), (''deadline_ms'', d_limit),
         (''max_tokens'', JNull), (''max_model_calls'', JNull)]"

definition d_task :: json where "d_task = js ''review the change''"

definition d_plan_with :: "jstring \<Rightarrow> json" where
  "d_plan_with t =
     plan_json (js ''plan-1'') (js ''2026-01-01T00:00:00Z'') d_task d_asset (js ''index'') d_budget (JObj []) (JArr []) t"

definition d_plan_digest :: jstring where "d_plan_digest = json_digest.digest (plan_body (d_plan_with []))"

definition d_plan :: json where "d_plan = d_plan_with d_plan_digest"

definition d_caps :: json where
  "d_caps =
     jo [(''capsule_versions'', JArr [js ''0.1.0'']), (''host_protocols'', JArr [js ''kdna.agent-host'']),
         (''capability_basis'', js ''registered_descriptor''),
         (''capsule_digest_profiles'', JArr [js ''kdna.canonicalization.runtime-capsule-jcs''])]"

definition d_core :: json where "d_core = JArr [js ''0.1.0'']"

definition d_item :: "string \<Rightarrow> json" where
  "d_item basis =
     jo [(''value'', JStr (json_digest.digest JNull)), (''basis'', js basis),
         (''comparison'', jo [(''state'', js ''not_compared''), (''against'', JNull), (''expected'', JNull),
                              (''source'', JNull)])]"

definition d_evidence :: json where
  "d_evidence =
     jo [(''profile'', js ''kdna.digest-evidence''), (''profile_version'', js ''0.1.0''),
         (''asset'', d_item ''kdna.digest-basis.container-bytes''),
         (''content'', d_item ''kdna.digest-basis.content-tree''),
         (''runtime_entry_set'', d_item ''kdna.digest-basis.runtime-entry-set'')]"

definition d_capsule :: json where
  "d_capsule =
     jo [(''contract_version'', js ''0.1.0''),
         (''asset'', jo [(''asset_id'', js ''kdna:example''), (''asset_uid'', js ''uid-1''),
                         (''version'', js ''1.0.0''), (''judgment_version'', js ''1.0.0'')]),
         (''access'', js ''public''), (''profile'', js ''index''), (''digests'', d_evidence)]"

lemmas d_data = d_limit_def d_expected_def d_asset_def d_budget_def d_task_def d_caps_def d_core_def
  d_item_def d_evidence_def d_capsule_def

lemma wf_limit [simp]: "wf_json d_limit" "scalar_json d_limit"
  using is_double_of_int [of 100000] by (simp_all add: d_limit_def wf_number_def)

lemma wf_data [simp]:
  "wf_json d_expected" "wf_json d_asset" "wf_json d_budget" "wf_json d_task" "wf_json d_caps" "wf_json d_core"
  "wf_json d_evidence" "wf_json d_capsule"
  by (simp_all add: wf_jo d_expected_def d_asset_def d_budget_def d_task_def d_caps_def d_core_def
      d_item_def d_evidence_def d_capsule_def)

lemma csize_limit [simp]: "csize d_limit = 6"
  by (simp add: d_limit_def number_to_string_limit limit_text_def)

lemma depth_limit [simp]: "json_depth d_limit = 0"
  by (simp add: d_limit_def)

lemma csize_data: "csize d_asset \<le> 2000" "csize d_budget \<le> 2000" "csize d_task \<le> 200" "csize d_caps \<le> 2000"
  "csize d_core \<le> 100" "csize d_evidence \<le> 5000" "csize d_capsule \<le> 8000"
  by (simp_all add: csize_jo csize_js d_expected_def d_asset_def d_budget_def d_task_def d_caps_def d_core_def
      d_item_def d_evidence_def d_capsule_def)

lemma depth_data [simp]: "json_depth d_asset = 2" "json_depth d_budget = 1" "json_depth d_task = 0" "json_depth d_caps = 2"
  "json_depth d_core = 1" "json_depth d_evidence = 3" "json_depth d_capsule = 4"
  by (simp_all add: depth_jo d_expected_def d_asset_def d_budget_def d_task_def d_caps_def d_core_def
      d_item_def d_evidence_def d_capsule_def)

lemma fits_plan: "length t \<le> 71 \<Longrightarrow> fits_limits (d_plan_with t)"
proof (rule fits_limits_csize)
  assume "length t \<le> 71"
  then show "csize (d_plan_with t) \<le> 699050"
    using csize_data(1-3) by (simp add: d_plan_with_def plan_json_def csize_jo csize_js)
qed (simp add: d_plan_with_def plan_json_def depth_jo)

lemma wf_plan: "wf_utf16 t \<Longrightarrow> wf_json (d_plan_with t)"
  by (simp add: d_plan_with_def plan_json_def wf_jo)

lemma d_plan_built:
  "buildConsumptionPlan accept_all
     (ho [(''plan_id'', hval_of (js ''plan-1'')), (''created_at'', hval_of (js ''2026-01-01T00:00:00Z'')),
          (''task'', hval_of d_task), (''asset_ref'', hval_of d_asset), (''projection_profile'', hval_of (js ''index'')),
          (''budget'', hval_of d_budget), (''trace_policy'', hval_of (JObj [])), (''constraints'', hval_of (JArr []))]) =
   Inr (hval_of d_plan)"
  "validateConsumptionPlan accept_all (hval_of d_plan) (ho [(''trustedPlanDigest'', HStr d_plan_digest)]) =
     Inr (Valid (jnorm d_plan))"
proof -
  have e: "d_plan_with = plan_json (js ''plan-1'') (js ''2026-01-01T00:00:00Z'') d_task d_asset (js ''index'')
      d_budget (JObj []) (JArr [])"
    by (rule ext) (simp add: d_plan_with_def)
  have "fits_limits (d_plan_with d_plan_digest)"
    by (rule fits_plan) (simp add: d_plan_digest_def)
  note r = buildConsumptionPlan_json [OF e _ _ _ _ _ _ _ _ d_plan_digest_def this, of accept_all]
  show "buildConsumptionPlan accept_all
     (ho [(''plan_id'', hval_of (js ''plan-1'')), (''created_at'', hval_of (js ''2026-01-01T00:00:00Z'')),
          (''task'', hval_of d_task), (''asset_ref'', hval_of d_asset), (''projection_profile'', hval_of (js ''index'')),
          (''budget'', hval_of d_budget), (''trace_policy'', hval_of (JObj [])), (''constraints'', hval_of (JArr []))]) =
   Inr (hval_of d_plan)"
    unfolding d_plan_def by (rule r(1)) (simp_all add: accept_all_def)
  show "validateConsumptionPlan accept_all (hval_of d_plan) (ho [(''trustedPlanDigest'', HStr d_plan_digest)]) =
     Inr (Valid (jnorm d_plan))"
    unfolding d_plan_def by (rule r(2)) (simp_all add: accept_all_def)
qed

section \<open>The selected pair\<close>

lemma wf_d_plan [simp]: "wf_json d_plan" "scalar_json d_plan"
  by (simp_all add: d_plan_def wf_plan d_plan_digest_def scalar_json_wf)

lemma sha_plan_digest [simp]: "is_sha256_text d_plan_digest" "wf_utf16 d_plan_digest"
  by (simp_all add: d_plan_digest_def)

lemma snapshot_data [simp]:
  "snapshotJsonValue (hval_of d_caps) = Inr (jnorm d_caps)"
  "snapshotJsonValue (hval_of d_core) = Inr d_core"
  "snapshotJsonValue (HStr d_plan_digest) = Inr (JStr d_plan_digest)"
  using snapshot_hval_of [OF wf_data(5) fits_limits_csize] csize_data(4)
    snapshot_hval_of [OF wf_data(6) fits_limits_csize] csize_data(5)
  by (simp_all add: snapshot_sha256_text) (simp_all add: d_core_def js_def)

definition d_pair_context :: hval where
  "d_pair_context =
     ho [(''trustedPlanDigest'', HStr d_plan_digest), (''capabilities'', hval_of d_caps),
         (''coreCapsuleVersions'', hval_of d_core)]"

lemma snapshot_pair_context:
  "snapshotContext d_pair_context [''trustedPlanDigest'', ''capabilities'', ''coreCapsuleVersions''] =
     Valid (jo [(''trustedPlanDigest'', JStr d_plan_digest), (''capabilities'', jnorm d_caps),
                (''coreCapsuleVersions'', d_core)])"
  by (simp add: d_pair_context_def snapshotContext_def ho_def all_enumerable_data_def ok_def jo_def)

lemma path_jnorm_plan:
  "''length'' \<notin> set ks \<Longrightarrow> path (Some (jnorm d_plan)) ks = emap (map_option jnorm) (path (Some d_plan) ks)"
  using path_jnorm [of "Some d_plan" ks] by simp

lemma path_jnorm_caps:
  "''length'' \<notin> set ks \<Longrightarrow> path (Some (jnorm d_caps)) ks = emap (map_option jnorm) (path (Some d_caps) ks)"
  using path_jnorm [of "Some d_caps" ks] by simp

lemmas d_plan_unfold = d_plan_def d_plan_with_def plan_json_def

lemma ebind_right_unit [simp]: "ebind m Inr = m"
  by (cases m) auto

lemma d_plan_paths [simp]:
  "path (Some d_plan) [''plan_id''] = Inr (Some (js ''plan-1''))"
  "path (Some d_plan) [''task''] = Inr (Some d_task)"
  "path (Some d_plan) [''asset_ref''] = Inr (Some d_asset)"
  "path (Some d_plan) [''budget''] = Inr (Some d_budget)"
  "path (Some d_plan) [''constraints''] = Inr (Some (JArr []))"
  "path (Some d_plan) [''result_request''] = Inr (Some (jo [(''shape'', js ''structured_judgment'')]))"
  "path (Some d_plan) [''integrity'', ''profile''] = Inr (Some (js ''kdna.canonicalization.consumption-plan-jcs''))"
  "path (Some d_plan) [''integrity'', ''profile_version''] = Inr (Some (js ''0.1.0''))"
  "path (Some d_plan) [''integrity'', ''plan_digest''] = Inr (Some (JStr d_plan_digest))"
  "path (Some d_plan) [''projection_request'', ''profile''] = Inr (Some (js ''index''))"
  "path (Some d_plan) [''projection_request'', ''accepted_capsule_versions''] = Inr (Some (JArr [js ''0.1.0'']))"
  "path (Some d_plan) [''projection_request'', ''required_digest_profile''] = Inr (Some (js ''kdna.digest-evidence''))"
  "path (Some d_plan) [''projection_request'', ''required_digest_profile_version''] = Inr (Some (js ''0.1.0''))"
  "path (Some d_plan) [''projection_request'', ''require_packaged_asset''] = Inr (Some (JBool True))"
  "path (Some d_plan) [''host_request'', ''accepted_protocols''] = Inr (Some (JArr [js ''kdna.agent-host'']))"
  "path (Some d_plan) [''asset_ref'', k] = get_prop (Some d_asset) k"
  "path (Some d_plan) [''budget'', k] = get_prop (Some d_budget) k"
  by (simp_all add: d_plan_unfold path.simps)

lemma d_caps_paths [simp]:
  "path (Some d_caps) [''capsule_versions''] = Inr (Some (JArr [js ''0.1.0'']))"
  "path (Some d_caps) [''host_protocols''] = Inr (Some (JArr [js ''kdna.agent-host'']))"
  "path (Some d_caps) [''capability_basis''] = Inr (Some (js ''registered_descriptor''))"
  "path (Some d_caps) [''capsule_digest_profiles''] = Inr (Some (JArr [js ''kdna.canonicalization.runtime-capsule-jcs'']))"
  by (simp_all add: d_caps_def path.simps)

lemma jo_not_null [simp]: "jo ps \<noteq> JNull" "JNull \<noteq> jo ps"
  by (simp_all add: jo_def)

lemma path_jo1 [simp]: "path (Some (jo ps)) [k] = Inr (map_of ps k)"
  by (simp add: path.simps)

lemma jnorm_js [simp]: "jnorm (js s) = js s"
  by (simp add: js_def)

lemma d_pair_selected: "negotiateRuntimePair accept_all (hval_of d_plan) d_pair_context = Inr Selected"
proof -
  let ?sc = "jo [(''trustedPlanDigest'', JStr d_plan_digest), (''capabilities'', jnorm d_caps),
                 (''coreCapsuleVersions'', d_core)]"
  have fc: "fits_limits (jnorm d_caps)" using fits_limits_csize [of d_caps] csize_data(4) by simp
  have c: "validateSchema accept_all ''capabilities'' (hval_of (jnorm d_caps)) = Valid (jnorm d_caps)"
    using snapshot_hval_of [OF wf_json_jnorm fc] by (simp add: validateSchema_Valid accept_all_def)
  have p: "validateConsumptionPlan accept_all (hval_of d_plan) (plan_context ?sc) = Inr (Valid (jnorm d_plan))"
    using d_plan_built(2) by (simp add: plan_context_def hopt_def)
  have g: "first_code (pair_guards (jnorm d_plan) ?sc (jnorm d_caps)) = Inr None"
    unfolding pair_guards_None
    by (simp add: includes_path_def path_jnorm_plan path_jnorm_caps js_includes_def d_core_def)
       (simp add: js_def)
  show ?thesis
    by (simp add: negotiateRuntimePair_def snapshot_pair_context nbind_def p c g hopt_def is_string_array_def)
       (simp add: d_core_def js_def)
qed

section \<open>The request\<close>

definition d_delivery :: jstring where "d_delivery = json_digest.digest d_capsule"

definition d_plan_ref :: json where
  "d_plan_ref =
     jo [(''plan_id'', js ''plan-1''),
         (''plan_digest_profile'', js ''kdna.canonicalization.consumption-plan-jcs''),
         (''plan_digest_profile_version'', js ''0.1.0''), (''plan_digest'', JStr d_plan_digest)]"

definition d_request_contract :: json where
  "d_request_contract =
     jo [(''capsule_version'', js ''0.1.0''),
         (''capsule_digest_profile'', js ''kdna.canonicalization.runtime-capsule-jcs''),
         (''capsule_digest_profile_version'', js ''0.1.0''), (''capsule_delivery_digest'', JStr d_delivery)]"

definition d_projection :: json where
  "d_projection =
     jo [(''profile'', js ''index''), (''required_digest_profile'', js ''kdna.digest-evidence''),
         (''required_digest_profile_version'', js ''0.1.0''), (''require_packaged_asset'', JBool True)]"

definition d_request :: json where
  "d_request =
     jo [(''protocol'', js ''kdna.agent-host''), (''protocol_version'', js ''0.1.0''), (''request_id'', js ''request-1''),
         (''plan_ref'', d_plan_ref), (''runtime_contract'', d_request_contract),
         (''projection_contract'', d_projection),
         (''result_contract'', jo [(''shape'', js ''structured_judgment'')]),
         (''budget'', d_budget), (''constraints'', JArr []), (''phase'', js ''single_judgment''), (''task'', d_task),
         (''authority'', jo [(''asset_id'', js ''kdna:example''), (''role'', js ''primary''),
                             (''final_decision'', JBool True)]),
         (''asset'', with_member (Some d_asset) ''role'' (js ''primary'')), (''capsule'', d_capsule)]"

lemma wf_delivery [simp]: "wf_utf16 d_delivery" "is_sha256_text d_delivery"
  by (simp_all add: d_delivery_def)

lemma role_member:
  "with_member (Some d_asset) ''role'' (js ''primary'') =
     jo [(''asset_id'', js ''kdna:example''), (''asset_uid'', js ''uid-1''), (''version'', js ''1.0.0''),
         (''judgment_version'', js ''1.0.0''), (''access'', js ''public''), (''expected_digests'', d_expected),
         (''role'', js ''primary'')]"
  by (simp add: with_member_def d_asset_def jo_def spread_def)

lemma wf_request [simp]: "wf_json d_request" "scalar_json d_request"
  by (simp_all add: d_request_def d_plan_ref_def d_request_contract_def d_projection_def role_member wf_jo scalar_json_wf)

lemma d_request_tops [simp]:
  "path (Some d_request) [''protocol''] = Inr (Some (js ''kdna.agent-host''))"
  "path (Some d_request) [''protocol_version''] = Inr (Some (js ''0.1.0''))"
  "path (Some d_request) [''request_id''] = Inr (Some (js ''request-1''))"
  "path (Some d_request) [''projection_contract''] = Inr (Some d_projection)"
  "path (Some d_request) [''result_contract''] = Inr (Some (jo [(''shape'', js ''structured_judgment'')]))"
  "path (Some d_request) [''budget''] = Inr (Some d_budget)"
  "path (Some d_request) [''constraints''] = Inr (Some (JArr []))"
  "path (Some d_request) [''task''] = Inr (Some d_task)"
  "path (Some d_request) [''asset''] = Inr (Some (with_member (Some d_asset) ''role'' (js ''primary'')))"
  "path (Some d_request) [''capsule''] = Inr (Some d_capsule)"
  by (simp_all add: d_request_def)

lemma path_in [simp]:
  "path (Some d_request) [''plan_ref'', k] = path (Some d_plan_ref) [k]"
  "path (Some d_request) [''runtime_contract'', k] = path (Some d_request_contract) [k]"
  "path (Some d_request) [''projection_contract'', k] = path (Some d_projection) [k]"
  "path (Some d_request) [''budget'', k] = path (Some d_budget) [k]"
  "path (Some d_request) [''result_contract'', ''shape''] = Inr (Some (js ''structured_judgment''))"
  "path (Some d_request) [''authority'', ''asset_id''] = Inr (Some (js ''kdna:example''))"
  "path (Some d_request) [''capsule'', ''contract_version''] = Inr (Some (js ''0.1.0''))"
  "path (Some d_request) [''capsule'', ''access''] = Inr (Some (js ''public''))"
  "path (Some d_request) [''capsule'', ''profile''] = Inr (Some (js ''index''))"
  "path (Some d_request) [''capsule'', ''digests''] = Inr (Some d_evidence)"
  "path (Some d_request) [''capsule'', ''digests'', ''profile''] = Inr (Some (js ''kdna.digest-evidence''))"
  "path (Some d_request) [''capsule'', ''digests'', ''profile_version''] = Inr (Some (js ''0.1.0''))"
  "f \<in> {''asset_id'', ''asset_uid'', ''version'', ''judgment_version''} \<Longrightarrow>
     path (Some d_request) [''capsule'', ''asset'', f] = path (Some d_asset) [f]"
  by (auto simp: d_request_def d_capsule_def d_evidence_def d_asset_def path.simps)

lemma d_leaf_paths [simp]:
  "path (Some d_plan_ref) [''plan_id''] = Inr (Some (js ''plan-1''))"
  "path (Some d_plan_ref) [''plan_digest_profile''] = Inr (Some (js ''kdna.canonicalization.consumption-plan-jcs''))"
  "path (Some d_plan_ref) [''plan_digest_profile_version''] = Inr (Some (js ''0.1.0''))"
  "path (Some d_plan_ref) [''plan_digest''] = Inr (Some (JStr d_plan_digest))"
  "path (Some d_request_contract) [''capsule_version''] = Inr (Some (js ''0.1.0''))"
  "path (Some d_request_contract) [''capsule_digest_profile''] = Inr (Some (js ''kdna.canonicalization.runtime-capsule-jcs''))"
  "path (Some d_request_contract) [''capsule_digest_profile_version''] = Inr (Some (js ''0.1.0''))"
  "path (Some d_request_contract) [''capsule_delivery_digest''] = Inr (Some (JStr d_delivery))"
  "path (Some d_projection) [''profile''] = Inr (Some (js ''index''))"
  "path (Some d_budget) [''max_projection_chars''] = Inr (Some d_limit)"
  "path (Some d_budget) [''max_task_chars''] = Inr (Some d_limit)"
  "path (Some d_budget) [''deadline_ms''] = Inr (Some d_limit)"
  "path (Some d_budget) [''max_tokens''] = Inr (Some JNull)"
  "path (Some d_budget) [''max_model_calls''] = Inr (Some JNull)"
  "path (Some d_asset) [''asset_id''] = Inr (Some (js ''kdna:example''))"
  "path (Some d_asset) [''asset_uid''] = Inr (Some (js ''uid-1''))"
  "path (Some d_asset) [''version''] = Inr (Some (js ''1.0.0''))"
  "path (Some d_asset) [''judgment_version''] = Inr (Some (js ''1.0.0''))"
  "path (Some d_asset) [''access''] = Inr (Some (js ''public''))"
  "path (Some d_asset) [''expected_digests''] = Inr (Some d_expected)"
  by (simp_all add: d_plan_ref_def d_request_contract_def d_projection_def d_budget_def d_asset_def)

lemma get_prop_path: "get_prop v k = path v [k]"
  by (simp add: path.simps)

lemma plan_body_d: "plan_body d_plan = plan_body (d_plan_with [])"
  unfolding d_plan_def d_plan_with_def by (rule plan_body_digest)

lemma computeConsumptionPlanDigest_d [simp]: "computeConsumptionPlanDigest (hval_of d_plan) = Inr d_plan_digest"
proof -
  have "is_obj d_plan" by (simp add: d_plan_unfold is_obj_def jo_def)
  then show ?thesis
    using computeConsumptionPlanDigest_json [of d_plan] plan_body_d by (simp add: d_plan_digest_def)
qed

lemma equal_hopt [simp]: "wf_json j \<Longrightarrow> equalJson (hopt (Some j)) (hopt (Some j))"
  "wf_json j \<Longrightarrow> equalJson (hopt (Some j)) (hval_of j)"
  by (simp_all add: hopt_def scalar_json_wf)

lemma count_data: "length (code_points (canon d_capsule)) \<le> 100000" "length (code_points (canon d_task)) \<le> 100000"
proof -
  have c: "length (code_points s) \<le> length s" for s
  proof (induction s rule: code_points.induct)
    case (2 c cs)
    then show ?case
      by (subst code_points.simps) (auto split: list.splits simp del: code_points.simps)
  qed simp
  show "length (code_points (canon d_capsule)) \<le> 100000" "length (code_points (canon d_task)) \<le> 100000"
    using c [of "canon d_capsule"] c [of "canon d_task"] length_canon_csize [of d_capsule] length_canon_csize [of d_task]
      csize_data(3,7) by linarith+
qed

lemma not_over [simp]:
  "HostRequest.over_limit (Some d_request) [''capsule''] [''budget'', ''max_projection_chars''] = Inr False"
  "HostRequest.over_limit (Some d_request) [''task''] [''budget'', ''max_task_chars''] = Inr False"
  using count_data
  by (simp_all add: HostRequest.over_limit_def jcsCharacterCount_hval_of scalar_json_wf hopt_def d_limit_def
      num_of_nat_small num_lt_def num_eq_def not_less)

lemma projection_contract_d [simp]: "projection_contract_of d_plan = Inr (hval_of d_projection)"
  by (simp add: projection_contract_of_def object_of_def field_def hopt_def d_projection_def hval_of_jo)

lemma strict_eq_js [simp]: "strict_eq (Some (js s)) v \<longleftrightarrow> v = Some (js s)" "strict_eq v (Some (js s)) \<longleftrightarrow> v = Some (js s)"
  by (simp_all add: js_def)

lemma JStr_u [simp]: "JStr (u s) = js s"
  by (simp add: js_def)

lemma wf_parts [simp]:
  "wf_json d_plan_ref" "wf_json d_projection" "wf_json (with_member (Some d_asset) ''role'' (js ''primary''))"
  "wf_json (jo [(''shape'', js ''structured_judgment'')])"
  by (simp_all add: d_plan_ref_def d_projection_def role_member wf_jo)

lemma d_request_guards: "first_code (request_guards d_request d_plan True) = Inr None"
  unfolding request_guards_def Let_def
  by (simp add: guard_simps result_simps get_prop_path)

theorem d_request_valid: "validateRequestSemantics d_request d_plan True = Inr None"
  unfolding validateRequestSemantics_None
  by (simp add: d_request_guards get_prop_path validateExpectedDigests_def expected_digest_differs_def d_expected_def
      is_null_def guard_simps hopt_def computeCapsuleDeliveryDigest_hval_of scalar_json_wf d_delivery_def [symmetric])

section \<open>The receipt\<close>

definition d_usage :: json where
  "d_usage =
     jo [(''elapsed_ms'', JNum (Fin 12)), (''elapsed_basis'', js ''host_reported''), (''tokens_used'', JNull),
         (''model_calls'', JNull), (''basis'', js ''not_observed'')]"

definition d_outcome :: json where "d_outcome = jo [(''judgment'', js ''accept'')]"

definition d_runtime_receipt :: json where
  "d_runtime_receipt =
     jo [(''capsule_version'', js ''0.1.0''),
         (''capsule_digest_profile'', js ''kdna.canonicalization.runtime-capsule-jcs''),
         (''sender_capsule_delivery_digest'', JStr d_delivery),
         (''echoed_capsule_delivery_digest'', JStr d_delivery),
         (''host_recomputed_capsule_delivery_digest'', JStr d_delivery),
         (''capsule_delivery_comparison'', js ''matched''),
         (''provider_execution_status'', js ''completed''), (''semantic_consumption'', js ''not_observed''),
         (''model_identity'', JNull), (''usage'', d_usage)]"

definition d_receipt :: json where
  "d_receipt =
     jo [(''protocol'', js ''kdna.agent-host''), (''protocol_version'', js ''0.1.0''), (''request_id'', js ''request-1''),
         (''runtime_receipt'', d_runtime_receipt), (''outcome'', d_outcome)]"

lemma wf_receipt [simp]: "wf_json d_usage" "wf_json d_outcome" "wf_json d_runtime_receipt" "wf_json d_receipt"
  using is_double_of_int [of 12]
  by (simp_all add: d_usage_def d_outcome_def d_runtime_receipt_def d_receipt_def wf_jo wf_number_def)

lemma d_receipt_paths [simp]:
  "path (Some d_receipt) [''protocol''] = Inr (Some (js ''kdna.agent-host''))"
  "path (Some d_receipt) [''protocol_version''] = Inr (Some (js ''0.1.0''))"
  "path (Some d_receipt) [''request_id''] = Inr (Some (js ''request-1''))"
  "path (Some d_receipt) [''runtime_receipt''] = Inr (Some d_runtime_receipt)"
  "path (Some d_receipt) [''outcome''] = Inr (Some d_outcome)"
  "path (Some d_receipt) [''runtime_receipt'', k] = path (Some d_runtime_receipt) [k]"
  by (simp_all add: d_receipt_def path.simps)

lemma d_runtime_receipt_paths [simp]:
  "path (Some d_runtime_receipt) [''capsule_version''] = Inr (Some (js ''0.1.0''))"
  "path (Some d_runtime_receipt) [''capsule_digest_profile''] = Inr (Some (js ''kdna.canonicalization.runtime-capsule-jcs''))"
  "path (Some d_runtime_receipt) [''sender_capsule_delivery_digest''] = Inr (Some (JStr d_delivery))"
  "path (Some d_runtime_receipt) [''echoed_capsule_delivery_digest''] = Inr (Some (JStr d_delivery))"
  "path (Some d_runtime_receipt) [''host_recomputed_capsule_delivery_digest''] = Inr (Some (JStr d_delivery))"
  "path (Some d_runtime_receipt) [''capsule_delivery_comparison''] = Inr (Some (js ''matched''))"
  "path (Some d_runtime_receipt) [''provider_execution_status''] = Inr (Some (js ''completed''))"
  "path (Some d_runtime_receipt) [''semantic_consumption''] = Inr (Some (js ''not_observed''))"
  "path (Some d_runtime_receipt) [''model_identity''] = Inr (Some JNull)"
  "path (Some d_runtime_receipt) [''usage''] = Inr (Some d_usage)"
  "path (Some d_usage) [''elapsed_ms''] = Inr (Some (JNum (Fin 12)))"
  "path (Some d_usage) [''elapsed_basis''] = Inr (Some (js ''host_reported''))"
  "path (Some d_usage) [''tokens_used''] = Inr (Some JNull)"
  "path (Some d_usage) [''model_calls''] = Inr (Some JNull)"
  "path (Some d_usage) [''basis''] = Inr (Some (js ''not_observed''))"
  by (simp_all add: d_runtime_receipt_def d_usage_def)

theorem d_receipt_valid: "validateReceiptSemantics d_receipt d_request = Inr None"
  unfolding validateReceiptSemantics_def Let_def
  by (simp add: guard_simps result_simps hopt_def computeCapsuleDeliveryDigest_hval_of scalar_json_wf
      delivery_differs_def usage_differs_def neq_str_def d_outcome_def coalesce_def nullish_def d_delivery_def [symmetric])

section \<open>The trace of the execution\<close>

definition d_identity :: json where
  "d_identity =
     jo [(''asset_id'', js ''kdna:example''), (''asset_uid'', js ''uid-1''), (''version'', js ''1.0.0''),
         (''judgment_version'', js ''1.0.0''), (''access'', js ''public'')]"

definition chars_in :: "json \<Rightarrow> json" where
  "chars_in j = JNum (num_of_nat (length (code_points (canon j))))"

definition d_budget_evidence :: json where
  "d_budget_evidence =
     jo [(''limits'', d_budget),
         (''actual'', jo [(''projection_chars'', chars_in d_capsule), (''task_chars'', chars_in d_task),
                          (''elapsed_ms'', JNum (Fin 12)), (''elapsed_basis'', js ''host_reported''),
                          (''tokens_used'', JNull), (''model_calls'', JNull), (''usage_basis'', js ''not_observed'')]),
         (''comparison'', jo [(''projection_chars'', js ''within_limit''), (''task_chars'', js ''within_limit''),
                              (''elapsed_ms'', js ''within_limit''), (''tokens_used'', js ''not_limited''),
                              (''model_calls'', js ''not_limited''), (''overall'', js ''within_limit'')])]"

definition d_trace_runtime :: "string \<Rightarrow> json \<Rightarrow> json \<Rightarrow> json" where
  "d_trace_runtime state version protocol =
     jo [(''plan_capsule_versions'', JArr [js ''0.1.0'']), (''plan_host_protocols'', JArr [js ''kdna.agent-host'']),
         (''core_capsule_versions'', d_core), (''host_capabilities'', d_caps), (''negotiation_state'', js state),
         (''selected_capsule_version'', version), (''selected_host_protocol'', protocol), (''issue_code'', JNull)]"

definition d_trace_delivery :: json where
  "d_trace_delivery =
     jo [(''sender_computed'', JBool True), (''observed'', JStr d_delivery),
         (''host_boundary_comparison'', js ''matched''), (''host_recomputed'', JStr d_delivery),
         (''host_echoed'', JStr d_delivery), (''delivered_capsule_version'', js ''0.1.0''),
         (''request_id'', js ''request-1'')]"

definition d_trace :: json where
  "d_trace =
     jo [(''plan_ref'', d_plan_ref),
         (''runtime_contract'', d_trace_runtime ''selected'' (js ''0.1.0'') (js ''kdna.agent-host'')),
         (''asset_identity'', d_identity), (''digest_evidence'', d_evidence),
         (''capsule_delivery_evidence'', d_trace_delivery),
         (''projection_actual'', jo [(''profile'', js ''index''), (''capsule_delivery_digest'', JStr d_delivery),
                                     (''profile_deviated_from_plan'', JBool False)]),
         (''host_receipt'', d_receipt),
         (''execution'', jo [(''semantic_consumption'', js ''not_observed''), (''model_identity'', JNull),
                             (''execution_status'', js ''completed''), (''delivery_status'', js ''correlated_response'')]),
         (''budget'', d_budget_evidence), (''overall_status'', js ''execution_completed''),
         (''result_ref'', jo [(''shape'', js ''structured_judgment''),
                              (''result_digest'', JStr (json_digest.digest d_outcome))]),
         (''errors'', JArr [])]"

lemma chars_scalar [simp]: "d = d_capsule \<or> d = d_task \<Longrightarrow> scalar_json (chars_in d)"
  using count_data by (auto simp: chars_in_def num_of_nat_small)

lemma identity_d [simp]:
  "withoutExpectedDigests (Some d_asset) = Inr (hval_of d_identity)"
  "withoutExpectedDigests (Some (with_member (Some d_asset) ''role'' (js ''primary''))) = Inr (hval_of d_identity)"
  unfolding role_member
  by (simp_all add: withoutExpectedDigests_def d_asset_def d_identity_def jo_def remove_key_def)

lemma expected_budget_d:
  "expectedBudgetEvidence d_plan d_request d_receipt =
     Inr \<lparr>limits = hval_of d_budget,
          actual = hval_of (jo [(''projection_chars'', chars_in d_capsule), (''task_chars'', chars_in d_task),
                          (''elapsed_ms'', JNum (Fin 12)), (''elapsed_basis'', js ''host_reported''),
                          (''tokens_used'', JNull), (''model_calls'', JNull), (''usage_basis'', js ''not_observed'')]),
          comparison = \<lparr>projection_chars = ''within_limit'', task_chars = ''within_limit'', elapsed_ms = ''within_limit'',
                        tokens_used = ''not_limited'', model_calls = ''not_limited'', overall = ''within_limit''\<rparr>\<rparr>"
proof -
  have c: "count_of (Some d) = Inr (chars_in d)" if "d = d_capsule \<or> d = d_task" for d
    using that by (auto simp: count_of_def chars_in_def jcsCharacterCount_hval_of hopt_def scalar_json_wf)
  have w: "compareObserved (Some (chars_in d)) (Some d_limit) = Inr ''within_limit''" if "d = d_capsule \<or> d = d_task" for d
    using that count_data by (auto simp: chars_in_def d_limit_def compareObserved_numbers num_of_nat_small)
  have e: "compareObserved (Some (JNum (Fin 12))) (Some d_limit) = Inr ''within_limit''"
    by (simp add: d_limit_def compareObserved_numbers)
  have n: "compareObserved (Some JNull) (Some JNull) = Inr ''not_limited''"
    by (simp add: compareObserved_numbers)
  have r: "d_request \<noteq> JNull" "d_receipt \<noteq> JNull" by (simp_all add: d_request_def d_receipt_def jo_def)
  have u: "usage_of d_receipt = Inr d_usage"
    using r by (simp add: usage_of_def nullish_def coalesce_def d_usage_def jo_def split: json.splits)
  show ?thesis
    by (simp add: expectedBudgetEvidence_def r u c w e n get_prop_path object_of_def overall_state_def hopt_def hval_of_jo)
qed

lemma budget_value_d:
  "budget_value \<lparr>limits = hval_of d_budget,
          actual = hval_of (jo [(''projection_chars'', chars_in d_capsule), (''task_chars'', chars_in d_task),
                          (''elapsed_ms'', JNum (Fin 12)), (''elapsed_basis'', js ''host_reported''),
                          (''tokens_used'', JNull), (''model_calls'', JNull), (''usage_basis'', js ''not_observed'')]),
          comparison = \<lparr>projection_chars = ''within_limit'', task_chars = ''within_limit'', elapsed_ms = ''within_limit'',
                        tokens_used = ''not_limited'', model_calls = ''not_limited'', overall = ''within_limit''\<rparr>\<rparr>
   = hval_of d_budget_evidence"
  by (simp add: budget_value_def comparison_value_def d_budget_evidence_def hval_of_jo hs_def)

lemma d_trace_tops [simp]:
  "path (Some d_trace) [''asset_identity''] = Inr (Some d_identity)"
  "path (Some d_trace) [''digest_evidence''] = Inr (Some d_evidence)"
  "path (Some d_trace) [''host_receipt''] = Inr (Some d_receipt)"
  "path (Some d_trace) [''budget''] = Inr (Some d_budget_evidence)"
  "path (Some d_trace) [''overall_status''] = Inr (Some (js ''execution_completed''))"
  "path (Some d_trace) [''plan_ref'', k] = path (Some d_plan_ref) [k]"
  "path (Some d_trace) [''runtime_contract'', k] =
     path (Some (d_trace_runtime ''selected'' (js ''0.1.0'') (js ''kdna.agent-host''))) [k]"
  "path (Some d_trace) [''capsule_delivery_evidence'', k] = path (Some d_trace_delivery) [k]"
  "path (Some d_trace) [''budget'', ''limits''] = Inr (Some d_budget)"
  "path (Some d_trace) [''errors'', ''length''] = Inr (Some (JNum (Fin 0)))"
  by (simp_all add: d_trace_def path.simps d_budget_evidence_def get_prop_def [of "Some (JArr [])"] num_of_nat_small)

lemma d_trace_leaves [simp]:
  "path (Some d_trace) [''projection_actual'', ''profile''] = Inr (Some (js ''index''))"
  "path (Some d_trace) [''projection_actual'', ''capsule_delivery_digest''] = Inr (Some (JStr d_delivery))"
  "path (Some d_trace) [''projection_actual'', ''profile_deviated_from_plan''] = Inr (Some (JBool False))"
  "path (Some d_trace) [''execution'', ''semantic_consumption''] = Inr (Some (js ''not_observed''))"
  "path (Some d_trace) [''execution'', ''model_identity''] = Inr (Some JNull)"
  "path (Some d_trace) [''execution'', ''execution_status''] = Inr (Some (js ''completed''))"
  "path (Some d_trace) [''execution'', ''delivery_status''] = Inr (Some (js ''correlated_response''))"
  "path (Some d_trace) [''result_ref''] = Inr (Some (jo [(''shape'', js ''structured_judgment''),
                              (''result_digest'', JStr (json_digest.digest d_outcome))]))"
  "path (Some d_trace) [''result_ref'', ''shape''] = Inr (Some (js ''structured_judgment''))"
  "path (Some d_trace) [''result_ref'', ''result_digest''] = Inr (Some (JStr (json_digest.digest d_outcome)))"
  by (simp_all add: d_trace_def path.simps)

lemma d_trace_runtime_paths [simp]:
  "path (Some (d_trace_runtime s v p)) [''plan_capsule_versions''] = Inr (Some (JArr [js ''0.1.0'']))"
  "path (Some (d_trace_runtime s v p)) [''plan_host_protocols''] = Inr (Some (JArr [js ''kdna.agent-host'']))"
  "path (Some (d_trace_runtime s v p)) [''core_capsule_versions''] = Inr (Some d_core)"
  "path (Some (d_trace_runtime s v p)) [''host_capabilities''] = Inr (Some d_caps)"
  "path (Some (d_trace_runtime s v p)) [''negotiation_state''] = Inr (Some (js s))"
  "path (Some (d_trace_runtime s v p)) [''selected_capsule_version''] = Inr (Some v)"
  "path (Some (d_trace_runtime s v p)) [''selected_host_protocol''] = Inr (Some p)"
  "path (Some (d_trace_runtime s v p)) [''issue_code''] = Inr (Some JNull)"
  by (simp_all add: d_trace_runtime_def)

lemma d_trace_delivery_paths [simp]:
  "path (Some d_trace_delivery) [''sender_computed''] = Inr (Some (JBool True))"
  "path (Some d_trace_delivery) [''observed''] = Inr (Some (JStr d_delivery))"
  "path (Some d_trace_delivery) [''host_boundary_comparison''] = Inr (Some (js ''matched''))"
  "path (Some d_trace_delivery) [''host_recomputed''] = Inr (Some (JStr d_delivery))"
  "path (Some d_trace_delivery) [''host_echoed''] = Inr (Some (JStr d_delivery))"
  "path (Some d_trace_delivery) [''delivered_capsule_version''] = Inr (Some (js ''0.1.0''))"
  "path (Some d_trace_delivery) [''request_id''] = Inr (Some (js ''request-1''))"
  by (simp_all add: d_trace_delivery_def)

lemma wf_identity [simp]: "wf_json d_identity" "wf_json (JArr [js s])"
  by (simp_all add: d_identity_def wf_jo)

lemma d_negotiation: "trace_negotiation accept_all d_plan d_caps d_core = Inr Selected"
  using d_pair_selected by (simp add: trace_negotiation_def field_def hopt_def d_pair_context_def)

lemma d_prefix: "first_code (prefix_guards d_trace d_plan d_caps d_core) = Inr None"
  unfolding prefix_guards_def Let_def
  by (simp add: guard_simps result_simps)

lemma scalar_budget_evidence [simp]: "scalar_json d_budget_evidence"
proof -
  have j: "scalar_json (jo ps) \<longleftrightarrow> (\<forall>(k, v) \<in> set ps. scalar_json v)" for ps by (auto simp: jo_def)
  show ?thesis by (simp add: d_budget_evidence_def j scalar_json_wf)
qed

theorem d_trace_valid:
  "validateTraceSemantics accept_all d_trace d_plan d_request d_receipt d_caps d_core (js ''host_receipt'') = Inr None"
proof -
  have r: "d_request \<noteq> JNull" "d_receipt \<noteq> JNull" and o: "d_outcome \<noteq> JNull"
    by (simp_all add: d_request_def d_receipt_def d_outcome_def jo_def)
  have includes_core: "includes_value (Some d_core) (Some (js ''0.1.0'')) = Inr True"
    by (simp add: includes_value_def d_core_def)
  have g1: "first_code (executed_first_guards accept_all d_trace d_plan d_request d_receipt d_caps d_core) = Inr None"
    unfolding executed_first_guards_def Let_def
    by (simp add: guard_simps result_simps d_receipt_valid d_negotiation selected_guard_def negotiation_version_def
        negotiation_protocol_def includes_core)
  have g2: "first_code (executed_delivery_guards d_trace d_request d_receipt (Some (JStr d_delivery))) = Inr None"
    unfolding executed_delivery_guards_def Let_def by (simp add: guard_simps)
  have g3: "executed_budget d_trace d_plan d_request d_receipt = Inr None"
    by (simp add: executed_budget_def expected_budget_d budget_value_d guard_simps hopt_def)
  have g4: "result_differs d_trace d_request d_receipt = Inr False"
    by (simp add: result_differs_def Let_def is_null_def guard_simps neq_null_def hopt_def digestJcs_hval_of scalar_json_wf
        result_simps o)
  have k: "to_key (Some (js ''execution_completed'')) = Inr (u ''execution_completed'')"
    by (simp add: to_key_def js_def del: JStr_u)
  have l: "lookup_row (u ''execution_completed'') = Some \<lparr>provider_status = ''completed'',
      execution_status = ''completed'', has_result = True, minimum_errors = 0\<rparr>"
    by (simp add: lookup_row_def terminal_table_def)
  have g5: "validateTerminalState d_trace d_receipt = Inr None"
    by (simp add: validateTerminalState_def Let_def k l guard_simps r neq_null_def
        is_null_def result_simps num_lt_def num_eq_def)
  show ?thesis
    by (simp add: validateTraceSemantics_def d_prefix executed_trace_def r d_request_valid g1 g2 g3 g4 g5 guard_eval)
qed

section \<open>A trace that never reached a host\<close>

definition d_unused_budget :: json where
  "d_unused_budget =
     jo [(''limits'', d_budget),
         (''actual'', jo [(''projection_chars'', JNull), (''task_chars'', chars_in d_task),
                          (''elapsed_ms'', JNull), (''elapsed_basis'', js ''not_observed''),
                          (''tokens_used'', JNull), (''model_calls'', JNull), (''usage_basis'', js ''not_observed'')]),
         (''comparison'', jo [(''projection_chars'', js ''not_observed''), (''task_chars'', js ''within_limit''),
                              (''elapsed_ms'', js ''not_observed''), (''tokens_used'', js ''not_limited''),
                              (''model_calls'', js ''not_limited''), (''overall'', js ''not_observed'')])]"

definition d_blocked :: json where
  "d_blocked =
     jo [(''plan_ref'', d_plan_ref), (''runtime_contract'', d_trace_runtime ''not_started'' JNull JNull),
         (''asset_identity'', d_identity), (''digest_evidence'', unavailableDigestEvidence),
         (''capsule_delivery_evidence'',
            jo [(''host_boundary_comparison'', js ''unavailable''), (''host_recomputed'', JNull), (''host_echoed'', JNull)]),
         (''projection_actual'', jo [(''profile'', JNull), (''capsule_delivery_digest'', JNull),
                                     (''profile_deviated_from_plan'', JNull)]),
         (''host_receipt'', JNull),
         (''execution'', jo [(''execution_status'', js ''not_started''), (''delivery_status'', js ''not_delivered'')]),
         (''budget'', d_unused_budget), (''overall_status'', js ''blocked''), (''result_ref'', JNull),
         (''errors'', JArr [js ''asset not found''])]"

lemma d_blocked_paths [simp]:
  "path (Some d_blocked) [''asset_identity''] = Inr (Some d_identity)"
  "path (Some d_blocked) [''host_receipt''] = Inr (Some JNull)"
  "path (Some d_blocked) [''budget''] = Inr (Some d_unused_budget)"
  "path (Some d_blocked) [''budget'', ''limits''] = Inr (Some d_budget)"
  "path (Some d_blocked) [''overall_status''] = Inr (Some (js ''blocked''))"
  "path (Some d_blocked) [''result_ref''] = Inr (Some JNull)"
  "path (Some d_blocked) [''plan_ref'', k] = path (Some d_plan_ref) [k]"
  "path (Some d_blocked) [''runtime_contract'', k] = path (Some (d_trace_runtime ''not_started'' JNull JNull)) [k]"
  "path (Some d_blocked) [''capsule_delivery_evidence'', ''host_boundary_comparison''] = Inr (Some (js ''unavailable''))"
  "path (Some d_blocked) [''capsule_delivery_evidence'', ''host_recomputed''] = Inr (Some JNull)"
  "path (Some d_blocked) [''capsule_delivery_evidence'', ''host_echoed''] = Inr (Some JNull)"
  "path (Some d_blocked) [''projection_actual'', ''profile''] = Inr (Some JNull)"
  "path (Some d_blocked) [''projection_actual'', ''capsule_delivery_digest''] = Inr (Some JNull)"
  "path (Some d_blocked) [''projection_actual'', ''profile_deviated_from_plan''] = Inr (Some JNull)"
  "path (Some d_blocked) [''execution'', ''execution_status''] = Inr (Some (js ''not_started''))"
  "path (Some d_blocked) [''execution'', ''delivery_status''] = Inr (Some (js ''not_delivered''))"
  "path (Some d_blocked) [''errors'', ''length''] = Inr (Some (JNum (Fin 1)))"
  by (simp_all add: d_blocked_def path.simps d_unused_budget_def get_prop_def [of "Some (JArr _)"] num_of_nat_small)

lemma d_blocked_digests [simp]:
  "name \<in> {''asset'', ''content'', ''runtime_entry_set''} \<Longrightarrow>
     path (Some d_blocked) [''digest_evidence'', name, ''value''] = Inr (Some JNull)"
  "name \<in> {''asset'', ''content'', ''runtime_entry_set''} \<Longrightarrow>
     path (Some d_blocked) [''digest_evidence'', name, ''comparison'', ''state''] = Inr (Some (js ''unavailable''))"
  by (auto simp: d_blocked_def path.simps unavailableDigestEvidence_def unavailable_item_def)

lemma unused_budget_d:
  "expectedBudgetEvidence d_plan JNull JNull =
     Inr \<lparr>limits = hval_of d_budget,
          actual = hval_of (jo [(''projection_chars'', JNull), (''task_chars'', chars_in d_task),
                          (''elapsed_ms'', JNull), (''elapsed_basis'', js ''not_observed''),
                          (''tokens_used'', JNull), (''model_calls'', JNull), (''usage_basis'', js ''not_observed'')]),
          comparison = \<lparr>projection_chars = ''not_observed'', task_chars = ''within_limit'', elapsed_ms = ''not_observed'',
                        tokens_used = ''not_limited'', model_calls = ''not_limited'', overall = ''not_observed''\<rparr>\<rparr>"
proof -
  have c: "count_of (Some d_task) = Inr (chars_in d_task)"
    by (auto simp: count_of_def chars_in_def jcsCharacterCount_hval_of hopt_def scalar_json_wf)
  have w: "compareObserved (Some (chars_in d_task)) (Some d_limit) = Inr ''within_limit''"
    using count_data by (auto simp: chars_in_def d_limit_def compareObserved_numbers num_of_nat_small)
  have n: "compareObserved (Some JNull) (Some JNull) = Inr ''not_limited''"
    "compareObserved (Some JNull) (Some d_limit) = Inr ''not_observed''"
    by (simp_all add: compareObserved_numbers d_limit_def)
  have u: "usage_of JNull = Inr default_usage"
    by (simp add: usage_of_def nullish_def coalesce_def)
  show ?thesis
    by (simp add: expectedBudgetEvidence_def u c w n get_prop_path object_of_def overall_state_def hopt_def hval_of_jo
        default_usage_def)
qed

lemma scalar_unused_budget [simp]: "scalar_json d_unused_budget"
proof -
  have j: "scalar_json (jo ps) \<longleftrightarrow> (\<forall>(k, v) \<in> set ps. scalar_json v)" for ps by (auto simp: jo_def)
  show ?thesis by (simp add: d_unused_budget_def j scalar_json_wf)
qed

theorem d_blocked_valid:
  "validateTraceSemantics accept_all d_blocked d_plan JNull JNull d_caps d_core (js ''not_delivered'') = Inr None"
proof -
  have p: "first_code (prefix_guards d_blocked d_plan d_caps d_core) = Inr None"
    unfolding prefix_guards_def Let_def by (simp add: guard_simps result_simps)
  have v: "budget_value (projr (expectedBudgetEvidence d_plan JNull JNull)) = hval_of d_unused_budget"
    by (simp add: unused_budget_d budget_value_def comparison_value_def d_unused_budget_def hval_of_jo hs_def)
  have b: "budget_guard d_blocked d_plan JNull JNull = Inr None"
    using v by (simp add: budget_guard_def unused_budget_d guard_simps hopt_def)
  have s: "validateTerminalState d_blocked JNull = Inr None"
    by (simp add: validateTerminalState_def Let_def guard_simps num_lt_def num_eq_def)
  have w: "blocked_without_request accept_all d_blocked d_plan JNull d_caps d_core (js ''not_delivered'') = Inr None"
    by (simp add: blocked_without_request_def Let_def b s guard_simps result_simps)
  show ?thesis
    using equal_hopt(1) [of JNull]
    by (simp add: validateTraceSemantics_def p w guard_eval differs_from_def hopt_def)
qed

end
