(* ===== verification/SafeData.thy ===== *)
theory SafeData
  imports JsArith
begin

text \<open>
  Untrusted evaluator output (\<open>cloneSafeData\<close> and the naming of thrown values of
  \<open>packages/kdna-eval/src/gates.js\<close>).

  A gate hands back an arbitrary JavaScript value.  \<open>cloneSafeData\<close> copies it without ever calling
  code of the gate, or reports the path and the reason.  The result of the copy is a \<open>json\<close> value; its
  prototype is not represented, since every later test accepts both prototypes the copy can have.
  Proxies are not represented.
\<close>

section \<open>Copying\<close>

definition invalidSafeData :: "jstring \<Rightarrow> string \<Rightarrow> jstring + 'a" where
  "invalidSafeData p reason = Inl (p @ u '' '' @ u reason)"

lemma invalidSafeData_not_Inr [simp]: "invalidSafeData p r \<noteq> Inr x"
  by (simp add: invalidSafeData_def)

definition item_path :: "jstring \<Rightarrow> nat \<Rightarrow> jstring" where
  "item_path p i = p @ u ''['' @ index_text i @ u '']''"

definition member_path :: "jstring \<Rightarrow> jstring \<Rightarrow> jstring" where
  "member_path p k = p @ u ''.'' @ k"

text \<open>
  The elements of an array are \<open>slots\<close>; \<open>extras\<close> are its other own properties, none of which is an
  index below the length.
\<close>

fun cloneSafeData :: "jstring \<Rightarrow> hval \<Rightarrow> jstring + json"
and clone_items :: "jstring \<Rightarrow> nat \<Rightarrow> hslot list \<Rightarrow> jstring + json list"
and clone_props :: "jstring \<Rightarrow> (jstring \<times> hslot) list \<Rightarrow> jstring + (jstring \<times> json) list" where
  "cloneSafeData p HNull = Inr JNull"
| "cloneSafeData p (HStr s) = Inr (JStr s)"
| "cloneSafeData p (HBool b) = Inr (JBool b)"
| "cloneSafeData p (HNum n) = (if is_finite n then Inr (JNum n) else invalidSafeData p ''must be a finite number'')"
| "cloneSafeData p HUndefined = invalidSafeData p ''must not contain undefined''"
| "cloneSafeData p (HOther t) = invalidSafeData p (''must not contain '' @ t)"
| "cloneSafeData p HCycle = invalidSafeData p ''must not contain a cycle''"
| "cloneSafeData p (HArr std nsym slots extras) =
     (if nsym > 0 then invalidSafeData p ''must not contain symbol keys''
      else if \<not> std then invalidSafeData p ''must use the standard Array prototype''
      else if extras \<noteq> [] then invalidSafeData p ''must not contain named or out-of-range array properties''
      else emap JArr (clone_items p 0 slots))"
| "cloneSafeData p (HObj pr nsym ps) =
     (if nsym > 0 then invalidSafeData p ''must not contain symbol keys''
      else if pr = OtherProto then invalidSafeData p ''must be a plain object without a custom prototype''
      else emap JObj (clone_props p ps))"
| "clone_items p i [] = Inr []"
| "clone_items p i (s # ss) =
     (case s of
        HData True v \<Rightarrow> ebind (cloneSafeData (item_path p i) v) (\<lambda>x. emap ((#) x) (clone_items p (Suc i) ss))
      | _ \<Rightarrow> invalidSafeData (item_path p i) ''must be an own enumerable data property'')"
| "clone_props p [] = Inr []"
| "clone_props p (q # ps) =
     (case q of (k, s) \<Rightarrow>
        case s of
          HData True v \<Rightarrow> ebind (cloneSafeData (member_path p k) v) (\<lambda>x. emap ((#) (k, x)) (clone_props p ps))
        | _ \<Rightarrow> invalidSafeData (member_path p k) ''must be an own enumerable data property'')"

section \<open>Messages of thrown values\<close>

text \<open>
  A thrown value is an \<open>Error\<close>, of which the code reads \<open>message\<close>, or anything else.  \<open>S\<close> is \<open>String(v)\<close>
  on values whose conversion runs code of the value (\<open>None\<close>: it throws).
\<close>

datatype thrown = ThrownError "hslot option" | ThrownValue hval

definition js_String :: "(hval \<Rightarrow> jstring option) \<Rightarrow> hval \<Rightarrow> jstring option" where
  "js_String S v =
     (case v of
        HUndefined \<Rightarrow> Some (u ''undefined'')
      | HNull \<Rightarrow> Some (u ''null'')
      | HBool b \<Rightarrow> Some (if b then u ''true'' else u ''false'')
      | HNum n \<Rightarrow> Some (number_to_string n)
      | HStr s \<Rightarrow> Some s
      | _ \<Rightarrow> S v)"

definition normalizeThrownValue :: "(hval \<Rightarrow> jstring option) \<Rightarrow> thrown \<Rightarrow> jstring" where
  "normalizeThrownValue S t =
     (let message = (case t of
            ThrownError m \<Rightarrow> (case slot_get m of Inl _ \<Rightarrow> None | Inr v \<Rightarrow> js_String S v)
          | ThrownValue v \<Rightarrow> js_String S v)
      in case message of Some m \<Rightarrow> m | None \<Rightarrow> u ''unprintable thrown value'')"

section \<open>What a copy is\<close>

text \<open>JSON values whose numbers are finite.\<close>

fun finite_json :: "json \<Rightarrow> bool" where
  "finite_json (JNum n) = is_finite n"
| "finite_json (JArr xs) = (\<forall>x \<in> set xs. finite_json x)"
| "finite_json (JObj ps) = (\<forall>(k, x) \<in> set ps. finite_json x)"
| "finite_json _ = True"

text \<open>
  The values that need no reading by getters: \<open>is_copy_of j v\<close> says that \<open>v\<close> shows the JSON value \<open>j\<close>
  through enumerable data properties of ordinary arrays and plain objects only.
\<close>

inductive is_copy_of :: "json \<Rightarrow> hval \<Rightarrow> bool" where
  copy_null: "is_copy_of JNull HNull"
| copy_bool: "is_copy_of (JBool b) (HBool b)"
| copy_str: "is_copy_of (JStr s) (HStr s)"
| copy_num: "is_finite n \<Longrightarrow> is_copy_of (JNum n) (HNum n)"
| copy_arr: "list_all2 (\<lambda>x v. is_copy_of x v) xs vs \<Longrightarrow>
     is_copy_of (JArr xs) (HArr True 0 (map (HData True) vs) [])"
| copy_obj: "pr \<noteq> OtherProto \<Longrightarrow> list_all2 (\<lambda>x v. is_copy_of x v) (map snd ps) vs \<Longrightarrow>
     is_copy_of (JObj ps) (HObj pr 0 (zip (map fst ps) (map (HData True) vs)))"

lemma clone_sound:
  "cloneSafeData p v = Inr j \<Longrightarrow> is_copy_of j v"
  "clone_items p i ss = Inr xs \<Longrightarrow> \<exists>vs. ss = map (HData True) vs \<and> list_all2 is_copy_of xs vs"
  "clone_props p ps = Inr qs \<Longrightarrow>
     \<exists>vs. ps = zip (map fst qs) (map (HData True) vs) \<and> list_all2 is_copy_of (map snd qs) vs"
proof (induction p v and p i ss and p ps arbitrary: j and xs and qs
    rule: cloneSafeData_clone_items_clone_props.induct)
  case (8 p std nsym slots extras)
  then show ?case by (auto simp: result_simps split: if_splits intro: is_copy_of.intros)
next
  case (9 p pr nsym ps)
  then show ?case by (auto simp: result_simps split: if_splits intro: is_copy_of.intros)
next
  case (11 p i s ss)
  then show ?case
    by (auto simp: result_simps split: hslot.splits bool.splits)
       (metis list.map(2) list.rel_inject(2))
next
  case (13 p q ps)
  obtain k s where q: "q = (k, s)" by (cases q)
  from "13.prems" obtain v x qs' where s: "s = HData True v" "cloneSafeData (member_path p k) v = Inr x"
    "clone_props p ps = Inr qs'" "qs = (k, x) # qs'"
    by (auto simp: q result_simps split: hslot.splits bool.splits)
  have "\<exists>vs. ps = zip (map fst qs') (map (HData True) vs) \<and> list_all2 is_copy_of (map snd qs') vs"
    by (rule "13.IH"(2) [OF q [symmetric] s(1)]) (use s in auto)
  then obtain vs where "ps = zip (map fst qs') (map (HData True) vs)" "list_all2 is_copy_of (map snd qs') vs"
    by blast
  moreover have "is_copy_of x v" using "13.IH"(1) [OF q [symmetric]] s by auto
  ultimately have "q # ps = zip (map fst qs) (map (HData True) (v # vs)) \<and> list_all2 is_copy_of (map snd qs) (v # vs)"
    by (simp add: q s)
  then show ?case by blast
qed (auto split: if_splits intro: is_copy_of.intros)

lemma clone_items_complete:
  "list_all2 (\<lambda>x v. \<forall>p. cloneSafeData p v = Inr x) xs vs \<Longrightarrow> clone_items p i (map (HData True) vs) = Inr xs"
  by (induction xs vs arbitrary: i rule: list_all2_induct) auto

lemma clone_props_complete:
  "list_all2 (\<lambda>x v. \<forall>p. cloneSafeData p v = Inr x) (map snd ps) vs \<Longrightarrow>
   clone_props p (zip (map fst ps) (map (HData True) vs)) = Inr ps"
  by (induction ps arbitrary: vs) (auto simp: list_all2_Cons1)

lemma clone_complete: "is_copy_of j v \<Longrightarrow> cloneSafeData p v = Inr j"
proof (induction arbitrary: p rule: is_copy_of.induct)
  case (copy_arr xs vs)
  then have "list_all2 (\<lambda>x v. \<forall>p. cloneSafeData p v = Inr x) xs vs" by (auto elim: list_all2_mono)
  then show ?case by (simp add: clone_items_complete)
next
  case (copy_obj pr ps vs)
  then have "list_all2 (\<lambda>x v. \<forall>p. cloneSafeData p v = Inr x) (map snd ps) vs" by (auto elim: list_all2_mono)
  then show ?case using copy_obj.hyps by (simp add: clone_props_complete)
qed simp_all

text \<open>The copy succeeds exactly on values that show a JSON value, and returns that value.\<close>

lemma cloneSafeData_iff: "cloneSafeData p v = Inr j \<longleftrightarrow> is_copy_of j v"
  using clone_sound(1) clone_complete by blast

lemma is_copy_of_hval: "finite_json j \<Longrightarrow> is_copy_of j (hval_of j)"
proof (induction j)
  case (JArr xs)
  then have "list_all2 is_copy_of xs (map hval_of xs)" by (auto simp: list.rel_map intro!: list.rel_refl_strong)
  from copy_arr [OF this] show ?case by (simp add: comp_def)
next
  case (JObj ps)
  then have "list_all2 is_copy_of (map snd ps) (map hval_of (map snd ps))"
    by (auto simp: list.rel_map intro!: list.rel_refl_strong)
  from copy_obj [OF _ this, of PlainProto] show ?case
    by (simp add: zip_map_fst_snd zip_map_map comp_def split_def zip_same_conv_map)
qed (auto intro: is_copy_of.intros)

lemma finite_copy: "is_copy_of j v \<Longrightarrow> finite_json j"
proof (induction rule: is_copy_of.induct)
  case (copy_obj pr ps vs)
  then have "list_all2 (\<lambda>x v. finite_json x) (map snd ps) vs" by (auto elim: list_all2_mono)
  then have "\<forall>i < length (map snd ps). finite_json (map snd ps ! i)"
    by (simp add: list_all2_conv_all_nth)
  then have "\<forall>x \<in> set (map snd ps). finite_json x" by (metis in_set_conv_nth)
  then show ?case by force
next
  case (copy_arr xs vs)
  then have "list_all2 (\<lambda>x v. finite_json x) xs vs" by (auto elim: list_all2_mono)
  then show ?case by (auto simp: list_all2_conv_all_nth in_set_conv_nth)
qed auto

lemma cloneSafeData_hval_of: "cloneSafeData p (hval_of j) = Inr j \<longleftrightarrow> finite_json j"
  using is_copy_of_hval finite_copy by (auto simp: cloneSafeData_iff)

text \<open>Copying a copy changes nothing.\<close>

lemma cloneSafeData_again: "cloneSafeData p v = Inr j \<Longrightarrow> cloneSafeData q (hval_of j) = Inr j"
  using finite_copy is_copy_of_hval by (simp add: cloneSafeData_iff)

end
