(* ===== verification/Gates.thy ===== *)
theory Gates
  imports SafeData Codec
begin

text \<open>
  Evaluation gates (\<open>packages/kdna-eval/src/gates.js\<close>): normalization of gate results, the
  multi-gate runner, and the aggregation of results into an overall verdict.

  A gate function is any function of the shared context; it may change the context and may throw, so
  it is a function from the context to a result and the next context.
\<close>

section \<open>One gate result\<close>

definition GATE_NAMES :: "string list" where
  "GATE_NAMES = [''route'', ''compose'', ''projection'', ''cost'', ''quality'', ''promotion'']"

definition invalidGateResult :: "jstring \<Rightarrow> jstring list \<Rightarrow> json" where
  "invalidGateResult gate errors =
     jo [(''gate'', JStr gate), (''pass'', JBool False), (''score'', JNum (Fin 0)),
         (''details'', jo [(''status'', js ''invalid_result'')]), (''errors'', JArr (map JStr errors))]"

definition blank :: "jstring \<Rightarrow> bool" where
  "blank s \<longleftrightarrow> js_trim s = []"

definition requiredFields :: "string list" where
  "requiredFields = [''gate'', ''pass'', ''score'', ''details'', ''errors'']"

definition missing_fields :: "(jstring \<times> json) list \<Rightarrow> jstring list" where
  "missing_fields ps =
     map (\<lambda>f. u (''gate result.'' @ f @ '' must be an own enumerable data property''))
       (filter (\<lambda>f. map_of ps (u f) = None) requiredFields)"

definition is_text :: "json option \<Rightarrow> bool" where
  "is_text v = (case v of Some (JStr s) \<Rightarrow> \<not> blank s | _ \<Rightarrow> False)"

definition field_errors :: "(jstring \<times> json) list \<Rightarrow> jstring list" where
  "field_errors ps =
     (let get = (\<lambda>f. map_of ps (u f)) in
      (if is_text (get ''gate'') then [] else [u ''gate result.gate must be a non-empty string'']) @
      (if get ''pass'' \<in> {Some (JBool True), Some (JBool False), Some JNull} then []
       else [u ''gate result.pass must be true, false, or null'']) @
      (if get ''score'' = Some JNull \<or> is_finite_num (get ''score'') then []
       else [u ''gate result.score must be a finite number or null'']) @
      (if is_record (get ''details'') then [] else [u ''gate result.details must be a plain object'']) @
      (if is_text_list (get ''errors'') then [] else [u ''gate result.errors must be a string array'']))"

definition normalizeGateResult :: "hval \<Rightarrow> jstring \<Rightarrow> json" where
  "normalizeGateResult result fallbackGate =
     (case cloneSafeData (u ''gate result'') result of
        Inl e \<Rightarrow> invalidGateResult fallbackGate [e]
      | Inr (JObj ps) \<Rightarrow>
          if missing_fields ps \<noteq> [] then invalidGateResult fallbackGate (missing_fields ps)
          else if field_errors ps \<noteq> [] then invalidGateResult fallbackGate (field_errors ps)
          else JObj ps
      | Inr _ \<Rightarrow> invalidGateResult fallbackGate [u ''gate result must be a plain object''])"

definition fallback_name :: "nat \<Rightarrow> jstring" where
  "fallback_name index = u ''gate-'' @ index_text (Suc index)"

text \<open>\<open>results[index]\<close> of the caller's array; a missing element reads as \<open>undefined\<close>.\<close>

definition normalizeGateResults :: "hslot list \<Rightarrow> exn + json list" where
  "normalizeGateResults results =
     mapE (\<lambda>(index, s). ebind (slot_get (Some s)) (\<lambda>v. Inr (normalizeGateResult v (fallback_name index))))
       (List.enumerate 0 results)"

section \<open>Aggregation\<close>

record gate_report =
  gr_overall :: string
  gr_blocked :: "json option list"
  gr_passed :: "json option list"
  gr_failed :: "json option list"
  gr_count :: nat
  gr_results :: "json list"

definition no_results :: gate_report where
  "no_results =
     \<lparr>gr_overall = ''no-results'', gr_blocked = [], gr_passed = [], gr_failed = [], gr_count = 0, gr_results = []\<rparr>"

definition passes :: "json \<Rightarrow> bool" where
  "passes r \<longleftrightarrow> get_opt (Some r) ''pass'' = Some (JBool True)"

definition fails :: "json \<Rightarrow> bool" where
  "fails r \<longleftrightarrow> get_opt (Some r) ''pass'' = Some (JBool False)"

text \<open>The loop that sorts the names into \<open>failed\<close>, \<open>passed\<close> and \<open>blocked\<close>.\<close>

fun sort_gates :: "json list \<Rightarrow> json option list \<times> json option list \<times> json option list \<Rightarrow>
    json option list \<times> json option list \<times> json option list" where
  "sort_gates [] acc = acc"
| "sort_gates (r # rs) (blocked, passed, failed) =
     (let gate = get_opt (Some r) ''gate'' in
      if fails r then sort_gates rs (blocked, passed, failed @ [gate])
      else if passes r then sort_gates rs (blocked, passed @ [gate], failed)
      else sort_gates rs (blocked @ [gate], passed, failed))"

definition report_of :: "json list \<Rightarrow> gate_report" where
  "report_of normalizedResults =
     (let (blocked, passed, failed) = sort_gates normalizedResults ([], [], []) in
      \<lparr>gr_overall = (if list_all passes normalizedResults then ''pass'' else ''fail''),
       gr_blocked = blocked, gr_passed = passed, gr_failed = failed,
       gr_count = length normalizedResults, gr_results = normalizedResults\<rparr>)"

definition aggregateGates :: "hval \<Rightarrow> exn + gate_report" where
  "aggregateGates results =
     (case results of
        HArr _ _ slots _ \<Rightarrow>
          if slots = [] then Inr no_results else emap report_of (normalizeGateResults slots)
      | _ \<Rightarrow> Inr no_results)"

definition gateFromArray :: "hval \<Rightarrow> exn + bool" where
  "gateFromArray results =
     (case results of
        HArr _ _ slots _ \<Rightarrow>
          if slots = [] then Inr False else emap (list_all passes) (normalizeGateResults slots)
      | _ \<Rightarrow> Inr False)"

section \<open>The multi-gate runner\<close>

text \<open>A function (its \<open>name\<close> property and its behaviour), a gate name, or any other value.\<close>

datatype 'c gate =
    GateFunction "hslot option" "'c \<Rightarrow> (thrown + hval) \<times> 'c"
  | GateName jstring
  | GateOther hval

definition gateName :: "hslot option \<Rightarrow> jstring" where
  "gateName name =
     (case slot_get name of Inr (HStr s) \<Rightarrow> if \<not> blank s then s else u ''anonymous'' | _ \<Rightarrow> u ''anonymous'')"

definition unregistered :: "jstring \<Rightarrow> json" where
  "unregistered gate =
     jo [(''gate'', JStr gate), (''pass'', JNull), (''score'', JNull),
         (''details'', jo [(''note'', JStr (u ''gate \"'' @ gate @ u ''\" has no implementation registered''))]),
         (''errors'', JArr [])]"

definition invalid_gate_type :: json where
  "invalid_gate_type =
     jo [(''gate'', js ''unknown''), (''pass'', JBool False), (''score'', JNum (Fin 0)), (''details'', JObj []),
         (''errors'', JArr [js ''invalid gate type''])]"

definition runGate :: "(hval \<Rightarrow> jstring option) \<Rightarrow> 'c gate \<Rightarrow> 'c \<Rightarrow> json \<times> 'c" where
  "runGate S gate context =
     (case gate of
        GateFunction name f \<Rightarrow>
          (case f context of
             (Inr v, c') \<Rightarrow> (normalizeGateResult v (gateName name), c')
           | (Inl t, c') \<Rightarrow> (invalidGateResult (gateName name) [normalizeThrownValue S t], c'))
      | GateName n \<Rightarrow> (unregistered n, context)
      | GateOther _ \<Rightarrow> (invalid_gate_type, context))"

fun run_list :: "(hval \<Rightarrow> jstring option) \<Rightarrow> 'c gate list \<Rightarrow> 'c \<Rightarrow> json list \<times> 'c" where
  "run_list S [] c = ([], c)"
| "run_list S (g # gs) c =
     (let (r, c1) = runGate S g c; (rs, c2) = run_list S gs c1 in (r # rs, c2))"

definition gateList :: "'c gate list option \<Rightarrow> 'c gate list" where
  "gateList gates = (case gates of Some gs \<Rightarrow> gs | None \<Rightarrow> map (\<lambda>n. GateName (u n)) GATE_NAMES)"

definition runGates :: "(hval \<Rightarrow> jstring option) \<Rightarrow> 'c gate list option \<Rightarrow> 'c \<Rightarrow> json list \<times> 'c" where
  "runGates S gates context = run_list S (gateList gates) context"

definition runAll :: "(hval \<Rightarrow> jstring option) \<Rightarrow> 'c gate list option \<Rightarrow> 'c \<Rightarrow> (exn + gate_report) \<times> 'c" where
  "runAll S gates context =
     (let (results, c') = runGates S gates context
      in (aggregateGates (HArr True 0 (map (\<lambda>r. HData True (hval_of r)) results) []), c'))"

definition hasGate :: "'c gate list option \<Rightarrow> jstring \<Rightarrow> exn + bool" where
  "hasGate gates name =
     anyE (map (\<lambda>g. case g of
                  GateName n \<Rightarrow> Inr (n = name)
                | GateFunction m _ \<Rightarrow> emap (\<lambda>v. v = HStr name) (slot_get m)
                | GateOther v \<Rightarrow> emap (\<lambda>w. w = HStr name) (hget v ''name'')) (gateList gates))"

section \<open>Well-formed results\<close>

text \<open>
  What a consumer of results relies on, field by field and without the checks of the normalizer: a gate
  name with a character that is not white space, a verdict that is true, false or null, a score that is
  a finite number or null, an object of details, a list of error texts; and no number anywhere that
  JSON cannot hold.
\<close>

fun gate_result :: "json \<Rightarrow> bool" where
  "gate_result (JObj ps) \<longleftrightarrow>
     finite_json (JObj ps) \<and>
     (\<exists>s. map_of ps (u ''gate'') = Some (JStr s) \<and> \<not> blank s) \<and>
     (map_of ps (u ''pass'') = Some JNull \<or> (\<exists>b. map_of ps (u ''pass'') = Some (JBool b))) \<and>
     (map_of ps (u ''score'') = Some JNull \<or>
        (\<exists>n. map_of ps (u ''score'') = Some (JNum n) \<and> (n = NegZero \<or> (\<exists>q. n = Fin q)))) \<and>
     (\<exists>ds. map_of ps (u ''details'') = Some (JObj ds)) \<and>
     (\<exists>es. map_of ps (u ''errors'') = Some (JArr (map JStr es)))"
| "gate_result _ \<longleftrightarrow> False"

lemma blank_iff: "blank s \<longleftrightarrow> (\<forall>c \<in> set s. is_space c)"
  by (auto simp: blank_def js_trim_def dropWhile_eq_Nil_conv dest: set_dropWhileD)
     (metis (full_types) dropWhile_eq_Nil_conv hd_dropWhile hd_in_set set_dropWhileD)

lemma not_blank_names [simp]: "\<not> blank (u ''anonymous'')" "\<not> blank (u ''unknown'')" "\<not> blank (u ''gate-'' @ s)"
  by (simp_all add: blank_iff u_def is_space_def of_char_unat)

lemma finite_jo [simp]: "finite_json (jo ps) \<longleftrightarrow> (\<forall>(k, v) \<in> set ps. finite_json v)"
  by (auto simp: jo_def)

lemma finite_js [simp]: "finite_json (js s)"
  by (simp add: js_def)

lemma is_string_Some: "is_string v \<longleftrightarrow> (\<exists>s. v = Some (JStr s))"
  by (auto simp: is_string_def split: option.splits json.splits)

lemma string_list_iff: "(\<forall>x \<in> set xs. is_string (Some x)) \<longleftrightarrow> (\<exists>es. xs = map JStr es)"
  by (induction xs) (auto simp: is_string_Some Cons_eq_map_conv map_eq_Cons_conv)

text \<open>The checks of the normalizer decide it.\<close>

lemma gate_result_checks:
  "gate_result (JObj ps) \<longleftrightarrow> finite_json (JObj ps) \<and> missing_fields ps = [] \<and> field_errors ps = []"
proof -
  have t: "is_text v \<longleftrightarrow> (\<exists>s. v = Some (JStr s) \<and> \<not> blank s)"
    and r: "is_record v \<longleftrightarrow> (\<exists>ds. v = Some (JObj ds))" for v
    by (auto simp: is_text_def is_record_def split: option.splits json.splits)
  have n: "is_finite_num v \<longleftrightarrow> (\<exists>n. v = Some (JNum n) \<and> (n = NegZero \<or> (\<exists>q. n = Fin q)))" for v
  proof -
    have "is_finite n \<longleftrightarrow> n = NegZero \<or> (\<exists>q. n = Fin q)" for n by (cases n) auto
    then show ?thesis by (auto simp: is_finite_num_def split: option.splits json.splits)
  qed
  have l: "is_text_list v \<longleftrightarrow> (\<exists>es. v = Some (JArr (map JStr es)))" for v
    by (auto simp: is_text_list_def string_list_iff split: option.splits json.splits)
  show ?thesis
    by (auto simp: missing_fields_def field_errors_def requiredFields_def Let_def filter_empty_conv t r n l)
qed

declare gate_result.simps(1) [simp del] gate_result_checks [simp]

lemma gate_result_jo:
  "gate_result (jo ps) \<longleftrightarrow> finite_json (jo ps) \<and>
     (\<forall>f \<in> set requiredFields. map_of ps f \<noteq> None) \<and>
     is_text (map_of ps ''gate'') \<and> map_of ps ''pass'' \<in> {Some (JBool True), Some (JBool False), Some JNull} \<and>
     (map_of ps ''score'' = Some JNull \<or> is_finite_num (map_of ps ''score'')) \<and>
     is_record (map_of ps ''details'') \<and> is_text_list (map_of ps ''errors'')"
  unfolding jo_def gate_result_checks missing_fields_def field_errors_def Let_def
  using map_of_ho [of "\<lambda>v. v" ps] by (auto simp: option.map_ident filter_empty_conv)

lemma invalidGateResult_wf: "\<not> blank g \<Longrightarrow> gate_result (invalidGateResult g es)"
  by (auto simp: invalidGateResult_def gate_result_jo requiredFields_def is_text_def is_finite_num_def
      is_record_def is_text_list_def is_string_def jo_def [of "[_]"])

lemma passes_invalid [simp]: "\<not> passes (invalidGateResult g es)" "fails (invalidGateResult g es)"
  by (simp_all add: passes_def fails_def invalidGateResult_def jo_def)

lemma normalizeGateResult_cases:
  obtains (bad) es where "normalizeGateResult v g = invalidGateResult g es"
  | (good) j where "is_copy_of j v" "gate_result j" "normalizeGateResult v g = j"
proof (cases "cloneSafeData (u ''gate result'') v")
  case (Inr j)
  then have c: "is_copy_of j v" by (simp add: cloneSafeData_iff)
  show ?thesis
  proof (cases j)
    case (JObj ps)
    then show ?thesis
      using bad good c finite_copy [OF c] Inr JObj
      by (cases "missing_fields ps = []"; cases "field_errors ps = []") (auto simp: normalizeGateResult_def)
  qed (use that Inr in \<open>auto simp: normalizeGateResult_def\<close>)
qed (use that in \<open>auto simp: normalizeGateResult_def\<close>)

lemma normalize_good: "is_copy_of j v \<Longrightarrow> gate_result j \<Longrightarrow> normalizeGateResult v g = j"
  by (cases j) (auto simp: normalizeGateResult_def clone_complete)

text \<open>Every normalized result has the five fields with their types.\<close>

theorem normalizeGateResult_wf: "\<not> blank g \<Longrightarrow> gate_result (normalizeGateResult v g)"
  by (rule normalizeGateResult_cases [of v g]) (auto simp: invalidGateResult_wf)

lemma gate_result_finite: "gate_result j \<Longrightarrow> finite_json j"
  by (cases j) auto

text \<open>A well-formed result is left alone.\<close>

lemma normalize_fixed: "gate_result j \<Longrightarrow> normalizeGateResult (hval_of j) g = j"
  by (rule normalize_good) (auto simp: is_copy_of_hval gate_result_finite)

text \<open>Nothing else is let through: either the own copy of a well-formed value, or a failing result.\<close>

lemma normalize_exact:
  "is_copy_of (normalizeGateResult v g) v \<or>
     fails (normalizeGateResult v g) \<and> (\<forall>j. \<not> (is_copy_of j v \<and> gate_result j))"
proof (cases "\<exists>j. is_copy_of j v \<and> gate_result j")
  case False
  then show ?thesis by (cases rule: normalizeGateResult_cases [of v g]) auto
qed (auto simp: normalize_good)

text \<open>So normalizing twice is normalizing once, on single results and on lists (\<open>gate_norm.norm_idem\<close>).\<close>

interpretation gate_norm: result_normalizer normalizeGateResult hval_of gate_result "\<lambda>n. \<not> blank n"
  by unfold_locales (rule normalizeGateResult_wf, assumption, rule normalize_fixed)

text \<open>A pass is granted only to a value that is itself a well-formed result saying so.\<close>

lemma passes_normalize_iff:
  "passes (normalizeGateResult v g) \<longleftrightarrow> (\<exists>j. is_copy_of j v \<and> gate_result j \<and> passes j)"
proof
  assume "passes (normalizeGateResult v g)"
  then show "\<exists>j. is_copy_of j v \<and> gate_result j \<and> passes j"
    by (cases rule: normalizeGateResult_cases [of v g]) auto
qed (auto simp: normalize_good)

section \<open>Aggregation and the runner\<close>

lemma sort_gates_filter:
  "sort_gates rs (b, p, f) =
     (b @ map (\<lambda>r. get_opt (Some r) ''gate'') (filter (\<lambda>r. \<not> passes r \<and> \<not> fails r) rs),
      p @ map (\<lambda>r. get_opt (Some r) ''gate'') (filter passes rs),
      f @ map (\<lambda>r. get_opt (Some r) ''gate'') (filter fails rs))"
  by (induction rs arbitrary: b p f) (auto simp: Let_def passes_def fails_def)

lemma report_of_simps [simp]:
  "gr_overall (report_of rs) = (if list_all passes rs then ''pass'' else ''fail'')"
  "gr_blocked (report_of rs) = map (\<lambda>r. get_opt (Some r) ''gate'') (filter (\<lambda>r. \<not> passes r \<and> \<not> fails r) rs)"
  "gr_passed (report_of rs) = map (\<lambda>r. get_opt (Some r) ''gate'') (filter passes rs)"
  "gr_failed (report_of rs) = map (\<lambda>r. get_opt (Some r) ''gate'') (filter fails rs)"
  "gr_count (report_of rs) = length rs"
  "gr_results (report_of rs) = rs"
  by (simp_all add: report_of_def sort_gates_filter)

lemma passes_not_fails: "passes r \<Longrightarrow> \<not> fails r"
  by (simp add: passes_def fails_def)

lemma three_way_count:
  "length (filter (\<lambda>r. \<not> passes r \<and> \<not> fails r) rs) + length (filter passes rs) + length (filter fails rs) = length rs"
  by (induction rs) (auto dest: passes_not_fails)

text \<open>Every result is counted once: blocked, passed or failed.\<close>

theorem aggregate_counts:
  assumes "aggregateGates results = Inr a"
  shows "length (gr_blocked a) + length (gr_passed a) + length (gr_failed a) = gr_count a"
    "gr_count a = length (gr_results a)"
  using assms
  by (auto simp: aggregateGates_def no_results_def three_way_count result_simps split: hval.splits if_splits)

text \<open>An array element that is itself a passing result.\<close>

definition passing_slot :: "hslot \<Rightarrow> bool" where
  "passing_slot s \<longleftrightarrow> (\<exists>v j. slot_get (Some s) = Inr v \<and> is_copy_of j v \<and> gate_result j \<and> passes j)"

lemma list_all2_enumerate:
  "list_all2 (\<lambda>x y. P x y) (List.enumerate n xs) ys \<Longrightarrow> list_all2 (\<lambda>x y. \<exists>i. P (i, x) y) xs ys"
  by (induction xs arbitrary: n ys) (auto simp: list_all2_Cons1)

lemma normalized_passing:
  assumes "normalizeGateResults slots = Inr rs"
  shows "list_all passes rs \<longleftrightarrow> list_all passing_slot slots"
proof -
  have "list_all2 (\<lambda>s r. \<exists>i v. slot_get (Some s) = Inr v \<and> r = normalizeGateResult v (fallback_name i)) slots rs"
    using list_all2_enumerate [OF assms [unfolded normalizeGateResults_def mapE_Inr_iff]]
    by (rule list_all2_mono) (auto simp: result_simps)
  then show ?thesis
  proof (induction rule: list_all2_induct)
    case (Cons s ss r rs)
    then have "passes r \<longleftrightarrow> passing_slot s" by (auto simp: passing_slot_def passes_normalize_iff)
    with Cons.IH show ?case by simp
  qed simp
qed

text \<open>The verdict is a pass exactly when there are results and each of them is a passing result.\<close>

theorem aggregate_pass_iff:
  assumes "aggregateGates results = Inr a"
  shows "gr_overall a = ''pass'' \<longleftrightarrow>
    (\<exists>std n slots ex. results = HArr std n slots ex \<and> slots \<noteq> [] \<and> list_all passing_slot slots)"
  using assms normalized_passing
  by (auto simp: aggregateGates_def no_results_def result_simps split: hval.splits if_splits)

theorem gateFromArray_aggregate:
  "gateFromArray results = emap (\<lambda>a. gr_overall a = ''pass'') (aggregateGates results)"
  by (cases results)
     (auto simp: gateFromArray_def aggregateGates_def no_results_def emap_def ebind_def split: sum.splits)

lemma runGate_cases:
  obtains (normal) v n where "fst (runGate S g c) = normalizeGateResult v n" "\<not> blank n"
  | (invalid) n es where "fst (runGate S g c) = invalidGateResult n es" "\<not> blank n"
  | (name) n where "g = GateName n" "fst (runGate S g c) = unregistered n"
  | (other) v where "g = GateOther v" "fst (runGate S g c) = invalid_gate_type"
proof (cases g)
  case (GateFunction name f)
  have "\<not> blank (gateName name)"
    by (auto simp: gateName_def split: sum.splits hval.splits)
  then show ?thesis using that GateFunction
    by (cases "f c"; cases "fst (f c)") (auto simp: runGate_def)
qed (use that in \<open>auto simp: runGate_def\<close>)

lemma unregistered_wf: "gate_result (unregistered n) \<longleftrightarrow> \<not> blank n"
  by (auto simp: unregistered_def gate_result_jo requiredFields_def is_text_def is_finite_num_def
      is_record_def is_text_list_def is_string_def jo_def [of "[_]"])

lemma invalid_gate_type_wf: "gate_result invalid_gate_type"
  by (auto simp: invalid_gate_type_def gate_result_jo requiredFields_def is_text_def is_finite_num_def
      is_record_def is_text_list_def is_string_def js_def)

lemma runner_not_passing [simp]: "\<not> passes (unregistered n)" "\<not> passes invalid_gate_type"
  by (simp_all add: passes_def unregistered_def invalid_gate_type_def jo_def)

lemma runGate_wf: "(\<forall>n. g = GateName n \<longrightarrow> \<not> blank n) \<Longrightarrow> gate_result (fst (runGate S g c))"
  by (cases rule: runGate_cases [of S g c])
     (auto simp: normalizeGateResult_wf invalidGateResult_wf unregistered_wf invalid_gate_type_wf)

lemma run_list_length: "length (fst (run_list S gs c)) = length gs"
  by (induction gs arbitrary: c) (auto simp: Let_def split: prod.splits, metis fst_conv)

lemma runGate_finite: "finite_json (fst (runGate S g c))"
  by (cases rule: runGate_cases [of S g c])
     (auto simp: gate_result_finite normalizeGateResult_wf invalidGateResult_wf invalid_gate_type_wf
       unregistered_def jo_def [of "[_]"])

lemma run_list_all: "(\<And>g c. g \<in> set gs \<Longrightarrow> P (fst (runGate S g c))) \<Longrightarrow> list_all P (fst (run_list S gs c))"
proof (induction gs arbitrary: c)
  case (Cons g gs)
  have "P (fst (runGate S g c))" "list_all P (fst (run_list S gs (snd (runGate S g c))))"
    using Cons by auto
  then show ?case by (auto simp: Let_def split: prod.splits)
qed simp

lemma normalize_own_results:
  "normalizeGateResults (map (\<lambda>r. HData True (hval_of r)) rs) =
     Inr (map (\<lambda>(i, r). normalizeGateResult (hval_of r) (fallback_name i)) (List.enumerate 0 rs))"
proof -
  have "mapE (\<lambda>(index, s). ebind (slot_get (Some s)) (\<lambda>v. Inr (normalizeGateResult v (fallback_name index))))
          (List.enumerate n (map (\<lambda>r. HData True (hval_of r)) rs)) =
        Inr (map (\<lambda>(i, r). normalizeGateResult (hval_of r) (fallback_name i)) (List.enumerate n rs))" for n
    by (induction rs arbitrary: n) (simp_all add: slot_get_def)
  then show ?thesis by (simp add: normalizeGateResults_def)
qed

lemma normalize_wf_results:
  "list_all gate_result rs \<Longrightarrow> normalizeGateResults (map (\<lambda>r. HData True (hval_of r)) rs) = Inr rs"
proof -
  assume w: "list_all gate_result rs"
  have "map (\<lambda>(i, r). normalizeGateResult (hval_of r) (fallback_name i)) (List.enumerate n rs) = rs" for n
    using w by (induction rs arbitrary: n) (auto simp: normalize_fixed)
  then show ?thesis by (simp add: normalize_own_results)
qed

text \<open>Running all gates never throws, whatever the gates do.\<close>

theorem runAll_total: "\<exists>a. fst (runAll S gates c) = Inr a"
  by (auto simp: runAll_def aggregateGates_def normalize_own_results split: prod.splits)

text \<open>The report is computed from the results the runner produced, one per gate in order.\<close>

theorem runAll_report:
  assumes "\<forall>n. GateName n \<in> set (gateList gates) \<longrightarrow> \<not> blank n"
  shows "fst (runAll S gates c) =
    Inr (if gateList gates = [] then no_results else report_of (fst (runGates S gates c)))"
proof -
  let ?rs = "fst (runGates S gates c)"
  have "list_all gate_result ?rs"
    unfolding runGates_def by (rule run_list_all, rule runGate_wf) (use assms in auto)
  moreover have "length ?rs = length (gateList gates)"
    by (simp add: runGates_def run_list_length)
  ultimately show ?thesis
    by (auto simp: runAll_def aggregateGates_def normalize_wf_results split: prod.splits)
qed

lemma passing_slot_own: "finite_json r \<Longrightarrow> passing_slot (HData True (hval_of r)) \<longleftrightarrow> gate_result r \<and> passes r"
proof -
  assume "finite_json r"
  then have "is_copy_of j (hval_of r) \<longleftrightarrow> j = r" for j
    using is_copy_of_hval cloneSafeData_iff by (metis sum.inject(2))
  then show ?thesis by (auto simp: passing_slot_def slot_get_def)
qed

theorem runAll_pass_iff:
  assumes "fst (runAll S gates c) = Inr a"
  shows "gr_overall a = ''pass'' \<longleftrightarrow>
    gateList gates \<noteq> [] \<and> list_all (\<lambda>r. gate_result r \<and> passes r) (fst (runGates S gates c))"
proof -
  let ?rs = "fst (runGates S gates c)"
  have f: "list_all finite_json ?rs"
    unfolding runGates_def by (rule run_list_all) (rule runGate_finite)
  have l: "?rs = [] \<longleftrightarrow> gateList gates = []"
    using run_list_length [of S "gateList gates" c] by (auto simp: runGates_def)
  have a: "aggregateGates (HArr True 0 (map (\<lambda>r. HData True (hval_of r)) ?rs) []) = Inr a"
    using assms by (auto simp: runAll_def split: prod.splits)
  show ?thesis
    using f l by (auto simp: aggregate_pass_iff [OF a] list_all_iff passing_slot_own)
qed

lemma run_list_append:
  "run_list S (gs @ hs) c =
     (let (rs, c1) = run_list S gs c; (qs, c2) = run_list S hs c1 in (rs @ qs, c2))"
  by (induction gs arbitrary: c) (auto simp: Let_def split: prod.splits)

lemma run_list_member: "g \<in> set gs \<Longrightarrow> \<exists>c'. fst (runGate S g c') \<in> set (fst (run_list S gs c))"
proof (induction gs arbitrary: c)
  case (Cons h gs)
  show ?case
  proof (cases "g = h")
    case False
    then show ?thesis using Cons.IH [of "snd (runGate S h c)"] Cons.prems by (auto simp: Let_def split: prod.splits)
  qed (auto simp: Let_def split: prod.splits intro: exI [of _ c])
qed simp

text \<open>A gate that is only named, or is no gate at all, keeps the verdict from being a pass.\<close>

theorem unimplemented_gate_blocks:
  assumes "fst (runAll S gates c) = Inr a" "g \<in> set (gateList gates)" "\<forall>name f. g \<noteq> GateFunction name f"
  shows "gr_overall a \<noteq> ''pass''"
proof
  assume "gr_overall a = ''pass''"
  then have p: "list_all passes (fst (runGates S gates c))"
    by (auto simp: runAll_pass_iff [OF assms(1)] list_all_iff)
  obtain c' where "fst (runGate S g c') \<in> set (fst (runGates S gates c))"
    using run_list_member [OF assms(2)] by (auto simp: runGates_def)
  then have "passes (fst (runGate S g c'))" using p by (auto simp: list_all_iff)
  then show False using assms(3) by (cases g) (auto simp: runGate_def)
qed

text \<open>The default list of six names has no implementation: it is blocked in full.\<close>

lemma run_names: "run_list S (map (\<lambda>n. GateName (u n)) ns) c = (map (\<lambda>n. unregistered (u n)) ns, c)"
  by (induction ns) (auto simp: runGate_def)

theorem default_gates_block:
  "\<exists>a. runAll S None c = (Inr a, c) \<and> gr_overall a = ''fail'' \<and>
     gr_blocked a = map (Some \<circ> js) GATE_NAMES \<and> gr_passed a = [] \<and> gr_failed a = []"
proof -
  have b: "\<not> blank (u n)" if "n \<in> set GATE_NAMES" for n
    using that by (auto simp: GATE_NAMES_def blank_iff u_def is_space_def of_char_unat)
  have names: "GATE_NAMES \<noteq> []" by (simp add: GATE_NAMES_def)
  have g: "gateList None = map (\<lambda>n. GateName (u n)) GATE_NAMES" by (simp add: gateList_def)
  have n: "\<forall>n. GateName n \<in> set (gateList None :: 'a gate list) \<longrightarrow> \<not> blank n"
    using b by (auto simp: g)
  have c: "snd (runAll S None c) = c" by (simp add: runAll_def runGates_def g run_names)
  have "fst (runAll S None c) = Inr (report_of (map (\<lambda>n. unregistered (u n)) GATE_NAMES))"
    unfolding runAll_report [OF n] using names by (simp add: runGates_def g run_names)
  with c show ?thesis
    by (intro exI [of _ "report_of (map (\<lambda>n. unregistered (u n)) GATE_NAMES)"])
       (simp add: prod_eq_iff GATE_NAMES_def fails_def passes_def unregistered_def jo_def js_def)
qed

end
