(* ===== verification/Cost.thy ===== *)
theory Cost
  imports JsArith
begin

text \<open>
  The cost tracker (\<open>packages/kdna-eval/src/cost.js\<close>): a closure with four mutable variables, given
  here as a record that every operation returns updated.  The amounts are whatever the caller's
  assets carry: \<open>+=\<close> and \<open>>\<close> are the operators of the language.  The asset count is a natural number,
  read as a Number (exact up to 2^53).
\<close>

section \<open>Budget profiles\<close>

definition budget_profile :: "nat \<Rightarrow> nat \<Rightarrow> nat \<Rightarrow> string \<Rightarrow> json" where
  "budget_profile tokens chars assets note =
     jo [(''maxTokens'', JNum (num_of_nat tokens)), (''maxChars'', JNum (num_of_nat chars)),
         (''maxAssets'', JNum (num_of_nat assets)), (''_note'', js note)]"

definition BUDGET_PROFILES :: "(string \<times> json) list" where
  "BUDGET_PROFILES =
     [(''interactive'', budget_profile 800 2500 3 ''single primary + strictly bounded advisor''),
      (''code-review'', budget_profile 1200 3500 8 ''max 2 advisors, full trace''),
      (''offline-audit'', budget_profile 0 0 20 ''all-assets control permitted but never default'')]"

text \<open>
  \<open>BUDGET_PROFILES[name]\<close> is a property read of an ordinary object: the names of \<open>Object.prototype\<close>
  are found as well.  What they hold (functions, and \<open>Object.prototype\<close> itself) is truthy, has no
  budget members and no enumerable property of its own, which is what the empty object shows.
\<close>

definition prototype_names :: "string list" where
  "prototype_names =
     [''constructor'', ''hasOwnProperty'', ''isPrototypeOf'', ''propertyIsEnumerable'', ''toLocaleString'',
      ''toString'', ''valueOf'', ''__proto__'', ''__defineGetter__'', ''__defineSetter__'',
      ''__lookupGetter__'', ''__lookupSetter__'']"

definition profile_lookup :: "jstring \<Rightarrow> json option" where
  "profile_lookup name =
     (case map_of (map (\<lambda>(k, p). (u k, p)) BUDGET_PROFILES) name of
        Some p \<Rightarrow> Some p
      | None \<Rightarrow> if name \<in> u ` set prototype_names then Some (JObj []) else None)"

section \<open>State and operations\<close>

record tracker =
  tr_profile :: jstring
  tr_limits :: "json option"
  tr_tokens :: json
  tr_chars :: json
  tr_assets :: nat
  tr_details :: "json list"

definition zero :: json where "zero = JNum (Fin 0)"

definition tracker_for :: "jstring \<Rightarrow> json option \<Rightarrow> tracker" where
  "tracker_for name profile =
     \<lparr>tr_profile = name, tr_limits = profile, tr_tokens = zero, tr_chars = zero, tr_assets = 0, tr_details = []\<rparr>"

definition createCostTracker :: "json option \<Rightarrow> tracker" where
  "createCostTracker budgetProfile =
     (case budgetProfile of
        Some (JStr s) \<Rightarrow>
          (case profile_lookup s of
             Some p \<Rightarrow> tracker_for s (Some p)
           | None \<Rightarrow> tracker_for (u ''interactive'') (profile_lookup (u ''interactive'')))
      | _ \<Rightarrow> tracker_for (u ''custom'') budgetProfile)"

text \<open>\<open>asset.tokens ?? asset.estimatedTokens ?? 0\<close>, and \<open>asset.chars ?? asset.text?.length ?? 0\<close> with
  the name of the text member.\<close>

definition tokens_of :: "json option \<Rightarrow> exn + json" where
  "tokens_of asset =
     ebind (path asset [''tokens'']) (\<lambda>t. ebind (path asset [''estimatedTokens'']) (\<lambda>e.
       Inr (the (default_to t (default_to e (Some zero))))))"

definition chars_of :: "string \<Rightarrow> json option \<Rightarrow> exn + json" where
  "chars_of content asset =
     ebind (path asset [''chars'']) (\<lambda>c. ebind (path asset [content]) (\<lambda>t.
       Inr (the (default_to c (default_to (get_opt t ''length'') (Some zero))))))"

definition detail_of :: "json option \<Rightarrow> json \<Rightarrow> json \<Rightarrow> json \<Rightarrow> json" where
  "detail_of asset type tokens chars =
     jo [(''id'', the (default_to (get_opt asset ''id'') (Some JNull))), (''type'', type),
         (''tokens'', tokens), (''chars'', chars)]"

text \<open>
  The body shared by \<open>trackAsset\<close> and \<open>trackAdvisor\<close>.  An addition that throws leaves the
  assignments before it in place.
\<close>

definition track :: "string \<Rightarrow> (json option \<Rightarrow> json) \<Rightarrow> json option \<Rightarrow> tracker \<Rightarrow> (exn + unit) \<times> tracker" where
  "track content type asset t =
     (case tokens_of asset of Inl e \<Rightarrow> (Inl e, t) | Inr tokens \<Rightarrow>
     (case chars_of content asset of Inl e \<Rightarrow> (Inl e, t) | Inr chars \<Rightarrow>
     (case js_add (Some (tr_tokens t)) (Some tokens) of Inl e \<Rightarrow> (Inl e, t) | Inr tt \<Rightarrow>
     (let t1 = t\<lparr>tr_tokens := tt\<rparr> in
      case js_add (Some (tr_chars t1)) (Some chars) of Inl e \<Rightarrow> (Inl e, t1) | Inr cc \<Rightarrow>
      (Inr (), t1\<lparr>tr_chars := cc, tr_assets := Suc (tr_assets t1),
                   tr_details := tr_details t1 @ [detail_of asset (type asset) tokens chars]\<rparr>)))))"

definition trackAsset :: "json option \<Rightarrow> tracker \<Rightarrow> (exn + unit) \<times> tracker" where
  "trackAsset = track ''text'' (\<lambda>a. the (default_to (get_opt a ''type'') (Some (js ''unknown''))))"

definition trackAdvisor :: "json option \<Rightarrow> tracker \<Rightarrow> (exn + unit) \<times> tracker" where
  "trackAdvisor = track ''content'' (\<lambda>_. js ''advisor'')"

definition reset_tracker :: "tracker \<Rightarrow> tracker" where
  "reset_tracker t = t\<lparr>tr_tokens := zero, tr_chars := zero, tr_assets := 0, tr_details := []\<rparr>"

text \<open>\<open>profile.max > 0 && consumed > profile.max\<close>\<close>

definition over_cap :: "tracker \<Rightarrow> string \<Rightarrow> json \<Rightarrow> exn + bool" where
  "over_cap t k consumed =
     ebind (path (tr_limits t) [k]) (\<lambda>m. ebind (js_gt m (Some zero)) (\<lambda>active.
       if active then js_gt (Some consumed) m else Inr False))"

definition over_assets :: "tracker \<Rightarrow> exn + bool" where
  "over_assets t =
     ebind (path (tr_limits t) [''maxAssets'']) (\<lambda>m. js_gt (Some (JNum (num_of_nat (tr_assets t)))) m)"

definition overruns :: "tracker \<Rightarrow> exn + bool \<times> bool \<times> bool" where
  "overruns t =
     ebind (over_cap t ''maxTokens'' (tr_tokens t)) (\<lambda>a.
     ebind (over_cap t ''maxChars'' (tr_chars t)) (\<lambda>b.
     ebind (over_assets t) (\<lambda>c. Inr (a, b, c))))"

definition isOverBudget :: "tracker \<Rightarrow> exn + bool" where
  "isOverBudget t = emap (\<lambda>(a, b, c). a \<or> b \<or> c) (overruns t)"

definition getCostReport :: "tracker \<Rightarrow> exn + json" where
  "getCostReport t =
     ebind (overruns t) (\<lambda>(a, b, c). ebind (isOverBudget t) (\<lambda>over.
       Inr (jo [(''profile'', JStr (tr_profile t)), (''limits'', JObj (spread (tr_limits t))),
                (''consumed'', jo [(''tokens'', tr_tokens t), (''chars'', tr_chars t),
                                   (''assets'', JNum (num_of_nat (tr_assets t)))]),
                (''over_budget'', JBool over),
                (''over_budget_reasons'', JArr (map js ((if a then [''tokens''] else []) @
                    (if b then [''chars''] else []) @ (if c then [''assets''] else [])))),
                (''asset_details'', JArr (tr_details t))])))"

section \<open>Runs\<close>

datatype cost_op = Asset "json option" | Advisor "json option" | Reset

fun apply_op :: "cost_op \<Rightarrow> tracker \<Rightarrow> (exn + unit) \<times> tracker" where
  "apply_op (Asset a) t = trackAsset a t"
| "apply_op (Advisor a) t = trackAdvisor a t"
| "apply_op Reset t = (Inr (), reset_tracker t)"

text \<open>The states a tracker can be in, calls that threw included; and those where none threw.\<close>

inductive reach :: "json option \<Rightarrow> tracker \<Rightarrow> bool" for b where
  reach_new: "reach b (createCostTracker b)"
| reach_op: "reach b t \<Longrightarrow> reach b (snd (apply_op op t))"

inductive clean :: "json option \<Rightarrow> tracker \<Rightarrow> bool" for b where
  clean_new: "clean b (createCostTracker b)"
| clean_op: "clean b t \<Longrightarrow> apply_op op t = (Inr (), t') \<Longrightarrow> clean b t'"

inductive_cases clean_cases: "clean b t"

lemma track_cases:
  obtains (refused) e where "track content type a t = (Inl e, t)"
  | (partial) e tt where "track content type a t = (Inl e, t\<lparr>tr_tokens := tt\<rparr>)"
  | (tracked) tokens chars tt cc where "tokens_of a = Inr tokens" "chars_of content a = Inr chars"
      "js_add (Some (tr_tokens t)) (Some tokens) = Inr tt" "js_add (Some (tr_chars t)) (Some chars) = Inr cc"
      "track content type a t =
         (Inr (), t\<lparr>tr_tokens := tt, tr_chars := cc, tr_assets := Suc (tr_assets t),
                    tr_details := tr_details t @ [detail_of a (type a) tokens chars]\<rparr>)"
proof (cases "tokens_of a")
  case tok: (Inr tokens)
  show ?thesis
  proof (cases "chars_of content a")
    case ch: (Inr chars)
    show ?thesis
    proof (cases "js_add (Some (tr_tokens t)) (Some tokens)")
      case tt: (Inr tt)
      show ?thesis
        by (cases "js_add (Some (tr_chars t)) (Some chars)")
           (use partial tracked tok ch tt in \<open>simp_all add: track_def\<close>)
    qed (use refused tok ch in \<open>simp add: track_def\<close>)
  qed (use refused tok in \<open>simp add: track_def\<close>)
qed (use refused in \<open>simp add: track_def\<close>)

section \<open>Invariants of a run\<close>

lemma createCostTracker_fields [simp]:
  "tr_tokens (createCostTracker b) = zero" "tr_chars (createCostTracker b) = zero"
  "tr_assets (createCostTracker b) = 0" "tr_details (createCostTracker b) = []"
  by (auto simp: createCostTracker_def tracker_for_def split: option.splits json.splits)

lemma reset_fields [simp]:
  "tr_tokens (reset_tracker t) = zero" "tr_chars (reset_tracker t) = zero" "tr_assets (reset_tracker t) = 0"
  "tr_details (reset_tracker t) = []" "tr_limits (reset_tracker t) = tr_limits t" "tr_profile (reset_tracker t) = tr_profile t"
  by (simp_all add: reset_tracker_def)

lemma apply_op_limits [simp]:
  "tr_limits (snd (apply_op op t)) = tr_limits t" "tr_profile (snd (apply_op op t)) = tr_profile t"
proof -
  have "tr_limits (snd (track c ty a t)) = tr_limits t \<and> tr_profile (snd (track c ty a t)) = tr_profile t" for c ty a
    by (cases rule: track_cases [of c ty a t]) auto
  then show "tr_limits (snd (apply_op op t)) = tr_limits t" "tr_profile (snd (apply_op op t)) = tr_profile t"
    by (cases op; simp add: trackAsset_def trackAdvisor_def)+
qed

lemma reach_limits: "reach b t \<Longrightarrow> tr_limits t = tr_limits (createCostTracker b)"
  by (induction rule: reach.induct) auto

text \<open>The asset count is the number of recorded details, even after calls that threw.\<close>

theorem assets_match_details: "reach b t \<Longrightarrow> tr_assets t = length (tr_details t)"
proof (induction rule: reach.induct)
  case (reach_op t op)
  have "tr_assets (snd (track c ty a t)) = length (tr_details (snd (track c ty a t)))" for c ty a
    using reach_op.IH by (cases rule: track_cases [of c ty a t]) auto
  then show ?case by (cases op) (simp_all add: trackAsset_def trackAdvisor_def)
qed simp

lemma clean_reach: "clean b t \<Longrightarrow> reach b t"
proof (induction rule: clean.induct)
  case (clean_op t op t')
  then show ?case using reach_op [of b t op] by simp
qed (rule reach_new)

text \<open>The sum of a member of the details, added from the left as the tracker does.\<close>

fun sum_from :: "json \<Rightarrow> json option list \<Rightarrow> exn + json" where
  "sum_from acc [] = Inr acc"
| "sum_from acc (x # xs) = ebind (js_add (Some acc) x) (\<lambda>s. sum_from s xs)"

lemma sum_from_append: "sum_from acc (xs @ ys) = ebind (sum_from acc xs) (\<lambda>s. sum_from s ys)"
  by (induction acc xs rule: sum_from.induct) (auto simp: ebind_assoc intro!: ebind_cong)

definition detail_sum :: "string \<Rightarrow> json list \<Rightarrow> exn + json" where
  "detail_sum k ds = sum_from zero (map (\<lambda>d. get_opt (Some d) k) ds)"

lemma detail_of_get [simp]:
  "get_opt (Some (detail_of a ty tk ch)) ''tokens'' = Some tk"
  "get_opt (Some (detail_of a ty tk ch)) ''chars'' = Some ch"
  by (simp_all add: detail_of_def jo_def)

text \<open>As long as no call threw, the consumed totals are the sums over the recorded details.\<close>

theorem totals_match_details:
  "clean b t \<Longrightarrow> detail_sum ''tokens'' (tr_details t) = Inr (tr_tokens t) \<and>
                detail_sum ''chars'' (tr_details t) = Inr (tr_chars t)"
proof (induction rule: clean.induct)
  case (clean_op t op t')
  have "detail_sum ''tokens'' (tr_details t') = Inr (tr_tokens t') \<and>
        detail_sum ''chars'' (tr_details t') = Inr (tr_chars t')" if "track c ty a t = (Inr (), t')" for c ty a
    using clean_op.IH that
    by (cases rule: track_cases [of c ty a t]) (auto simp: detail_sum_def sum_from_append)
  then show ?case using clean_op.hyps
    by (cases op) (auto simp: trackAsset_def trackAdvisor_def detail_sum_def)
qed (simp add: detail_sum_def)

section \<open>When a tracker is over budget\<close>

lemma get_limit: "path (Some (JObj ps)) [k] = Inr (map_of ps (u k))"
  by (simp add: path.simps)

lemma over_cap_numbers:
  assumes "tr_limits t = Some (JObj ps)" "map_of ps (u k) = Some (JNum m)"
  shows "over_cap t k (JNum n) = Inr (num_lt (Fin 0) m \<and> num_lt m n)"
  using assms by (simp add: over_cap_def get_limit zero_def)

text \<open>A limit of zero means no limit on tokens and characters, but none at all on assets.\<close>

theorem over_budget_iff:
  assumes "tr_limits t = Some (JObj ps)" "map_of ps (u ''maxTokens'') = Some (JNum mt)"
    "map_of ps (u ''maxChars'') = Some (JNum mc)" "map_of ps (u ''maxAssets'') = Some (JNum ma)"
    "tr_tokens t = JNum nt" "tr_chars t = JNum nc"
  shows "isOverBudget t = Inr (num_lt (Fin 0) mt \<and> num_lt mt nt \<or> num_lt (Fin 0) mc \<and> num_lt mc nc \<or>
                               num_lt ma (num_of_nat (tr_assets t)))"
  using assms
  by (simp add: isOverBudget_def overruns_def over_cap_numbers [OF assms(1)] over_assets_def get_limit)

text \<open>The report is over budget exactly when it gives a reason.\<close>

theorem report_reasons:
  assumes "getCostReport t = Inr r"
  shows "get_opt (Some r) ''over_budget'' = Some (JBool (get_opt (Some r) ''over_budget_reasons'' \<noteq> Some (JArr [])))"
    "isOverBudget t = Inr (get_opt (Some r) ''over_budget_reasons'' \<noteq> Some (JArr []))"
proof -
  obtain a b c where o: "overruns t = Inr (a, b, c)"
    and r: "r = jo [(''profile'', JStr (tr_profile t)), (''limits'', JObj (spread (tr_limits t))),
                (''consumed'', jo [(''tokens'', tr_tokens t), (''chars'', tr_chars t),
                                   (''assets'', JNum (num_of_nat (tr_assets t)))]),
                (''over_budget'', JBool (a \<or> b \<or> c)),
                (''over_budget_reasons'', JArr (map js ((if a then [''tokens''] else []) @
                    (if b then [''chars''] else []) @ (if c then [''assets''] else [])))),
                (''asset_details'', JArr (tr_details t))]"
    using assms by (cases "overruns t") (auto simp: getCostReport_def isOverBudget_def)
  have g: "get_opt (Some r) ''over_budget'' = Some (JBool (a \<or> b \<or> c))"
    "get_opt (Some r) ''over_budget_reasons'' = Some (JArr (map js ((if a then [''tokens''] else []) @
                    (if b then [''chars''] else []) @ (if c then [''assets''] else []))))"
    by (simp_all add: r jo_def)
  show "get_opt (Some r) ''over_budget'' = Some (JBool (get_opt (Some r) ''over_budget_reasons'' \<noteq> Some (JArr [])))"
    "isOverBudget t = Inr (get_opt (Some r) ''over_budget_reasons'' \<noteq> Some (JArr []))"
    unfolding g by (cases a; cases b; cases c; simp add: isOverBudget_def o)+
qed

text \<open>A budget name that \<open>Object.prototype\<close> has gives a tracker without limits.\<close>

lemma inherited_not_own: "n \<in> set prototype_names \<Longrightarrow> map_of (map (\<lambda>(k, p). (u k, p)) BUDGET_PROFILES) (u n) = None"
  by (auto simp: prototype_names_def BUDGET_PROFILES_def)

theorem inherited_name_unlimited:
  assumes "n \<in> set prototype_names" "reach (Some (js n)) t"
  shows "isOverBudget t = Inr False"
proof -
  have "tr_limits t = Some (JObj [])"
    using assms reach_limits [OF assms(2)] inherited_not_own [OF assms(1)]
    by (auto simp: createCostTracker_def js_def profile_lookup_def tracker_for_def)
  then show ?thesis
    by (simp add: isOverBudget_def overruns_def over_cap_def over_assets_def get_limit js_gt_def
        to_primitive_def zero_def prim_lt_def prim_number_def num_lt_def split: json.splits)
qed

text \<open>Any other unknown name gets the interactive limits.\<close>

theorem unknown_name_interactive:
  assumes "s \<notin> u ` set prototype_names" "s \<notin> u ` fst ` set BUDGET_PROFILES"
  shows "createCostTracker (Some (JStr s)) = createCostTracker (Some (js ''interactive''))"
proof -
  have "map_of (map (\<lambda>(k, p). (u k, p)) BUDGET_PROFILES) s = None"
    using assms(2) by (auto simp: map_of_eq_None_iff split: prod.splits) force
  then have n: "profile_lookup s = None" using assms(1) by (auto simp: profile_lookup_def)
  have "\<exists>p. profile_lookup (u ''interactive'') = Some p"
    by (simp add: profile_lookup_def BUDGET_PROFILES_def)
  then show ?thesis using n by (auto simp: createCostTracker_def js_def)
qed

end
