(* ===== verification/Route.thy ===== *)
theory Route
  imports Gates
begin

text \<open>
  Route policies (\<open>packages/kdna-eval/src/route.js\<close>): reading a policy through own data properties
  only, and resolving the domains of an operation under overrides.

  Policies and overrides are caller values.  Back references are never own data of the kinds tested
  for here, so \<open>HCycle\<close> fails every test; an array counts as one whatever its prototype, and is taken
  to inherit the iteration methods of the language.
\<close>

section \<open>Own data properties\<close>

definition data_value :: "hslot option \<Rightarrow> hval option" where
  "data_value s = (case s of Some (HData _ v) \<Rightarrow> Some v | _ \<Rightarrow> None)"

definition array_slot :: "hslot list \<Rightarrow> (jstring \<times> hslot) list \<Rightarrow> jstring \<Rightarrow> hslot option" where
  "array_slot slots extras key =
     (if key = u ''length'' then Some (HData False (HNum (num_of_nat (length slots))))
      else case find (\<lambda>(i, s). index_text i = key) (List.enumerate 0 slots) of
             Some (i, s) \<Rightarrow> Some s
           | None \<Rightarrow> map_of extras key)"

text \<open>\<open>None\<close> stands for \<open>{ found: false }\<close>.\<close>

definition ownDataProperty :: "hval \<Rightarrow> jstring \<Rightarrow> hval option" where
  "ownDataProperty object key =
     (case object of
        HObj _ _ ps \<Rightarrow> data_value (map_of ps key)
      | HArr _ _ slots extras \<Rightarrow> data_value (array_slot slots extras key)
      | _ \<Rightarrow> None)"

definition isPlainDataObject :: "hval \<Rightarrow> bool" where
  "isPlainDataObject value =
     (case value of
        HObj pr nsym ps \<Rightarrow> pr \<noteq> OtherProto \<and> nsym = 0 \<and> all_enumerable_data ps
      | _ \<Rightarrow> False)"

definition enumerable_data :: "hslot \<Rightarrow> bool" where
  "enumerable_data s = (case s of HData True _ \<Rightarrow> True | _ \<Rightarrow> False)"

definition isDenseDataArray :: "hval \<Rightarrow> bool" where
  "isDenseDataArray value =
     (case value of
        HArr _ nsym slots extras \<Rightarrow>
          nsym = 0 \<and>
          (\<forall>(k, s) \<in> set extras. k \<noteq> [] \<and> (\<forall>c \<in> set k. is_digit c) \<and>
             num_lt (string_to_number k) (num_of_nat (length slots)) \<and> enumerable_data s) \<and>
          (\<forall>s \<in> set slots. enumerable_data s)
      | _ \<Rightarrow> False)"

section \<open>Policies\<close>

definition unknown_operation :: "jstring \<Rightarrow> exn" where
  "unknown_operation op = PlainError (u ''Unknown operation: '' @ op)"

definition invalid_policy :: "string \<Rightarrow> jstring \<Rightarrow> exn" where
  "invalid_policy what op = TypeErr (u (''Invalid route policy'' @ what @ '' for operation: '') @ op)"

definition valid_domain :: "hval \<Rightarrow> bool" where
  "valid_domain domain \<longleftrightarrow>
     isPlainDataObject domain \<and>
     (case ownDataProperty domain (u ''id'') of Some (HStr s) \<Rightarrow> \<not> blank s | _ \<Rightarrow> False) \<and>
     (case ownDataProperty domain (u ''weight'') of Some (HNum n) \<Rightarrow> is_finite n | _ \<Rightarrow> False)"

definition array_items :: "hval \<Rightarrow> hval list" where
  "array_items a = (case a of HArr _ _ slots _ \<Rightarrow> map (\<lambda>s. the (data_value (Some s))) slots | _ \<Rightarrow> [])"

definition check_domains :: "jstring \<Rightarrow> hval list \<Rightarrow> exn + unit" where
  "check_domains op domains =
     emap (\<lambda>_. ())
       (mapE (\<lambda>(index, domain). if valid_domain domain then Inr ()
              else Inl (TypeErr (u ''Invalid route policy domain at index '' @ index_text index @
                                 u '' for operation: '' @ op)))
          (List.enumerate 0 domains))"

definition getRoutePolicy :: "hval \<Rightarrow> hval \<Rightarrow> exn + hval" where
  "getRoutePolicy operation policies =
     (case operation of
        HStr op \<Rightarrow>
          if blank op then Inl (TypeErr (u ''operation must be a non-empty string''))
          else (case policies of
            HObj _ _ _ \<Rightarrow>
              (case ownDataProperty policies op of
                 None \<Rightarrow> Inl (unknown_operation op)
               | Some p \<Rightarrow>
                   if \<not> isPlainDataObject p then Inl (invalid_policy '''' op)
                   else if ownDataProperty p (u ''operation'') \<noteq> Some (HStr op) then Inl (invalid_policy '''' op)
                   else if ownDataProperty p (u ''loadProfile'') \<notin>
                             (\<lambda>s. Some (HStr (u s))) ` {''compact'', ''scenario'', ''full''}
                   then Inl (invalid_policy '' loadProfile'' op)
                   else (case ownDataProperty p (u ''domains'') of
                      None \<Rightarrow> Inl (invalid_policy '' domains'' op)
                    | Some domains \<Rightarrow>
                        if \<not> isDenseDataArray domains then Inl (invalid_policy '' domains'' op)
                        else ebind (check_domains op (array_items domains)) (\<lambda>_. Inr p)))
          | _ \<Rightarrow> Inl (unknown_operation op))
      | _ \<Rightarrow> Inl (TypeErr (u ''operation must be a non-empty string'')))"

section \<open>Resolution\<close>

record resolution =
  rs_operation :: hval
  rs_loadProfile :: hval
  rs_domains :: "hval list"
  rs_selected :: "hval list"
  rs_skipped :: "hval list"

definition check_overrides :: "hval \<Rightarrow> exn + unit" where
  "check_overrides domainOverrides =
     (if domainOverrides \<in> {HUndefined, HNull} then Inr ()
      else if \<not> isPlainDataObject domainOverrides
      then Inl (TypeErr (u ''domainOverrides must contain only own data properties''))
      else case domainOverrides of
        HObj _ _ ps \<Rightarrow>
          if \<forall>(k, s) \<in> set ps. (case data_value (Some s) of
                Some (HBool b) \<Rightarrow> \<not> b | Some (HNum n) \<Rightarrow> is_finite n | _ \<Rightarrow> False)
          then Inr () else Inl (TypeErr (u ''domainOverrides values must be false or finite numbers''))
      | _ \<Rightarrow> Inr ())"

definition own_slots :: "hval \<Rightarrow> (jstring \<times> hslot) list" where
  "own_slots v = (case v of HObj _ _ ps \<Rightarrow> ps | _ \<Rightarrow> [])"

text \<open>\<open>{ ...domain, k1: v1, .. }\<close> for a plain data object.\<close>

definition spread_with :: "hval \<Rightarrow> (string \<times> hval) list \<Rightarrow> hval" where
  "spread_with domain kvs = HObj PlainProto 0 (foldl (\<lambda>ps (k, v). upsert (u k) (HData True v) ps) (own_slots domain) kvs)"

definition domain_id :: "hval \<Rightarrow> hval" where
  "domain_id d = (case map_of (own_slots d) (u ''id'') of Some (HData _ v) \<Rightarrow> v | _ \<Rightarrow> HUndefined)"

definition override_of :: "hval \<Rightarrow> hval \<Rightarrow> hval option" where
  "override_of domainOverrides domain =
     (case domain_id domain of HStr k \<Rightarrow> ownDataProperty domainOverrides k | _ \<Rightarrow> None)"

definition resolve_domain :: "hval \<Rightarrow> hval \<Rightarrow> hval \<Rightarrow> hval" where
  "resolve_domain domainOverrides skipReason domain =
     (case override_of domainOverrides domain of
        Some (HBool False) \<Rightarrow>
          spread_with domain
            [(''selected'', HBool False), (''loadStatus'', HStr (u ''skipped'')),
             (''skipReason'', if skipReason \<in> {HUndefined, HNull} then HStr (u ''overridden-off'') else skipReason)]
      | Some (HNum n) \<Rightarrow>
          spread_with domain
            [(''weight'', HNum n), (''selected'', HBool True), (''loadStatus'', HStr (u ''pending''))]
      | _ \<Rightarrow> spread_with domain [(''selected'', HBool True), (''loadStatus'', HStr (u ''pending''))])"

definition is_selected :: "hval \<Rightarrow> bool" where
  "is_selected d = (case map_of (own_slots d) (u ''selected'') of Some (HData _ v) \<Rightarrow> htruthy v | _ \<Rightarrow> False)"

definition option_member :: "hval \<Rightarrow> string \<Rightarrow> exn + hval" where
  "option_member options k = (if options \<in> {HUndefined, HNull} then Inr HUndefined else hget options k)"

definition resolveDomains :: "hval \<Rightarrow> hval \<Rightarrow> exn + resolution" where
  "resolveDomains operation options =
     ebind (option_member options ''policies'') (\<lambda>policies.
     ebind (option_member options ''domainOverrides'') (\<lambda>domainOverrides.
     ebind (option_member options ''skipReason'') (\<lambda>skipReason.
     ebind (getRoutePolicy operation policies) (\<lambda>policy.
     ebind (check_overrides domainOverrides) (\<lambda>_.
       let resolved = map (resolve_domain domainOverrides skipReason)
                        (array_items (the (ownDataProperty policy (u ''domains''))))
       in Inr \<lparr>rs_operation = operation,
               rs_loadProfile = the (ownDataProperty policy (u ''loadProfile'')),
               rs_domains = resolved,
               rs_selected = map domain_id (filter is_selected resolved),
               rs_skipped = map domain_id (filter (\<lambda>d. \<not> is_selected d) resolved)\<rparr>)))))"

section \<open>Accepted policies\<close>

definition valid_policy :: "jstring \<Rightarrow> hval \<Rightarrow> bool" where
  "valid_policy op p \<longleftrightarrow>
     isPlainDataObject p \<and> ownDataProperty p (u ''operation'') = Some (HStr op) \<and>
     ownDataProperty p (u ''loadProfile'') \<in> (\<lambda>s. Some (HStr (u s))) ` {''compact'', ''scenario'', ''full''} \<and>
     (\<exists>ds. ownDataProperty p (u ''domains'') = Some ds \<and> isDenseDataArray ds \<and> list_all valid_domain (array_items ds))"

lemma check_domains_Inr: "check_domains op ds = Inr () \<longleftrightarrow> list_all valid_domain ds"
proof -
  have "(\<exists>ys. mapE (\<lambda>(i, d). if valid_domain d then Inr () else Inl (f i)) (List.enumerate n ds) = Inr ys) \<longleftrightarrow>
        list_all valid_domain ds" for n and f :: "nat \<Rightarrow> exn"
    by (induction ds arbitrary: n) (auto simp: result_simps)
  then show ?thesis by (simp add: check_domains_def result_simps)
qed

theorem getRoutePolicy_iff:
  "getRoutePolicy operation policies = Inr p \<longleftrightarrow>
     (\<exists>op pr n ps. operation = HStr op \<and> \<not> blank op \<and> policies = HObj pr n ps \<and>
        ownDataProperty policies op = Some p \<and> valid_policy op p)"
proof (cases operation)
  case op: (HStr op)
  show ?thesis
  proof (cases policies)
    case (HObj pr n ps)
    then show ?thesis
      by (auto simp: op getRoutePolicy_def valid_policy_def check_domains_Inr result_simps
          split: option.splits if_splits)
  qed (auto simp: op getRoutePolicy_def)
qed (auto simp: getRoutePolicy_def)

section \<open>Resolved domains\<close>

lemma own_slots_spread: "own_slots (spread_with d kvs) = foldl (\<lambda>ps (k, v). upsert (u k) (HData True v) ps) (own_slots d) kvs"
  by (simp add: spread_with_def own_slots_def)

lemma resolve_domain_id: "domain_id (resolve_domain ov r d) = domain_id d"
  by (auto simp: resolve_domain_def domain_id_def own_slots_spread split: option.splits hval.splits bool.splits)

lemma resolve_domain_selected:
  "is_selected (resolve_domain ov r d) \<longleftrightarrow> override_of ov d \<noteq> Some (HBool False)"
  by (auto simp: resolve_domain_def is_selected_def own_slots_spread htruthy_def split: option.splits hval.splits bool.splits)

lemma resolve_domain_weight:
  "map_of (own_slots (resolve_domain ov r d)) (u ''weight'') =
     (case override_of ov d of Some (HNum n) \<Rightarrow> Some (HData True (HNum n)) | _ \<Rightarrow> map_of (own_slots d) (u ''weight''))"
  by (auto simp: resolve_domain_def own_slots_spread split: option.splits hval.splits bool.splits)

text \<open>
  The domains of the policy are kept in order; a domain is skipped exactly when its own override is
  \<open>false\<close>, and its weight changes exactly when its override is a number.
\<close>

theorem resolveDomains_spec:
  assumes "resolveDomains operation options = Inr r"
  obtains policies ov skip p ds where
    "option_member options ''policies'' = Inr policies" "option_member options ''domainOverrides'' = Inr ov"
    "option_member options ''skipReason'' = Inr skip"
    "getRoutePolicy operation policies = Inr p" "check_overrides ov = Inr ()"
    "ownDataProperty p (u ''domains'') = Some ds"
    "rs_domains r = map (resolve_domain ov skip) (array_items ds)"
    "rs_selected r = map domain_id (filter (\<lambda>d. override_of ov d \<noteq> Some (HBool False)) (array_items ds))"
    "rs_skipped r = map domain_id (filter (\<lambda>d. override_of ov d = Some (HBool False)) (array_items ds))"
    "length (rs_selected r) + length (rs_skipped r) = length (rs_domains r)"
proof -
  obtain policies ov skip p where o: "option_member options ''policies'' = Inr policies"
    "option_member options ''domainOverrides'' = Inr ov" "option_member options ''skipReason'' = Inr skip"
    "getRoutePolicy operation policies = Inr p" "check_overrides ov = Inr ()"
    and r: "r = (let resolved = map (resolve_domain ov skip) (array_items (the (ownDataProperty p (u ''domains''))))
       in \<lparr>rs_operation = operation, rs_loadProfile = the (ownDataProperty p (u ''loadProfile'')),
               rs_domains = resolved, rs_selected = map domain_id (filter is_selected resolved),
               rs_skipped = map domain_id (filter (\<lambda>d. \<not> is_selected d) resolved)\<rparr>)"
    using assms by (auto simp: resolveDomains_def result_simps Let_def)
  obtain ds where ds: "ownDataProperty p (u ''domains'') = Some ds"
    using o(4) by (auto simp: getRoutePolicy_iff valid_policy_def)
  let ?f = "resolve_domain ov skip"
  have m: "map domain_id (filter P (map ?f xs)) = map domain_id (filter (P \<circ> ?f) xs)" for P xs
    by (simp add: filter_map comp_def resolve_domain_id)
  have l: "length (filter P xs) + length (filter (\<lambda>x. \<not> P x) xs) = length xs" for P :: "hval \<Rightarrow> bool" and xs
    by (rule sum_length_filter_compl)
  show thesis
    by (rule that [OF o ds]) (use l [of "\<lambda>d. override_of ov d \<noteq> Some (HBool False)" "array_items ds"] in
        \<open>simp_all add: r ds Let_def m comp_def resolve_domain_selected\<close>)
qed

section \<open>A concrete policy\<close>

definition d_route_policy :: hval where
  "d_route_policy =
     ho [(''operation'', HStr (u ''review'')), (''loadProfile'', HStr (u ''compact'')),
         (''domains'', HArr True 0
            [HData True (ho [(''id'', HStr (u ''style'')), (''weight'', HNum (Fin 1))]),
             HData True (ho [(''id'', HStr (u ''risk'')), (''weight'', HNum (Fin 2))])] [])]"

definition d_route_options :: hval where
  "d_route_options =
     ho [(''policies'', ho [(''review'', d_route_policy)]), (''domainOverrides'', ho [(''style'', HBool False)])]"

lemma own_ho [simp]: "ownDataProperty (ho ps) (u k) = map_of ps k"
  by (cases "map_of ps k") (simp_all add: ownDataProperty_def ho_def data_value_def)

lemma plain_ho [simp]: "isPlainDataObject (ho ps)"
  by (auto simp: isPlainDataObject_def ho_def all_enumerable_data_def)

lemma not_blank_words [simp]: "\<not> blank (u ''review'')" "\<not> blank (u ''style'')" "\<not> blank (u ''risk'')"
  by (simp_all add: blank_iff u_def is_space_def of_char_unat)

lemma d_route_policy_valid: "valid_policy (u ''review'') d_route_policy"
  by (auto simp: valid_policy_def d_route_policy_def isDenseDataArray_def enumerable_data_def array_items_def
      data_value_def valid_domain_def)

lemma d_route_resolved: "\<exists>r. resolveDomains (HStr (u ''review'')) d_route_options = Inr r"
proof -
  have o: "option_member d_route_options ''policies'' = Inr (ho [(''review'', d_route_policy)])"
    "option_member d_route_options ''domainOverrides'' = Inr (ho [(''style'', HBool False)])"
    "option_member d_route_options ''skipReason'' = Inr HUndefined"
    by (simp_all add: option_member_def d_route_options_def hget_def ho_def slot_get_def)
  have g: "getRoutePolicy (HStr (u ''review'')) (ho [(''review'', d_route_policy)]) = Inr d_route_policy"
    unfolding getRoutePolicy_iff using d_route_policy_valid by (auto simp: ho_def [of "[_]"]) (simp add: ownDataProperty_def data_value_def)
  have c: "check_overrides (ho [(''style'', HBool False)]) = Inr ()"
    by (simp add: check_overrides_def ho_def isPlainDataObject_def all_enumerable_data_def data_value_def)
  show ?thesis by (simp add: resolveDomains_def o g c Let_def)
qed

end
