(* ===== verification/Validation.thy ===== *)
theory Validation
  imports JsArith
begin

text \<open>
  The shape of the validators of \<open>packages/kdna-eval\<close>: a function that collects messages and answers
  \<open>{ valid, <value>, errors }\<close>, with the value only when there is no message.  The pieces that the route
  card and the consumer index share are here, with the lemmas that say when no message is produced.
\<close>

section \<open>Results and messages\<close>

record validation =
  vr_valid :: bool
  vr_value :: "json option"
  vr_errors :: "jstring list"

definition refused :: "jstring list \<Rightarrow> validation" where
  "refused errors = \<lparr>vr_valid = False, vr_value = None, vr_errors = errors\<rparr>"

definition check :: "bool \<Rightarrow> jstring \<Rightarrow> jstring list" where
  "check good m = (if good then [] else [m])"

definition at_index :: "jstring \<Rightarrow> nat \<Rightarrow> jstring" where
  "at_index fld i = fld @ u ''['' @ index_text i @ u '']''"

definition validateStringArray :: "json option \<Rightarrow> jstring \<Rightarrow> jstring list" where
  "validateStringArray v fld =
     (case v of
        Some (JArr xs) \<Rightarrow>
          concat (map (\<lambda>(i, x). check (is_string (Some x)) (at_index fld i @ u '' must be a string''))
                    (List.enumerate 0 xs))
      | _ \<Rightarrow> [fld @ u '' must be an array''])"

definition verdict :: "json option \<Rightarrow> jstring list \<Rightarrow> validation" where
  "verdict rc errors = (if errors = [] then \<lparr>vr_valid = True, vr_value = rc, vr_errors = []\<rparr> else refused errors)"

text \<open>\<open>invalid FIELD: ${String(value)}\<close> when the value is not one of the names.\<close>

definition check_one_of :: "json option \<Rightarrow> string list \<Rightarrow> jstring \<Rightarrow> exn + jstring list" where
  "check_one_of v names fld =
     (if one_of v names then Inr []
      else ebind (prim_text v) (\<lambda>s. Inr [u ''invalid '' @ fld @ u '': '' @ s]))"

text \<open>A list member of the value: absent, not an array, or checked element by element.\<close>

definition list_errors :: "(nat \<Rightarrow> json \<Rightarrow> exn + jstring list) \<Rightarrow> string \<Rightarrow> json option \<Rightarrow> exn + jstring list" where
  "list_errors f fld v =
     (case v of
        None \<Rightarrow> Inr []
      | Some (JArr xs) \<Rightarrow> emap concat (mapE (\<lambda>(i, x). f i x) (List.enumerate 0 xs))
      | Some _ \<Rightarrow> Inr [u (fld @ '' must be an array'')])"

text \<open>
  \<open>loadRouteCard\<close> and \<open>loadConsumerIndex\<close> are the same function over their validators: an object is
  validated, a path is read and parsed by \<open>read_json\<close> (a left result is the message of what it throws),
  and the message of anything thrown while a read value is validated becomes the only error.
\<close>

definition load_with ::
  "(json option \<Rightarrow> exn + validation) \<Rightarrow> (jstring \<Rightarrow> jstring + json) \<Rightarrow> json option \<Rightarrow> exn + validation" where
  "load_with validate read_json pathOrObject =
     (case pathOrObject of
        Some (JObj _) \<Rightarrow> validate pathOrObject
      | Some (JArr _) \<Rightarrow> validate pathOrObject
      | Some (JStr p) \<Rightarrow>
          (case read_json p of
             Inl m \<Rightarrow> Inr (refused [m])
           | Inr data \<Rightarrow> try_catch (validate (Some data)) (\<lambda>e. Inr (refused [error_message e])))
      | _ \<Rightarrow> Inr (refused [u ''input must be an object or file path'']))"

section \<open>When there is no message\<close>

definition field_ok :: "(json option \<Rightarrow> bool) \<Rightarrow> json option \<Rightarrow> bool" where
  "field_ok P v \<longleftrightarrow> v = None \<or> P v"

definition list_of :: "(json \<Rightarrow> bool) \<Rightarrow> json option \<Rightarrow> bool" where
  "list_of P v = (case v of Some (JArr xs) \<Rightarrow> list_all P xs | _ \<Rightarrow> False)"

lemma check_Nil [simp]: "check good m = [] \<longleftrightarrow> good"
  by (simp add: check_def)

lemma indexed_checks_Nil:
  "concat (map (\<lambda>(i, x). check (P x) (m i)) (List.enumerate k xs)) = [] \<longleftrightarrow> (\<forall>x \<in> set xs. P x)"
  by (induction xs arbitrary: k) auto

lemma validateStringArray_Nil [simp]: "validateStringArray v fld = [] \<longleftrightarrow> is_text_list v"
  unfolding validateStringArray_def is_text_list_def
  by (cases v) (auto simp: indexed_checks_Nil simp del: concat_eq_Nil_conv split: json.splits)

lemma check_one_of_Nil [simp]: "check_one_of v names fld = Inr [] \<longleftrightarrow> one_of v names"
  by (auto simp: check_one_of_def result_simps)

lemma indexed_errors_Nil:
  assumes "\<And>i x. f i x = Inr [] \<longleftrightarrow> P x"
  shows "emap concat (mapE (\<lambda>(i, x). f i x) (List.enumerate k xs)) = Inr [] \<longleftrightarrow> list_all P xs"
proof (induction xs arbitrary: k)
  case (Cons x xs)
  have "emap concat (mapE (\<lambda>(i, x). f i x) (List.enumerate k (x # xs))) = Inr [] \<longleftrightarrow>
      f k x = Inr [] \<and> emap concat (mapE (\<lambda>(i, x). f i x) (List.enumerate (Suc k) xs)) = Inr []"
    by (auto simp: result_simps)
  with Cons show ?case by (simp add: assms)
qed simp

lemma list_errors_Nil:
  assumes "\<And>i x. f i x = Inr [] \<longleftrightarrow> P x"
  shows "list_errors f fld v = Inr [] \<longleftrightarrow> field_ok (list_of P) v"
  using indexed_errors_Nil [of f P, OF assms]
  by (auto simp: list_errors_def field_ok_def list_of_def split: option.splits json.splits)

lemma non_empty_stringE: "non_empty_string v \<Longrightarrow> \<exists>n. v = Some (JStr n) \<and> n \<noteq> []"
  by (auto simp: non_empty_string_def split: option.splits json.splits)

section \<open>Accepted and refused\<close>

definition accepted :: "json option \<Rightarrow> validation" where
  "accepted rc = \<lparr>vr_valid = True, vr_value = rc, vr_errors = []\<rparr>"

lemma refused_not_accepted [simp]: "refused es \<noteq> accepted rc" "accepted rc \<noteq> refused es"
    and refused_inject [simp]: "refused es = refused fs \<longleftrightarrow> es = fs"
  by (simp_all add: refused_def accepted_def)

lemma verdict_accepted [simp]: "verdict rc es = accepted rc \<longleftrightarrow> es = []"
  by (simp add: verdict_def accepted_def refused_def)

lemma verdict_cases: "verdict rc es = accepted rc \<or> es \<noteq> [] \<and> verdict rc es = refused es"
  by (simp add: verdict_def accepted_def)

section \<open>The contract of a validator\<close>

text \<open>
  \<open>good\<close> describes the accepted values without reference to messages or their order.  Whatever \<open>String\<close>
  throws on the way, a value that is not refused or thrown at is good, and a good one is returned as it is.
\<close>

locale validator =
  fixes validate :: "json option \<Rightarrow> exn + validation"
    and good :: "json option \<Rightarrow> bool"
  assumes result_cases: "validate v = Inr r \<Longrightarrow> r = accepted v \<or> (\<exists>es. es \<noteq> [] \<and> r = refused es)"
    and accepted_iff: "validate v = Inr (accepted v) \<longleftrightarrow> good v"
begin

lemma valid_iff: "validate v = Inr r \<Longrightarrow> vr_valid r \<longleftrightarrow> good v"
  using result_cases [of v r] accepted_iff [of v] by (auto simp: accepted_def refused_def)

lemma spec:
  "case validate v of
     Inl _ \<Rightarrow> \<not> good v
   | Inr r \<Rightarrow> vr_valid r = good v \<and> vr_value r = (if good v then v else None) \<and> (vr_errors r = []) = good v"
proof (cases "validate v")
  case (Inl e)
  then show ?thesis using accepted_iff [of v] by auto
next
  case (Inr r)
  with result_cases [OF Inr] accepted_iff [of v] show ?thesis
    by (auto simp: accepted_def refused_def)
qed

lemma load_path:
  "\<exists>r. load_with validate read_json (Some (JStr p)) = Inr r \<and>
     vr_valid r = (case read_json p of Inl _ \<Rightarrow> False | Inr v \<Rightarrow> good (Some v))"
proof (cases "read_json p")
  case (Inr v)
  show ?thesis
  proof (cases "validate (Some v)")
    case (Inl e)
    then have "\<not> good (Some v)" using accepted_iff [of "Some v"] by auto
    with Inl Inr show ?thesis by (simp add: load_with_def refused_def)
  next
    case r: (Inr r)
    with Inr valid_iff [OF r] show ?thesis by (simp add: load_with_def)
  qed
qed (simp add: load_with_def refused_def)

end

end
