(* ===== verification/RouteCard.thy ===== *)
theory RouteCard
  imports Validation
begin

text \<open>
  Route cards (\<open>packages/kdna-eval/src/route-card.js\<close>): validation and application of a card to the
  route policies.

  A card and the policies are JSON values (a card is usually read from a file); reading and parsing
  the file is the parameter \<open>read_json\<close>, whose left result is the message of what it throws.
  \<open>String(v)\<close> in a message throws for an object with an own \<open>toString\<close> member, so validation itself
  may throw.  \<open>applyRouteCard\<close> changes a private copy of the policies in place; an entry found by
  \<open>find\<close> is addressed here by its position in the list.
\<close>

section \<open>Validation\<close>

definition boundary_errors :: "json option \<Rightarrow> jstring list" where
  "boundary_errors b =
     (if b = None then []
      else if \<not> is_record b then [u ''boundaries must be an object'']
      else concat (map (\<lambda>f. if get_opt b f = None then []
                            else validateStringArray (get_opt b f) (u (''boundaries.'' @ f)))
                     [''applies_when'', ''does_not_apply_when'']))"

definition neighbor_errors :: "nat \<Rightarrow> json \<Rightarrow> exn + jstring list" where
  "neighbor_errors i n =
     (let loc = at_index (u ''neighbors'') i; get = get_opt (Some n) in
      if \<not> is_record (Some n) then Inr [loc @ u '' must be an object'']
      else ebind (check_one_of (get ''relationship'') [''complement'', ''alternative'', ''supersedes'']
                    (loc @ u ''.relationship'')) (\<lambda>r.
        Inr (check (non_empty_string (get ''domain_id'')) (loc @ u ''.domain_id must be a non-empty string'') @ r @
             check (get ''weight_delta'' = None \<or> is_finite_num (get ''weight_delta''))
               (loc @ u ''.weight_delta must be a finite number''))))"

definition edge_errors :: "nat \<Rightarrow> json \<Rightarrow> exn + jstring list" where
  "edge_errors i e =
     (let loc = at_index (u ''advisor_edges'') i; get = get_opt (Some e) in
      if \<not> is_record (Some e) then Inr [loc @ u '' must be an object'']
      else ebind (check_one_of (get ''when'') [''always'', ''on_uncertainty'', ''on_conflict''] (loc @ u ''.when'')) (\<lambda>w.
        Inr (check (non_empty_string (get ''domain_id'')) (loc @ u ''.domain_id must be a non-empty string'') @ w)))"

definition review_statuses :: "string list" where
  "review_statuses = [''draft_generated'', ''lint_repaired'', ''human_reviewed'', ''eval_candidate'', ''trusted_runtime'']"

definition provenance_errors :: "json option \<Rightarrow> exn + jstring list" where
  "provenance_errors p =
     (if p = None then Inr []
      else ebind (if get_opt p ''review_status'' = None then Inr []
                  else check_one_of (get_opt p ''review_status'') review_statuses (u ''provenance.review_status'')) (\<lambda>rs.
        Inr (rs @ check (non_empty_string (get_opt p ''generated_by''))
          (u ''provenance.generated_by is required and must be a non-empty string when provenance is present''))))"

definition head_errors :: "json option \<Rightarrow> jstring list" where
  "head_errors rc =
     check (is_str (get_opt rc ''route_card'') ''0.1.0'') (u ''route_card must be \"0.1.0\"'') @
     check (non_empty_string (get_opt rc ''domain_id''))
       (u ''domain_id is required and must be a non-empty string'') @
     check (one_of (get_opt rc ''role'') [''primary'', ''advisor'', ''control''])
       (u ''role must be one of: primary, advisor, control'') @
     boundary_errors (get_opt rc ''boundaries'')"

definition validateRouteCard :: "json option \<Rightarrow> exn + validation" where
  "validateRouteCard rc =
     (if \<not> is_record rc then Inr (refused [u ''card must be an object''])
      else ebind (list_errors neighbor_errors ''neighbors'' (get_opt rc ''neighbors'')) (\<lambda>ns.
           ebind (list_errors edge_errors ''advisor_edges'' (get_opt rc ''advisor_edges'')) (\<lambda>es.
             if get_opt rc ''provenance'' \<noteq> None \<and> \<not> is_record (get_opt rc ''provenance'')
             then Inr (refused (head_errors rc @ ns @ es @ [u ''provenance must be an object'']))
             else ebind (provenance_errors (get_opt rc ''provenance'')) (\<lambda>ps.
               Inr (verdict rc (head_errors rc @ ns @ es @ ps))))))"

definition loadRouteCard :: "(jstring \<Rightarrow> jstring + json) \<Rightarrow> json option \<Rightarrow> exn + validation" where
  "loadRouteCard = load_with validateRouteCard"

section \<open>Application\<close>

definition one :: json where "one = JNum (Fin 1)"
definition half :: json where "half = JNum (Fin (1 / 2))"

text \<open>\<open>domains.findIndex((d) => d.id === id)\<close>\<close>

fun find_domain :: "json option \<Rightarrow> json list \<Rightarrow> exn + nat option" where
  "find_domain name [] = Inr None"
| "find_domain name (d # ds) =
     ebind (get_prop (Some d) ''id'') (\<lambda>x.
       if strict_eq x name then Inr (Some 0) else emap (map_option Suc) (find_domain name ds))"

definition new_entry :: "json option \<Rightarrow> json \<Rightarrow> json" where
  "new_entry name weight = JObj ((case name of None \<Rightarrow> [] | Some j \<Rightarrow> [(u ''id'', j)]) @ [(u ''weight'', weight)])"

text \<open>The entry with the name, appended with the default weight when there is none.\<close>

definition ensure_entry :: "json option \<Rightarrow> json \<Rightarrow> json list \<Rightarrow> exn + nat \<times> json list" where
  "ensure_entry name weight ds =
     emap (\<lambda>i. case i of Some i \<Rightarrow> (i, ds) | None \<Rightarrow> (length ds, ds @ [new_entry name weight])) (find_domain name ds)"

definition set_weight :: "nat \<Rightarrow> json \<Rightarrow> json list \<Rightarrow> json list" where
  "set_weight i w ds =
     ds[i := (case ds ! i of JObj ps \<Rightarrow> JObj (upsert (u ''weight'') w ps) | d \<Rightarrow> d)]"

definition weight_of :: "nat \<Rightarrow> json list \<Rightarrow> json option" where
  "weight_of i ds = get_opt (Some (ds ! i)) ''weight''"

definition apply_domain :: "json option \<Rightarrow> json list \<Rightarrow> exn + json list" where
  "apply_domain rc ds =
     ebind (ensure_entry (get_opt rc ''domain_id'') one ds) (\<lambda>(i, ds1).
       if is_str (get_opt rc ''role'') ''primary''
       then ebind (js_max (or_else (weight_of i ds1) (Some one)) (Some one)) (\<lambda>w. Inr (set_weight i w ds1))
       else Inr ds1)"

definition apply_neighbor :: "json \<Rightarrow> json list \<Rightarrow> exn + json list" where
  "apply_neighbor n ds =
     ebind (ensure_entry (get_opt (Some n) ''domain_id'') half ds) (\<lambda>(i, ds1).
       let delta = get_opt (Some n) ''weight_delta'' in
       if nullish delta then Inr ds1
       else ebind (js_add (or_else (weight_of i ds1) (Some (JNum (Fin 0)))) delta) (\<lambda>s.
            ebind (js_max (Some (JNum (Fin 0))) (Some s)) (\<lambda>w. Inr (set_weight i w ds1))))"

fun apply_neighbors :: "json list \<Rightarrow> json list \<Rightarrow> exn + json list" where
  "apply_neighbors [] ds = Inr ds"
| "apply_neighbors (n # ns) ds = ebind (apply_neighbor n ds) (apply_neighbors ns)"

definition card_neighbors :: "json option \<Rightarrow> json list" where
  "card_neighbors rc = (case get_opt rc ''neighbors'' of Some (JArr ns) \<Rightarrow> ns | _ \<Rightarrow> [])"

definition apply_to_domains :: "json option \<Rightarrow> json list \<Rightarrow> exn + json list" where
  "apply_to_domains rc ds = ebind (apply_domain rc ds) (apply_neighbors (card_neighbors rc))"

text \<open>One element of \<open>Object.values(augmented)\<close>.\<close>

definition apply_to_policy :: "json option \<Rightarrow> json \<Rightarrow> exn + json" where
  "apply_to_policy rc op =
     ebind (get_prop (Some op) ''domains'') (\<lambda>domains.
       if \<not> truthy domains then Inr op
       else case (domains, op) of
         (Some (JArr ds), JObj ps) \<Rightarrow>
           emap (\<lambda>ds'. JObj (upsert (u ''domains'') (JArr ds') ps)) (apply_to_domains rc ds)
       | _ \<Rightarrow> Inl (TypeErr (u ''op.domains.find is not a function'')))"

text \<open>\<open>for (const op of Object.values(augmented))\<close>, the changed values put back in their places.\<close>

definition apply_values :: "(json \<Rightarrow> exn + json) \<Rightarrow> json \<Rightarrow> exn + json" where
  "apply_values f v =
     (case v of
        JObj ps \<Rightarrow> emap (\<lambda>js. JObj (zip (map fst ps) js)) (mapE f (map snd ps))
      | JArr xs \<Rightarrow> emap JArr (mapE f xs)
      | JNull \<Rightarrow> Inl (TypeErr (u ''Cannot convert undefined or null to object''))
      | _ \<Rightarrow> Inr v)"

definition applyRouteCard :: "json option \<Rightarrow> json option \<Rightarrow> exn + json" where
  "applyRouteCard rc policies =
     ebind (validateRouteCard rc) (\<lambda>result.
       if \<not> vr_valid result
       then Inl (PlainError (u ''Invalid route card: '' @ join (u ''; '') (vr_errors result)))
       else apply_values (apply_to_policy rc) (if truthy policies then json_clone (the policies) else JObj []))"

section \<open>What a valid card is\<close>

definition boundaries_ok :: "json option \<Rightarrow> bool" where
  "boundaries_ok b \<longleftrightarrow> is_record b \<and>
     field_ok is_text_list (get_opt b ''applies_when'') \<and> field_ok is_text_list (get_opt b ''does_not_apply_when'')"

definition neighbor_ok :: "json \<Rightarrow> bool" where
  "neighbor_ok n \<longleftrightarrow> is_record (Some n) \<and> non_empty_string (get_opt (Some n) ''domain_id'') \<and>
     one_of (get_opt (Some n) ''relationship'') [''complement'', ''alternative'', ''supersedes''] \<and>
     field_ok is_finite_num (get_opt (Some n) ''weight_delta'')"

definition edge_ok :: "json \<Rightarrow> bool" where
  "edge_ok e \<longleftrightarrow> is_record (Some e) \<and> non_empty_string (get_opt (Some e) ''domain_id'') \<and>
     one_of (get_opt (Some e) ''when'') [''always'', ''on_uncertainty'', ''on_conflict'']"

definition provenance_ok :: "json option \<Rightarrow> bool" where
  "provenance_ok p \<longleftrightarrow> is_record p \<and> non_empty_string (get_opt p ''generated_by'') \<and>
     field_ok (\<lambda>v. one_of v review_statuses) (get_opt p ''review_status'')"

definition route_card_ok :: "json option \<Rightarrow> bool" where
  "route_card_ok rc \<longleftrightarrow> is_record rc \<and>
     get_opt rc ''route_card'' = Some (js ''0.1.0'') \<and>
     non_empty_string (get_opt rc ''domain_id'') \<and>
     one_of (get_opt rc ''role'') [''primary'', ''advisor'', ''control''] \<and>
     field_ok boundaries_ok (get_opt rc ''boundaries'') \<and>
     field_ok (list_of neighbor_ok) (get_opt rc ''neighbors'') \<and>
     field_ok (list_of edge_ok) (get_opt rc ''advisor_edges'') \<and>
     field_ok provenance_ok (get_opt rc ''provenance'')"

section \<open>Validation is complete and correct\<close>

lemma boundary_errors_Nil [simp]: "boundary_errors b = [] \<longleftrightarrow> field_ok boundaries_ok b"
  by (auto simp: boundary_errors_def field_ok_def boundaries_ok_def)

lemma neighbor_errors_Nil [simp]: "neighbor_errors i n = Inr [] \<longleftrightarrow> neighbor_ok n"
  by (auto simp: neighbor_errors_def neighbor_ok_def field_ok_def Let_def ebind_Inr_conv)

lemma edge_errors_Nil [simp]: "edge_errors i e = Inr [] \<longleftrightarrow> edge_ok e"
  by (auto simp: edge_errors_def edge_ok_def Let_def ebind_Inr_conv)

lemma provenance_errors_Nil:
  "(if p \<noteq> None \<and> \<not> is_record p then False else provenance_errors p = Inr []) \<longleftrightarrow> field_ok provenance_ok p"
  by (auto simp: provenance_errors_def field_ok_def provenance_ok_def ebind_Inr_conv)

lemma validateRouteCard_result:
  "validateRouteCard rc = Inr r \<Longrightarrow> r = accepted rc \<or> (\<exists>es. es \<noteq> [] \<and> r = refused es)"
proof -
  assume "validateRouteCard rc = Inr r"
  then have "(\<exists>es. es \<noteq> [] \<and> r = refused es) \<or> (\<exists>es. r = verdict rc es)"
    unfolding validateRouteCard_def
    by (cases "is_record rc") (auto simp: ebind_Inr_conv split: if_splits)
  then show ?thesis using verdict_cases by blast
qed

lemma validateRouteCard_guards:
  assumes "is_record rc"
  shows "validateRouteCard rc = Inr (accepted rc) \<longleftrightarrow>
     list_errors neighbor_errors ''neighbors'' (get_opt rc ''neighbors'') = Inr [] \<and>
     list_errors edge_errors ''advisor_edges'' (get_opt rc ''advisor_edges'') = Inr [] \<and>
     head_errors rc = [] \<and>
     (if get_opt rc ''provenance'' \<noteq> None \<and> \<not> is_record (get_opt rc ''provenance'') then False
      else provenance_errors (get_opt rc ''provenance'') = Inr [])"
  unfolding validateRouteCard_def using assms by (auto simp: ebind_Inr_conv)

lemma validateRouteCard_accepted_iff: "validateRouteCard rc = Inr (accepted rc) \<longleftrightarrow> route_card_ok rc"
proof (cases "is_record rc")
  case True
  show ?thesis
    unfolding validateRouteCard_guards [OF True] provenance_errors_Nil head_errors_def
      list_errors_Nil [of neighbor_errors neighbor_ok, OF neighbor_errors_Nil]
      list_errors_Nil [of edge_errors edge_ok, OF edge_errors_Nil]
    by (simp add: route_card_ok_def True js_def) blast
qed (simp add: validateRouteCard_def route_card_ok_def)

interpretation route_card: validator validateRouteCard route_card_ok
  by unfold_locales (use validateRouteCard_result validateRouteCard_accepted_iff in blast)+

section \<open>What applying a card does\<close>

definition entry_id :: "json \<Rightarrow> json option" where
  "entry_id d = get_opt (Some d) ''id''"

definition domains_of :: "json \<Rightarrow> json list" where
  "domains_of op = (case get_opt (Some op) ''domains'' of Some (JArr ds) \<Rightarrow> ds | _ \<Rightarrow> [])"

lemma find_domain_None: "find_domain name ds = Inr None \<Longrightarrow> \<forall>d \<in> set ds. \<not> strict_eq (entry_id d) name"
  by (induction ds) (auto simp: result_simps entry_id_def get_opt_Inr split: if_splits)

lemma find_domain_Some:
  "find_domain name ds = Inr (Some i) \<Longrightarrow> i < length ds \<and> strict_eq (entry_id (ds ! i)) name"
  by (induction ds arbitrary: i) (auto simp: result_simps entry_id_def get_opt_Inr split: if_splits dest!: sym [of "Some _"])

lemma entry_id_set_weight [simp]: "map entry_id (set_weight i w ds) = map entry_id ds"
proof (cases "i < length ds")
  case True
  have "entry_id (case ds ! i of JObj ps \<Rightarrow> JObj (upsert (u ''weight'') w ps) | d \<Rightarrow> d) = entry_id (ds ! i)"
    by (auto simp: entry_id_def split: json.splits)
  with True show ?thesis
    by (simp add: set_weight_def map_update list_update_same_conv)
qed (simp add: set_weight_def list_update_beyond)

lemma length_set_weight [simp]: "length (set_weight i w ds) = length ds"
  by (simp add: set_weight_def)

lemma entry_id_new_entry [simp]: "entry_id (new_entry name w) = name"
  by (cases name) (auto simp: new_entry_def entry_id_def)

text \<open>
  \<open>grows ids ds ds'\<close>: the entries keep their order and their names, entries are only added at the end,
  and every name of \<open>ids\<close> has an entry.
\<close>

definition grows :: "json option set \<Rightarrow> json list \<Rightarrow> json list \<Rightarrow> bool" where
  "grows ids ds ds' \<longleftrightarrow> (\<exists>new. map entry_id ds' = map entry_id ds @ new) \<and> ids \<subseteq> entry_id ` set ds'"

lemma grows_trans: "grows A ds ds1 \<Longrightarrow> grows B ds1 ds2 \<Longrightarrow> grows (A \<union> B) ds ds2"
proof -
  assume 1: "grows A ds ds1" and 2: "grows B ds1 ds2"
  from 2 obtain new where new: "map entry_id ds2 = map entry_id ds1 @ new" by (auto simp: grows_def)
  then have "entry_id ` set ds1 \<subseteq> entry_id ` set ds2"
    by (metis list.set_map set_append Un_upper1)
  with 1 2 new show "grows (A \<union> B) ds ds2" by (fastforce simp: grows_def)
qed

lemma grows_refl: "grows {} ds ds"
  by (simp add: grows_def)

lemma grows_set_weight: "grows A ds (set_weight i w ds') = grows A ds ds'"
  unfolding grows_def entry_id_set_weight
  by (metis entry_id_set_weight list.set_map)

lemma ensure_entry_grows:
  assumes "ensure_entry (Some (JStr n)) w ds = Inr (i, ds')"
  shows "grows {Some (JStr n)} ds ds' \<and> i < length ds'"
  using assms find_domain_Some [of "Some (JStr n)" ds]
  by (auto simp: ensure_entry_def emap_Inr_conv grows_def split: option.splits)
     (metis image_eqI nth_mem)

lemma apply_domain_grows:
  assumes "apply_domain rc ds = Inr ds'" "non_empty_string (get_opt rc ''domain_id'')"
  shows "grows {get_opt rc ''domain_id''} ds ds'"
  using assms non_empty_stringE [OF assms(2)] ensure_entry_grows
  by (fastforce simp: apply_domain_def ebind_Inr_conv grows_set_weight split: if_splits)

lemma apply_neighbor_grows:
  assumes "apply_neighbor n ds = Inr ds'" "neighbor_ok n"
  shows "grows {get_opt (Some n) ''domain_id''} ds ds'"
  using assms non_empty_stringE ensure_entry_grows
  by (fastforce simp: apply_neighbor_def neighbor_ok_def ebind_Inr_conv grows_set_weight Let_def split: if_splits)

lemma apply_neighbors_grows:
  "apply_neighbors ns ds = Inr ds' \<Longrightarrow> list_all neighbor_ok ns \<Longrightarrow>
   grows ((\<lambda>n. get_opt (Some n) ''domain_id'') ` set ns) ds ds'"
proof (induction ns arbitrary: ds)
  case (Cons n ns)
  then obtain ds1 where "apply_neighbor n ds = Inr ds1" "apply_neighbors ns ds1 = Inr ds'"
    by (auto simp: ebind_Inr_conv)
  with Cons show ?case
    using grows_trans [OF apply_neighbor_grows] by fastforce
qed (simp add: grows_refl)

text \<open>The names a card puts into every policy.\<close>

definition card_ids :: "json option \<Rightarrow> json option set" where
  "card_ids rc = insert (get_opt rc ''domain_id'') ((\<lambda>n. get_opt (Some n) ''domain_id'') ` set (card_neighbors rc))"

lemma card_neighbors_ok: "route_card_ok rc \<Longrightarrow> list_all neighbor_ok (card_neighbors rc)"
  by (auto simp: route_card_ok_def field_ok_def list_of_def card_neighbors_def split: option.splits json.splits)

lemma apply_to_domains_grows:
  assumes "apply_to_domains rc ds = Inr ds'" "route_card_ok rc"
  shows "grows (card_ids rc) ds ds'"
proof -
  obtain ds1 where 1: "apply_domain rc ds = Inr ds1" "apply_neighbors (card_neighbors rc) ds1 = Inr ds'"
    using assms by (auto simp: apply_to_domains_def ebind_Inr_conv)
  have "grows {get_opt rc ''domain_id''} ds ds1"
    using apply_domain_grows [OF 1(1)] assms(2) by (simp add: route_card_ok_def)
  from grows_trans [OF this apply_neighbors_grows [OF 1(2) card_neighbors_ok [OF assms(2)]]]
  show ?thesis by (simp add: card_ids_def)
qed

text \<open>A policy before and after: without domains unchanged, otherwise only its domains change, and they grow.\<close>

definition policy_extended :: "json option \<Rightarrow> json \<Rightarrow> json \<Rightarrow> bool" where
  "policy_extended rc op op' \<longleftrightarrow>
     op' = op \<and> \<not> truthy (get_opt (Some op) ''domains'') \<or>
     (\<exists>ps ds ds'. op = JObj ps \<and> map_of ps (u ''domains'') = Some (JArr ds) \<and>
        op' = JObj (upsert (u ''domains'') (JArr ds') ps) \<and> grows (card_ids rc) ds ds')"

lemma apply_to_policy_extends:
  assumes "apply_to_policy rc op = Inr op'" "route_card_ok rc"
  shows "policy_extended rc op op'"
proof -
  obtain domains where d: "get_prop (Some op) ''domains'' = Inr domains"
    using assms(1) by (auto simp: apply_to_policy_def ebind_Inr_conv)
  show ?thesis
  proof (cases "truthy domains")
    case True
    then obtain ds ps ds' where "domains = Some (JArr ds)" "op = JObj ps"
        "op' = JObj (upsert (u ''domains'') (JArr ds') ps)" "apply_to_domains rc ds = Inr ds'"
      using assms(1) d by (auto simp: apply_to_policy_def emap_Inr_conv split: option.splits json.splits)
    with d apply_to_domains_grows [OF _ assms(2)] show ?thesis by (auto simp: policy_extended_def)
  next
    case False
    with assms(1) d show ?thesis by (simp add: apply_to_policy_def policy_extended_def get_opt_Inr)
  qed
qed

theorem applyRouteCard_policies:
  assumes "applyRouteCard rc (Some (JObj ps)) = Inr r"
  shows "route_card_ok rc \<and>
     (\<exists>ops. r = JObj (zip (map fst ps) ops) \<and>
        list_all2 (\<lambda>(k, op) op'. policy_extended rc (json_clone op) op') ps ops)"
proof -
  obtain c where c: "validateRouteCard rc = Inr c" "vr_valid c"
      "apply_values (apply_to_policy rc) (json_clone (JObj ps)) = Inr r"
    using assms by (auto simp: applyRouteCard_def ebind_Inr_conv truthy_def split: if_splits)
  have card_good: "route_card_ok rc"
    using route_card.valid_iff [OF c(1)] c(2) by simp
  obtain ops where ops: "r = JObj (zip (map fst ps) ops)"
      "list_all2 (\<lambda>op op'. apply_to_policy rc op = Inr op') (map (\<lambda>q. json_clone (snd q)) ps) ops"
    using c(3) by (auto simp: apply_values_def emap_Inr_conv mapE_Inr_iff comp_def case_prod_unfold)
  from ops(2) have "list_all2 (\<lambda>(k, op) op'. policy_extended rc (json_clone op) op') ps ops"
    by (auto simp: list_all2_map1 case_prod_unfold elim!: list_all2_mono
             intro: apply_to_policy_extends [OF _ card_good])
  with ops(1) card_good show ?thesis by blast
qed

section \<open>Weights stay non-negative\<close>

definition weight_good :: "json \<Rightarrow> bool" where
  "weight_good d = (case get_opt (Some d) ''weight'' of Some (JNum n) \<Rightarrow> n = NaN \<or> num_le (Fin 0) n | _ \<Rightarrow> False)"

lemma js_max_num_cases:
  "js_max a (Some (JNum y)) = Inr w \<Longrightarrow> y \<noteq> NaN \<Longrightarrow> \<exists>n. w = JNum n \<and> (n = NaN \<or> num_le y n)"
  "js_max (Some (JNum y)) a = Inr w \<Longrightarrow> y \<noteq> NaN \<Longrightarrow> \<exists>n. w = JNum n \<and> (n = NaN \<or> num_le y n)"
  using num_max_upper num_max_one by (auto simp: js_max_def ebind_Inr_conv num_max_def)

lemma num_le_trans: "num_le a b \<Longrightarrow> num_le b c \<Longrightarrow> num_le a c"
  by (cases a; cases b; cases c) (auto simp: num_lt_def num_eq_def)

lemma weight_good_new_entry [simp]:
  "weight_good (new_entry (Some (JStr n)) one)" "weight_good (new_entry (Some (JStr n)) half)"
  by (simp_all add: weight_good_def new_entry_def one_def half_def)

lemma set_weight_good:
  assumes "list_all weight_good ds" "n = NaN \<or> num_le (Fin 0) n"
  shows "list_all weight_good (set_weight i (JNum n) ds)"
proof (cases "i < length ds")
  case True
  with assms(1) obtain ps where "ds ! i = JObj ps"
    by (cases "ds ! i") (auto simp: list_all_length weight_good_def get_opt_def get_prop_def dest!: spec [of _ i])
  with assms True show ?thesis
    by (auto simp: set_weight_def list_all_length nth_list_update weight_good_def)
qed (use assms(1) in \<open>simp add: set_weight_def list_update_beyond\<close>)

lemma ensure_entry_good:
  "ensure_entry (Some (JStr n)) w ds = Inr (i, ds') \<Longrightarrow> w = one \<or> w = half \<Longrightarrow> list_all weight_good ds \<Longrightarrow>
   list_all weight_good ds'"
  by (auto simp: ensure_entry_def emap_Inr_conv split: option.splits)

lemma apply_domain_good:
  assumes "apply_domain rc ds = Inr ds'" "non_empty_string (get_opt rc ''domain_id'')" "list_all weight_good ds"
  shows "list_all weight_good ds'"
proof -
  obtain n where n: "get_opt rc ''domain_id'' = Some (JStr n)" using non_empty_stringE [OF assms(2)] by blast
  obtain i ds1 where e: "ensure_entry (Some (JStr n)) one ds = Inr (i, ds1)"
    using assms(1) n by (auto simp: apply_domain_def ebind_Inr_conv)
  have good1: "list_all weight_good ds1" by (rule ensure_entry_good [OF e _ assms(3)]) simp
  have "num_le (Fin 0) m" if "num_le (Fin 1) m" for m using that by (rule num_le_trans [rotated]) simp
  with assms(1) n e good1 show ?thesis
    by (auto simp: apply_domain_def one_def [symmetric] ebind_Inr_conv split: if_splits
             dest!: js_max_num_cases(1) [where y = "Fin 1", folded one_def] intro!: set_weight_good)
qed

lemma apply_neighbor_good:
  assumes "apply_neighbor n ds = Inr ds'" "neighbor_ok n" "list_all weight_good ds"
  shows "list_all weight_good ds'"
proof -
  obtain s where s: "get_opt (Some n) ''domain_id'' = Some (JStr s)"
    using assms(2) non_empty_stringE by (auto simp: neighbor_ok_def)
  obtain i ds1 where e: "ensure_entry (Some (JStr s)) half ds = Inr (i, ds1)"
    using assms(1) s by (auto simp: apply_neighbor_def ebind_Inr_conv)
  have good1: "list_all weight_good ds1" by (rule ensure_entry_good [OF e _ assms(3)]) simp
  with assms(1) s e show ?thesis
    by (auto simp: apply_neighbor_def Let_def ebind_Inr_conv split: if_splits
             dest!: js_max_num_cases(2) intro!: set_weight_good)
qed

theorem apply_to_domains_weights:
  assumes "apply_to_domains rc ds = Inr ds'" "route_card_ok rc" "list_all weight_good ds"
  shows "list_all weight_good ds'"
proof -
  have many: "apply_neighbors ns ds1 = Inr ds2 \<Longrightarrow> list_all neighbor_ok ns \<Longrightarrow> list_all weight_good ds1 \<Longrightarrow>
      list_all weight_good ds2" for ns ds1 ds2
    by (induction ns arbitrary: ds1) (auto simp: ebind_Inr_conv intro: apply_neighbor_good)
  obtain ds1 where 1: "apply_domain rc ds = Inr ds1" "apply_neighbors (card_neighbors rc) ds1 = Inr ds'"
    using assms(1) by (auto simp: apply_to_domains_def ebind_Inr_conv)
  have "list_all weight_good ds1"
    using apply_domain_good [OF 1(1) _ assms(3)] assms(2) by (simp add: route_card_ok_def)
  then show ?thesis by (rule many [OF 1(2) card_neighbors_ok [OF assms(2)]])
qed

section \<open>A sample\<close>

definition d_card :: json where
  "d_card = jo [(''route_card'', js ''0.1.0''), (''domain_id'', js ''law''), (''role'', js ''primary''),
     (''neighbors'', JArr [jo [(''domain_id'', js ''tax''), (''relationship'', js ''complement''),
                              (''weight_delta'', JNum (Fin (-2)))]])]"

definition d_card_domains :: "json list" where
  "d_card_domains = [jo [(''id'', js ''tax''), (''weight'', JNum (Fin 1))]]"

definition d_card_domains' :: "json list" where
  "d_card_domains' = [jo [(''id'', js ''tax''), (''weight'', JNum (Fin 0))], jo [(''id'', js ''law''), (''weight'', JNum (Fin 1))]]"

definition d_card_policies :: "(jstring \<times> json) list" where
  "d_card_policies = [(u ''review'', jo [(''domains'', JArr d_card_domains)]), (u ''idle'', jo [])]"

definition d_card_policies' :: "(jstring \<times> json) list" where
  "d_card_policies' = [(u ''review'', jo [(''domains'', JArr d_card_domains')]), (u ''idle'', jo [])]"

lemma d_card_ok: "route_card_ok (Some d_card)"
  by (simp add: d_card_def route_card_ok_def jo_def js_def is_record_def non_empty_string_def one_of_def field_ok_def
                list_of_def neighbor_ok_def is_finite_num_def is_finite_def, simp add: u_def)

lemma d_card_domains_good: "list_all weight_good d_card_domains"
  by (simp add: d_card_domains_def weight_good_def jo_def)

lemma to_double_minus_one: "to_double (-1) = Fin (-1)"
  using to_double_int [of "-1"] by simp

lemma d_card_domains_applied: "apply_to_domains (Some d_card) d_card_domains = Inr d_card_domains'"
  by (simp add: d_card_def d_card_domains_def d_card_domains'_def apply_to_domains_def apply_domain_def ensure_entry_def
      jo_def js_def new_entry_def weight_of_def set_weight_def card_neighbors_def apply_neighbor_def one_def half_def
      or_else_def truthy_def nullish_def num_max_def num_lt_def num_eq_def Let_def to_double_minus_one)

lemma d_card_applied: "applyRouteCard (Some d_card) (Some (JObj d_card_policies)) = Inr (JObj d_card_policies')"
proof -
  have v: "validateRouteCard (Some d_card) = Inr (accepted (Some d_card))"
    using d_card_ok validateRouteCard_accepted_iff by blast
  have c: "map json_clone d_card_domains = d_card_domains"
    by (simp add: d_card_domains_def jo_def js_def)
  show ?thesis
    unfolding applyRouteCard_def v using d_card_domains_applied
    by (simp add: accepted_def truthy_def)
       (simp add: d_card_policies_def d_card_policies'_def apply_values_def apply_to_policy_def jo_def truthy_def c)
qed

end
