(* ===== verification/ConsumerIndex.thy ===== *)
theory ConsumerIndex
  imports Validation
begin

text \<open>
  Consumer indexes (\<open>packages/kdna-eval/src/consumer-index.js\<close>): which domains a consumer has enabled and
  trusts, and the preference an entry has for a task.
\<close>

section \<open>Validation\<close>

definition VALID_STATUSES :: "string list" where
  "VALID_STATUSES = [''draft_generated'', ''lint_repaired'', ''human_reviewed'', ''eval_candidate'', ''trusted_runtime'']"

definition status_errors :: "json option \<Rightarrow> json option \<Rightarrow> exn + jstring list" where
  "status_errors status domain_id =
     (if one_of status VALID_STATUSES then Inr []
      else ebind (prim_text status) (\<lambda>s.
           ebind (prim_text (or_else domain_id (Some (js ''unknown'')))) (\<lambda>d.
           Inr [u ''invalid status \"'' @ s @ u ''\" for '' @ d @ u ''. Valid: '' @
                join (u '', '') (map u VALID_STATUSES)])))"

definition preference_errors :: "jstring \<Rightarrow> json option \<Rightarrow> jstring list" where
  "preference_errors loc p =
     (if p = None then []
      else if \<not> is_record p then [loc @ u ''.route_preference must be an object'']
      else concat (map (\<lambda>f. if get_opt p f = None then []
                            else validateStringArray (get_opt p f) (loc @ u (''.route_preference.'' @ f)))
                     [''primary_for'', ''advisor_for'', ''never_for'']))"

definition is_boolean :: "json option \<Rightarrow> bool" where
  "is_boolean v = (case v of Some (JBool _) \<Rightarrow> True | _ \<Rightarrow> False)"

definition entry_errors :: "nat \<Rightarrow> json \<Rightarrow> exn + jstring list" where
  "entry_errors i e =
     (let loc = at_index (u ''entries'') i; get = get_opt (Some e) in
      if \<not> is_record (Some e) then Inr [loc @ u '' must be an object'']
      else ebind (status_errors (get ''status'') (get ''domain_id'')) (\<lambda>st.
        Inr (check (non_empty_string (get ''domain_id'')) (loc @ u ''.domain_id must be a non-empty string'') @ st @
             check (get ''enabled'' = None \<or> is_boolean (get ''enabled'')) (loc @ u ''.enabled must be a boolean'') @
             preference_errors loc (get ''route_preference''))))"

definition index_head_errors :: "json option \<Rightarrow> jstring list" where
  "index_head_errors index =
     check (is_str (get_opt index ''consumer_index'') ''0.1.0'') (u ''consumer_index must be \"0.1.0\"'')"

definition validateConsumerIndex :: "json option \<Rightarrow> exn + validation" where
  "validateConsumerIndex index =
     (if \<not> is_record index then Inr (refused [u ''index must be an object''])
      else case get_opt index ''entries'' of
        Some (JArr entries) \<Rightarrow>
          ebind (mapE (\<lambda>(i, e). entry_errors i e) (List.enumerate 0 entries)) (\<lambda>ess.
            Inr (verdict index (index_head_errors index @ concat ess)))
      | _ \<Rightarrow> Inr (refused (index_head_errors index @ [u ''entries must be an array''])))"

definition loadConsumerIndex :: "(jstring \<Rightarrow> jstring + json) \<Rightarrow> json option \<Rightarrow> exn + validation" where
  "loadConsumerIndex = load_with validateConsumerIndex"

section \<open>Resolution\<close>

datatype preference =
    NoPreference
  | RolePreference string
  | PreferenceLists "json list" "json list" "json list"

record consumer_resolution =
  cn_status :: "json option"
  cn_preference :: preference
  cn_trusted :: bool
  cn_enabled :: bool

definition unresolved :: consumer_resolution where
  "unresolved = \<lparr>cn_status = Some (js ''draft_generated''), cn_preference = NoPreference, cn_trusted = False,
                 cn_enabled = False\<rparr>"

definition index_entries :: "json option \<Rightarrow> json list" where
  "index_entries index = (case get_opt index ''entries'' of Some (JArr es) \<Rightarrow> es | _ \<Rightarrow> [])"

definition find_entry :: "json option \<Rightarrow> json list \<Rightarrow> json option" where
  "find_entry domainId entries = find (\<lambda>e. strict_eq (get_opt (Some e) ''domain_id'') domainId) entries"

text \<open>\<open>entry.route_preference.f || []\<close> of a validated entry.\<close>

definition preference_list :: "json option \<Rightarrow> string \<Rightarrow> json list" where
  "preference_list p f = (case get_opt p f of Some (JArr xs) \<Rightarrow> xs | _ \<Rightarrow> [])"

definition listed :: "json option \<Rightarrow> json list \<Rightarrow> bool" where
  "listed task xs \<longleftrightarrow> task \<in> Some ` set xs"

definition entry_enabled :: "json \<Rightarrow> bool" where
  "entry_enabled e \<longleftrightarrow> strict_eq (get_opt (Some e) ''enabled'') (Some (JBool True))"

definition entry_trusted :: "json \<Rightarrow> bool" where
  "entry_trusted e \<longleftrightarrow> is_str (get_opt (Some e) ''status'') ''trusted_runtime'' \<and> entry_enabled e"

definition resolve_entry :: "json \<Rightarrow> json option \<Rightarrow> consumer_resolution" where
  "resolve_entry e task =
     (let status = get_opt (Some e) ''status''; p = get_opt (Some e) ''route_preference'';
          primary = preference_list p ''primary_for''; advisor = preference_list p ''advisor_for'';
          never = preference_list p ''never_for'';
          result = (\<lambda>pref. \<lparr>cn_status = status, cn_preference = pref, cn_trusted = entry_trusted e,
                            cn_enabled = entry_enabled e\<rparr>)
      in if \<not> truthy p then result NoPreference
         else if truthy task \<and> listed task never
         then \<lparr>cn_status = status, cn_preference = NoPreference, cn_trusted = False, cn_enabled = False\<rparr>
         else if truthy task \<and> listed task primary then result (RolePreference ''primary'')
         else if truthy task \<and> listed task advisor then result (RolePreference ''advisor'')
         else result (PreferenceLists primary advisor never))"

definition resolveConsumerIndex :: "json option \<Rightarrow> json option \<Rightarrow> json option \<Rightarrow> exn + consumer_resolution" where
  "resolveConsumerIndex index task domainId =
     ebind (validateConsumerIndex index) (\<lambda>validation.
       if \<not> vr_valid validation \<or> \<not> truthy (vr_value validation) then Inr unresolved
       else case find_entry domainId (index_entries (vr_value validation)) of
         None \<Rightarrow> Inr unresolved
       | Some e \<Rightarrow> Inr (resolve_entry e task))"

definition isTrusted :: "json option \<Rightarrow> json option \<Rightarrow> exn + bool" where
  "isTrusted index domainId =
     ebind (validateConsumerIndex index) (\<lambda>validation.
       if \<not> vr_valid validation \<or> \<not> truthy (vr_value validation) then Inr False
       else case find_entry domainId (index_entries (vr_value validation)) of
         None \<Rightarrow> Inr False
       | Some e \<Rightarrow> Inr (entry_trusted e))"

section \<open>What a valid index is\<close>

definition preference_ok :: "json option \<Rightarrow> bool" where
  "preference_ok p \<longleftrightarrow> is_record p \<and> field_ok is_text_list (get_opt p ''primary_for'') \<and>
     field_ok is_text_list (get_opt p ''advisor_for'') \<and> field_ok is_text_list (get_opt p ''never_for'')"

definition entry_ok :: "json \<Rightarrow> bool" where
  "entry_ok e \<longleftrightarrow> is_record (Some e) \<and> non_empty_string (get_opt (Some e) ''domain_id'') \<and>
     one_of (get_opt (Some e) ''status'') VALID_STATUSES \<and> field_ok is_boolean (get_opt (Some e) ''enabled'') \<and>
     field_ok preference_ok (get_opt (Some e) ''route_preference'')"

definition consumer_index_ok :: "json option \<Rightarrow> bool" where
  "consumer_index_ok index \<longleftrightarrow> is_record index \<and> get_opt index ''consumer_index'' = Some (js ''0.1.0'') \<and>
     list_of entry_ok (get_opt index ''entries'')"

lemma status_errors_Nil [simp]: "status_errors s d = Inr [] \<longleftrightarrow> one_of s VALID_STATUSES"
  by (auto simp: status_errors_def result_simps)

lemma preference_errors_Nil [simp]: "preference_errors loc p = [] \<longleftrightarrow> field_ok preference_ok p"
  by (auto simp: preference_errors_def field_ok_def preference_ok_def)

lemma entry_errors_Nil [simp]: "entry_errors i e = Inr [] \<longleftrightarrow> entry_ok e"
  by (auto simp: entry_errors_def entry_ok_def field_ok_def [of is_boolean] Let_def ebind_Inr_conv)

lemma validateConsumerIndex_result:
  assumes "validateConsumerIndex v = Inr r"
  shows "r = accepted v \<or> (\<exists>es. es \<noteq> [] \<and> r = refused es)"
proof -
  from assms have "(\<exists>es. es \<noteq> [] \<and> r = refused es) \<or> (\<exists>es. r = verdict v es)"
    unfolding validateConsumerIndex_def
    by (auto simp: ebind_Inr_conv split: if_splits option.splits json.splits)
  then show ?thesis using verdict_cases by blast
qed

lemma validateConsumerIndex_accepted_iff: "validateConsumerIndex v = Inr (accepted v) \<longleftrightarrow> consumer_index_ok v"
proof (cases "is_record v \<and> (\<exists>es. get_opt v ''entries'' = Some (JArr es))")
  case True
  then obtain es where es: "is_record v" "get_opt v ''entries'' = Some (JArr es)" by blast
  then have "validateConsumerIndex v = Inr (accepted v) \<longleftrightarrow>
      index_head_errors v = [] \<and> emap concat (mapE (\<lambda>(i, e). entry_errors i e) (List.enumerate 0 es)) = Inr []"
    by (auto simp: validateConsumerIndex_def result_simps)
  with es show ?thesis
    by (simp add: indexed_errors_Nil [OF entry_errors_Nil] consumer_index_ok_def list_of_def index_head_errors_def js_def)
next
  case False
  then show ?thesis
    by (auto simp: validateConsumerIndex_def consumer_index_ok_def list_of_def split: option.splits json.splits)
qed

interpretation consumer_index: validator validateConsumerIndex consumer_index_ok
  by unfold_locales (use validateConsumerIndex_result validateConsumerIndex_accepted_iff in blast)+

section \<open>Trust\<close>

text \<open>The entry that decides: the first one with the name, in a valid index.\<close>

definition deciding_entry :: "json option \<Rightarrow> json option \<Rightarrow> json option" where
  "deciding_entry index domainId =
     (if consumer_index_ok index then find_entry domainId (index_entries index) else None)"

lemma validated_index:
  assumes "validateConsumerIndex index = Inr r"
  shows "vr_valid r \<and> truthy (vr_value r) \<longleftrightarrow> consumer_index_ok index"
    and "consumer_index_ok index \<Longrightarrow> vr_value r = index"
proof -
  have "consumer_index_ok index \<Longrightarrow> truthy index"
    by (auto simp: consumer_index_ok_def is_record_def truthy_def split: option.splits json.splits)
  with consumer_index.spec [of index] assms
  show "vr_valid r \<and> truthy (vr_value r) \<longleftrightarrow> consumer_index_ok index"
    and "consumer_index_ok index \<Longrightarrow> vr_value r = index" by auto
qed

theorem isTrusted_spec:
  assumes "isTrusted index domainId = Inr b"
  shows "b \<longleftrightarrow> (\<exists>e. deciding_entry index domainId = Some e \<and>
            get_opt (Some e) ''status'' = Some (js ''trusted_runtime'') \<and>
            get_opt (Some e) ''enabled'' = Some (JBool True))"
proof -
  obtain r where r: "validateConsumerIndex index = Inr r"
    using assms by (auto simp: isTrusted_def ebind_Inr_conv)
  with assms validated_index [OF r] show ?thesis
    by (auto simp: isTrusted_def deciding_entry_def entry_trusted_def entry_enabled_def js_def
             split: if_splits option.splits)
qed

text \<open>\<open>task\<close> is kept away from the domain by its \<open>never_for\<close> list.\<close>

definition kept_away :: "json \<Rightarrow> json option \<Rightarrow> bool" where
  "kept_away e task \<longleftrightarrow> truthy task \<and>
     listed task (preference_list (get_opt (Some e) ''route_preference'') ''never_for'')"

lemma truthy_preference:
  "xs = preference_list p f \<Longrightarrow> listed task xs \<Longrightarrow> is_record p \<Longrightarrow> truthy p"
  by (auto simp: is_record_def truthy_def split: option.splits json.splits)

lemma kept_away_has_preference: "kept_away e task \<Longrightarrow> truthy (get_opt (Some e) ''route_preference'')"
  by (auto simp: kept_away_def preference_list_def listed_def get_opt_def get_prop_def truthy_def
           split: option.splits json.splits sum.splits)

lemma resolve_entry_trust:
  "cn_trusted (resolve_entry e task) \<longleftrightarrow> entry_trusted e \<and> \<not> kept_away e task"
  "cn_enabled (resolve_entry e task) \<longleftrightarrow> entry_enabled e \<and> \<not> kept_away e task"
  using kept_away_has_preference [of e task]
  by (auto simp: resolve_entry_def Let_def kept_away_def)

theorem resolve_trust_agrees:
  assumes "resolveConsumerIndex index task domainId = Inr r"
  shows "\<exists>b. isTrusted index domainId = Inr b \<and>
     (cn_trusted r \<longleftrightarrow> b \<and> (\<forall>e. deciding_entry index domainId = Some e \<longrightarrow> \<not> kept_away e task))"
proof -
  obtain v where v: "validateConsumerIndex index = Inr v"
    using assms by (auto simp: resolveConsumerIndex_def ebind_Inr_conv)
  with assms validated_index [OF v] show ?thesis
    by (auto simp: isTrusted_def resolveConsumerIndex_def deciding_entry_def resolve_entry_trust unresolved_def
             split: if_splits option.splits)
qed

section \<open>A sample\<close>

definition d_index :: json where
  "d_index = jo [(''consumer_index'', js ''0.1.0''),
     (''entries'', JArr [jo [(''domain_id'', js ''law''), (''status'', js ''trusted_runtime''), (''enabled'', JBool True),
        (''route_preference'', jo [(''never_for'', JArr [js ''draft''])])]])]"

lemma d_index_ok: "consumer_index_ok (Some d_index)"
  by (simp add: d_index_def consumer_index_ok_def jo_def js_def is_record_def list_of_def entry_ok_def
                non_empty_string_def one_of_def VALID_STATUSES_def field_ok_def is_boolean_def preference_ok_def
                is_text_list_def is_string_def, simp add: u_def)

lemma d_index_resolved:
  "\<exists>r. resolveConsumerIndex (Some d_index) (Some (js ''draft'')) (Some (js ''law'')) = Inr r"
proof -
  have v: "validateConsumerIndex (Some d_index) = Inr (accepted (Some d_index))"
    using d_index_ok validateConsumerIndex_accepted_iff by blast
  show ?thesis
    by (auto simp: resolveConsumerIndex_def v split: option.splits)
qed

end
