(* ===== verification/LoaderVersion.thy ===== *)
theory LoaderVersion
  imports JsArith
begin

text \<open>
  Loader versions (\<open>packages/kdna-core/src/loader-compatibility.js\<close>): the two version grammars, the
  comparison of versions, and the compatibility answer for a manifest.

  The regular expressions are deterministic (no component can end in two ways), so matching is reading
  from the left.  A matched version is the list of its three numeric components, kept as text: the code
  never converts them to numbers, so components of any length are compared exactly.
\<close>

section \<open>Grammars\<close>

text \<open>\<open>0|[1-9][0-9]*\<close>\<close>

definition numeric_identifier :: "jstring \<Rightarrow> (jstring \<times> jstring) option" where
  "numeric_identifier s =
     (let d = takeWhile is_digit s
      in if d = [] \<or> (hd d = 0x30 \<and> length d \<noteq> 1) then None else Some (d, dropWhile is_digit s))"

definition after_dot :: "jstring \<Rightarrow> jstring option" where
  "after_dot s = (case s of [] \<Rightarrow> None | c # t \<Rightarrow> if c = 0x2E then Some t else None)"

definition version_core :: "jstring \<Rightarrow> (jstring list \<times> jstring) option" where
  "version_core s =
     Option.bind (numeric_identifier s) (\<lambda>(a, r1). Option.bind (after_dot r1) (\<lambda>s2.
     Option.bind (numeric_identifier s2) (\<lambda>(b, r2). Option.bind (after_dot r2) (\<lambda>s3.
     Option.bind (numeric_identifier s3) (\<lambda>(c, r3). Some ([a, b, c], r3))))))"

text \<open>\<open>[0-9A-Za-z-]\<close>, and dot-separated non-empty identifiers of such characters.\<close>

definition identifier_char :: "code_unit \<Rightarrow> bool" where
  "identifier_char c \<longleftrightarrow>
     is_digit c \<or> (0x41 \<le> unat c \<and> unat c \<le> 0x5A) \<or> (0x61 \<le> unat c \<and> unat c \<le> 0x7A) \<or> c = 0x2D"

fun split_dots :: "jstring \<Rightarrow> jstring list" where
  "split_dots [] = [[]]"
| "split_dots (c # s) =
     (if c = 0x2E then [] # split_dots s
      else case split_dots s of [] \<Rightarrow> [[c]] | p # ps \<Rightarrow> (c # p) # ps)"

definition identifiers :: "jstring \<Rightarrow> bool" where
  "identifiers s \<longleftrightarrow> (\<forall>p \<in> set (split_dots s). p \<noteq> [] \<and> (\<forall>c \<in> set p. identifier_char c))"

definition build_suffix :: "jstring \<Rightarrow> bool" where
  "build_suffix s = (case s of [] \<Rightarrow> True | c # t \<Rightarrow> c = 0x2B \<and> identifiers t)"

definition coordinate_suffix :: "jstring \<Rightarrow> bool" where
  "coordinate_suffix s =
     (case s of
        [] \<Rightarrow> True
      | c # t \<Rightarrow>
          if c = 0x2D
          then identifiers (takeWhile (\<lambda>c. c \<noteq> 0x2B) t) \<and> build_suffix (dropWhile (\<lambda>c. c \<noteq> 0x2B) t)
          else build_suffix s)"

definition parseLoaderVersion :: "json option \<Rightarrow> jstring list option" where
  "parseLoaderVersion v =
     (case v of
        Some (JStr s) \<Rightarrow>
          Option.bind (version_core s) (\<lambda>(parts, rest). if rest = [] then Some parts else None)
      | _ \<Rightarrow> None)"

definition parseLoaderCoordinate :: "json option \<Rightarrow> jstring list option" where
  "parseLoaderCoordinate v =
     (case v of
        Some (JStr s) \<Rightarrow>
          Option.bind (version_core s) (\<lambda>(parts, rest). if coordinate_suffix rest then Some parts else None)
      | _ \<Rightarrow> None)"

section \<open>Comparison\<close>

definition compareNumericIdentifier :: "jstring \<Rightarrow> jstring \<Rightarrow> int" where
  "compareNumericIdentifier left right =
     (if length left \<noteq> length right then if length left < length right then -1 else 1
      else if left = right then 0
      else if left < right then -1 else 1)"

fun compare_parts :: "jstring list \<Rightarrow> jstring list \<Rightarrow> int" where
  "compare_parts (l # ls) (r # rs) =
     (let comparison = compareNumericIdentifier l r
      in if comparison \<noteq> 0 then comparison else compare_parts ls rs)"
| "compare_parts _ _ = 0"

definition compareLoaderVersions :: "json option \<Rightarrow> json option \<Rightarrow> exn + int" where
  "compareLoaderVersions leftVersion rightVersion =
     (case (parseLoaderCoordinate leftVersion, parseLoaderCoordinate rightVersion) of
        (Some l, Some r) \<Rightarrow> Inr (compare_parts l r)
      | _ \<Rightarrow> Inl (TypeErr (u (''loader versions must use strict x.y.z SemVer without leading zeros; '' @
               ''only the loader package coordinate may carry a prerelease or build suffix''))))"

section \<open>Compatibility\<close>

definition KDNA_LOADER_VERSION :: json where
  "KDNA_LOADER_VERSION = js ''0.37.9''"

record loader_compatibility =
  lc_loader_version :: json
  lc_min_loader_version :: json
  lc_loader_compatible :: "bool option"

definition assessLoaderCompatibility :: "json option \<Rightarrow> exn + loader_compatibility" where
  "assessLoaderCompatibility manifest =
     (let requiredValue = get_opt (get_opt manifest ''compatibility'') ''min_loader_version'';
          answer = (\<lambda>c. \<lparr>lc_loader_version = KDNA_LOADER_VERSION,
                        lc_min_loader_version = (if is_string requiredValue then the requiredValue else JNull),
                        lc_loader_compatible = c\<rparr>)
      in case parseLoaderVersion requiredValue of
           None \<Rightarrow> Inr (answer None)
         | Some _ \<Rightarrow> emap (\<lambda>c. answer (Some (c \<le> 0)))
                       (compareLoaderVersions requiredValue (Some KDNA_LOADER_VERSION)))"

definition loaderVersionUnsupportedMessage :: "json option \<Rightarrow> exn + jstring" where
  "loaderVersionUnsupportedMessage requiredVersion =
     emap (\<lambda>r. u ''KDNA_LOADER_VERSION_UNSUPPORTED: asset requires loader '' @ r @ u '', current loader is '' @
               u ''0.37.9'')
       (prim_text requiredVersion)"

section \<open>Numeric identifiers are numbers in canonical form\<close>

definition is_numeric :: "jstring \<Rightarrow> bool" where
  "is_numeric s \<longleftrightarrow> s \<noteq> [] \<and> (\<forall>c \<in> set s. is_digit c) \<and> (hd s = 0x30 \<longrightarrow> length s = 1)"

definition numeric_value :: "jstring \<Rightarrow> nat" where
  "numeric_value s = dec_value (map digit_val s)"

lemma numeric_identifier_Some:
  "numeric_identifier s = Some (d, r) \<Longrightarrow> is_numeric d \<and> s = d @ r \<and> (r = [] \<or> \<not> is_digit (hd r))"
  by (auto simp: numeric_identifier_def is_numeric_def Let_def dest: set_takeWhileD hd_dropWhile split: if_splits)

lemma numeric_identifier_append:
  assumes "is_numeric d" "r = [] \<or> \<not> is_digit (hd r)"
  shows "numeric_identifier (d @ r) = Some (d, r)"
proof -
  have "takeWhile is_digit (d @ r) = d" "dropWhile is_digit (d @ r) = r"
    using assms by (cases r; auto simp: is_numeric_def takeWhile_append dropWhile_append)+
  with assms(1) show ?thesis by (auto simp: numeric_identifier_def is_numeric_def)
qed

lemma dec_value_bound: "\<forall>d \<in> set ds. d < 10 \<Longrightarrow> dec_value ds < 10 ^ length ds"
proof (induction ds rule: rev_induct)
  case (snoc d ds)
  then have "dec_value ds + 1 \<le> 10 ^ length ds" "d < 10" by auto
  then show ?case by simp
qed simp

lemma dec_value_Cons: "dec_value (d # ds) = d * 10 ^ length ds + dec_value ds"
  using dec_value_append [of "[d]" ds] dec_value_snoc [of "[]" d] by simp

lemma digit_val_bound: "is_digit c \<Longrightarrow> digit_val c < 10"
  unfolding is_digit_def digit_val_def by linarith

lemma numeric_value_bounds:
  assumes "is_numeric s"
  shows "numeric_value s < 10 ^ length s" "length s > 1 \<Longrightarrow> 10 ^ (length s - 1) \<le> numeric_value s"
proof -
  have all: "\<forall>d \<in> set (map digit_val s). d < 10" using assms by (auto simp: is_numeric_def digit_val_bound)
  from dec_value_bound [OF this] show "numeric_value s < 10 ^ length s" by (simp add: numeric_value_def)
  obtain c t where s: "s = c # t" using assms by (cases s) (auto simp: is_numeric_def)
  show "10 ^ (length s - 1) \<le> numeric_value s" if "length s > 1"
  proof -
    have "c \<noteq> 0x30" "is_digit c" using assms that s by (auto simp: is_numeric_def)
    then have "unat c \<noteq> 0x30" by (simp add: word_unat_eq_iff)
    with \<open>is_digit c\<close> have "1 \<le> digit_val c" unfolding digit_val_def is_digit_def by linarith
    from mult_le_mono1 [OF this, of "10 ^ length t"]
    have "10 ^ length t \<le> digit_val c * 10 ^ length t" by simp
    moreover have "length s - 1 = length t" by (simp add: s)
    ultimately show ?thesis
      unfolding s numeric_value_def list.map dec_value_Cons length_map by (simp only: trans_le_add1)
  qed
qed

section \<open>What the grammars accept\<close>

lemma dot_not_digit [simp]: "\<not> is_digit 0x2E"
  by (simp add: is_digit_def)

lemma after_dot_Some: "after_dot s = Some t \<longleftrightarrow> s = 0x2E # t"
  by (auto simp: after_dot_def split: list.splits)

lemma version_core_iff:
  "version_core s = Some (parts, rest) \<longleftrightarrow>
     (\<exists>a b c. parts = [a, b, c] \<and> s = a @ [0x2E] @ b @ [0x2E] @ c @ rest \<and>
        is_numeric a \<and> is_numeric b \<and> is_numeric c \<and> (rest = [] \<or> \<not> is_digit (hd rest)))"
proof
  assume "version_core s = Some (parts, rest)"
  then show "\<exists>a b c. parts = [a, b, c] \<and> s = a @ [0x2E] @ b @ [0x2E] @ c @ rest \<and>
        is_numeric a \<and> is_numeric b \<and> is_numeric c \<and> (rest = [] \<or> \<not> is_digit (hd rest))"
    by (auto simp: version_core_def bind_eq_Some_conv after_dot_Some dest!: numeric_identifier_Some)
next
  assume "\<exists>a b c. parts = [a, b, c] \<and> s = a @ [0x2E] @ b @ [0x2E] @ c @ rest \<and>
        is_numeric a \<and> is_numeric b \<and> is_numeric c \<and> (rest = [] \<or> \<not> is_digit (hd rest))"
  then show "version_core s = Some (parts, rest)"
    using numeric_identifier_append [where r = "[]"]
    by (auto simp: version_core_def numeric_identifier_append after_dot_def)
qed

theorem parseLoaderVersion_iff:
  "parseLoaderVersion v = Some parts \<longleftrightarrow>
     (\<exists>a b c. parts = [a, b, c] \<and> v = Some (JStr (a @ [0x2E] @ b @ [0x2E] @ c)) \<and>
        is_numeric a \<and> is_numeric b \<and> is_numeric c)"
  by (cases v; cases "the v")
     (auto simp: parseLoaderVersion_def bind_eq_Some_conv version_core_iff split: if_splits)

lemma parseLoaderVersion_None:
  "parseLoaderVersion v = None \<longleftrightarrow>
     (\<nexists>a b c. v = Some (JStr (a @ [0x2E] @ b @ [0x2E] @ c)) \<and> is_numeric a \<and> is_numeric b \<and> is_numeric c)"
proof -
  have "parseLoaderVersion v = None \<longleftrightarrow> (\<nexists>parts. parseLoaderVersion v = Some parts)" by simp
  then show ?thesis unfolding parseLoaderVersion_iff by simp
qed

lemma version_is_coordinate: "parseLoaderVersion v = Some parts \<Longrightarrow> parseLoaderCoordinate v = Some parts"
proof -
  assume "parseLoaderVersion v = Some parts"
  then obtain s where "v = Some (JStr s)" "version_core s = Some (parts, [])"
    by (auto simp: parseLoaderVersion_def bind_eq_Some_conv split: option.splits json.splits if_splits)
  then show ?thesis by (simp add: parseLoaderCoordinate_def coordinate_suffix_def)
qed

lemma coordinate_parts:
  "parseLoaderCoordinate v = Some parts \<Longrightarrow> length parts = 3 \<and> list_all is_numeric parts"
  by (auto simp: parseLoaderCoordinate_def bind_eq_Some_conv version_core_iff
           split: option.splits json.splits if_splits)

section \<open>Comparison is numeric\<close>

lemma digits_less_iff:
  "length s = length t \<Longrightarrow> \<forall>c \<in> set s. is_digit c \<Longrightarrow> \<forall>c \<in> set t. is_digit c \<Longrightarrow>
   s < t \<longleftrightarrow> numeric_value s < numeric_value t"
proof (induction s t rule: list_induct2)
  case (Cons c s d t)
  have b: "numeric_value s < 10 ^ length t" "numeric_value t < 10 ^ length t"
    using dec_value_bound [of "map digit_val s"] dec_value_bound [of "map digit_val t"] Cons.prems Cons.hyps
    by (auto simp: numeric_value_def digit_val_bound)
  have v: "numeric_value (c # s) = digit_val c * 10 ^ length t + numeric_value s"
      "numeric_value (d # t) = digit_val d * 10 ^ length t + numeric_value t"
    using Cons.hyps by (simp_all add: numeric_value_def dec_value_Cons)
  have cd: "c < d \<longleftrightarrow> digit_val c < digit_val d" "c = d \<longleftrightarrow> digit_val c = digit_val d"
    using Cons.prems by (auto simp: digit_val_def is_digit_def word_less_nat_alt word_unat_eq_iff)
  have carry: "x * m + y < x' * m + y'" if "x < x'" "y < m" for x x' m y y' :: nat
  proof -
    have "x * m + y < Suc x * m" using that by simp
    also have "\<dots> \<le> x' * m" using that(1) by (intro mult_le_mono1) simp
    finally show ?thesis by simp
  qed
  show ?case
  proof (cases "digit_val c" "digit_val d" rule: linorder_cases)
    case less
    with carry [OF less b(1), of "numeric_value t"] v cd show ?thesis by simp
  next
    case equal
    with Cons v cd show ?thesis by simp
  next
    case greater
    with carry [OF greater b(2), of "numeric_value s"] v cd show ?thesis by simp
  qed
qed (simp add: numeric_value_def)

definition sign_of_order :: "'a::linorder \<Rightarrow> 'a \<Rightarrow> int" where
  "sign_of_order x y = (if x < y then -1 else if x = y then 0 else 1)"

lemma numeric_length_less:
  assumes "is_numeric s" "is_numeric t" "length s < length t"
  shows "numeric_value s < numeric_value t"
proof -
  have t: "1 < length t" using assms by (cases s; auto simp: is_numeric_def)
  have "numeric_value s < 10 ^ length s" by (rule numeric_value_bounds(1) [OF assms(1)])
  also have "\<dots> \<le> 10 ^ (length t - 1)" using assms(3) by (intro power_increasing) auto
  also have "\<dots> \<le> numeric_value t" by (rule numeric_value_bounds(2) [OF assms(2) t])
  finally show ?thesis .
qed

lemma compareNumericIdentifier_value:
  assumes "is_numeric l" "is_numeric r"
  shows "compareNumericIdentifier l r = sign_of_order (numeric_value l) (numeric_value r)"
proof (cases "length l" "length r" rule: linorder_cases)
  case less
  with numeric_length_less [OF assms less] show ?thesis
    by (simp add: compareNumericIdentifier_def sign_of_order_def)
next
  case greater
  with numeric_length_less [OF assms(2,1) greater] show ?thesis
    by (simp add: compareNumericIdentifier_def sign_of_order_def)
next
  case equal
  have "l < r \<longleftrightarrow> numeric_value l < numeric_value r" "r < l \<longleftrightarrow> numeric_value r < numeric_value l"
    using digits_less_iff [OF equal] digits_less_iff [OF equal [symmetric]] assms by (auto simp: is_numeric_def)
  with equal show ?thesis
    by (auto simp: compareNumericIdentifier_def sign_of_order_def) 
qed

lemma compare_parts_value:
  "length ls = length rs \<Longrightarrow> list_all is_numeric ls \<Longrightarrow> list_all is_numeric rs \<Longrightarrow>
   compare_parts ls rs = sign_of_order (map numeric_value ls) (map numeric_value rs)"
proof (induction ls rs rule: list_induct2)
  case (Cons l ls r rs)
  then show ?case
    by (cases "numeric_value l" "numeric_value r" rule: linorder_cases)
       (simp_all add: Let_def compareNumericIdentifier_value, simp_all add: sign_of_order_def)
qed (simp add: sign_of_order_def)

theorem compareLoaderVersions_numeric:
  assumes "parseLoaderCoordinate a = Some l" "parseLoaderCoordinate b = Some r"
  shows "compareLoaderVersions a b = Inr (sign_of_order (map numeric_value l) (map numeric_value r))"
  using assms coordinate_parts [OF assms(1)] coordinate_parts [OF assms(2)]
  by (simp add: compareLoaderVersions_def compare_parts_value)

section \<open>The compatibility answer\<close>

lemma loader_coordinate: "parseLoaderCoordinate (Some KDNA_LOADER_VERSION) = Some [u ''0'', u ''37'', u ''9'']"
  by code_simp

theorem assessLoaderCompatibility_spec:
  "\<exists>r. assessLoaderCompatibility manifest = Inr r \<and>
     lc_loader_compatible r =
       map_option (\<lambda>parts. map numeric_value parts \<le> [0, 37, 9])
         (parseLoaderVersion (get_opt (get_opt manifest ''compatibility'') ''min_loader_version''))"
proof (cases "parseLoaderVersion (get_opt (get_opt manifest ''compatibility'') ''min_loader_version'')")
  case (Some parts)
  have v: "map numeric_value [u ''0'', u ''37'', u ''9''] = [0, 37, 9]"
    by (simp add: numeric_value_def dec_value_def digit_val_def u_def)
  from compareLoaderVersions_numeric [OF version_is_coordinate [OF Some] loader_coordinate] Some v
  show ?thesis by (auto simp: assessLoaderCompatibility_def Let_def sign_of_order_def)
qed (simp add: assessLoaderCompatibility_def Let_def)

end
