(* ===== verification/EvidenceCanonical.thy ===== *)
theory EvidenceCanonical
  imports SafeData Sha256
begin

text \<open>
  Canonical evidence and dataset fingerprints (\<open>packages/kdna-eval/src/evidence-canonical.js\<close>).

  The validator walks a caller value and collects every reason why it is not plain JSON; the encoder
  writes a value without such reasons with sorted keys; a fingerprint is the truncated SHA-256 of that
  text.  An accessor stands for one with a getter or a setter.  Properties of an array other than its
  elements and \<open>length\<close> are never indices below the length.

  The code calls \<open>map\<close> on arrays.  An array whose prototype is \<open>Array.prototype\<close> has the built-in one; another array
  has none, and the call throws, or code of the caller's own: what such a call gives is an argument (\<open>M\<close> in the
  encoder, \<open>C\<close> for the list of fixtures).
\<close>

section \<open>Validation\<close>

definition isPlainObject :: "hval \<Rightarrow> bool" where
  "isPlainObject v = (case v of HObj pr _ _ \<Rightarrow> pr \<noteq> OtherProto | _ \<Rightarrow> False)"

definition when_not :: "bool \<Rightarrow> jstring \<Rightarrow> string \<Rightarrow> jstring list" where
  "when_not good p m = (if good then [] else [p @ u m])"

definition is_accessor :: "hslot \<Rightarrow> bool" where
  "is_accessor s = (case s of HAccessor _ _ \<Rightarrow> True | _ \<Rightarrow> False)"

text \<open>The messages for one own property, given whether the key may be there.\<close>

definition descriptor_errors :: "bool \<Rightarrow> jstring \<Rightarrow> jstring \<times> hslot \<Rightarrow> jstring list" where
  "descriptor_errors named p = (\<lambda>(key, s).
     when_not named (member_path p key) '' is an unsupported named array property'' @
     when_not (slot_enumerable s) (member_path p key) '' must be enumerable'' @
     when_not (\<not> is_accessor s) (member_path p key) '' must not be an accessor'')"

text \<open>Missing elements have no descriptor.\<close>

definition item_descriptors :: "nat \<Rightarrow> hslot list \<Rightarrow> (jstring \<times> hslot) list" where
  "item_descriptors n slots =
     map (\<lambda>(i, s). (index_text i, s)) (filter (\<lambda>(i, s). s \<noteq> HHole) (List.enumerate n slots))"

fun visit :: "jstring \<Rightarrow> hval \<Rightarrow> jstring list"
and visit_items :: "jstring \<Rightarrow> nat \<Rightarrow> hslot list \<Rightarrow> jstring list"
and visit_members :: "jstring \<Rightarrow> (jstring \<times> hslot) list \<Rightarrow> jstring list" where
  "visit p HNull = []"
| "visit p (HStr s) = []"
| "visit p (HBool b) = []"
| "visit p (HNum n) = when_not (is_finite n) p '' must contain only finite numbers''"
| "visit p HUndefined = [p @ u '' contains unsupported undefined evidence'']"
| "visit p (HOther t) = [p @ u '' contains unsupported '' @ u t @ u '' evidence'']"
| "visit p HCycle = [p @ u '' contains a cycle'']"
| "visit p (HArr std nsym slots extras) =
     when_not (nsym = 0) p '' must not contain symbol keys'' @
     concat (map (descriptor_errors True p) (item_descriptors 0 slots)) @
     concat (map (descriptor_errors False p) extras) @
     visit_items p 0 slots"
| "visit p (HObj pr nsym ps) =
     (if pr = OtherProto then [p @ u '' must contain only arrays and plain objects'']
      else when_not (nsym = 0) p '' must not contain symbol keys'' @
           concat (map (descriptor_errors True p) ps) @
           visit_members p ps)"
| "visit_items p i [] = []"
| "visit_items p i (s # ss) =
     (case s of
        HHole \<Rightarrow> [item_path p i @ u '' must not be a sparse array entry'']
      | HData e v \<Rightarrow> visit (item_path p i) v
      | HAccessor _ _ \<Rightarrow> []) @ visit_items p (Suc i) ss"
| "visit_members p [] = []"
| "visit_members p (q # ps) =
     (case q of (k, s) \<Rightarrow> (case s of HData True v \<Rightarrow> visit (member_path p k) v | _ \<Rightarrow> [])) @ visit_members p ps"

definition canonicalValidationErrors :: "hval \<Rightarrow> jstring \<Rightarrow> jstring list" where
  "canonicalValidationErrors v rootPath = visit rootPath v"

section \<open>Encoding and fingerprints\<close>

text \<open>\<open>M a\<close> is \<open>a.map(encode).join(",")\<close> for an array \<open>a\<close> with another prototype than \<open>Array.prototype\<close>.  Values the
  validator refuses never reach the encoder.\<close>

fun encode :: "(hval \<Rightarrow> exn + jstring) \<Rightarrow> hval \<Rightarrow> exn + jstring"
and encode_items :: "(hval \<Rightarrow> exn + jstring) \<Rightarrow> hslot list \<Rightarrow> (exn + jstring) list"
and encode_members :: "(hval \<Rightarrow> exn + jstring) \<Rightarrow> (jstring \<times> hslot) list \<Rightarrow> (jstring \<times> (exn + jstring)) list" where
  "encode M HNull = Inr (u ''null'')"
| "encode M (HBool b) = Inr (if b then u ''true'' else u ''false'')"
| "encode M (HNum n) = Inr (number_to_string n)"
| "encode M (HStr s) = Inr (json_quote s)"
| "encode M (HArr std nsym slots extras) =
     emap (\<lambda>items. u ''['' @ items @ u '']'')
       (if std then emap (join (u '','')) (seqE (encode_items M slots)) else M (HArr std nsym slots extras))"
| "encode M (HObj pr nsym ps) =
     emap (\<lambda>ms. u ''{'' @ join (u '','') ms @ u ''}'') (seqE (map snd (sort_key fst (encode_members M ps))))"
| "encode M HUndefined = Inr []"
| "encode M (HOther t) = Inr []"
| "encode M HCycle = Inr []"
| "encode_items M [] = []"
| "encode_items M (s # ss) = (case s of HData _ v \<Rightarrow> encode M v | _ \<Rightarrow> Inr []) # encode_items M ss"
| "encode_members M [] = []"
| "encode_members M (q # ps) =
     (case q of (k, s) \<Rightarrow>
        (k, emap (\<lambda>t. json_quote k @ u '':'' @ t) (case s of HData _ v \<Rightarrow> encode M v | _ \<Rightarrow> Inr []))) # encode_members M ps"

definition canonicalStringify :: "(hval \<Rightarrow> exn + jstring) \<Rightarrow> hval \<Rightarrow> exn + jstring" where
  "canonicalStringify M v =
     (let errors = canonicalValidationErrors v (u ''value'')
      in if errors \<noteq> [] then Inl (TypeErr (u ''Evidence is not canonical JSON: '' @ join (u ''; '') errors))
         else encode M v)"

definition VOLATILE_FIXTURE_FIELDS :: "jstring set" where
  "VOLATILE_FIXTURE_FIELDS = {u ''created_at'', u ''task_hash''}"

text \<open>\<open>Object.entries\<close>: the enumerable string-named properties, accessors read.\<close>

definition object_entries :: "(jstring \<times> hslot) list \<Rightarrow> exn + (jstring \<times> hval) list" where
  "object_entries ps =
     mapE (\<lambda>(k, s). emap (Pair k) (slot_get (Some s))) (filter (\<lambda>(k, s). slot_enumerable s) ps)"

definition fixtureEvidenceRecord :: "hval \<Rightarrow> exn + hval" where
  "fixtureEvidenceRecord fixture =
     (case fixture of
        HObj pr _ ps \<Rightarrow>
          if \<not> isPlainObject fixture then Inr fixture
          else emap (\<lambda>es. HObj PlainProto 0 (map (\<lambda>(k, v). (k, HData True v))
                        (filter (\<lambda>(k, v). k \<notin> VOLATILE_FIXTURE_FIELDS) es)))
                 (object_entries ps)
      | _ \<Rightarrow> Inr fixture)"

text \<open>\<open>fixtures.map(f)\<close> of an array with the built-in \<open>map\<close>: missing elements stay missing.\<close>

definition map_slot :: "(hval \<Rightarrow> exn + hval) \<Rightarrow> hslot \<Rightarrow> exn + hslot" where
  "map_slot f s = (if s = HHole then Inr HHole else ebind (slot_get (Some s)) (\<lambda>v. emap (HData True) (f v)))"

definition fixture_records :: "(hval \<Rightarrow> exn + hval) \<Rightarrow> hval \<Rightarrow> exn + hval" where
  "fixture_records C fixtures =
     (case fixtures of
        HArr std _ slots extras \<Rightarrow>
          if std \<and> u ''map'' \<notin> fst ` set extras \<and> u ''constructor'' \<notin> fst ` set extras
          then emap (\<lambda>records. HArr True 0 records []) (mapE (map_slot fixtureEvidenceRecord) slots)
          else C fixtures
      | _ \<Rightarrow> C fixtures)"

definition short_digest :: "jstring \<Rightarrow> jstring" where
  "short_digest text = u ''sha256:'' @ take 32 (sha256_hex (utf8_encode text))"

definition fingerprintFixtureDataset :: "(hval \<Rightarrow> exn + jstring) \<Rightarrow> (hval \<Rightarrow> exn + hval) \<Rightarrow> hval \<Rightarrow> hval \<Rightarrow> exn + jstring" where
  "fingerprintFixtureDataset M C fixtures namespace =
     ebind (fixture_records C fixtures) (\<lambda>records.
       emap short_digest (canonicalStringify M (ho [(''namespace'', namespace), (''fixtures'', records)])))"

definition fingerprintInvalidDataset :: "(hval \<Rightarrow> exn + jstring) \<Rightarrow> hval \<Rightarrow> hval \<Rightarrow> exn + jstring" where
  "fingerprintInvalidDataset M errors namespace =
     emap short_digest
       (canonicalStringify M (ho [(''namespace'', namespace), (''invalid'', HBool True), (''errors'', errors)]))"

section \<open>The values without errors\<close>

fun plain_evidence :: "hval \<Rightarrow> bool"
and plain_slot :: "hslot \<Rightarrow> bool" where
  "plain_evidence (HNum n) = is_finite n"
| "plain_evidence (HArr std nsym slots extras) \<longleftrightarrow> nsym = 0 \<and> extras = [] \<and> (\<forall>s \<in> set slots. plain_slot s)"
| "plain_evidence (HObj pr nsym ps) \<longleftrightarrow>
     pr \<noteq> OtherProto \<and> nsym = 0 \<and> (\<forall>(k, s) \<in> set ps. plain_slot s)"
| "plain_evidence v \<longleftrightarrow> v \<notin> {HUndefined, HCycle} \<and> (\<forall>t. v \<noteq> HOther t)"
| "plain_slot (HData e v) \<longleftrightarrow> e \<and> plain_evidence v"
| "plain_slot s \<longleftrightarrow> False"

lemma when_not_Nil [simp]: "when_not b p m = [] \<longleftrightarrow> b"
  by (simp add: when_not_def)

lemma descriptor_errors_Nil: "descriptor_errors named p (k, s) = [] \<longleftrightarrow> named \<and> (\<exists>v. s = HData True v)"
  by (cases s) (auto simp: descriptor_errors_def is_accessor_def)

lemma concat_descriptors_Nil:
  "concat (map (descriptor_errors named p) ps) = [] \<longleftrightarrow> (\<forall>(k, s) \<in> set ps. named \<and> (\<exists>v. s = HData True v))"
  by (auto simp: descriptor_errors_Nil)

lemma item_descriptors_all:
  "(\<forall>(k, s) \<in> set (item_descriptors n slots). P s) \<longleftrightarrow> (\<forall>s \<in> set slots. s \<noteq> HHole \<longrightarrow> P s)"
  by (induction slots arbitrary: n) (auto simp: item_descriptors_def)

lemma plain_slot_iff: "plain_slot s \<longleftrightarrow> (\<exists>v. s = HData True v \<and> plain_evidence v)"
  by (cases s) auto

lemma visit_Nil:
  "visit p v = [] \<longleftrightarrow> plain_evidence v"
  "visit_items p i ss = [] \<longleftrightarrow> (\<forall>s \<in> set ss. case s of HHole \<Rightarrow> False | HData e v \<Rightarrow> plain_evidence v | _ \<Rightarrow> True)"
  "visit_members p ps = [] \<longleftrightarrow> (\<forall>(k, s) \<in> set ps. case s of HData True v \<Rightarrow> plain_evidence v | _ \<Rightarrow> True)"
proof (induction p v and p i ss and p ps rule: visit_visit_items_visit_members.induct)
  case (8 p std nsym slots extras)
  have "concat (map (descriptor_errors False p) extras) = [] \<longleftrightarrow> extras = []"
    unfolding concat_descriptors_Nil by (cases extras) auto
  moreover have "concat (map (descriptor_errors True p) (item_descriptors 0 slots)) = [] \<longleftrightarrow>
      (\<forall>s \<in> set slots. s \<noteq> HHole \<longrightarrow> (\<exists>v. s = HData True v))"
    unfolding concat_descriptors_Nil using item_descriptors_all [of 0 slots "\<lambda>s. \<exists>v. s = HData True v"] by simp
  moreover have "(\<forall>s \<in> set slots. plain_slot s) \<longleftrightarrow>
      (\<forall>s \<in> set slots. s \<noteq> HHole \<longrightarrow> (\<exists>v. s = HData True v)) \<and>
      (\<forall>s \<in> set slots. case s of HHole \<Rightarrow> False | HData e v \<Rightarrow> plain_evidence v | _ \<Rightarrow> True)"
    by (fastforce simp: plain_slot_iff split: hslot.splits)
  ultimately show ?case using 8 by (simp del: concat_eq_Nil_conv) blast
next
  case (9 p pr nsym ps)
  have "(\<forall>(k, s) \<in> set ps. plain_slot s) \<longleftrightarrow>
      (\<forall>(k, s) \<in> set ps. \<exists>v. s = HData True v) \<and>
      (\<forall>(k, s) \<in> set ps. case s of HData True v \<Rightarrow> plain_evidence v | _ \<Rightarrow> True)"
    by (fastforce simp: plain_slot_iff split: hslot.splits bool.splits)
  with 9 show ?case
    using concat_descriptors_Nil [of True p ps] by (simp del: concat_eq_Nil_conv)
qed (auto split: hslot.splits bool.splits)

lemma canonicalValidationErrors_Nil: "canonicalValidationErrors v p = [] \<longleftrightarrow> plain_evidence v"
  by (simp add: canonicalValidationErrors_def visit_Nil)

section \<open>The text of a plain value\<close>

text \<open>Every array in the value has the prototype \<open>Array.prototype\<close>.\<close>

fun standard_arrays :: "hval \<Rightarrow> bool"
and standard_slot :: "hslot \<Rightarrow> bool" where
  "standard_arrays (HArr std nsym slots extras) \<longleftrightarrow> std \<and> (\<forall>s \<in> set slots. standard_slot s)"
| "standard_arrays (HObj pr nsym ps) \<longleftrightarrow> (\<forall>(k, s) \<in> set ps. standard_slot s)"
| "standard_arrays v \<longleftrightarrow> True"
| "standard_slot (HData e v) \<longleftrightarrow> standard_arrays v"
| "standard_slot s \<longleftrightarrow> True"

lemma seqE_Inr [simp]: "seqE (map Inr xs) = Inr xs"
  by (induction xs) (simp_all add: seqE_def)

lemma sorted_members: "map snd (sort_key fst (map (\<lambda>(k, x). (k, f x)) ps)) = map f (map snd (sort_key fst ps))"
proof -
  have ins: "insort_key fst (k, f x) (map (\<lambda>(k, x). (k, f x)) qs) = map (\<lambda>(k, x). (k, f x)) (insort_key fst (k, x) qs)" for k x qs
    by (induction qs) auto
  have "sort_key fst (map (\<lambda>(k, x). (k, f x)) ps) = map (\<lambda>(k, x). (k, f x)) (sort_key fst ps)"
    by (induction ps) (auto simp: ins)
  then show ?thesis by (simp add: comp_def case_prod_unfold)
qed

text \<open>On a plain value with standard arrays the encoder writes the canonical text of the JSON value it shows.\<close>

lemma encode_canon:
  "plain_evidence v \<Longrightarrow> standard_arrays v \<Longrightarrow> \<exists>j. plain_view v = Some j \<and> encode M v = Inr (canon j)"
  "\<forall>s \<in> set ss. plain_slot s \<and> standard_slot s \<Longrightarrow>
     \<exists>js. plain_items ss = Some js \<and> encode_items M ss = map Inr (map canon js)"
  "\<forall>(k, s) \<in> set ps. plain_slot s \<and> standard_slot s \<Longrightarrow>
     \<exists>js. plain_members ps = Some js \<and> encode_members M ps = map (\<lambda>(k, t). (k, Inr t)) (members_text js)"
proof (induction M v and M ss and M ps rule: encode_encode_items_encode_members.induct)
  case (5 M std nsym slots extras)
  then obtain js where "plain_items slots = Some js" "encode_items M slots = map Inr (map canon js)" by auto
  then show ?case using "5.prems" by (auto simp del: map_map)
next
  case (6 M pr nsym ps)
  then obtain js where "plain_members ps = Some js" "encode_members M ps = map (\<lambda>(k, t). (k, Inr t)) (members_text js)"
    by fastforce
  then show ?case using "6.prems" by (auto simp: sorted_members canon_Obj simp del: map_map)
next
  case (11 M s ss)
  then obtain v where s: "s = HData True v" "plain_evidence v" "standard_arrays v" by (auto simp: plain_slot_iff)
  with "11.IH"(1) [OF s(1)] obtain j where "plain_view v = Some j" "encode M v = Inr (canon j)" by auto
  moreover obtain js where "plain_items ss = Some js" "encode_items M ss = map Inr (map canon js)"
    using "11.IH"(2) "11.prems" by auto
  ultimately show ?case by (intro exI [of _ "j # js"]) (simp add: s(1))
next
  case (13 M q ps)
  obtain k s where q: "q = (k, s)" by (cases q)
  with "13.prems" obtain v where s: "s = HData True v" "plain_evidence v" "standard_arrays v" by (auto simp: plain_slot_iff)
  with "13.IH"(1) [OF q [symmetric] s(1)] obtain j where j: "plain_view v = Some j" "encode M v = Inr (canon j)" by auto
  obtain js where "plain_members ps = Some js" "encode_members M ps = map (\<lambda>(k, t). (k, Inr t)) (members_text js)"
    using "13.IH"(2) "13.prems" by auto
  with j q s show ?case by (auto simp: members_text_def)
qed (auto simp: members_text_def)

text \<open>Where \<open>map\<close> cannot be called, the encoder gets through standard arrays only.\<close>

lemma seqE_all: "seqE ms = Inr xs \<Longrightarrow> m \<in> set ms \<Longrightarrow> \<exists>x. m = Inr x"
  by (induction ms arbitrary: xs) (auto simp: seqE_def result_simps)

lemma encode_standard:
  assumes "\<And>x t. M x \<noteq> Inr t"
  shows "encode M v = Inr t \<Longrightarrow> standard_arrays v"
    "\<forall>m \<in> set (encode_items M ss). \<exists>t. m = Inr t \<Longrightarrow> \<forall>s \<in> set ss. standard_slot s"
    "\<forall>m \<in> set (map snd (encode_members M ps)). \<exists>t. m = Inr t \<Longrightarrow> \<forall>(k, s) \<in> set ps. standard_slot s"
  using assms
proof (induction M v and M ss and M ps arbitrary: t and t and t rule: encode_encode_items_encode_members.induct)
  case (5 M std nsym slots extras)
  have std
  proof (rule ccontr)
    assume "\<not> std"
    then obtain x where "M (HArr std nsym slots extras) = Inr x" using "5.prems"(1) by (auto simp: result_simps)
    then show False using "5.prems"(2) by blast
  qed
  then obtain xs where "seqE (encode_items M slots) = Inr xs" using "5.prems"(1) by (auto simp: result_simps)
  then have "\<forall>s \<in> set slots. standard_slot s" using "5.IH" "5.prems"(2) \<open>std\<close> seqE_all by blast
  with \<open>std\<close> show ?case by simp
next
  case (6 M pr nsym ps)
  then obtain xs where "seqE (map snd (sort_key fst (encode_members M ps))) = Inr xs" by (auto simp: result_simps)
  then have "\<forall>m \<in> set (map snd (encode_members M ps)). \<exists>t. m = Inr t"
    using seqE_all [of "map snd (sort_key fst (encode_members M ps))" xs] by simp
  then show ?case using "6.IH" "6.prems"(2) by simp
next
  case (11 M s ss)
  have "standard_slot s"
  proof (cases s)
    case (HData e v)
    then show ?thesis using "11.IH"(1) [OF HData _ "11.prems"(2)] "11.prems"(1) by auto
  qed simp_all
  then show ?case using "11.IH"(2) [OF _ "11.prems"(2)] "11.prems"(1) by simp
next
  case (13 M q ps)
  obtain k s where q: "q = (k, s)" by (cases q)
  have "standard_slot s"
  proof (cases s)
    case (HData e v)
    then show ?thesis using "13.IH"(1) [OF q [symmetric] HData _ "13.prems"(2)] "13.prems"(1)
      by (auto simp: q result_simps)
  qed simp_all
  then show ?case using "13.IH"(2) [OF _ "13.prems"(2)] "13.prems"(1) by (simp add: q)
qed simp_all

theorem canonicalStringify_iff:
  assumes "standard_arrays v \<or> (\<forall>x s. M x \<noteq> Inr s)"
  shows "canonicalStringify M v = Inr t \<longleftrightarrow>
     plain_evidence v \<and> standard_arrays v \<and> (\<exists>j. plain_view v = Some j \<and> t = canon j)"
proof -
  have "encode M v = Inr t \<Longrightarrow> standard_arrays v" using assms encode_standard(1) [of M v t] by blast
  then show ?thesis
    using encode_canon(1) [of v M] by (auto simp: canonicalStringify_def canonicalValidationErrors_Nil Let_def)
qed

lemma canonicalStringify_refuses: "\<not> plain_evidence v \<Longrightarrow> \<exists>m. canonicalStringify M v = Inl (TypeErr m)"
  by (simp add: canonicalStringify_def canonicalValidationErrors_Nil Let_def)

lemma scalar_finite: "scalar_json j \<Longrightarrow> finite_json j"
  by (induction j) (fastforce simp: Basic_BNFs.snds.simps)+

text \<open>Evidence text is the canonical text the contract code hashes, where that code accepts the value.\<close>

theorem evidence_text_is_jcs:
  assumes "standard_arrays v \<or> (\<forall>x s. M x \<noteq> Inr s)" "canonicalStringify M v = Inr t" "canonicalizeJcs v = Inr t'"
  shows "t = t'"
  using assms(2,3) by (auto simp: canonicalStringify_iff [OF assms(1)] canonicalizeJcs_success)

section \<open>Fingerprints ignore the volatile fields\<close>

lemma mapE_append: "mapE f (xs @ ys) = ebind (mapE f xs) (\<lambda>a. emap ((@) a) (mapE f ys))"
  by (induction xs) (auto simp: ebind_assoc emap_def ebind_def split: sum.splits)

text \<open>Setting \<open>created_at\<close> or \<open>task_hash\<close> of a plain fixture to any data value changes no record.\<close>

definition set_field :: "jstring \<Rightarrow> hval \<Rightarrow> hval \<Rightarrow> hval" where
  "set_field k x fixture = (case fixture of HObj pr n ps \<Rightarrow> HObj pr n (upsert k (HData True x) ps) | v \<Rightarrow> v)"

lemma object_entries_Cons:
  "object_entries ((k, s) # ps) =
     (if slot_enumerable s then ebind (slot_get (Some s)) (\<lambda>v. emap ((#) (k, v)) (object_entries ps))
      else object_entries ps)"
  by (auto simp: object_entries_def emap_def ebind_def split: sum.splits)

definition data_members :: "(jstring \<times> hslot) list \<Rightarrow> bool" where
  "data_members ps \<longleftrightarrow> (\<forall>(k, s) \<in> set ps. \<exists>e v. s = HData e v)"

definition data_fixture :: "hval \<Rightarrow> bool" where
  "data_fixture f = (case f of HObj pr _ ps \<Rightarrow> pr \<noteq> OtherProto \<and> data_members ps | _ \<Rightarrow> True)"

lemma entries_data:
  "data_members ps \<Longrightarrow> object_entries ps = Inr (concat (map (\<lambda>(k, s). case s of HData True v \<Rightarrow> [(k, v)] | _ \<Rightarrow> []) ps))"
proof (induction ps)
  case (Cons q ps)
  obtain k s where "q = (k, s)" by (cases q)
  with Cons show ?case
    by (auto simp: object_entries_Cons data_members_def slot_get_def split: hslot.splits bool.splits)
qed (simp add: object_entries_def)

lemma stable_entries_upsert:
  assumes "k \<in> VOLATILE_FIXTURE_FIELDS"
  shows "filter (\<lambda>(k, v). k \<notin> VOLATILE_FIXTURE_FIELDS)
      (concat (map (\<lambda>(k, s). case s of HData True v \<Rightarrow> [(k, v)] | _ \<Rightarrow> []) (upsert k (HData True x) ps))) =
    filter (\<lambda>(k, v). k \<notin> VOLATILE_FIXTURE_FIELDS)
      (concat (map (\<lambda>(k, s). case s of HData True v \<Rightarrow> [(k, v)] | _ \<Rightarrow> []) ps))"
  using assms by (induction k "HData True x" ps rule: upsert.induct) (auto split: hslot.splits bool.splits)

lemma data_members_upsert: "data_members ps \<Longrightarrow> data_members (upsert k (HData True x) ps)"
  by (induction k "HData True x" ps rule: upsert.induct) (auto simp: data_members_def)

lemma record_set_field:
  assumes "k \<in> VOLATILE_FIXTURE_FIELDS" "data_fixture fixture"
  shows "fixtureEvidenceRecord (set_field k x fixture) = fixtureEvidenceRecord fixture"
proof (cases fixture)
  case (HObj pr n ps)
  then show ?thesis
    using assms stable_entries_upsert [OF assms(1), of x ps]
    by (simp add: fixtureEvidenceRecord_def set_field_def isPlainObject_def entries_data data_members_upsert
          data_fixture_def)
qed (simp_all add: set_field_def)

theorem fingerprint_ignores_volatile:
  assumes "k \<in> VOLATILE_FIXTURE_FIELDS" "list_all data_fixture fs"
  shows "fingerprintFixtureDataset M C (HArr True 0 (map (\<lambda>f. HData True (set_field k x f)) fs) []) namespace =
         fingerprintFixtureDataset M C (HArr True 0 (map (HData True) fs) []) namespace"
proof -
  have "mapE (map_slot fixtureEvidenceRecord) (map (\<lambda>f. HData True (set_field k x f)) fs) =
        mapE (map_slot fixtureEvidenceRecord) (map (HData True) fs)"
    using assms(2) by (induction fs) (simp_all add: map_slot_def slot_get_def record_set_field [OF assms(1)])
  then show ?thesis by (simp add: fingerprintFixtureDataset_def fixture_records_def)
qed

end
