(* ===== verification/StrictInput.thy ===== *)
theory StrictInput
  imports JsArith
begin

text \<open>
  The strict input module of the public contract
  (\<open>packages/kdna-core/src/public-contract/strict-input.js\<close>): the scalar predicates, the byte-metered
  copy of a caller value, the in-place check with the same rules, and the canonical text.

  Every refusal of the module throws the same error, \<open>READ_INPUT_INVALID\<close>.  Caller values are trees with
  back references (\<open>HCycle\<close>): an object reached along two paths is two equal subtrees.  Which subtrees are one
  object is what \<open>assertStrictJson\<close> depends on, since it charges an object once; it takes the identities of the
  objects as an argument.  The debugging output of \<open>reject\<close> is not modelled.
\<close>

section \<open>Bounds and refusal\<close>

definition MAX_DEPTH :: nat where "MAX_DEPTH = 64"
definition MAX_PAYLOAD_BYTES :: nat where "MAX_PAYLOAD_BYTES = 8 * 1024 * 1024"
definition MAX_GRAPH_BYTES :: nat where "MAX_GRAPH_BYTES = 256 * 1024 * 1024"
definition MAX_STRING_BYTES :: nat where "MAX_STRING_BYTES = 1024 * 1024"
definition MAX_ITEMS :: nat where "MAX_ITEMS = 10000"

definition reject :: "exn + 'a" where
  "reject = Inl (PlainError (u ''READ_INPUT_INVALID''))"

lemma reject_not_Inr [simp]: "reject \<noteq> Inr x" "Inr x \<noteq> reject"
  by (simp_all add: reject_def)

lemma ebind_reject [simp]: "ebind reject f = reject"
  by (simp add: reject_def)

section \<open>Scalar predicates\<close>

definition byte_length :: "jstring \<Rightarrow> nat" where
  "byte_length s = length (utf8_encode s)"

definition is_control :: "code_unit \<Rightarrow> bool" where
  "is_control n \<longleftrightarrow> unat n \<le> 0x1F \<or> (0x7F \<le> unat n \<and> unat n \<le> 0x9F)"

text \<open>The loop of \<open>scalarString\<close>; the control test looks at the first unit of a pair.\<close>

fun scalar_units :: "bool \<Rightarrow> jstring \<Rightarrow> bool" where
  "scalar_units controls [] = True"
| "scalar_units controls (n # s) =
     (if is_high n
      then (case s of [] \<Rightarrow> False
            | m # s' \<Rightarrow> is_low m \<and> (controls \<or> \<not> is_control n) \<and> scalar_units controls s')
      else \<not> is_low n \<and> (controls \<or> \<not> is_control n) \<and> scalar_units controls s)"

definition scalarString :: "json option \<Rightarrow> nat \<Rightarrow> bool \<Rightarrow> bool" where
  "scalarString v maximum controls =
     (case v of Some (JStr s) \<Rightarrow> scalar_units controls s \<and> byte_length s \<le> maximum | _ \<Rightarrow> False)"

definition scalar_text :: "jstring \<Rightarrow> bool" where
  "scalar_text s = scalarString (Some (JStr s)) MAX_STRING_BYTES True"

definition is_identifier :: "json option \<Rightarrow> bool" where
  "is_identifier v \<longleftrightarrow> non_empty_string v \<and> scalarString v 256 False"

definition is_letter :: "code_unit \<Rightarrow> bool" where
  "is_letter c \<longleftrightarrow> (0x41 \<le> unat c \<and> unat c \<le> 0x5A) \<or> (0x61 \<le> unat c \<and> unat c \<le> 0x7A)"

fun split_at :: "code_unit \<Rightarrow> jstring \<Rightarrow> jstring list" where
  "split_at c [] = [[]]"
| "split_at c (x # s) = (if x = c then [] # split_at c s else (x # hd (split_at c s)) # tl (split_at c s))"

definition drive_prefix :: "jstring \<Rightarrow> bool" where
  "drive_prefix s = (case s of c # d # _ \<Rightarrow> is_letter c \<and> d = 0x3A | _ \<Rightarrow> False)"

definition entryName :: "json option \<Rightarrow> bool" where
  "entryName v =
     (case v of
        Some (JStr s) \<Rightarrow>
          s \<noteq> [] \<and> scalarString v 4096 False \<and> 0x5C \<notin> set s \<and> take 1 s \<noteq> [0x2F] \<and> \<not> drive_prefix s \<and>
          list_all (\<lambda>part. part \<noteq> [] \<and> part \<noteq> u ''.'' \<and> part \<noteq> u ''..'') (split_at 0x2F s)
      | _ \<Rightarrow> False)"

definition safe_uint :: "json option \<Rightarrow> bool" where
  "safe_uint v =
     (case v of
        Some (JNum n) \<Rightarrow> is_integer n \<and> num_le (Fin 0) n \<and> num_le n (Fin (2 ^ 53 - 1))
      | _ \<Rightarrow> False)"

definition utf8 :: "json option \<Rightarrow> exn + byte list" where
  "utf8 v = (case v of Some (JStr s) \<Rightarrow> if scalar_text s then Inr (utf8_encode s) else reject | _ \<Rightarrow> reject)"

text \<open>The loop of \<open>compareUtf8\<close> over the two encodings.\<close>

fun compare_bytes :: "byte list \<Rightarrow> byte list \<Rightarrow> int" where
  "compare_bytes (a # xs) (b # ys) = (if a \<noteq> b then int (unat a) - int (unat b) else compare_bytes xs ys)"
| "compare_bytes xs ys = int (length xs) - int (length ys)"

definition compareUtf8 :: "jstring \<Rightarrow> jstring \<Rightarrow> int" where
  "compareUtf8 left right = compare_bytes (utf8_encode left) (utf8_encode right)"

section \<open>Copy, check, canonical text\<close>

text \<open>\<open>scalarBytes\<close> of a scalar: the bytes of its JSON text.\<close>

definition scalarBytes :: "json \<Rightarrow> nat" where
  "scalarBytes v = byte_length (canon v)"

definition charge :: "nat \<Rightarrow> nat \<Rightarrow> exn + nat" where
  "charge bytes cost = (if bytes + cost > MAX_GRAPH_BYTES then reject else Inr (bytes + cost))"

definition scalar_ok :: "json \<Rightarrow> bool" where
  "scalar_ok v = (case v of JNum n \<Rightarrow> is_finite n | JStr s \<Rightarrow> scalar_text s | _ \<Rightarrow> True)"

definition copy_scalar :: "nat \<Rightarrow> nat \<Rightarrow> json \<Rightarrow> exn + json \<times> nat" where
  "copy_scalar depth bytes v =
     (if depth > MAX_DEPTH \<or> \<not> scalar_ok v then reject else emap (Pair v) (charge bytes (scalarBytes v)))"

definition separator_cost :: "nat \<Rightarrow> nat" where
  "separator_cost index = (if index > 0 then 1 else 0)"

text \<open>
  \<open>for (const key of Object.keys(value))\<close> with its counter: over the elements of an array (an index is
  always a scalar string and costs nothing) and over named properties.  Only enumerable properties are keys.
\<close>

fun copy :: "nat \<Rightarrow> nat \<Rightarrow> hval \<Rightarrow> exn + json \<times> nat"
and copy_items :: "nat \<Rightarrow> nat \<Rightarrow> nat \<Rightarrow> hslot list \<Rightarrow> exn + json list \<times> nat"
and copy_members :: "bool \<Rightarrow> nat \<Rightarrow> nat \<Rightarrow> nat \<Rightarrow> (jstring \<times> hslot) list \<Rightarrow> exn + (jstring \<times> json) list \<times> nat" where
  "copy depth bytes HNull = copy_scalar depth bytes JNull"
| "copy depth bytes (HBool b) = copy_scalar depth bytes (JBool b)"
| "copy depth bytes (HNum n) = copy_scalar depth bytes (JNum n)"
| "copy depth bytes (HStr s) = copy_scalar depth bytes (JStr s)"
| "copy depth bytes HUndefined = reject"
| "copy depth bytes (HOther t) = reject"
| "copy depth bytes HCycle = reject"
| "copy depth bytes (HArr std nsym slots extras) =
     (if depth > MAX_DEPTH \<or> nsym \<noteq> 0 \<or> length slots > MAX_ITEMS then reject
      else ebind (charge bytes 2) (\<lambda>b1.
           ebind (copy_items depth 0 b1 slots) (\<lambda>(xs, b2).
           ebind (copy_members True depth (length xs) b2 extras) (\<lambda>(ps, b3).
             if length xs + length ps \<noteq> length slots \<or> ps \<noteq> [] then reject else Inr (JArr xs, b3)))))"
| "copy depth bytes (HObj pr nsym ms) =
     (if depth > MAX_DEPTH \<or> pr = OtherProto \<or> nsym \<noteq> 0 then reject
      else ebind (charge bytes 2) (\<lambda>b1.
           ebind (copy_members False depth 0 b1 ms) (\<lambda>(ps, b2). Inr (JObj ps, b2))))"
| "copy_items depth index bytes [] = Inr ([], bytes)"
| "copy_items depth index bytes (s # ss) =
     (case s of
        HData True v \<Rightarrow>
          ebind (charge bytes (separator_cost index)) (\<lambda>b1.
          ebind (copy (Suc depth) b1 v) (\<lambda>(x, b2).
          ebind (copy_items depth (Suc index) b2 ss) (\<lambda>(xs, b3). Inr (x # xs, b3))))
      | HAccessor True _ \<Rightarrow> reject
      | _ \<Rightarrow> copy_items depth index bytes ss)"
| "copy_members arr depth index bytes [] = Inr ([], bytes)"
| "copy_members arr depth index bytes (m # ms) =
     (case m of (k, s) \<Rightarrow>
        case s of
          HData True v \<Rightarrow>
            if \<not> scalar_text k then reject
            else ebind (charge bytes (separator_cost index + (if arr then 0 else scalarBytes (JStr k) + 1))) (\<lambda>b1.
                 ebind (copy (Suc depth) b1 v) (\<lambda>(x, b2).
                 ebind (copy_members arr depth (Suc index) b2 ms) (\<lambda>(ps, b3). Inr ((k, x) # ps, b3))))
        | HAccessor True _ \<Rightarrow> reject
        | _ \<Rightarrow> copy_members arr depth index bytes ms)"

definition copyJson :: "hval \<Rightarrow> exn + json" where
  "copyJson v = emap fst (copy 0 0 v)"

text \<open>
  \<open>assertStrictJson\<close> returns the height of the value; it adds 2 for a container before it tests the meter.

  Paths are lists of positions among the members of a container; \<open>I p\<close> is the identity of the object at
  path \<open>p\<close>.  \<open>H\<close> is the map \<open>heights\<close> of the objects already checked.
\<close>

type_synonym identities = "nat list \<Rightarrow> nat list"
type_synonym heights = "nat list \<rightharpoonup> nat"

definition check_scalar :: "nat \<Rightarrow> heights \<Rightarrow> nat \<Rightarrow> json \<Rightarrow> exn + nat \<times> heights \<times> nat" where
  "check_scalar depth H bytes v =
     (if depth > MAX_DEPTH \<or> \<not> scalar_ok v then reject else emap (\<lambda>b. (0, H, b)) (charge bytes (scalarBytes v)))"

definition known_height :: "nat \<Rightarrow> heights \<Rightarrow> nat \<Rightarrow> nat \<Rightarrow> exn + nat \<times> heights \<times> nat" where
  "known_height depth H bytes h = (if depth + h > MAX_DEPTH then reject else Inr (h, H, bytes))"

fun check_value :: "identities \<Rightarrow> nat list \<Rightarrow> nat \<Rightarrow> heights \<Rightarrow> nat \<Rightarrow> hval \<Rightarrow> exn + nat \<times> heights \<times> nat"
and check_items :: "identities \<Rightarrow> nat list \<Rightarrow> nat \<Rightarrow> nat \<Rightarrow> nat \<Rightarrow> nat \<Rightarrow> heights \<Rightarrow> nat \<Rightarrow> hslot list \<Rightarrow>
    exn + nat \<times> nat \<times> heights \<times> nat"
and check_members :: "identities \<Rightarrow> nat list \<Rightarrow> nat \<Rightarrow> bool \<Rightarrow> nat \<Rightarrow> nat \<Rightarrow> nat \<Rightarrow> heights \<Rightarrow> nat \<Rightarrow> (jstring \<times> hslot) list \<Rightarrow>
    exn + nat \<times> nat \<times> heights \<times> nat" where
  "check_value I p depth H bytes HNull = check_scalar depth H bytes JNull"
| "check_value I p depth H bytes (HBool b) = check_scalar depth H bytes (JBool b)"
| "check_value I p depth H bytes (HNum n) = check_scalar depth H bytes (JNum n)"
| "check_value I p depth H bytes (HStr s) = check_scalar depth H bytes (JStr s)"
| "check_value I p depth H bytes HUndefined = reject"
| "check_value I p depth H bytes (HOther t) = reject"
| "check_value I p depth H bytes HCycle = reject"
| "check_value I p depth H bytes (HArr std nsym slots extras) =
     (if depth > MAX_DEPTH \<or> nsym \<noteq> 0 then reject
      else case H (I p) of
        Some h \<Rightarrow> known_height depth H bytes h
      | None \<Rightarrow>
          if length slots > MAX_ITEMS then reject
          else ebind (check_items I p 0 depth 0 0 H (bytes + 2) slots) (\<lambda>(n, h, H2, b2).
               ebind (check_members I p (length slots) True depth n h H2 b2 extras) (\<lambda>(m, h', H3, b3).
                 if m \<noteq> length slots \<or> m \<noteq> n then reject else Inr (h', H3(I p \<mapsto> h'), b3))))"
| "check_value I p depth H bytes (HObj pr nsym ms) =
     (if depth > MAX_DEPTH \<or> pr = OtherProto \<or> nsym \<noteq> 0 then reject
      else case H (I p) of
        Some h \<Rightarrow> known_height depth H bytes h
      | None \<Rightarrow>
          ebind (check_members I p 0 False depth 0 0 H (bytes + 2) ms) (\<lambda>(n, h, H2, b). Inr (h, H2(I p \<mapsto> h), b)))"
| "check_items I p pos depth index height H bytes [] = Inr (index, height, H, bytes)"
| "check_items I p pos depth index height H bytes (s # ss) =
     (case s of
        HData True v \<Rightarrow>
          ebind (charge bytes (separator_cost index)) (\<lambda>b1.
          ebind (check_value I (p @ [pos]) (Suc depth) H b1 v) (\<lambda>(h, H2, b2).
            check_items I p (Suc pos) depth (Suc index) (max height (Suc h)) H2 b2 ss))
      | HAccessor True _ \<Rightarrow> reject
      | _ \<Rightarrow> check_items I p (Suc pos) depth index height H bytes ss)"
| "check_members I p pos arr depth index height H bytes [] = Inr (index, height, H, bytes)"
| "check_members I p pos arr depth index height H bytes (m # ms) =
     (case m of (k, s) \<Rightarrow>
        case s of
          HData True v \<Rightarrow>
            if \<not> scalar_text k then reject
            else ebind (charge bytes (separator_cost index + (if arr then 0 else scalarBytes (JStr k) + 1))) (\<lambda>b1.
                 ebind (check_value I (p @ [pos]) (Suc depth) H b1 v) (\<lambda>(h, H2, b2).
                   check_members I p (Suc pos) arr depth (Suc index) (max height (Suc h)) H2 b2 ms))
        | HAccessor True _ \<Rightarrow> reject
        | _ \<Rightarrow> check_members I p (Suc pos) arr depth index height H bytes ms)"

definition assertStrictJson :: "identities \<Rightarrow> hval \<Rightarrow> exn + hval" where
  "assertStrictJson I v =
     ebind (check_value I [] 0 (\<lambda>_. None) 0 v) (\<lambda>(h, H, bytes). if bytes > MAX_GRAPH_BYTES then reject else Inr v)"

text \<open>The encoder: the chunks of a checked value, joined.\<close>

fun encode_text :: "hval \<Rightarrow> jstring"
and encode_slots :: "hslot list \<Rightarrow> jstring list"
and encode_keys :: "(jstring \<times> hslot) list \<Rightarrow> (jstring \<times> jstring) list" where
  "encode_text (HArr std nsym slots extras) = u ''['' @ join (u '','') (encode_slots slots) @ u '']''"
| "encode_text (HObj pr nsym ms) = u ''{'' @ join (u '','') (map snd (sort_key fst (encode_keys ms))) @ u ''}''"
| "encode_text HNull = u ''null''"
| "encode_text (HBool b) = (if b then u ''true'' else u ''false'')"
| "encode_text (HNum n) = number_to_string n"
| "encode_text (HStr s) = json_quote s"
| "encode_text _ = []"
| "encode_slots [] = []"
| "encode_slots (s # ss) = (case s of HData _ v \<Rightarrow> encode_text v | _ \<Rightarrow> []) # encode_slots ss"
| "encode_keys [] = []"
| "encode_keys (m # ms) =
     (case m of (k, s) \<Rightarrow> case s of
        HData True v \<Rightarrow> (k, json_quote k @ u '':'' @ encode_text v) # encode_keys ms
      | _ \<Rightarrow> encode_keys ms)"

definition canonicalJson :: "identities \<Rightarrow> hval \<Rightarrow> exn + jstring" where
  "canonicalJson I v = emap encode_text (assertStrictJson I v)"

text \<open>The identities of a value no part of which is shared: every path leads to an object of its own.\<close>

definition unshared :: identities where
  "unshared p = p"

section \<open>Timestamps\<close>

definition number_field :: "jstring \<Rightarrow> nat \<Rightarrow> nat \<Rightarrow> nat option" where
  "number_field s i n =
     (let t = take n (drop i s)
      in if length t = n \<and> list_all is_digit t then Some (dec_value (map digit_val t)) else None)"

definition timestamp_tail :: "jstring \<Rightarrow> bool" where
  "timestamp_tail s =
     (case s of
        [] \<Rightarrow> False
      | c # t \<Rightarrow>
          if c = 0x2E then takeWhile is_digit t \<noteq> [] \<and> dropWhile is_digit t = u ''Z'' else s = u ''Z'')"

definition days_in_month :: "nat \<Rightarrow> nat \<Rightarrow> nat" where
  "days_in_month year month =
     (let leap = (year mod 4 = 0 \<and> (year mod 100 \<noteq> 0 \<or> year mod 400 = 0))
      in [31, if leap then 29 else 28, 31, 30, 31, 30, 31, 31, 30, 31, 30, 31] ! (month - 1))"

definition timestamp_fields :: "jstring \<Rightarrow> nat list option" where
  "timestamp_fields s =
     (if take 1 (drop 4 s) = u ''-'' \<and> take 1 (drop 7 s) = u ''-'' \<and> take 1 (drop 10 s) = u ''T'' \<and>
         take 1 (drop 13 s) = u '':'' \<and> take 1 (drop 16 s) = u '':'' \<and> timestamp_tail (drop 19 s)
      then those (map (\<lambda>(i, n). number_field s i n) [(0, 4), (5, 2), (8, 2), (11, 2), (14, 2), (17, 2)])
      else None)"

definition validTimestamp :: "json option \<Rightarrow> bool" where
  "validTimestamp v =
     (case v of
        Some (JStr s) \<Rightarrow>
          (case timestamp_fields s of
             Some [year, month, day, hour, minute, second] \<Rightarrow>
               month \<ge> 1 \<and> month \<le> 12 \<and> day \<ge> 1 \<and> day \<le> days_in_month year month \<and>
               hour \<le> 23 \<and> minute \<le> 59 \<and> second \<le> 59
           | _ \<Rightarrow> False)
      | _ \<Rightarrow> False)"

section \<open>Lengths of UTF-8 texts\<close>

lemma code_points_lone: "(\<And>d. is_high c \<Longrightarrow> cs = d # tl cs \<Longrightarrow> \<not> is_low d) \<Longrightarrow> code_points (c # cs) = unat c # code_points cs"
  by (cases cs) auto

lemma code_points_append: "\<not> is_low c \<Longrightarrow> code_points (s @ c # t) = code_points s @ code_points (c # t)"
proof (induction s rule: code_points.induct)
  case (2 a s)
  show ?case
  proof (cases s)
    case Nil
    with 2(3) show ?thesis by (simp add: code_points_lone)
  next
    case (Cons d ds)
    show ?thesis
    proof (cases "is_high a \<and> is_low d")
      case True
      with 2(1) [OF Cons True 2(3)] Cons show ?thesis by (simp add: code_points_Pair del: code_points.simps)
    next
      case False
      then have "code_points (a # xs) = unat a # code_points xs" if "xs = d # tl xs" for xs
        using that by (intro code_points_lone) (metis list.sel(1))
      with 2(2) [OF Cons False 2(3)] Cons show ?thesis by (simp del: code_points.simps)
    qed
  qed
qed simp

lemma code_points_ascii: "unat c < 0x80 \<Longrightarrow> code_points (c # t) = unat c # code_points t"
  by (rule code_points_Bmp) (auto simp: high_unat)

lemma byte_length_ascii: "unat c < 0x80 \<Longrightarrow> byte_length (s @ c # t) = byte_length s + 1 + byte_length t"
proof -
  assume c: "unat c < 0x80"
  then have "\<not> is_low c" by (auto simp: low_unat)
  moreover have "replace_surrogate (unat c) = unat c" using c by (simp add: replace_surrogate_def)
  ultimately show ?thesis
    using c by (simp add: byte_length_def utf8_encode_def code_points_append code_points_ascii utf8_cp_def
                     del: code_points.simps)
qed

lemma byte_length_Nil [simp]: "byte_length [] = 0"
  by (simp add: byte_length_def)

lemma byte_length_Cons_ascii: "unat c < 0x80 \<Longrightarrow> byte_length (c # t) = 1 + byte_length t"
  using byte_length_ascii [of c "[]" t] by simp

lemma u_marks: "u '','' = [0x2C]" "u '':'' = [0x3A]" "u ''['' = [0x5B]" "u '']'' = [0x5D]" "u ''{'' = [0x7B]" "u ''}'' = [0x7D]"
  by (simp_all add: u_def)

text \<open>The bytes of a list of texts after \<open>n\<close> others: each costs its own length and a separator.\<close>

fun texts_bytes :: "nat \<Rightarrow> jstring list \<Rightarrow> nat" where
  "texts_bytes n [] = 0"
| "texts_bytes n (t # ts) = separator_cost n + byte_length t + texts_bytes (Suc n) ts"

lemma texts_bytes_Suc: "texts_bytes (Suc n) ts = length ts + sum_list (map byte_length ts)"
  by (induction ts arbitrary: n) (auto simp: separator_cost_def)

lemma byte_length_join: "byte_length (join [0x2C] ts) = texts_bytes 0 ts"
proof (cases ts)
  case (Cons t ts')
  have "byte_length (join [0x2C] (t # ts')) = byte_length t + (length ts' + sum_list (map byte_length ts'))" for t ts'
  proof (induction ts' arbitrary: t)
    case (Cons a ts')
    then show ?case using byte_length_ascii [of "0x2C" t "join [0x2C] (a # ts')"] by simp
  qed simp
  with Cons show ?thesis by (simp add: texts_bytes_Suc separator_cost_def)
qed simp

lemma byte_length_brackets:
  "unat a < 0x80 \<Longrightarrow> unat b < 0x80 \<Longrightarrow> byte_length (a # join [0x2C] ts @ [b]) = 2 + texts_bytes 0 ts"
  using byte_length_ascii [of b "join [0x2C] ts" "[]"] by (simp add: byte_length_Cons_ascii byte_length_join)

lemma texts_bytes_perm: "mset ts = mset ts' \<Longrightarrow> texts_bytes 0 ts = texts_bytes 0 ts'"
proof -
  assume m: "mset ts = mset ts'"
  have l: "texts_bytes 0 xs = (length xs - 1) + sum_list (map byte_length xs)" for xs
    by (cases xs) (auto simp: texts_bytes_Suc separator_cost_def)
  have "sum_list (map byte_length ts) = sum_list (map byte_length ts')"
    using m by (metis mset_map sum_mset_sum_list)
  moreover have "length ts = length ts'" using m by (rule mset_eq_length)
  ultimately show ?thesis by (simp add: l)
qed

section \<open>What is accepted\<close>

fun strict_view :: "hval \<Rightarrow> json option"
and strict_items :: "hslot list \<Rightarrow> json list option"
and strict_members :: "(jstring \<times> hslot) list \<Rightarrow> (jstring \<times> json) list option" where
  "strict_view HNull = Some JNull"
| "strict_view (HBool b) = Some (JBool b)"
| "strict_view (HNum n) = Some (JNum n)"
| "strict_view (HStr s) = Some (JStr s)"
| "strict_view (HArr std nsym slots extras) =
     (if nsym \<noteq> 0 \<or> \<not> list_all slot_enumerable slots \<or> list_ex (\<lambda>(k, s). slot_enumerable s) extras then None
      else map_option JArr (strict_items slots))"
| "strict_view (HObj pr nsym ms) =
     (if pr = OtherProto \<or> nsym \<noteq> 0 then None else map_option JObj (strict_members ms))"
| "strict_view _ = None"
| "strict_items [] = Some []"
| "strict_items (s # ss) =
     (case s of
        HData True v \<Rightarrow> Option.bind (strict_view v) (\<lambda>x. map_option ((#) x) (strict_items ss))
      | HAccessor True _ \<Rightarrow> None
      | _ \<Rightarrow> strict_items ss)"
| "strict_members [] = Some []"
| "strict_members (m # ms) =
     (case m of (k, s) \<Rightarrow> case s of
        HData True v \<Rightarrow> Option.bind (strict_view v) (\<lambda>x. map_option ((#) (k, x)) (strict_members ms))
      | HAccessor True _ \<Rightarrow> None
      | _ \<Rightarrow> strict_members ms)"

fun in_limits :: "nat \<Rightarrow> json \<Rightarrow> bool" where
  "in_limits d (JArr xs) \<longleftrightarrow> d \<le> MAX_DEPTH \<and> length xs \<le> MAX_ITEMS \<and> (\<forall>x \<in> set xs. in_limits (Suc d) x)"
| "in_limits d (JObj ps) \<longleftrightarrow> d \<le> MAX_DEPTH \<and> (\<forall>(k, x) \<in> set ps. scalar_text k \<and> in_limits (Suc d) x)"
| "in_limits d v \<longleftrightarrow> d \<le> MAX_DEPTH \<and> scalar_ok v"

definition items_bytes :: "nat \<Rightarrow> json list \<Rightarrow> nat" where
  "items_bytes n xs = texts_bytes n (map canon xs)"

definition member_texts :: "(jstring \<times> json) list \<Rightarrow> jstring list" where
  "member_texts ps = map snd (members_text ps)"

lemma scalarBytes_Arr: "scalarBytes (JArr xs) = 2 + items_bytes 0 xs"
  by (simp add: scalarBytes_def items_bytes_def u_marks byte_length_brackets)

lemma scalarBytes_Obj: "scalarBytes (JObj ps) = 2 + texts_bytes 0 (member_texts ps)"
proof -
  have "mset (map snd (sort_key fst (members_text ps))) = mset (member_texts ps)"
    by (simp add: member_texts_def)
  from texts_bytes_perm [OF this] show ?thesis
    by (simp add: scalarBytes_def canon_Obj u_marks byte_length_brackets)
qed

lemma member_text_bytes: "byte_length (json_quote k @ u '':'' @ canon x) = scalarBytes (JStr k) + 1 + scalarBytes x"
  using byte_length_ascii [of "0x3A" "json_quote k" "canon x"] by (simp add: u_marks scalarBytes_def)

lemma charge_Inr [simp]: "charge b c = Inr b' \<longleftrightarrow> b' = b + c \<and> b' \<le> MAX_GRAPH_BYTES"
  by (auto simp: charge_def)

lemma strict_items_length: "strict_items ss = Some xs \<Longrightarrow> length xs \<le> length ss \<and> (length xs = length ss \<longleftrightarrow> list_all slot_enumerable ss)"
proof (induction ss arbitrary: xs)
  case (Cons s ss)
  then show ?case
    by (cases s rule: slot_enumerable.cases) (fastforce simp: bind_eq_Some_conv split: if_splits bool.splits)+
qed simp

lemma strict_members_Nil:
  "strict_members ms = Some [] \<longleftrightarrow> \<not> list_ex (\<lambda>(k, s). slot_enumerable s) ms"
proof (induction ms)
  case (Cons m ms)
  obtain k s where "m = (k, s)" by (cases m)
  with Cons show ?case
    by (cases s) (auto simp: bind_eq_Some_conv split: bool.splits)
qed simp

fun members_bytes :: "bool \<Rightarrow> nat \<Rightarrow> (jstring \<times> json) list \<Rightarrow> nat" where
  "members_bytes arr n [] = 0"
| "members_bytes arr n ((k, x) # ps) =
     separator_cost n + (if arr then 0 else scalarBytes (JStr k) + 1) + scalarBytes x + members_bytes arr (Suc n) ps"

lemma members_bytes_texts: "members_bytes False n ps = texts_bytes n (member_texts ps)"
  by (induction ps arbitrary: n) (auto simp: member_texts_def members_text_def member_text_bytes)

lemma copy_scalar_iff:
  "copy_scalar d b v = Inr (j, b') \<longleftrightarrow>
     v = j \<and> d \<le> MAX_DEPTH \<and> scalar_ok v \<and> b' = b + scalarBytes v \<and> b' \<le> MAX_GRAPH_BYTES"
  by (auto simp: copy_scalar_def emap_Inr_conv)

lemma copy_iff:
  "copy d b v = Inr (j, b') \<longleftrightarrow>
     strict_view v = Some j \<and> in_limits d j \<and> b' = b + scalarBytes j \<and> b' \<le> MAX_GRAPH_BYTES"
  "b \<le> MAX_GRAPH_BYTES \<Longrightarrow> copy_items d n b ss = Inr (xs, b') \<longleftrightarrow>
     strict_items ss = Some xs \<and> (\<forall>x \<in> set xs. in_limits (Suc d) x) \<and> b' = b + items_bytes n xs \<and> b' \<le> MAX_GRAPH_BYTES"
  "b \<le> MAX_GRAPH_BYTES \<Longrightarrow> copy_members arr d n b ms = Inr (ps, b') \<longleftrightarrow>
     strict_members ms = Some ps \<and> (\<forall>(k, x) \<in> set ps. scalar_text k \<and> in_limits (Suc d) x) \<and>
     b' = b + members_bytes arr n ps \<and> b' \<le> MAX_GRAPH_BYTES"
proof (induction d b v and d n b ss and arr d n b ms arbitrary: j b' and xs b' and ps b'
    rule: copy_copy_items_copy_members.induct)
  case (8 d b std nsym slots extras)
  show ?case
  proof (cases "d > MAX_DEPTH \<or> nsym \<noteq> 0 \<or> length slots > MAX_ITEMS")
    case True
    then show ?thesis using strict_items_length [of slots] by auto
  next
    case False
    have items: "copy_items d 0 (b + 2) slots = Inr (xs, b2) \<longleftrightarrow>
        strict_items slots = Some xs \<and> (\<forall>x \<in> set xs. in_limits (Suc d) x) \<and> b2 = b + 2 + items_bytes 0 xs \<and>
        b2 \<le> MAX_GRAPH_BYTES" if "b + 2 \<le> MAX_GRAPH_BYTES" for xs b2
      using "8.IH"(1) [OF False, of "b + 2" xs b2] that by simp
    have extra: "copy_members True d n b2 extras = Inr ([], b3) \<longleftrightarrow>
        \<not> list_ex (\<lambda>(k, s). slot_enumerable s) extras \<and> b3 = b2" if "b2 \<le> MAX_GRAPH_BYTES" for n b2 b3
      using that
    proof (induction extras)
      case (Cons e es)
      obtain k t where "e = (k, t)" by (cases e)
      with Cons show ?case by (cases t) (auto simp: result_simps split: bool.splits prod.splits)
    qed auto
    have "copy d b (HArr std nsym slots extras) = Inr (j, b') \<longleftrightarrow> b + 2 \<le> MAX_GRAPH_BYTES \<and>
        (\<exists>xs b2. copy_items d 0 (b + 2) slots = Inr (xs, b2) \<and>
           copy_members True d (length xs) b2 extras = Inr ([], b') \<and> length xs = length slots \<and> j = JArr xs)"
      using False by (auto simp: ebind_Inr_conv split: if_splits)
    also have "\<dots> \<longleftrightarrow> (\<exists>xs. strict_items slots = Some xs \<and> list_all slot_enumerable slots \<and>
        \<not> list_ex (\<lambda>(k, s). slot_enumerable s) extras \<and> (\<forall>x \<in> set xs. in_limits (Suc d) x) \<and>
        b' = b + 2 + items_bytes 0 xs \<and> b' \<le> MAX_GRAPH_BYTES \<and> j = JArr xs)"
      using items extra strict_items_length [of slots] by (auto; metis)
    finally show ?thesis
      using False strict_items_length [of slots] by (auto simp: scalarBytes_Arr)
  qed
next
  case (9 d b pr nsym ms)
  show ?case
  proof (cases "d > MAX_DEPTH \<or> pr = OtherProto \<or> nsym \<noteq> 0")
    case False
    have members: "copy_members False d 0 (b + 2) ms = Inr (ps, b') \<longleftrightarrow>
        strict_members ms = Some ps \<and> (\<forall>(k, x) \<in> set ps. scalar_text k \<and> in_limits (Suc d) x) \<and>
        b' = b + 2 + members_bytes False 0 ps \<and> b' \<le> MAX_GRAPH_BYTES" if "b + 2 \<le> MAX_GRAPH_BYTES" for ps
      using "9.IH" [OF False, of "b + 2" ps b'] that by simp
    have "copy d b (HObj pr nsym ms) = Inr (j, b') \<longleftrightarrow> b + 2 \<le> MAX_GRAPH_BYTES \<and>
        (\<exists>ps. copy_members False d 0 (b + 2) ms = Inr (ps, b') \<and> j = JObj ps)"
      using False by (auto simp: ebind_Inr_conv)
    also have "\<dots> \<longleftrightarrow> (\<exists>ps. strict_members ms = Some ps \<and> (\<forall>(k, x) \<in> set ps. scalar_text k \<and> in_limits (Suc d) x) \<and>
        b' = b + 2 + members_bytes False 0 ps \<and> b' \<le> MAX_GRAPH_BYTES \<and> j = JObj ps)"
      by (auto simp only: members cong: conj_cong)
    finally show ?thesis
      using False by (auto simp: scalarBytes_Obj members_bytes_texts)
  qed auto
next
  case (11 d n b s ss)
  show ?case
  proof (cases s)
    case s: (HData e v)
    show ?thesis
    proof (cases e)
      case e: True
      let ?b = "b + separator_cost n"
      have hd: "copy (Suc d) ?b v = Inr (x, b2) \<longleftrightarrow> strict_view v = Some x \<and> in_limits (Suc d) x \<and>
          b2 = ?b + scalarBytes x \<and> b2 \<le> MAX_GRAPH_BYTES" if "?b \<le> MAX_GRAPH_BYTES" for x b2
        using "11.IH"(2) [OF s] e that by simp
      have tl: "copy_items d (Suc n) b2 ss = Inr (ys, b') \<longleftrightarrow> strict_items ss = Some ys \<and>
          (\<forall>x \<in> set ys. in_limits (Suc d) x) \<and> b' = b2 + items_bytes (Suc n) ys \<and> b' \<le> MAX_GRAPH_BYTES"
        if "?b \<le> MAX_GRAPH_BYTES" "copy (Suc d) ?b v = Inr (x, b2)" for x b2 ys
        using "11.IH"(3) [OF s] e that hd [OF that(1)] by simp
      have "copy_items d n b (s # ss) = Inr (xs, b') \<longleftrightarrow> ?b \<le> MAX_GRAPH_BYTES \<and>
          (\<exists>x b2 ys. copy (Suc d) ?b v = Inr (x, b2) \<and> copy_items d (Suc n) b2 ss = Inr (ys, b') \<and> xs = x # ys)"
        using s e by (auto simp: ebind_Inr_conv)
      also have "\<dots> \<longleftrightarrow> (\<exists>x ys. strict_view v = Some x \<and> strict_items ss = Some ys \<and> xs = x # ys \<and>
          in_limits (Suc d) x \<and> (\<forall>x \<in> set ys. in_limits (Suc d) x) \<and>
          b' = ?b + scalarBytes x + items_bytes (Suc n) ys \<and> b' \<le> MAX_GRAPH_BYTES)"
        using hd tl by (auto; metis)
      finally show ?thesis
        using s e by (auto simp: items_bytes_def scalarBytes_def bind_eq_Some_conv)
    qed (use s "11.IH" "11.prems" in simp)
  qed (use "11.IH" "11.prems" in \<open>auto split: bool.splits\<close>)
next
  case (13 arr d n b m ms)
  obtain k s where m: "m = (k, s)" by (cases m)
  show ?case
  proof (cases s)
    case s: (HData e v)
    show ?thesis
    proof (cases "e \<and> scalar_text k")
      case e: True
      let ?c = "separator_cost n + (if arr then 0 else scalarBytes (JStr k) + 1)"
      have hd: "copy (Suc d) (b + ?c) v = Inr (x, b2) \<longleftrightarrow> strict_view v = Some x \<and> in_limits (Suc d) x \<and>
          b2 = b + ?c + scalarBytes x \<and> b2 \<le> MAX_GRAPH_BYTES" if "b + ?c \<le> MAX_GRAPH_BYTES" for x b2
        using "13.IH"(2) [OF m [symmetric] s] e that by simp
      have tl: "copy_members arr d (Suc n) b2 ms = Inr (qs, b') \<longleftrightarrow> strict_members ms = Some qs \<and>
          (\<forall>(k, x) \<in> set qs. scalar_text k \<and> in_limits (Suc d) x) \<and>
          b' = b2 + members_bytes arr (Suc n) qs \<and> b' \<le> MAX_GRAPH_BYTES"
        if "b + ?c \<le> MAX_GRAPH_BYTES" "copy (Suc d) (b + ?c) v = Inr (x, b2)" for x b2 qs
        using "13.IH"(3) [OF m [symmetric] s] e that hd [OF that(1)] by simp
      have "copy_members arr d n b (m # ms) = Inr (ps, b') \<longleftrightarrow> b + ?c \<le> MAX_GRAPH_BYTES \<and>
          (\<exists>x b2 qs. copy (Suc d) (b + ?c) v = Inr (x, b2) \<and> copy_members arr d (Suc n) b2 ms = Inr (qs, b') \<and>
             ps = (k, x) # qs)"
        using m s e by (auto simp: ebind_Inr_conv)
      also have "\<dots> \<longleftrightarrow> (\<exists>x qs. strict_view v = Some x \<and> strict_members ms = Some qs \<and> ps = (k, x) # qs \<and>
          in_limits (Suc d) x \<and> (\<forall>(k, x) \<in> set qs. scalar_text k \<and> in_limits (Suc d) x) \<and>
          b' = b + ?c + scalarBytes x + members_bytes arr (Suc n) qs \<and> b' \<le> MAX_GRAPH_BYTES)"
        (is "?L \<longleftrightarrow> ?R")
      proof
        assume ?L
        then obtain x b2 qs where l: "b + ?c \<le> MAX_GRAPH_BYTES" "copy (Suc d) (b + ?c) v = Inr (x, b2)"
          "copy_members arr d (Suc n) b2 ms = Inr (qs, b')" "ps = (k, x) # qs" by blast
        from hd [OF l(1), THEN iffD1, OF l(2)] tl [OF l(1,2), THEN iffD1, OF l(3)] l(4)
        have "strict_view v = Some x" "strict_members ms = Some qs" "ps = (k, x) # qs" "in_limits (Suc d) x"
          "\<forall>(k, x) \<in> set qs. scalar_text k \<and> in_limits (Suc d) x"
          "b' = b + ?c + scalarBytes x + members_bytes arr (Suc n) qs" "b' \<le> MAX_GRAPH_BYTES" by auto
        then show ?R by blast
      next
        assume ?R
        then obtain x qs where r: "strict_view v = Some x" "strict_members ms = Some qs" "ps = (k, x) # qs"
          "in_limits (Suc d) x" "\<forall>(k, x) \<in> set qs. scalar_text k \<and> in_limits (Suc d) x"
          "b' = b + ?c + scalarBytes x + members_bytes arr (Suc n) qs" "b' \<le> MAX_GRAPH_BYTES" by blast
        from r(6,7) have le: "b + ?c \<le> MAX_GRAPH_BYTES" by simp
        have c: "copy (Suc d) (b + ?c) v = Inr (x, b + ?c + scalarBytes x)" using hd [OF le] r by simp
        have "copy_members arr d (Suc n) (b + ?c + scalarBytes x) ms = Inr (qs, b')" using tl [OF le c] r by simp
        with le c r(3) show ?L by blast
      qed
      finally show ?thesis
        using m s e by (auto simp: bind_eq_Some_conv)
    next
      case False
      then show ?thesis
        using m s "13.IH"(4) [OF m [symmetric] s] "13.prems" by (cases e) (auto simp: bind_eq_Some_conv)
    qed
  qed (use m "13.IH" "13.prems" in \<open>auto split: bool.splits\<close>)
qed (auto simp: copy_scalar_iff items_bytes_def)

section \<open>Shared objects\<close>

text \<open>The value at a path.\<close>

definition slot_value :: "hslot \<Rightarrow> hval option" where
  "slot_value s = (case s of HData e v \<Rightarrow> Some v | _ \<Rightarrow> None)"

definition nth_slot :: "hslot list \<Rightarrow> nat \<Rightarrow> hval option" where
  "nth_slot ss i = (if i < length ss then slot_value (ss ! i) else None)"

definition member_at :: "hval \<Rightarrow> nat \<Rightarrow> hval option" where
  "member_at v i =
     (case v of
        HArr std nsym slots extras \<Rightarrow> nth_slot (slots @ map snd extras) i
      | HObj pr nsym ms \<Rightarrow> nth_slot (map snd ms) i
      | _ \<Rightarrow> None)"

fun value_at :: "hval \<Rightarrow> nat list \<Rightarrow> hval option" where
  "value_at v [] = Some v"
| "value_at v (i # p) = Option.bind (member_at v i) (\<lambda>x. value_at x p)"

definition container :: "hval \<Rightarrow> bool" where
  "container v = (case v of HArr _ _ _ _ \<Rightarrow> True | HObj _ _ _ \<Rightarrow> True | _ \<Rightarrow> False)"

text \<open>Identities fit a value when places with the same identity hold the same contents.\<close>

definition shares :: "identities \<Rightarrow> hval \<Rightarrow> bool" where
  "shares I v \<longleftrightarrow>
     (\<forall>p q x y. value_at v p = Some x \<longrightarrow> value_at v q = Some y \<longrightarrow> container x \<longrightarrow> container y \<longrightarrow> I p = I q \<longrightarrow> x = y)"

lemma unshared_shares: "shares unshared v"
  by (auto simp: shares_def unshared_def)

lemma value_at_snoc: "value_at v (p @ [i]) = Option.bind (value_at v p) (\<lambda>x. member_at x i)"
proof (induction p arbitrary: v)
  case Nil
  then show ?case by (cases "member_at v i") simp_all
next
  case (Cons k p)
  then show ?case by (cases "member_at v k") simp_all
qed

text \<open>The slots of a container from one position on, as places of the whole value.\<close>

definition placed :: "hval \<Rightarrow> nat list \<Rightarrow> nat \<Rightarrow> hslot list \<Rightarrow> bool" where
  "placed v0 p pos ss \<longleftrightarrow> (\<forall>k e v. k < length ss \<longrightarrow> ss ! k = HData e v \<longrightarrow> value_at v0 (p @ [pos + k]) = Some v)"

lemma placed_Cons:
  "placed v0 p pos (s # ss) \<longleftrightarrow> (\<forall>e v. s = HData e v \<longrightarrow> value_at v0 (p @ [pos]) = Some v) \<and> placed v0 p (Suc pos) ss"
  by (auto simp: placed_def nth_Cons' less_Suc_eq_0_disj)

lemma placed_members:
  "value_at v0 p = Some (HObj pr nsym ms) \<Longrightarrow> placed v0 p 0 (map snd ms)"
  "value_at v0 p = Some (HArr std nsym slots extras) \<Longrightarrow> placed v0 p 0 slots \<and> placed v0 p (length slots) (map snd extras)"
  by (auto simp: placed_def value_at_snoc member_at_def nth_slot_def slot_value_def nth_append)

text \<open>The height of a value, and the limits without the depth.\<close>

definition tallest :: "nat list \<Rightarrow> nat" where
  "tallest hs = foldr max hs 0"

lemma tallest_simps [simp]: "tallest [] = 0" "tallest (h # hs) = max h (tallest hs)"
  by (simp_all add: tallest_def)

lemma tallest_le: "tallest hs \<le> m \<longleftrightarrow> (\<forall>h \<in> set hs. h \<le> m)"
  by (induction hs) auto

fun jheight :: "json \<Rightarrow> nat" where
  "jheight (JArr xs) = tallest (map (\<lambda>x. Suc (jheight x)) xs)"
| "jheight (JObj ps) = tallest (map (\<lambda>(k, x). Suc (jheight x)) ps)"
| "jheight v = 0"

fun shape_ok :: "json \<Rightarrow> bool" where
  "shape_ok (JArr xs) \<longleftrightarrow> length xs \<le> MAX_ITEMS \<and> (\<forall>x \<in> set xs. shape_ok x)"
| "shape_ok (JObj ps) \<longleftrightarrow> (\<forall>(k, x) \<in> set ps. scalar_text k \<and> shape_ok x)"
| "shape_ok v \<longleftrightarrow> scalar_ok v"

lemma add_tallest_le: "d + tallest hs \<le> m \<longleftrightarrow> d \<le> m \<and> (\<forall>h \<in> set hs. d + h \<le> m)" for d :: nat
  by (induction hs) (auto simp: nat_add_max_right)

lemma in_limits_iff: "in_limits d j \<longleftrightarrow> d + jheight j \<le> MAX_DEPTH \<and> shape_ok j"
proof (induction j arbitrary: d)
  case (JObj ps)
  have "(\<forall>(k, x) \<in> set ps. scalar_text k \<and> in_limits (Suc d) x) \<longleftrightarrow>
      (\<forall>(k, x) \<in> set ps. scalar_text k \<and> Suc d + jheight x \<le> MAX_DEPTH \<and> shape_ok x)"
    using JObj by (fastforce simp: Basic_BNFs.snds.simps)
  then show ?case by (auto simp: add_tallest_le)
qed (auto simp: add_tallest_le)

lemma in_limits_at: "in_limits d j \<Longrightarrow> d' + jheight j \<le> MAX_DEPTH \<Longrightarrow> in_limits d' j"
  by (simp add: in_limits_iff)

text \<open>
  While \<open>v0\<close> is checked the identities fit it, and the map of heights holds objects of \<open>v0\<close> that are strict,
  with their heights.
\<close>

definition heights_ok :: "identities \<Rightarrow> hval \<Rightarrow> heights \<Rightarrow> bool" where
  "heights_ok I v0 H \<longleftrightarrow>
     shares I v0 \<and>
     (\<forall>i h. H i = Some h \<longrightarrow>
        (\<exists>p x j. value_at v0 p = Some x \<and> container x \<and> I p = i \<and> strict_view x = Some j \<and> shape_ok j \<and> jheight j = h))"

lemma heights_okD:
  assumes "heights_ok I v0 H" "H (I p) = Some h" "value_at v0 p = Some x" "container x"
  shows "\<exists>j. strict_view x = Some j \<and> shape_ok j \<and> jheight j = h"
  using assms unfolding heights_ok_def shares_def by metis

lemma heights_ok_upd:
  "heights_ok I v0 H \<Longrightarrow> value_at v0 p = Some x \<Longrightarrow> container x \<Longrightarrow> strict_view x = Some j \<Longrightarrow> shape_ok j \<Longrightarrow>
     heights_ok I v0 (H(I p \<mapsto> jheight j))"
  by (auto simp: heights_ok_def)

lemma known_height_Inr: "known_height d H b h = Inr (h', H', b') \<longleftrightarrow> h' = h \<and> H' = H \<and> b' = b \<and> d + h \<le> MAX_DEPTH"
  by (auto simp: known_height_def)

lemma check_scalar_Inr:
  "check_scalar d H b v = Inr (h, H', b') \<longleftrightarrow>
     h = 0 \<and> H' = H \<and> d \<le> MAX_DEPTH \<and> scalar_ok v \<and> b' = b + scalarBytes v \<and> b' \<le> MAX_GRAPH_BYTES"
  by (auto simp: check_scalar_def emap_Inr_conv)

text \<open>What the check accepts is strict and within the limits; it never charges more than the whole text.\<close>

lemma check_sound:
  "check_value I p d H b v = Inr (h, H', b') \<Longrightarrow> value_at v0 p = Some v \<Longrightarrow> heights_ok I v0 H \<Longrightarrow>
     \<exists>j. strict_view v = Some j \<and> in_limits d j \<and> h = jheight j \<and> heights_ok I v0 H' \<and> b' \<le> b + scalarBytes j"
  "check_items I p pos d n h H b ss = Inr (n', h', H', b') \<Longrightarrow> placed v0 p pos ss \<Longrightarrow> heights_ok I v0 H \<Longrightarrow>
     \<exists>xs. strict_items ss = Some xs \<and> (\<forall>x \<in> set xs. in_limits (Suc d) x) \<and> n' = n + length xs \<and>
          h' = max h (tallest (map (\<lambda>x. Suc (jheight x)) xs)) \<and> heights_ok I v0 H' \<and> b' \<le> b + items_bytes n xs"
  "check_members I p pos arr d n h H b ms = Inr (n', h', H', b') \<Longrightarrow> placed v0 p pos (map snd ms) \<Longrightarrow> heights_ok I v0 H \<Longrightarrow>
     \<exists>ps. strict_members ms = Some ps \<and> (\<forall>(k, x) \<in> set ps. scalar_text k \<and> in_limits (Suc d) x) \<and>
          n' = n + length ps \<and> h' = max h (tallest (map (\<lambda>(k, x). Suc (jheight x)) ps)) \<and> heights_ok I v0 H' \<and>
          b' \<le> b + members_bytes arr n ps"
proof (induction I p d H b v and I p pos d n h H b ss and I p pos arr d n h H b ms
    arbitrary: h H' b' and n' h' H' b' and n' h' H' b'
    rule: check_value_check_items_check_members.induct)
  case (8 I p d H b std nsym slots extras)
  then have g: "\<not> (d > MAX_DEPTH \<or> nsym \<noteq> 0)" by (auto split: if_splits)
  have con: "container (HArr std nsym slots extras)" by (simp add: container_def)
  show ?case
  proof (cases "H (I p)")
    case (Some h0)
    then have c: "h = h0" "H' = H" "b' = b" "d + h0 \<le> MAX_DEPTH" using "8.prems"(1) g by (auto simp: known_height_Inr)
    obtain j where "strict_view (HArr std nsym slots extras) = Some j" "shape_ok j" "jheight j = h0"
      using heights_okD [OF "8.prems"(3) Some "8.prems"(2) con] by blast
    with c "8.prems"(3) show ?thesis by (auto simp: in_limits_iff)
  next
    case None
    then obtain n h1 H1 b1 H2 where c: "\<not> length slots > MAX_ITEMS"
      "check_items I p 0 d 0 0 H (b + 2) slots = Inr (n, h1, H1, b1)"
      "check_members I p (length slots) True d n h1 H1 b1 extras = Inr (n, h, H2, b')"
      "n = length slots" "H' = H2(I p \<mapsto> h)"
      using "8.prems"(1) g by (auto simp: ebind_Inr_conv split: if_splits)
    note pl = placed_members(2) [OF "8.prems"(2)]
    from "8.IH"(1) [OF g None c(1,2)] pl "8.prems"(3) obtain xs where
      xs: "strict_items slots = Some xs" "\<forall>x \<in> set xs. in_limits (Suc d) x" "n = length xs"
        "h1 = tallest (map (\<lambda>x. Suc (jheight x)) xs)" "heights_ok I v0 H1" "b1 \<le> b + 2 + items_bytes 0 xs" by auto
    from "8.IH"(2) [OF g None c(1,2) refl refl refl c(3)] pl xs(5) obtain ps where
      ps: "strict_members extras = Some ps" "length ps = 0" "h = max h1 (tallest (map (\<lambda>(k, x). Suc (jheight x)) ps))"
        "heights_ok I v0 H2" "b' \<le> b1 + members_bytes True n ps" by auto
    then have ps: "strict_members extras = Some []" "h = h1" "heights_ok I v0 H2" "b' \<le> b1" by auto
    have "list_all slot_enumerable slots" "\<not> list_ex (\<lambda>(k, s). slot_enumerable s) extras"
      using strict_items_length [OF xs(1)] xs(3) c(4) ps(1) strict_members_Nil by auto
    then have v: "strict_view (HArr std nsym slots extras) = Some (JArr xs)" using g xs(1) by simp
    have l: "in_limits d (JArr xs)" using g xs(2,3) c(1,4) by simp
    have h: "h = jheight (JArr xs)" using xs(4) ps(2) by simp
    have "heights_ok I v0 H'"
      unfolding c(5) h by (rule heights_ok_upd [OF ps(3) "8.prems"(2) con v]) (use l in \<open>simp add: in_limits_iff\<close>)
    with v l h ps(4) xs(6) show ?thesis by (auto simp: scalarBytes_Arr)
  qed
next
  case (9 I p d H b pr nsym ms)
  then have g: "\<not> (d > MAX_DEPTH \<or> pr = OtherProto \<or> nsym \<noteq> 0)" by (auto split: if_splits)
  have con: "container (HObj pr nsym ms)" by (simp add: container_def)
  show ?case
  proof (cases "H (I p)")
    case (Some h0)
    then have c: "h = h0" "H' = H" "b' = b" "d + h0 \<le> MAX_DEPTH" using "9.prems"(1) g by (auto simp: known_height_Inr)
    obtain j where "strict_view (HObj pr nsym ms) = Some j" "shape_ok j" "jheight j = h0"
      using heights_okD [OF "9.prems"(3) Some "9.prems"(2) con] by blast
    with c "9.prems"(3) show ?thesis by (auto simp: in_limits_iff)
  next
    case None
    then obtain n H2 where c: "check_members I p 0 False d 0 0 H (b + 2) ms = Inr (n, h, H2, b')" "H' = H2(I p \<mapsto> h)"
      using "9.prems"(1) g by (auto simp: ebind_Inr_conv)
    from "9.IH" [OF g None c(1)] placed_members(1) [OF "9.prems"(2)] "9.prems"(3) obtain ps where
      ps: "strict_members ms = Some ps" "\<forall>(k, x) \<in> set ps. scalar_text k \<and> in_limits (Suc d) x"
        "h = tallest (map (\<lambda>(k, x). Suc (jheight x)) ps)" "heights_ok I v0 H2" "b' \<le> b + 2 + members_bytes False 0 ps"
      by auto
    then have v: "strict_view (HObj pr nsym ms) = Some (JObj ps)" and l: "in_limits d (JObj ps)" and h: "h = jheight (JObj ps)"
      using g by simp_all
    have "heights_ok I v0 H'"
      unfolding c(2) h by (rule heights_ok_upd [OF ps(4) "9.prems"(2) con v]) (use l in \<open>simp add: in_limits_iff\<close>)
    with v l h ps(5) show ?thesis by (auto simp: scalarBytes_Obj members_bytes_texts)
  qed
next
  case (11 I p pos d n h H b s ss)
  note pl = "11.prems"(2) [unfolded placed_Cons]
  show ?case
  proof (cases s)
    case s: (HData e v)
    show ?thesis
    proof (cases e)
      case e: True
      then obtain b1 h2 H2 b2 where c: "charge b (separator_cost n) = Inr b1"
        "check_value I (p @ [pos]) (Suc d) H b1 v = Inr (h2, H2, b2)"
        "check_items I p (Suc pos) d (Suc n) (max h (Suc h2)) H2 b2 ss = Inr (n', h', H', b')"
        using "11.prems" s by (auto simp: ebind_Inr_conv)
      have v: "value_at v0 (p @ [pos]) = Some v" using pl s by blast
      from "11.IH"(2) [OF s e [THEN eqTrueI] c(1,2) v "11.prems"(3)] obtain j where
        j: "strict_view v = Some j" "in_limits (Suc d) j" "h2 = jheight j" "heights_ok I v0 H2" "b2 \<le> b1 + scalarBytes j"
        by blast
      from "11.IH"(3) [OF s e [THEN eqTrueI] c(1,2) refl refl c(3) pl [THEN conjunct2] j(4)] obtain xs where
        "strict_items ss = Some xs" "\<forall>x \<in> set xs. in_limits (Suc d) x" "n' = Suc n + length xs"
        "h' = max (max h (Suc h2)) (tallest (map (\<lambda>x. Suc (jheight x)) xs))" "heights_ok I v0 H'"
        "b' \<le> b2 + items_bytes (Suc n) xs" by blast
      with j c(1) s e show ?thesis
        by (intro exI [of _ "j # xs"]) (auto simp: items_bytes_def scalarBytes_def max.assoc)
    qed (use s "11.IH"(4) [OF s] "11.prems" pl in simp)
  qed (use "11.IH" "11.prems" pl in \<open>auto split: bool.splits\<close>)
next
  case (13 I p pos arr d n h H b m ms)
  obtain k s where m: "m = (k, s)" by (cases m)
  have pl: "(\<forall>e v. s = HData e v \<longrightarrow> value_at v0 (p @ [pos]) = Some v) \<and> placed v0 p (Suc pos) (map snd ms)"
    using "13.prems"(2) by (simp add: m placed_Cons)
  show ?case
  proof (cases s)
    case s: (HData e v)
    show ?thesis
    proof (cases e)
      case e: True
      let ?c = "separator_cost n + (if arr then 0 else scalarBytes (JStr k) + 1)"
      from e obtain b1 h2 H2 b2 where c: "\<not> \<not> scalar_text k" "charge b ?c = Inr b1"
        "check_value I (p @ [pos]) (Suc d) H b1 v = Inr (h2, H2, b2)"
        "check_members I p (Suc pos) arr d (Suc n) (max h (Suc h2)) H2 b2 ms = Inr (n', h', H', b')"
        using "13.prems" s m by (auto simp: ebind_Inr_conv split: if_splits)
      have v: "value_at v0 (p @ [pos]) = Some v" using pl s by blast
      from "13.IH"(2) [OF m [symmetric] s e [THEN eqTrueI] c(1,2,3) v "13.prems"(3)] obtain j where
        j: "strict_view v = Some j" "in_limits (Suc d) j" "h2 = jheight j" "heights_ok I v0 H2" "b2 \<le> b1 + scalarBytes j"
        by blast
      from "13.IH"(3) [OF m [symmetric] s e [THEN eqTrueI] c(1,2,3) refl refl c(4) pl [THEN conjunct2] j(4)] obtain ps where
        "strict_members ms = Some ps" "\<forall>(k, x) \<in> set ps. scalar_text k \<and> in_limits (Suc d) x" "n' = Suc n + length ps"
        "h' = max (max h (Suc h2)) (tallest (map (\<lambda>(k, x). Suc (jheight x)) ps))" "heights_ok I v0 H'"
        "b' \<le> b2 + members_bytes arr (Suc n) ps" by blast
      with j c(1,2) s e m show ?thesis
        by (intro exI [of _ "(k, j) # ps"]) (auto simp: max.assoc)
    qed (use m s "13.IH"(4) [OF m [symmetric] s] "13.prems" pl in simp)
  qed (use m "13.IH" "13.prems" pl in \<open>auto split: bool.splits\<close>)
qed (auto simp: check_scalar_Inr items_bytes_def)

text \<open>Conversely it accepts every strict value within the limits whose whole text still fits.\<close>

lemma skip_extras:
  "\<not> list_ex (\<lambda>(k, s). slot_enumerable s) ms \<Longrightarrow> check_members I p pos arr d n h H b ms = Inr (n, h, H, b)"
proof (induction ms arbitrary: pos)
  case (Cons m ms)
  obtain k t where "m = (k, t)" by (cases m)
  with Cons show ?case by (cases t) auto
qed simp

lemma check_complete:
  "strict_view v = Some j \<Longrightarrow> in_limits d j \<Longrightarrow> b + scalarBytes j \<le> MAX_GRAPH_BYTES \<Longrightarrow>
     value_at v0 p = Some v \<Longrightarrow> heights_ok I v0 H \<Longrightarrow>
     \<exists>h H' b'. check_value I p d H b v = Inr (h, H', b') \<and> b' \<le> b + scalarBytes j"
  "strict_items ss = Some xs \<Longrightarrow> \<forall>x \<in> set xs. in_limits (Suc d) x \<Longrightarrow> b + items_bytes n xs \<le> MAX_GRAPH_BYTES \<Longrightarrow>
     placed v0 p pos ss \<Longrightarrow> heights_ok I v0 H \<Longrightarrow>
     \<exists>h' H' b'. check_items I p pos d n h H b ss = Inr (n + length xs, h', H', b') \<and> b' \<le> b + items_bytes n xs"
  "strict_members ms = Some ps \<Longrightarrow> \<forall>(k, x) \<in> set ps. scalar_text k \<and> in_limits (Suc d) x \<Longrightarrow>
     b + members_bytes arr n ps \<le> MAX_GRAPH_BYTES \<Longrightarrow> placed v0 p pos (map snd ms) \<Longrightarrow> heights_ok I v0 H \<Longrightarrow>
     \<exists>h' H' b'. check_members I p pos arr d n h H b ms = Inr (n + length ps, h', H', b') \<and> b' \<le> b + members_bytes arr n ps"
proof (induction v and ss and ms arbitrary: j d b p H and xs d b p pos n h H and ps d b p pos arr n h H
    rule: strict_view_strict_items_strict_members.induct)
  case (5 std nsym slots extras)
  then obtain xs where xs: "strict_items slots = Some xs" "j = JArr xs" "nsym = 0" "list_all slot_enumerable slots"
    "\<not> list_ex (\<lambda>(k, s). slot_enumerable s) extras" by (auto split: if_splits)
  have l: "length xs = length slots" using strict_items_length [OF xs(1)] xs(4) by simp
  have con: "container (HArr std nsym slots extras)" by (simp add: container_def)
  show ?case
  proof (cases "H (I p)")
    case (Some h0)
    then have "jheight j = h0" using heights_okD [OF "5.prems"(5) Some "5.prems"(4) con] "5.prems"(1) by simp
    then show ?thesis using "5.prems"(2) xs(2,3) Some by (auto simp: known_height_def in_limits_iff)
  next
    case None
    obtain h1 H1 b1 where "check_items I p 0 d 0 0 H (b + 2) slots = Inr (length xs, h1, H1, b1)" "b1 \<le> b + scalarBytes j"
      using "5.IH" [of xs d "b + 2" 0 p 0 H 0] "5.prems" xs placed_members(2) [OF "5.prems"(4)]
      by (fastforce simp: scalarBytes_Arr)
    then show ?thesis using None xs l "5.prems"(2) skip_extras [OF xs(5)] by simp
  qed
next
  case (6 pr nsym ms)
  then obtain ps where ps: "strict_members ms = Some ps" "j = JObj ps" "pr \<noteq> OtherProto" "nsym = 0"
    by (auto split: if_splits)
  have con: "container (HObj pr nsym ms)" by (simp add: container_def)
  show ?case
  proof (cases "H (I p)")
    case (Some h0)
    then have "jheight j = h0" using heights_okD [OF "6.prems"(5) Some "6.prems"(4) con] "6.prems"(1) by simp
    then show ?thesis using "6.prems"(2) ps(2,3,4) Some by (auto simp: known_height_def in_limits_iff)
  next
    case None
    obtain h1 H1 b1 where "check_members I p 0 False d 0 0 H (b + 2) ms = Inr (length ps, h1, H1, b1)" "b1 \<le> b + scalarBytes j"
      using "6.IH" [of ps d "b + 2" False 0 p 0 H 0] "6.prems" ps placed_members(1) [OF "6.prems"(4)]
      by (fastforce simp: scalarBytes_Obj members_bytes_texts)
    then show ?thesis using None ps "6.prems"(2) by simp
  qed
next
  case (9 s ss)
  note pl = "9.prems"(4) [unfolded placed_Cons]
  show ?case
  proof (cases s)
    case s: (HData e v)
    show ?thesis
    proof (cases e)
      case e: True
      from "9.prems" s e obtain x ys where x: "strict_view v = Some x" "strict_items ss = Some ys" "xs = x # ys"
        by (auto simp: bind_eq_Some_conv)
      have v: "value_at v0 (p @ [pos]) = Some v" using pl s by blast
      have lim: "in_limits (Suc d) x" "\<forall>x \<in> set ys. in_limits (Suc d) x" using "9.prems"(2) x(3) by auto
      have m: "b + separator_cost n + scalarBytes x + items_bytes (Suc n) ys \<le> MAX_GRAPH_BYTES"
        using "9.prems"(3) x(3) by (simp add: items_bytes_def scalarBytes_def)
      obtain h2 H2 b2 where c: "check_value I (p @ [pos]) (Suc d) H (b + separator_cost n) v = Inr (h2, H2, b2)"
        "b2 \<le> b + separator_cost n + scalarBytes x"
        using "9.IH"(2) [OF s e [THEN eqTrueI] x(1) lim(1) _ v "9.prems"(5), of "b + separator_cost n"] m by fastforce
      have ok: "heights_ok I v0 H2" using check_sound(1) [OF c(1) v "9.prems"(5)] by blast
      have "b2 + items_bytes (Suc n) ys \<le> MAX_GRAPH_BYTES" using m c(2) by simp
      then obtain h3 H3 b3 where "check_items I p (Suc pos) d (Suc n) (max h (Suc h2)) H2 b2 ss = Inr (Suc n + length ys, h3, H3, b3)"
        "b3 \<le> b2 + items_bytes (Suc n) ys"
        using "9.IH"(3) [OF s e [THEN eqTrueI] x(1) x(2) lim(2) _ pl [THEN conjunct2] ok] by blast
      with c m s e x show ?thesis by (auto simp: charge_def items_bytes_def scalarBytes_def)
    qed (use s "9.IH"(4) [OF s] "9.prems" pl in simp)
  qed (use "9.IH" "9.prems" pl in \<open>auto split: bool.splits\<close>)
next
  case (11 q qs)
  obtain k s where q: "q = (k, s)" by (cases q)
  have pl: "(\<forall>e v. s = HData e v \<longrightarrow> value_at v0 (p @ [pos]) = Some v) \<and> placed v0 p (Suc pos) (map snd qs)"
    using "11.prems"(4) by (simp add: q placed_Cons)
  show ?case
  proof (cases s)
    case s: (HData e v)
    show ?thesis
    proof (cases e)
      case e: True
      from "11.prems" q s e obtain x ys where x: "strict_view v = Some x" "strict_members qs = Some ys" "ps = (k, x) # ys"
        by (auto simp: bind_eq_Some_conv)
      let ?c = "separator_cost n + (if arr then 0 else scalarBytes (JStr k) + 1)"
      have v: "value_at v0 (p @ [pos]) = Some v" using pl s by blast
      have lim: "scalar_text k" "in_limits (Suc d) x" "\<forall>(k, x) \<in> set ys. scalar_text k \<and> in_limits (Suc d) x"
        using "11.prems"(2) x(3) by auto
      have m: "b + ?c + scalarBytes x + members_bytes arr (Suc n) ys \<le> MAX_GRAPH_BYTES"
        using "11.prems"(3) x(3) by simp
      obtain h2 H2 b2 where c: "check_value I (p @ [pos]) (Suc d) H (b + ?c) v = Inr (h2, H2, b2)"
        "b2 \<le> b + ?c + scalarBytes x"
        using "11.IH"(2) [OF q [symmetric] s e [THEN eqTrueI] x(1) lim(2) _ v "11.prems"(5), of "b + ?c"] m by fastforce
      have ok: "heights_ok I v0 H2" using check_sound(1) [OF c(1) v "11.prems"(5)] by blast
      have "b2 + members_bytes arr (Suc n) ys \<le> MAX_GRAPH_BYTES" using m c(2) by simp
      then obtain h3 H3 b3 where
        "check_members I p (Suc pos) arr d (Suc n) (max h (Suc h2)) H2 b2 qs = Inr (Suc n + length ys, h3, H3, b3)"
        "b3 \<le> b2 + members_bytes arr (Suc n) ys"
        using "11.IH"(3) [OF q [symmetric] s e [THEN eqTrueI] x(1) x(2) lim(3) _ pl [THEN conjunct2] ok] by blast
      with c m s e x q lim show ?thesis by (auto simp: charge_def)
    qed (use q s "11.IH"(4) [OF q [symmetric] s] "11.prems" pl in simp)
  qed (use q "11.IH" "11.prems" pl in \<open>auto split: bool.splits\<close>)
qed (auto simp: check_scalar_Inr items_bytes_def)

text \<open>Without sharing every object is charged, so the meter reads the bytes of the whole text.\<close>

definition below :: "nat list \<Rightarrow> nat list set" where
  "below p = {q. \<exists>r. q = p @ r}"

definition beyond :: "nat list \<Rightarrow> nat \<Rightarrow> nat list set" where
  "beyond p pos = {q. \<exists>k r. pos \<le> k \<and> q = p @ k # r}"

lemma below_beyond:
  "beyond p pos \<subseteq> below p" "below (p @ [pos]) \<subseteq> beyond p pos" "beyond p (Suc pos) \<subseteq> beyond p pos"
  "below (p @ [pos]) \<inter> beyond p (Suc pos) = {}" "p \<in> below p"
  by (auto simp: below_def beyond_def)

lemma members_idle:
  "check_members I p pos arr d n h H b ms = Inr (n', h', H', b') \<Longrightarrow>
     n \<le> n' \<and> (n' = n \<longrightarrow> \<not> list_ex (\<lambda>(k, s). slot_enumerable s) ms \<and> H' = H \<and> b' = b)"
proof (induction ms arbitrary: pos n h H b)
  case (Cons m ms)
  obtain k s where m: "m = (k, s)" by (cases m)
  show ?case
  proof (cases s)
    case s: (HData e v)
    show ?thesis
    proof (cases e)
      case True
      then obtain n1 h1 H1 b1 where "check_members I p (Suc pos) arr d (Suc n) h1 H1 b1 ms = Inr (n', h', H', b')"
        using Cons.prems s m by (auto simp: ebind_Inr_conv split: if_splits)
      then have "Suc n \<le> n'" using Cons.IH by blast
      then show ?thesis by simp
    qed (use Cons.prems Cons.IH [of "Suc pos" n h H b] m s in auto)
  qed (use Cons.prems Cons.IH [of "Suc pos" n h H b] m in \<open>auto split: bool.splits\<close>)
qed simp

lemma check_unshared:
  "check_value I p d H b v = Inr (h, H', b') \<Longrightarrow> I = unshared \<Longrightarrow> dom H \<inter> below p = {} \<Longrightarrow>
     \<exists>j. strict_view v = Some j \<and> b' = b + scalarBytes j \<and> dom H' \<subseteq> dom H \<union> below p"
  "check_items I p pos d n h H b ss = Inr (n', h', H', b') \<Longrightarrow> I = unshared \<Longrightarrow> dom H \<inter> beyond p pos = {} \<Longrightarrow>
     \<exists>xs. strict_items ss = Some xs \<and> n' = n + length xs \<and> b' = b + items_bytes n xs \<and> dom H' \<subseteq> dom H \<union> beyond p pos"
  "check_members I p pos arr d n h H b ms = Inr (n', h', H', b') \<Longrightarrow> I = unshared \<Longrightarrow> dom H \<inter> beyond p pos = {} \<Longrightarrow>
     \<exists>ps. strict_members ms = Some ps \<and> n' = n + length ps \<and> b' = b + members_bytes arr n ps \<and> dom H' \<subseteq> dom H \<union> beyond p pos"
proof (induction I p d H b v and I p pos d n h H b ss and I p pos arr d n h H b ms
    arbitrary: h H' b' and n' h' H' b' and n' h' H' b'
    rule: check_value_check_items_check_members.induct)
  case (8 I p d H b std nsym slots extras)
  then have g: "\<not> (d > MAX_DEPTH \<or> nsym \<noteq> 0)" by (auto split: if_splits)
  have None: "H (I p) = None" using "8.prems"(2,3) below_beyond(5) [of p] by (auto simp: unshared_def)
  then obtain n h1 H1 b1 H2 where c: "\<not> length slots > MAX_ITEMS"
    "check_items I p 0 d 0 0 H (b + 2) slots = Inr (n, h1, H1, b1)"
    "check_members I p (length slots) True d n h1 H1 b1 extras = Inr (n, h, H2, b')"
    "n = length slots" "H' = H2(I p \<mapsto> h)"
    using "8.prems"(1) g by (auto simp: ebind_Inr_conv split: if_splits)
  have "dom H \<inter> beyond p 0 = {}" using "8.prems"(3) below_beyond(1) by blast
  from "8.IH"(1) [OF g None c(1,2) "8.prems"(2) this] obtain xs where
    xs: "strict_items slots = Some xs" "n = length xs" "b1 = b + 2 + items_bytes 0 xs" "dom H1 \<subseteq> dom H \<union> beyond p 0" by auto
  from members_idle [OF c(3)] have e: "\<not> list_ex (\<lambda>(k, s). slot_enumerable s) extras" "H2 = H1" "b' = b1" by auto
  have "list_all slot_enumerable slots" using strict_items_length [OF xs(1)] xs(2) c(4) by simp
  moreover have "dom H' \<subseteq> dom H \<union> below p"
    using xs(4) below_beyond(1) [of p 0] below_beyond(5) [of p] by (auto simp: c(5) e(2) "8.prems"(2) unshared_def)
  ultimately show ?case using g xs(1,3) e by (auto simp: scalarBytes_Arr)
next
  case (9 I p d H b pr nsym ms)
  then have g: "\<not> (d > MAX_DEPTH \<or> pr = OtherProto \<or> nsym \<noteq> 0)" by (auto split: if_splits)
  have None: "H (I p) = None" using "9.prems"(2,3) below_beyond(5) [of p] by (auto simp: unshared_def)
  then obtain n H2 where c: "check_members I p 0 False d 0 0 H (b + 2) ms = Inr (n, h, H2, b')" "H' = H2(I p \<mapsto> h)"
    using "9.prems"(1) g by (auto simp: ebind_Inr_conv)
  have "dom H \<inter> beyond p 0 = {}" using "9.prems"(3) below_beyond(1) by blast
  from "9.IH" [OF g None c(1) "9.prems"(2) this] obtain ps where
    ps: "strict_members ms = Some ps" "b' = b + 2 + members_bytes False 0 ps" "dom H2 \<subseteq> dom H \<union> beyond p 0" by auto
  have "dom H' \<subseteq> dom H \<union> below p"
    using ps(3) below_beyond(1) [of p 0] below_beyond(5) [of p] by (auto simp: c(2) "9.prems"(2) unshared_def)
  with g ps show ?case by (auto simp: scalarBytes_Obj members_bytes_texts)
next
  case (11 I p pos d n h H b s ss)
  have skip: "dom H \<inter> beyond p (Suc pos) = {}" using "11.prems"(3) below_beyond(3) by blast
  have widen: ?case
    if "\<exists>xs. strict_items ss = Some xs \<and> n' = n + length xs \<and> b' = b + items_bytes n xs \<and> dom H' \<subseteq> dom H \<union> beyond p (Suc pos)"
      "strict_items (s # ss) = strict_items ss"
    using that below_beyond(3) [of p pos] by fastforce
  show ?case
  proof (cases s)
    case s: (HData e v)
    show ?thesis
    proof (cases e)
      case e: True
      then obtain b1 h2 H2 b2 where c: "charge b (separator_cost n) = Inr b1"
        "check_value I (p @ [pos]) (Suc d) H b1 v = Inr (h2, H2, b2)"
        "check_items I p (Suc pos) d (Suc n) (max h (Suc h2)) H2 b2 ss = Inr (n', h', H', b')"
        using "11.prems" s by (auto simp: ebind_Inr_conv)
      have "dom H \<inter> below (p @ [pos]) = {}" using "11.prems"(3) below_beyond(2) by blast
      from "11.IH"(2) [OF s e [THEN eqTrueI] c(1,2) "11.prems"(2) this] obtain j where
        j: "strict_view v = Some j" "b2 = b1 + scalarBytes j" "dom H2 \<subseteq> dom H \<union> below (p @ [pos])" by blast
      have "dom H2 \<inter> beyond p (Suc pos) = {}" using j(3) skip below_beyond(4) [of p pos] by blast
      from "11.IH"(3) [OF s e [THEN eqTrueI] c(1,2) refl refl c(3) "11.prems"(2) this] obtain xs where
        xs: "strict_items ss = Some xs" "n' = Suc n + length xs" "b' = b2 + items_bytes (Suc n) xs"
          "dom H' \<subseteq> dom H2 \<union> beyond p (Suc pos)" by blast
      have "dom H' \<subseteq> dom H \<union> beyond p pos" using j(3) xs(4) below_beyond(2,3) by blast
      with j xs c(1) s e show ?thesis
        by (intro exI [of _ "j # xs"]) (auto simp: items_bytes_def scalarBytes_def)
    next
      case False
      then have "check_items I p (Suc pos) d n h H b ss = Inr (n', h', H', b')" using s "11.prems"(1) by simp
      from "11.IH"(4) [OF s _ this "11.prems"(2) skip] False s show ?thesis by (intro widen) simp_all
    qed
  next
    case (HAccessor e w)
    show ?thesis
    proof (cases e)
      case False
      then have "check_items I p (Suc pos) d n h H b ss = Inr (n', h', H', b')" using HAccessor "11.prems"(1) by simp
      from "11.IH"(5) [OF HAccessor _ this "11.prems"(2) skip] False HAccessor show ?thesis by (intro widen) simp_all
    qed (use "11.prems"(1) HAccessor in simp)
  next
    case HHole
    then have "check_items I p (Suc pos) d n h H b ss = Inr (n', h', H', b')" using "11.prems"(1) by simp
    from "11.IH"(1) [OF HHole this "11.prems"(2) skip] HHole show ?thesis by (intro widen) simp_all
  qed
next
  case (13 I p pos arr d n h H b m ms)
  obtain k s where m: "m = (k, s)" by (cases m)
  have skip: "dom H \<inter> beyond p (Suc pos) = {}" using "13.prems"(3) below_beyond(3) by blast
  have widen: ?case
    if "\<exists>ps. strict_members ms = Some ps \<and> n' = n + length ps \<and> b' = b + members_bytes arr n ps \<and>
          dom H' \<subseteq> dom H \<union> beyond p (Suc pos)"
      "strict_members (m # ms) = strict_members ms"
    using that below_beyond(3) [of p pos] by fastforce
  show ?case
  proof (cases s)
    case s: (HData e v)
    show ?thesis
    proof (cases e)
      case e: True
      let ?c = "separator_cost n + (if arr then 0 else scalarBytes (JStr k) + 1)"
      from e obtain b1 h2 H2 b2 where c: "\<not> \<not> scalar_text k" "charge b ?c = Inr b1"
        "check_value I (p @ [pos]) (Suc d) H b1 v = Inr (h2, H2, b2)"
        "check_members I p (Suc pos) arr d (Suc n) (max h (Suc h2)) H2 b2 ms = Inr (n', h', H', b')"
        using "13.prems" s m by (auto simp: ebind_Inr_conv split: if_splits)
      have "dom H \<inter> below (p @ [pos]) = {}" using "13.prems"(3) below_beyond(2) by blast
      from "13.IH"(2) [OF m [symmetric] s e [THEN eqTrueI] c(1,2,3) "13.prems"(2) this] obtain j where
        j: "strict_view v = Some j" "b2 = b1 + scalarBytes j" "dom H2 \<subseteq> dom H \<union> below (p @ [pos])" by blast
      have "dom H2 \<inter> beyond p (Suc pos) = {}" using j(3) skip below_beyond(4) [of p pos] by blast
      from "13.IH"(3) [OF m [symmetric] s e [THEN eqTrueI] c(1,2,3) refl refl c(4) "13.prems"(2) this] obtain ps where
        ps: "strict_members ms = Some ps" "n' = Suc n + length ps" "b' = b2 + members_bytes arr (Suc n) ps"
          "dom H' \<subseteq> dom H2 \<union> beyond p (Suc pos)" by blast
      have "dom H' \<subseteq> dom H \<union> beyond p pos" using j(3) ps(4) below_beyond(2,3) by blast
      with j ps c(1,2) s e m show ?thesis by (intro exI [of _ "(k, j) # ps"]) auto
    next
      case False
      then have "check_members I p (Suc pos) arr d n h H b ms = Inr (n', h', H', b')" using s m "13.prems"(1) by simp
      from "13.IH"(4) [OF m [symmetric] s _ this "13.prems"(2) skip] False s m show ?thesis by (intro widen) simp_all
    qed
  next
    case (HAccessor e w)
    show ?thesis
    proof (cases e)
      case False
      then have "check_members I p (Suc pos) arr d n h H b ms = Inr (n', h', H', b')" using HAccessor m "13.prems"(1) by simp
      from "13.IH"(5) [OF m [symmetric] HAccessor _ this "13.prems"(2) skip] False HAccessor m
      show ?thesis by (intro widen) simp_all
    qed (use "13.prems"(1) HAccessor m in simp)
  next
    case HHole
    then have "check_members I p (Suc pos) arr d n h H b ms = Inr (n', h', H', b')" using m "13.prems"(1) by simp
    from "13.IH"(1) [OF m [symmetric] HHole this "13.prems"(2) skip] HHole m show ?thesis by (intro widen) simp_all
  qed
qed (auto simp: check_scalar_Inr items_bytes_def)

section \<open>The three entry points\<close>

lemma encode_strict:
  "strict_view v = Some j \<Longrightarrow> encode_text v = canon j"
  "strict_items ss = Some xs \<Longrightarrow> list_all slot_enumerable ss \<Longrightarrow> encode_slots ss = map canon xs"
  "strict_members ms = Some ps \<Longrightarrow> encode_keys ms = members_text ps"
proof (induction v and ss and ms arbitrary: j and xs and ps rule: strict_view_strict_items_strict_members.induct)
  case (9 s ss)
  then show ?case by (cases s) (auto simp: bind_eq_Some_conv split: bool.splits)
next
  case (11 q qs)
  obtain k s where q: "q = (k, s)" by (cases q)
  show ?case
  proof (cases s)
    case s: (HData e v)
    with 11 q show ?thesis by (cases e) (auto simp: bind_eq_Some_conv members_text_def)
  qed (use 11 q in \<open>auto split: bool.splits\<close>)
qed (auto split: if_splits simp: canon_Obj members_text_def)

theorem copyJson_iff:
  "copyJson v = Inr j \<longleftrightarrow> strict_view v = Some j \<and> in_limits 0 j \<and> byte_length (canon j) \<le> MAX_GRAPH_BYTES"
  using copy_iff(1) [of 0 0 v j] by (auto simp: copyJson_def emap_Inr_conv scalarBytes_def)

lemma heights_ok_start: "shares I v \<Longrightarrow> heights_ok I v (\<lambda>_. None)"
  by (simp add: heights_ok_def)

lemma assertStrictJson_Inr:
  "assertStrictJson I v = Inr w \<longleftrightarrow> w = v \<and> (\<exists>h H b. check_value I [] 0 (\<lambda>_. None) 0 v = Inr (h, H, b) \<and> b \<le> MAX_GRAPH_BYTES)"
  by (cases "check_value I [] 0 (\<lambda>_. None) 0 v") (auto simp: assertStrictJson_def split: if_splits)

text \<open>However objects are shared: what the check accepts obeys the rules of the copy, up to the length of the text.\<close>

theorem assertStrictJson_sound:
  assumes "shares I v" "assertStrictJson I v = Inr w"
  shows "w = v \<and> (\<exists>j. strict_view v = Some j \<and> in_limits 0 j)"
  using assms(2) check_sound(1) [of I "[]" 0 "\<lambda>_. None" 0 v, OF _ _ heights_ok_start [OF assms(1)]]
  by (fastforce simp: assertStrictJson_Inr)

text \<open>And it accepts all that the copy accepts.\<close>

theorem assertStrictJson_complete:
  assumes "shares I v" "copyJson v = Inr j"
  shows "assertStrictJson I v = Inr v"
proof -
  have j: "strict_view v = Some j" "in_limits 0 j" "0 + scalarBytes j \<le> MAX_GRAPH_BYTES"
    using assms(2) by (simp_all add: copyJson_iff scalarBytes_def)
  have "value_at v [] = Some v" by simp
  from check_complete(1) [OF j this heights_ok_start [OF assms(1)]] j(3) show ?thesis
    by (fastforce simp: assertStrictJson_Inr)
qed

text \<open>Without sharing the two agree.\<close>

theorem assertStrictJson_iff: "assertStrictJson unshared v = Inr w \<longleftrightarrow> w = v \<and> (\<exists>j. copyJson v = Inr j)"
proof
  assume a: "assertStrictJson unshared v = Inr w"
  then obtain h H b where c: "check_value unshared [] 0 (\<lambda>_. None) 0 v = Inr (h, H, b)" "b \<le> MAX_GRAPH_BYTES"
    by (auto simp: assertStrictJson_Inr)
  obtain j where j: "strict_view v = Some j" "in_limits 0 j"
    using assertStrictJson_sound [OF unshared_shares a] by blast
  have "b = scalarBytes j" using check_unshared(1) [OF c(1) refl] j(1) by auto
  then show "w = v \<and> (\<exists>j. copyJson v = Inr j)"
    using a c(2) j by (auto simp: assertStrictJson_Inr copyJson_iff scalarBytes_def)
qed (auto simp: assertStrictJson_complete unshared_shares)

text \<open>The text written is the canonical text of the value, shared objects written out on every path.\<close>

theorem canonicalJson_text:
  assumes "shares I v" "canonicalJson I v = Inr t"
  shows "\<exists>j. strict_view v = Some j \<and> in_limits 0 j \<and> t = canon j"
proof -
  obtain w where w: "assertStrictJson I v = Inr w" "t = encode_text w"
    using assms(2) by (auto simp: canonicalJson_def emap_Inr_conv)
  from assertStrictJson_sound [OF assms(1) w(1)] w(2) show ?thesis using encode_strict(1) by blast
qed

lemma assertStrictJson_accepts:
  assumes "shares I v" "assertStrictJson I v = Inr w"
  shows "w = v \<and> (\<exists>j. strict_view v = Some j \<and> in_limits 0 j \<and> canonicalJson I v = Inr (canon j))"
  using assertStrictJson_sound [OF assms] assms(2) encode_strict(1) [of v] by (auto simp: canonicalJson_def)

theorem canonicalJson_of_copy:
  assumes "shares I v" "copyJson v = Inr j"
  shows "canonicalJson I v = Inr (canon j)"
proof -
  have "strict_view v = Some j" using assms(2) by (simp add: copyJson_iff)
  then show ?thesis
    using assertStrictJson_complete [OF assms] encode_strict(1) by (simp add: canonicalJson_def)
qed

theorem canonicalJson_iff: "canonicalJson unshared v = Inr t \<longleftrightarrow> (\<exists>j. copyJson v = Inr j \<and> t = canon j)"
proof
  assume a: "canonicalJson unshared v = Inr t"
  then obtain w where w: "assertStrictJson unshared v = Inr w" "t = encode_text w"
    by (auto simp: canonicalJson_def emap_Inr_conv)
  then show "\<exists>j. copyJson v = Inr j \<and> t = canon j"
    using encode_strict(1) by (auto simp: assertStrictJson_iff copyJson_iff)
qed (auto simp: canonicalJson_of_copy unshared_shares)

text \<open>A copy is itself strict: copying it again gives the same value, and its text is the same.\<close>

lemma strict_view_hval_of [simp]: "strict_view (hval_of j) = Some j"
proof (induction j)
  case (JArr xs)
  then have "strict_items (map (\<lambda>x. HData True (hval_of x)) xs) = Some xs"
    by (induction xs) auto
  then show ?case by (simp add: list_all_iff)
next
  case (JObj ps)
  then have "\<forall>(k, x) \<in> set ps. strict_view (hval_of x) = Some x"
    by (fastforce simp: Basic_BNFs.snds.simps)
  then have "strict_members (map (\<lambda>(k, x). (k, HData True (hval_of x))) ps) = Some ps"
    by (induction ps) auto
  then show ?case by simp
qed auto

lemma copyJson_again: "copyJson v = Inr j \<Longrightarrow> copyJson (hval_of j) = Inr j"
  by (simp add: copyJson_iff)

section \<open>The order of identifiers\<close>

lemma compare_bytes_sign:
  "(compare_bytes xs ys < 0 \<longleftrightarrow> xs < ys) \<and> (compare_bytes xs ys = 0 \<longleftrightarrow> xs = ys)"
proof -
  have "[] < zs \<longleftrightarrow> zs \<noteq> []" for zs :: "byte list" by (cases zs) auto
  then show ?thesis
    by (induction xs ys rule: compare_bytes.induct) (auto simp: word_less_def word_uint_eq_iff)
qed

theorem compareUtf8_order:
  "compareUtf8 left right < 0 \<longleftrightarrow> utf8_encode left < utf8_encode right"
  "wf_utf16 left \<Longrightarrow> wf_utf16 right \<Longrightarrow> compareUtf8 left right = 0 \<longleftrightarrow> left = right"
  by (simp_all add: compareUtf8_def compare_bytes_sign utf8_encode_inject)

section \<open>A shared value the copy refuses\<close>

text \<open>
  Three hundred references to one array with a string of a mebibyte: the check charges the array once and
  accepts; the text, and so the copy, exceeds the limit of 256 mebibytes.
\<close>

definition d_long :: jstring where
  "d_long = replicate MAX_STRING_BYTES 0x61"

definition d_part :: hval where
  "d_part = HArr True 0 [HData True (HStr d_long)] []"

definition d_shared :: hval where
  "d_shared = HArr True 0 (replicate 300 (HData True d_part)) []"

definition one_part :: identities where
  "one_part p = (case p of [] \<Rightarrow> [] | i # r \<Rightarrow> 0 # r)"

lemma letters:
  "byte_length (replicate n 0x61 @ t) = n + byte_length t" "scalar_units True (replicate n 0x61)"
  "quote_units (replicate n 0x61) = replicate n 0x61"
proof -
  have a: "\<not> is_high 0x61" "\<not> is_low 0x61" "quote_unit 0x61 = [0x61]"
    by (simp_all add: is_high_def is_low_def quote_unit_def)
  show "byte_length (replicate n 0x61 @ t) = n + byte_length t"
    by (induction n) (simp_all add: byte_length_Cons_ascii)
  show "scalar_units True (replicate n 0x61)" by (induction n) (simp_all add: a)
  show "quote_units (replicate n 0x61) = replicate n 0x61" by (induction n) (simp_all add: quote_units_Bmp a del: quote_units.simps(2))
qed

lemma d_long_bytes: "scalarBytes (JStr d_long) = MAX_STRING_BYTES + 2" "scalar_text d_long"
proof -
  have "byte_length (0x22 # replicate MAX_STRING_BYTES 0x61 @ [0x22]) = MAX_STRING_BYTES + 2"
    by (simp add: byte_length_Cons_ascii letters)
  then show "scalarBytes (JStr d_long) = MAX_STRING_BYTES + 2"
    by (simp add: scalarBytes_def d_long_def json_quote_def letters)
  show "scalar_text d_long"
    using letters(1) [of MAX_STRING_BYTES "[]"] by (simp add: scalar_text_def scalarString_def d_long_def letters)
qed

lemma d_part_check:
  assumes "H (I p) = None" "d < MAX_DEPTH" "b + 2 + (MAX_STRING_BYTES + 2) \<le> MAX_GRAPH_BYTES"
  shows "check_value I p d H b d_part = Inr (1, H(I p \<mapsto> 1), b + 2 + (MAX_STRING_BYTES + 2))"
  using assms d_long_bytes
  by (simp add: d_part_def check_scalar_def scalar_ok_def charge_def separator_cost_def MAX_ITEMS_def)

lemma d_part_again: "H (I p) = Some 1 \<Longrightarrow> d < MAX_DEPTH \<Longrightarrow> check_value I p d H b d_part = Inr (1, H, b)"
  by (simp add: d_part_def known_height_def)

lemma d_parts_again:
  assumes "\<And>k. H (I [k]) = Some 1" "0 < n" "b + m \<le> MAX_GRAPH_BYTES"
  shows "check_items I [] pos 0 n 2 H b (replicate m (HData True d_part)) = Inr (n + m, 2, H, b + m)"
  using assms(2,3)
proof (induction m arbitrary: pos n b)
  case (Suc m)
  have "check_value I [pos] 1 H (b + 1) d_part = Inr (1, H, b + 1)"
    by (rule d_part_again) (use assms(1) in \<open>simp_all add: MAX_DEPTH_def\<close>)
  then show ?case using Suc.IH [of "Suc n" "b + 1" "Suc pos"] Suc.prems
    by (simp add: charge_def separator_cost_def numeral_2_eq_2)
qed simp

lemma d_shared_fits: "shares one_part d_shared"
proof -
  have m: "member_at d_shared i = (if i < 300 then Some d_part else None)" for i
    by (simp add: d_shared_def member_at_def nth_slot_def slot_value_def)
  have at: "p = [] \<and> x = d_shared \<or> (\<exists>i. p = [i] \<and> x = d_part)" if "value_at d_shared p = Some x" "container x" for p x
  proof (cases p)
    case (Cons i r)
    then have x: "value_at d_part r = Some x" using that by (auto simp: m split: if_splits)
    show ?thesis
    proof (cases r)
      case c: (Cons k r')
      then have "value_at (HStr d_long) r' = Some x"
        using x by (auto simp: d_part_def member_at_def nth_slot_def slot_value_def split: if_splits)
      then show ?thesis using that(2) by (cases r') (auto simp: container_def member_at_def)
    qed (use x Cons in simp)
  qed (use that in simp)
  have "x = y" if "value_at d_shared p = Some x" "value_at d_shared q = Some y" "container x" "container y"
    "one_part p = one_part q" for p q x y
    using at [OF that(1,3)] at [OF that(2,4)] that(5) by (elim disjE exE conjE) (simp_all add: one_part_def)
  then show ?thesis unfolding shares_def by blast
qed

theorem shared_check_only: "assertStrictJson one_part d_shared = Inr d_shared" "\<nexists>j. copyJson d_shared = Inr j"
proof -
  define L where "L = MAX_STRING_BYTES + 2"
  have lim: "2 + 2 + L + 299 \<le> MAX_GRAPH_BYTES" "0 < MAX_DEPTH" "1 < MAX_DEPTH"
    by (simp_all add: L_def MAX_STRING_BYTES_def MAX_GRAPH_BYTES_def MAX_DEPTH_def)
  let ?H = "(\<lambda>_. None)(one_part [0] \<mapsto> 1) :: heights"
  have first: "check_value one_part [0] 1 (\<lambda>_. None) 2 d_part = Inr (1, ?H, 2 + 2 + L)"
    using d_part_check [of "\<lambda>_. None" one_part "[0]" 1 2] lim by (simp add: L_def)
  have rest: "check_items one_part [] 1 0 1 2 ?H (2 + 2 + L) (replicate 299 (HData True d_part)) = Inr (1 + 299, 2, ?H, 2 + 2 + L + 299)"
    by (rule d_parts_again) (use lim in \<open>simp_all add: one_part_def\<close>)
  have r: "replicate 300 (HData True d_part) = HData True d_part # replicate 299 (HData True d_part)"
    using replicate_Suc [of 299 "HData True d_part"] by simp
  have "check_items one_part [] 0 0 0 0 (\<lambda>_. None) 2 (replicate 300 (HData True d_part)) = Inr (300, 2, ?H, 2 + 2 + L + 299)"
    unfolding r using first rest lim by (simp add: charge_def separator_cost_def numeral_2_eq_2)
  then have "\<exists>H. check_value one_part [] 0 (\<lambda>_. None) 0 d_shared = Inr (2, H, 2 + 2 + L + 299)"
    using lim by (simp add: d_shared_def MAX_ITEMS_def flip: numeral_2_eq_2)
  then show "assertStrictJson one_part d_shared = Inr d_shared" using lim by (auto simp: assertStrictJson_Inr)
  have part: "strict_view d_part = Some (JArr [JStr d_long])" by (simp add: d_part_def)
  have "strict_items (replicate n (HData True d_part)) = Some (replicate n (JArr [JStr d_long]))" for n
    by (induction n) (simp_all add: part)
  then have j: "strict_view d_shared = Some (JArr (replicate 300 (JArr [JStr d_long])))"
    by (simp add: d_shared_def list_all_iff)
  have le: "n * byte_length t \<le> texts_bytes k (replicate n t)" for n t k
    by (induction n arbitrary: k) (auto simp: add_le_mono trans_le_add2)
  have "MAX_STRING_BYTES \<le> byte_length (canon (JArr [JStr d_long]))"
    using scalarBytes_Arr [of "[JStr d_long]"] d_long_bytes(1) by (simp add: scalarBytes_def items_bytes_def)
  then have "300 * MAX_STRING_BYTES \<le> byte_length (canon (JArr (replicate 300 (JArr [JStr d_long]))))"
    using le [of 300 "canon (JArr [JStr d_long])" 0] scalarBytes_Arr [of "replicate 300 (JArr [JStr d_long])"]
    by (simp add: scalarBytes_def items_bytes_def)
  then have "MAX_GRAPH_BYTES < byte_length (canon (JArr (replicate 300 (JArr [JStr d_long]))))"
    by (simp add: MAX_STRING_BYTES_def MAX_GRAPH_BYTES_def)
  then show "\<nexists>j. copyJson d_shared = Inr j" using j by (auto simp: copyJson_iff)
qed

end
