(* ===== verification/JsOps.thy ===== *)
theory JsOps
  imports JsArith
begin

text \<open>
  Subtraction, absolute value, multiplication, division and \<open>toFixed(0)\<close> of binary64 numbers: the exact result, rounded,
  with the signs of zero and the special values of the language.
\<close>

fun num_neg :: "number \<Rightarrow> number" where
  "num_neg NaN = NaN"
| "num_neg PInf = NInf"
| "num_neg NInf = PInf"
| "num_neg NegZero = Fin 0"
| "num_neg (Fin q) = (if q = 0 then NegZero else Fin (- q))"

definition num_sub :: "number \<Rightarrow> number \<Rightarrow> number" where
  "num_sub a b = num_add a (num_neg b)"

fun num_abs :: "number \<Rightarrow> number" where
  "num_abs NaN = NaN"
| "num_abs PInf = PInf"
| "num_abs NInf = PInf"
| "num_abs NegZero = Fin 0"
| "num_abs (Fin q) = Fin \<bar>q\<bar>"

definition num_negative :: "number \<Rightarrow> bool" where
  "num_negative x \<longleftrightarrow> x = NegZero \<or> x = NInf \<or> (case x of Fin q \<Rightarrow> q < 0 | _ \<Rightarrow> False)"

definition signed :: "bool \<Rightarrow> number \<Rightarrow> number" where
  "signed neg x = (if neg then num_neg x else x)"

definition num_div :: "number \<Rightarrow> number \<Rightarrow> number" where
  "num_div a b =
     (let neg = (num_negative a \<noteq> num_negative b) in
      case (num_abs a, num_abs b) of
        (NaN, _) \<Rightarrow> NaN
      | (_, NaN) \<Rightarrow> NaN
      | (PInf, PInf) \<Rightarrow> NaN
      | (PInf, _) \<Rightarrow> signed neg PInf
      | (_, PInf) \<Rightarrow> signed neg (Fin 0)
      | (Fin p, Fin q) \<Rightarrow> if q = 0 then (if p = 0 then NaN else signed neg PInf) else signed neg (to_double (p / q))
      | _ \<Rightarrow> NaN)"

definition num_mul :: "number \<Rightarrow> number \<Rightarrow> number" where
  "num_mul a b =
     (let neg = (num_negative a \<noteq> num_negative b) in
      case (num_abs a, num_abs b) of
        (NaN, _) \<Rightarrow> NaN
      | (_, NaN) \<Rightarrow> NaN
      | (PInf, Fin q) \<Rightarrow> if q = 0 then NaN else signed neg PInf
      | (Fin p, PInf) \<Rightarrow> if p = 0 then NaN else signed neg PInf
      | (Fin p, Fin q) \<Rightarrow> signed neg (to_double (p * q))
      | _ \<Rightarrow> signed neg PInf)"

text \<open>\<open>x.toFixed(0)\<close>: the nearest integer, ties upwards in magnitude.\<close>

definition to_fixed0 :: "number \<Rightarrow> jstring" where
  "to_fixed0 x =
     (case x of
        Fin q \<Rightarrow>
          if 10 ^ 21 \<le> \<bar>q\<bar> then number_to_string x
          else (if q < 0 then u ''-'' else []) @ map digit_unit (dec_digits (nat \<lfloor>\<bar>q\<bar> + 1 / 2\<rfloor>))
      | _ \<Rightarrow> number_to_string x)"

section \<open>Small doubles\<close>

lemma is_double_dyadic: "\<bar>m\<bar> \<le> 2 ^ 53 \<Longrightarrow> k \<le> 1074 \<Longrightarrow> is_double (of_int m / 2 ^ k)"
proof -
  assume m: "\<bar>m\<bar> \<le> 2 ^ 53" and k: "k \<le> 1074"
  have "of_int m / 2 ^ k = (of_int m * 2 powi (- int k) :: rat)" by (simp add: power_int_minus divide_inverse)
  moreover have "\<bar>of_int m / 2 ^ k :: rat\<bar> < 2 ^ 1024"
  proof -
    have "\<bar>of_int m / 2 ^ k :: rat\<bar> = of_int \<bar>m\<bar> / 2 ^ k" by simp
    also have "\<dots> \<le> of_int \<bar>m\<bar>" by (simp add: divide_le_eq mult_le_cancel_left1)
    also have "\<dots> \<le> of_int (2 ^ 53)" using m by (simp only: of_int_le_iff)
    also have "\<dots> < 2 ^ 1024" by simp
    finally show ?thesis .
  qed
  ultimately show ?thesis using m k unfolding is_double_iff by (intro exI [of _ m] exI [of _ "- int k"]) simp
qed

end
