(* ===== verification/Replay.thy ===== *)
theory Replay
  imports EvidenceCanonical Gates JsOps
begin

text \<open>
  Replays of evaluation fixtures (\<open>packages/kdna-eval/src/replay.js\<close>): running an evaluator over fixtures,
  normalizing what it returns, detecting regressions against a previous run, comparing runs.

  Policy and fixtures are JSON values (\<open>None\<close>: absent); the previous run is one the engine returned, so its
  results are normalized.  An evaluator is any function of a fixture, the fallback identifier and a state of its own (the other arguments it gets are
  constant during a run); it returns a value or throws.  \<open>S\<close> is \<open>String(v)\<close> of values whose conversion runs
  their own code, \<open>G\<close> what a getter of a returned object throws.  The clock is the argument \<open>now\<close>.  Saving and
  logging a run happen in \<open>try\<close> blocks whose outcome is dropped; they are not represented, and neither is a
  store or logger that changes the run it is given.
\<close>

section \<open>Hashing the input\<close>

definition REPLAY_MODES :: "string list" where
  "REPLAY_MODES = [''repair'', ''holdout'', ''fresh'', ''candidate-sealed'', ''new-sealed'']"

text \<open>\<open>JSON.stringify\<close> of a JSON value: members in insertion order, \<open>null\<close> for the other numbers.\<close>

fun stringify :: "json \<Rightarrow> jstring" where
  "stringify (JArr xs) = u ''['' @ join (u '','') (map stringify xs) @ u '']''"
| "stringify (JObj ps) = u ''{'' @ join (u '','') (map (\<lambda>(k, x). json_quote k @ u '':'' @ stringify x) ps) @ u ''}''"
| "stringify (JNum n) = (if is_finite n then number_to_string n else u ''null'')"
| "stringify (JStr s) = json_quote s"
| "stringify (JBool b) = (if b then u ''true'' else u ''false'')"
| "stringify JNull = u ''null''"

definition hashInput :: "json \<Rightarrow> jstring" where
  "hashInput input = take 16 (sha256_hex (utf8_encode (stringify input)))"

definition present :: "string \<Rightarrow> json option \<Rightarrow> (jstring \<times> json) list" where
  "present k v = (case v of None \<Rightarrow> [] | Some j \<Rightarrow> [(u k, j)])"

section \<open>Normalizing a result\<close>

text \<open>A normalized result is the list of its own properties.\<close>

type_synonym replay_result = "(jstring \<times> hval) list"

definition rget :: "replay_result \<Rightarrow> string \<Rightarrow> hval" where
  "rget r k = (case map_of r (u k) of None \<Rightarrow> HUndefined | Some v \<Rightarrow> v)"

definition isNonEmptyString :: "hval \<Rightarrow> bool" where
  "isNonEmptyString v = (case v of HStr s \<Rightarrow> \<not> blank s | _ \<Rightarrow> False)"

definition issue_array :: "jstring list \<Rightarrow> hval" where
  "issue_array issues = HArr True 0 (map (\<lambda>m. HData True (HStr m)) issues) []"

definition invalidReplayResult :: "jstring \<Rightarrow> jstring list \<Rightarrow> replay_result" where
  "invalidReplayResult fallbackId issues =
     [(u ''id'', HStr fallbackId), (u ''pass'', HUndefined),
      (u ''details'', ho [(''status'', HStr (u ''invalid_result'')), (''validation_issues'', issue_array issues)])]"

text \<open>An object that is not an array; a back reference of a member is one to the result itself.\<close>

definition object_like :: "hval \<Rightarrow> bool" where
  "object_like v = (case v of HObj _ _ _ \<Rightarrow> True | HCycle \<Rightarrow> True | _ \<Rightarrow> False)"

definition bad_score :: "hval \<Rightarrow> bool" where
  "bad_score v = (case v of HUndefined \<Rightarrow> False | HNum n \<Rightarrow> \<not> is_finite n | _ \<Rightarrow> True)"

definition bad_pass :: "hval \<Rightarrow> bool" where
  "bad_pass v = (case v of HUndefined \<Rightarrow> False | HBool _ \<Rightarrow> False | _ \<Rightarrow> True)"

definition bad_object :: "hval \<Rightarrow> bool" where
  "bad_object v \<longleftrightarrow> v \<noteq> HUndefined \<and> \<not> object_like v"

definition result_issues :: "hval \<Rightarrow> hval \<Rightarrow> hval \<Rightarrow> hval \<Rightarrow> hval \<Rightarrow> jstring list" where
  "result_issues name score pass dimensions details =
     (if isNonEmptyString name then [] else [u ''result.id must be a non-empty string'']) @
     (if bad_score score then [u ''result.score must be a finite number when provided''] else []) @
     (if bad_pass pass then [u ''result.pass must be boolean when provided''] else []) @
     (if bad_object dimensions then [u ''result.dimensions must be an object when provided''] else []) @
     (if bad_object details then [u ''result.details must be an object when provided''] else [])"

text \<open>The assignments and deletions made before the issues are counted.\<close>

definition repaired :: "jstring \<Rightarrow> hval \<Rightarrow> hval \<Rightarrow> hval \<Rightarrow> replay_result \<Rightarrow> replay_result" where
  "repaired fallbackId name score dimensions r =
     (let r1 = (if isNonEmptyString name then r else upsert (u ''id'') (HStr fallbackId) r);
          r2 = (if bad_score score then remove_key (u ''score'') r1 else r1)
      in if bad_object dimensions then remove_key (u ''dimensions'') r2 else r2)"

text \<open>\<open>{ ...details, status: .., validation_issues: issues }\<close>\<close>

definition issue_details :: "(jstring \<times> hslot) list \<Rightarrow> hval \<Rightarrow> jstring list \<Rightarrow> exn + hval" where
  "issue_details own details issues =
     emap (\<lambda>es. HObj PlainProto 0 (map (\<lambda>(k, v). (k, HData True v))
            (upsert (u ''validation_issues'') (issue_array issues)
              (upsert (u ''status'') (HStr (u ''invalid_result'')) es))))
       (case details of HObj _ _ ds \<Rightarrow> object_entries ds | HCycle \<Rightarrow> object_entries own | _ \<Rightarrow> Inr [])"

definition normalizeReplayResult :: "hval \<Rightarrow> jstring \<Rightarrow> exn + replay_result" where
  "normalizeReplayResult result fallbackId =
     (case result of
        HObj _ _ ps \<Rightarrow>
          ebind (object_entries ps) (\<lambda>entries.
          ebind (hget result ''id'') (\<lambda>name.
          ebind (hget result ''score'') (\<lambda>score.
          ebind (hget result ''pass'') (\<lambda>pass.
          ebind (hget result ''dimensions'') (\<lambda>dimensions.
          ebind (hget result ''details'') (\<lambda>details.
            let issues = result_issues name score pass dimensions details;
                normalized = repaired fallbackId name score dimensions entries
            in if issues = [] then Inr normalized
               else emap (\<lambda>d. upsert (u ''details'') d (upsert (u ''pass'') HUndefined normalized))
                      (issue_details ps details issues)))))))
      | _ \<Rightarrow> Inr (invalidReplayResult fallbackId [u ''evaluator result must be a plain object'']))"

section \<open>Failures of the evaluator\<close>

text \<open>
  What the inner \<open>try\<close> assigns to \<open>message\<close>: the \<open>message\<close> property of an \<open>Error\<close>, as it is, or \<open>String\<close> of
  anything else.
\<close>

definition failure_message :: "(hval \<Rightarrow> jstring option) \<Rightarrow> thrown \<Rightarrow> hval" where
  "failure_message S t =
     (case t of
        ThrownError m \<Rightarrow>
          (case slot_get m of Inl _ \<Rightarrow> HStr (u ''unprintable evaluator failure'') | Inr v \<Rightarrow> v)
      | ThrownValue v \<Rightarrow>
          (case js_String S v of Some s \<Rightarrow> HStr s | None \<Rightarrow> HStr (u ''unprintable evaluator failure'')))"

text \<open>\<open>`evaluator failed: ${message}`\<close>: outside the inner \<open>try\<close>; a symbol, or an object that refuses, throws.\<close>

definition failure_text :: "(hval \<Rightarrow> jstring option) \<Rightarrow> hval \<Rightarrow> exn + jstring" where
  "failure_text S message =
     (case (if message = HOther ''symbol'' then None else js_String S message) of
        None \<Rightarrow> Inl (TypeErr (u ''Cannot convert to a string''))
      | Some s \<Rightarrow> Inr (u ''evaluator failed: '' @ s))"

definition failed_result :: "(hval \<Rightarrow> jstring option) \<Rightarrow> jstring \<Rightarrow> thrown \<Rightarrow> exn + replay_result" where
  "failed_result S fallbackId t =
     emap (\<lambda>m. invalidReplayResult fallbackId [m]) (failure_text S (failure_message S t))"

text \<open>One pass of the loop over the fixtures.\<close>

definition settle :: "(hval \<Rightarrow> jstring option) \<Rightarrow> thrown \<Rightarrow> jstring \<Rightarrow> thrown + hval \<Rightarrow> exn + replay_result" where
  "settle S G fallbackId outcome =
     (case outcome of
        Inl t \<Rightarrow> failed_result S fallbackId t
      | Inr v \<Rightarrow>
          (case normalizeReplayResult v fallbackId of
             Inl _ \<Rightarrow> failed_result S fallbackId G
           | Inr r \<Rightarrow> Inr r))"

section \<open>The default evaluator\<close>

definition defaultEvaluate :: "json \<Rightarrow> json option \<Rightarrow> jstring \<Rightarrow> jstring \<Rightarrow> hval" where
  "defaultEvaluate fixture policy mode fallbackId =
     (let f = Some fixture; expected = get_opt f ''expected''; name_of = (\<lambda>v. if isNonEmptyString (hopt v) then v else None);
          name = default_to (name_of (get_opt f ''id''))
                   (default_to (name_of (get_opt (get_opt f ''input'') ''id'')) (Some (JStr fallbackId)));
          score = default_to (get_opt f ''score'') (default_to (get_opt expected ''score'') (Some (JNum (num_of_nat 50))));
          pass = (case get_opt f ''pass'' of
                    Some (JBool b) \<Rightarrow> HBool b
                  | _ \<Rightarrow> (case get_opt expected ''pass'' of Some (JBool b) \<Rightarrow> HBool b | _ \<Rightarrow> HUndefined))
      in ho [(''id'', hopt name), (''score'', hopt score), (''pass'', pass),
             (''dimensions'', hopt (default_to (get_opt f ''dimensions'') (Some (JObj [])))),
             (''details'', ho [(''policy'', hopt (default_to (get_opt policy ''id'') (Some JNull))), (''mode'', HStr mode)])])"

section \<open>Regressions\<close>

text \<open>The literals \<open>0.05\<close> and \<open>0.001\<close>.\<close>

definition default_tolerance :: number where
  "default_tolerance = to_double (1 / 20)"

definition score_step :: number where
  "score_step = to_double (1 / 1000)"

text \<open>\<open>r.score\<close> of a normalized result, \<open>None\<close> for \<open>null\<close> and \<open>undefined\<close>.\<close>

definition score_of :: "replay_result \<Rightarrow> number option" where
  "score_of r = (case rget r ''score'' of HNum n \<Rightarrow> Some n | _ \<Rightarrow> None)"

datatype regression_flag =
    PassRegression hval hval hval \<comment> \<open>id, current, previous\<close>
  | ScoreRegression hval hval hval number \<comment> \<open>id, current, previous, delta\<close>

definition delta_of :: "replay_result \<Rightarrow> replay_result \<Rightarrow> number" where
  "delta_of r prev =
     num_sub (case score_of r of Some n \<Rightarrow> n | None \<Rightarrow> Fin 0) (case score_of prev of Some n \<Rightarrow> n | None \<Rightarrow> Fin 0)"

text \<open>The body of the second loop of \<open>detectRegressions\<close>.\<close>

definition flags_of :: "number \<Rightarrow> replay_result \<Rightarrow> replay_result \<Rightarrow> regression_flag list" where
  "flags_of tolerance r prev =
     (if rget r ''pass'' = HBool False \<and> rget prev ''pass'' \<noteq> HBool False
      then [PassRegression (rget r ''id'') (rget r ''pass'') (rget prev ''pass'')] else []) @
     (case (score_of r, score_of prev) of
        (Some n, Some m) \<Rightarrow>
          if num_lt n (num_sub m (num_mul tolerance m))
          then [ScoreRegression (rget r ''id'') (rget r ''score'') (rget prev ''score'') (num_sub n m)] else []
      | _ \<Rightarrow> [])"

text \<open>\<open>prevMap\<close>: the last result of the previous run with a given identifier.\<close>

definition prevMap :: "replay_result list \<Rightarrow> hval \<Rightarrow> replay_result option" where
  "prevMap results = map_of (rev (map (\<lambda>r. (rget r ''id'', r)) results))"

definition detectRegressions :: "replay_result list \<Rightarrow> replay_result list option \<Rightarrow> number \<Rightarrow> regression_flag list" where
  "detectRegressions results previous tolerance =
     (case previous of
        None \<Rightarrow> []
      | Some ps \<Rightarrow>
          concat (map (\<lambda>r. case prevMap ps (rget r ''id'') of None \<Rightarrow> [] | Some prev \<Rightarrow> flags_of tolerance r prev) results))"

text \<open>The engine's own test of two single results.\<close>

definition isRegression :: "replay_result option \<Rightarrow> replay_result option \<Rightarrow> number option \<Rightarrow> bool" where
  "isRegression current baseline tolerance =
     (let t = (case tolerance of Some t \<Rightarrow> t | None \<Rightarrow> default_tolerance) in
      case (current, baseline) of
        (Some cur, Some bas) \<Rightarrow>
          if rget cur ''pass'' = HBool False \<and> rget bas ''pass'' \<noteq> HBool False then True
          else (case (score_of cur, score_of bas) of
                  (Some n, Some m) \<Rightarrow> num_lt n (num_sub m (num_mul t m))
                | _ \<Rightarrow> False)
      | _ \<Rightarrow> False)"

section \<open>Runs\<close>

record replay_summary =
  sum_total :: nat
  sum_passed :: nat
  sum_failed :: nat
  sum_incomplete :: nat
  sum_regressions :: nat

record replay_run =
  run_mode :: jstring
  run_timestamp :: jstring
  run_inputHash :: jstring
  run_results :: "replay_result list"
  run_flags :: "regression_flag list"
  run_summary :: replay_summary

definition summarize :: "replay_result list \<Rightarrow> regression_flag list \<Rightarrow> replay_summary" where
  "summarize results flags =
     \<lparr>sum_total = length results,
      sum_passed = length (filter (\<lambda>r. rget r ''pass'' = HBool True) results),
      sum_failed = length (filter (\<lambda>r. rget r ''pass'' \<noteq> HBool True) results),
      sum_incomplete = length (filter (\<lambda>r. \<forall>b. rget r ''pass'' \<noteq> HBool b) results),
      sum_regressions = length flags\<rparr>"

definition fallback_id :: "jstring \<Rightarrow> nat \<Rightarrow> jstring" where
  "fallback_id inputHash i = u ''fixture-'' @ inputHash @ u ''-'' @ index_text (Suc i)"

text \<open>The loop over the fixtures; \<open>c\<close> is the state of the evaluator.\<close>

type_synonym 'c evaluator = "json \<Rightarrow> jstring \<Rightarrow> 'c \<Rightarrow> (thrown + hval) \<times> 'c"

fun evaluate_fixtures :: "(hval \<Rightarrow> jstring option) \<Rightarrow> thrown \<Rightarrow> 'c evaluator \<Rightarrow> jstring \<Rightarrow> nat \<Rightarrow> json list \<Rightarrow> 'c \<Rightarrow>
    (exn + replay_result list) \<times> 'c" where
  "evaluate_fixtures S G ev h i [] c = (Inr [], c)"
| "evaluate_fixtures S G ev h i (f # fs) c =
     (case ev f (fallback_id h i) c of (outcome, c1) \<Rightarrow>
        (case settle S G (fallback_id h i) outcome of
           Inl e \<Rightarrow> (Inl e, c1)
         | Inr r \<Rightarrow> (case evaluate_fixtures S G ev h (Suc i) fs c1 of (rest, c2) \<Rightarrow> (emap ((#) r) rest, c2))))"

definition default_evaluator :: "json option \<Rightarrow> jstring \<Rightarrow> 'c evaluator" where
  "default_evaluator policy mode = (\<lambda>fixture fallbackId c. (Inr (defaultEvaluate fixture policy mode fallbackId), c))"

definition make_run :: "jstring \<Rightarrow> jstring \<Rightarrow> jstring \<Rightarrow> replay_result list \<Rightarrow> regression_flag list \<Rightarrow> replay_run" where
  "make_run mode now h results flags =
     \<lparr>run_mode = mode, run_timestamp = now, run_inputHash = h, run_results = results, run_flags = flags,
      run_summary = summarize results flags\<rparr>"

text \<open>\<open>runs\<close> is the list the engine keeps; a run without fixtures is returned and not kept.\<close>

definition replayRun :: "(hval \<Rightarrow> jstring option) \<Rightarrow> thrown \<Rightarrow> jstring \<Rightarrow> jstring \<Rightarrow> json option \<Rightarrow> json option \<Rightarrow>
    replay_run option \<Rightarrow> 'c evaluator option \<Rightarrow> 'c \<Rightarrow> replay_run list \<Rightarrow>
    (exn + replay_run) \<times> 'c \<times> replay_run list" where
  "replayRun S G now mode policy fixtures previousRun evaluate c runs =
     (if mode \<notin> u ` set REPLAY_MODES
      then (Inl (PlainError (u ''Unknown replay mode: '' @ mode @ u ''. Valid: '' @ join (u '', '') (map u REPLAY_MODES))), c, runs)
      else
        let h = hashInput (JObj (present ''mode'' (Some (JStr mode)) @ present ''policy'' policy @ present ''fixtures'' fixtures))
        in case fixtures of
             Some (JArr (f # fs)) \<Rightarrow>
               (case evaluate_fixtures S G
                       (case evaluate of Some ev \<Rightarrow> ev | None \<Rightarrow> default_evaluator policy mode) h 0 (f # fs) c of
                  (Inl e, c1) \<Rightarrow> (Inl e, c1, runs)
                | (Inr results, c1) \<Rightarrow>
                    let run = make_run mode now h results
                                (detectRegressions results (map_option run_results previousRun) default_tolerance)
                    in (Inr run, c1, runs @ [run]))
           | _ \<Rightarrow> (Inr (make_run mode now h [] []), c, runs))"

section \<open>Comparing runs\<close>

datatype run_difference =
    Added nat replay_result
  | Removed nat replay_result
  | ScoreChange nat replay_result replay_result number
  | PassChange nat replay_result replay_result

definition result_differences :: "nat \<Rightarrow> replay_result \<Rightarrow> replay_result \<Rightarrow> run_difference list" where
  "result_differences i a b =
     (if num_lt score_step (num_abs (delta_of b a)) then [ScoreChange i a b (delta_of b a)] else []) @
     (if rget a ''pass'' \<noteq> rget b ''pass'' then [PassChange i a b] else [])"

fun compare_results :: "nat \<Rightarrow> replay_result list \<Rightarrow> replay_result list \<Rightarrow> number \<Rightarrow> run_difference list \<times> number" where
  "compare_results i [] [] d = ([], d)"
| "compare_results i [] (b # bs) d =
     (case compare_results (Suc i) [] bs d of (diff, d') \<Rightarrow> (Added i b # diff, d'))"
| "compare_results i (a # as1) [] d =
     (case compare_results (Suc i) as1 [] d of (diff, d') \<Rightarrow> (Removed i a # diff, d'))"
| "compare_results i (a # as1) (b # bs) d =
     (case compare_results (Suc i) as1 bs (num_add d (delta_of b a)) of
        (diff, d') \<Rightarrow> (result_differences i a b @ diff, d'))"

definition compareRuns :: "replay_run option \<Rightarrow> replay_run option \<Rightarrow> run_difference list \<times> number" where
  "compareRuns runA runB =
     (case (runA, runB) of
        (Some a, Some b) \<Rightarrow> compare_results 0 (run_results a) (run_results b) (Fin 0)
      | _ \<Rightarrow> ([], Fin 0))"

section \<open>What every recorded result satisfies\<close>

definition replay_result_ok :: "replay_result \<Rightarrow> bool" where
  "replay_result_ok r \<longleftrightarrow>
     isNonEmptyString (rget r ''id'') \<and>
     \<not> bad_score (rget r ''score'') \<and> \<not> bad_pass (rget r ''pass'') \<and>
     \<not> bad_object (rget r ''dimensions'') \<and> \<not> bad_object (rget r ''details'')"

text \<open>
  What an evaluator has to return for that: property names occur once, as in every object, and an
  identifier is not hidden from the spread by being non-enumerable.
\<close>

definition visible_id :: "hval \<Rightarrow> bool" where
  "visible_id v =
     (case v of
        HObj _ _ ps \<Rightarrow> distinct (map fst ps) \<and> (case map_of ps (u ''id'') of None \<Rightarrow> True | Some s \<Rightarrow> slot_enumerable s)
      | _ \<Rightarrow> True)"

lemma rget_upsert: "rget (upsert (u k') v r) k = (if k = k' then v else rget r k)"
  by (simp add: rget_def)

lemma rget_remove: "rget (remove_key (u k') r) k = (if k = k' then HUndefined else rget r k)"
  by (simp add: rget_def)

text \<open>The entries of an object against what reading its properties gives.\<close>

lemma object_entries_map_of:
  assumes "object_entries ps = Inr es" and "distinct (map fst ps)"
  shows "map_of es k =
     (case map_of ps k of Some s \<Rightarrow> (if slot_enumerable s then Some (projr (slot_get (Some s))) else None) | None \<Rightarrow> None)"
  using assms unfolding object_entries_def
proof (induction ps arbitrary: es)
  case (Cons q ps)
  obtain k' s where q: "q = (k', s)" by (cases q)
  have no: "map_of ps k' = None" using Cons.prems(2) by (simp add: q map_of_eq_None_iff)
  show ?case
  proof (cases "slot_enumerable s")
    case True
    with Cons.prems obtain v es' where v: "slot_get (Some s) = Inr v" "es = (k', v) # es'"
      "mapE (\<lambda>(k, s). emap (Pair k) (slot_get (Some s))) (filter (\<lambda>(k, s). slot_enumerable s) ps) = Inr es'"
      by (auto simp: q result_simps)
    then show ?thesis using Cons.IH [OF v(3)] Cons.prems(2) True by (simp add: q)
  next
    case False
    then have "mapE (\<lambda>(k, s). emap (Pair k) (slot_get (Some s))) (filter (\<lambda>(k, s). slot_enumerable s) ps) = Inr es"
      using Cons.prems by (simp add: q)
    then show ?thesis using Cons.IH Cons.prems(2) False no by (simp add: q)
  qed
qed simp

lemma entry_read:
  assumes "object_entries ps = Inr es" "distinct (map fst ps)" "hget (HObj pr n ps) k = Inr v"
  shows "rget es k = v \<or> rget es k = HUndefined"
  using assms(3) object_entries_map_of [OF assms(1,2), of "u k"]
  by (auto simp: rget_def hget_def split: option.splits)

lemma visible_entry:
  assumes "object_entries ps = Inr es" "visible_id (HObj pr n ps)" "hget (HObj pr n ps) ''id'' = Inr v"
  shows "rget es ''id'' = v"
proof -
  have d: "distinct (map fst ps)" using assms(2) by (simp add: visible_id_def)
  show ?thesis
  proof (cases "map_of ps (u ''id'')")
    case None
    then show ?thesis using assms(3) object_entries_map_of [OF assms(1) d] by (simp add: rget_def hget_def slot_get_def)
  next
    case (Some s)
    then show ?thesis using assms(2,3) object_entries_map_of [OF assms(1) d]
      by (simp add: rget_def hget_def visible_id_def)
  qed
qed

lemma invalid_result_ok: "\<not> blank f \<Longrightarrow> replay_result_ok (invalidReplayResult f issues)"
  by (simp add: replay_result_ok_def invalidReplayResult_def rget_def isNonEmptyString_def bad_score_def
      bad_pass_def bad_object_def object_like_def ho_def)

lemma issue_details_object: "issue_details own d issues = Inr v \<Longrightarrow> \<not> bad_object v"
  by (auto simp: issue_details_def result_simps bad_object_def object_like_def)

lemma bad_undefined [simp]: "\<not> bad_score HUndefined" "\<not> bad_pass HUndefined" "\<not> bad_object HUndefined"
  by (simp_all add: bad_score_def bad_pass_def bad_object_def)

lemma result_issues_Nil:
  "result_issues n s p d e = [] \<longleftrightarrow>
     isNonEmptyString n \<and> \<not> bad_score s \<and> \<not> bad_pass p \<and> \<not> bad_object d \<and> \<not> bad_object e"
  by (simp add: result_issues_def)

lemma repaired_ok:
  assumes "\<not> blank f" "isNonEmptyString n \<longrightarrow> rget r ''id'' = n"
    "rget r ''score'' = s \<or> rget r ''score'' = HUndefined" "rget r ''dimensions'' = d \<or> rget r ''dimensions'' = HUndefined"
  shows "isNonEmptyString (rget (repaired f n s d r) ''id'')" "\<not> bad_score (rget (repaired f n s d r) ''score'')"
    "\<not> bad_object (rget (repaired f n s d r) ''dimensions'')"
  using assms
  by (auto simp: repaired_def Let_def rget_upsert rget_remove isNonEmptyString_def)

lemma normalizeReplayResult_ok:
  assumes f: "\<not> blank f" and v: "visible_id v" and n: "normalizeReplayResult v f = Inr r"
  shows "replay_result_ok r"
proof (cases v)
  case (HObj pr ns ps)
  from n obtain es name s p d e where e: "object_entries ps = Inr es" "hget v ''id'' = Inr name"
    "hget v ''score'' = Inr s" "hget v ''pass'' = Inr p" "hget v ''dimensions'' = Inr d" "hget v ''details'' = Inr e"
    and r: "(if result_issues name s p d e = [] then Inr (repaired f name s d es)
             else emap (\<lambda>x. upsert (u ''details'') x (upsert (u ''pass'') HUndefined (repaired f name s d es)))
                    (issue_details ps e (result_issues name s p d e))) = (Inr r :: exn + replay_result)"
    by (auto simp: normalizeReplayResult_def HObj Let_def ebind_Inr_conv)
  have dist: "distinct (map fst ps)" using v by (simp add: HObj visible_id_def)
  note read = entry_read [OF e(1) dist, of pr ns, folded HObj]
  note ok = repaired_ok [OF f _ read [OF e(3)] read [OF e(5)], of name]
  have i: "rget es ''id'' = name" using visible_entry [OF e(1)] v e(2) by (simp add: HObj)
  show ?thesis
  proof (cases "result_issues name s p d e = []")
    case True
    then have "r = es" using r by (simp add: repaired_def result_issues_Nil)
    then show ?thesis using True read [OF e(3)] read [OF e(4)] read [OF e(5)] read [OF e(6)] i
      by (auto simp: replay_result_ok_def result_issues_Nil)
  next
    case False
    then obtain x where "r = upsert (u ''details'') x (upsert (u ''pass'') HUndefined (repaired f name s d es))"
      "\<not> bad_object x"
      using r by (auto simp: result_simps dest: issue_details_object)
    then show ?thesis using ok i by (simp add: replay_result_ok_def rget_upsert)
  qed
qed (use n f in \<open>auto simp: normalizeReplayResult_def intro: invalid_result_ok\<close>)

lemma fallback_id_not_blank: "\<not> blank (fallback_id h i)"
  by (simp add: fallback_id_def blank_iff u_def is_space_def of_char_unat)

lemma failed_result_ok: "\<not> blank f \<Longrightarrow> failed_result S f t = Inr r \<Longrightarrow> replay_result_ok r"
  by (auto simp: failed_result_def result_simps intro: invalid_result_ok)

lemma settle_ok:
  assumes "\<not> blank f" "\<And>v. outcome = Inr v \<Longrightarrow> visible_id v" "settle S G f outcome = Inr r"
  shows "replay_result_ok r"
  using assms normalizeReplayResult_ok [OF assms(1)]
  by (auto simp: settle_def split: sum.splits intro: failed_result_ok)

text \<open>The evaluators whose results have that shape.\<close>

definition visible_evaluator :: "'c evaluator \<Rightarrow> bool" where
  "visible_evaluator ev \<longleftrightarrow> (\<forall>f h c v c'. ev f h c = (Inr v, c') \<longrightarrow> visible_id v)"

lemma evaluate_fixtures_ok:
  assumes "visible_evaluator ev"
  shows "evaluate_fixtures S G ev h i fs c = (Inr rs, c') \<Longrightarrow>
    length rs = length fs \<and> (\<forall>r \<in> set rs. replay_result_ok r)"
proof (induction fs arbitrary: i c rs c')
  case (Cons f fs)
  from Cons.prems obtain outcome c1 r rest c2 where e: "ev f (fallback_id h i) c = (outcome, c1)"
    "settle S G (fallback_id h i) outcome = Inr r" "evaluate_fixtures S G ev h (Suc i) fs c1 = (Inr rest, c2)"
    "rs = r # rest"
    by (auto simp: result_simps split: prod.splits sum.splits)
  have "visible_id v" if "outcome = Inr v" for v
    using assms e(1) that unfolding visible_evaluator_def by blast
  then have "replay_result_ok r" by (rule settle_ok [OF fallback_id_not_blank _ e(2)])
  then show ?case using Cons.IH [OF e(3)] e(4) by simp
qed simp

lemma default_evaluator_visible: "visible_evaluator (default_evaluator policy mode)"
  by (auto simp: visible_evaluator_def default_evaluator_def defaultEvaluate_def visible_id_def ho_def Let_def)

section \<open>What a run records of each fixture\<close>

text \<open>The property an evaluator's outcome has of its own, read without throwing; \<open>undefined\<close> otherwise.\<close>

definition reported :: "thrown + hval \<Rightarrow> string \<Rightarrow> hval" where
  "reported outcome k =
     (case outcome of
        Inr (HObj pr n ps) \<Rightarrow> (case slot_get (map_of ps (u k)) of Inr v \<Rightarrow> v | Inl _ \<Rightarrow> HUndefined)
      | _ \<Rightarrow> HUndefined)"

text \<open>Some getter of the returned object, or of an object it returns as a property, throws.\<close>

definition getter_throws :: "(jstring \<times> hslot) list \<Rightarrow> bool" where
  "getter_throws ps \<longleftrightarrow> (\<exists>(k, s) \<in> set ps. \<exists>e. slot_get (Some s) = Inl e)"

definition hostile :: "thrown + hval \<Rightarrow> bool" where
  "hostile outcome =
     (case outcome of
        Inr (HObj pr n ps) \<Rightarrow>
          getter_throws ps \<or>
          (\<exists>(k, s) \<in> set ps. \<exists>pr' n' ds. slot_get (Some s) = Inr (HObj pr' n' ds) \<and> getter_throws ds)
      | _ \<Rightarrow> False)"

text \<open>
  An outcome in good order: an object with enumerable properties and a non-blank identifier, the others absent or of
  their types (a back reference is the object itself).
\<close>

definition in_order :: "thrown + hval \<Rightarrow> bool" where
  "in_order outcome \<longleftrightarrow>
     (\<exists>pr n ps. outcome = Inr (HObj pr n ps) \<and> (\<forall>(k, s) \<in> set ps. slot_enumerable s)) \<and> \<not> hostile outcome \<and>
     (\<exists>s. reported outcome ''id'' = HStr s \<and> \<not> blank s) \<and>
     (reported outcome ''pass'' = HUndefined \<or> (\<exists>b. reported outcome ''pass'' = HBool b)) \<and>
     (reported outcome ''score'' = HUndefined \<or> (\<exists>n. reported outcome ''score'' = HNum n \<and> is_finite n)) \<and>
     (\<forall>k \<in> {''dimensions'', ''details''}.
        reported outcome k = HUndefined \<or> reported outcome k = HCycle \<or> (\<exists>pr n ps. reported outcome k = HObj pr n ps))"

text \<open>
  What is recorded of an outcome: one in good order as it is; of any other its own identifier when that is a non-blank string, otherwise (or when a
  getter throws) the fallback identifier; a verdict only if the evaluator gave it, under a non-blank
  identifier and beside a finite score, if any; a score only if the evaluator gave it and it is finite.
\<close>

definition recorded :: "jstring \<Rightarrow> thrown + hval \<Rightarrow> replay_result \<Rightarrow> bool" where
  "recorded fallback outcome r \<longleftrightarrow>
     (if isNonEmptyString (reported outcome ''id'') \<and> \<not> hostile outcome
      then rget r ''id'' = reported outcome ''id''
      else rget r ''id'' = HStr fallback \<or> hostile outcome \<and> rget r ''id'' = reported outcome ''id'') \<and>
     isNonEmptyString (rget r ''id'') \<and>
     (in_order outcome \<longrightarrow> (\<forall>k. rget r k = reported outcome k)) \<and>
     (rget r ''pass'' \<noteq> HUndefined \<longrightarrow>
        (\<exists>b. rget r ''pass'' = HBool b \<and> reported outcome ''pass'' = HBool b \<and>
             isNonEmptyString (reported outcome ''id'') \<and>
             (reported outcome ''score'' = HUndefined \<or>
                (\<exists>n. reported outcome ''score'' = HNum n \<and> is_finite n)))) \<and>
     (rget r ''score'' \<noteq> HUndefined \<longrightarrow>
        (\<exists>n. rget r ''score'' = HNum n \<and> is_finite n \<and> reported outcome ''score'' = HNum n))"

lemma mapE_Inl: "mapE f xs = Inl e \<Longrightarrow> \<exists>x \<in> set xs. f x = Inl e"
  by (induction xs) (auto simp: ebind_def emap_def split: sum.splits)

lemma object_entries_throws: "object_entries ps = Inl e \<Longrightarrow> getter_throws ps"
  by (auto simp: object_entries_def getter_throws_def emap_def ebind_def dest!: mapE_Inl split: sum.splits) blast

lemma read_throws: "slot_get (map_of ps k) = Inl e \<Longrightarrow> getter_throws ps"
proof -
  assume t: "slot_get (map_of ps k) = Inl e"
  then obtain s where "map_of ps k = Some s" by (cases "map_of ps k") (auto simp: slot_get_def)
  then show ?thesis using t map_of_SomeD [of ps k s] by (auto simp: getter_throws_def)
qed

lemma details_throw:
  assumes "slot_get (map_of ps k) = Inr (HObj pr n ds)" "getter_throws ds"
  shows "hostile (Inr (HObj pr' n' ps))"
proof -
  obtain s where s: "map_of ps k = Some s" using assms(1) by (cases "map_of ps k") (auto simp: slot_get_def)
  have "slot_get (Some s) = Inr (HObj pr n ds)" using assms(1) s by simp
  then show ?thesis using assms(2) map_of_SomeD [OF s] by (auto simp: hostile_def intro!: bexI [of _ "(k, s)"])
qed

lemma normalize_throws: "normalizeReplayResult v f = Inl e \<Longrightarrow> hostile (Inr v)"
proof -
  assume n: "normalizeReplayResult v f = Inl e"
  then obtain pr ns ps where v: "v = HObj pr ns ps" by (cases v) (auto simp: normalizeReplayResult_def)
  show ?thesis
  proof (rule ccontr)
    assume h: "\<not> hostile (Inr v)"
    then have g: "\<not> getter_throws ps" by (simp add: hostile_def v)
    obtain es where es: "object_entries ps = Inr es"
      using g object_entries_throws by (cases "object_entries ps") auto
    have "\<exists>x. hget v k = Inr x" for k
      using g read_throws [of ps "u k"] by (cases "slot_get (map_of ps (u k))") (auto simp: hget_def v)
    then obtain x1 x2 x3 x4 x5 where x: "hget v ''id'' = Inr x1" "hget v ''score'' = Inr x2" "hget v ''pass'' = Inr x3"
      "hget v ''dimensions'' = Inr x4" "hget v ''details'' = Inr x5" by metis
    have "issue_details ps x5 issues \<noteq> Inl e" for issues
    proof (cases x5)
      case (HObj pr' n' ds)
      then have "\<not> getter_throws ds" using x(5) h details_throw [of ps "u ''details''" pr' n' ds pr ns]
        by (auto simp: hget_def v)
      then obtain es' where "object_entries ds = Inr es'"
        using object_entries_throws by (cases "object_entries ds") auto
      then show ?thesis by (simp add: issue_details_def HObj)
    qed (simp_all add: issue_details_def es)
    then show False using n x es by (auto simp: normalizeReplayResult_def v Let_def result_simps split: if_splits)
  qed
qed

lemma invalid_recorded:
  "\<not> blank f \<Longrightarrow> \<not> isNonEmptyString (reported outcome ''id'') \<or> hostile outcome \<Longrightarrow>
     recorded f outcome (invalidReplayResult f issues)"
proof -
  assume f: "\<not> blank f" and h: "\<not> isNonEmptyString (reported outcome ''id'') \<or> hostile outcome"
  have "\<not> in_order outcome" using h unfolding in_order_def isNonEmptyString_def by (auto split: hval.splits)
  then show ?thesis using f h
    by (auto simp: recorded_def invalidReplayResult_def rget_def isNonEmptyString_def)
qed

lemma enumerable_entry:
  assumes "object_entries ps = Inr es" "distinct (map fst ps)" "\<forall>(k, s) \<in> set ps. slot_enumerable s"
    and "\<not> getter_throws ps"
  shows "rget es k = reported (Inr (HObj pr n ps)) k"
proof (cases "map_of ps (u k)")
  case None
  then show ?thesis using object_entries_map_of [OF assms(1,2), of "u k"] by (simp add: rget_def reported_def slot_get_def)
next
  case (Some s)
  then have e: "slot_enumerable s" using assms(3) map_of_SomeD [of ps "u k" s] by auto
  obtain v where "slot_get (Some s) = Inr v"
    using assms(4) read_throws [of ps "u k"] Some by (cases "slot_get (Some s)") auto
  then show ?thesis using object_entries_map_of [OF assms(1,2), of "u k"] Some e
    by (simp add: rget_def reported_def)
qed

lemma in_order_issues:
  assumes "in_order (Inr v)" "hget v ''id'' = Inr name" "hget v ''score'' = Inr s" "hget v ''pass'' = Inr p"
    "hget v ''dimensions'' = Inr d" "hget v ''details'' = Inr e"
  shows "result_issues name s p d e = []"
proof -
  obtain pr n ps where v: "v = HObj pr n ps" using assms(1) by (auto simp: in_order_def)
  have "reported (Inr v) ''id'' = name" "reported (Inr v) ''score'' = s" "reported (Inr v) ''pass'' = p"
    "reported (Inr v) ''dimensions'' = d" "reported (Inr v) ''details'' = e"
    using assms(2-6) by (simp_all add: reported_def v hget_def)
  then show ?thesis using assms(1)
    by (auto simp: in_order_def result_issues_Nil isNonEmptyString_def bad_score_def bad_pass_def bad_object_def object_like_def)
qed

lemma normalize_recorded:
  assumes f: "\<not> blank f" and v: "visible_id v" and n: "normalizeReplayResult v f = Inr r"
  shows "recorded f (Inr v) r"
proof (cases v)
  case (HObj pr ns ps)
  from n obtain es name s p d e where e: "object_entries ps = Inr es" "hget v ''id'' = Inr name"
    "hget v ''score'' = Inr s" "hget v ''pass'' = Inr p" "hget v ''dimensions'' = Inr d" "hget v ''details'' = Inr e"
    and r: "(if result_issues name s p d e = [] then Inr (repaired f name s d es)
             else emap (\<lambda>x. upsert (u ''details'') x (upsert (u ''pass'') HUndefined (repaired f name s d es)))
                    (issue_details ps e (result_issues name s p d e))) = (Inr r :: exn + replay_result)"
    by (auto simp: normalizeReplayResult_def HObj Let_def ebind_Inr_conv)
  have dist: "distinct (map fst ps)" using v by (simp add: HObj visible_id_def)
  note read = entry_read [OF e(1) dist, of pr ns, folded HObj]
  have i: "rget es ''id'' = name" using visible_entry [OF e(1)] v e(2) by (simp add: HObj)
  have rep: "reported (Inr v) ''id'' = name" "reported (Inr v) ''score'' = s" "reported (Inr v) ''pass'' = p"
    using e(2-4) by (simp_all add: reported_def HObj hget_def)
  have good: "\<not> bad_score x \<longleftrightarrow> x = HUndefined \<or> (\<exists>n. x = HNum n \<and> is_finite n)" for x
    by (cases x) (auto simp: bad_score_def)
  have ident: "rget (repaired f name s d es) ''id'' = (if isNonEmptyString name then name else HStr f)"
    by (simp add: repaired_def Let_def rget_upsert rget_remove i)
  have score: "rget (repaired f name s d es) ''score'' = HUndefined \<or>
      (\<exists>n. rget (repaired f name s d es) ''score'' = HNum n \<and> is_finite n \<and> s = HNum n)"
    using read [OF e(3)] good [of s] by (auto simp: repaired_def Let_def rget_upsert rget_remove)
  have fb: "isNonEmptyString (HStr f)" using f by (simp add: isNonEmptyString_def)
  have order: "result_issues name s p d e = [] \<and> (\<forall>k. rget es k = reported (Inr v) k)" if "in_order (Inr v)"
    using in_order_issues [OF that e(2-6)] enumerable_entry [OF e(1) dist] that
    by (auto simp: in_order_def hostile_def HObj)
  show ?thesis
  proof (cases "result_issues name s p d e = []")
    case True
    then have "r = repaired f name s d es" "r = es" "isNonEmptyString name" "\<not> bad_score s" "\<not> bad_pass p"
      using r by (simp_all add: repaired_def result_issues_Nil)
    then show ?thesis using ident score read [OF e(4)] good [of s] order
      by (auto simp: recorded_def rep bad_pass_def split: hval.splits)
  next
    case False
    then obtain x where "r = upsert (u ''details'') x (upsert (u ''pass'') HUndefined (repaired f name s d es))"
      using r by (auto simp: result_simps)
    then have "rget r ''id'' = rget (repaired f name s d es) ''id''" "rget r ''pass'' = HUndefined"
      "rget r ''score'' = rget (repaired f name s d es) ''score''" by (simp_all add: rget_upsert)
    then show ?thesis using ident score fb order False by (auto simp: recorded_def rep)
  qed
qed (use n f in \<open>auto simp: normalizeReplayResult_def reported_def isNonEmptyString_def intro!: invalid_recorded\<close>)

lemma settle_recorded:
  assumes "\<not> blank f" "\<And>v. outcome = Inr v \<Longrightarrow> visible_id v" "settle S G f outcome = Inr r"
  shows "recorded f outcome r"
proof (cases outcome)
  case (Inl t)
  then show ?thesis using assms(1,3)
    by (auto simp: settle_def failed_result_def result_simps reported_def isNonEmptyString_def intro!: invalid_recorded)
next
  case (Inr v)
  show ?thesis
  proof (cases "normalizeReplayResult v f")
    case (Inl e)
    then show ?thesis using assms(1,3) normalize_throws [OF Inl]
      by (auto simp: settle_def failed_result_def result_simps Inr intro!: invalid_recorded)
  next
    case r: (Inr r')
    then show ?thesis using assms(1,3) normalize_recorded [OF assms(1) assms(2) [OF Inr] r] by (simp add: settle_def Inr)
  qed
qed

text \<open>The state the evaluator is in before fixture \<open>j\<close> when it is called once for each fixture, in order.\<close>

primrec state_at :: "'c evaluator \<Rightarrow> jstring \<Rightarrow> nat \<Rightarrow> json list \<Rightarrow> 'c \<Rightarrow> nat \<Rightarrow> 'c" where
  "state_at ev h i fs c 0 = c"
| "state_at ev h i fs c (Suc j) = snd (ev (fs ! j) (fallback_id h (i + j)) (state_at ev h i fs c j))"

lemma state_at_Cons:
  "state_at ev h i (f # fs) c (Suc j) = state_at ev h (Suc i) fs (snd (ev f (fallback_id h i) c)) j"
  by (induction j) simp_all

lemma evaluate_fixtures_recorded:
  assumes "visible_evaluator ev"
  shows "evaluate_fixtures S G ev h i fs c = (Inr rs, c') \<Longrightarrow>
    length rs = length fs \<and> c' = state_at ev h i fs c (length fs) \<and>
    (\<forall>j < length fs. recorded (fallback_id h (i + j))
        (fst (ev (fs ! j) (fallback_id h (i + j)) (state_at ev h i fs c j))) (rs ! j))"
proof (induction fs arbitrary: i c rs c')
  case (Cons f fs)
  from Cons.prems obtain outcome c1 r rest c2 where e: "ev f (fallback_id h i) c = (outcome, c1)"
    "settle S G (fallback_id h i) outcome = Inr r" "evaluate_fixtures S G ev h (Suc i) fs c1 = (Inr rest, c2)"
    "rs = r # rest" "c' = c2"
    by (auto simp: result_simps split: prod.splits sum.splits)
  have "visible_id v" if "outcome = Inr v" for v
    using assms e(1) that unfolding visible_evaluator_def by blast
  then have r: "recorded (fallback_id h i) outcome r" by (rule settle_recorded [OF fallback_id_not_blank _ e(2)])
  note IH = Cons.IH [OF e(3)]
  have "recorded (fallback_id h (i + j))
        (fst (ev ((f # fs) ! j) (fallback_id h (i + j)) (state_at ev h i (f # fs) c j))) (rs ! j)"
    if "j < length (f # fs)" for j
  proof (cases j)
    case (Suc k)
    then show ?thesis using IH that e(1,4) by (simp add: state_at_Cons del: state_at.simps(2))
  qed (use r e(1,4) in simp)
  then show ?case using IH e(1,4,5) by (simp add: state_at_Cons del: state_at.simps(2))
qed simp

section \<open>Runs and regressions\<close>

text \<open>The fixtures a run evaluates and the evaluator it uses.\<close>

definition evaluated :: "json option \<Rightarrow> json list" where
  "evaluated fixtures = (case fixtures of Some (JArr fs) \<Rightarrow> fs | _ \<Rightarrow> [])"

definition evaluator_in_use :: "'c evaluator option \<Rightarrow> json option \<Rightarrow> jstring \<Rightarrow> 'c evaluator" where
  "evaluator_in_use evaluate policy mode =
     (case evaluate of Some ev \<Rightarrow> ev | None \<Rightarrow> default_evaluator policy mode)"

text \<open>
  A run records, for every fixture in order, what the evaluator gave for it, and its summary counts
  those records.
\<close>

definition run_consistent :: "'c evaluator \<Rightarrow> 'c \<Rightarrow> json list \<Rightarrow> replay_run \<Rightarrow> bool" where
  "run_consistent ev c fs run \<longleftrightarrow>
     (let rs = run_results run; h = run_inputHash run; m = run_summary run; verdict = (\<lambda>j. rget (rs ! j) ''pass'') in
      length rs = length fs \<and>
      (\<forall>j < length fs. recorded (fallback_id h j)
          (fst (ev (fs ! j) (fallback_id h j) (state_at ev h 0 fs c j))) (rs ! j)) \<and>
      sum_total m = length fs \<and>
      sum_passed m = card {j. j < length fs \<and> verdict j = HBool True} \<and>
      sum_failed m = length fs - sum_passed m \<and>
      sum_incomplete m = card {j. j < length fs \<and> verdict j \<noteq> HBool True \<and> verdict j \<noteq> HBool False} \<and>
      sum_regressions m = length (run_flags run))"

lemma summarize_counts:
  "sum_total (summarize rs fs) = length rs"
  "sum_passed (summarize rs fs) = card {j. j < length rs \<and> rget (rs ! j) ''pass'' = HBool True}"
  "sum_failed (summarize rs fs) = length rs - sum_passed (summarize rs fs)"
  "sum_incomplete (summarize rs fs) =
     card {j. j < length rs \<and> rget (rs ! j) ''pass'' \<noteq> HBool True \<and> rget (rs ! j) ''pass'' \<noteq> HBool False}"
  "sum_regressions (summarize rs fs) = length fs"
proof -
  have "(\<forall>b. v \<noteq> HBool b) \<longleftrightarrow> v \<noteq> HBool True \<and> v \<noteq> HBool False" for v by (metis (full_types))
  then show "sum_incomplete (summarize rs fs) =
     card {j. j < length rs \<and> rget (rs ! j) ''pass'' \<noteq> HBool True \<and> rget (rs ! j) ''pass'' \<noteq> HBool False}"
    by (simp add: summarize_def length_filter_conv_card)
  show "sum_failed (summarize rs fs) = length rs - sum_passed (summarize rs fs)"
    using sum_length_filter_compl [of "\<lambda>r. rget r ''pass'' = HBool True" rs] by (simp add: summarize_def)
qed (simp_all add: summarize_def length_filter_conv_card)

lemma make_run_consistent:
  assumes "length rs = length fs"
    "\<forall>j < length fs. recorded (fallback_id h j) (fst (ev (fs ! j) (fallback_id h j) (state_at ev h 0 fs c j))) (rs ! j)"
  shows "run_consistent ev c fs (make_run mode now h rs flags)"
  unfolding run_consistent_def make_run_def Let_def replay_run.simps
  using assms summarize_counts [of rs flags] by simp

text \<open>A result is never reported as different from itself.\<close>

lemma num_sub_self: "is_finite n \<Longrightarrow> num_sub n n = Fin 0"
  by (cases n) (auto simp: num_sub_def to_double_def)

lemma delta_self: "replay_result_ok r \<Longrightarrow> delta_of r r = Fin 0"
  by (auto simp: delta_of_def score_of_def replay_result_ok_def bad_score_def num_sub_self
      split: hval.splits)

lemma score_step_pos: "\<not> num_lt score_step (Fin 0)"
proof -
  have "0 \<le> round_mag (1 / 1000)"
    by (simp add: round_mag_def Let_def round_half_even_mono_int [of 0, simplified])
  then show ?thesis by (auto simp: score_step_def to_double_def Let_def num_lt_def num_eq_def)
qed

lemma result_differences_self: "replay_result_ok r \<Longrightarrow> result_differences i r r = []"
  using score_step_pos by (simp add: result_differences_def delta_self)

lemma compare_results_self:
  "\<forall>r \<in> set rs. replay_result_ok r \<Longrightarrow> compare_results i rs rs (Fin 0) = ([], Fin 0)"
  by (induction rs arbitrary: i) (simp_all add: delta_self result_differences_self to_double_def)

lemma compareRuns_self:
  "\<forall>r \<in> set (run_results run). replay_result_ok r \<Longrightarrow> compareRuns (Some run) (Some run) = ([], Fin 0)"
  by (simp add: compareRuns_def compare_results_self)

text \<open>What a call of \<open>replayRun\<close> does to the engine, and what it returns.\<close>

theorem replayRun_invariant:
  assumes ev: "\<And>ev. evaluate = Some ev \<Longrightarrow> visible_evaluator ev"
    and r: "replayRun S G now mode policy fixtures previousRun evaluate c runs = (out, c', runs')"
  shows "case out of
       Inl e \<Rightarrow> runs' = runs
     | Inr run \<Rightarrow>
         run_consistent (evaluator_in_use evaluate policy mode) c (evaluated fixtures) run \<and>
         runs' = (if evaluated fixtures = [] then runs else runs @ [run]) \<and>
         compareRuns (Some run) (Some run) = ([], Fin 0)"
proof -
  let ?ev = "evaluator_in_use evaluate policy mode"
  have ev': "visible_evaluator ?ev"
    using ev default_evaluator_visible by (auto simp: evaluator_in_use_def split: option.splits)
  define h where "h = hashInput (JObj (present ''mode'' (Some (JStr mode)) @ present ''policy'' policy @ present ''fixtures'' fixtures))"
  have empty: "run_consistent ?ev c [] (make_run mode now h [] [])"
    "compareRuns (Some (make_run mode now h [] [])) (Some (make_run mode now h [] [])) = ([], Fin 0)"
    using make_run_consistent [of "[]" "[]"] by (simp_all add: compareRuns_def make_run_def)
  show ?thesis
  proof (cases "mode \<in> u ` set REPLAY_MODES \<and> evaluated fixtures \<noteq> []")
    case True
    then obtain f fs where f: "fixtures = Some (JArr (f # fs))"
      by (auto simp: evaluated_def neq_Nil_conv split: option.splits json.splits)
    obtain res c1 where e: "evaluate_fixtures S G ?ev h 0 (f # fs) c = (res, c1)"
      by (cases "evaluate_fixtures S G ?ev h 0 (f # fs) c")
    show ?thesis
    proof (cases res)
      case (Inl x)
      then have "out = Inl x \<and> runs' = runs"
        using True r e f by (auto simp: replayRun_def Let_def h_def evaluator_in_use_def)
      then show ?thesis by simp
    next
      case (Inr rs)
      then obtain flags where o: "out = Inr (make_run mode now h rs flags)" "runs' = runs @ [make_run mode now h rs flags]"
        using True r e f by (auto simp: replayRun_def Let_def h_def evaluator_in_use_def)
      note ok = evaluate_fixtures_ok [OF ev' e [unfolded Inr]]
        and rec = evaluate_fixtures_recorded [OF ev' e [unfolded Inr]]
      have "run_consistent ?ev c (f # fs) (make_run mode now h rs flags)"
        by (rule make_run_consistent) (use rec in simp_all)
      moreover have "compareRuns (Some (make_run mode now h rs flags)) (Some (make_run mode now h rs flags)) = ([], Fin 0)"
        by (rule compareRuns_self) (use ok in \<open>simp add: make_run_def\<close>)
      ultimately show ?thesis by (simp add: o f evaluated_def)
    qed
  next
    case False
    then have "mode \<notin> u ` set REPLAY_MODES \<and> (\<exists>e. out = Inl e) \<and> runs' = runs \<or>
        evaluated fixtures = [] \<and> out = Inr (make_run mode now h [] []) \<and> runs' = runs"
      using r by (auto simp: replayRun_def Let_def h_def evaluated_def split: option.splits json.splits list.splits if_splits)
    then show ?thesis using empty by auto
  qed
qed

text \<open>
  \<open>last_with ps i prev\<close>: \<open>prev\<close> is the last of the previous results with identifier \<open>i\<close>.
\<close>

definition last_with :: "replay_result list \<Rightarrow> hval \<Rightarrow> replay_result \<Rightarrow> bool" where
  "last_with ps i prev \<longleftrightarrow>
     (\<exists>xs ys. ps = xs @ prev # ys \<and> rget prev ''id'' = i \<and> (\<forall>y \<in> set ys. rget y ''id'' \<noteq> i))"

lemma prevMap_snoc: "prevMap (ps @ [p]) i = (if rget p ''id'' = i then Some p else prevMap ps i)"
  by (simp add: prevMap_def)

lemma last_with_snoc: "last_with (ps @ [p]) i prev \<longleftrightarrow> (if rget p ''id'' = i then prev = p else last_with ps i prev)"
proof
  assume "last_with (ps @ [p]) i prev"
  then obtain xs ys where e: "ps @ [p] = xs @ prev # ys" "rget prev ''id'' = i" "\<forall>y \<in> set ys. rget y ''id'' \<noteq> i"
    by (auto simp: last_with_def)
  then show "if rget p ''id'' = i then prev = p else last_with ps i prev"
  proof (cases ys rule: rev_cases)
    case (snoc zs z)
    then have "ps = xs @ prev # zs" "p = z" using e(1) by simp_all
    then show ?thesis using e snoc by (auto simp: last_with_def)
  qed (use e in auto)
next
  assume a: "if rget p ''id'' = i then prev = p else last_with ps i prev"
  show "last_with (ps @ [p]) i prev"
  proof (cases "rget p ''id'' = i")
    case True
    then show ?thesis using a unfolding last_with_def by (intro exI [of _ ps] exI [of _ "[]"]) simp
  next
    case False
    then obtain xs ys where "ps = xs @ prev # ys" "rget prev ''id'' = i" "\<forall>y \<in> set ys. rget y ''id'' \<noteq> i"
      using a by (auto simp: last_with_def)
    then show ?thesis using False unfolding last_with_def by (intro exI [of _ xs] exI [of _ "ys @ [p]"]) simp
  qed
qed

lemma prevMap_iff: "prevMap ps i = Some prev \<longleftrightarrow> last_with ps i prev"
  by (induction ps rule: rev_induct) (auto simp: prevMap_snoc last_with_snoc, auto simp: prevMap_def last_with_def)

text \<open>The flags of a run, one by one.\<close>

lemma in_detectRegressions:
  "x \<in> set (detectRegressions rs (Some ps) t) \<longleftrightarrow>
     (\<exists>r prev. r \<in> set rs \<and> last_with ps (rget r ''id'') prev \<and> x \<in> set (flags_of t r prev))"
proof -
  have "x \<in> set (case p of None \<Rightarrow> [] | Some prev \<Rightarrow> flags_of t r prev) \<longleftrightarrow>
      (\<exists>prev. p = Some prev \<and> x \<in> set (flags_of t r prev))" for p r
    by (cases p) simp_all
  then show ?thesis by (simp add: detectRegressions_def prevMap_iff) blast
qed

lemma score_of_iff: "score_of r = Some n \<longleftrightarrow> rget r ''score'' = HNum n"
  by (auto simp: score_of_def split: hval.splits)

lemma pass_flag:
  "PassRegression i cur prv \<in> set (flags_of t r prev) \<longleftrightarrow>
     i = rget r ''id'' \<and> cur = HBool False \<and> rget r ''pass'' = HBool False \<and> prv = rget prev ''pass'' \<and> prv \<noteq> HBool False"
  by (auto simp: flags_of_def split: option.splits)

lemma score_flag:
  "ScoreRegression i cur prv d \<in> set (flags_of t r prev) \<longleftrightarrow>
     (\<exists>n m. i = rget r ''id'' \<and> cur = HNum n \<and> rget r ''score'' = HNum n \<and> prv = HNum m \<and> rget prev ''score'' = HNum m \<and>
        num_lt n (num_sub m (num_mul t m)) \<and> d = num_sub n m)"
proof -
  have n: "(score_of x = None) = (\<forall>n. rget x ''score'' \<noteq> HNum n)" for x using score_of_iff [of x] by (cases "score_of x") auto
  show ?thesis
  proof (cases "score_of r")
    case None
    then have "\<forall>n. rget r ''score'' \<noteq> HNum n" using n by simp
    then show ?thesis using None by (simp add: flags_of_def)
  next
    case r: (Some a)
    show ?thesis
    proof (cases "score_of prev")
      case None
      then have "\<forall>n. rget prev ''score'' \<noteq> HNum n" using n by simp
      then show ?thesis using None r by (simp add: flags_of_def)
    next
      case (Some b)
      then have "rget r ''score'' = HNum a" "rget prev ''score'' = HNum b" using r by (simp_all add: score_of_iff)
      then show ?thesis using r Some by (auto simp: flags_of_def)
    qed
  qed
qed

lemma flags_of_Nil: "flags_of default_tolerance r prev = [] \<longleftrightarrow> \<not> isRegression (Some r) (Some prev) None"
  by (auto simp: flags_of_def isRegression_def Let_def split: option.splits)

lemma detectRegressions_Nil:
  "detectRegressions rs (Some ps) default_tolerance = [] \<longleftrightarrow>
     (\<forall>r prev. r \<in> set rs \<longrightarrow> last_with ps (rget r ''id'') prev \<longrightarrow> \<not> isRegression (Some r) (Some prev) None)"
  using in_detectRegressions [of _ rs ps default_tolerance] flags_of_Nil
  by (metis (no_types, lifting) all_not_in_conv set_empty)

section \<open>Two behaviours to know\<close>

text \<open>
  The tolerance is a share of the previous score, subtracted from it: for a negative score the threshold
  is above the score itself, so an unchanged result counts as a regression.
\<close>

lemma tolerance_value: "default_tolerance = Fin (3602879701896397 / 2 ^ 56)"
proof -
  have i: "ilog 2 (1 / 20) = -5" by (rule ilog_unique) (simp_all add: power_int_def power_divide)
  have q: "quantum (1 / 20) = -57" by (simp add: quantum_def i)
  have fl: "\<lfloor>36028797018963968 / 5 :: rat\<rfloor> = 7205759403792793" by (simp add: floor_eq_iff)
  have "round_half_even ((1 / 20) / 2 powi (-57)) = 7205759403792794"
    by (simp add: power_int_def power_divide round_half_even_def Let_def fl)
  then have "round_mag (1 / 20) = 7205759403792794 * 2 powi (-57)" by (simp add: round_mag_def q Let_def)
  then show ?thesis by (simp add: default_tolerance_def to_double_def power_int_def power_divide)
qed

definition negative_result :: replay_result where
  "negative_result = [(u ''id'', HStr (u ''a'')), (u ''score'', HNum (Fin (- 100)))]"

lemma negative_score_regresses: "isRegression (Some negative_result) (Some negative_result) None"
proof -
  let ?q = "100 * (3602879701896397 / 2 ^ 56) :: rat"
  have i: "ilog 2 ?q = 2" by (rule ilog_unique) (simp_all add: power_int_def)
  have q: "quantum ?q = -50" by (simp only: quantum_def i)
  have fl: "\<lfloor>90071992547409925 / 16 :: rat\<rfloor> = 5629499534213120" by (simp add: floor_eq_iff)
  have "round_half_even (?q / 2 powi (-50)) = 5629499534213120"
    by (simp add: power_int_def power_divide round_half_even_def Let_def fl)
  then have m: "round_mag ?q = 5" unfolding round_mag_def q Let_def by (simp add: power_int_def power_divide)
  have "to_double ?q = Fin 5" using m by (simp add: to_double_def)
  then have p: "num_mul default_tolerance (Fin (- 100)) = Fin (- 5)"
    by (simp add: num_mul_def num_negative_def signed_def Let_def tolerance_value)
  have "to_double (of_int (- 95)) = Fin (of_int (- 95))" by (rule to_double_int) simp
  then have "num_sub (Fin (- 100)) (Fin (- 5)) = Fin (- 95)" by (simp add: num_sub_def)
  moreover have "score_of negative_result = Some (Fin (- 100))"
    by (simp add: score_of_def rget_def negative_result_def)
  ultimately show ?thesis by (simp add: isRegression_def Let_def p num_lt_def num_eq_def)
qed

text \<open>
  \<open>error.message\<close> is used as it is.  When it is a symbol the template throws outside the \<open>try\<close> that
  should have replaced it, and the run is lost.
\<close>

lemma symbol_message_throws:
  "settle S G f (Inl (ThrownError (Some (HData False (HOther ''symbol''))))) =
     Inl (TypeErr (u ''Cannot convert to a string''))"
  by (simp add: settle_def failed_result_def failure_message_def failure_text_def slot_get_def)

section \<open>The default evaluator never throws\<close>

definition reads :: "hval \<Rightarrow> bool" where
  "reads v \<longleftrightarrow> (case v of HObj _ _ ds \<Rightarrow> \<not> getter_throws ds | _ \<Rightarrow> True)"

lemma reads_simps [simp]: "reads (ho ps)" "reads (hopt v)" "reads (HBool b)" "reads HUndefined"
  by (auto simp: reads_def ho_def hopt_def getter_throws_def slot_get_def split: option.splits;
      case_tac x2; auto)+

lemma ho_not_hostile: "\<forall>(k, v) \<in> set ps. reads v \<Longrightarrow> \<not> hostile (Inr (ho ps))"
  using reads_simps(1) [of ps] by (fastforce simp: hostile_def ho_def slot_get_def reads_def)

lemma default_not_hostile: "\<not> hostile (Inr (defaultEvaluate fixture policy mode f))"
proof -
  have "reads (case get_opt a k of Some (JBool b) \<Rightarrow> HBool b
            | _ \<Rightarrow> (case get_opt a' k' of Some (JBool b) \<Rightarrow> HBool b | _ \<Rightarrow> HUndefined))" for a k a' k'
    by (simp split: option.splits json.splits)
  then show ?thesis unfolding defaultEvaluate_def Let_def by (intro ho_not_hostile) simp
qed

theorem default_run_returns:
  assumes "mode \<in> u ` set REPLAY_MODES"
  shows "\<exists>run. fst (replayRun S G now mode policy fixtures previousRun None c runs) = Inr run"
proof -
  have s: "\<exists>r. settle S G f (Inr (defaultEvaluate fixture policy mode f)) = Inr r" for fixture f
    using normalize_throws [of "defaultEvaluate fixture policy mode f" f] default_not_hostile
    by (auto simp: settle_def split: sum.splits)
  have ev: "\<exists>rs. evaluate_fixtures S G (default_evaluator policy mode) h i fs c = (Inr rs, c)" for h i fs
  proof (induction fs arbitrary: i)
    case (Cons fx fs)
    obtain r where "settle S G (fallback_id h i) (Inr (defaultEvaluate fx policy mode (fallback_id h i))) = Inr r"
      using s by blast
    then show ?case using Cons.IH [of "Suc i"] by (auto simp: default_evaluator_def)
  qed simp
  show ?thesis
  proof (cases "evaluated fixtures")
    case Nil
    then show ?thesis using assms
      by (auto simp: replayRun_def Let_def evaluated_def split: option.splits json.splits)
  next
    case (Cons f fs)
    then have f: "fixtures = Some (JArr (f # fs))" by (auto simp: evaluated_def split: option.splits json.splits)
    obtain rs where "evaluate_fixtures S G (default_evaluator policy mode)
        (hashInput (JObj (present ''mode'' (Some (JStr mode)) @ present ''policy'' policy @ present ''fixtures'' fixtures)))
        0 (f # fs) c = (Inr rs, c)" using ev by blast
    then show ?thesis using assms by (simp add: replayRun_def Let_def f del: evaluate_fixtures.simps)
  qed
qed

text \<open>Two fixtures, one with an identifier and a verdict and one without anything.\<close>

definition d_fixtures :: "json list" where
  "d_fixtures = [jo [(''id'', js ''f1''), (''pass'', JBool True)], JObj []]"

end
