(* ===== verification/JudgmentRegistry.thy ===== *)
theory JudgmentRegistry
  imports StrictInput
begin

text \<open>
  The registry of a native judgment payload (\<open>packages/kdna-core/src/public-contract/r2-registry.js\<close>):
  one record per typed target, the links between records, and the closure of a selection under mandatory
  links.

  Manifest and payload are JSON values (the caller validates them first; a collection that is not an array
  is a type error here).  The maps of the closure are lists in insertion order; \<open>records\<close>, \<open>ordered\<close> and
  \<open>recordKeys\<close> receive the same entry in the same step and are one list of keyed records.  Every refusal of
  the module throws \<open>READ_CORE_INVALID\<close>; its diagnostic (field and subject) is not represented.
\<close>

section \<open>Targets and their keys\<close>

definition js_ref :: "string \<Rightarrow> json \<Rightarrow> json" where
  "js_ref kind i = jo [(''kind'', js kind), (''id'', i)]"

definition declared_values :: "json option \<Rightarrow> json option" where
  "declared_values d = (if get_opt d ''state'' = Some (js ''provided'') then get_opt d ''value'' else Some (JArr []))"

definition registry_fail :: "exn + 'a" where
  "registry_fail = Inl (PlainError (u ''READ_CORE_INVALID''))"

lemma registry_fail_not_Inr [simp]: "registry_fail \<noteq> Inr x" "Inr x \<noteq> registry_fail"
  by (simp_all add: registry_fail_def)

lemma ebind_registry_fail [simp]: "ebind registry_fail f = registry_fail"
  by (simp add: registry_fail_def)

definition canonical_key :: "json option list \<Rightarrow> exn + jstring" where
  "canonical_key vs = canonicalJson unshared (HArr True 0 (map (\<lambda>v. HData True (hopt v)) vs) [])"

definition target_key :: "json \<Rightarrow> exn + jstring" where
  "target_key t =
     ebind (path (Some t) [''asset'']) (\<lambda>a. ebind (path (Some t) [''kind'']) (\<lambda>k. ebind (path (Some t) [''id'']) (\<lambda>i.
       canonical_key [Some (coalesce a JNull), k, i])))"

definition sameAsset :: "json option \<Rightarrow> json option \<Rightarrow> bool" where
  "sameAsset a b \<longleftrightarrow>
     is_record a \<and> is_record b \<and>
     list_all (\<lambda>k. is_string (get_opt a k) \<and> get_opt a k = get_opt b k)
       [''asset_id'', ''asset_version'', ''judgment_version'']"

section \<open>State and operations\<close>

record registry_entry =
  re_target :: json
  re_owner :: json
  re_value :: json
  re_judgment :: json
  re_path :: jstring
  re_activation :: json

text \<open>\<open>rg_asset\<close> is \<open>payload.asset\<close>; an unresolved link is its source, its target and whether it is mandatory.\<close>

record registry =
  rg_asset :: "json option"
  rg_records :: "(jstring \<times> registry_entry) list"
  rg_edges :: "(jstring \<times> (jstring \<times> bool) list) list"
  rg_roles :: "(jstring \<times> (jstring \<times> (jstring option \<times> bool) list) list) list"
  rg_unresolved :: "(json \<times> json \<times> bool) list"

definition empty_registry :: "json option \<Rightarrow> registry" where
  "empty_registry a = \<lparr>rg_asset = a, rg_records = [], rg_edges = [], rg_roles = [], rg_unresolved = []\<rparr>"

definition is_local :: "registry \<Rightarrow> json \<Rightarrow> exn + bool" where
  "is_local r t = emap (\<lambda>a. \<not> truthy a \<or> sameAsset a (rg_asset r)) (path (Some t) [''asset''])"

definition identity :: "registry \<Rightarrow> json \<Rightarrow> exn + jstring" where
  "identity r t =
     ebind (is_local r t) (\<lambda>here.
       if here
       then ebind (path (Some t) [''kind'']) (\<lambda>k. ebind (path (Some t) [''id'']) (\<lambda>i. canonical_key [Some JNull, k, i]))
       else target_key t)"

definition add_record :: "string \<Rightarrow> json option \<Rightarrow> json \<Rightarrow> json \<Rightarrow> json \<Rightarrow> jstring \<Rightarrow> json \<Rightarrow> registry \<Rightarrow>
    exn + registry_entry \<times> registry" where
  "add_record kind i val owner judgment p activation r =
     (case i of
        None \<Rightarrow> reject
      | Some j \<Rightarrow>
          ebind (identity r (js_ref kind j)) (\<lambda>k.
            if k \<in> fst ` set (rg_records r) then registry_fail
            else let e = \<lparr>re_target = js_ref kind j, re_owner = owner, re_value = val, re_judgment = judgment,
                          re_path = p, re_activation = activation\<rparr>
                 in Inr (e, r\<lparr>rg_records := rg_records r @ [(k, e)], rg_edges := rg_edges r @ [(k, [])],
                              rg_roles := rg_roles r @ [(k, [])]\<rparr>)))"

definition get_record :: "registry \<Rightarrow> json option \<Rightarrow> string list option \<Rightarrow> exn + registry_entry option" where
  "get_record r target kinds =
     (if \<not> is_record target \<or> \<not> is_string (get_opt target ''id'') \<or>
         (case kinds of None \<Rightarrow> False | Some ks \<Rightarrow> \<not> one_of (get_opt target ''kind'') ks)
      then registry_fail
      else ebind (is_local r (the target)) (\<lambda>here.
             if \<not> here then Inr None
             else ebind (identity r (the target)) (\<lambda>k.
                    case map_of (rg_records r) k of None \<Rightarrow> registry_fail | Some e \<Rightarrow> Inr (Some e))))"

text \<open>\<open>map.set(k, Boolean(map.get(k) || b))\<close>, and an update of the value stored under a key.\<close>

definition set_flag :: "'k \<Rightarrow> bool \<Rightarrow> ('k \<times> bool) list \<Rightarrow> ('k \<times> bool) list" where
  "set_flag k b ps = upsert k (map_of ps k = Some True \<or> b) ps"

definition map_at :: "'k \<Rightarrow> ('v \<Rightarrow> 'v) \<Rightarrow> ('k \<times> 'v) list \<Rightarrow> ('k \<times> 'v) list" where
  "map_at k f ps = map (\<lambda>(k', v). (k', if k' = k then f v else v)) ps"

fun note_unresolved :: "registry \<Rightarrow> jstring \<Rightarrow> json \<Rightarrow> json \<Rightarrow> bool \<Rightarrow> (json \<times> json \<times> bool) list \<Rightarrow>
    exn + (json \<times> json \<times> bool) list" where
  "note_unresolved r from_key src target mandatory [] = Inr [(src, target, mandatory)]"
| "note_unresolved r from_key src target mandatory ((s, t, b) # us) =
     ebind (identity r s) (\<lambda>sk.
     ebind (if sk = from_key then ebind (identity r t) (\<lambda>tk. emap (\<lambda>k. tk = k) (identity r target)) else Inr False) (\<lambda>same.
       if same then Inr ((s, t, b \<or> mandatory) # us)
       else emap ((#) (s, t, b)) (note_unresolved r from_key src target mandatory us)))"

definition link_records :: "json \<Rightarrow> json option \<Rightarrow> bool \<Rightarrow> string list option \<Rightarrow> jstring option \<Rightarrow> registry \<Rightarrow>
    exn + registry_entry option \<times> registry" where
  "link_records src target mandatory kinds role r =
     ebind (get_record r target kinds) (\<lambda>found.
     ebind (identity r src) (\<lambda>from_key.
       if from_key \<notin> fst ` set (rg_records r) then registry_fail
       else case found of
         None \<Rightarrow>
           emap (\<lambda>us. (None, r\<lparr>rg_unresolved := us\<rparr>))
             (note_unresolved r from_key src (the target) mandatory (rg_unresolved r))
       | Some e \<Rightarrow>
           ebind (identity r (the target)) (\<lambda>k.
             Inr (Some e,
                  r\<lparr>rg_edges := map_at from_key (set_flag k mandatory) (rg_edges r),
                    rg_roles := map_at from_key (\<lambda>bt. upsert k (set_flag role mandatory
                                  (case map_of bt k of None \<Rightarrow> [] | Some rs \<Rightarrow> rs)) bt) (rg_roles r)\<rparr>))))"

definition qualified_judgment :: "json \<Rightarrow> exn + json" where
  "qualified_judgment v =
     ebind (path (Some v) [''kind'']) (\<lambda>k. ebind (path (Some v) [''judgment_id'']) (\<lambda>j. ebind (path (Some v) [''asset'']) (\<lambda>a.
       Inr (JObj ([(u ''kind'', js ''judgment'')] @ (case j of None \<Rightarrow> [] | Some x \<Rightarrow> [(u ''id'', x)]) @
                  (if k = Some (js ''local'') then [] else case a of None \<Rightarrow> [] | Some x \<Rightarrow> [(u ''asset'', x)]))))))"

section \<open>Closure\<close>

definition mandatory_targets :: "registry \<Rightarrow> jstring \<Rightarrow> jstring list" where
  "mandatory_targets r k = (case map_of (rg_edges r) k of None \<Rightarrow> [] | Some es \<Rightarrow> map fst (filter snd es))"

text \<open>The loop over the queue; the part of the queue before the loop index is not kept.\<close>

function closure_loop :: "registry \<Rightarrow> jstring set \<Rightarrow> jstring list \<Rightarrow> exn + jstring set" where
  "closure_loop r selected [] = Inr selected"
| "closure_loop r selected (current # queue) =
     (if current \<in> selected then closure_loop r selected queue
      else if current \<notin> fst ` set (rg_records r) then registry_fail
      else closure_loop r (insert current selected) (queue @ mandatory_targets r current))"
  by pat_completeness auto
termination
proof (relation "measures [\<lambda>(r, selected, queue). card (fst ` set (rg_records r) - selected), \<lambda>(r, selected, queue). length queue]")
  fix r :: registry and selected current queue
  assume "current \<notin> selected" "\<not> current \<notin> fst ` set (rg_records r)"
  then have "fst ` set (rg_records r) - insert current selected \<subset> fst ` set (rg_records r) - selected" by blast
  then show "((r, insert current selected, queue @ mandatory_targets r current), r, selected, current # queue)
      \<in> measures [\<lambda>(r, selected, queue). card (fst ` set (rg_records r) - selected), \<lambda>(r, selected, queue). length queue]"
    by (simp add: psubset_card_mono)
qed simp_all

definition closure_of :: "registry \<Rightarrow> json list \<Rightarrow> exn + registry_entry list" where
  "closure_of r seeds =
     ebind (mapE (identity r) seeds) (\<lambda>queue.
       emap (\<lambda>selected. map snd (filter (\<lambda>(k, e). k \<in> selected) (rg_records r))) (closure_loop r {} queue))"

section \<open>The invariant\<close>

abbreviation record_keys :: "registry \<Rightarrow> jstring list" where
  "record_keys r \<equiv> map fst (rg_records r)"

definition any_flag :: "('k \<times> bool) list \<Rightarrow> bool" where
  "any_flag rs \<longleftrightarrow> (\<exists>k. map_of rs k = Some True)"

text \<open>An edge is mandatory exactly when one of the roles declared on the pair is.\<close>

definition flags_agree :: "(jstring \<times> bool) list \<Rightarrow> (jstring \<times> (jstring option \<times> bool) list) list \<Rightarrow> bool" where
  "flags_agree es bt \<longleftrightarrow> (\<forall>k. map_of es k = map_option any_flag (map_of bt k))"

definition registry_ok :: "registry \<Rightarrow> bool" where
  "registry_ok r \<longleftrightarrow>
     distinct (record_keys r) \<and> map fst (rg_edges r) = record_keys r \<and>
     (\<forall>(k, e) \<in> set (rg_records r). identity r (re_target e) = Inr k) \<and>
     (\<forall>es \<in> snd ` set (rg_edges r). distinct (map fst es) \<and> fst ` set es \<subseteq> set (record_keys r)) \<and>
     list_all2 (\<lambda>(k, es) (k', bt). k = k' \<and> flags_agree es bt) (rg_edges r) (rg_roles r)"

lemma identity_cong: "rg_asset r' = rg_asset r \<Longrightarrow> identity r' t = identity r t"
  by (simp add: identity_def is_local_def)

lemma identity_upd [simp]:
  "identity (r\<lparr>rg_records := x\<rparr>) t = identity r t" "identity (r\<lparr>rg_edges := y\<rparr>) t = identity r t"
  "identity (r\<lparr>rg_roles := z\<rparr>) t = identity r t" "identity (r\<lparr>rg_unresolved := w\<rparr>) t = identity r t"
  by (simp_all add: identity_def is_local_def)

lemma empty_registry_ok: "registry_ok (empty_registry a)"
  by (simp add: registry_ok_def empty_registry_def)

lemma map_of_set_flag: "map_of (set_flag k b ps) = (map_of ps)(k \<mapsto> map_of ps k = Some True \<or> b)"
  by (simp add: set_flag_def)

lemma any_flag_set_flag: "any_flag (set_flag k b ps) \<longleftrightarrow> any_flag ps \<or> b"
  by (auto simp: any_flag_def map_of_set_flag)

lemma any_flag_Nil [simp]: "\<not> any_flag []"
  by (simp add: any_flag_def)

lemma keys_map_at [simp]: "map fst (map_at k f ps) = map fst ps"
  by (induction ps) (auto simp: map_at_def)

lemma set_keys_set_flag: "fst ` set (set_flag k b ps) = insert k (fst ` set ps)"
proof -
  have "dom (map_of (set_flag k b ps)) = insert k (dom (map_of ps))" by (simp add: map_of_set_flag)
  then show ?thesis by (simp add: dom_map_of_conv_image_fst)
qed

lemma flags_agree_set:
  "flags_agree es bt \<Longrightarrow>
   flags_agree (set_flag k b es) (upsert k (set_flag role b (case map_of bt k of None \<Rightarrow> [] | Some rs \<Rightarrow> rs)) bt)"
  unfolding flags_agree_def map_of_set_flag map_of_upsert
  by (cases "map_of bt k") (simp_all add: any_flag_set_flag)

lemma values_map_at: "v \<in> snd ` set (map_at k f ps) \<Longrightarrow> \<exists>w \<in> snd ` set ps. v = w \<or> v = f w"
  by (force simp: map_at_def split: if_splits)

lemma list_all2_map_at:
  assumes "list_all2 (\<lambda>(k, x) (k', y). k = k' \<and> P x y) xs ys" "\<And>x y. P x y \<Longrightarrow> P (f x) (g y)"
  shows "list_all2 (\<lambda>(k, x) (k', y). k = k' \<and> P x y) (map_at k f xs) (map_at k g ys)"
  using assms(1) by (induction xs ys rule: list_all2_induct) (auto simp: map_at_def assms(2))

text \<open>Every operation only appends records and keeps the invariant.\<close>

definition extends_registry :: "registry \<Rightarrow> registry \<Rightarrow> bool" where
  "extends_registry r r' \<longleftrightarrow>
     rg_asset r' = rg_asset r \<and> (\<exists>more. rg_records r' = rg_records r @ more) \<and> (registry_ok r \<longrightarrow> registry_ok r')"

lemma extends_refl [simp]: "extends_registry r r"
  by (simp add: extends_registry_def)

lemma extends_trans: "extends_registry a b \<Longrightarrow> extends_registry b c \<Longrightarrow> extends_registry a c"
  by (auto simp: extends_registry_def)

lemma add_record_eq:
  assumes "add_record kind i val owner judgment p activation r = Inr (e, r')"
  obtains j k where "i = Some j" "identity r (js_ref kind j) = Inr k" "k \<notin> fst ` set (rg_records r)"
    "e = \<lparr>re_target = js_ref kind j, re_owner = owner, re_value = val, re_judgment = judgment, re_path = p,
          re_activation = activation\<rparr>"
    "r' = r\<lparr>rg_records := rg_records r @ [(k, e)], rg_edges := rg_edges r @ [(k, [])], rg_roles := rg_roles r @ [(k, [])]\<rparr>"
  using assms by (auto simp: add_record_def Let_def result_simps reject_def split: option.splits if_splits)

lemma add_record_entry:
  "add_record kind i val owner judgment p activation r = Inr (e, r') \<Longrightarrow>
   \<exists>k j. (k, e) \<in> set (rg_records r') \<and> re_value e = val \<and> i = Some j \<and> re_target e = js_ref kind j"
  by (erule add_record_eq) auto

lemma add_record_extends:
  assumes "add_record kind i val owner judgment p activation r = Inr (e, r')"
  shows "extends_registry r r'"
  using assms
proof (rule add_record_eq)
  fix j k
  assume a: "i = Some j" "identity r (js_ref kind j) = Inr k" "k \<notin> fst ` set (rg_records r)"
    and e: "e = \<lparr>re_target = js_ref kind j, re_owner = owner, re_value = val, re_judgment = judgment, re_path = p,
          re_activation = activation\<rparr>"
    and r': "r' = r\<lparr>rg_records := rg_records r @ [(k, e)], rg_edges := rg_edges r @ [(k, [])], rg_roles := rg_roles r @ [(k, [])]\<rparr>"
  have "registry_ok r'" if ok: "registry_ok r"
  proof -
    have "list_all2 (\<lambda>(k, es) (k', bt). k = k' \<and> flags_agree es bt) (rg_edges r @ [(k, [])]) (rg_roles r @ [(k, [])])"
      using ok by (auto simp: registry_ok_def flags_agree_def intro: list_all2_appendI)
    moreover have "\<forall>es \<in> snd ` set (rg_edges r @ [(k, [])]). distinct (map fst es) \<and> fst ` set es \<subseteq> set (record_keys r @ [k])"
      using ok by (simp add: registry_ok_def) blast
    ultimately show ?thesis using ok a by (simp add: registry_ok_def r' e)
  qed
  then show "extends_registry r r'" by (simp add: extends_registry_def r')
qed

lemma link_records_eq:
  assumes "link_records src target mandatory kinds role r = Inr (found, r')"
  obtains us where "r' = r\<lparr>rg_unresolved := us\<rparr>" "found = None"
  | e k from_key where "get_record r target kinds = Inr (Some e)" "found = Some e" "identity r src = Inr from_key"
    "identity r (the target) = Inr k"
    "r' = r\<lparr>rg_edges := map_at from_key (set_flag k mandatory) (rg_edges r),
            rg_roles := map_at from_key (\<lambda>bt. upsert k (set_flag role mandatory
                          (case map_of bt k of None \<Rightarrow> [] | Some rs \<Rightarrow> rs)) bt) (rg_roles r)\<rparr>"
  using assms by (auto simp: link_records_def result_simps split: option.splits if_splits)

lemma get_record_known:
  assumes "get_record r target kinds = Inr (Some e)" "identity r (the target) = Inr k"
  shows "(k, e) \<in> set (rg_records r)"
  using assms by (auto simp: get_record_def result_simps split: if_splits option.splits dest: map_of_SomeD)

lemma link_records_extends:
  assumes "link_records src target mandatory kinds role r = Inr (found, r')"
  shows "extends_registry r r'"
  using assms
proof (rule link_records_eq)
  fix us
  assume "r' = r\<lparr>rg_unresolved := us\<rparr>"
  then show ?thesis by (simp add: extends_registry_def registry_ok_def)
next
  fix e k from_key
  assume g: "get_record r target kinds = Inr (Some e)" "identity r (the target) = Inr k"
    and r': "r' = r\<lparr>rg_edges := map_at from_key (set_flag k mandatory) (rg_edges r),
            rg_roles := map_at from_key (\<lambda>bt. upsert k (set_flag role mandatory
                          (case map_of bt k of None \<Rightarrow> [] | Some rs \<Rightarrow> rs)) bt) (rg_roles r)\<rparr>"
  have k: "k \<in> set (record_keys r)" using get_record_known [OF g] by force
  have "registry_ok r'" if ok: "registry_ok r"
  proof -
    have "list_all2 (\<lambda>(k, es) (k', bt). k = k' \<and> flags_agree es bt)
        (map_at from_key (set_flag k mandatory) (rg_edges r))
        (map_at from_key (\<lambda>bt. upsert k (set_flag role mandatory
                          (case map_of bt k of None \<Rightarrow> [] | Some rs \<Rightarrow> rs)) bt) (rg_roles r))"
      using ok flags_agree_set by (intro list_all2_map_at) (auto simp: registry_ok_def)
    moreover have "distinct (map fst es) \<and> fst ` set es \<subseteq> set (record_keys r)"
      if "es \<in> snd ` set (map_at from_key (set_flag k mandatory) (rg_edges r))" for es
    proof -
      note v = that
      obtain fs where fs: "fs \<in> snd ` set (rg_edges r)" "es = fs \<or> es = set_flag k mandatory fs"
        using values_map_at [OF v] by blast
      have "distinct (map fst fs) \<and> fst ` set fs \<subseteq> set (record_keys r)" using ok fs(1) by (simp only: registry_ok_def)
      then show ?thesis using fs(2) k set_keys_set_flag [of k mandatory fs]
        by (elim disjE) (simp_all add: set_flag_def distinct_upsert)
    qed
    ultimately show ?thesis using ok by (simp add: registry_ok_def r')
  qed
  then show ?thesis by (simp add: extends_registry_def r')
qed

section \<open>Reachable registries\<close>

inductive registry_step :: "registry \<Rightarrow> registry \<Rightarrow> bool" where
  added: "add_record kind i val owner judgment p activation r = Inr (e, r') \<Longrightarrow> registry_step r r'"
| linked: "link_records src target mandatory kinds role r = Inr (found, r') \<Longrightarrow> registry_step r r'"

inductive_cases registry_stepE: "registry_step r r'"

lemma registry_step_extends: "registry_step r r' \<Longrightarrow> extends_registry r r'"
  by (erule registry_stepE) (auto intro: add_record_extends link_records_extends)

inductive registry_reachable :: "json option \<Rightarrow> registry \<Rightarrow> bool" for a where
  start: "registry_reachable a (empty_registry a)"
| step: "registry_reachable a r \<Longrightarrow> registry_step r r' \<Longrightarrow> registry_reachable a r'"

lemma reachable_ok: "registry_reachable a r \<Longrightarrow> registry_ok r \<and> rg_asset r = a"
proof (induction rule: registry_reachable.induct)
  case start
  then show ?case by (simp add: empty_registry_ok) (simp add: empty_registry_def)
next
  case (step r r')
  then show ?case using registry_step_extends [of r r'] by (simp add: extends_registry_def)
qed

lemma registry_ok_links:
  assumes "registry_ok r"
  shows "distinct (record_keys r) \<and> map fst (rg_edges r) = record_keys r \<and> map fst (rg_roles r) = record_keys r \<and>
    (\<forall>(k, e) \<in> set (rg_records r). identity r (re_target e) = Inr k) \<and>
    (\<forall>(k, es) \<in> set (rg_edges r). distinct (map fst es) \<and> fst ` set es \<subseteq> set (record_keys r)) \<and>
    list_all2 (\<lambda>(k, es) (k', bt). k = k' \<and>
        (\<forall>t. map_of es t = map_option (\<lambda>roles. \<exists>role. map_of roles role = Some True) (map_of bt t)))
      (rg_edges r) (rg_roles r)"
proof -
  have roles: "list_all2 (\<lambda>(k, es) (k', bt). k = k' \<and> flags_agree es bt) (rg_edges r) (rg_roles r)"
    and keys: "map fst (rg_edges r) = record_keys r" using assms by (simp_all only: registry_ok_def)
  have "map fst es = map fst bts" if "list_all2 (\<lambda>(k, es) (k', bt). k = k' \<and> flags_agree es bt) es bts" for es bts
    using that by (induction rule: list_all2_induct) auto
  from this [OF roles] have "map fst (rg_roles r) = record_keys r" using keys by simp
  moreover have "list_all2 (\<lambda>(k, es) (k', bt). k = k' \<and>
      (\<forall>t. map_of es t = map_option (\<lambda>roles. \<exists>role. map_of roles role = Some True) (map_of bt t))) (rg_edges r) (rg_roles r)"
    using roles by (rule list_all2_mono) (simp add: flags_agree_def any_flag_def [abs_def] split_def)
  ultimately show ?thesis using assms by (force simp: registry_ok_def)
qed

section \<open>The closure is reachability\<close>

definition mandatory_edges :: "registry \<Rightarrow> (jstring \<times> jstring) set" where
  "mandatory_edges r = {(k, t). \<exists>es. map_of (rg_edges r) k = Some es \<and> (t, True) \<in> set es}"

lemma mandatory_edges_targets: "(k, t) \<in> mandatory_edges r \<longleftrightarrow> t \<in> set (mandatory_targets r k)"
  by (force simp: mandatory_edges_def mandatory_targets_def split: option.split)

lemma mandatory_targets_known:
  assumes "registry_ok r"
  shows "set (mandatory_targets r k) \<subseteq> set (record_keys r)"
proof (cases "map_of (rg_edges r) k")
  case (Some es)
  then have "es \<in> snd ` set (rg_edges r)" by (force dest: map_of_SomeD)
  then have "fst ` set es \<subseteq> set (record_keys r)" using assms by (simp only: registry_ok_def)
  then show ?thesis using Some by (auto simp: mandatory_targets_def)
qed (simp add: mandatory_targets_def)

lemma closure_loop_sound:
  assumes "closure_loop r selected queue = Inr s"
  shows "selected \<subseteq> s \<and> set queue \<subseteq> s \<and> s \<subseteq> selected \<union> (mandatory_edges r)\<^sup>* `` set queue \<and>
    (\<forall>k \<in> s - selected. k \<in> set (record_keys r) \<and> set (mandatory_targets r k) \<subseteq> s)"
  using assms
proof (induction r selected queue rule: closure_loop.induct)
  case (2 r selected current queue)
  show ?case
  proof (cases "current \<in> selected")
    case True
    then show ?thesis using "2.IH"(1) [OF True] "2.prems" by auto
  next
    case False
    then have known: "current \<in> fst ` set (rg_records r)" and
      run: "closure_loop r (insert current selected) (queue @ mandatory_targets r current) = Inr s"
      using "2.prems" by (auto split: if_splits)
    note ih = "2.IH"(2) [OF False _ run]
    have "(mandatory_edges r)\<^sup>* `` set (mandatory_targets r current) \<subseteq> (mandatory_edges r)\<^sup>* `` {current}"
      by (auto simp: mandatory_edges_targets intro: converse_rtrancl_into_rtrancl)
    then show ?thesis using ih known by (auto simp: Image_Un) blast+
  qed
qed auto

lemma closure_loop_total:
  assumes "registry_ok r" "set queue \<subseteq> set (record_keys r)"
  shows "\<exists>s. closure_loop r selected queue = Inr s"
  using assms
proof (induction r selected queue rule: closure_loop.induct)
  case (2 r selected current queue)
  then show ?case using mandatory_targets_known [of r current] by (cases "current \<in> selected") auto
qed simp

lemma closure_loop_iff:
  assumes "registry_ok r"
  shows "closure_loop r {} queue = Inr s \<longleftrightarrow>
    set queue \<subseteq> set (record_keys r) \<and> s = (mandatory_edges r)\<^sup>* `` set queue"
proof -
  have *: "set queue \<subseteq> set (record_keys r) \<and> s = (mandatory_edges r)\<^sup>* `` set queue" if "closure_loop r {} queue = Inr s" for s
  proof -
    note c = closure_loop_sound [OF that]
    have "y \<in> s" if "x \<in> s" "(x, y) \<in> (mandatory_edges r)\<^sup>*" for x y
      using that(2,1) by (induction rule: rtrancl_induct) (use c in \<open>auto simp: mandatory_edges_targets\<close>)
    then show ?thesis using c by blast
  qed
  show ?thesis using * closure_loop_total [OF assms, of queue "{}"] by (metis sum.sel(2))
qed

text \<open>The records a selection needs: those reachable over mandatory links, in declaration order.\<close>

theorem closure_exact:
  assumes "registry_ok r"
  shows "closure_of r seeds = Inr es \<longleftrightarrow>
    (\<exists>keys. mapE (identity r) seeds = Inr keys \<and> set keys \<subseteq> set (record_keys r) \<and>
       es = map snd (filter (\<lambda>(k, e). \<exists>s \<in> set keys. (s, k) \<in> (mandatory_edges r)\<^sup>*) (rg_records r)))"
proof -
  have f: "(k \<in> (mandatory_edges r)\<^sup>* `` set keys) \<longleftrightarrow> (\<exists>s \<in> set keys. (s, k) \<in> (mandatory_edges r)\<^sup>*)" for k keys by blast
  show ?thesis
    by (auto simp: closure_of_def ebind_Inr_conv emap_Inr_conv closure_loop_iff [OF assms] f)
qed

section \<open>Filling the registry from a payload\<close>

type_synonym filler = "registry \<Rightarrow> exn + registry"

definition js_list :: "json option \<Rightarrow> exn + json list" where
  "js_list v = (case v of Some (JArr xs) \<Rightarrow> Inr xs | _ \<Rightarrow> Inl (TypeErr (u ''is not iterable'')))"

fun in_turn :: "filler list \<Rightarrow> filler" where
  "in_turn [] r = Inr r"
| "in_turn (f # fs) r = ebind (f r) (in_turn fs)"

text \<open>\<open>for (const [i, x] of v.entries())\<close>, for a value whose evaluation may throw.\<close>

definition for_each :: "exn + json option \<Rightarrow> (nat \<Rightarrow> json \<Rightarrow> filler) \<Rightarrow> filler" where
  "for_each v body r =
     ebind v (\<lambda>w. ebind (js_list w) (\<lambda>xs. in_turn (map (\<lambda>(i, x). body i x) (List.enumerate 0 xs)) r))"

text \<open>\<open>owned(..)\<close> with the rest of the block that uses the record it returns.\<close>

definition owned :: "string \<Rightarrow> json option \<Rightarrow> json \<Rightarrow> json \<Rightarrow> jstring \<Rightarrow> json \<Rightarrow> (registry_entry \<Rightarrow> filler) \<Rightarrow> filler" where
  "owned kind object owner judgment p activation rest r =
     ebind (path object [''id'']) (\<lambda>i.
     ebind (add_record kind i (the object) owner judgment p activation r) (\<lambda>(e, r'). rest e r'))"

abbreviation finished :: "registry_entry \<Rightarrow> filler" where
  "finished \<equiv> (\<lambda>e r. Inr r)"

definition always :: json where "always = jo [(''kind'', js ''always'')]"

definition by_exception :: "json \<Rightarrow> json" where
  "by_exception target = jo [(''kind'', js ''exception''), (''exception_ref'', target)]"

text \<open>\<open>boundaries\<close>, \<open>exceptions\<close> and \<open>misuse\<close> are the three iterated values.\<close>

definition restrictions :: "exn + json option \<Rightarrow> exn + json option \<Rightarrow> exn + json option \<Rightarrow> json \<Rightarrow> json \<Rightarrow> jstring \<Rightarrow> filler" where
  "restrictions boundaries exceptions misuse owner judgment p =
     in_turn
       [for_each boundaries (\<lambda>i b. owned ''boundary'' (Some b) owner judgment (p @ u ''/boundaries'') always finished),
        for_each exceptions (\<lambda>i e.
          owned ''exception'' (Some e) owner judgment (p @ u ''/exceptions'') JNull (\<lambda>exception r.
            ebind (path (Some e) [''effect'', ''kind'']) (\<lambda>k.
              if k = Some (js ''replace_limit'')
              then ebind (path (Some e) [''effect'', ''replacement'']) (\<lambda>replacement.
                     owned ''boundary'' replacement (re_target exception) judgment (p @ u ''/exceptions/replacement'')
                       (by_exception (re_target exception)) finished r)
              else Inr r))),
        for_each misuse (\<lambda>i m. owned ''misuse'' (Some m) owner judgment (p @ u ''/misuse'') JNull finished)]"

definition collections :: "(string \<times> string) list" where
  "collections =
     [(''actor'', ''actors''), (''material'', ''materials''), (''reason'', ''reasons''), (''source'', ''sources''),
      (''source_use'', ''source_uses''), (''resource'', ''resources''), (''relationship'', ''relationships''),
      (''dependency'', ''dependencies''), (''contract'', ''contracts''), (''condition'', ''conditions''),
      (''shared_declaration'', ''shared_declarations''), (''example'', ''examples'')]"

text \<open>\<open>v ?? []\<close>\<close>

definition or_empty :: "exn + json option \<Rightarrow> exn + json option" where
  "or_empty v = emap (\<lambda>w. Some (coalesce w (JArr []))) v"

definition register_method :: "json \<Rightarrow> json \<Rightarrow> json \<Rightarrow> jstring \<Rightarrow> filler" where
  "register_method judgment target i p =
     in_turn
       [for_each (path (Some judgment) [''method'', ''components''])
          (\<lambda>_ c. owned ''component'' (Some c) target i (p @ u ''/method/components'') JNull finished),
        for_each (or_empty (path (Some judgment) [''method'', ''units'']))
          (\<lambda>_ x. owned ''unit'' (Some x) target i (p @ u ''/method/units'') JNull finished),
        (\<lambda>r. ebind (path (Some judgment) [''method'', ''plan'']) (\<lambda>plan.
           if truthy plan
           then owned ''plan'' plan target i (p @ u ''/method/plan'') JNull (\<lambda>e.
                  for_each (path plan [''nodes'']) (\<lambda>_ node.
                    owned ''plan_node'' (Some node) (re_target e) i (p @ u ''/method/plan/nodes'') JNull finished)) r
           else Inr r))]"

definition register_policy :: "json \<Rightarrow> json \<Rightarrow> json \<Rightarrow> jstring \<Rightarrow> filler" where
  "register_policy judgment target i p r =
     ebind (path (Some judgment) [''formation_rule'']) (\<lambda>rule.
       let policy = get_opt rule ''policy'' in
       if truthy policy
       then owned ''policy'' policy target i (p @ u ''/formation_rule/policy'') JNull (\<lambda>e. in_turn
              [for_each (path policy [''entries'']) (\<lambda>_ x.
                 owned ''branch_entry'' (Some x) (re_target e) i (re_path e @ u ''/entries'') JNull finished),
               for_each (path policy [''candidates'']) (\<lambda>_ x.
                 owned ''candidate'' (Some x) (re_target e) i (re_path e @ u ''/candidates'') JNull finished)]) r
       else Inr r)"

definition judgment_fillers :: "json \<Rightarrow> jstring \<Rightarrow> registry_entry \<Rightarrow> filler list" where
  "judgment_fillers judgment p e =
     (let target = re_target e; i = re_judgment e; declared = (\<lambda>k. emap declared_values (path (Some judgment) [k])) in
      [(\<lambda>r. ebind (path (Some judgment) [''result_contract'']) (\<lambda>c.
         owned ''contract'' c target i (p @ u ''/result_contract'') JNull finished r)),
       (\<lambda>r. ebind (path (Some judgment) [''result'']) (\<lambda>result.
         if truthy result
         then emap snd (add_record ''result'' (Some i) (the result) target i (p @ u ''/result'') JNull r)
         else Inr r)),
       register_method judgment target i p,
       register_policy judgment target i p,
       restrictions (declared ''boundaries'') (declared ''exceptions'') (declared ''misuse'') target i p])"

definition register_judgment :: "json \<Rightarrow> nat \<Rightarrow> json \<Rightarrow> filler" where
  "register_judgment asset n judgment =
     (let p = u ''/payload/judgments/'' @ index_text n in
      owned ''judgment'' (Some judgment) asset (coalesce (get_opt (Some judgment) ''id'') JNull) p JNull
        (\<lambda>e. in_turn (judgment_fillers judgment p e)))"

definition payload_fillers :: "json \<Rightarrow> json \<Rightarrow> json \<Rightarrow> filler list" where
  "payload_fillers manifest payload asset =
     map (\<lambda>(kind, collection).
       for_each (or_empty (path (Some payload) [collection])) (\<lambda>i x.
         owned kind (Some x) asset JNull (u ''/payload/'' @ u collection @ u ''/'' @ index_text i) JNull finished)) collections @
     [restrictions (emap declared_values (path (Some payload) [''declarations'', ''boundaries'']))
        (path (Some payload) [''exceptions'']) (path (Some payload) [''misuse'']) asset JNull (u ''/payload/declarations''),
      for_each (path (Some payload) [''judgments'']) (register_judgment asset),
      for_each (path (Some payload) [''examples'']) (\<lambda>_ example.
        for_each (path (Some example) [''results'']) (\<lambda>_ result.
          owned ''example_result'' (Some result) (js_ref ''example'' (coalesce (get_opt (Some example) ''id'') JNull))
            JNull (u ''/payload/examples/results'') JNull finished)),
      for_each (path (Some manifest) [''history'', ''entries'']) (\<lambda>_ revision.
        owned ''revision'' (Some revision) asset JNull (u ''/manifest/history/entries'') JNull finished)]"

definition createRegistry :: "json \<Rightarrow> json \<Rightarrow> exn + registry" where
  "createRegistry manifest payload =
     ebind (path (Some manifest) [''asset_uid'']) (\<lambda>uid.
       let asset = js_ref ''asset'' (coalesce uid JNull) in
       ebind (add_record ''asset'' uid JNull asset JNull (u ''/manifest'') JNull (empty_registry (get_opt (Some payload) ''asset'')))
         (\<lambda>(e, r0). in_turn (payload_fillers manifest payload asset) r0))"

section \<open>What filling gives\<close>

definition registry_added :: "registry \<Rightarrow> registry \<Rightarrow> bool" where
  "registry_added r r' \<longleftrightarrow>
     (\<exists>kind i val owner judgment p activation e. add_record kind i val owner judgment p activation r = Inr (e, r'))"

lemma registry_addedI: "add_record kind i val owner judgment p activation r = Inr (e, r') \<Longrightarrow> registry_added r r'"
  unfolding registry_added_def by blast

definition fills :: "filler \<Rightarrow> bool" where
  "fills f \<longleftrightarrow> (\<forall>r r'. f r = Inr r' \<longrightarrow> registry_added\<^sup>*\<^sup>* r r')"

named_theorems filling \<open>operations that only add records\<close>

lemma fills_finished [filling]: "fills (finished e)"
  by (simp add: fills_def)

lemma fills_in_turn [filling]: "(\<And>f. f \<in> set fs \<Longrightarrow> fills f) \<Longrightarrow> fills (in_turn fs)"
  unfolding fills_def
proof (induction fs)
  case (Cons f fs)
  show ?case
  proof (intro allI impI)
    fix r r'
    assume "in_turn (f # fs) r = Inr r'"
    then obtain m where "f r = Inr m" "in_turn fs m = Inr r'" by (auto simp: ebind_Inr_conv)
    then show "registry_added\<^sup>*\<^sup>* r r'" using Cons by (meson list.set_intros rtranclp_trans)
  qed
qed simp

lemma fills_for_each [filling]:
  assumes "\<And>i x. fills (body i x)"
  shows "fills (for_each v body)"
  unfolding fills_def
proof (intro allI impI)
  fix r r'
  assume "for_each v body r = Inr r'"
  then obtain xs where "in_turn (map (\<lambda>(i, x). body i x) (List.enumerate 0 xs)) r = Inr r'"
    by (auto simp: for_each_def ebind_Inr_conv)
  moreover have "fills (in_turn (map (\<lambda>(i, x). body i x) (List.enumerate 0 xs)))"
    by (rule fills_in_turn) (use assms in auto)
  ultimately show "registry_added\<^sup>*\<^sup>* r r'" by (simp add: fills_def)
qed

lemma owned_eq:
  assumes "owned kind object owner judgment p activation rest r = Inr r'"
  obtains i e m where "path object [''id''] = Inr i" "add_record kind i (the object) owner judgment p activation r = Inr (e, m)"
    "rest e m = Inr r'"
  using assms by (auto simp: owned_def ebind_Inr_conv)

lemma fills_owned [filling]:
  assumes "\<And>e. fills (rest e)"
  shows "fills (owned kind object owner judgment p activation rest)"
  unfolding fills_def
proof (intro allI impI)
  fix r r'
  assume "owned kind object owner judgment p activation rest r = Inr r'"
  then obtain i e m where "add_record kind i (the object) owner judgment p activation r = Inr (e, m)" "rest e m = Inr r'"
    by (rule owned_eq)
  then show "registry_added\<^sup>*\<^sup>* r r'" using assms
    by (auto simp: fills_def dest!: registry_addedI intro: converse_rtranclp_into_rtranclp)
qed

lemma fills_read [filling]: "(\<And>v. fills (f v)) \<Longrightarrow> fills (\<lambda>r. ebind m (\<lambda>v. f v r))"
  by (auto simp: fills_def ebind_Inr_conv)

lemma fills_if [filling]: "fills f \<Longrightarrow> fills g \<Longrightarrow> fills (\<lambda>r. if b then f r else g r)"
  by (simp add: fills_def)

lemma fills_nothing [filling]: "fills Inr"
  by (simp add: fills_def)

lemma fills_add [filling]: "fills (\<lambda>r. emap snd (add_record kind i val owner judgment p activation r))"
  by (auto simp: fills_def emap_Inr_conv dest!: registry_addedI)

lemma fills_restrictions [filling]: "fills (restrictions b e m owner judgment p)"
  unfolding restrictions_def by (rule fills_in_turn) (auto intro!: filling)

lemma fills_method [filling]: "fills (register_method judgment target i p)"
  unfolding register_method_def by (rule fills_in_turn) (auto intro!: filling)

lemma fills_policy [filling]: "fills (register_policy judgment target i p)"
  unfolding register_policy_def [abs_def] Let_def
  by (intro fills_read fills_if fills_owned fills_in_turn fills_nothing) (auto intro!: filling)

lemma fills_judgment_part: "f \<in> set (judgment_fillers judgment p e) \<Longrightarrow> fills f"
  by (auto simp: judgment_fillers_def Let_def intro!: filling)

lemma fills_judgment [filling]: "fills (register_judgment asset n judgment)"
  unfolding register_judgment_def Let_def by (intro fills_owned fills_in_turn fills_judgment_part)

text \<open>Every step of a sequence ran between the beginning and the end.\<close>

lemma in_turn_member:
  assumes "in_turn fs r = Inr r'" "f \<in> set fs" "\<And>g. g \<in> set fs \<Longrightarrow> fills g"
  shows "\<exists>a b. f a = Inr b \<and> registry_added\<^sup>*\<^sup>* b r'"
  using assms
proof (induction fs arbitrary: r)
  case (Cons g fs)
  then obtain m where m: "g r = Inr m" "in_turn fs m = Inr r'" by (auto simp: ebind_Inr_conv)
  show ?case
  proof (cases "f = g")
    case True
    have "fills (in_turn fs)" by (rule fills_in_turn) (use Cons.prems(3) in simp)
    then show ?thesis using True m by (auto simp: fills_def)
  next
    case False
    then show ?thesis using Cons.IH [OF m(2)] Cons.prems by simp
  qed
qed simp

lemma for_each_member:
  assumes "for_each v body r = Inr r'" "v = Inr (Some (JArr xs))" "x \<in> set xs" "\<And>i x. fills (body i x)"
  shows "\<exists>i a b. body i x a = Inr b \<and> registry_added\<^sup>*\<^sup>* b r'"
proof -
  have run: "in_turn (map (\<lambda>(i, x). body i x) (List.enumerate 0 xs)) r = Inr r'"
    using assms(1,2) by (simp add: for_each_def js_list_def)
  obtain i where "i < length xs" "x = xs ! i" using assms(3) by (auto simp: in_set_conv_nth)
  then have "(i, x) \<in> set (List.enumerate 0 xs)" by (simp add: in_set_enumerate_eq)
  then have "body i x \<in> set (map (\<lambda>(i, x). body i x) (List.enumerate 0 xs))" by force
  moreover have "\<And>g. g \<in> set (map (\<lambda>(i, x). body i x) (List.enumerate 0 xs)) \<Longrightarrow> fills g" using assms(4) by auto
  ultimately show ?thesis using in_turn_member [OF run] by blast
qed

lemma registry_added_keeps:
  assumes "registry_added\<^sup>*\<^sup>* r r'"
  shows "registry_step\<^sup>*\<^sup>* r r'" "set (rg_records r) \<subseteq> set (rg_records r')" "rg_unresolved r' = rg_unresolved r"
    "snd ` set (rg_edges r') \<subseteq> snd ` set (rg_edges r) \<union> {[]}"
proof -
  have "registry_step r r' \<and> set (rg_records r) \<subseteq> set (rg_records r') \<and> rg_unresolved r' = rg_unresolved r \<and>
      snd ` set (rg_edges r') \<subseteq> snd ` set (rg_edges r) \<union> {[]}" if "registry_added r r'" for r r'
  proof -
    from that obtain kind i val owner jid p act e where
      a: "add_record kind i val owner jid p act r = Inr (e, r')" by (auto simp: registry_added_def)
    from a have "registry_step r r'" by (rule registry_step.added)
    with a show ?thesis by (auto elim!: add_record_eq)
  qed
  note one = this
  from assms have "registry_step\<^sup>*\<^sup>* r r' \<and> set (rg_records r) \<subseteq> set (rg_records r') \<and> rg_unresolved r' = rg_unresolved r \<and>
      snd ` set (rg_edges r') \<subseteq> snd ` set (rg_edges r) \<union> {[]}"
  proof (induction rule: rtranclp_induct)
    case (step y z)
    have "registry_step\<^sup>*\<^sup>* r z" using step one [of y z] by (meson rtranclp.rtrancl_into_rtrancl)
    moreover have "snd ` set (rg_edges z) \<subseteq> snd ` set (rg_edges r) \<union> {[]}" using step one [of y z] by blast
    ultimately show ?case using step one [of y z] by auto
  qed auto
  then show "registry_step\<^sup>*\<^sup>* r r'" "set (rg_records r) \<subseteq> set (rg_records r')" "rg_unresolved r' = rg_unresolved r"
    "snd ` set (rg_edges r') \<subseteq> snd ` set (rg_edges r) \<union> {[]}" by simp_all
qed

lemma reachable_steps: "registry_step\<^sup>*\<^sup>* r r' \<Longrightarrow> registry_reachable a r \<Longrightarrow> registry_reachable a r'"
  by (induction rule: rtranclp_induct) (auto intro: registry_reachable.step)

text \<open>
  A created registry is one the operations reach, without links, and has a record of every judgment that
  holds the judgment itself.
\<close>

theorem createRegistry_spec:
  assumes c: "createRegistry manifest payload = Inr r"
  shows "registry_reachable (get_opt (Some payload) ''asset'') r" "snd ` set (rg_edges r) \<subseteq> {[]}" "rg_unresolved r = []"
    "\<And>js j. get_opt (Some payload) ''judgments'' = Some (JArr js) \<Longrightarrow> j \<in> set js \<Longrightarrow>
       \<exists>k i e. (k, e) \<in> set (rg_records r) \<and> re_value e = j \<and> get_opt (Some j) ''id'' = Some i \<and> re_target e = js_ref ''judgment'' i"
proof -
  let ?r = "empty_registry (get_opt (Some payload) ''asset'')"
  obtain asset r0 where r0: "registry_added ?r r0" and fs: "in_turn (payload_fillers manifest payload asset) r0 = Inr r"
    using c by (auto simp: createRegistry_def Let_def ebind_Inr_conv dest!: registry_addedI)
  have fills: "fills f" if "f \<in> set (payload_fillers manifest payload asset)" for f
    using that by (auto simp: payload_fillers_def intro!: filling)
  then have "registry_added\<^sup>*\<^sup>* r0 r" using fs fills_in_turn [of "payload_fillers manifest payload asset"] by (auto simp: fills_def)
  with r0 have steps: "registry_added\<^sup>*\<^sup>* ?r r" by (rule converse_rtranclp_into_rtranclp)
  note keeps = registry_added_keeps [OF steps]
  show "registry_reachable (get_opt (Some payload) ''asset'') r"
    by (rule reachable_steps [OF keeps(1) registry_reachable.start])
  show "snd ` set (rg_edges r) \<subseteq> {[]}" "rg_unresolved r = []" using keeps(3,4) by (simp_all add: empty_registry_def)
  fix js j
  assume js: "get_opt (Some payload) ''judgments'' = Some (JArr js)" and j: "j \<in> set js"
  have "for_each (path (Some payload) [''judgments'']) (register_judgment asset) \<in> set (payload_fillers manifest payload asset)"
    by (simp add: payload_fillers_def)
  from in_turn_member [OF fs this fills] obtain a b where
    run: "for_each (path (Some payload) [''judgments'']) (register_judgment asset) a = Inr b" and b: "registry_added\<^sup>*\<^sup>* b r"
    by blast
  have "path (Some payload) [''judgments''] = Inr (Some (JArr js))" using js by (auto simp: get_opt_def path.simps split: sum.splits)
  from for_each_member [OF run this j fills_judgment] obtain n a' b' where
    n: "register_judgment asset n j a' = Inr b'" and b': "registry_added\<^sup>*\<^sup>* b' b" by blast
  from n obtain i e m p where e: "path (Some j) [''id''] = Inr i"
    "add_record ''judgment'' i j asset (coalesce (get_opt (Some j) ''id'') JNull) p JNull a' = Inr (e, m)"
    and rest: "in_turn (judgment_fillers j p e) m = Inr b'"
    unfolding register_judgment_def Let_def by (elim owned_eq) simp
  have "registry_added\<^sup>*\<^sup>* m b'"
    using rest fills_in_turn [of "judgment_fillers j p e"] fills_judgment_part by (auto simp: fills_def)
  with b b' have "registry_added\<^sup>*\<^sup>* m r" by (meson rtranclp_trans)
  then have sub: "set (rg_records m) \<subseteq> set (rg_records r)" by (rule registry_added_keeps)
  have "get_opt (Some j) ''id'' = i" using e(1) by (auto simp: get_opt_def path.simps ebind_Inr_conv)
  with add_record_entry [OF e(2)] sub show "\<exists>k i e. (k, e) \<in> set (rg_records r) \<and> re_value e = j \<and> get_opt (Some j) ''id'' = Some i \<and> re_target e = js_ref ''judgment'' i"
    by blast
qed

section \<open>Keys\<close>

lemma strict_view_array: "strict_view (HArr True 0 (map (\<lambda>v. HData True (hopt v)) (map Some xs)) []) = Some (JArr xs)"
  using strict_view_hval_of [of "JArr xs"] by (simp add: hopt_def comp_def)

lemma canonical_key_iff:
  "canonical_key (map Some xs) = Inr t \<longleftrightarrow>
     in_limits 0 (JArr xs) \<and> byte_length (canon (JArr xs)) \<le> MAX_GRAPH_BYTES \<and> t = canon (JArr xs)"
  unfolding canonical_key_def canonicalJson_iff copyJson_iff strict_view_array by auto

section \<open>A small payload\<close>

definition d_target :: "string \<Rightarrow> string \<Rightarrow> json" where
  "d_target kind i = jo [(''kind'', js kind), (''id'', js i)]"

definition d_key :: "string \<Rightarrow> string \<Rightarrow> jstring" where
  "d_key kind i = canon (JArr [JNull, js kind, js i])"

lemma d_sizes:
  "scalar_units True (u ''asset'')" "scalar_units True (u ''a'')" "scalar_units True (u ''judgment'')" "scalar_units True (u ''j'')"
  "byte_length (u ''asset'') = 5" "byte_length (u ''a'') = 1" "byte_length (u ''judgment'') = 8" "byte_length (u ''j'') = 1"
  by (simp_all add: u_def is_high_def is_low_def byte_length_Cons_ascii)

lemma d_keys:
  "d_key ''asset'' ''a'' = u ''[null,'' @ [0x22] @ u ''asset'' @ [0x22] @ u '','' @ [0x22] @ u ''a'' @ [0x22] @ u '']''"
  "d_key ''judgment'' ''j'' = u ''[null,'' @ [0x22] @ u ''judgment'' @ [0x22] @ u '','' @ [0x22] @ u ''j'' @ [0x22] @ u '']''"
  by (simp_all add: d_key_def js_def u_def json_quote_def quote_unit_def is_high_def is_low_def)

lemma d_key_sizes: "byte_length (d_key ''asset'' ''a'') = 18" "byte_length (d_key ''judgment'' ''j'') = 21"
  unfolding d_keys by (simp_all add: u_def byte_length_Cons_ascii)

lemma d_canonical_key:
  assumes "scalar_text (u kind)" "scalar_text (u i)" "byte_length (d_key kind i) \<le> 100"
  shows "canonical_key [Some JNull, Some (js kind), Some (js i)] = Inr (d_key kind i)"
  using canonical_key_iff [of "[JNull, js kind, js i]" "d_key kind i"] assms
  by (simp add: d_key_def js_def MAX_DEPTH_def MAX_ITEMS_def MAX_GRAPH_BYTES_def scalar_ok_def)

lemma d_identity:
  assumes "scalar_text (u kind)" "scalar_text (u i)" "byte_length (d_key kind i) \<le> 100"
  shows "identity r (d_target kind i) = Inr (d_key kind i)"
  using d_canonical_key [OF assms]
  by (simp add: identity_def is_local_def d_target_def jo_def path.simps get_prop_def truthy_def)

lemma d_identities [simp]:
  "identity r (d_target ''asset'' ''a'') = Inr (d_key ''asset'' ''a'')"
  "identity r (d_target ''judgment'' ''j'') = Inr (d_key ''judgment'' ''j'')"
  by (rule d_identity; simp add: scalar_text_def scalarString_def MAX_STRING_BYTES_def d_sizes d_key_sizes)+

definition d_entry :: "string \<Rightarrow> string \<Rightarrow> registry_entry" where
  "d_entry kind i = \<lparr>re_target = d_target kind i, re_owner = JNull, re_value = JNull, re_judgment = JNull, re_path = [],
                    re_activation = JNull\<rparr>"

definition d_registry :: "(jstring \<times> bool) list \<Rightarrow> (jstring \<times> (jstring option \<times> bool) list) list \<Rightarrow> registry" where
  "d_registry es bt =
     \<lparr>rg_asset = None,
      rg_records = [(d_key ''asset'' ''a'', d_entry ''asset'' ''a''), (d_key ''judgment'' ''j'', d_entry ''judgment'' ''j'')],
      rg_edges = [(d_key ''asset'' ''a'', es), (d_key ''judgment'' ''j'', [])],
      rg_roles = [(d_key ''asset'' ''a'', bt), (d_key ''judgment'' ''j'', [])], rg_unresolved = []\<rparr>"

lemma d_key_differ [simp]: "d_key ''asset'' ''a'' \<noteq> d_key ''judgment'' ''j''" "d_key ''judgment'' ''j'' \<noteq> d_key ''asset'' ''a''"
  using d_key_sizes by (metis numeral_eq_iff semiring_norm)+

lemma d_ref: "js_ref kind (js i) = d_target kind i"
  by (simp add: js_ref_def d_target_def)

lemma d_added:
  "\<exists>e r. add_record ''asset'' (Some (js ''a'')) JNull JNull JNull [] JNull (empty_registry None) = Inr (e, r) \<and>
     (\<exists>e'. add_record ''judgment'' (Some (js ''j'')) JNull JNull JNull [] JNull r = Inr (e', d_registry [] []))"
  by (simp add: add_record_def d_ref empty_registry_def Let_def d_registry_def d_entry_def)

lemma d_reachable_plain: "registry_reachable None (d_registry [] [])"
proof -
  obtain e r e' where a: "add_record ''asset'' (Some (js ''a'')) JNull JNull JNull [] JNull (empty_registry None) = Inr (e, r)"
    and j: "add_record ''judgment'' (Some (js ''j'')) JNull JNull JNull [] JNull r = Inr (e', d_registry [] [])"
    using d_added by blast
  have "registry_reachable None r" by (rule registry_reachable.step [OF registry_reachable.start registry_step.added [OF a]])
  then show ?thesis by (rule registry_reachable.step) (rule registry_step.added [OF j])
qed

abbreviation d_linked :: registry where
  "d_linked \<equiv> d_registry [(d_key ''judgment'' ''j'', True)] [(d_key ''judgment'' ''j'', [(None, True)])]"

lemma d_link:
  "link_records (d_target ''asset'' ''a'') (Some (d_target ''judgment'' ''j'')) True None None (d_registry [] []) =
     Inr (Some (d_entry ''judgment'' ''j''), d_linked)"
proof -
  have t: "is_record (Some (d_target k i))" "is_string (get_opt (Some (d_target k i)) ''id'')"
    "is_local r (d_target k i) = Inr True" for k i r
    by (simp_all add: d_target_def jo_def js_def is_record_def is_string_def get_opt_def get_prop_def is_local_def path.simps truthy_def)
  show ?thesis
    by (simp add: link_records_def get_record_def t) (simp add: d_registry_def map_at_def set_flag_def)
qed

lemma d_reachable: "registry_reachable None d_linked"
  using d_reachable_plain registry_step.linked [OF d_link] by (rule registry_reachable.step)

lemma d_closure:
  "closure_of d_linked [d_target ''asset'' ''a''] = Inr [d_entry ''asset'' ''a'', d_entry ''judgment'' ''j'']"
  by (simp add: closure_of_def mandatory_targets_def) (simp add: d_registry_def mandatory_targets_def)

end
