(* ===== verification/ResultShape.thy ===== *)
theory ResultShape
  imports JudgmentRegistry
begin

text \<open>
  Result shapes, values and contracts of the native contract
  (\<open>packages/kdna-core/src/public-contract/r2-values.js\<close>).

  The datatypes are the closed unions \<open>ResultShape\<close>, \<open>SemanticValue\<close> and \<open>ResultContract\<close> of
  \<open>generated-contract.json\<close>, against which every payload is validated before this module runs; the tests of
  the \<open>kind\<close> members are the constructors.  Terms (with their extensions) stay JSON values.  The module throws
  \<open>READ_CORE_INVALID\<close> everywhere; the diagnostic is not represented.
\<close>

section \<open>Shapes and values\<close>

datatype scalar_kind = TextKind | NumberKind | BooleanKind | NullKind

text \<open>Minimum and maximum of a list; name, whether it is required, and shape of a field.\<close>

datatype result_shape =
    ScalarShape scalar_kind
  | ListShape result_shape int "int option"
  | RecordShape "(jstring \<times> bool \<times> result_shape) list"

datatype semantic_value =
    ValueText jstring
  | ValueNumber number
  | ValueBoolean bool
  | ValueNull
  | ValueList "semantic_value list"
  | ValueRecord "(jstring \<times> semantic_value) list"

fun value_kind :: "semantic_value \<Rightarrow> scalar_kind option" where
  "value_kind (ValueText s) = Some TextKind"
| "value_kind (ValueNumber n) = Some NumberKind"
| "value_kind (ValueBoolean b) = Some BooleanKind"
| "value_kind ValueNull = Some NullKind"
| "value_kind v = None"

definition kind_name :: "scalar_kind \<Rightarrow> string" where
  "kind_name k = (case k of TextKind \<Rightarrow> ''text'' | NumberKind \<Rightarrow> ''number'' | BooleanKind \<Rightarrow> ''boolean'' | NullKind \<Rightarrow> ''null'')"

definition int_json :: "int \<Rightarrow> json" where
  "int_json m = JNum (Fin (of_int m))"

definition limit_json :: "int option \<Rightarrow> json" where
  "limit_json m = (case m of None \<Rightarrow> JNull | Some n \<Rightarrow> int_json n)"

fun shape_json :: "result_shape \<Rightarrow> json" where
  "shape_json (ScalarShape k) = jo [(''kind'', js ''scalar''), (''scalar_type'', js (kind_name k))]"
| "shape_json (ListShape s lo hi) =
     jo [(''item_shape'', shape_json s), (''kind'', js ''list''), (''maximum'', limit_json hi), (''minimum'', int_json lo)]"
| "shape_json (RecordShape fs) =
     jo [(''fields'', JArr (map (\<lambda>(n, r, s). jo [(''name'', JStr n), (''required'', JBool r), (''shape'', shape_json s)]) fs)),
         (''kind'', js ''record'')]"

text \<open>\<open>equal(a, b)\<close>: the same canonical text.\<close>

definition equal_terms :: "json \<Rightarrow> json \<Rightarrow> bool" where
  "equal_terms a b \<longleftrightarrow> canon a = canon b"

definition equal_shapes :: "result_shape \<Rightarrow> result_shape \<Rightarrow> bool" where
  "equal_shapes a b \<longleftrightarrow> equal_terms (shape_json a) (shape_json b)"

section \<open>Operations\<close>

definition core_check :: "bool \<Rightarrow> exn + unit" where
  "core_check b = (if b then Inr () else registry_fail)"

lemma core_check_Inr [simp]: "core_check b = Inr x \<longleftrightarrow> b"
  by (simp add: core_check_def)

fun each :: "('a \<Rightarrow> exn + unit) \<Rightarrow> 'a list \<Rightarrow> exn + unit" where
  "each f [] = Inr ()"
| "each f (x # xs) = ebind (f x) (\<lambda>_. each f xs)"

lemma each_Inr: "each f xs = Inr () \<longleftrightarrow> (\<forall>x \<in> set xs. f x = Inr ())"
  by (induction xs) (auto simp: ebind_Inr_conv)

lemma each_cong [fundef_cong]:
  "xs = ys \<Longrightarrow> (\<And>x. x \<in> set ys \<Longrightarrow> f x = g x) \<Longrightarrow> each f xs = each g ys"
  by (induction xs arbitrary: ys) auto

text \<open>\<open>unique(items)\<close>, given the names: a map in insertion order.\<close>

definition unique_map :: "(jstring \<times> 'a) list \<Rightarrow> exn + (jstring \<times> 'a) list" where
  "unique_map ps = (if distinct (map fst ps) then Inr ps else registry_fail)"

definition safe_integer :: "int \<Rightarrow> bool" where
  "safe_integer n \<longleftrightarrow> \<bar>n\<bar> \<le> 2 ^ 53 - 1"

definition bounds :: "int \<Rightarrow> int option \<Rightarrow> exn + unit" where
  "bounds lo hi =
     core_check (\<not> (\<not> safe_integer lo \<or> lo < 0 \<or>
       (case hi of None \<Rightarrow> False | Some m \<Rightarrow> \<not> safe_integer m \<or> m < lo)))"

fun validateShape :: "nat \<Rightarrow> result_shape \<Rightarrow> exn + unit" where
  "validateShape depth shape =
     ebind (core_check (\<not> depth > 64)) (\<lambda>_.
       case shape of
         ScalarShape _ \<Rightarrow> Inr ()
       | ListShape s lo hi \<Rightarrow> ebind (bounds lo hi) (\<lambda>_. validateShape (Suc depth) s)
       | RecordShape fs \<Rightarrow>
           ebind (unique_map fs) (\<lambda>_. each (\<lambda>f. validateShape (Suc depth) (snd (snd f))) fs))"

definition outside :: "int \<Rightarrow> int \<Rightarrow> int option \<Rightarrow> bool" where
  "outside n lo hi \<longleftrightarrow> n < lo \<or> (case hi of None \<Rightarrow> False | Some m \<Rightarrow> n > m)"

function resultShape :: "nat \<Rightarrow> result_shape \<Rightarrow> semantic_value \<Rightarrow> exn + unit" where
  "resultShape depth shape val =
     (if depth > 64 then registry_fail
      else case shape of
        ScalarShape k \<Rightarrow> core_check (value_kind val = Some k)
      | ListShape s lo hi \<Rightarrow>
          (case val of
             ValueList items \<Rightarrow>
               ebind (core_check (\<not> outside (int (length items)) lo hi)) (\<lambda>_. each (resultShape (Suc depth) s) items)
           | _ \<Rightarrow> registry_fail)
      | RecordShape fs \<Rightarrow>
          (case val of
             ValueRecord vs \<Rightarrow>
               ebind (unique_map fs) (\<lambda>fields. ebind (unique_map vs) (\<lambda>actual.
               ebind (each (\<lambda>(n, r, s). core_check (\<not> (r \<and> n \<notin> fst ` set actual))) fields) (\<lambda>_.
                 each (\<lambda>(n, v). case map_of fields n of
                     None \<Rightarrow> registry_fail
                   | Some (r, s) \<Rightarrow> resultShape (Suc depth) s v) actual)))
           | _ \<Rightarrow> registry_fail))"
  by pat_completeness auto
termination by (relation "measure (\<lambda>(depth, shape, val). 65 - depth)") auto

text \<open>
  A contract is the one of an emission list (as JSON), or bounds, a shape and the allowed result types,
  which a projected contract does not have.
\<close>

record port_contract =
  pc_id :: jstring
  pc_shape :: result_shape
  pc_minimum :: int
  pc_maximum :: "int option"
  pc_allowed :: "json list option"

datatype contract = Emissions json | Results port_contract

definition validateContract :: "contract \<Rightarrow> exn + unit" where
  "validateContract c =
     (case c of
        Emissions _ \<Rightarrow> Inr ()
      | Results p \<Rightarrow>
          ebind (bounds (pc_minimum p) (pc_maximum p)) (\<lambda>_. ebind (validateShape 0 (pc_shape p)) (\<lambda>_.
            case pc_allowed p of
              None \<Rightarrow> Inl (TypeErr (u ''Cannot read properties of undefined (reading length)''))
            | Some ts \<Rightarrow> core_check (ts \<noteq> [] \<and> distinct (map canon ts)))))"

definition value_count :: "semantic_value \<Rightarrow> int" where
  "value_count v = (case v of ValueList items \<Rightarrow> int (length items) | _ \<Rightarrow> 1)"

definition valueFor :: "contract \<Rightarrow> semantic_value \<Rightarrow> exn + unit" where
  "valueFor c v =
     (case c of
        Emissions _ \<Rightarrow> registry_fail
      | Results p \<Rightarrow>
          ebind (resultShape 0 (pc_shape p) v) (\<lambda>_.
            core_check (\<not> outside (value_count v) (pc_minimum p) (pc_maximum p))))"

text \<open>A judgment: its contract, its result (contract, type, value) and the contract its formation rule names.\<close>

definition validateResult :: "port_contract \<Rightarrow> (jstring \<times> json \<times> semantic_value) option \<Rightarrow> jstring option \<Rightarrow> exn + unit" where
  "validateResult p result rule_output =
     ebind (validateContract (Results p)) (\<lambda>_.
     ebind (case result of
         None \<Rightarrow> Inr ()
       | Some (cref, type, v) \<Rightarrow>
           ebind (core_check (cref = pc_id p \<and> (\<exists>t \<in> set (case pc_allowed p of None \<Rightarrow> [] | Some ts \<Rightarrow> ts). equal_terms t type)))
             (\<lambda>_. valueFor (Results p) v)) (\<lambda>_.
       core_check (case rule_output of None \<Rightarrow> True | Some cref \<Rightarrow> cref = pc_id p)))"

fun shapeAt :: "result_shape \<Rightarrow> jstring list \<Rightarrow> exn + result_shape" where
  "shapeAt shape [] = Inr shape"
| "shapeAt shape (n # ns) =
     (case shape of
        RecordShape fs \<Rightarrow> (case map_of fs n of None \<Rightarrow> registry_fail | Some (r, s) \<Rightarrow> shapeAt s ns)
      | _ \<Rightarrow> registry_fail)"

definition narrower :: "int option \<Rightarrow> int option \<Rightarrow> bool" where
  "narrower from_max to_max = (case to_max of None \<Rightarrow> True | Some m \<Rightarrow> (case from_max of None \<Rightarrow> False | Some n \<Rightarrow> \<not> n > m))"

definition compatible :: "contract option \<Rightarrow> contract option \<Rightarrow> exn + unit" where
  "compatible source target =
     (case (source, target) of
        (Some (Results f), Some (Results t)) \<Rightarrow>
          core_check (equal_shapes (pc_shape f) (pc_shape t) \<and> \<not> pc_minimum f < pc_minimum t \<and>
              narrower (pc_maximum f) (pc_maximum t) \<and>
              (case (pc_allowed f, pc_allowed t) of
                 (Some as1, Some bs) \<Rightarrow> \<forall>a \<in> set as1. \<exists>b \<in> set bs. equal_terms a b
               | _ \<Rightarrow> True))
      | (Some (Emissions a), Some (Emissions b)) \<Rightarrow> core_check (equal_terms a b)
      | (Some _, Some _) \<Rightarrow> registry_fail
      | _ \<Rightarrow> Inr ())"

definition projected :: "contract option \<Rightarrow> jstring list \<Rightarrow> exn + contract option" where
  "projected c p =
     (if p = [] then Inr c
      else case c of
        None \<Rightarrow> Inr None
      | Some (Emissions _) \<Rightarrow> registry_fail
      | Some (Results q) \<Rightarrow>
          emap (\<lambda>s. Some (Results
              \<lparr>pc_id = [], pc_shape = s,
               pc_minimum = (case s of ListShape _ lo _ \<Rightarrow> lo | _ \<Rightarrow> 1),
               pc_maximum = (case s of ListShape _ _ hi \<Rightarrow> hi | _ \<Rightarrow> Some 1), pc_allowed = None\<rparr>))
            (shapeAt (pc_shape q) p))"

fun required_covered :: "jstring list list \<Rightarrow> jstring list \<Rightarrow> result_shape \<Rightarrow> exn + unit" where
  "required_covered paths at_path val =
     (if \<exists>p \<in> set paths. prefix p at_path then Inr ()
      else case val of
        RecordShape fs \<Rightarrow> each (\<lambda>f. if fst (snd f) then required_covered paths (at_path @ [fst f]) (snd (snd f)) else Inr ()) fs
      | _ \<Rightarrow> registry_fail)"

fun pairwise :: "('a \<Rightarrow> 'a \<Rightarrow> bool) \<Rightarrow> 'a list \<Rightarrow> bool" where
  "pairwise P [] = True"
| "pairwise P (x # xs) = (list_all (P x) xs \<and> pairwise P xs)"

definition completeBindings :: "result_shape \<Rightarrow> jstring list list \<Rightarrow> exn + unit" where
  "completeBindings shape paths =
     ebind (core_check (pairwise (\<lambda>a b. \<not> prefix a b \<and> \<not> prefix b a) paths)) (\<lambda>_.
       if [] \<in> set paths then core_check (length paths = 1)
       else required_covered paths [] shape)"

section \<open>Equality of shapes\<close>

fun wf_shape :: "result_shape \<Rightarrow> bool" where
  "wf_shape (ScalarShape k) = True"
| "wf_shape (ListShape s lo hi) \<longleftrightarrow> safe_integer lo \<and> (case hi of None \<Rightarrow> True | Some m \<Rightarrow> safe_integer m) \<and> wf_shape s"
| "wf_shape (RecordShape fs) \<longleftrightarrow> (\<forall>(n, r, s) \<in> set fs. wf_utf16 n \<and> wf_shape s)"

lemma wf_int_json: "safe_integer m \<Longrightarrow> wf_json (int_json m)"
  using to_double_int [of m] by (simp add: int_json_def safe_integer_def wf_number_def is_double_def)

lemma wf_limit_json: "(case m of None \<Rightarrow> True | Some n \<Rightarrow> safe_integer n) \<Longrightarrow> wf_json (limit_json m)"
  by (auto simp: limit_json_def wf_int_json split: option.splits)

lemma jnorm_limits [simp]: "jnorm (int_json m) = int_json m" "jnorm (limit_json h) = limit_json h" "jnorm (js s) = js s"
  by (simp_all add: int_json_def limit_json_def js_def split: option.splits)

lemma int_json_inject [simp]: "int_json a = int_json b \<longleftrightarrow> a = b" "limit_json h = limit_json h' \<longleftrightarrow> h = h'"
  by (auto simp: int_json_def limit_json_def split: option.splits)

lemma member_order [simp]:
  "u ''fields'' \<le> u ''kind''" "u ''name'' \<le> u ''required''" "u ''required'' \<le> u ''shape''"
  "u ''item_shape'' \<le> u ''kind''" "u ''kind'' \<le> u ''maximum''" "u ''maximum'' \<le> u ''minimum''" "u ''kind'' \<le> u ''scalar_type''"
  by (simp_all add: u_def)

lemma kind_name_inject [simp]: "kind_name k = kind_name l \<longleftrightarrow> k = l"
  by (cases k; cases l) (simp_all add: kind_name_def)

lemma map_eq_pointwise: "map f xs = map f ys \<Longrightarrow> (\<And>x y. x \<in> set xs \<Longrightarrow> f x = f y \<Longrightarrow> x = y) \<Longrightarrow> xs = ys"
proof (induction xs arbitrary: ys)
  case (Cons x xs)
  then obtain y ys' where "ys = y # ys'" "f x = f y" "map f xs = map f ys'" by (cases ys) auto
  then show ?case using Cons by auto
qed simp

lemma wf_shape_json: "wf_shape s \<Longrightarrow> wf_json (shape_json s)"
proof (induction s)
  case (RecordShape fs)
  then show ?case by (auto simp: wf_jo)
qed (simp_all add: wf_jo wf_int_json wf_limit_json)

lemma jnorm_shape_json: "jnorm (shape_json s) = shape_json s"
proof (induction s)
  case (RecordShape fs)
  then show ?case by (auto simp: jo_def)
qed (simp_all add: jo_def)

lemma shape_json_inject: "shape_json a = shape_json b \<Longrightarrow> a = b"
proof (induction a arbitrary: b)
  case (ScalarShape k)
  then show ?case by (cases b) (auto simp: jo_def js_def)
next
  case (ListShape s lo hi)
  then show ?case by (cases b) (auto simp: jo_def)
next
  case (RecordShape fs)
  let ?f = "\<lambda>(n, r, s). jo [(''name'', JStr n), (''required'', JBool r), (''shape'', shape_json s)]"
  from RecordShape.prems obtain gs where b: "b = RecordShape gs" "map ?f fs = map ?f gs"
    by (cases b) (auto simp: jo_def)
  have "x = y" if "x \<in> set fs" "?f x = ?f y" for x y
  proof -
    obtain n r s where x: "x = (n, r, s)" by (rule prod_cases3)
    obtain n' r' s' where y: "y = (n', r', s')" by (rule prod_cases3)
    have "n = n' \<and> r = r' \<and> shape_json s = shape_json s'" using that(2) by (simp add: x y jo_def)
    moreover have "shape_json s = shape_json s' \<Longrightarrow> s = s'"
      using RecordShape.IH [OF that(1), of "(r, s)" s] by (simp add: x Basic_BNFs.snds.simps)
    ultimately show ?thesis by (simp add: x y)
  qed
  with b show ?case using map_eq_pointwise [of ?f fs gs] by blast
qed

lemma equal_shapes_iff: "wf_shape a \<Longrightarrow> wf_shape b \<Longrightarrow> equal_shapes a b \<longleftrightarrow> a = b"
  unfolding equal_shapes_def equal_terms_def
  by (metis json_codec.enc_inject_normal jnorm_shape_json shape_json_inject wf_shape_json)

section \<open>Conforming values keep conforming\<close>

declare resultShape.simps [simp del]

lemma resultShape_scalar: "resultShape d (ScalarShape k) v = Inr () \<longleftrightarrow> d \<le> 64 \<and> value_kind v = Some k"
  by (subst resultShape.simps) auto

lemma resultShape_list:
  "resultShape d (ListShape s lo hi) v = Inr () \<longleftrightarrow>
     d \<le> 64 \<and> (\<exists>items. v = ValueList items \<and> \<not> outside (int (length items)) lo hi \<and>
       (\<forall>w \<in> set items. resultShape (Suc d) s w = Inr ()))"
  by (subst resultShape.simps) (auto simp: ebind_Inr_conv each_Inr split: semantic_value.splits)

lemma field_lookup:
  "(case map_of fs n of None \<Rightarrow> registry_fail | Some (r, s) \<Rightarrow> f s) = Inr () \<longleftrightarrow> (\<exists>r s. map_of fs n = Some (r, s) \<and> f s = Inr ())"
  by (cases "map_of fs n") auto

lemma resultShape_record:
  "resultShape d (RecordShape fs) v = Inr () \<longleftrightarrow>
     d \<le> 64 \<and> (\<exists>vs. v = ValueRecord vs \<and> distinct (map fst fs) \<and> distinct (map fst vs) \<and>
       (\<forall>(n, r, s) \<in> set fs. r \<longrightarrow> n \<in> fst ` set vs) \<and>
       (\<forall>(n, w) \<in> set vs. \<exists>r s. map_of fs n = Some (r, s) \<and> resultShape (Suc d) s w = Inr ()))"
proof (cases v)
  case (ValueRecord vs)
  then show ?thesis
    by (subst resultShape.simps) (auto simp: ebind_Inr_conv each_Inr unique_map_def field_lookup)
qed (subst resultShape.simps; simp)+

lemmas resultShape_iffs = resultShape_scalar resultShape_list resultShape_record

lemma resultShape_depth: "resultShape d s v = Inr () \<Longrightarrow> d' \<le> d \<Longrightarrow> resultShape d' s v = Inr ()"
proof (induction s arbitrary: d d' v)
  case (ListShape s lo hi)
  have "resultShape (Suc d') s w = Inr ()" if "resultShape (Suc d) s w = Inr ()" for w
    by (rule ListShape.IH [OF that]) (use ListShape.prems(2) in simp)
  then show ?case using ListShape.prems by (auto simp: resultShape_list)
next
  case (RecordShape fs)
  from RecordShape.prems obtain vs where v: "v = ValueRecord vs" "distinct (map fst fs)" "distinct (map fst vs)" "d \<le> 64"
    "\<forall>(n, r, s) \<in> set fs. r \<longrightarrow> n \<in> fst ` set vs"
    "\<forall>(n, w) \<in> set vs. \<exists>r s. map_of fs n = Some (r, s) \<and> resultShape (Suc d) s w = Inr ()"
    by (auto simp: resultShape_record)
  have "\<exists>r s. map_of fs n = Some (r, s) \<and> resultShape (Suc d') s w = Inr ()" if "(n, w) \<in> set vs" for n w
  proof -
    from bspec [OF v(6) that] obtain r s where s: "map_of fs n = Some (r, s)" "resultShape (Suc d) s w = Inr ()"
      by auto
    have "(n, r, s) \<in> set fs" using s(1) by (rule map_of_SomeD)
    from RecordShape.IH [OF this, of "(r, s)" s "Suc d" w "Suc d'"] s RecordShape.prems(2)
    show ?thesis by (auto simp: Basic_BNFs.snds.simps)
  qed
  with v RecordShape.prems(2) show ?case by (auto simp: resultShape_record)
qed (simp add: resultShape_scalar)

text \<open>The value of a field path, when the record has it.\<close>

fun value_at :: "semantic_value \<Rightarrow> jstring list \<Rightarrow> semantic_value option" where
  "value_at v [] = Some v"
| "value_at (ValueRecord vs) (n # ns) = (case map_of vs n of None \<Rightarrow> None | Some w \<Rightarrow> value_at w ns)"
| "value_at v (n # ns) = None"

lemma resultShape_at:
  "resultShape d s v = Inr () \<Longrightarrow> shapeAt s p = Inr t \<Longrightarrow> value_at v p = Some w \<Longrightarrow> resultShape d t w = Inr ()"
proof (induction p arbitrary: d s v)
  case (Cons n ns)
  from Cons.prems(2) obtain fs r s' where s: "s = RecordShape fs" "map_of fs n = Some (r, s')" "shapeAt s' ns = Inr t"
    by (auto split: result_shape.splits option.splits)
  from Cons.prems(1) obtain vs where v: "v = ValueRecord vs"
    "\<forall>(n, w) \<in> set vs. \<exists>r s. map_of fs n = Some (r, s) \<and> resultShape (Suc d) s w = Inr ()"
    by (auto simp: s(1) resultShape_record)
  from Cons.prems(3) obtain x where x: "map_of vs n = Some x" "value_at x ns = Some w"
    by (auto simp: v(1) split: option.splits)
  have "resultShape (Suc d) s' x = Inr ()" using v(2) map_of_SomeD [OF x(1)] s(2) by auto
  from Cons.IH [OF this s(3) x(2)] show ?case by (rule resultShape_depth) simp
qed simp

section \<open>Flows between contracts\<close>

definition wf_contract :: "contract \<Rightarrow> bool" where
  "wf_contract c = (case c of Emissions _ \<Rightarrow> True | Results p \<Rightarrow> wf_shape (pc_shape p))"

lemma valueFor_Results:
  "valueFor (Results p) v = Inr () \<longleftrightarrow>
     resultShape 0 (pc_shape p) v = Inr () \<and> \<not> outside (value_count v) (pc_minimum p) (pc_maximum p)"
  by (auto simp: valueFor_def ebind_Inr_conv)

lemma outside_narrower:
  "\<not> outside n lo hi \<Longrightarrow> lo' \<le> lo \<Longrightarrow> narrower hi hi' \<Longrightarrow> \<not> outside n lo' hi'"
  by (auto simp: outside_def narrower_def split: option.splits)

lemma compatible_values:
  assumes "compatible (Some a) (Some b) = Inr ()" "valueFor a v = Inr ()" "wf_contract a" "wf_contract b"
  shows "valueFor b v = Inr ()"
proof -
  obtain f where a: "a = Results f" using assms(2) by (cases a) (auto simp: valueFor_def)
  obtain t where b: "b = Results t" using assms(1) by (cases b) (auto simp: compatible_def a)
  have c: "pc_shape f = pc_shape t" "pc_minimum t \<le> pc_minimum f" "narrower (pc_maximum f) (pc_maximum t)"
    using assms(1,3,4) by (simp_all add: compatible_def a b wf_contract_def equal_shapes_iff)
  then show ?thesis using assms(2) outside_narrower [OF _ c(2,3)] by (simp add: a b valueFor_Results)
qed

lemma projected_values:
  assumes "projected (Some a) p = Inr (Some c)" "valueFor a v = Inr ()" "value_at v p = Some w"
  shows "valueFor c w = Inr ()"
proof (cases "p = []")
  case True
  then show ?thesis using assms by (simp add: projected_def)
next
  case False
  obtain q where a: "a = Results q" using assms(2) by (cases a) (auto simp: valueFor_def)
  from assms(1) obtain s where s: "shapeAt (pc_shape q) p = Inr s"
    "c = Results \<lparr>pc_id = [], pc_shape = s, pc_minimum = (case s of ListShape _ lo _ \<Rightarrow> lo | _ \<Rightarrow> 1),
               pc_maximum = (case s of ListShape _ _ hi \<Rightarrow> hi | _ \<Rightarrow> Some 1), pc_allowed = None\<rparr>"
    by (auto simp: projected_def a False emap_Inr_conv)
  have "resultShape 0 (pc_shape q) v = Inr ()" using assms(2) by (simp add: a valueFor_Results)
  from resultShape_at [OF this s(1) assms(3)] have r: "resultShape 0 s w = Inr ()" .
  show ?thesis
  proof (cases s)
    case (ScalarShape k)
    then show ?thesis using r by (cases w) (auto simp: s(2) valueFor_Results resultShape_scalar value_count_def outside_def)
  next
    case (ListShape t lo hi)
    then show ?thesis using r by (auto simp: s(2) valueFor_Results value_count_def resultShape_list)
  next
    case (RecordShape fs)
    then show ?thesis using r by (auto simp: s(2) valueFor_Results value_count_def resultShape_record outside_def)
  qed
qed

lemma wf_shapeAt: "wf_shape s \<Longrightarrow> shapeAt s p = Inr t \<Longrightarrow> wf_shape t"
proof (induction p arbitrary: s)
  case (Cons n ns)
  from Cons.prems(2) obtain fs r s' where "s = RecordShape fs" "map_of fs n = Some (r, s')" "shapeAt s' ns = Inr t"
    by (auto split: result_shape.splits option.splits)
  moreover from this have "(n, r, s') \<in> set fs" by (auto dest: map_of_SomeD)
  ultimately show ?case using Cons.IH [of s'] Cons.prems(1) by auto
qed simp

lemma wf_projected: "wf_contract a \<Longrightarrow> projected (Some a) p = Inr (Some c) \<Longrightarrow> wf_contract c"
  by (auto simp: projected_def wf_contract_def emap_Inr_conv intro: wf_shapeAt split: if_splits contract.splits)

text \<open>
  A link of a plan: what the source produces, read at the field path of the link, is a value of the
  target's contract.
\<close>

theorem flow_safe:
  assumes "projected (Some a) p = Inr (Some c)" "compatible (Some c) (Some b) = Inr ()"
    "valueFor a v = Inr ()" "value_at v p = Some w" "wf_contract a" "wf_contract b"
  shows "valueFor b w = Inr ()"
  using compatible_values [OF assms(2) projected_values [OF assms(1,3,4)] wf_projected [OF assms(5,1)] assms(6)] .

theorem compatible_trans:
  assumes "compatible (Some (Results a)) (Some (Results b)) = Inr ()" "compatible (Some (Results b)) (Some (Results c)) = Inr ()"
    "pc_allowed b \<noteq> None"
  shows "compatible (Some (Results a)) (Some (Results c)) = Inr ()"
  using assms
  by (auto simp: compatible_def equal_shapes_def equal_terms_def narrower_def split: option.splits)

section \<open>Complete bindings\<close>

fun required_leaves :: "result_shape \<Rightarrow> jstring list list" where
  "required_leaves (RecordShape fs) =
     concat (map (\<lambda>(n, r, s). if r then map ((#) n) (required_leaves s) else []) fs)"
| "required_leaves s = [[]]"

text \<open>
  The bindings are complete exactly when no path lies inside another and every leaf that a required chain
  of fields leads to is covered.
\<close>

lemma required_leaves_record:
  "l \<in> set (required_leaves (RecordShape fs)) \<longleftrightarrow>
     (\<exists>n s k. (n, True, s) \<in> set fs \<and> k \<in> set (required_leaves s) \<and> l = n # k)"
  by (induction fs) (auto split: if_splits)

declare required_covered.simps [simp del]

lemma required_covered_iff:
  "required_covered paths at_path s = Inr () \<longleftrightarrow> (\<forall>l \<in> set (required_leaves s). \<exists>p \<in> set paths. prefix p (at_path @ l))"
proof (induction s arbitrary: at_path)
  case (RecordShape fs)
  show ?case
  proof (cases "\<exists>p \<in> set paths. prefix p at_path")
    case True
    then show ?thesis by (subst required_covered.simps) (auto intro: prefix_prefix)
  next
    case False
    have "required_covered paths at_path (RecordShape fs) = Inr () \<longleftrightarrow>
        (\<forall>(n, r, s) \<in> set fs. r \<longrightarrow> required_covered paths (at_path @ [n]) s = Inr ())"
      by (subst required_covered.simps) (use False in \<open>simp add: each_Inr split_def\<close>)
    also have "\<dots> \<longleftrightarrow> (\<forall>(n, r, s) \<in> set fs. r \<longrightarrow> (\<forall>l \<in> set (required_leaves s). \<exists>p \<in> set paths. prefix p (at_path @ n # l)))"
      using RecordShape.IH by (fastforce simp: Basic_BNFs.snds.simps)
    also have "\<dots> \<longleftrightarrow> (\<forall>l \<in> set (required_leaves (RecordShape fs)). \<exists>p \<in> set paths. prefix p (at_path @ l))"
      by (fastforce simp: required_leaves_record simp del: required_leaves.simps)
    finally show ?thesis .
  qed
qed (subst required_covered.simps; simp)+

lemma pairwise_single: "pairwise (\<lambda>a b. \<not> prefix a b \<and> \<not> prefix b a) ps \<Longrightarrow> [] \<in> set ps \<Longrightarrow> ps = [[]]"
proof (induction ps)
  case (Cons p ps)
  then show ?case by (cases p; cases ps) (auto simp: list_all_iff)
qed simp

theorem completeBindings_iff:
  "completeBindings s paths = Inr () \<longleftrightarrow>
     pairwise (\<lambda>a b. \<not> prefix a b \<and> \<not> prefix b a) paths \<and>
     (\<forall>l \<in> set (required_leaves s). \<exists>p \<in> set paths. prefix p l)"
  using pairwise_single [of paths] required_covered_iff [of paths "[]" s]
  by (auto simp: completeBindings_def ebind_Inr_conv)

section \<open>A small flow\<close>

text \<open>A record with one list of texts, and the flow of its field into a list of at most four texts.\<close>

definition d_list_shape :: result_shape where
  "d_list_shape = ListShape (ScalarShape TextKind) 0 (Some 3)"

definition d_record_contract :: port_contract where
  "d_record_contract = \<lparr>pc_id = u ''c1'', pc_shape = RecordShape [(u ''x'', True, d_list_shape)], pc_minimum = 1,
     pc_maximum = Some 1, pc_allowed = Some [js ''t'']\<rparr>"

definition d_list_contract :: port_contract where
  "d_list_contract = \<lparr>pc_id = u ''c2'', pc_shape = d_list_shape, pc_minimum = 0, pc_maximum = Some 4, pc_allowed = Some [js ''t'']\<rparr>"

lemma d_projected:
  "projected (Some (Results d_record_contract)) [u ''x''] =
     Inr (Some (Results \<lparr>pc_id = [], pc_shape = d_list_shape, pc_minimum = 0, pc_maximum = Some 3, pc_allowed = None\<rparr>))"
  by (simp add: projected_def d_record_contract_def d_list_shape_def)

lemma d_compatible:
  "compatible (Some (Results \<lparr>pc_id = [], pc_shape = d_list_shape, pc_minimum = 0, pc_maximum = Some 3, pc_allowed = None\<rparr>))
     (Some (Results d_list_contract)) = Inr ()"
  by (simp add: compatible_def d_list_contract_def equal_shapes_def equal_terms_def narrower_def)

lemma d_value_for:
  "valueFor (Results d_record_contract) (ValueRecord [(u ''x'', ValueList [ValueText (u ''a''), ValueText (u ''b'')])]) = Inr ()"
  by (simp add: valueFor_Results d_record_contract_def d_list_shape_def resultShape_iffs value_count_def outside_def)
    blast

lemma d_value_at:
  "value_at (ValueRecord [(u ''x'', ValueList [ValueText (u ''a''), ValueText (u ''b'')])]) [u ''x''] =
     Some (ValueList [ValueText (u ''a''), ValueText (u ''b'')])"
  by simp

lemma d_contracts_wf: "wf_contract (Results d_record_contract)" "wf_contract (Results d_list_contract)"
  by (simp_all add: wf_contract_def d_record_contract_def d_list_contract_def d_list_shape_def safe_integer_def)

end
