(* ===== verification/Digraph.thy ===== *)
theory Digraph
  imports Prelude
begin

text \<open>
  Directed graphs as maps from a vertex to its successors in insertion order, and an iterative depth-first
  search with three colours (the loop at the end of \<open>ruleLifecycle\<close> in
  \<open>packages/kdna-core/src/public-contract/cross-entry.js\<close>).
\<close>

section \<open>Graphs\<close>

type_synonym 'k digraph = "('k \<times> 'k list) list"

definition succs :: "'k digraph \<Rightarrow> 'k \<Rightarrow> 'k list" where
  "succs g x = (case map_of g x of None \<Rightarrow> [] | Some ys \<Rightarrow> ys)"

definition vertices :: "'k digraph \<Rightarrow> 'k set" where
  "vertices g = fst ` set g"

lemma finite_vertices [simp]: "finite (vertices g)"
  by (simp add: vertices_def)

lemma succs_Nil: "x \<notin> vertices g \<Longrightarrow> succs g x = []"
  by (simp add: succs_def vertices_def map_of_eq_None_iff [THEN iffD2])

definition edges_of :: "'k digraph \<Rightarrow> ('k \<times> 'k) set" where
  "edges_of g = {(x, y). y \<in> set (succs g x)}"

text \<open>Finished nodes are closed under successors and lie on no cycle.\<close>

definition settled :: "'k digraph \<Rightarrow> 'k set \<Rightarrow> bool" where
  "settled g f \<longleftrightarrow> (\<forall>x \<in> f. set (succs g x) \<subseteq> f \<and> (x, x) \<notin> (edges_of g)\<^sup>+)"

lemma settled_closed: "(x, y) \<in> (edges_of g)\<^sup>+ \<Longrightarrow> settled g f \<Longrightarrow> x \<in> f \<Longrightarrow> y \<in> f"
  by (induction rule: trancl_induct) (auto simp: settled_def edges_of_def)

lemma settled_insert:
  assumes "settled g f" "set (succs g x) \<subseteq> f"
  shows "settled g (insert x f)"
proof (cases "x \<in> f")
  case False
  have "(x, x) \<notin> (edges_of g)\<^sup>+"
  proof
    assume c: "(x, x) \<in> (edges_of g)\<^sup>+"
    then obtain y where y: "(x, y) \<in> edges_of g" "y = x \<or> (y, x) \<in> (edges_of g)\<^sup>+" 
      by (meson rtranclD tranclD)
    then have "y \<in> f" using assms(2) by (auto simp: edges_of_def)
    with y(2) False settled_closed [OF _ assms(1)] show False by blast
  qed
  then show ?thesis using assms by (auto simp: settled_def)
qed (use assms in \<open>simp add: insert_absorb\<close>)

section \<open>Depth-first search with a stack\<close>

text \<open>
  A frame is a vertex with the targets not looked at yet (the code keeps the index of the first of them).  A
  colour is 1 while the vertex is on the stack and 2 when it is finished.  \<open>None\<close> is the return on a cycle.
\<close>

type_synonym 'k frame = "'k \<times> 'k list"

text \<open>The vertices a search can still colour.\<close>

definition uncoloured :: "'k digraph \<Rightarrow> ('k \<rightharpoonup> nat) \<Rightarrow> 'k frame list \<Rightarrow> 'k set" where
  "uncoloured g colors stack =
     {v \<in> (\<Union>ts \<in> snd ` set g. set ts) \<union> (\<Union>(i, ts) \<in> set stack. set ts). colors v \<noteq> Some 1 \<and> colors v \<noteq> Some 2}"

lemma finite_uncoloured [simp]: "finite (uncoloured g colors stack)"
  by (auto simp: uncoloured_def)

lemma succs_targets: "set (succs g t) \<subseteq> (\<Union>ts \<in> snd ` set g. set ts)"
proof
  fix y
  assume "y \<in> set (succs g t)"
  then obtain ts where "map_of g t = Some ts" "y \<in> set ts" by (cases "map_of g t") (auto simp: succs_def)
  then show "y \<in> (\<Union>ts \<in> snd ` set g. set ts)" by (force dest: map_of_SomeD)
qed

function search_loop :: "'k digraph \<Rightarrow> ('k \<rightharpoonup> nat) \<Rightarrow> 'k frame list \<Rightarrow> ('k \<rightharpoonup> nat) option" where
  "search_loop g colors [] = Some colors"
| "search_loop g colors ((i, []) # stack) = search_loop g (colors(i \<mapsto> 2)) stack"
| "search_loop g colors ((i, t # ts) # stack) =
     (if colors t = Some 1 then None
      else if colors t \<noteq> Some 2 then search_loop g (colors(t \<mapsto> 1)) ((t, succs g t) # (i, ts) # stack)
      else search_loop g colors ((i, ts) # stack))"
  by pat_completeness auto
termination
proof (relation "measures [\<lambda>(g, colors, stack). card (uncoloured g colors stack),
    \<lambda>(g, colors, stack). sum_list (map (\<lambda>(i, ts). Suc (length ts)) stack)]")
  fix g :: "'k digraph" and colors :: "'k \<rightharpoonup> nat" and i stack
  have "uncoloured g (colors(i \<mapsto> 2)) stack \<subseteq> uncoloured g colors ((i, []) # stack)"
    by (auto simp: uncoloured_def split: if_splits)
  from card_mono [OF _ this]
  show "((g, colors(i \<mapsto> 2), stack), g, colors, (i, []) # stack) \<in> measures
      [\<lambda>(g, colors, stack). card (uncoloured g colors stack),
       \<lambda>(g, colors, stack). sum_list (map (\<lambda>(i, ts). Suc (length ts)) stack)]"
    by auto
next
  fix g :: "'k digraph" and colors :: "'k \<rightharpoonup> nat" and i t ts stack
  assume t: "colors t \<noteq> Some 1" "colors t \<noteq> Some 2"
  have "uncoloured g (colors(t \<mapsto> 1)) ((t, succs g t) # (i, ts) # stack) \<subseteq> uncoloured g colors ((i, t # ts) # stack) - {t}"
    using succs_targets [of g t] by (auto simp: uncoloured_def split: if_splits)
  moreover have "t \<in> uncoloured g colors ((i, t # ts) # stack)" using t by (simp add: uncoloured_def)
  ultimately have "card (uncoloured g (colors(t \<mapsto> 1)) ((t, succs g t) # (i, ts) # stack)) < card (uncoloured g colors ((i, t # ts) # stack))"
    by (intro psubset_card_mono) auto
  then show "((g, colors(t \<mapsto> 1), (t, succs g t) # (i, ts) # stack), g, colors, (i, t # ts) # stack) \<in> measures
      [\<lambda>(g, colors, stack). card (uncoloured g colors stack),
       \<lambda>(g, colors, stack). sum_list (map (\<lambda>(i, ts). Suc (length ts)) stack)]"
    by simp
next
  fix g :: "'k digraph" and colors :: "'k \<rightharpoonup> nat" and i t ts stack
  have "uncoloured g colors ((i, ts) # stack) \<subseteq> uncoloured g colors ((i, t # ts) # stack)" by (auto simp: uncoloured_def)
  from card_mono [OF _ this]
  show "((g, colors, (i, ts) # stack), g, colors, (i, t # ts) # stack) \<in> measures
      [\<lambda>(g, colors, stack). card (uncoloured g colors stack),
       \<lambda>(g, colors, stack). sum_list (map (\<lambda>(i, ts). Suc (length ts)) stack)]"
    by auto
qed simp

fun search_all :: "'k digraph \<Rightarrow> ('k \<rightharpoonup> nat) \<Rightarrow> 'k list \<Rightarrow> ('k \<rightharpoonup> nat) option" where
  "search_all g colors [] = Some colors"
| "search_all g colors (i # is) =
     (if colors i = Some 2 then search_all g colors is
      else case search_loop g (colors(i \<mapsto> 1)) [(i, succs g i)] of None \<Rightarrow> None | Some c \<Rightarrow> search_all g c is)"

definition has_cycle :: "'k digraph \<Rightarrow> bool" where
  "has_cycle g \<longleftrightarrow> search_all g (\<lambda>_. None) (map fst g) = None"

section \<open>The search finds exactly the cycles\<close>

text \<open>
  The stack is a path: what a frame has passed is finished or is the vertex of the frame above it.
\<close>

fun frames_ok :: "'k digraph \<Rightarrow> 'k set \<Rightarrow> 'k set \<Rightarrow> 'k frame list \<Rightarrow> bool" where
  "frames_ok g finished_vertices over [] = True"
| "frames_ok g finished_vertices over ((i, ts) # stack) \<longleftrightarrow>
     set ts \<subseteq> set (succs g i) \<and> over \<subseteq> set (succs g i) \<and> set (succs g i) \<subseteq> finished_vertices \<union> set ts \<union> over \<and>
     frames_ok g finished_vertices {i} stack"

lemma frames_ok_mono: "frames_ok g f over stack \<Longrightarrow> f \<subseteq> f' \<Longrightarrow> frames_ok g f' over stack"
  by (induction g f over stack rule: frames_ok.induct) (auto 4 3)

lemma frames_path: "frames_ok g f over stack \<Longrightarrow> x \<in> fst ` set stack \<Longrightarrow> t \<in> over \<Longrightarrow> (x, t) \<in> (edges_of g)\<^sup>+"
proof (induction stack arbitrary: over t)
  case (Cons fr stack)
  obtain i ts where fr: "fr = (i, ts)" by fastforce
  have e: "(i, t) \<in> edges_of g" using Cons.prems by (auto simp: fr edges_of_def)
  show ?case
  proof (cases "x = i")
    case False
    then have "(x, i) \<in> (edges_of g)\<^sup>+" using Cons.prems by (intro Cons.IH [of "{i}"]) (auto simp: fr)
    then show ?thesis using e by (rule trancl_into_trancl)
  qed (use e in blast)
qed simp

definition search_inv :: "'k digraph \<Rightarrow> ('k \<rightharpoonup> nat) \<Rightarrow> 'k frame list \<Rightarrow> bool" where
  "search_inv g colors stack \<longleftrightarrow>
     settled g {x. colors x = Some 2} \<and> frames_ok g {x. colors x = Some 2} {} stack \<and>
     {x. colors x = Some 1} = fst ` set stack \<and> distinct (map fst stack)"

lemma search_inv_pop:
  assumes "search_inv g colors ((i, []) # stack)"
  shows "search_inv g (colors(i \<mapsto> 2)) stack"
proof -
  have two: "{x. (colors(i \<mapsto> 2)) x = Some 2} = insert i {x. colors x = Some 2}" by auto
  have s: "settled g {x. colors x = Some 2}" "set (succs g i) \<subseteq> {x. colors x = Some 2}"
    and f: "frames_ok g {x. colors x = Some 2} {i} stack" using assms by (simp_all add: search_inv_def)
  have "frames_ok g (insert i {x. colors x = Some 2}) {} stack"
  proof (cases stack)
    case (Cons fr st)
    then show ?thesis using f frames_ok_mono [of g "{x. colors x = Some 2}" _ st "insert i {x. colors x = Some 2}"] by (cases fr) auto
  qed simp
  moreover have "{x. (colors(i \<mapsto> 2)) x = Some 1} = fst ` set stack \<and> distinct (map fst stack)"
    using assms by (auto simp: search_inv_def)
  ultimately show ?thesis using settled_insert [OF s] unfolding search_inv_def two by blast
qed

lemma search_inv_push:
  assumes "search_inv g colors ((i, t # ts) # stack)" "colors t \<noteq> Some 1" "colors t \<noteq> Some 2"
  shows "search_inv g (colors(t \<mapsto> 1)) ((t, succs g t) # (i, ts) # stack)"
proof -
  have two: "{x. (colors(t \<mapsto> 1)) x = Some 2} = {x. colors x = Some 2}" using assms(3) by auto
  have one: "{x. (colors(t \<mapsto> 1)) x = Some 1} = insert t {x. colors x = Some 1}" by auto
  show ?thesis using assms unfolding search_inv_def two one by auto
qed

lemma search_inv_skip:
  "search_inv g colors ((i, t # ts) # stack) \<Longrightarrow> colors t = Some 2 \<Longrightarrow> search_inv g colors ((i, ts) # stack)"
  by (auto simp: search_inv_def)

lemma search_loop_correct:
  "search_inv g colors stack \<Longrightarrow>
   (case search_loop g colors stack of
      None \<Rightarrow> \<exists>x. (x, x) \<in> (edges_of g)\<^sup>+
    | Some c \<Rightarrow> search_inv g c [] \<and> {x. colors x = Some 2} \<union> fst ` set stack \<subseteq> {x. c x = Some 2})"
proof (induction g colors stack rule: search_loop.induct)
  case (2 g colors i stack)
  have two: "{x. (colors(i \<mapsto> 2)) x = Some 2} = insert i {x. colors x = Some 2}" by auto
  show ?case using "2.IH" [OF search_inv_pop [OF "2.prems"], unfolded two]
    by (auto simp del: fun_upd_apply split: option.splits)
next
  case (3 g colors i t ts stack)
  show ?case
  proof (cases "colors t = Some 1")
    case True
    then have "t \<in> fst ` set ((i, t # ts) # stack)" using "3.prems" by (auto simp: search_inv_def)
    moreover have e: "(i, t) \<in> edges_of g" using "3.prems" by (auto simp: search_inv_def edges_of_def)
    moreover have "(x, i) \<in> (edges_of g)\<^sup>+" if "x \<in> fst ` set stack" for x
      using "3.prems" that by (intro frames_path [of g _ "{i}" stack]) (auto simp: search_inv_def)
    ultimately have "(t, t) \<in> (edges_of g)\<^sup>+" by (auto intro: trancl_into_trancl)
    then show ?thesis using True by auto
  next
    case False
    show ?thesis
    proof (cases "colors t = Some 2")
      case True
      then show ?thesis using "3.IH"(2) [OF False _ search_inv_skip [OF "3.prems" True]] by (auto split: option.splits)
    next
      case new: False
      then have two: "{x. (colors(t \<mapsto> 1)) x = Some 2} = {x. colors x = Some 2}" by auto
      show ?thesis using "3.IH"(1) [OF False new search_inv_push [OF "3.prems" False new], unfolded two] False new
        by (auto simp del: fun_upd_apply split: option.splits)
    qed
  qed
qed simp

lemma search_all_correct:
  "search_inv g colors [] \<Longrightarrow>
   (case search_all g colors is of
      None \<Rightarrow> \<exists>x. (x, x) \<in> (edges_of g)\<^sup>+
    | Some c \<Rightarrow> search_inv g c [] \<and> {x. colors x = Some 2} \<union> set is \<subseteq> {x. c x = Some 2})"
proof (induction "is" arbitrary: colors)
  case (Cons i "is")
  show ?case
  proof (cases "colors i = Some 2")
    case True
    then show ?thesis using Cons.IH [OF Cons.prems] by (auto split: option.splits)
  next
    case False
    have one: "{x. (colors(i \<mapsto> 1)) x = Some 1} = insert i {x. colors x = Some 1}" by auto
    have two: "{x. (colors(i \<mapsto> 1)) x = Some 2} = {x. colors x = Some 2}" using False by auto
    have "search_inv g (colors(i \<mapsto> 1)) [(i, succs g i)]"
      using Cons.prems unfolding search_inv_def one two by simp
    note loop = search_loop_correct [OF this, unfolded two]
    show ?thesis
    proof (cases "search_loop g (colors(i \<mapsto> 1)) [(i, succs g i)]")
      case None
      then show ?thesis using loop False by (simp del: fun_upd_apply)
    next
      case (Some c)
      then show ?thesis using loop Cons.IH [of c] False by (auto simp del: fun_upd_apply split: option.splits)
    qed
  qed
qed simp

theorem has_cycle_iff: "has_cycle g \<longleftrightarrow> \<not> acyclic (edges_of g)"
proof -
  have "search_inv g (\<lambda>_. None) []" by (simp add: search_inv_def settled_def)
  from search_all_correct [OF this, of "map fst g"] show ?thesis
  proof (cases "search_all g (\<lambda>_. None) (map fst g)")
    case (Some c)
    have s: "settled g {x. c x = Some 2}" "vertices g \<subseteq> {x. c x = Some 2}"
      using search_all_correct [OF \<open>search_inv g (\<lambda>_. None) []\<close>, of "map fst g"] Some
      by (auto simp: search_inv_def vertices_def)
    have "acyclic (edges_of g)"
      unfolding acyclic_def
    proof (intro allI notI)
      fix x
      assume c: "(x, x) \<in> (edges_of g)\<^sup>+"
      then obtain y where "(x, y) \<in> edges_of g" by (auto dest: tranclD)
      then have "x \<in> vertices g" using succs_Nil [of x g] by (cases "x \<in> vertices g") (auto simp: edges_of_def)
      then show False using s c by (auto simp: settled_def)
    qed
    then show ?thesis by (simp add: has_cycle_def Some)
  qed (auto simp: has_cycle_def acyclic_def)
qed

end
