(* ===== verification/PlanGraph.thy ===== *)
theory PlanGraph
  imports JudgmentRegistry Digraph
begin

text \<open>
  The structure of a plan (the first part of \<open>checkPlans\<close> in
  \<open>packages/kdna-core/src/public-contract/r2-plan.js\<close>): the depth-first cycle check, the tree of nodes with
  its root, and the ancestors of a node.

  A graph is a map from identifiers to identifiers in insertion order.  Plan nodes are the closed union of
  \<open>generated-contract.json\<close>, against which a payload is validated before.
\<close>

section \<open>The cycle check\<close>

type_synonym graph = "jstring digraph"

text \<open>\<open>visit\<close> takes the active path and the finished nodes and returns the finished nodes.\<close>

function visit_node :: "graph \<Rightarrow> jstring \<Rightarrow> jstring set \<Rightarrow> jstring set \<Rightarrow> exn + jstring set"
and visit_nodes :: "graph \<Rightarrow> jstring list \<Rightarrow> jstring set \<Rightarrow> jstring set \<Rightarrow> exn + jstring set" where
  "visit_node g i active finished_nodes =
     (if i \<in> finished_nodes then Inr finished_nodes
      else if i \<in> active then registry_fail
      else emap (insert i) (visit_nodes g (succs g i) (insert i active) finished_nodes))"
| "visit_nodes g [] active finished_nodes = Inr finished_nodes"
| "visit_nodes g (i # is) active finished_nodes =
     ebind (visit_node g i active finished_nodes) (\<lambda>f. visit_nodes g is active f)"
  by pat_completeness auto
termination
proof (relation "measures
    [case_sum (\<lambda>(g, i, active, f). card (vertices g - active)) (\<lambda>(g, is, active, f). card (vertices g - active)),
     case_sum (\<lambda>(g, i, active, f). 1) (\<lambda>(g, is, active, f). if is = [] then 0 else 1 + length is)]")
  fix g :: graph and i :: jstring and active f :: "jstring set"
  assume i: "i \<notin> active"
  show "(Inr (g, succs g i, insert i active, f), Inl (g, i, active, f)) \<in> measures
    [case_sum (\<lambda>(g, i, active, f). card (vertices g - active)) (\<lambda>(g, is, active, f). card (vertices g - active)),
     case_sum (\<lambda>(g, i, active, f). 1) (\<lambda>(g, is, active, f). if is = [] then 0 else 1 + length is)]"
  proof (cases "i \<in> vertices g")
    case True
    then have "vertices g - insert i active \<subset> vertices g - active" using i by blast
    then show ?thesis by (simp add: psubset_card_mono)
  next
    case False
    then have "vertices g - insert i active = vertices g - active" by blast
    then show ?thesis by (simp add: succs_Nil [OF False])
  qed
qed simp_all

declare visit_node.simps [simp del]

definition acyclic_check :: "graph \<Rightarrow> exn + unit" where
  "acyclic_check g = emap (\<lambda>_. ()) (visit_nodes g (map fst g) {} {})"

section \<open>What the check decides\<close>

lemma visit_settled:
  "visit_node g i active f = Inr f' \<Longrightarrow> settled g f \<Longrightarrow> settled g f' \<and> f \<subseteq> f' \<and> i \<in> f'"
  "visit_nodes g is active f = Inr f' \<Longrightarrow> settled g f \<Longrightarrow> settled g f' \<and> f \<subseteq> f' \<and> set is \<subseteq> f'"
proof (induction g i active f and g "is" active f arbitrary: f' and f' rule: visit_node_visit_nodes.induct)
  case (1 g i active f)
  show ?case
  proof (cases "i \<in> f")
    case False
    then obtain m where m: "visit_nodes g (succs g i) (insert i active) f = Inr m" "f' = insert i m" "i \<notin> active"
      using "1.prems"(1) by (auto simp: visit_node.simps [of g i] emap_Inr_conv split: if_splits)
    have "settled g m \<and> f \<subseteq> m \<and> set (succs g i) \<subseteq> m" by (rule "1.IH" [OF False m(3,1) "1.prems"(2)])
    then show ?thesis using settled_insert m(2) by auto
  qed (use "1.prems" in \<open>simp add: visit_node.simps\<close>)
next
  case (3 g i "is" active f)
  then obtain m where m: "visit_node g i active f = Inr m" "visit_nodes g is active m = Inr f'" by (auto simp: ebind_Inr_conv)
  have a: "settled g m \<and> f \<subseteq> m \<and> i \<in> m" by (rule "3.IH"(1) [OF m(1) "3.prems"(2)])
  have "settled g f' \<and> m \<subseteq> f' \<and> set is \<subseteq> f'" by (rule "3.IH"(2) [OF m]) (use a in simp)
  with a show ?case by auto
qed auto

lemma visit_fails:
  "visit_node g i active f = Inl e \<Longrightarrow> \<forall>a \<in> active. (a, i) \<in> (edges_of g)\<^sup>+ \<Longrightarrow> \<exists>x. (x, x) \<in> (edges_of g)\<^sup>+"
  "visit_nodes g is active f = Inl e \<Longrightarrow> \<forall>a \<in> active. \<forall>i \<in> set is. (a, i) \<in> (edges_of g)\<^sup>+ \<Longrightarrow> \<exists>x. (x, x) \<in> (edges_of g)\<^sup>+"
proof (induction g i active f and g "is" active f rule: visit_node_visit_nodes.induct)
  case (1 g i active f)
  show ?case
  proof (cases "i \<in> active")
    case True
    then show ?thesis using "1.prems"(2) by blast
  next
    case False
    then have "i \<notin> f" "visit_nodes g (succs g i) (insert i active) f = Inl e"
      using "1.prems"(1) by (auto simp: visit_node.simps [of g i] emap_Inl_conv split: if_splits)
    moreover have "\<forall>a \<in> insert i active. \<forall>j \<in> set (succs g i). (a, j) \<in> (edges_of g)\<^sup>+"
      using "1.prems"(2) by (auto simp: edges_of_def intro: trancl_into_trancl)
    ultimately show ?thesis using "1.IH" False by blast
  qed
next
  case (3 g i "is" active f)
  then show ?case by (cases "visit_node g i active f") auto
qed auto

theorem acyclic_check_iff: "acyclic_check g = Inr () \<longleftrightarrow> acyclic (edges_of g)"
proof
  assume "acyclic_check g = Inr ()"
  then obtain f where v: "visit_nodes g (map fst g) {} {} = Inr f" by (auto simp: acyclic_check_def emap_Inr_conv)
  have s: "settled g f \<and> {} \<subseteq> f \<and> set (map fst g) \<subseteq> f" by (rule visit_settled(2) [OF v]) (simp add: settled_def)
  show "acyclic (edges_of g)"
    unfolding acyclic_def
  proof (intro allI notI)
    fix x
    assume c: "(x, x) \<in> (edges_of g)\<^sup>+"
    then obtain y where "(x, y) \<in> edges_of g" by (auto dest: tranclD)
    then have "x \<in> vertices g" using succs_Nil [of x g] by (cases "x \<in> vertices g") (auto simp: edges_of_def)
    then show False using s c by (auto simp: settled_def vertices_def)
  qed
next
  assume a: "acyclic (edges_of g)"
  show "acyclic_check g = Inr ()"
  proof (cases "visit_nodes g (map fst g) {} {}")
    case (Inl e)
    then show ?thesis using visit_fails(2) [OF Inl] a by (auto simp: acyclic_def)
  qed (simp add: acyclic_check_def)
qed

section \<open>Reaching nodes\<close>

function reach_node :: "graph \<Rightarrow> jstring \<Rightarrow> jstring set \<Rightarrow> jstring set"
and reach_nodes :: "graph \<Rightarrow> jstring list \<Rightarrow> jstring set \<Rightarrow> jstring set" where
  "reach_node g i reached = (if i \<in> reached then reached else reach_nodes g (succs g i) (insert i reached))"
| "reach_nodes g [] reached = reached"
| "reach_nodes g (i # is) reached = reach_nodes g is (reach_node g i reached)"
  by pat_completeness auto

termination
proof (relation "measures
    [case_sum (\<lambda>(g, i, r). card (vertices g - r)) (\<lambda>(g, is, r). card (vertices g - r)),
     case_sum (\<lambda>(g, i, r). 1) (\<lambda>(g, is, r). if is = [] then 0 else 1 + length is)]")
  fix g :: graph and i :: jstring and r :: "jstring set"
  assume i: "i \<notin> r"
  show "(Inr (g, succs g i, insert i r), Inl (g, i, r)) \<in> measures
    [case_sum (\<lambda>(g, i, r). card (vertices g - r)) (\<lambda>(g, is, r). card (vertices g - r)),
     case_sum (\<lambda>(g, i, r). 1) (\<lambda>(g, is, r). if is = [] then 0 else 1 + length is)]"
  proof (cases "i \<in> vertices g")
    case True
    then have "vertices g - insert i r \<subset> vertices g - r" using i by blast
    then show ?thesis by (simp add: psubset_card_mono)
  next
    case False
    then have "vertices g - insert i r = vertices g - r" by blast
    then show ?thesis by (simp add: succs_Nil [OF False])
  qed
next
  fix g :: graph and i :: jstring and "is" and r :: "jstring set"
  assume d: "reach_node_reach_nodes_dom (Inl (g, i, r))"
  have "reach_node_reach_nodes_dom (Inl (g, i, r)) \<Longrightarrow> r \<subseteq> reach_node g i r"
    "reach_node_reach_nodes_dom (Inr (g, is, r)) \<Longrightarrow> r \<subseteq> reach_nodes g is r" for g i "is" r
  proof (induction g i r and g "is" r rule: reach_node_reach_nodes.pinduct)
    case (1 g i r)
    then show ?case by (cases "i \<in> r") (auto simp: reach_node.psimps)
  next
    case (3 g i "is" r)
    then show ?case by (auto simp: reach_nodes.psimps)
  qed (simp add: reach_nodes.psimps)
  from this(1) [OF d] have "r \<subseteq> reach_node g i r" .
  then have "card (vertices g - reach_node g i r) \<le> card (vertices g - r)" by (intro card_mono) auto
  then show "(Inr (g, is, reach_node g i r), Inr (g, i # is, r)) \<in> measures
    [case_sum (\<lambda>(g, i, r). card (vertices g - r)) (\<lambda>(g, is, r). card (vertices g - r)),
     case_sum (\<lambda>(g, i, r). 1) (\<lambda>(g, is, r). if is = [] then 0 else 1 + length is)]"
    by auto
qed simp_all

declare reach_node.simps [simp del]

lemma reach_bounds:
  "reach_node g i r \<subseteq> r \<union> (edges_of g)\<^sup>* `` {i} \<and> r \<subseteq> reach_node g i r \<and> i \<in> reach_node g i r \<and>
     (\<forall>x \<in> reach_node g i r - r. set (succs g x) \<subseteq> reach_node g i r)"
  "reach_nodes g is r \<subseteq> r \<union> (edges_of g)\<^sup>* `` set is \<and> r \<subseteq> reach_nodes g is r \<and> set is \<subseteq> reach_nodes g is r \<and>
     (\<forall>x \<in> reach_nodes g is r - r. set (succs g x) \<subseteq> reach_nodes g is r)"
proof (induction g i r and g "is" r rule: reach_node_reach_nodes.induct)
  case (1 g i r)
  show ?case
  proof (cases "i \<in> r")
    case False
    have "(edges_of g)\<^sup>* `` set (succs g i) \<subseteq> (edges_of g)\<^sup>* `` {i}"
      by (auto simp: edges_of_def intro: converse_rtrancl_into_rtrancl)
    then have "reach_nodes g (succs g i) (insert i r) \<subseteq> r \<union> (edges_of g)\<^sup>* `` {i}"
      using "1.IH" [OF False] by blast
    then show ?thesis using "1.IH" [OF False] False by (simp add: reach_node.simps [of g i]) blast
  qed (auto simp: reach_node.simps)
next
  case (3 g i "is" r)
  have "(edges_of g)\<^sup>* `` set (i # is) = (edges_of g)\<^sup>* `` {i} \<union> (edges_of g)\<^sup>* `` set is" by auto
  moreover define A B where "A = (edges_of g)\<^sup>* `` {i}" and "B = (edges_of g)\<^sup>* `` set is"
  moreover define m where "m = reach_node g i r"
  moreover define n where "n = reach_nodes g is m"
  ultimately have *: "(edges_of g)\<^sup>* `` set (i # is) = A \<union> B" "reach_nodes g (i # is) r = n"
    and m: "m \<subseteq> r \<union> A" "r \<subseteq> m" "i \<in> m" "\<forall>x \<in> m - r. set (succs g x) \<subseteq> m"
    and n: "n \<subseteq> m \<union> B" "m \<subseteq> n" "set is \<subseteq> n" "\<forall>x \<in> n - m. set (succs g x) \<subseteq> n"
    using "3.IH" by simp_all
  have "\<forall>x \<in> n - r. set (succs g x) \<subseteq> n" using m(4) n(2,4) by blast
  moreover have "n \<subseteq> r \<union> (A \<union> B)" "r \<subseteq> n" "set (i # is) \<subseteq> n" using m n by auto
  ultimately show ?case unfolding * by simp
qed auto

theorem reach_node_iff: "reach_node g i {} = (edges_of g)\<^sup>* `` {i}"
proof -
  have "y \<in> reach_node g i {}" if "(i, y) \<in> (edges_of g)\<^sup>*" for y
    using that by (induction rule: rtrancl_induct) (use reach_bounds(1) [of g i "{}"] in \<open>auto simp: edges_of_def\<close>)
  then show ?thesis using reach_bounds(1) [of g i "{}"] by blast
qed

section \<open>The tree of a plan\<close>

text \<open>A node with what its kind needs here; the other kinds have no children.\<close>

datatype plan_kind =
    SequenceNode "json list"
  | ParallelNode "json list"
  | FeedbackNode json
  | BranchNode json
  | UseNode

record plan_node =
  pn_id :: jstring
  pn_kind :: plan_kind

record plan_tree =
  pt_registry :: registry
  pt_parents :: "(jstring \<times> jstring) list"
  pt_children :: graph

definition localNode :: "registry \<Rightarrow> jstring \<Rightarrow> jstring list \<Rightarrow> json option \<Rightarrow> exn + jstring" where
  "localNode r plan_id ids target =
     ebind (get_record r target (Some [''plan_node''])) (\<lambda>found.
       case found of
         None \<Rightarrow> registry_fail
       | Some e \<Rightarrow>
           (case get_opt (Some (re_target e)) ''id'' of
              Some (JStr i) \<Rightarrow>
                if get_opt (Some (re_owner e)) ''kind'' \<noteq> Some (js ''plan'') \<or>
                   get_opt (Some (re_owner e)) ''id'' \<noteq> Some (JStr plan_id) \<or> i \<notin> set ids
                then registry_fail else Inr i
            | _ \<Rightarrow> registry_fail))"

definition child :: "jstring \<Rightarrow> jstring list \<Rightarrow> jstring \<Rightarrow> json option \<Rightarrow> plan_tree \<Rightarrow> exn + plan_tree" where
  "child plan_id ids parent target t =
     ebind (localNode (pt_registry t) plan_id ids target) (\<lambda>i.
       if i \<in> fst ` set (pt_parents t) then registry_fail
       else emap (\<lambda>(_, r). \<lparr>pt_registry = r, pt_parents = pt_parents t @ [(i, parent)],
                          pt_children = map_at parent (\<lambda>cs. cs @ [i]) (pt_children t)\<rparr>)
              (link_records (js_ref ''plan_node'' (JStr parent)) target True (Some [''plan_node'']) None (pt_registry t)))"

fun all_children :: "jstring \<Rightarrow> jstring list \<Rightarrow> jstring \<Rightarrow> json list \<Rightarrow> plan_tree \<Rightarrow> exn + plan_tree" where
  "all_children plan_id ids parent [] t = Inr t"
| "all_children plan_id ids parent (c # cs) t =
     ebind (child plan_id ids parent (Some c) t) (all_children plan_id ids parent cs)"

definition node_children :: "jstring \<Rightarrow> jstring \<Rightarrow> jstring list \<Rightarrow> plan_node \<Rightarrow> plan_tree \<Rightarrow> exn + plan_tree" where
  "node_children judgment_id plan_id ids node t =
     (case pn_kind node of
        SequenceNode cs \<Rightarrow> if length cs < 1 then registry_fail else all_children plan_id ids (pn_id node) cs t
      | ParallelNode cs \<Rightarrow> if length cs < 2 then registry_fail else all_children plan_id ids (pn_id node) cs t
      | FeedbackNode body \<Rightarrow> child plan_id ids (pn_id node) (Some body) t
      | BranchNode policy_ref \<Rightarrow>
          ebind (get_record (pt_registry t) (Some policy_ref) (Some [''policy''])) (\<lambda>found.
            case found of
              None \<Rightarrow> registry_fail
            | Some policy \<Rightarrow>
                if re_judgment policy \<noteq> JStr judgment_id then registry_fail
                else ebind (link_records (js_ref ''plan_node'' (JStr (pn_id node))) (Some (re_target policy)) True
                              (Some [''policy'']) None (pt_registry t)) (\<lambda>(_, r).
                       if get_opt (get_opt (Some (re_value policy)) ''combine'') ''kind'' = Some (js ''authored'')
                       then child plan_id ids (pn_id node)
                              (get_opt (get_opt (Some (re_value policy)) ''combine'') ''merge_node_ref'') (t\<lparr>pt_registry := r\<rparr>)
                       else Inr (t\<lparr>pt_registry := r\<rparr>)))
      | UseNode \<Rightarrow> Inr t)"

fun all_nodes :: "jstring \<Rightarrow> jstring \<Rightarrow> jstring list \<Rightarrow> plan_node list \<Rightarrow> plan_tree \<Rightarrow> exn + plan_tree" where
  "all_nodes judgment_id plan_id ids [] t = Inr t"
| "all_nodes judgment_id plan_id ids (n # ns) t =
     ebind (node_children judgment_id plan_id ids n t) (all_nodes judgment_id plan_id ids ns)"

fun link_nodes :: "jstring \<Rightarrow> jstring list \<Rightarrow> registry \<Rightarrow> exn + registry" where
  "link_nodes plan_id [] r = Inr r"
| "link_nodes plan_id (i # is) r =
     ebind (link_records (js_ref ''plan'' (JStr plan_id)) (Some (js_ref ''plan_node'' (JStr i))) True
              (Some [''plan_node'']) None r) (\<lambda>(_, r'). link_nodes plan_id is r')"

definition plan_structure :: "registry \<Rightarrow> jstring \<Rightarrow> jstring \<Rightarrow> json \<Rightarrow> plan_node list \<Rightarrow> exn + jstring \<times> plan_tree" where
  "plan_structure r judgment_id plan_id start nodes =
     (let ids = map pn_id nodes in
      if \<not> distinct ids then registry_fail
      else ebind (link_nodes plan_id ids r) (\<lambda>r1.
           ebind (all_nodes judgment_id plan_id ids nodes
                    \<lparr>pt_registry = r1, pt_parents = [], pt_children = map (\<lambda>i. (i, [])) ids\<rparr>) (\<lambda>t.
           ebind (localNode (pt_registry t) plan_id ids (Some start)) (\<lambda>root_id.
             if root_id \<in> fst ` set (pt_parents t) \<or> (\<exists>n \<in> set ids. n \<noteq> root_id \<and> n \<notin> fst ` set (pt_parents t))
             then registry_fail
             else ebind (acyclic_check (pt_children t)) (\<lambda>_.
                    if card (reach_node (pt_children t) root_id {}) \<noteq> length nodes then registry_fail
                    else Inr (root_id, t))))))"

text \<open>\<open>ancestors\<close>: a loop that ends only when a node without parent is met.\<close>

partial_function (option) ancestors :: "(jstring \<times> jstring) list \<Rightarrow> jstring \<Rightarrow> jstring list option" where
  "ancestors parents i =
     (case map_of parents i of None \<Rightarrow> Some [] | Some p \<Rightarrow> Option.bind (ancestors parents p) (\<lambda>rest. Some (p # rest)))"

definition is_within :: "(jstring \<times> jstring) list \<Rightarrow> jstring \<Rightarrow> jstring \<Rightarrow> bool option" where
  "is_within parents i parent =
     (if i = parent then Some True else map_option (\<lambda>above. parent \<in> set above) (ancestors parents i))"

section \<open>A checked plan is a rooted tree\<close>

definition tree_ok :: "jstring list \<Rightarrow> plan_tree \<Rightarrow> bool" where
  "tree_ok ids t \<longleftrightarrow>
     distinct (map fst (pt_parents t)) \<and> map fst (pt_children t) = ids \<and>
     (\<forall>p c. c \<in> set (succs (pt_children t) p) \<longleftrightarrow> (c, p) \<in> set (pt_parents t)) \<and>
     (\<forall>(c, p) \<in> set (pt_parents t). c \<in> set ids \<and> p \<in> set ids)"

lemma map_of_map_at: "map_of (map_at k f ps) k' = (if k' = k then map_option f (map_of ps k) else map_of ps k')"
  by (induction ps) (auto simp: map_at_def)

lemma ebind_InrE:
  assumes "ebind m f = Inr b"
  obtains a where "m = Inr a" "f a = Inr b"
  using assms by (auto simp: ebind_Inr_conv)

lemma localNode_member: "localNode r plan_id ids target = Inr i \<Longrightarrow> i \<in> set ids"
  unfolding localNode_def by (erule ebind_InrE) (auto split: if_split_asm option.split_asm json.split_asm)

lemma child_ok:
  assumes "child plan_id ids parent target t = Inr t'" "tree_ok ids t" "parent \<in> set ids"
  shows "tree_ok ids t'"
proof -
  from assms(1) obtain i r where i: "i \<in> set ids" "i \<notin> fst ` set (pt_parents t)"
    and t': "t' = \<lparr>pt_registry = r, pt_parents = pt_parents t @ [(i, parent)],
                 pt_children = map_at parent (\<lambda>cs. cs @ [i]) (pt_children t)\<rparr>"
    by (auto simp: child_def ebind_Inr_conv emap_Inr_conv split: if_split_asm dest: localNode_member)
  have "parent \<in> fst ` set (pt_children t)" using assms(2,3) by (auto simp: tree_ok_def)
  then obtain cs where "map_of (pt_children t) parent = Some cs" by (metis map_of_eq_None_iff not_None_eq)
  then have "set (succs (pt_children t') p) = (if p = parent then insert i (set (succs (pt_children t) p)) else set (succs (pt_children t) p))" for p
    by (auto simp: t' succs_def map_of_map_at)
  then show ?thesis using assms(2,3) i by (simp add: tree_ok_def t' image_iff)
qed

lemma all_children_ok: "all_children plan_id ids parent cs t = Inr t' \<Longrightarrow> tree_ok ids t \<Longrightarrow> parent \<in> set ids \<Longrightarrow> tree_ok ids t'"
  by (induction cs arbitrary: t) (auto simp: ebind_Inr_conv dest: child_ok)

lemma tree_ok_registry [simp]: "tree_ok ids (t\<lparr>pt_registry := r\<rparr>) = tree_ok ids t"
  by (simp add: tree_ok_def)

lemma node_children_ok:
  "node_children judgment_id plan_id ids node t = Inr t' \<Longrightarrow> tree_ok ids t \<Longrightarrow> pn_id node \<in> set ids \<Longrightarrow> tree_ok ids t'"
proof (cases "pn_kind node")
  case (BranchNode policy_ref)
  assume t: "tree_ok ids t" "pn_id node \<in> set ids"
  assume "node_children judgment_id plan_id ids node t = Inr t'"
  then show ?thesis unfolding node_children_def BranchNode plan_kind.case
    by (elim ebind_InrE) (auto simp: t ebind_Inr_conv split: if_split_asm option.split_asm elim!: child_ok)
qed (auto simp: node_children_def split: if_split_asm dest: all_children_ok child_ok)

lemma all_nodes_ok:
  "all_nodes judgment_id plan_id ids ns t = Inr t' \<Longrightarrow> tree_ok ids t \<Longrightarrow> pn_id ` set ns \<subseteq> set ids \<Longrightarrow> tree_ok ids t'"
  by (induction ns arbitrary: t) (auto simp: ebind_Inr_conv dest: node_children_ok)

definition rooted_tree :: "jstring list \<Rightarrow> jstring \<Rightarrow> plan_tree \<Rightarrow> bool" where
  "rooted_tree ids start t \<longleftrightarrow>
     (let E = edges_of (pt_children t) in
      acyclic E \<and> E\<^sup>* `` {start} = set ids \<and> (\<forall>x. (x, start) \<notin> E) \<and>
      (\<forall>p c. (p, c) \<in> E \<longleftrightarrow> map_of (pt_parents t) c = Some p) \<and> E \<subseteq> set ids \<times> set ids)"

lemma start_tree_ok: "tree_ok ids \<lparr>pt_registry = r, pt_parents = [], pt_children = map (\<lambda>i. (i, [])) ids\<rparr>"
proof -
  have "succs (map (\<lambda>i. (i, [])) ids) p = []" for p by (induction ids) (auto simp: succs_def)
  then show ?thesis by (simp add: tree_ok_def comp_def)
qed

theorem plan_structure_tree:
  assumes "plan_structure r judgment_id plan_id start nodes = Inr (root_id, t)"
  shows "rooted_tree (map pn_id nodes) root_id t"
proof -
  let ?ids = "map pn_id nodes" and ?E = "edges_of (pt_children t)"
  from assms obtain r1 where ids: "distinct ?ids"
    and all: "all_nodes judgment_id plan_id ?ids nodes
        \<lparr>pt_registry = r1, pt_parents = [], pt_children = map (\<lambda>i. (i, [])) ?ids\<rparr> = Inr t"
    and root: "root_id \<in> set ?ids" "root_id \<notin> fst ` set (pt_parents t)"
    and acyc: "acyclic_check (pt_children t) = Inr ()" and size: "card (reach_node (pt_children t) root_id {}) = length nodes"
    by (auto simp: plan_structure_def Let_def ebind_Inr_conv split: if_split_asm dest: localNode_member)
  have ok: "tree_ok ?ids t" by (rule all_nodes_ok [OF all start_tree_ok]) simp
  have E: "(p, c) \<in> ?E \<longleftrightarrow> map_of (pt_parents t) c = Some p" for p c
    using ok by (simp add: tree_ok_def edges_of_def)
  have sub: "?E \<subseteq> set ?ids \<times> set ?ids" using ok by (auto simp: tree_ok_def edges_of_def)
  have "?E\<^sup>* `` {root_id} \<subseteq> set ?ids"
  proof
    fix x
    assume "x \<in> ?E\<^sup>* `` {root_id}"
    then have "(root_id, x) \<in> ?E\<^sup>*" by simp
    then show "x \<in> set ?ids" by (induction rule: rtrancl_induct) (use root sub in auto)
  qed
  moreover have "card (?E\<^sup>* `` {root_id}) = card (set ?ids)"
    using size distinct_card [OF ids] by (simp add: reach_node_iff)
  ultimately have "?E\<^sup>* `` {root_id} = set ?ids" by (intro card_subset_eq) simp_all
  moreover have "(x, root_id) \<notin> ?E" for x using root(2) E [of x root_id] by (simp add: map_of_eq_None_iff [THEN iffD2])
  ultimately show ?thesis using acyc E sub by (simp add: rooted_tree_def acyclic_check_iff)
qed

text \<open>In a rooted tree the loop over the parents ends, at the root.\<close>

theorem ancestors_total:
  assumes t: "rooted_tree ids start t" and n: "n \<in> set ids"
  shows "\<exists>above. ancestors (pt_parents t) n = Some above \<and> last (n # above) = start \<and>
    set (n # above) = {a. (a, n) \<in> (edges_of (pt_children t))\<^sup>*}"
proof -
  let ?E = "edges_of (pt_children t)"
  have E: "(p, c) \<in> ?E \<longleftrightarrow> map_of (pt_parents t) c = Some p" for p c using t by (simp add: rooted_tree_def Let_def)
  have sub: "?E \<subseteq> set ids \<times> set ids" and reach: "?E\<^sup>* `` {start} = set ids" and acyc: "acyclic ?E"
    using t by (simp_all add: rooted_tree_def Let_def)
  have "finite ?E" using sub by (rule finite_subset) simp
  then have "wf ?E" using acyc by (rule finite_acyclic_wf)
  then show ?thesis using n
  proof (induction n rule: wf_induct_rule)
    case (less n)
    have step: "{a. (a, n) \<in> ?E\<^sup>*} = insert n {a. \<exists>p. (p, n) \<in> ?E \<and> (a, p) \<in> ?E\<^sup>*}"
      by (auto intro: rtrancl_into_rtrancl elim: rtranclE)
    show ?case
    proof (cases "map_of (pt_parents t) n")
      case None
      have "(start, n) \<in> ?E\<^sup>*" using reach less.prems by blast
      then have "n = start" using None E by (auto elim: rtranclE)
      then show ?thesis using None step E by (subst ancestors.simps) simp
    next
      case (Some p)
      then have p: "(p, n) \<in> ?E" by (simp add: E)
      then have "p \<in> set ids" using sub by blast
      from less.IH [OF p this] obtain above where a: "ancestors (pt_parents t) p = Some above" "last (p # above) = start"
        "set (p # above) = {a. (a, p) \<in> ?E\<^sup>*}" by blast
      have "{a. (a, n) \<in> ?E\<^sup>*} = insert n {a. (a, p) \<in> ?E\<^sup>*}" using step E Some by auto
      then show ?thesis using a Some by (subst ancestors.simps) simp
    qed
  qed
qed

section \<open>A small plan\<close>

text \<open>A plan \<open>p\<close> whose root, the sequence \<open>s\<close>, has the single child \<open>n\<close>.\<close>

lemma d_plan_identity:
  "identity r (d_target ''plan'' ''p'') = Inr (d_key ''plan'' ''p'')"
  "identity r (d_target ''plan_node'' ''s'') = Inr (d_key ''plan_node'' ''s'')"
  "identity r (d_target ''plan_node'' ''n'') = Inr (d_key ''plan_node'' ''n'')"
  "d_key ''plan'' ''p'' \<noteq> d_key ''plan_node'' ''s''" "d_key ''plan'' ''p'' \<noteq> d_key ''plan_node'' ''n''"
  "d_key ''plan_node'' ''s'' \<noteq> d_key ''plan_node'' ''n''"
proof -
  have t: "scalar_text (u ''plan'')" "scalar_text (u ''plan_node'')" "scalar_text (u ''p'')" "scalar_text (u ''s'')" "scalar_text (u ''n'')"
    by (simp_all add: scalar_text_def scalarString_def MAX_STRING_BYTES_def u_def is_high_def is_low_def byte_length_Cons_ascii)
  have k: "d_key ''plan'' ''p'' = u ''[null,'' @ [0x22] @ u ''plan'' @ [0x22] @ u '','' @ [0x22] @ u ''p'' @ [0x22] @ u '']''"
    "d_key ''plan_node'' ''s'' = u ''[null,'' @ [0x22] @ u ''plan_node'' @ [0x22] @ u '','' @ [0x22] @ u ''s'' @ [0x22] @ u '']''"
    "d_key ''plan_node'' ''n'' = u ''[null,'' @ [0x22] @ u ''plan_node'' @ [0x22] @ u '','' @ [0x22] @ u ''n'' @ [0x22] @ u '']''"
    by (simp_all add: d_key_def js_def u_def json_quote_def quote_unit_def is_high_def is_low_def)
  have b: "byte_length (d_key ''plan'' ''p'') \<le> 100" "byte_length (d_key ''plan_node'' ''s'') \<le> 100"
    "byte_length (d_key ''plan_node'' ''n'') \<le> 100"
    unfolding k by (simp_all add: u_def byte_length_Cons_ascii)
  show "identity r (d_target ''plan'' ''p'') = Inr (d_key ''plan'' ''p'')"
    "identity r (d_target ''plan_node'' ''s'') = Inr (d_key ''plan_node'' ''s'')"
    "identity r (d_target ''plan_node'' ''n'') = Inr (d_key ''plan_node'' ''n'')"
    by (rule d_identity; simp add: t b)+
  show "d_key ''plan'' ''p'' \<noteq> d_key ''plan_node'' ''s''" "d_key ''plan'' ''p'' \<noteq> d_key ''plan_node'' ''n''"
    "d_key ''plan_node'' ''s'' \<noteq> d_key ''plan_node'' ''n''"
    unfolding k by (simp_all add: u_def)
qed

definition d_plan_entry :: "string \<Rightarrow> string \<Rightarrow> registry_entry" where
  "d_plan_entry kind i = (d_entry kind i)\<lparr>re_owner := d_target ''plan'' ''p''\<rparr>"

definition d_plan_registry :: registry where
  "d_plan_registry =
     \<lparr>rg_asset = None,
      rg_records = map (\<lambda>(k, i). (d_key k i, d_plan_entry k i)) [(''plan'', ''p''), (''plan_node'', ''s''), (''plan_node'', ''n'')],
      rg_edges = map (\<lambda>(k, i). (d_key k i, [])) [(''plan'', ''p''), (''plan_node'', ''s''), (''plan_node'', ''n'')],
      rg_roles = map (\<lambda>(k, i). (d_key k i, [])) [(''plan'', ''p''), (''plan_node'', ''s''), (''plan_node'', ''n'')],
      rg_unresolved = []\<rparr>"

definition d_nodes :: "plan_node list" where
  "d_nodes = [\<lparr>pn_id = u ''s'', pn_kind = SequenceNode [d_target ''plan_node'' ''n'']\<rparr>, \<lparr>pn_id = u ''n'', pn_kind = UseNode\<rparr>]"

lemma d_plan_node: "js_ref ''plan_node'' (JStr (u x)) = d_target ''plan_node'' x" "js_ref ''plan'' (JStr (u x)) = d_target ''plan'' x"
  by (simp_all add: js_ref_def d_target_def js_def)

lemma d_target_reads:
  "is_record (Some (d_target k i))" "is_string (get_opt (Some (d_target k i)) ''id'')"
  "is_local r (d_target k i) = Inr True" "one_of (get_opt (Some (d_target k i)) ''kind'') [k]"
  by (simp_all add: d_target_def jo_def js_def is_record_def is_string_def get_opt_def get_prop_def is_local_def path.simps
      truthy_def one_of_def)

lemma d_target_fields:
  "get_opt (Some (d_target k i)) ''kind'' = Some (js k)" "get_opt (Some (d_target k i)) ''id'' = Some (JStr (u i))"
  by (simp_all add: d_target_def jo_def js_def get_opt_def get_prop_def)

text \<open>Every step below keeps the three records.\<close>

lemma d_plan_get:
  assumes "rg_records r = rg_records d_plan_registry" "i \<in> {''s'', ''n''}"
  shows "get_record r (Some (d_target ''plan_node'' i)) (Some [''plan_node'']) = Inr (Some (d_plan_entry ''plan_node'' i))"
  using assms
  by (elim insertE; simp add: get_record_def d_target_reads d_plan_identity)
    (simp_all add: d_plan_registry_def d_plan_identity d_plan_identity(4,5,6) [symmetric])

lemma d_plan_local:
  assumes "rg_records r = rg_records d_plan_registry" "i \<in> {''s'', ''n''}"
  shows "localNode r (u ''p'') (map pn_id d_nodes) (Some (d_target ''plan_node'' i)) = Inr (u i)"
  using assms by (auto simp: localNode_def d_plan_get d_plan_entry_def d_entry_def d_target_fields d_nodes_def js_def)

lemma d_plan_link:
  assumes r: "rg_records r = rg_records d_plan_registry" and i: "i \<in> {''s'', ''n''}"
    and src: "src \<in> {d_target ''plan'' ''p'', d_target ''plan_node'' ''s''}"
  shows "\<exists>r'. link_records src (Some (d_target ''plan_node'' i)) True (Some [''plan_node'']) None r =
      Inr (Some (d_plan_entry ''plan_node'' i), r') \<and> rg_records r' = rg_records d_plan_registry"
proof -
  have "\<exists>k. identity r src = Inr k \<and> k \<in> fst ` set (rg_records r)"
    using src by (elim insertE) (auto simp: r d_plan_identity d_plan_registry_def)
  moreover have "\<exists>k. identity r (d_target ''plan_node'' i) = Inr k" using i d_plan_identity by blast
  ultimately obtain k k' where "identity r src = Inr k" "k \<in> fst ` set (rg_records d_plan_registry)"
    "identity r (d_target ''plan_node'' i) = Inr k'" using r by auto
  then show ?thesis using r i by (simp add: link_records_def d_plan_get)
qed

lemma d_plan_runs:
  "\<exists>t. plan_structure d_plan_registry (u ''j'') (u ''p'') (d_target ''plan_node'' ''s'') d_nodes = Inr (u ''s'', t)"
proof -
  let ?kept = "\<lambda>r. rg_records r = rg_records d_plan_registry"
  obtain r1 where r1: "link_records (d_target ''plan'' ''p'') (Some (d_target ''plan_node'' ''s'')) True (Some [''plan_node'']) None
      d_plan_registry = Inr (Some (d_plan_entry ''plan_node'' ''s''), r1)" "?kept r1"
    using d_plan_link [of d_plan_registry "''s''"] by auto
  obtain r2 where r2: "link_records (d_target ''plan'' ''p'') (Some (d_target ''plan_node'' ''n'')) True (Some [''plan_node'']) None
      r1 = Inr (Some (d_plan_entry ''plan_node'' ''n''), r2)" "?kept r2"
    using d_plan_link [of r1 "''n''"] r1(2) by auto
  obtain r3 where r3: "link_records (d_target ''plan_node'' ''s'') (Some (d_target ''plan_node'' ''n'')) True (Some [''plan_node'']) None
      r2 = Inr (Some (d_plan_entry ''plan_node'' ''n''), r3)" "?kept r3"
    using d_plan_link [of r2 "''n''"] r2(2) by auto
  have ids: "map pn_id d_nodes = [u ''s'', u ''n'']" "u ''s'' \<noteq> u ''n''" "u ''n'' \<noteq> u ''s''" "length d_nodes = 2"
    by (simp_all add: d_nodes_def)
  have linked: "link_nodes (u ''p'') [u ''s'', u ''n''] d_plan_registry = Inr r2"
    by (simp add: d_plan_node r1 r2)
  define t where "t = \<lparr>pt_registry = r3, pt_parents = [(u ''n'', u ''s'')], pt_children = [(u ''s'', [u ''n'']), (u ''n'', [])]\<rparr>"
  have all: "all_nodes (u ''j'') (u ''p'') [u ''s'', u ''n''] d_nodes
      \<lparr>pt_registry = r2, pt_parents = [], pt_children = [(u ''s'', []), (u ''n'', [])]\<rparr> = Inr t"
    using ids(2,3) d_plan_local [OF r2(2), of "''n''"]
    by (simp add: d_nodes_def node_children_def child_def d_plan_node r3 map_at_def t_def)
  have sc: "succs (pt_children t) (u ''s'') = [u ''n'']" "succs (pt_children t) (u ''n'') = []"
    by (simp_all add: t_def succs_def ids)
  have checked: "acyclic_check (pt_children t) = Inr ()"
    using ids(2,3) by (simp add: acyclic_check_def visit_node.simps sc) (simp add: t_def visit_node.simps sc [unfolded t_def, simplified])
  have reached: "reach_node (pt_children t) (u ''s'') {} = {u ''n'', u ''s''}"
    using ids(2,3) by (simp add: reach_node.simps sc)
  have "localNode (pt_registry t) (u ''p'') [u ''s'', u ''n''] (Some (d_target ''plan_node'' ''s'')) = Inr (u ''s'')"
    using d_plan_local [of r3 "''s''"] r3(2) by (simp add: t_def ids)
  then have "plan_structure d_plan_registry (u ''j'') (u ''p'') (d_target ''plan_node'' ''s'') d_nodes = Inr (u ''s'', t)"
    using ids linked all checked reached by (simp add: plan_structure_def Let_def) (simp add: t_def)
  then show ?thesis by blast
qed

end
