(* ===== verification/CrossEntry.thy ===== *)
theory CrossEntry
  imports JudgmentRegistry Digraph
begin

text \<open>
  The cross-entry rules of a payload (\<open>packages/kdna-core/src/public-contract/cross-entry.js\<close>): obligations
  that relate the entries of a payload to each other.  A rule returns its violations; a payload is admitted when
  no rule has one.

  The payload is a JSON value.  \<open>Map\<close> and \<open>Set\<close> are lists and sets keyed by strings; only \<open>edges\<close> of the
  lifecycle rule is keyed by arbitrary values, see \<open>edge_key\<close>.
\<close>

section \<open>Reading a payload\<close>

record violation =
  vi_path :: jstring
  vi_message :: jstring

definition violates :: "jstring \<Rightarrow> jstring \<Rightarrow> violation list" where
  "violates p m = [\<lparr>vi_path = p, vi_message = m\<rparr>]"

definition list_of :: "json option \<Rightarrow> json list" where
  "list_of v = (case v of Some (JArr xs) \<Rightarrow> xs | _ \<Rightarrow> [])"

definition is_array :: "json option \<Rightarrow> bool" where
  "is_array v = (case v of Some (JArr _) \<Rightarrow> True | _ \<Rightarrow> False)"

lemma is_array_iff: "is_array v \<longleftrightarrow> (\<exists>xs. v = Some (JArr xs))"
  by (auto simp: is_array_def split: option.splits json.splits)

definition judgmentsOf :: "json option \<Rightarrow> json list" where
  "judgmentsOf payload = list_of (get_opt payload ''judgments'')"

definition has_own :: "json \<Rightarrow> string \<Rightarrow> bool" where
  "has_own v k \<longleftrightarrow> get_opt (Some v) k \<noteq> None"

definition describe :: "json option \<Rightarrow> jstring" where
  "describe v =
     (case v of
        None \<Rightarrow> u ''absent''
      | Some JNull \<Rightarrow> u ''null''
      | Some (JArr xs) \<Rightarrow> u ''array('' @ index_text (length xs) @ u '')''
      | Some (JObj _) \<Rightarrow> u ''object''
      | Some (JStr _) \<Rightarrow> u ''string''
      | Some (JNum _) \<Rightarrow> u ''number''
      | Some (JBool _) \<Rightarrow> u ''boolean'')"

text \<open>\<open>xs.forEach((x, i) => ..)\<close>, where the body collects, and the same for the elements that are objects.\<close>

definition at_each :: "(nat \<Rightarrow> json \<Rightarrow> 'a list) \<Rightarrow> json list \<Rightarrow> 'a list" where
  "at_each f xs = concat (map (\<lambda>(i, x). f i x) (List.enumerate 0 xs))"

definition at_objects :: "(nat \<Rightarrow> json \<Rightarrow> 'a list) \<Rightarrow> json list \<Rightarrow> 'a list" where
  "at_objects f xs = at_each (\<lambda>i x. if is_record (Some x) then f i x else []) xs"

definition judgment_at :: "nat \<Rightarrow> string \<Rightarrow> jstring" where
  "judgment_at i rest = u ''/judgments/'' @ index_text i @ u rest"

section \<open>Form and capability\<close>

definition is_conclusion :: "json option \<Rightarrow> bool" where
  "is_conclusion f \<longleftrightarrow> f = Some (js ''conclusion'')"

definition is_rule :: "json option \<Rightarrow> bool" where
  "is_rule f \<longleftrightarrow> f = Some (js ''rule'')"

definition form_violations :: "nat \<Rightarrow> json \<Rightarrow> violation list" where
  "form_violations i j =
     (let form = get_opt (Some j) ''form''; hasResult = has_own j ''result''; hasRule = has_own j ''formation_rule'' in
      (if has_own j ''form'' \<and> \<not> is_conclusion form \<and> \<not> is_rule form
       then violates (judgment_at i ''/form'')
         (u ''form must be one of [\"conclusion\",\"rule\"]; found the declared value in an unregistered form'') else []) @
      (if \<not> hasResult \<and> \<not> hasRule
       then violates (judgment_at i ''/form'')
         (u ''exactly one of result or formation_rule is required; neither is present'') else []) @
      (if hasResult \<and> hasRule
       then violates (judgment_at i ''/form'')
         (u ''exactly one of result or formation_rule is allowed; both are present'') else []) @
      (if is_conclusion form
       then (if hasResult then []
             else violates (judgment_at i ''/result'') (u ''form \"conclusion\" requires an actual result'')) @
            (if has_own j ''result_contract'' then []
             else violates (judgment_at i ''/result_contract'') (u ''form \"conclusion\" requires a result_contract'')) @
            (if hasRule then violates (judgment_at i ''/formation_rule'') (u ''form \"conclusion\" forbids a formation_rule'')
             else [])
       else if is_rule form
       then (if hasRule then []
             else violates (judgment_at i ''/formation_rule'') (u ''form \"rule\" requires a formation_rule'')) @
            (if hasResult then violates (judgment_at i ''/result'') (u ''form \"rule\" forbids a result'') else [])
       else []))"

definition ruleFormConsistency :: "json option \<Rightarrow> violation list" where
  "ruleFormConsistency payload = at_objects form_violations (judgmentsOf payload)"

definition form_of :: "json \<Rightarrow> json option" where
  "form_of j = (if is_record (Some j) then get_opt (Some j) ''form'' else None)"

definition capabilityFor :: "json option \<Rightarrow> jstring option" where
  "capabilityFor payload =
     (let forms = map form_of (judgmentsOf payload) in
      if forms = [] then None
      else if \<exists>f \<in> set forms. \<not> is_conclusion f \<and> \<not> is_rule f then None
      else if list_all is_conclusion forms then Some (u ''asserted_answers'')
      else if list_all is_rule forms then Some (u ''result_forming_rules'')
      else Some (u ''mixed''))"

definition ruleAssetCapability :: "json option \<Rightarrow> violation list" where
  "ruleAssetCapability payload =
     (case capabilityFor payload of
        None \<Rightarrow> violates (u ''/asset_capability'')
          (u ''asset capability cannot be derived because at least one judgment declares no closed form'')
      | Some expected \<Rightarrow>
          if get_opt payload ''asset_capability'' \<noteq> Some (JStr expected)
          then violates (u ''/asset_capability'')
            (u ''asset_capability '' @ describe (get_opt payload ''asset_capability'') @
             u '' contradicts the declared judgment forms; the closed mapping of this asset is '' @ json_quote expected @
             u ''. The asset-level value is a summary; the issue-level form stays authoritative.'')
          else [])"

section \<open>Identities\<close>

text \<open>
  Every search for repeated identifiers goes over candidates: the identifier found (if the entry is an object),
  the path reported for it, and what a later duplicate says about where it was first declared.
\<close>

type_synonym candidate = "json option \<times> jstring \<times> jstring"

fun duplicates :: "(jstring \<Rightarrow> jstring \<Rightarrow> jstring) \<Rightarrow> candidate list \<Rightarrow> (jstring \<times> jstring) list \<Rightarrow> violation list" where
  "duplicates message [] seen = []"
| "duplicates message ((i, p, mark) # cs) seen =
     (case i of
        Some (JStr s) \<Rightarrow>
          if s = [] then duplicates message cs seen
          else (case map_of seen s of
             Some first \<Rightarrow> violates p (message s first) @ duplicates message cs seen
           | None \<Rightarrow> duplicates message cs (seen @ [(s, mark)]))
      | _ \<Rightarrow> duplicates message cs seen)"

definition id_of :: "json \<Rightarrow> json option" where
  "id_of x = (if is_record (Some x) then get_opt (Some x) ''id'' else None)"

definition pushDuplicates :: "jstring \<Rightarrow> (nat \<Rightarrow> jstring) \<Rightarrow> json list \<Rightarrow> violation list" where
  "pushDuplicates kind pathFor entries =
     duplicates (\<lambda>s first. u ''duplicate '' @ kind @ u '' id '' @ json_quote s @ u ''; first declared at '' @ first @
                   u ''. One id must name one object inside its class.'')
       (at_each (\<lambda>i x. [(id_of x, pathFor i, pathFor i)]) entries) []"

definition declarationValues :: "json option \<Rightarrow> json list" where
  "declarationValues declaration = (if is_record declaration then list_of (get_opt declaration ''value'') else [])"

definition extensionsIn :: "json option \<Rightarrow> candidate list" where
  "extensionsIn payload =
     at_each (\<lambda>i e. let p = u ''/extensions/'' @ index_text i @ u ''/id'' in [(id_of e, p, p)]) (list_of (get_opt payload ''extensions''))"

definition contract_candidates :: "json option \<Rightarrow> candidate list" where
  "contract_candidates payload =
     at_objects (\<lambda>i j. [(if is_record (get_opt (Some j) ''result_contract'')
                       then get_opt (get_opt (Some j) ''result_contract'') ''id'' else None,
                     judgment_at i ''/result_contract/id'', judgment_at i [])]) (judgmentsOf payload)"

text \<open>The declarations \<open>name\<close> of the asset (if \<open>asset_level\<close>) and of every judgment.\<close>

definition value_candidates :: "jstring \<Rightarrow> string \<Rightarrow> json option \<Rightarrow> candidate list" where
  "value_candidates p name declaration =
     at_each (\<lambda>k e. let q = p @ u ''/'' @ u name @ u ''/value/'' @ index_text k @ u ''/id'' in [(id_of e, q, q)])
       (declarationValues declaration)"

definition declared_candidates :: "bool \<Rightarrow> string \<Rightarrow> json option \<Rightarrow> candidate list" where
  "declared_candidates asset_level name payload =
     (let declarations = get_opt payload ''declarations'' in
      (if asset_level
       then value_candidates (u ''/declarations'') name (if is_record declarations then get_opt declarations name else None)
       else []) @
      at_objects (\<lambda>i j. value_candidates (judgment_at i []) name (get_opt (Some j) name)) (judgmentsOf payload))"

definition component_candidates :: "json option \<Rightarrow> candidate list" where
  "component_candidates payload =
     at_objects (\<lambda>i j.
       if is_record (get_opt (Some j) ''method'')
       then at_each (\<lambda>k c. let p = judgment_at i ''/method/components/'' @ index_text k @ u ''/id'' in [(id_of c, p, p)])
              (list_of (get_opt (get_opt (Some j) ''method'') ''components''))
       else []) (judgmentsOf payload)"

definition dedupe :: "string \<Rightarrow> candidate list \<Rightarrow> violation list" where
  "dedupe kind cs =
     duplicates (\<lambda>s first. u ''duplicate '' @ u kind @ u '' id '' @ json_quote s @ u ''; first declared at '' @ first) cs []"

definition nestedIdentityViolations :: "json option \<Rightarrow> violation list" where
  "nestedIdentityViolations payload =
     duplicates (\<lambda>s first. u ''duplicate result_contract id '' @ json_quote s @ u ''; first declared by '' @ first @
         u ''. A result contract id is a resolution target, so one id must name one contract.'') (contract_candidates payload) [] @
     dedupe ''Extension'' (extensionsIn payload) @
     dedupe ''Boundary'' (declared_candidates True ''boundaries'' payload) @
     dedupe ''Exception'' (declared_candidates False ''exceptions'' payload) @
     dedupe ''Misuse'' (declared_candidates False ''misuse'' payload) @
     duplicates (\<lambda>s first. u ''duplicate MethodComponent id '' @ json_quote s @ u ''; first declared at '' @ first @
         u ''. A method component id is a resolution target of the whole asset, so one id must name one component even across different judgments.'')
       (component_candidates payload) []"

definition IDENTITY_COLLECTIONS :: "string list" where
  "IDENTITY_COLLECTIONS =
     [''judgments'', ''materials'', ''reasons'', ''sources'', ''source_uses'', ''resources'', ''relationships'',
      ''dependencies'', ''actors'', ''extensions'']"

text \<open>The kind named in a message: \<open>key.replace(/s$/, '')\<close>.\<close>

definition singular :: "string \<Rightarrow> string" where
  "singular k = (if k \<noteq> [] \<and> last k = CHR ''s'' then butlast k else k)"

definition ruleUniqueIdentity :: "json option \<Rightarrow> violation list" where
  "ruleUniqueIdentity payload =
     concat (map (\<lambda>k. pushDuplicates (u (if k = ''extensions'' then ''Extension'' else singular k))
                        (\<lambda>i. u ''/'' @ u k @ u ''/'' @ index_text i @ u ''/id'') (list_of (get_opt payload k)))
              IDENTITY_COLLECTIONS) @
     nestedIdentityViolations payload"

section \<open>Terms\<close>

fun term_violations :: "(nat \<times> json) list \<Rightarrow> (jstring \<times> nat) list \<Rightarrow> violation list" where
  "term_violations [] seen = []"
| "term_violations ((i, m) # ms) seen =
     (if \<not> is_record (Some m) \<or> get_opt (Some m) ''kind'' \<noteq> Some (js ''definition'') then term_violations ms seen
      else let p = u ''/materials/'' @ index_text i @ u ''/term'';
               refused = (\<lambda>t. violates p (u ''a definition term must be a non-empty string; found '' @ describe (Some t)))
           in case get_opt (Some m) ''term'' of
          None \<Rightarrow> term_violations ms seen
        | Some (JStr s) \<Rightarrow>
            if s = [] then refused (JStr s) @ term_violations ms seen
            else (case map_of seen s of
               Some first \<Rightarrow>
                 violates p (u ''duplicate definition term '' @ json_quote s @ u ''; first declared at /materials/'' @
                   index_text first @ u ''/term. Duplicates are rejected, never merged by the reader.'') @ term_violations ms seen
             | None \<Rightarrow> term_violations ms (seen @ [(s, i)]))
        | Some t \<Rightarrow> refused t @ term_violations ms seen)"

definition ruleTermUniqueness :: "json option \<Rightarrow> violation list" where
  "ruleTermUniqueness payload = term_violations (List.enumerate 0 (list_of (get_opt payload ''materials''))) []"

text \<open>\<open>check(ref, key, path)\<close> against the registry the caller passes in.\<close>

definition termOf :: "json option \<Rightarrow> jstring option" where
  "termOf r = (if is_record r then (case get_opt r ''term'' of Some (JStr s) \<Rightarrow> Some s | _ \<Rightarrow> None) else None)"

definition check_term :: "json option \<Rightarrow> json option \<Rightarrow> string \<Rightarrow> jstring \<Rightarrow> violation list" where
  "check_term registry r key p =
     (case termOf r of
        None \<Rightarrow> []
      | Some t \<Rightarrow>
          let vocabulary = (if is_record r then get_opt r ''vocabulary'' else None) in
          if JStr t \<in> set (list_of (if is_record registry then get_opt registry key else None)) \<or> vocabulary = Some (js ''author'')
          then []
          else violates (p @ u ''/term'')
            (u ''term '' @ json_quote t @ u '' is not in core_terms.'' @ u key @ u '' and vocabulary is '' @ describe vocabulary @
             u ''; either register the term or declare vocabulary:\"author\"''))"

definition relationship_terms :: "json option \<Rightarrow> nat \<Rightarrow> json \<Rightarrow> violation list" where
  "relationship_terms registry i r =
     (let p = u ''/relationships/'' @ index_text i in
      check_term registry (get_opt (Some r) ''kind'') ''relationship_kind'' (p @ u ''/kind'') @
      check_term registry (get_opt (Some r) ''operator'') ''relationship_operator'' (p @ u ''/operator'') @
      check_term registry (get_opt (Some r) ''effect'') ''relationship_effect'' (p @ u ''/effect'') @
      at_objects (\<lambda>k q. check_term registry (get_opt (Some q) ''role'') ''relation_role''
                       (p @ u ''/participants/'' @ index_text k @ u ''/role''))
        (list_of (get_opt (Some r) ''participants'')))"

definition judgment_terms :: "json option \<Rightarrow> nat \<Rightarrow> json \<Rightarrow> violation list" where
  "judgment_terms registry i j =
     (let contract = get_opt (Some j) ''result_contract''; result = get_opt (Some j) ''result''; method = get_opt (Some j) ''method'' in
      (if is_record contract
       then check_term registry (get_opt contract ''form'') ''answer_type'' (judgment_at i ''/result_contract/form'') @
            at_each (\<lambda>k t. check_term registry (Some t) ''answer_type''
                         (judgment_at i ''/result_contract/allowed_result_types/'' @ index_text k))
              (list_of (get_opt contract ''allowed_result_types''))
       else []) @
      (if is_record result
       then check_term registry (get_opt result ''result_type'') ''answer_type'' (judgment_at i ''/result/result_type'') else []) @
      (if is_record method
       then check_term registry (get_opt method ''method'') ''method'' (judgment_at i ''/method/method'') @
            at_objects (\<lambda>k c. check_term registry (get_opt (Some c) ''method'') ''method''
                             (judgment_at i ''/method/components/'' @ index_text k @ u ''/method''))
              (list_of (get_opt method ''components''))
       else []))"

definition ruleTermVocabulary :: "json option \<Rightarrow> json option \<Rightarrow> violation list" where
  "ruleTermVocabulary registry payload =
     at_objects (relationship_terms registry) (list_of (get_opt payload ''relationships'')) @
     at_objects (judgment_terms registry) (judgmentsOf payload)"

definition ruleNavigationLabel :: "json option \<Rightarrow> violation list" where
  "ruleNavigationLabel payload =
     at_objects (\<lambda>i j. if has_own j ''label''
                      then violates (judgment_at i ''/label'')
                        (u ''R2 uses the unique authored focus; a separate navigation label is forbidden'') else [])
       (judgmentsOf payload)"

section \<open>Parents\<close>

definition id_count :: "json list \<Rightarrow> jstring \<Rightarrow> nat" where
  "id_count judgments s = length (filter (\<lambda>j. id_of j = Some (JStr s)) judgments)"

text \<open>
  The violations of one \<open>parent_ref\<close>, and the pair that \<open>parentOf.set\<close> records for it.
\<close>

definition parent_violations :: "json list \<Rightarrow> nat \<Rightarrow> json \<Rightarrow> violation list" where
  "parent_violations judgments i j =
     (let p = judgment_at i ''/parent_ref''; own = get_opt (Some j) ''id'' in
      case get_opt (Some j) ''parent_ref'' of
        None \<Rightarrow> []
      | Some JNull \<Rightarrow> []
      | Some (JStr raw) \<Rightarrow>
          if raw = [] then violates p (u ''parent_ref must be a non-empty identifier; found string'')
          else (case own of
              Some (JStr s) \<Rightarrow>
                if id_count judgments s > 1
                then violates p (u ''parent_ref cannot be evaluated because judgment id '' @ json_quote s @ u '' is declared '' @
                       index_text (id_count judgments s) @ u '' times in this asset'')
                else if raw = s then violates p (u ''parent_ref points at its own judgment ('' @ json_quote raw @ u '')'')
                else if id_count judgments raw = 0
                then violates p (u ''parent_ref '' @ json_quote raw @ u '' does not resolve to any judgment id in this asset'')
                else []
            | _ \<Rightarrow>
                if id_count judgments raw = 0
                then violates p (u ''parent_ref '' @ json_quote raw @ u '' does not resolve to any judgment id in this asset'')
                else [])
      | Some v \<Rightarrow> violates p (u ''parent_ref must be a non-empty identifier; found '' @ describe (Some v)))"

definition parent_entry :: "json list \<Rightarrow> json \<Rightarrow> (jstring \<times> jstring) list" where
  "parent_entry judgments j =
     (case (get_opt (Some j) ''id'', get_opt (Some j) ''parent_ref'') of
        (Some (JStr s), Some (JStr raw)) \<Rightarrow> if raw \<noteq> [] \<and> id_count judgments s \<le> 1 then [(s, raw)] else []
      | _ \<Rightarrow> [])"

text \<open>The walk up from a node: the chain visited, and the node met again if the walk closes a cycle.\<close>

function walk_up :: "(jstring \<times> jstring) list \<Rightarrow> jstring list \<Rightarrow> jstring \<Rightarrow> jstring list \<times> jstring option" where
  "walk_up parentOf chain node =
     (case map_of parentOf node of
        None \<Rightarrow> (chain, None)
      | Some parent \<Rightarrow> if node \<in> set chain then (chain, Some node) else walk_up parentOf (chain @ [node]) parent)"
  by pat_completeness auto
termination
proof (relation "measure (\<lambda>(parentOf, chain, node). card (fst ` set parentOf - set chain))")
  fix parentOf :: "(jstring \<times> jstring) list" and chain and node parent :: jstring
  assume "map_of parentOf node = Some parent" "node \<notin> set chain"
  then have "node \<in> fst ` set parentOf - set chain" by (force dest: map_of_SomeD)
  then have "fst ` set parentOf - set (chain @ [node]) \<subset> fst ` set parentOf - set chain" by auto
  then show "((parentOf, chain @ [node], parent), parentOf, chain, node)
      \<in> measure (\<lambda>(parentOf, chain, node). card (fst ` set parentOf - set chain))"
    by (simp add: psubset_card_mono)
qed simp

declare walk_up.simps [simp del]

definition join_with :: "jstring \<Rightarrow> jstring list \<Rightarrow> jstring" where
  "join_with sep xs = (case xs of [] \<Rightarrow> [] | x # ys \<Rightarrow> x @ concat (map (\<lambda>y. sep @ y) ys))"

definition find_index :: "(json \<Rightarrow> bool) \<Rightarrow> json list \<Rightarrow> nat option" where
  "find_index P xs = map_option fst (List.find (\<lambda>(i, x). P x) (List.enumerate 0 xs))"

fun parent_cycles :: "json list \<Rightarrow> (jstring \<times> jstring) list \<Rightarrow> jstring list \<Rightarrow> jstring set \<Rightarrow> violation list" where
  "parent_cycles judgments parentOf [] walked = []"
| "parent_cycles judgments parentOf (s # starts) walked =
     (if s \<in> walked then parent_cycles judgments parentOf starts walked
      else let (chain, closing) = walk_up parentOf [] s in
        (case closing of
           None \<Rightarrow> []
         | Some node \<Rightarrow>
             violates (case find_index (\<lambda>j. id_of j = Some (JStr s)) judgments of
                 Some i \<Rightarrow> judgment_at i ''/parent_ref'' | None \<Rightarrow> u ''/judgments'')
               (u ''parent_ref cycle detected: '' @ join_with (u '' -> '') (map json_quote chain) @ u '' -> '' @ json_quote node)) @
        parent_cycles judgments parentOf starts (walked \<union> set chain))"

definition ruleParentClosure :: "json option \<Rightarrow> violation list" where
  "ruleParentClosure payload =
     (let judgments = judgmentsOf payload;
          parentOf = at_objects (\<lambda>i j. parent_entry judgments j) judgments in
      at_objects (parent_violations judgments) judgments @ parent_cycles judgments parentOf (map fst parentOf) {})"

section \<open>Lifecycle\<close>

text \<open>
  The keys of the replacement graph are the identifiers of judgments, which may be any value here.  Arrays and
  objects are keys by reference: such a key is the position of its judgment.
\<close>

datatype edge_key = ValueKey "json option" | ReferenceKey nat

definition edge_key :: "nat \<Rightarrow> json option \<Rightarrow> edge_key" where
  "edge_key i v =
     (case v of
        Some (JArr _) \<Rightarrow> ReferenceKey i
      | Some (JObj _) \<Rightarrow> ReferenceKey i
      | Some (JNum NegZero) \<Rightarrow> ValueKey (Some (JNum (Fin 0)))
      | _ \<Rightarrow> ValueKey v)"

text \<open>A replacement target: the violations it adds, with the identities seen so far, and the local judgment it names.\<close>

definition replacement_identity :: "json \<Rightarrow> jstring list option" where
  "replacement_identity t =
     (if is_record (Some t) \<and> is_record (get_opt (Some t) ''asset'') \<and>
         list_all (\<lambda>k. non_empty_string (get_opt (get_opt (Some t) ''asset'') k)) [''asset_id'', ''asset_version'', ''judgment_version''] \<and>
         non_empty_string (get_opt (Some t) ''judgment_id'')
      then those (map (\<lambda>v. case v of Some (JStr s) \<Rightarrow> Some s | _ \<Rightarrow> None)
             (map (get_opt (get_opt (Some t) ''asset'')) [''asset_id'', ''asset_version'', ''judgment_version''] @
              [get_opt (Some t) ''judgment_id'']))
      else None)"

definition known_judgment :: "json list \<Rightarrow> jstring \<Rightarrow> bool" where
  "known_judgment judgments s \<longleftrightarrow> (\<exists>j \<in> set judgments. get_opt (Some j) ''id'' = Some (JStr s))"

fun replacement_targets :: "json option \<Rightarrow> json \<Rightarrow> jstring \<Rightarrow> (nat \<times> json) list \<Rightarrow> jstring list set \<Rightarrow> violation list \<times> jstring list" where
  "replacement_targets payload j p [] seen = ([], [])"
| "replacement_targets payload j p ((k, t) # ts) seen =
     (let q = p @ u ''/superseded_by/'' @ index_text k in
      case replacement_identity t of
        None \<Rightarrow>
          (let (vs, local) = replacement_targets payload j p ts seen in
           (violates q (u ''replacement requires complete AssetIdentity and judgment_id'') @ vs, local))
      | Some key \<Rightarrow>
          (let (vs, local) = replacement_targets payload j p ts (insert key seen);
               again = (if key \<in> seen then violates q (u ''replacement identity must be unique'') else []);
               target = last key in
           if \<not> sameAsset (get_opt (Some t) ''asset'') (get_opt payload ''asset'') then (again @ vs, local)
           else let own = (if get_opt (Some j) ''id'' = Some (JStr target)
                           then violates q (u ''a judgment cannot replace itself'') else []) in
             if known_judgment (judgmentsOf payload) target then (again @ own @ vs, target # local)
             else (again @ own @ violates q (u ''a current-asset replacement must resolve to a judgment'') @ vs, local)))"

text \<open>One judgment: its violations, and the edge it adds to the graph.\<close>

definition lifecycle_entry :: "json option \<Rightarrow> nat \<Rightarrow> json \<Rightarrow> violation list \<times> (edge_key \<times> jstring list) option" where
  "lifecycle_entry payload i j =
     (if \<not> is_record (Some j) \<or> \<not> has_own j ''lifecycle'' then ([], None)
      else let lifecycle = get_opt (Some j) ''lifecycle''; p = judgment_at i ''/lifecycle'';
               status = get_opt lifecycle ''status''; superseded_by = get_opt lifecycle ''superseded_by'' in
        if \<not> is_record lifecycle \<or> \<not> one_of status [''active'', ''deprecated'', ''superseded'', ''withdrawn''] \<or>
           \<not> is_array superseded_by
        then (violates p (u ''lifecycle must use the closed status and replacement target contract''), None)
        else let targets = list_of superseded_by;
                 (vs, local) = replacement_targets payload j p (List.enumerate 0 targets) {} in
          ((if status = Some (js ''superseded'') \<and> targets = []
            then violates (p @ u ''/superseded_by'') (u ''superseded requires an explicit replacement'') else []) @
           (if one_of status [''active'', ''withdrawn''] \<and> targets \<noteq> []
            then violates (p @ u ''/superseded_by'')
              (u ''active and withdrawn forbid replacement assertions; use deprecated or superseded'') else []) @ vs,
           Some (edge_key i (get_opt (Some j) ''id''), local)))"

fun lifecycle_edges :: "(edge_key \<times> jstring list) option list \<Rightarrow> edge_key digraph \<Rightarrow> edge_key digraph" where
  "lifecycle_edges [] edges = edges"
| "lifecycle_edges (None # es) edges = lifecycle_edges es edges"
| "lifecycle_edges (Some (k, local) # es) edges =
     lifecycle_edges es (upsert k (map (\<lambda>s. ValueKey (Some (JStr s))) local) edges)"

definition ruleLifecycle :: "json option \<Rightarrow> violation list" where
  "ruleLifecycle payload =
     (let entries = map (\<lambda>(i, j). lifecycle_entry payload i j) (List.enumerate 0 (judgmentsOf payload)) in
      concat (map fst entries) @
      (if has_cycle (lifecycle_edges (map snd entries) [])
       then violates (u ''/judgments'') (u ''current-asset replacement graph must be acyclic'') else []))"

section \<open>The rule set\<close>

definition RULES :: "(string \<times> (json option \<Rightarrow> json option \<Rightarrow> violation list)) list" where
  "RULES =
     [(''PUBLIC-FORM-CONSISTENCY'', \<lambda>registry. ruleFormConsistency),
      (''PUBLIC-ASSET-CAPABILITY'', \<lambda>registry. ruleAssetCapability),
      (''PUBLIC-UNIQUE-IDENTITY'', \<lambda>registry. ruleUniqueIdentity),
      (''PUBLIC-TERM-UNIQUENESS'', \<lambda>registry. ruleTermUniqueness),
      (''PUBLIC-PARENT-CLOSURE'', \<lambda>registry. ruleParentClosure),
      (''PUBLIC-TERM-VOCABULARY'', ruleTermVocabulary),
      (''PUBLIC-NAVIGATION-LABEL'', \<lambda>registry. ruleNavigationLabel),
      (''PUBLIC-LIFECYCLE'', \<lambda>registry. ruleLifecycle)]"

record rule_report =
  rr_rule :: jstring
  rr_ok :: bool
  rr_violations :: "violation list"

definition checkPayload :: "json option \<Rightarrow> json option \<Rightarrow> rule_report list" where
  "checkPayload payload registry =
     map (\<lambda>(i, run). let vs = run registry payload in \<lparr>rr_rule = u i, rr_ok = (vs = []), rr_violations = vs\<rparr>) RULES"

text \<open>The error thrown: its message, the rule, and the field of the diagnostic.\<close>

record payload_refusal =
  pr_message :: jstring
  pr_rule :: jstring
  pr_field :: jstring

definition refusal :: "string \<Rightarrow> jstring \<Rightarrow> jstring \<Rightarrow> payload_refusal" where
  "refusal i message p = \<lparr>pr_message = u i @ u '': '' @ message, pr_rule = u i, pr_field = u ''/payload'' @ p\<rparr>"

fun assert_rules :: "(string \<times> violation list) list \<Rightarrow> payload_refusal + bool" where
  "assert_rules [] = Inr True"
| "assert_rules ((i, []) # rs) = assert_rules rs"
| "assert_rules ((i, v # vs) # rs) = Inl (refusal i (vi_message v) (vi_path v))"

definition assertPayload :: "json option \<Rightarrow> json option \<Rightarrow> payload_refusal + bool" where
  "assertPayload payload registry = assert_rules (map (\<lambda>(i, run). (i, run registry payload)) RULES)"

text \<open>
  The scoped variant: rules about bodies see the loaded judgments only, and the position in their pointer is
  translated back; rules about the graph see the headers of all judgments.  \<open>loaded\<close> decides membership of
  an identifier.
\<close>

definition with_judgments :: "json option \<Rightarrow> json list \<Rightarrow> json option" where
  "with_judgments payload list =
     (case payload of Some (JObj ps) \<Rightarrow> Some (JObj (upsert (u ''judgments'') (JArr list) ps)) | v \<Rightarrow> v)"

definition pointer_index :: "jstring \<Rightarrow> (nat \<times> jstring) option" where
  "pointer_index p =
     (let pre = u ''/judgments/''; rest = drop (length pre) p; digits = takeWhile is_digit rest in
      if take (length pre) p = pre \<and> digits \<noteq> [] then Some (dec_value (map digit_val digits), dropWhile is_digit rest) else None)"

definition original_pointer :: "(nat \<times> json) list \<Rightarrow> json list \<Rightarrow> jstring \<Rightarrow> jstring" where
  "original_pointer scoped judgments p =
     (case pointer_index p of
        None \<Rightarrow> p
      | Some (n, rest) \<Rightarrow>
          let (k, j) = scoped ! n in
          u ''/judgments/'' @
          (case find_index (\<lambda>x. strict_eq (get_opt (Some x) ''id'') (get_opt (Some j) ''id'')) (take k judgments) of
             Some m \<Rightarrow> index_text m | None \<Rightarrow> index_text k) @ rest)"

definition body_rule :: "string \<Rightarrow> bool" where
  "body_rule i \<longleftrightarrow> i \<in> {''PUBLIC-FORM-CONSISTENCY'', ''PUBLIC-TERM-VOCABULARY'', ''PUBLIC-NAVIGATION-LABEL''}"

definition graph_rule :: "string \<Rightarrow> bool" where
  "graph_rule i \<longleftrightarrow> i \<in> {''PUBLIC-PARENT-CLOSURE'', ''PUBLIC-LIFECYCLE''}"

definition assertScopedPayload :: "json option \<Rightarrow> json option \<Rightarrow> (json option \<Rightarrow> bool) \<Rightarrow> json list \<Rightarrow> exn + (payload_refusal + bool)" where
  "assertScopedPayload payload registry loaded headers =
     ebind (path payload [''judgments'']) (\<lambda>w. ebind (js_list w) (\<lambda>judgments.
     ebind (mapE (\<lambda>(k, j). emap (\<lambda>i. (k, j, i)) (path (Some j) [''id''])) (List.enumerate 0 judgments)) (\<lambda>named.
       let scoped = map (\<lambda>(k, j, i). (k, j)) (filter (\<lambda>(k, j, i). loaded i) named);
           input = (\<lambda>i. if graph_rule i then with_judgments payload headers
                        else if body_rule i then with_judgments payload (map snd scoped) else payload);
           moved = (\<lambda>i v. if body_rule i then v\<lparr>vi_path := original_pointer scoped judgments (vi_path v)\<rparr> else v) in
       Inr (assert_rules (map (\<lambda>(i, run). (i, map (moved i) (run registry (input i))))
             (filter (\<lambda>(i, run). i \<noteq> ''PUBLIC-ASSET-CAPABILITY'') RULES))))))"

end
