(* ===== verification/PayloadRules.thy ===== *)
theory PayloadRules
  imports CrossEntry
begin

text \<open>
  What the cross-entry rules demand: for each rule of \<open>CrossEntry\<close> a predicate on the payload that holds exactly
  when the rule reports no violation.
\<close>

section \<open>A rule and its meaning\<close>

locale payload_rule =
  fixes run :: "'p \<Rightarrow> violation list" and holds :: "'p \<Rightarrow> bool"
  assumes decides: "run p = [] \<longleftrightarrow> holds p"
begin

lemma refused: "\<not> holds p \<Longrightarrow> \<exists>v vs. run p = v # vs"
  using decides [of p] by (cases "run p") auto

lemma first_rule: "assert_rules ((i, run p) # rs) = Inr b \<longleftrightarrow> holds p \<and> assert_rules rs = Inr b"
  using decides [of p] by (cases "run p") auto

lemma reported: "rr_ok \<lparr>rr_rule = i, rr_ok = (run p = []), rr_violations = run p\<rparr> \<longleftrightarrow> holds p"
  by (simp add: decides)

end

section \<open>Collected violations\<close>

lemma violates_not_Nil [simp]: "violates p m \<noteq> []"
  by (simp add: violates_def)

lemma at_each_same:
  assumes "\<And>i x. f i x = [] \<longleftrightarrow> P x"
  shows "at_each f xs = [] \<longleftrightarrow> (\<forall>x \<in> set xs. P x)"
proof -
  have "concat (map (\<lambda>(i, x). f i x) (List.enumerate n xs)) = [] \<longleftrightarrow> (\<forall>x \<in> set xs. P x)" for n
    by (induction xs arbitrary: n) (simp_all add: assms)
  then show ?thesis by (simp add: at_each_def)
qed

lemma at_objects_same:
  "(\<And>i x. is_record (Some x) \<Longrightarrow> f i x = [] \<longleftrightarrow> P x) \<Longrightarrow>
   at_objects f xs = [] \<longleftrightarrow> (\<forall>x \<in> set xs. is_record (Some x) \<longrightarrow> P x)"
  unfolding at_objects_def by (rule at_each_same) simp

lemma map_at_each:
  assumes "\<And>i x. map g (f i x) = h x"
  shows "map g (at_each f xs) = concat (map h xs)"
proof -
  have "map g (concat (map (\<lambda>(i, x). f i x) (List.enumerate n xs))) = concat (map h xs)" for n
    by (induction xs arbitrary: n) (simp_all add: assms)
  then show ?thesis by (simp add: at_each_def)
qed

section \<open>Forms, capability, labels\<close>

definition form_ok :: "json \<Rightarrow> bool" where
  "form_ok j \<longleftrightarrow>
     (let form = get_opt (Some j) ''form'' in
      (has_own j ''form'' \<longrightarrow> is_conclusion form \<or> is_rule form) \<and>
      has_own j ''result'' \<noteq> has_own j ''formation_rule'' \<and>
      (is_conclusion form \<longrightarrow> has_own j ''result'' \<and> has_own j ''result_contract'') \<and>
      (is_rule form \<longrightarrow> has_own j ''formation_rule''))"

definition forms_ok :: "json option \<Rightarrow> bool" where
  "forms_ok payload \<longleftrightarrow> (\<forall>j \<in> set (judgmentsOf payload). is_record (Some j) \<longrightarrow> form_ok j)"

lemma form_violations_Nil: "form_violations i j = [] \<longleftrightarrow> form_ok j"
proof -
  have "\<not> (is_conclusion f \<and> is_rule f)" for f by (simp add: is_conclusion_def is_rule_def js_def)
  then show ?thesis by (auto simp: form_violations_def form_ok_def Let_def)
qed

interpretation forms: payload_rule ruleFormConsistency forms_ok
  unfolding payload_rule_def ruleFormConsistency_def forms_ok_def
  by (intro allI at_objects_same form_violations_Nil)

definition capability_ok :: "json option \<Rightarrow> bool" where
  "capability_ok payload \<longleftrightarrow>
     (let forms = form_of ` set (judgmentsOf payload) in
      forms \<noteq> {} \<and> (\<forall>f \<in> forms. is_conclusion f \<or> is_rule f) \<and>
      get_opt payload ''asset_capability'' =
        Some (js (if \<forall>f \<in> forms. is_conclusion f then ''asserted_answers''
                  else if \<forall>f \<in> forms. is_rule f then ''result_forming_rules'' else ''mixed'')))"

interpretation capability: payload_rule ruleAssetCapability capability_ok
  by unfold_locales
    (auto simp: ruleAssetCapability_def capabilityFor_def capability_ok_def Let_def list_all_iff js_def split: if_splits)

definition labels_ok :: "json option \<Rightarrow> bool" where
  "labels_ok payload \<longleftrightarrow> (\<forall>j \<in> set (judgmentsOf payload). is_record (Some j) \<longrightarrow> \<not> has_own j ''label'')"

interpretation labels: payload_rule ruleNavigationLabel labels_ok
  unfolding payload_rule_def ruleNavigationLabel_def labels_ok_def
  by (intro allI at_objects_same) simp

section \<open>Identities and terms\<close>

text \<open>The non-empty strings among the values read.\<close>

definition text_names :: "json option list \<Rightarrow> jstring list" where
  "text_names vs = concat (map (\<lambda>v. case v of Some (JStr s) \<Rightarrow> if s = [] then [] else [s] | _ \<Rightarrow> []) vs)"

lemma text_names_simps [simp]:
  "text_names [] = []"
  "text_names (Some (JStr s) # vs) = (if s = [] then text_names vs else s # text_names vs)"
  "(\<And>s. v \<noteq> Some (JStr s)) \<Longrightarrow> text_names (v # vs) = text_names vs"
  "text_names (vs @ ws) = text_names vs @ text_names ws"
  by (auto simp: text_names_def split: option.split json.split)

lemma duplicates_Nil:
  "duplicates message cs seen = [] \<longleftrightarrow>
     distinct (text_names (map fst cs)) \<and> set (text_names (map fst cs)) \<inter> fst ` set seen = {}"
proof (induction cs arbitrary: seen)
  case (Cons c cs)
  obtain i p mark where c: "c = (i, p, mark)" by (rule prod_cases3)
  show ?case
  proof (cases "\<exists>s. i = Some (JStr s) \<and> s \<noteq> []")
    case True
    then obtain s where i: "i = Some (JStr s)" "s \<noteq> []" by blast
    show ?thesis
    proof (cases "map_of seen s")
      case None
      then have "s \<notin> fst ` set seen" by (simp add: map_of_eq_None_iff)
      then show ?thesis using None Cons.IH [of "seen @ [(s, mark)]"] by (auto simp: c i)
    next
      case (Some first)
      then have "s \<in> fst ` set seen" by (force dest: map_of_SomeD)
      then show ?thesis using Some by (auto simp: c i)
    qed
  next
    case False
    then have "text_names (map fst (c # cs)) = text_names (map fst cs)" "duplicates message (c # cs) seen = duplicates message cs seen"
      by (auto simp: c text_names_def split: option.split json.split)
    then show ?thesis using Cons.IH [of seen] by simp
  qed
qed simp

lemmas unique_names = duplicates_Nil [where seen = "[]", simplified]

definition declared_ids :: "string \<Rightarrow> json \<Rightarrow> json option list" where
  "declared_ids name holder = map id_of (declarationValues (get_opt (Some holder) name))"

definition objects_of :: "json list \<Rightarrow> json list" where
  "objects_of = filter (\<lambda>x. is_record (Some x))"

text \<open>The identifiers of each class that is checked across the payload.\<close>

definition nested_ids :: "json option \<Rightarrow> json option list list" where
  "nested_ids payload =
     (let js = objects_of (judgmentsOf payload) in
      [map (\<lambda>j. id_of (coalesce (get_opt (Some j) ''result_contract'') JNull)) js,
       map id_of (list_of (get_opt payload ''extensions'')),
       (if is_record (get_opt payload ''declarations'')
        then declared_ids ''boundaries'' (the (get_opt payload ''declarations'')) else []) @
       concat (map (declared_ids ''boundaries'') js),
       concat (map (declared_ids ''exceptions'') js),
       concat (map (declared_ids ''misuse'') js),
       concat (map (\<lambda>j. if is_record (get_opt (Some j) ''method'')
                       then map id_of (list_of (get_opt (get_opt (Some j) ''method'') ''components'')) else []) js)])"

definition identities_ok :: "json option \<Rightarrow> bool" where
  "identities_ok payload \<longleftrightarrow>
     (\<forall>k \<in> set IDENTITY_COLLECTIONS. distinct (text_names (map id_of (list_of (get_opt payload k))))) \<and>
     (\<forall>ids \<in> set (nested_ids payload). distinct (text_names ids))"

lemma map_at_objects:
  assumes "\<And>i x. map g (f i x) = h x"
  shows "map g (at_objects f xs) = concat (map h (objects_of xs))"
proof -
  have "map g (at_objects f xs) = concat (map (\<lambda>x. if is_record (Some x) then h x else []) xs)"
    unfolding at_objects_def by (rule map_at_each) (simp add: assms)
  also have "\<dots> = concat (map h (objects_of xs))" by (induction xs) (simp_all add: objects_of_def)
  finally show ?thesis .
qed

lemma map_at_each_one: "(\<And>i x. map g (f i x) = [h x]) \<Longrightarrow> map g (at_each f xs) = map h xs"
  using map_at_each [of g f "\<lambda>x. [h x]" xs] by simp

lemma candidate_names:
  "map fst (at_each (\<lambda>i x. [(id_of x, pathFor i, pathFor i)]) xs) = map id_of xs"
  "map fst (extensionsIn payload) = map id_of (list_of (get_opt payload ''extensions''))"
  "map fst (value_candidates p name d) = map id_of (declarationValues d)"
  "map fst (component_candidates payload) =
     concat (map (\<lambda>j. if is_record (get_opt (Some j) ''method'')
        then map id_of (list_of (get_opt (get_opt (Some j) ''method'') ''components'')) else []) (objects_of (judgmentsOf payload)))"
  "map fst (contract_candidates payload) =
     map (\<lambda>j. id_of (coalesce (get_opt (Some j) ''result_contract'') JNull)) (objects_of (judgmentsOf payload))"
proof -
  show "map fst (at_each (\<lambda>i x. [(id_of x, pathFor i, pathFor i)]) xs) = map id_of xs"
    "map fst (extensionsIn payload) = map id_of (list_of (get_opt payload ''extensions''))"
    "map fst (value_candidates p name d) = map id_of (declarationValues d)"
    unfolding extensionsIn_def value_candidates_def Let_def by (rule map_at_each_one; simp)+
  show "map fst (component_candidates payload) =
     concat (map (\<lambda>j. if is_record (get_opt (Some j) ''method'')
        then map id_of (list_of (get_opt (get_opt (Some j) ''method'') ''components'')) else []) (objects_of (judgmentsOf payload)))"
    unfolding component_candidates_def Let_def by (rule map_at_objects) (auto intro!: map_at_each_one)
  have "map fst (contract_candidates payload) =
      concat (map (\<lambda>j. [id_of (coalesce (get_opt (Some j) ''result_contract'') JNull)]) (objects_of (judgmentsOf payload)))"
    unfolding contract_candidates_def
    by (rule map_at_objects) (auto simp: id_of_def coalesce_def is_record_def split: option.split json.split)
  then show "map fst (contract_candidates payload) =
     map (\<lambda>j. id_of (coalesce (get_opt (Some j) ''result_contract'') JNull)) (objects_of (judgmentsOf payload))"
    by simp
qed

lemma declared_names:
  "map fst (declared_candidates asset_level name payload) =
     (if asset_level \<and> is_record (get_opt payload ''declarations'')
      then declared_ids name (the (get_opt payload ''declarations'')) else []) @
     concat (map (declared_ids name) (objects_of (judgmentsOf payload)))"
proof -
  have "map fst (at_objects (\<lambda>i j. value_candidates (judgment_at i []) name (get_opt (Some j) name)) (judgmentsOf payload)) =
      concat (map (declared_ids name) (objects_of (judgmentsOf payload)))"
    by (rule map_at_objects) (simp add: candidate_names declared_ids_def)
  moreover have "is_record d \<Longrightarrow> Some (the d) = d" for d by (cases d) (auto simp: is_record_def)
  moreover have "value_candidates p name None = []" for p by (simp add: value_candidates_def declarationValues_def is_record_def at_each_def)
  ultimately show ?thesis
    by (simp add: declared_candidates_def Let_def candidate_names declared_ids_def)
qed

interpretation identities: payload_rule ruleUniqueIdentity identities_ok
  by unfold_locales
    (auto simp: ruleUniqueIdentity_def pushDuplicates_def nestedIdentityViolations_def dedupe_def unique_names
      candidate_names declared_names identities_ok_def nested_ids_def Let_def)

definition definitions_of :: "json option \<Rightarrow> json list" where
  "definitions_of payload =
     filter (\<lambda>m. is_record (Some m) \<and> get_opt (Some m) ''kind'' = Some (js ''definition'')) (list_of (get_opt payload ''materials''))"

definition terms_ok :: "json option \<Rightarrow> bool" where
  "terms_ok payload \<longleftrightarrow>
     (\<forall>m \<in> set (definitions_of payload). has_own m ''term'' \<longrightarrow> non_empty_string (get_opt (Some m) ''term'')) \<and>
     distinct (text_names (map (\<lambda>m. get_opt (Some m) ''term'') (definitions_of payload)))"

lemma term_violations_Nil:
  "term_violations ms seen = [] \<longleftrightarrow>
     (let ds = filter (\<lambda>m. is_record (Some m) \<and> get_opt (Some m) ''kind'' = Some (js ''definition'')) (map snd ms);
          names = text_names (map (\<lambda>m. get_opt (Some m) ''term'') ds) in
      (\<forall>m \<in> set ds. has_own m ''term'' \<longrightarrow> non_empty_string (get_opt (Some m) ''term'')) \<and>
      distinct names \<and> set names \<inter> fst ` set seen = {})"
proof (induction ms arbitrary: seen)
  case (Cons im ms)
  obtain i m where im: "im = (i, m)" by fastforce
  show ?case
  proof (cases "is_record (Some m) \<and> get_opt (Some m) ''kind'' = Some (js ''definition'')")
    case True
    show ?thesis
    proof (cases "get_opt (Some m) ''term''")
      case None
      then show ?thesis using True Cons.IH [of seen] by (simp add: im has_own_def Let_def)
    next
      case (Some t)
      show ?thesis
      proof (cases "\<exists>s. t = JStr s \<and> s \<noteq> []")
        case named: True
        then obtain s where t: "t = JStr s" "s \<noteq> []" by blast
        show ?thesis
        proof (cases "map_of seen s")
          case new: None
          then have "s \<notin> fst ` set seen" by (simp add: map_of_eq_None_iff)
          then show ?thesis using True Some new t Cons.IH [of "seen @ [(s, i)]"]
            by (auto simp: im has_own_def non_empty_string_def Let_def)
        next
          case (Some first)
          then have "s \<in> fst ` set seen" by (force dest: map_of_SomeD)
          then show ?thesis using True \<open>get_opt (Some m) ''term'' = Some t\<close> Some t by (simp add: im Let_def)
        qed
      next
        case other: False
        then have "\<not> non_empty_string (Some t)" by (auto simp: non_empty_string_def split: json.splits)
        moreover have "term_violations (im # ms) seen \<noteq> []" using True Some other by (cases t) (auto simp: im Let_def)
        ultimately show ?thesis using True Some by (simp add: im has_own_def Let_def)
      qed
    qed
  next
    case False
    then show ?thesis using Cons.IH [of seen] by (auto simp: im Let_def)
  qed
qed simp

interpretation terms: payload_rule ruleTermUniqueness terms_ok
  by unfold_locales (simp add: ruleTermUniqueness_def term_violations_Nil terms_ok_def definitions_of_def Let_def)

text \<open>A term is registered, the author's own, or absent.\<close>

definition term_known :: "json option \<Rightarrow> string \<Rightarrow> json option \<Rightarrow> bool" where
  "term_known registry key r \<longleftrightarrow>
     (\<forall>t. is_record r \<and> get_opt r ''term'' = Some (JStr t) \<longrightarrow>
        JStr t \<in> set (list_of (if is_record registry then get_opt registry key else None)) \<or>
        get_opt r ''vocabulary'' = Some (js ''author''))"

lemma check_term_Nil: "check_term registry r key p = [] \<longleftrightarrow> term_known registry key r"
  by (cases "get_opt r ''term''") (auto simp: check_term_def termOf_def term_known_def Let_def split: json.splits)

definition relationship_known :: "json option \<Rightarrow> json \<Rightarrow> bool" where
  "relationship_known registry r \<longleftrightarrow>
     term_known registry ''relationship_kind'' (get_opt (Some r) ''kind'') \<and>
     term_known registry ''relationship_operator'' (get_opt (Some r) ''operator'') \<and>
     term_known registry ''relationship_effect'' (get_opt (Some r) ''effect'') \<and>
     (\<forall>q \<in> set (list_of (get_opt (Some r) ''participants'')). is_record (Some q) \<longrightarrow>
        term_known registry ''relation_role'' (get_opt (Some q) ''role''))"

definition judgment_known :: "json option \<Rightarrow> json \<Rightarrow> bool" where
  "judgment_known registry j \<longleftrightarrow>
     (let contract = get_opt (Some j) ''result_contract''; result = get_opt (Some j) ''result''; method = get_opt (Some j) ''method'' in
      (is_record contract \<longrightarrow>
         term_known registry ''answer_type'' (get_opt contract ''form'') \<and>
         (\<forall>t \<in> set (list_of (get_opt contract ''allowed_result_types'')). term_known registry ''answer_type'' (Some t))) \<and>
      (is_record result \<longrightarrow> term_known registry ''answer_type'' (get_opt result ''result_type'')) \<and>
      (is_record method \<longrightarrow>
         term_known registry ''method'' (get_opt method ''method'') \<and>
         (\<forall>c \<in> set (list_of (get_opt method ''components'')). is_record (Some c) \<longrightarrow>
            term_known registry ''method'' (get_opt (Some c) ''method''))))"

definition vocabulary_ok :: "json option \<Rightarrow> json option \<Rightarrow> bool" where
  "vocabulary_ok registry payload \<longleftrightarrow>
     (\<forall>r \<in> set (list_of (get_opt payload ''relationships'')). is_record (Some r) \<longrightarrow> relationship_known registry r) \<and>
     (\<forall>j \<in> set (judgmentsOf payload). is_record (Some j) \<longrightarrow> judgment_known registry j)"

lemma relationship_terms_Nil: "relationship_terms registry i r = [] \<longleftrightarrow> relationship_known registry r"
proof -
  have "at_objects (\<lambda>k q. check_term registry (get_opt (Some q) ''role'') ''relation_role'' (p k)) xs = [] \<longleftrightarrow>
      (\<forall>q \<in> set xs. is_record (Some q) \<longrightarrow> term_known registry ''relation_role'' (get_opt (Some q) ''role''))" for p xs
    by (rule at_objects_same) (rule check_term_Nil)
  then show ?thesis by (simp add: relationship_terms_def relationship_known_def Let_def check_term_Nil)
qed

lemma judgment_terms_Nil: "judgment_terms registry i j = [] \<longleftrightarrow> judgment_known registry j"
proof -
  have "at_objects (\<lambda>k c. check_term registry (get_opt (Some c) ''method'') ''method'' (p k)) xs = [] \<longleftrightarrow>
      (\<forall>c \<in> set xs. is_record (Some c) \<longrightarrow> term_known registry ''method'' (get_opt (Some c) ''method''))" for p xs
    by (rule at_objects_same) (rule check_term_Nil)
  moreover have "at_each (\<lambda>k t. check_term registry (Some t) ''answer_type'' (p k)) xs = [] \<longleftrightarrow>
      (\<forall>t \<in> set xs. term_known registry ''answer_type'' (Some t))" for p xs
    by (rule at_each_same) (rule check_term_Nil)
  ultimately show ?thesis by (simp add: judgment_terms_def judgment_known_def Let_def check_term_Nil)
qed

interpretation vocabulary: payload_rule "ruleTermVocabulary registry" "vocabulary_ok registry"
  for registry
proof unfold_locales
  fix payload
  have "at_objects (relationship_terms registry) xs = [] \<longleftrightarrow>
      (\<forall>r \<in> set xs. is_record (Some r) \<longrightarrow> relationship_known registry r)" for xs
    by (rule at_objects_same) (rule relationship_terms_Nil)
  moreover have "at_objects (judgment_terms registry) xs = [] \<longleftrightarrow>
      (\<forall>j \<in> set xs. is_record (Some j) \<longrightarrow> judgment_known registry j)" for xs
    by (rule at_objects_same) (rule judgment_terms_Nil)
  ultimately show "ruleTermVocabulary registry payload = [] \<longleftrightarrow> vocabulary_ok registry payload"
    by (simp add: ruleTermVocabulary_def vocabulary_ok_def)
qed

section \<open>Parents\<close>

text \<open>The relation from a node to its recorded parent.\<close>

definition parent_relation :: "(jstring \<times> jstring) list \<Rightarrow> (jstring \<times> jstring) set" where
  "parent_relation parentOf = {(c, p). map_of parentOf c = Some p}"

lemma walk_up_cycle:
  assumes "walk_up parentOf chain node = (visited, Some x)" "\<And>c. c \<in> set chain \<Longrightarrow> (c, node) \<in> (parent_relation parentOf)\<^sup>+"
  shows "(x, x) \<in> (parent_relation parentOf)\<^sup>+"
  using assms
proof (induction parentOf chain node rule: walk_up.induct)
  case (1 parentOf chain node)
  obtain p where p: "map_of parentOf node = Some p"
    using "1.prems"(1) by (cases "map_of parentOf node") (auto simp: walk_up.simps [of parentOf chain node])
  then have e: "(node, p) \<in> parent_relation parentOf" by (simp add: parent_relation_def)
  show ?case
  proof (cases "node \<in> set chain")
    case True
    then show ?thesis using "1.prems" p by (auto simp: walk_up.simps [of parentOf chain node])
  next
    case False
    have "walk_up parentOf (chain @ [node]) p = (visited, Some x)"
      using "1.prems"(1) p False by (simp add: walk_up.simps [of parentOf chain node])
    then show ?thesis using "1.IH" [OF p False] "1.prems"(2) e by (auto intro: trancl_into_trancl)
  qed
qed

lemma walk_up_ends:
  assumes "walk_up parentOf chain node = (visited, None)"
  shows "(\<forall>x. (node, x) \<in> (parent_relation parentOf)\<^sup>* \<longrightarrow> (x, x) \<notin> (parent_relation parentOf)\<^sup>+) \<and>
    set visited \<subseteq> set chain \<union> (parent_relation parentOf)\<^sup>* `` {node}"
  using assms
proof (induction parentOf chain node rule: walk_up.induct)
  case (1 parentOf chain node)
  let ?R = "parent_relation parentOf"
  show ?case
  proof (cases "map_of parentOf node")
    case None
    then have "(node, y) \<notin> ?R" for y by (simp add: parent_relation_def)
    then show ?thesis using "1.prems" None by (auto simp: walk_up.simps [of parentOf chain node] elim: converse_rtranclE dest: tranclD)
  next
    case (Some p)
    then have new: "node \<notin> set chain" and w: "walk_up parentOf (chain @ [node]) p = (visited, None)"
      using "1.prems" by (auto simp: walk_up.simps [of parentOf chain node] split: if_splits)
    note ih = "1.IH" [OF Some new w]
    have only: "y = p" if "(node, y) \<in> ?R" for y using that Some by (simp add: parent_relation_def)
    have "(node, p) \<in> ?R" using Some by (simp add: parent_relation_def)
    then have sub: "?R\<^sup>* `` {p} \<subseteq> ?R\<^sup>* `` {node}" by (auto intro: converse_rtrancl_into_rtrancl)
    have "(x, x) \<notin> ?R\<^sup>+" if "(node, x) \<in> ?R\<^sup>*" for x
    proof
      assume c: "(x, x) \<in> ?R\<^sup>+"
      have "(p, x) \<in> ?R\<^sup>*"
      proof (cases "x = node")
        case True
        then show ?thesis using c only by (auto dest: tranclD)
      next
        case False
        then show ?thesis using that only by (auto elim: converse_rtranclE)
      qed
      then show False using ih c by blast
    qed
    moreover have "set visited \<subseteq> set chain \<union> ?R\<^sup>* `` {node}" using ih sub by auto
    ultimately show ?thesis by blast
  qed
qed

lemma parent_cycles_clean:
  assumes "\<forall>x \<in> walked. (x, x) \<notin> (parent_relation parentOf)\<^sup>+" "parent_cycles judgments parentOf starts walked = []"
  shows "\<forall>s \<in> set starts. (s, s) \<notin> (parent_relation parentOf)\<^sup>+"
  using assms
proof (induction starts arbitrary: walked)
  case (Cons s starts)
  obtain chain closing where w: "walk_up parentOf [] s = (chain, closing)" by fastforce
  show ?case
  proof (cases "s \<in> walked")
    case False
    then have n: "closing = None" "parent_cycles judgments parentOf starts (walked \<union> set chain) = []"
      using Cons.prems(2) w by (auto split: option.splits)
    note e = walk_up_ends [OF w [unfolded n(1)]]
    then have "(s, s) \<notin> (parent_relation parentOf)\<^sup>+" "\<forall>x \<in> walked \<union> set chain. (x, x) \<notin> (parent_relation parentOf)\<^sup>+"
      using Cons.prems(1) by auto
    then show ?thesis using Cons.IH [of "walked \<union> set chain"] n(2) by simp
  qed (use Cons in simp)
qed simp

lemma parent_cycles_acyclic: "acyclic (parent_relation parentOf) \<Longrightarrow> parent_cycles judgments parentOf starts walked = []"
proof (induction starts arbitrary: walked)
  case (Cons s starts)
  obtain chain closing where w: "walk_up parentOf [] s = (chain, closing)" by fastforce
  have "closing = None"
    using walk_up_cycle [of parentOf "[]" s chain] Cons.prems w by (cases closing) (auto simp: acyclic_def)
  then show ?case using Cons w by simp
qed simp

lemma parent_cycles_Nil: "parent_cycles judgments parentOf (map fst parentOf) {} = [] \<longleftrightarrow> acyclic (parent_relation parentOf)"
proof
  assume c: "parent_cycles judgments parentOf (map fst parentOf) {} = []"
  show "acyclic (parent_relation parentOf)"
    unfolding acyclic_def
  proof (intro allI notI)
    fix x
    assume x: "(x, x) \<in> (parent_relation parentOf)\<^sup>+"
    then obtain y where "map_of parentOf x = Some y" by (auto dest: tranclD simp: parent_relation_def)
    then have "x \<in> set (map fst parentOf)" by (force dest: map_of_SomeD)
    then show False using parent_cycles_clean [OF _ c] x by blast
  qed
qed (rule parent_cycles_acyclic)

text \<open>A parent reference is absent, null, or the identifier of another judgment, which no second judgment shares.\<close>

definition parent_ok :: "json list \<Rightarrow> json \<Rightarrow> bool" where
  "parent_ok judgments j \<longleftrightarrow>
     (case get_opt (Some j) ''parent_ref'' of
        None \<Rightarrow> True
      | Some JNull \<Rightarrow> True
      | Some (JStr raw) \<Rightarrow>
          raw \<noteq> [] \<and> (\<exists>k \<in> set judgments. id_of k = Some (JStr raw)) \<and>
          (\<forall>s. get_opt (Some j) ''id'' = Some (JStr s) \<longrightarrow> id_count judgments s \<le> 1 \<and> raw \<noteq> s)
      | _ \<Rightarrow> False)"

definition parent_edges :: "json list \<Rightarrow> (jstring \<times> jstring) set" where
  "parent_edges judgments =
     {(s, raw). raw \<noteq> [] \<and> (\<exists>j \<in> set judgments. id_of j = Some (JStr s) \<and> get_opt (Some j) ''parent_ref'' = Some (JStr raw))}"

definition parents_ok :: "json option \<Rightarrow> bool" where
  "parents_ok payload \<longleftrightarrow>
     (let judgments = judgmentsOf payload in
      (\<forall>j \<in> set judgments. is_record (Some j) \<longrightarrow> parent_ok judgments j) \<and> acyclic (parent_edges judgments))"

lemma id_count_0: "id_count judgments s = 0 \<longleftrightarrow> \<not> (\<exists>k \<in> set judgments. id_of k = Some (JStr s))"
  by (simp add: id_count_def filter_empty_conv)

lemma parent_violations_Nil: "parent_violations judgments i j = [] \<longleftrightarrow> parent_ok judgments j"
proof (cases "\<exists>raw. get_opt (Some j) ''parent_ref'' = Some (JStr raw)")
  case True
  then obtain raw where r: "get_opt (Some j) ''parent_ref'' = Some (JStr raw)" by blast
  note known = id_count_0 [of judgments raw]
  show ?thesis
  proof (cases "\<exists>s. get_opt (Some j) ''id'' = Some (JStr s)")
    case True
    then obtain s where "get_opt (Some j) ''id'' = Some (JStr s)" by blast
    then show ?thesis using r known by (auto simp: parent_violations_def parent_ok_def Let_def)
  next
    case False
    then show ?thesis using r known
      by (cases "get_opt (Some j) ''id''") (auto simp: parent_violations_def parent_ok_def Let_def split: json.splits)
  qed
next
  case False
  then show ?thesis by (auto simp: parent_violations_def parent_ok_def Let_def split: option.splits json.splits)
qed

lemma map_of_unique:
  "(\<And>v w. (k, v) \<in> set ps \<Longrightarrow> (k, w) \<in> set ps \<Longrightarrow> v = w) \<Longrightarrow> map_of ps k = Some v \<longleftrightarrow> (k, v) \<in> set ps"
proof
  assume u: "\<And>v w. (k, v) \<in> set ps \<Longrightarrow> (k, w) \<in> set ps \<Longrightarrow> v = w"
  assume "(k, v) \<in> set ps"
  then show "map_of ps k = Some v" using u by (metis map_of_SomeD weak_map_of_SomeI)
qed (rule map_of_SomeD)

lemma counted_once:
  assumes "id_count judgments s \<le> 1" "j \<in> set judgments" "k \<in> set judgments" "id_of j = Some (JStr s)" "id_of k = Some (JStr s)"
  shows "j = k"
proof -
  have "j \<in> set (filter (\<lambda>j. id_of j = Some (JStr s)) judgments)" "k \<in> set (filter (\<lambda>j. id_of j = Some (JStr s)) judgments)"
    using assms by simp_all
  then show ?thesis using assms(1) unfolding id_count_def
    by (cases "filter (\<lambda>j. id_of j = Some (JStr s)) judgments" rule: list.exhaust) (auto simp: le_Suc_eq)
qed

lemma parent_pairs:
  assumes "\<forall>j \<in> set judgments. is_record (Some j) \<longrightarrow> parent_ok judgments j"
  shows "parent_relation (at_objects (\<lambda>i j. parent_entry judgments j) judgments) = parent_edges judgments"
proof -
  let ?ps = "at_objects (\<lambda>i j. parent_entry judgments j) judgments"
  have "map id ?ps = concat (map (parent_entry judgments) (objects_of judgments))" by (rule map_at_objects) simp
  then have ps: "set ?ps = (\<Union>j \<in> {j \<in> set judgments. is_record (Some j)}. set (parent_entry judgments j))"
    by (simp add: objects_of_def)
  have mem: "(s, raw) \<in> set ?ps \<longleftrightarrow>
      raw \<noteq> [] \<and> (\<exists>j \<in> set judgments. id_of j = Some (JStr s) \<and> get_opt (Some j) ''parent_ref'' = Some (JStr raw))" for s raw
  proof
    assume "raw \<noteq> [] \<and> (\<exists>j \<in> set judgments. id_of j = Some (JStr s) \<and> get_opt (Some j) ''parent_ref'' = Some (JStr raw))"
    then obtain j where j: "raw \<noteq> []" "j \<in> set judgments" "id_of j = Some (JStr s)" "get_opt (Some j) ''parent_ref'' = Some (JStr raw)"
      by blast
    have obj: "is_record (Some j)" "get_opt (Some j) ''id'' = Some (JStr s)" using j(3) by (auto simp: id_of_def split: if_splits)
    have "id_count judgments s \<le> 1" using assms j(2) obj by (auto simp: parent_ok_def j(4))
    then have "(s, raw) \<in> set (parent_entry judgments j)" using j(1,4) obj(2) by (simp add: parent_entry_def)
    then show "(s, raw) \<in> set ?ps" using ps j(2) obj(1) by blast
  next
    assume "(s, raw) \<in> set ?ps"
    then obtain j where "j \<in> set judgments" "is_record (Some j)" "(s, raw) \<in> set (parent_entry judgments j)" using ps by blast
    then show "raw \<noteq> [] \<and> (\<exists>j \<in> set judgments. id_of j = Some (JStr s) \<and> get_opt (Some j) ''parent_ref'' = Some (JStr raw))"
      by (auto simp: parent_entry_def id_of_def split: option.splits json.splits if_splits)
  qed
  have "v = w" if "(s, v) \<in> set ?ps" "(s, w) \<in> set ?ps" for s v w
  proof -
    from that(1) obtain j where j: "j \<in> set judgments" "id_of j = Some (JStr s)" "get_opt (Some j) ''parent_ref'' = Some (JStr v)"
      unfolding mem by blast
    from that(2) obtain k where k: "k \<in> set judgments" "id_of k = Some (JStr s)" "get_opt (Some k) ''parent_ref'' = Some (JStr w)"
      unfolding mem by blast
    have "is_record (Some j)" "get_opt (Some j) ''id'' = Some (JStr s)" using j(2) by (auto simp: id_of_def split: if_splits)
    then have "id_count judgments s \<le> 1" using assms j(1) by (auto simp: parent_ok_def j(3))
    then have "j = k" using j k by (intro counted_once)
    then show ?thesis using j k by simp
  qed
  then have "map_of ?ps s = Some raw \<longleftrightarrow> (s, raw) \<in> set ?ps" for s raw by (rule map_of_unique)
  then show ?thesis by (simp add: parent_relation_def parent_edges_def mem)
qed

interpretation parents: payload_rule ruleParentClosure parents_ok
proof unfold_locales
  fix payload
  let ?js = "judgmentsOf payload"
  have "at_objects (parent_violations ?js) ?js = [] \<longleftrightarrow> (\<forall>j \<in> set ?js. is_record (Some j) \<longrightarrow> parent_ok ?js j)"
    by (rule at_objects_same) (rule parent_violations_Nil)
  then show "ruleParentClosure payload = [] \<longleftrightarrow> parents_ok payload"
    using parent_pairs [of ?js] by (auto simp: ruleParentClosure_def parents_ok_def Let_def parent_cycles_Nil)
qed

section \<open>Lifecycle\<close>

definition replaces_here :: "json option \<Rightarrow> json \<Rightarrow> bool" where
  "replaces_here payload t \<longleftrightarrow> sameAsset (get_opt (Some t) ''asset'') (get_opt payload ''asset'')"

definition replacements_ok :: "json option \<Rightarrow> json \<Rightarrow> json list \<Rightarrow> bool" where
  "replacements_ok payload j ts \<longleftrightarrow>
     None \<notin> replacement_identity ` set ts \<and> distinct (map replacement_identity ts) \<and>
     (\<forall>t \<in> set ts. replaces_here payload t \<longrightarrow>
        get_opt (Some t) ''judgment_id'' \<noteq> get_opt (Some j) ''id'' \<and>
        (\<exists>k \<in> set (judgmentsOf payload). get_opt (Some k) ''id'' = get_opt (Some t) ''judgment_id''))"

lemma identity_target:
  "replacement_identity t = Some key \<Longrightarrow> get_opt (Some t) ''judgment_id'' = Some (JStr (last key)) \<and> last key \<noteq> []"
  by (auto simp: replacement_identity_def non_empty_string_def split: if_splits option.splits json.splits)

lemma replacement_targets_Nil:
  "fst (replacement_targets payload j p ts seen) = [] \<longleftrightarrow>
     replacements_ok payload j (map snd ts) \<and> (\<forall>t \<in> snd ` set ts. replacement_identity t \<notin> Some ` seen)"
proof (induction ts arbitrary: seen)
  case (Cons kt ts)
  obtain k t where kt: "kt = (k, t)" by fastforce
  show ?case
  proof (cases "replacement_identity t")
    case None
    then show ?thesis by (simp add: kt replacements_ok_def Let_def split_def)
  next
    case (Some key)
    note target = identity_target [OF Some]
    have fresh: "(\<forall>t \<in> snd ` set ts. replacement_identity t \<notin> Some ` insert key seen) \<longleftrightarrow>
        (\<forall>t \<in> snd ` set ts. replacement_identity t \<notin> Some ` seen) \<and> Some key \<notin> replacement_identity ` snd ` set ts"
      by (auto simp: image_iff)
    show ?thesis using Cons.IH [of "insert key seen"] unfolding fresh
      by (auto simp: kt Some Let_def split_def replacements_ok_def replaces_here_def target known_judgment_def image_image)
  qed
qed (simp add: replacements_ok_def)

lemma replacement_targets_local:
  "replacements_ok payload j (map snd ts) \<Longrightarrow>
   set (snd (replacement_targets payload j p ts seen)) =
     {s. \<exists>t \<in> snd ` set ts. replaces_here payload t \<and> get_opt (Some t) ''judgment_id'' = Some (JStr s)}"
proof (induction ts arbitrary: seen)
  case (Cons kt ts)
  obtain k t where kt: "kt = (k, t)" by fastforce
  have rest: "replacements_ok payload j (map snd ts)" using Cons.prems by (simp add: replacements_ok_def)
  have "replacement_identity t \<noteq> None"
    using Cons.prems by (cases "replacement_identity t") (simp_all add: kt replacements_ok_def)
  then obtain key where key: "replacement_identity t = Some key" by blast
  show ?case using Cons.prems Cons.IH [OF rest] identity_target [OF key]
    by (auto simp: kt key Let_def split_def replacements_ok_def replaces_here_def known_judgment_def)
qed simp

definition lifecycle_ok :: "json option \<Rightarrow> json \<Rightarrow> bool" where
  "lifecycle_ok payload j \<longleftrightarrow>
     (has_own j ''lifecycle'' \<longrightarrow>
        (let lifecycle = get_opt (Some j) ''lifecycle''; status = get_opt lifecycle ''status'' in
         is_record lifecycle \<and> one_of status [''active'', ''deprecated'', ''superseded'', ''withdrawn''] \<and>
         (\<exists>ts. get_opt lifecycle ''superseded_by'' = Some (JArr ts) \<and>
            (status = Some (js ''superseded'') \<longrightarrow> ts \<noteq> []) \<and>
            (one_of status [''active'', ''withdrawn''] \<longrightarrow> ts = []) \<and> replacements_ok payload j ts)))"

definition each_lifecycle_ok :: "json option \<Rightarrow> bool" where
  "each_lifecycle_ok payload \<longleftrightarrow> (\<forall>j \<in> set (judgmentsOf payload). is_record (Some j) \<longrightarrow> lifecycle_ok payload j)"

definition replacement_graph :: "json option \<Rightarrow> edge_key digraph" where
  "replacement_graph payload =
     lifecycle_edges (map (\<lambda>(i, j). snd (lifecycle_entry payload i j)) (List.enumerate 0 (judgmentsOf payload))) []"

definition lifecycles_ok :: "json option \<Rightarrow> bool" where
  "lifecycles_ok payload \<longleftrightarrow>
     (\<forall>j \<in> set (judgmentsOf payload). is_record (Some j) \<longrightarrow> lifecycle_ok payload j) \<and>
     acyclic (edges_of (replacement_graph payload))"

lemma lifecycle_entry_Nil: "fst (lifecycle_entry payload i j) = [] \<longleftrightarrow> (is_record (Some j) \<longrightarrow> lifecycle_ok payload j)"
proof (cases "is_record (Some j) \<and> has_own j ''lifecycle''")
  case True
  have n: "fst (replacement_targets payload j p (List.enumerate 0 ts) {}) = [] \<longleftrightarrow> replacements_ok payload j ts" for p ts
    by (simp add: replacement_targets_Nil)
  show ?thesis using True
    by (auto simp: lifecycle_entry_def lifecycle_ok_def Let_def split_def n list_of_def is_array_iff)
qed (auto simp: lifecycle_entry_def lifecycle_ok_def)

interpretation lifecycles: payload_rule ruleLifecycle lifecycles_ok
proof unfold_locales
  fix payload
  have "concat (map fst (map (\<lambda>(i, j). lifecycle_entry payload i j) (List.enumerate 0 js))) =
      at_each (\<lambda>i j. fst (lifecycle_entry payload i j)) js" for js
    by (simp add: at_each_def split_def comp_def)
  moreover have "at_each (\<lambda>i j. fst (lifecycle_entry payload i j)) js = [] \<longleftrightarrow>
      (\<forall>j \<in> set js. is_record (Some j) \<longrightarrow> lifecycle_ok payload j)" for js
    by (rule at_each_same) (rule lifecycle_entry_Nil)
  moreover have "map snd (map (\<lambda>(i, j). lifecycle_entry payload i j) (List.enumerate 0 js)) =
      map (\<lambda>(i, j). snd (lifecycle_entry payload i j)) (List.enumerate 0 js)" for js
    by (simp add: split_def)
  ultimately show "ruleLifecycle payload = [] \<longleftrightarrow> lifecycles_ok payload"
    by (simp add: ruleLifecycle_def lifecycles_ok_def replacement_graph_def has_cycle_iff Let_def del: map_map)
qed

text \<open>
  With unique identifiers the graph is the relation between identifiers that the judgments declare: the values
  of other types are keys without incoming edges.
\<close>

definition declares_replacement :: "json option \<Rightarrow> json \<Rightarrow> jstring \<Rightarrow> bool" where
  "declares_replacement payload j t \<longleftrightarrow>
     is_record (Some j) \<and>
     (\<exists>x \<in> set (list_of (get_opt (get_opt (Some j) ''lifecycle'') ''superseded_by'')).
        replaces_here payload x \<and> get_opt (Some x) ''judgment_id'' = Some (JStr t))"

definition replacement_edges :: "json option \<Rightarrow> (jstring \<times> jstring) set" where
  "replacement_edges payload =
     {(s, t). s \<noteq> [] \<and>
        (\<exists>j \<in> set (judgmentsOf payload). get_opt (Some j) ''id'' = Some (JStr s) \<and> declares_replacement payload j t)}"

abbreviation string_key :: "jstring \<Rightarrow> edge_key" where
  "string_key s \<equiv> ValueKey (Some (JStr s))"

lemma edge_key_string: "edge_key i v = string_key s \<longleftrightarrow> v = Some (JStr s)"
  by (auto simp: edge_key_def split: option.splits json.splits number.splits)

definition edge_entries :: "(edge_key \<times> jstring list) option list \<Rightarrow> edge_key digraph" where
  "edge_entries es = concat (map (\<lambda>e. case e of None \<Rightarrow> [] | Some (k, l) \<Rightarrow> [(k, map string_key l)]) es)"

lemma edge_entries_set: "(k, ys) \<in> set (edge_entries es) \<longleftrightarrow> (\<exists>l. Some (k, l) \<in> set es \<and> ys = map string_key l)"
  by (induction es) (auto simp: edge_entries_def split: option.splits)

lemma map_of_lifecycle_edges: "map_of (lifecycle_edges es g) = map_of g ++ map_of (rev (edge_entries es))"
proof (induction es arbitrary: g)
  case (Cons e es)
  show ?case
  proof (cases e)
    case (Some kl)
    obtain k l where kl: "kl = (k, l)" by fastforce
    have "map_of (upsert k ys g) = map_of g ++ map_of [(k, ys)]" for ys by (auto simp: fun_eq_iff map_add_def)
    then show ?thesis using Cons.IH [of "upsert k (map string_key l) g"]
      by (simp add: Some kl edge_entries_def del: map_of.simps map_of_upsert)
  qed (use Cons in \<open>simp add: edge_entries_def\<close>)
qed (simp add: edge_entries_def)

lemma succs_lifecycle_edges:
  assumes "y \<in> set (succs (lifecycle_edges es []) k)"
  shows "\<exists>l t. Some (k, l) \<in> set es \<and> t \<in> set l \<and> y = string_key t"
proof -
  obtain ys where "map_of (rev (edge_entries es)) k = Some ys" "y \<in> set ys"
    using assms by (cases "map_of (rev (edge_entries es)) k") (auto simp: succs_def map_of_lifecycle_edges)
  then obtain l where "Some (k, l) \<in> set es" "y \<in> set (map string_key l)" by (auto dest!: map_of_SomeD simp: edge_entries_set)
  then show ?thesis by auto
qed

lemma succs_lifecycle_edges_unique:
  assumes "Some (k, l) \<in> set es" "\<And>m. Some (k, m) \<in> set es \<Longrightarrow> m = l"
  shows "succs (lifecycle_edges es []) k = map string_key l"
proof -
  have "map_of (rev (edge_entries es)) k = Some (map string_key l) \<longleftrightarrow> (k, map string_key l) \<in> set (rev (edge_entries es))"
    by (rule map_of_unique) (use assms(2) in \<open>auto simp: edge_entries_set\<close>)
  then show ?thesis using assms(1) by (auto simp: succs_def map_of_lifecycle_edges edge_entries_set)
qed

lemma same_position:
  "distinct (text_names (map id_of xs)) \<Longrightarrow> (i, j) \<in> set (List.enumerate n xs) \<Longrightarrow> (i', j') \<in> set (List.enumerate n xs) \<Longrightarrow>
   id_of j = Some (JStr s) \<Longrightarrow> id_of j' = Some (JStr s) \<Longrightarrow> s \<noteq> [] \<Longrightarrow> i = i' \<and> j = j'"
proof (induction xs arbitrary: n)
  case (Cons x xs)
  have mem: "s \<in> set (text_names (map id_of xs))" if "(k, y) \<in> set (List.enumerate (Suc n) xs)" "id_of y = Some (JStr s)" for k y
  proof -
    have "y \<in> set xs" using that(1) by (auto simp: in_set_enumerate_eq)
    then show ?thesis using that(2) Cons.prems(6) by (force simp: text_names_def)
  qed
  have d: "distinct (text_names (map id_of xs))" "id_of x = Some (JStr s) \<Longrightarrow> s \<notin> set (text_names (map id_of xs))"
    using Cons.prems(1,6) by (cases "\<exists>r. id_of x = Some (JStr r)"; auto split: if_splits)+
  then show ?case using Cons.IH [OF d(1), of "Suc n"] Cons.prems mem by auto
qed simp

lemma acyclic_transfer:
  assumes "inj f" "\<And>x y. (x, y) \<in> E \<Longrightarrow> \<exists>t \<in> A. y = f t" "\<And>s t. (s, t) \<in> R \<Longrightarrow> s \<in> A"
    and step: "\<And>s y. s \<in> A \<Longrightarrow> (f s, y) \<in> E \<longleftrightarrow> (\<exists>t. y = f t \<and> (s, t) \<in> R)"
  shows "acyclic E \<longleftrightarrow> acyclic R"
proof -
  have in_A: "t \<in> A" if "(s, t) \<in> R" for s t
    using assms(2) [of "f s" "f t"] step [OF assms(3) [OF that]] that injD [OF assms(1)] by blast
  have "(f s, f t) \<in> E\<^sup>+" if "(s, t) \<in> R\<^sup>+" for s t
    using that
  proof (induction rule: trancl_induct)
    case (base t)
    then show ?case using step [OF assms(3) [OF base]] by blast
  next
    case (step t t')
    then have "(f t, f t') \<in> E" using assms(4) [of t "f t'"] assms(3) by blast
    with step.IH show ?case by (rule trancl_into_trancl)
  qed
  moreover have "\<exists>t \<in> A. y = f t \<and> (s, t) \<in> R\<^sup>+" if "(f s, y) \<in> E\<^sup>+" "s \<in> A" for s y
    using that(1)
  proof (induction rule: trancl_induct)
    case (base y)
    then show ?case using assms(4) [OF that(2)] in_A by blast
  next
    case (step y z)
    then show ?case using assms(4) in_A by (metis trancl_into_trancl)
  qed
  moreover have "\<exists>t \<in> A. x = f t" if "(x, x) \<in> E\<^sup>+" for x
    using that assms(2) by (metis tranclE)
  ultimately show ?thesis unfolding acyclic_def using injD [OF assms(1)] by metis
qed

theorem replacement_graph_acyclic:
  assumes ids: "identities_ok payload" and ok: "\<forall>j \<in> set (judgmentsOf payload). is_record (Some j) \<longrightarrow> lifecycle_ok payload j"
  shows "acyclic (edges_of (replacement_graph payload)) \<longleftrightarrow> acyclic (replacement_edges payload)"
proof -
  let ?js = "judgmentsOf payload"
  define es where "es = map (\<lambda>(i, j). snd (lifecycle_entry payload i j)) (List.enumerate 0 ?js)"
  have unique: "distinct (text_names (map id_of ?js))"
    using ids by (simp add: identities_ok_def IDENTITY_COLLECTIONS_def judgmentsOf_def)
  have entry: "set l = {t. declares_replacement payload j t} \<and> [] \<notin> set l \<and> is_record (Some j)"
    if "snd (lifecycle_entry payload i j) = Some (k, l)" "j \<in> set ?js" for i j k l
  proof -
    from that(1) obtain ts where j: "is_record (Some j)" "has_own j ''lifecycle''"
      and ts: "get_opt (get_opt (Some j) ''lifecycle'') ''superseded_by'' = Some (JArr ts)"
      and l: "l = snd (replacement_targets payload j (judgment_at i ''/lifecycle'') (List.enumerate 0 ts) {})"
      by (auto simp: lifecycle_entry_def Let_def split_def list_of_def is_array_iff split: if_splits)
    have r: "replacements_ok payload j ts" using ok that(2) j ts by (auto simp: lifecycle_ok_def Let_def)
    have "set l = {s. \<exists>t \<in> set ts. replaces_here payload t \<and> get_opt (Some t) ''judgment_id'' = Some (JStr s)}"
      using replacement_targets_local [of payload j "List.enumerate 0 ts"] r by (simp add: l flip: set_map)
    moreover have "s \<noteq> []" if t: "t \<in> set ts" "get_opt (Some t) ''judgment_id'' = Some (JStr s)" for s t
    proof -
      have "replacement_identity t \<noteq> None" using r t(1) unfolding replacements_ok_def by (metis image_eqI)
      then show ?thesis using identity_target [of t] t(2) by auto
    qed
    ultimately show ?thesis using j by (auto simp: declares_replacement_def ts list_of_def)
  qed
  have mem: "Some (k, l) \<in> set es \<longleftrightarrow> (\<exists>i j. (i, j) \<in> set (List.enumerate 0 ?js) \<and> snd (lifecycle_entry payload i j) = Some (k, l))" for k l
    by (force simp: es_def)
  have enum: "j \<in> set ?js" if "(i, j) \<in> set (List.enumerate 0 ?js)" for i j using that by (auto simp: in_set_enumerate_eq)
  have key: "get_opt (Some j) ''id'' = Some (JStr s)" if "snd (lifecycle_entry payload i j) = Some (string_key s, l)" for i j s l
    using that by (auto simp: lifecycle_entry_def Let_def split_def edge_key_string split: if_splits)
  have graph: "replacement_graph payload = lifecycle_edges es []" by (simp add: replacement_graph_def es_def)
  have step: "(string_key s, y) \<in> edges_of (replacement_graph payload) \<longleftrightarrow> (\<exists>t. y = string_key t \<and> (s, t) \<in> replacement_edges payload)"
    if "s \<in> {s. s \<noteq> []}" for s y
  proof
    assume "(string_key s, y) \<in> edges_of (replacement_graph payload)"
    then obtain l t where l: "Some (string_key s, l) \<in> set es" "t \<in> set l" "y = string_key t"
      using succs_lifecycle_edges [of y es "string_key s"] by (auto simp: edges_of_def graph)
    then obtain i j where j: "(i, j) \<in> set (List.enumerate 0 ?js)" "snd (lifecycle_entry payload i j) = Some (string_key s, l)"
      unfolding mem by blast
    have "declares_replacement payload j t" using entry [OF j(2) enum [OF j(1)]] l(2) by blast
    then show "\<exists>t. y = string_key t \<and> (s, t) \<in> replacement_edges payload"
      using that key [OF j(2)] enum [OF j(1)] l(3) by (auto simp: replacement_edges_def)
  next
    assume "\<exists>t. y = string_key t \<and> (s, t) \<in> replacement_edges payload"
    then obtain t j where t: "y = string_key t" "j \<in> set ?js" "get_opt (Some j) ''id'' = Some (JStr s)" "declares_replacement payload j t"
      by (auto simp: replacement_edges_def)
    have "j \<in> snd ` set (List.enumerate 0 ?js)" using t(2) by (simp flip: set_map)
    then obtain i where i: "(i, j) \<in> set (List.enumerate 0 ?js)" by auto
    have "is_record (Some j)" "lifecycle_ok payload j" using t(2,4) ok by (auto simp: declares_replacement_def)
    moreover have "has_own j ''lifecycle''"
      using t(4) by (cases "get_opt (Some j) ''lifecycle''") (auto simp: declares_replacement_def has_own_def get_opt_nullish list_of_def)
    ultimately obtain l where l: "snd (lifecycle_entry payload i j) = Some (string_key s, l)"
      using t(3) by (auto simp: lifecycle_entry_def lifecycle_ok_def Let_def split_def edge_key_def is_array_iff)
    have "m = l" if "Some (string_key s, m) \<in> set es" for m
    proof -
      from that obtain i' j' where j': "(i', j') \<in> set (List.enumerate 0 ?js)" "snd (lifecycle_entry payload i' j') = Some (string_key s, m)"
        unfolding mem by blast
      have "id_of j = Some (JStr s)" "id_of j' = Some (JStr s)"
        using t(3,4) key [OF j'(2)] entry [OF j'(2) enum [OF j'(1)]] by (auto simp: id_of_def declares_replacement_def)
      then have "i' = i \<and> j' = j" using same_position [OF unique i j'(1)] \<open>s \<in> {s. s \<noteq> []}\<close> by simp
      then show ?thesis using l j'(2) by simp
    qed
    moreover have "Some (string_key s, l) \<in> set es" unfolding mem using i l by blast
    ultimately have "succs (replacement_graph payload) (string_key s) = map string_key l"
      unfolding graph by (intro succs_lifecycle_edges_unique)
    moreover have "t \<in> set l" using entry [OF l t(2)] t(4) by simp
    ultimately show "(string_key s, y) \<in> edges_of (replacement_graph payload)" by (simp add: edges_of_def t(1))
  qed
  have "\<exists>t \<in> {t. t \<noteq> []}. y = string_key t" if "(x, y) \<in> edges_of (replacement_graph payload)" for x y
  proof -
    note e = that
    obtain l t where l: "Some (x, l) \<in> set es" "t \<in> set l" "y = string_key t"
      using e succs_lifecycle_edges [of y es x] by (auto simp: edges_of_def graph)
    then obtain i j where j: "(i, j) \<in> set (List.enumerate 0 ?js)" "snd (lifecycle_entry payload i j) = Some (x, l)"
      unfolding mem by blast
    have "[] \<notin> set l" using entry [OF j(2) enum [OF j(1)]] by blast
    then show ?thesis using l by auto
  qed
  then show ?thesis
    by (intro acyclic_transfer [where f = string_key and A = "{s. s \<noteq> []}"] step)
      (auto simp: inj_def replacement_edges_def)
qed

section \<open>Admission\<close>

definition payload_ok :: "json option \<Rightarrow> json option \<Rightarrow> bool" where
  "payload_ok payload registry \<longleftrightarrow>
     forms_ok payload \<and> capability_ok payload \<and> identities_ok payload \<and> terms_ok payload \<and> parents_ok payload \<and>
     vocabulary_ok registry payload \<and> labels_ok payload \<and> lifecycles_ok payload"

theorem assertPayload_iff: "assertPayload payload registry = Inr b \<longleftrightarrow> b \<and> payload_ok payload registry"
  unfolding assertPayload_def RULES_def payload_ok_def list.map split_conv
    forms.first_rule capability.first_rule identities.first_rule terms.first_rule parents.first_rule
    vocabulary.first_rule labels.first_rule lifecycles.first_rule
  by auto

theorem checkPayload_iff: "list_all rr_ok (checkPayload payload registry) \<longleftrightarrow> payload_ok payload registry"
  unfolding checkPayload_def RULES_def payload_ok_def list.map split_conv Let_def list.pred_inject
    forms.reported capability.reported identities.reported terms.reported parents.reported
    vocabulary.reported labels.reported lifecycles.reported
  by simp

text \<open>The error thrown is the first violation of the first rule that the report marks.\<close>

lemma assert_rules_report:
  "assert_rules rs =
     (case List.find (\<lambda>(i, vs). vs \<noteq> []) rs of
        None \<Rightarrow> Inr True
      | Some (i, vs) \<Rightarrow> Inl (refusal i (vi_message (hd vs)) (vi_path (hd vs))))"
  by (induction rs rule: assert_rules.induct) auto

theorem assertPayload_report:
  "case List.find (\<lambda>r. \<not> rr_ok r) (checkPayload payload registry) of
     None \<Rightarrow> assertPayload payload registry = Inr True
   | Some r \<Rightarrow> \<exists>v vs. rr_violations r = v # vs \<and>
       assertPayload payload registry =
         Inl \<lparr>pr_message = rr_rule r @ u '': '' @ vi_message v, pr_rule = rr_rule r, pr_field = u ''/payload'' @ vi_path v\<rparr>"
proof -
  have "case List.find (\<lambda>r. \<not> rr_ok r) (map (\<lambda>(i, run). let vs = run registry payload in
          \<lparr>rr_rule = u i, rr_ok = (vs = []), rr_violations = vs\<rparr>) rules) of
      None \<Rightarrow> assert_rules (map (\<lambda>(i, run). (i, run registry payload)) rules) = Inr True
    | Some r \<Rightarrow> \<exists>v vs. rr_violations r = v # vs \<and>
        assert_rules (map (\<lambda>(i, run). (i, run registry payload)) rules) =
          Inl \<lparr>pr_message = rr_rule r @ u '': '' @ vi_message v, pr_rule = rr_rule r, pr_field = u ''/payload'' @ vi_path v\<rparr>"
    for rules
  proof (induction rules)
    case (Cons r rules)
    obtain i run where r: "r = (i, run)" by fastforce
    show ?case
    proof (cases "run registry payload")
      case Nil
      then show ?thesis using Cons.IH unfolding r by (simp cong: option.case_cong)
    qed (simp add: r refusal_def)
  qed simp
  then show ?thesis by (simp only: checkPayload_def assertPayload_def)
qed

end
