(* ===== verification/StrictParser.thy ===== *)
theory StrictParser
  imports StrictInput ContractJson
begin

text \<open>
  The JSON parser of the public contract (\<open>parseJson\<close> and \<open>freeze\<close> in
  \<open>packages/kdna-core/src/public-contract/strict-input.js\<close>).

  As in \<open>StrictJson\<close>, the position in the text is the suffix from there on.  Strings are cut out first and then
  handed to \<open>JSON.parse\<close>, so a faulty escape throws the \<open>SyntaxError\<close> of the language and not the refusal of the
  module; the text of that error is not represented.

  \<open>parseJson_iff\<close>: on well-formed text this parser and the one of the execution contract accept the same grammar
  with the same result, up to the limits of this module.
\<close>

section \<open>Strings\<close>

definition hex_escape :: "jstring \<Rightarrow> code_unit option" where
  "hex_escape cs =
     (if 4 \<le> length cs \<and> (\<forall>h \<in> set (take 4 cs). hex_val h \<noteq> None)
      then Some (unit_of (foldl (\<lambda>a h. 16 * a + the (hex_val h)) 0 (take 4 cs))) else None)"

text \<open>\<open>JSON.parse\<close> of a string literal, after its opening quote.\<close>

function unquote :: "jstring \<Rightarrow> jstring option" where
  "unquote cs =
     (case cs of
        [] \<Rightarrow> None
      | c # r \<Rightarrow>
          if c = 0x22 then (if r = [] then Some [] else None)
          else if c = 0x5C then
            (case r of
               [] \<Rightarrow> None
             | e # r1 \<Rightarrow>
                 (case simple_escape e of
                    Some x \<Rightarrow> map_option ((#) x) (unquote r1)
                  | None \<Rightarrow>
                      if e \<noteq> 0x75 then None
                      else (case hex_escape r1 of None \<Rightarrow> None | Some x \<Rightarrow> map_option ((#) x) (unquote (drop 4 r1)))))
          else if c \<le> 0x1F then None
          else map_option ((#) c) (unquote r))"
  by pat_completeness auto
termination by (relation "measure length") auto

declare unquote.simps [simp del]

text \<open>The loop that looks for the closing quote; it returns the literal and what follows.\<close>

fun cut_string :: "jstring \<Rightarrow> exn + jstring \<times> jstring" where
  "cut_string [] = reject"
| "cut_string (c # r) =
     (if c = 0x22 then Inr ([c], r)
      else if c = 0x5C then
        (case r of [] \<Rightarrow> reject | e # r1 \<Rightarrow> emap (\<lambda>(t, rest). (c # e # t, rest)) (cut_string r1))
      else if unat c < 32 then reject
      else emap (\<lambda>(t, rest). (c # t, rest)) (cut_string r))"

definition json_syntax_error :: exn where
  "json_syntax_error = PlainError (u ''SyntaxError'')"

definition strict_string :: "jstring \<Rightarrow> exn + jstring \<times> jstring" where
  "strict_string cs =
     ebind (cut_string cs) (\<lambda>(literal, rest).
       case unquote literal of
         None \<Rightarrow> Inl json_syntax_error
       | Some s \<Rightarrow> if scalar_text s then Inr (s, rest) else reject)"

section \<open>Values\<close>

definition strict_scalar :: "jstring \<Rightarrow> exn + json \<times> jstring" where
  "strict_scalar cs =
     (if prefix (u ''true'') cs then Inr (JBool True, drop 4 cs)
      else if prefix (u ''false'') cs then Inr (JBool False, drop 5 cs)
      else if prefix (u ''null'') cs then Inr (JNull, drop 4 cs)
      else case match_number cs of
        None \<Rightarrow> reject
      | Some (neg, t, r) \<Rightarrow>
          let number = token_number neg t
          in if is_finite number then Inr (JNum number, r) else reject)"

text \<open>A member name with its colon; what follows a value (\<open>True\<close>: the closing bracket; \<open>False\<close>: a comma).\<close>

definition strict_key :: "(jstring \<times> json) list \<Rightarrow> jstring \<Rightarrow> exn + jstring \<times> jstring" where
  "strict_key output cs =
     (case skipWhitespace cs of
        [] \<Rightarrow> reject
      | c # r \<Rightarrow>
          if c \<noteq> 0x22 then reject
          else ebind (strict_string r) (\<lambda>(key, r1).
            if key \<in> fst ` set output then reject
            else case skipWhitespace r1 of
              [] \<Rightarrow> reject
            | d # r2 \<Rightarrow> if d = 0x3A then Inr (key, r2) else reject))"

definition strict_next :: "code_unit \<Rightarrow> jstring \<Rightarrow> exn + bool \<times> jstring" where
  "strict_next close cs =
     (case skipWhitespace cs of
        [] \<Rightarrow> reject
      | c # r \<Rightarrow> if c = close then Inr (True, r) else if c = 0x2C then Inr (False, r) else reject)"

lemma cut_string_length: "cut_string cs = Inr (t, r) \<Longrightarrow> length r < length cs"
  by (induction cs arbitrary: t r rule: cut_string.induct)
    (fastforce simp: emap_Inr_conv split: if_splits list.splits)+

lemma strict_string_length: "strict_string cs = Inr (s, r) \<Longrightarrow> length r < length cs"
  by (auto simp: strict_string_def ebind_Inr_conv split: option.splits if_splits dest: cut_string_length)

lemma strict_scalar_length: "strict_scalar cs = Inr (v, r) \<Longrightarrow> length r < length cs"
  by (auto simp: strict_scalar_def Let_def u_def prefix_def split: if_splits option.splits dest: match_number_length)

lemma strict_key_Inr:
  "strict_key ps cs = Inr (k, r) \<longleftrightarrow>
     (\<exists>r0 r1. skipWhitespace cs = 0x22 # r0 \<and> strict_string r0 = Inr (k, r1) \<and> k \<notin> fst ` set ps \<and>
        skipWhitespace r1 = 0x3A # r)"
proof (cases "skipWhitespace cs")
  case (Cons c r0)
  show ?thesis
  proof (cases "strict_string r0")
    case (Inr x)
    then obtain s r1 where x: "strict_string r0 = Inr (s, r1)" by (cases x) simp
    show ?thesis by (cases "skipWhitespace r1") (auto simp: strict_key_def Cons x)
  qed (simp add: strict_key_def Cons)
qed (simp add: strict_key_def)

lemma strict_key_length: "strict_key ps cs = Inr (k, r) \<Longrightarrow> length r < length cs"
  by (auto simp: strict_key_Inr dest!: skipWhitespace_ConsD strict_string_length)

lemma strict_next_length: "strict_next c cs = Inr (b, r) \<Longrightarrow> length r < length cs"
  by (auto simp: strict_next_def split: list.splits if_splits dest: skipWhitespace_ConsD)

function strict_value :: "nat \<Rightarrow> jstring \<Rightarrow> exn + json \<times> jstring"
and strict_object :: "nat \<Rightarrow> (jstring \<times> json) list \<Rightarrow> jstring \<Rightarrow> exn + json \<times> jstring"
and strict_array :: "nat \<Rightarrow> json list \<Rightarrow> jstring \<Rightarrow> exn + json \<times> jstring" where
  "strict_value depth cs =
     (if depth > MAX_DEPTH then reject
      else case skipWhitespace cs of
        [] \<Rightarrow> reject
      | c # r \<Rightarrow>
          if c = 0x22 then emap (\<lambda>(s, r1). (JStr s, r1)) (strict_string r)
          else if c = 0x7B then
            (if take 1 (skipWhitespace r) = [0x7D] then Inr (JObj [], drop 1 (skipWhitespace r))
             else strict_object depth [] (skipWhitespace r))
          else if c = 0x5B then
            (if take 1 (skipWhitespace r) = [0x5D] then Inr (JArr [], drop 1 (skipWhitespace r))
             else strict_array depth [] (skipWhitespace r))
          else strict_scalar (c # r))"
| "strict_object depth output cs =
     ebind (strict_key output cs) (\<lambda>(key, r).
     ebind (strict_value (Suc depth) r) (\<lambda>(v, r1).
     ebind (strict_next 0x7D r1) (\<lambda>(closed, r2).
       if closed then Inr (JObj (output @ [(key, v)]), r2)
       else strict_object depth (output @ [(key, v)]) r2)))"
| "strict_array depth output cs =
     (if length output \<ge> MAX_ITEMS then reject
      else ebind (strict_value (Suc depth) cs) (\<lambda>(v, r1).
           ebind (strict_next 0x5D r1) (\<lambda>(closed, r2).
             if closed then Inr (JArr (output @ [v]), r2)
             else strict_array depth (output @ [v]) r2)))"
  by pat_completeness auto

lemma strict_lengths:
  "strict_value_strict_object_strict_array_dom (Inl (d, cs)) \<Longrightarrow> strict_value d cs = Inr (v, r) \<Longrightarrow> length r < length cs"
  "strict_value_strict_object_strict_array_dom (Inr (Inl (d, ps, cs))) \<Longrightarrow> strict_object d ps cs = Inr (v, r) \<Longrightarrow> length r < length cs"
  "strict_value_strict_object_strict_array_dom (Inr (Inr (d, xs, cs))) \<Longrightarrow> strict_array d xs cs = Inr (v, r) \<Longrightarrow> length r < length cs"
proof (induction d cs and d ps cs and d xs cs arbitrary: v r and v r and v r
    rule: strict_value_strict_object_strict_array.pinduct)
  case (1 d cs)
  from "1.prems" obtain c r0 where d: "\<not> d > MAX_DEPTH" and sk: "skipWhitespace cs = c # r0"
    by (auto simp: strict_value.psimps [OF "1.hyps"] split: if_splits list.splits)
  have l: "length r0 < length cs" "length (skipWhitespace r0) \<le> length r0"
    using skipWhitespace_ConsD [OF sk] length_skipWhitespace [of r0] by auto
  consider (str) "c = 0x22" | (obj) "c = 0x7B" | (arr) "c = 0x5B" | (other) "c \<notin> {0x22, 0x7B, 0x5B}" by blast
  then show ?case
  proof cases
    case str
    then show ?thesis using "1.prems" d l
      by (auto simp: strict_value.psimps [OF "1.hyps"] sk emap_Inr_conv dest: strict_string_length)
  next
    case obj
    then show ?thesis using "1.prems" d l "1.IH"(1) [OF d sk]
      by (cases "take 1 (skipWhitespace r0) = [0x7D]") (auto simp: strict_value.psimps [OF "1.hyps"] sk)
  next
    case arr
    then show ?thesis using "1.prems" d l "1.IH"(2) [OF d sk]
      by (cases "take 1 (skipWhitespace r0) = [0x5D]") (auto simp: strict_value.psimps [OF "1.hyps"] sk)
  next
    case other
    then have "strict_scalar (c # r0) = Inr (v, r)" using "1.prems" d by (simp add: strict_value.psimps [OF "1.hyps"] sk)
    then show ?thesis using l strict_scalar_length [of "c # r0" v r] by simp
  qed
next
  case (2 d ps cs)
  from "2.prems" obtain key r0 v1 r1 cl r2 where k: "strict_key ps cs = Inr (key, r0)"
    and val: "strict_value (Suc d) r0 = Inr (v1, r1)" and nx: "strict_next 0x7D r1 = Inr (cl, r2)"
    and fin: "if cl then r = r2 else strict_object d (ps @ [(key, v1)]) r2 = Inr (v, r)"
    by (auto simp: strict_object.psimps [OF "2.hyps"] result_simps split: if_splits)
  have "length r1 < length r0" using "2.IH"(1) [OF k refl val] .
  moreover have "length r \<le> length r2"
    using fin "2.IH"(2) [OF k refl val refl nx refl] by (cases cl) (auto intro: less_imp_le)
  ultimately show ?case using strict_key_length [OF k] strict_next_length [OF nx] by linarith
next
  case (3 d xs cs)
  from "3.prems" obtain v1 r1 cl r2 where n: "\<not> MAX_ITEMS \<le> length xs" and val: "strict_value (Suc d) cs = Inr (v1, r1)"
    and nx: "strict_next 0x5D r1 = Inr (cl, r2)"
    and fin: "if cl then r = r2 else strict_array d (xs @ [v1]) r2 = Inr (v, r)"
    by (auto simp: strict_array.psimps [OF "3.hyps"] result_simps split: if_splits)
  have "length r1 < length cs" using "3.IH"(1) [OF n val] .
  moreover have "length r \<le> length r2"
    using fin "3.IH"(2) [OF n val refl nx refl] by (cases cl) (auto intro: less_imp_le)
  ultimately show ?case using strict_next_length [OF nx] by linarith
qed

termination strict_value
proof (relation "measure (\<lambda>x. case x of
      Inl (d, cs) \<Rightarrow> 2 * length cs
    | Inr (Inl (d, ps, cs)) \<Rightarrow> 2 * length cs + 1
    | Inr (Inr (d, xs, cs)) \<Rightarrow> 2 * length cs + 1)", goal_cases)
  case 1
  show ?case by simp
next
  case (2 d cs c r)
  then show ?case using skipWhitespace_ConsD [of cs c r] length_skipWhitespace [of r] by simp
next
  case (3 d cs c r)
  then show ?case using skipWhitespace_ConsD [of cs c r] length_skipWhitespace [of r] by simp
next
  case (4 d ps cs x k r)
  then show ?case by (auto dest!: strict_key_length)
next
  case (5 d ps cs x k r y v r1 z b r2)
  then show ?case by (auto dest!: strict_key_length strict_next_length strict_lengths(1))
next
  case (6 d xs cs)
  then show ?case by simp
next
  case (7 d xs cs y v r1 z b r2)
  then show ?case by (auto dest!: strict_next_length strict_lengths(1))
qed

declare strict_value.simps [simp del] strict_object.simps [simp del] strict_array.simps [simp del]

text \<open>\<open>TextDecoder\<close> drops one byte order mark and throws a \<open>TypeError\<close> on bytes that are not UTF-8.\<close>

definition decode_strict :: "parse_input \<Rightarrow> exn + jstring" where
  "decode_strict input =
     (case input of
        InString text \<Rightarrow> Inr text
      | InBytes bs \<Rightarrow>
          (case utf8_decode (if take 3 bs = [0xEF, 0xBB, 0xBF] then drop 3 bs else bs) of
             Some text \<Rightarrow> Inr text
           | None \<Rightarrow> Inl (TypeErr (u ''The encoded data was not valid for encoding utf-8'')))
      | InOther \<Rightarrow> Inl (TypeErr (u ''The input argument must be an instance of ArrayBuffer or ArrayBufferView'')))"

definition parseJson :: "parse_input \<Rightarrow> exn + json" where
  "parseJson input =
     ebind (decode_strict input) (\<lambda>text.
       if byte_length text > MAX_PAYLOAD_BYTES then reject
       else ebind (strict_value 0 text) (\<lambda>(v, r). if skipWhitespace r \<noteq> [] then reject else Inr v))"

section \<open>Literals\<close>

text \<open>Cutting and reading a literal in one pass.\<close>

function literal :: "jstring \<Rightarrow> (jstring \<times> jstring) option" where
  "literal cs =
     (case cs of
        [] \<Rightarrow> None
      | c # r \<Rightarrow>
          if c = 0x22 then Some ([], r)
          else if c = 0x5C then
            (case r of
               [] \<Rightarrow> None
             | e # r1 \<Rightarrow>
                 (case simple_escape e of
                    Some x \<Rightarrow> map_option (apfst ((#) x)) (literal r1)
                  | None \<Rightarrow>
                      if e \<noteq> 0x75 then None
                      else (case hex_escape r1 of
                              None \<Rightarrow> None | Some x \<Rightarrow> map_option (apfst ((#) x)) (literal (drop 4 r1)))))
          else if c \<le> 0x1F then None
          else map_option (apfst ((#) c)) (literal r))"
  by pat_completeness auto
termination by (relation "measure length") auto

declare literal.simps [simp del]

lemma control_unat: "c \<le> 0x1F \<longleftrightarrow> unat c < 32" for c :: code_unit
  by (auto simp: word_le_nat_alt)

lemma cut_string_append: "cut_string cs = Inr (t, r) \<Longrightarrow> cs = t @ r \<and> t \<noteq> [] \<and> last t = 0x22"
proof (induction cs arbitrary: t r rule: cut_string.induct)
  case (2 c cs)
  consider (quote) "c = 0x22" | (esc) "c = 0x5C" | (plain) "c \<noteq> 0x22" "c \<noteq> 0x5C" by blast
  then show ?case
  proof cases
    case esc
    with "2.prems" obtain e r1 t1 where "cs = e # r1" "cut_string r1 = Inr (t1, r)" "t = c # e # t1"
      by (auto simp: emap_Inr_conv split: list.splits)
    with "2.IH"(1) [OF _ esc, of e r1 t1 r] esc show ?thesis by simp
  next
    case plain
    with "2.prems" obtain t1 where "\<not> unat c < 32" "cut_string cs = Inr (t1, r)" "t = c # t1"
      by (auto simp: emap_Inr_conv split: if_splits)
    with "2.IH"(2) [OF plain, of t1 r] show ?thesis by simp
  qed (use "2.prems" in auto)
qed simp

lemma hex_val_plain: "hex_val c \<noteq> None \<Longrightarrow> c \<noteq> 0x22 \<and> c \<noteq> 0x5C \<and> \<not> unat c < 32 \<and> \<not> is_high c \<and> \<not> is_low c"
  by (auto simp: hex_val_def Let_def is_high_def is_low_def word_le_nat_alt split: if_splits)

lemma cut_string_plain:
  "\<forall>x \<in> set xs. x \<noteq> 0x22 \<and> x \<noteq> 0x5C \<and> \<not> unat x < 32 \<Longrightarrow>
   cut_string (xs @ ys) = emap (\<lambda>(t, r). (xs @ t, r)) (cut_string ys)"
proof (induction xs)
  case Nil
  then show ?case by (cases "cut_string ys") auto
next
  case (Cons x xs)
  then have "cut_string (xs @ ys) = emap (\<lambda>(t, r). (xs @ t, r)) (cut_string ys)" by simp
  then show ?case using Cons.prems by (cases "cut_string ys") auto
qed

lemma hex_escape_append: "4 \<le> length t \<Longrightarrow> hex_escape (t @ r) = hex_escape t"
  by (simp add: hex_escape_def)

lemma hex_escape_SomeD:
  assumes "hex_escape cs = Some x"
  obtains xs ys where "cs = xs @ ys" "length xs = 4" "\<forall>h \<in> set xs. hex_val h \<noteq> None" "drop 4 cs = ys"
proof
  show "cs = take 4 cs @ drop 4 cs" by simp
qed (use assms in \<open>auto simp: hex_escape_def split: if_splits\<close>)

lemma cut_unquote_step:
  assumes ih: "\<And>s. (\<exists>t. m = Inr (t, r) \<and> unquote t = Some s) \<longleftrightarrow> L = Some (s, r)"
    and un: "\<And>t. m = Inr (t, r) \<Longrightarrow> unquote (f t) = map_option ((#) x) (unquote t)"
  shows "(\<exists>t. emap (\<lambda>(t, rest). (f t, rest)) m = Inr (t, r) \<and> unquote t = Some s) \<longleftrightarrow>
    map_option (apfst ((#) x)) L = Some (s, r)"
proof -
  have "(\<exists>t. emap (\<lambda>(t, rest). (f t, rest)) m = Inr (t, r) \<and> unquote t = Some s) \<longleftrightarrow>
      (\<exists>t. m = Inr (t, r) \<and> unquote (f t) = Some s)" by (cases m) auto
  also have "\<dots> \<longleftrightarrow> (\<exists>s'. s = x # s' \<and> (\<exists>t. m = Inr (t, r) \<and> unquote t = Some s'))"
    using un by (fastforce simp: map_option_case split: option.splits)
  also have "\<dots> \<longleftrightarrow> (\<exists>s'. s = x # s' \<and> L = Some (s', r))" by (simp add: ih)
  also have "\<dots> \<longleftrightarrow> map_option (apfst ((#) x)) L = Some (s, r)" by auto
  finally show ?thesis .
qed

lemma escape_steps:
  "simple_escape e = Some x \<Longrightarrow> unquote (0x5C # e # t) = map_option ((#) x) (unquote t)"
  "simple_escape e = Some x \<Longrightarrow> literal (0x5C # e # t) = map_option (apfst ((#) x)) (literal t)"
  "simple_escape e = None \<Longrightarrow> unquote (0x5C # e # t) =
     (if e \<noteq> 0x75 then None else case hex_escape t of None \<Rightarrow> None | Some x \<Rightarrow> map_option ((#) x) (unquote (drop 4 t)))"
  "simple_escape e = None \<Longrightarrow> literal (0x5C # e # t) =
     (if e \<noteq> 0x75 then None else case hex_escape t of None \<Rightarrow> None | Some x \<Rightarrow> map_option (apfst ((#) x)) (literal (drop 4 t)))"
  by (simp_all add: unquote.simps [of "0x5C # e # t"] literal.simps [of "0x5C # e # t"])

lemma plain_steps:
  assumes "c \<noteq> 0x22" "c \<noteq> 0x5C"
  shows "unquote (c # t) = (if c \<le> 0x1F then None else map_option ((#) c) (unquote t))"
    "literal (c # t) = (if c \<le> 0x1F then None else map_option (apfst ((#) c)) (literal t))"
  using assms by (simp_all add: unquote.simps [of "c # t"] literal.simps [of "c # t"])

lemma quote_steps: "unquote (0x22 # t) = (if t = [] then Some [] else None)" "literal (0x22 # t) = Some ([], t)"
  by (simp_all add: unquote.simps [of "0x22 # t"] literal.simps [of "0x22 # t"])

lemma literal_Nil [simp]: "literal [] = None" "literal [0x5C] = None"
  by (simp_all add: literal.simps [of "[]"] literal.simps [of "[0x5C]"])

theorem cut_unquote: "(\<exists>t. cut_string cs = Inr (t, r) \<and> unquote t = Some s) \<longleftrightarrow> literal cs = Some (s, r)"
proof (induction cs arbitrary: s rule: length_induct)
  case (1 cs)
  then have ih: "(\<exists>t. cut_string ys = Inr (t, r) \<and> unquote t = Some s) \<longleftrightarrow> literal ys = Some (s, r)"
    if "length ys < length cs" for ys s using that by blast
  show ?case
  proof (cases cs)
    case (Cons c r0)
    consider (quote) "c = 0x22" | (esc) "c = 0x5C" | (plain) "c \<noteq> 0x22" "c \<noteq> 0x5C" by blast
    then show ?thesis
    proof cases
      case quote
      then show ?thesis by (auto simp: Cons quote_steps)
    next
      case esc
      show ?thesis
      proof (cases r0)
        case r0: (Cons e r1)
        have cut: "cut_string cs = emap (\<lambda>(t, rest). (0x5C # e # t, rest)) (cut_string r1)" by (simp add: Cons esc r0)
        show ?thesis
        proof (cases "simple_escape e")
          case (Some x)
          have "literal cs = map_option (apfst ((#) x)) (literal r1)" by (simp add: escape_steps(2) [OF Some] Cons esc r0)
          then show ?thesis unfolding cut using cut_unquote_step [OF ih escape_steps(1) [OF Some], of r1] by (simp add: Cons r0)
        next
          case None
          note steps = escape_steps(3,4) [OF None]
          show ?thesis
          proof (cases "e = 0x75 \<and> hex_escape r1 \<noteq> None")
            case False
            have "hex_escape t = None" if "cut_string r1 = Inr (t, r)" "hex_escape r1 = None" for t
              using cut_string_append [OF that(1)] that(2) hex_escape_append [of t r]
              by (cases "4 \<le> length t") (auto simp: hex_escape_def)
            then have "unquote (0x5C # e # t) = None" if "cut_string r1 = Inr (t, r)" for t
              using that False by (auto simp: steps)
            moreover have "literal cs = None" using False by (auto simp: steps Cons esc r0)
            ultimately show ?thesis by (auto simp: cut emap_Inr_conv)
          next
            case True
            then obtain x where x: "hex_escape r1 = Some x" and e: "e = 0x75" by auto
            obtain xs ys where xs: "r1 = xs @ ys" "length xs = 4" "\<forall>h \<in> set xs. hex_val h \<noteq> None" "drop 4 r1 = ys"
              using x by (rule hex_escape_SomeD)
            have "\<forall>x \<in> set xs. x \<noteq> 0x22 \<and> x \<noteq> 0x5C \<and> \<not> unat x < 32" using xs(3) hex_val_plain by blast
            then have "cut_string r1 = emap (\<lambda>(t, r). (xs @ t, r)) (cut_string ys)"
              unfolding xs(1) by (rule cut_string_plain)
            then have cut': "cut_string cs = emap (\<lambda>(t, rest). (0x5C # e # xs @ t, rest)) (cut_string ys)"
              unfolding cut by (cases "cut_string ys") auto
            have "hex_escape (xs @ t) = Some x" for t using x xs by (simp add: hex_escape_def split: if_splits)
            then have un: "unquote (0x5C # e # xs @ t) = map_option ((#) x) (unquote t)" for t
              by (subst steps) (simp add: e xs(2))
            have "literal cs = map_option (apfst ((#) x)) (literal ys)" unfolding Cons esc r0 steps by (simp add: e x xs(4))
            then show ?thesis unfolding cut' using cut_unquote_step [OF ih un, of ys] xs(1) by (simp add: Cons r0)
          qed
        qed
      qed (simp add: Cons esc)
    next
      case plain
      show ?thesis
      proof (cases "c \<le> 0x1F")
        case True
        then show ?thesis using plain by (simp add: Cons plain_steps control_unat [symmetric])
      next
        case False
        then have "cut_string cs = emap (\<lambda>(t, rest). (c # t, rest)) (cut_string r0)" using plain by (simp add: Cons control_unat)
        moreover have "literal cs = map_option (apfst ((#) c)) (literal r0)" using plain False by (simp add: Cons plain_steps)
        ultimately show ?thesis using cut_unquote_step [OF ih, of r0 "(#) c" c] plain False
          by (simp add: Cons plain_steps)
      qed
    qed
  qed simp
qed

section \<open>Agreement on strings\<close>

text \<open>What a token leaves: everything, or the text after a unit that opens no surrogate pair.\<close>

definition leaves :: "jstring \<Rightarrow> jstring \<Rightarrow> bool" where
  "leaves cs r \<longleftrightarrow> cs = r \<or> (\<exists>xs c. cs = xs @ c # r \<and> \<not> is_high c)"

lemma leaves_refl [simp]: "leaves cs cs"
  by (simp add: leaves_def)

lemma leaves_trans: "leaves a b \<Longrightarrow> leaves b c \<Longrightarrow> leaves a c"
  unfolding leaves_def by (metis append.assoc append_Cons)

lemma wf_after: "wf_utf16 (xs @ c # r) \<Longrightarrow> \<not> is_high c \<Longrightarrow> wf_utf16 r"
proof (induction xs rule: wf_utf16.induct)
  case (2 x xs)
  show ?case
  proof (cases "is_high x")
    case True
    then show ?thesis using 2 by (cases xs) auto
  next
    case False
    then show ?thesis using 2 by simp
  qed
qed simp

lemma leaves_wf: "leaves cs r \<Longrightarrow> wf_utf16 cs \<Longrightarrow> wf_utf16 r"
  by (auto simp: leaves_def dest: wf_after)

lemma leaves_plain: "\<forall>x \<in> set xs. \<not> is_high x \<Longrightarrow> leaves (xs @ r) r"
  by (cases xs rule: rev_cases) (auto simp: leaves_def)

lemma leaves_drop: "\<forall>x \<in> set (take n cs). \<not> is_high x \<Longrightarrow> leaves cs (drop n cs)"
  using leaves_plain [of "take n cs" "drop n cs"] by simp

lemma leaves_Cons: "\<not> is_high c \<Longrightarrow> leaves (c # r) r"
  using leaves_plain [of "[c]" r] by simp

lemma hex_escape_leaves: "hex_escape cs = Some x \<Longrightarrow> leaves cs (drop 4 cs)"
proof -
  assume "hex_escape cs = Some x"
  then have "\<forall>h \<in> set (take 4 cs). hex_val h \<noteq> None" by (auto simp: hex_escape_def split: if_splits)
  then show ?thesis using hex_val_plain by (intro leaves_drop) blast
qed

lemma parseHexCodeUnit_escape:
  "parseHexCodeUnit N cs =
     (case hex_escape cs of None \<Rightarrow> Inl (syntax_err N cs ''Invalid Unicode escape in JSON string.'') | Some x \<Rightarrow> Inr (x, drop 4 cs))"
  by (simp add: parseHexCodeUnit_def hex_escape_def Let_def)

lemma simple_escape_plain: "simple_escape e = Some x \<Longrightarrow> \<not> is_high e \<and> \<not> is_low e \<and> \<not> is_high x \<and> \<not> is_low x"
  by (auto simp: simple_escape_def is_high_def is_low_def split: if_splits)

lemma surrogate_range: "is_high c \<or> is_low c \<Longrightarrow> c \<noteq> 0x22 \<and> c \<noteq> 0x5C \<and> \<not> c \<le> 0x1F"
  by (auto simp: is_high_def is_low_def word_le_nat_alt)

text \<open>On well-formed text a literal that begins with a low surrogate begins with an escape.\<close>

lemma literal_low:
  assumes "wf_utf16 cs" "is_low d"
  shows "literal cs = Some (d # s, r) \<longleftrightarrow>
    take 2 cs = [0x5C, 0x75] \<and> hex_escape (drop 2 cs) = Some d \<and> literal (drop 4 (drop 2 cs)) = Some (s, r)"
proof (cases cs)
  case (Cons c r0)
  have c: "\<not> is_low c" using assms(1) by (auto simp: Cons split: if_splits dest: not_high_and_low)
  have "d \<noteq> c" using c assms(2) by blast
  show ?thesis
  proof (cases "c = 0x5C")
    case True
    show ?thesis
    proof (cases r0)
      case r0: (Cons e r1)
      show ?thesis
      proof (cases "simple_escape e")
        case (Some x)
        have "e \<noteq> 0x75" using Some by (auto simp: simple_escape_def)
        then show ?thesis using assms(2) simple_escape_plain [OF Some]
          by (auto simp: Cons True r0 escape_steps(2) [OF Some])
      next
        case None
        then show ?thesis by (auto simp: Cons True r0 escape_steps(4) split: option.splits)
      qed
    qed (simp add: Cons True)
  next
    case False
    then show ?thesis using \<open>d \<noteq> c\<close> by (cases "c = 0x22") (auto simp: Cons quote_steps plain_steps)
  qed
qed simp

theorem literal_parse_chars:
  "wf_utf16 cs \<Longrightarrow> parse_chars N out cs = Inr (w, r) \<longleftrightarrow> (\<exists>s. w = out @ s \<and> literal cs = Some (s, r) \<and> wf_utf16 s)"
proof (induction cs arbitrary: out rule: length_induct)
  case (1 cs)
  then have ih: "parse_chars N out ys = Inr (w, r) \<longleftrightarrow> (\<exists>s. w = out @ s \<and> literal ys = Some (s, r) \<and> wf_utf16 s)"
    if "length ys < length cs" "leaves cs ys" for ys out using that leaves_wf [OF that(2)] by blast
  show ?case
  proof (cases cs)
    case (Cons c r0)
    consider (quote) "c = 0x22" | (esc) "c = 0x5C" | (control) "c \<noteq> 0x22" "c \<noteq> 0x5C" "c \<le> 0x1F"
      | (high) "is_high c" | (plain) "c \<noteq> 0x22" "c \<noteq> 0x5C" "\<not> c \<le> 0x1F" "\<not> is_high c" "\<not> is_low c"
      using "1.prems" by (cases "is_low c") (auto simp: Cons split: if_splits)
    then show ?thesis
    proof cases
      case quote
      then show ?thesis by (auto simp: Cons parse_chars.simps [of N out "0x22 # r0"] quote_steps)
    next
      case control
      then show ?thesis by (simp add: Cons parse_chars.simps [of N out "c # r0"] plain_steps)
    next
      case plain
      have "leaves cs r0" unfolding Cons by (rule leaves_Cons [OF plain(4)])
      then show ?thesis using plain ih [of r0 "out @ [c]"]
        by (auto simp: Cons parse_chars.simps [of N out "c # r0"] plain_steps)
    next
      case high
      then obtain d r1 where r0: "r0 = d # r1" "is_low d" using "1.prems" by (cases r0) (auto simp: Cons)
      have "leaves cs r1" unfolding Cons r0(1) leaves_def using not_high_and_low r0(2)
        by (metis append_Cons append_Nil)
      then show ?thesis using ih [of r1 "out @ [c, d]"] high r0(2) surrogate_range [of c] surrogate_range [of d] not_high_and_low
        by (auto simp: Cons r0 parse_chars.simps [of N out "c # d # r1"] plain_steps)
    next
      case esc
      show ?thesis
      proof (cases r0)
        case r0: (Cons e r1)
        have pc: "parse_chars N out cs = ebind (parseEscape N r0) (\<lambda>(o1, r1). parse_chars N (out @ o1) r1)"
          by (simp add: Cons esc parse_chars.simps [of N out "0x5C # r0"])
        show ?thesis
        proof (cases "simple_escape e")
          case (Some x)
          note plain = simple_escape_plain [OF Some]
          have "leaves cs r1" unfolding Cons esc r0
            using leaves_plain [of "[0x5C, e]" r1] plain by (simp add: is_high_def)
          then show ?thesis using ih [of r1 "out @ [x]"] plain
            by (auto simp: pc r0 parseEscape_def Some) (auto simp: Cons esc r0 escape_steps(2) [OF Some])
        next
          case None
          show ?thesis
          proof (cases "e = 0x75 \<and> hex_escape r1 \<noteq> None")
            case False
            then have "literal cs = None" unfolding Cons esc r0 escape_steps(4) [OF None] by auto
            then show ?thesis using False by (auto simp: pc r0 parseEscape_def None parseHexCodeUnit_escape)
          next
            case True
            then obtain x where x: "hex_escape r1 = Some x" and e: "e = 0x75" by auto
            define r2 where "r2 = drop 4 r1"
            have lit: "literal cs = map_option (apfst ((#) x)) (literal r2)"
              unfolding Cons esc r0 escape_steps(4) [OF None] by (simp add: e x r2_def)
            have "leaves cs r1" unfolding Cons esc r0 e using leaves_plain [of "[0x5C, 0x75]" r1] by (simp add: is_high_def)
            then have l2: "leaves cs r2" unfolding r2_def by (rule leaves_trans [OF _ hex_escape_leaves [OF x]])
            have len: "length r2 < length cs" by (simp add: r2_def Cons r0)
            have hx: "parseHexCodeUnit N r1 = Inr (x, r2)" by (simp add: parseHexCodeUnit_escape x r2_def)
            have esc_eq: "parseEscape N r0 =
                (if is_high x then
                   (if take 2 r2 \<noteq> [0x5C, 0x75] then Inl (invalidUnicode N r2)
                    else ebind (parseHexCodeUnit N (drop 2 r2)) (\<lambda>(second, r2).
                      if \<not> is_low second then Inl (invalidUnicode N r2) else Inr (units_of_cp (pair_value x second), r2)))
                 else if is_low x then Inl (invalidUnicode N r2) else Inr ([x], r2))"
              using None by (simp add: parseEscape_def r0 e hx)
            show ?thesis
            proof (cases "is_high x")
              case False
              then show ?thesis using ih [OF len l2, of "out @ [x]"] by (auto simp: pc esc_eq lit)
            next
              case high: True
              have low: "literal r2 = Some (d # s, r) \<longleftrightarrow>
                  take 2 r2 = [0x5C, 0x75] \<and> hex_escape (drop 2 r2) = Some d \<and> literal (drop 4 (drop 2 r2)) = Some (s, r)"
                if "is_low d" for d s using literal_low [OF leaves_wf [OF l2 "1.prems"] that] .
              have out_iff: "(\<exists>s. w = out @ s \<and> literal cs = Some (s, r) \<and> wf_utf16 s) \<longleftrightarrow>
                  (\<exists>d s. w = out @ [x, d] @ s \<and> is_low d \<and> literal r2 = Some (d # s, r) \<and> wf_utf16 s)"
                using high by (auto simp: lit split: list.splits)
              show ?thesis
              proof (cases "take 2 r2 = [0x5C, 0x75] \<and> (\<exists>d. hex_escape (drop 2 r2) = Some d \<and> is_low d)")
                case False
                then show ?thesis unfolding out_iff
                  by (auto simp: pc esc_eq high low parseHexCodeUnit_escape split: option.splits)
              next
                case True
                then obtain d where d: "take 2 r2 = [0x5C, 0x75]" "hex_escape (drop 2 r2) = Some d" "is_low d" by blast
                define r3 where "r3 = drop 4 (drop 2 r2)"
                have "leaves r2 (drop 2 r2)" by (rule leaves_drop) (simp add: d(1) is_high_def)
                then have "leaves cs r3" unfolding r3_def
                  using leaves_trans [OF l2] leaves_trans hex_escape_leaves [OF d(2)] by blast
                moreover have "length r3 < length cs" using len by (simp add: r3_def)
                ultimately show ?thesis unfolding out_iff
                  using ih [of r3 "out @ [x, d]"] d high
                  by (auto simp: pc esc_eq low parseHexCodeUnit_escape units_of_pair r3_def)
              qed
            qed
          qed
        qed
      qed (simp add: Cons esc parse_chars.simps [of N out "[0x5C]"] parseEscape_def)
    qed
  qed (simp add: parse_chars.simps [of N out "[]"])
qed

lemma literal_leaves: "literal cs = Some (s, r) \<Longrightarrow> leaves cs r"
proof -
  assume "literal cs = Some (s, r)"
  then obtain t where "cut_string cs = Inr (t, r)" using cut_unquote [of cs r s] by blast
  from cut_string_append [OF this] have "cs = butlast t @ 0x22 # r" by (metis append.assoc append_Cons append_Nil append_butlast_last_id)
  then show ?thesis by (auto simp: leaves_def is_high_def)
qed

lemma scalar_units_wf: "scalar_units True s \<longleftrightarrow> wf_utf16 s"
  by (induction "True" s rule: scalar_units.induct) (auto split: list.splits)

lemma strict_string_Inr: "strict_string cs = Inr (s, r) \<longleftrightarrow> literal cs = Some (s, r) \<and> scalar_text s"
proof -
  have "strict_string cs = Inr (s, r) \<longleftrightarrow> (\<exists>t. cut_string cs = Inr (t, r) \<and> unquote t = Some s) \<and> scalar_text s"
  proof (cases "cut_string cs")
    case (Inr x)
    then show ?thesis by (cases x; cases "unquote (fst x)") (auto simp: strict_string_def)
  qed (simp add: strict_string_def)
  then show ?thesis by (simp add: cut_unquote)
qed

lemma strict_string_iff: "wf_utf16 cs \<Longrightarrow> strict_string cs = Inr (s, r) \<longleftrightarrow> parseString N cs = Inr (s, r) \<and> scalar_text s"
  unfolding strict_string_Inr parseString_def
  by (auto simp: literal_parse_chars scalar_text_def scalarString_def scalar_units_wf)

section \<open>Agreement on values\<close>

lemma leaves_skip: "leaves cs (skipWhitespace cs)"
proof -
  have "\<not> is_high x" if "x \<in> set (takeWhile is_ws cs)" for x
    using set_takeWhileD [OF that] by (auto simp: is_ws_def is_high_def)
  then show ?thesis using leaves_plain [of "takeWhile is_ws cs" "dropWhile is_ws cs"] by (simp add: skipWhitespace_def)
qed

lemma leaves_skip_Cons: "skipWhitespace cs = c # r \<Longrightarrow> \<not> is_high c \<Longrightarrow> leaves cs r"
  by (metis leaves_Cons leaves_skip leaves_trans)

lemma skip_skip [simp]: "skipWhitespace (skipWhitespace cs) = skipWhitespace cs"
  by (simp add: skipWhitespace_def)

lemma digit_plain: "is_digit c \<Longrightarrow> \<not> is_high c"
  by (auto simp: is_digit_def is_high_def word_le_nat_alt)

lemma leaves_digits: "leaves cs (dropWhile is_digit cs)"
  using leaves_plain [of "takeWhile is_digit cs" "dropWhile is_digit cs"] digit_plain
  by (auto dest: set_takeWhileD)

lemma match_number_leaves: "match_number cs = Some (neg, t, r) \<Longrightarrow> leaves cs r"
proof -
  have h: "\<not> is_high 0x2D" "\<not> is_high 0x2E" "\<not> is_high 0x30" "\<not> is_high 0x65" "\<not> is_high 0x45" "\<not> is_high 0x2B"
    by (simp_all add: is_high_def)
  have one: "leaves (c # cs) (dropWhile is_digit cs)" if "\<not> is_high c" for c cs
    using leaves_trans [OF leaves_Cons [OF that] leaves_digits] .
  have two: "leaves (c # d # cs) (dropWhile is_digit cs)" if "\<not> is_high c" "\<not> is_high d" for c d cs
    using leaves_trans [OF leaves_Cons [OF that(1)] one [OF that(2)]] .
  have i: "leaves cs r" if "match_int cs = Some (ip, r)" for cs ip r
    using that leaves_digits [of cs] by (auto simp: match_int_def h leaves_Cons split: list.splits if_splits)
  have f: "leaves cs r" if "match_frac cs = (fp, r)" for cs fp r
    using that by (auto simp: match_frac_def h one two digit_plain split: list.splits if_splits)
  have e: "leaves cs r" if "match_exp cs = (ex, r)" for cs ex r
    using that by (auto simp: match_exp_def Let_def h one two digit_plain split: list.splits if_splits)
  assume m: "match_number cs = Some (neg, t, r)"
  define cs1 where "cs1 = (case cs of [] \<Rightarrow> cs | c # r \<Rightarrow> if c = 0x2D then r else cs)"
  have "leaves cs cs1" by (auto simp: cs1_def h leaves_Cons split: list.split)
  moreover obtain ip cs2 fp cs3 ex where "match_int cs1 = Some (ip, cs2)" "match_frac cs2 = (fp, cs3)" "match_exp cs3 = (ex, r)"
    using m by (auto simp: match_number_def cs1_def Let_def split: list.splits if_splits option.splits prod.splits)
  ultimately show ?thesis using i f e by (meson leaves_trans)
qed

lemma strict_scalar_leaves: "strict_scalar cs = Inr (v, r) \<Longrightarrow> leaves cs r"
proof -
  assume s: "strict_scalar cs = Inr (v, r)"
  have k: "leaves cs (drop n cs)" if "prefix xs cs" "length xs = n" "\<forall>x \<in> set xs. \<not> is_high x" for xs n
    using that leaves_plain [of xs] by (auto simp: prefix_def)
  have "leaves cs (drop 4 cs)" if "prefix (u ''true'') cs \<or> prefix (u ''null'') cs"
    using that k [of "u ''true''" 4] k [of "u ''null''" 4] by (auto simp: u_literals is_high_def)
  moreover have "leaves cs (drop 5 cs)" if "prefix (u ''false'') cs"
    using that k [of "u ''false''" 5] by (auto simp: u_literals is_high_def)
  ultimately show ?thesis using s match_number_leaves
    by (auto simp: strict_scalar_def Let_def split: if_splits option.splits)
qed

lemma strict_key_leaves: "strict_key ps cs = Inr (k, r) \<Longrightarrow> leaves cs r"
proof -
  assume "strict_key ps cs = Inr (k, r)"
  then obtain r0 r1 where "skipWhitespace cs = 0x22 # r0" "literal r0 = Some (k, r1)" "skipWhitespace r1 = 0x3A # r"
    by (auto simp: strict_key_Inr strict_string_Inr)
  then have "leaves cs r0" "leaves r0 r1" "leaves r1 r"
    using leaves_skip_Cons literal_leaves by (auto simp: is_high_def)
  then show ?thesis using leaves_trans by blast
qed

lemma strict_next_leaves: "strict_next close cs = Inr (b, r) \<Longrightarrow> \<not> is_high close \<Longrightarrow> leaves cs r"
  by (auto simp: strict_next_def is_high_def split: list.splits if_splits intro: leaves_skip_Cons)

lemma strict_leaves:
  "strict_value d cs = Inr (v, r) \<Longrightarrow> leaves cs r"
  "strict_object d ps cs = Inr (v, r) \<Longrightarrow> leaves cs r"
  "strict_array d xs cs = Inr (v, r) \<Longrightarrow> leaves cs r"
proof (induction d cs and d ps cs and d xs cs arbitrary: v r and v r and v r
    rule: strict_value_strict_object_strict_array.induct)
  case (1 d cs)
  from "1.prems" obtain c r0 where d: "\<not> d > MAX_DEPTH" and sk: "skipWhitespace cs = c # r0"
    by (auto simp: strict_value.simps [of d cs] split: if_splits list.splits)
  have l: "leaves cs (c # r0)" using leaves_skip [of cs] by (simp add: sk)
  consider (str) "c = 0x22" | (obj) "c = 0x7B" | (arr) "c = 0x5B" | (other) "c \<notin> {0x22, 0x7B, 0x5B}" by blast
  then show ?case
  proof cases
    case str
    then have "leaves cs r0" using leaves_skip_Cons [OF sk] by (simp add: is_high_def)
    then show ?thesis using "1.prems" d str
      by (auto simp: strict_value.simps [of d cs] sk emap_Inr_conv strict_string_Inr intro: leaves_trans literal_leaves)
  next
    case obj
    then have l0: "leaves cs (skipWhitespace r0)"
      using leaves_trans [OF leaves_skip_Cons [OF sk] leaves_skip] by (simp add: is_high_def)
    show ?thesis
    proof (cases "take 1 (skipWhitespace r0) = [0x7D]")
      case True
      then have "leaves (skipWhitespace r0) (drop 1 (skipWhitespace r0))" by (intro leaves_drop) (simp add: is_high_def)
      then show ?thesis using "1.prems" d True obj leaves_trans [OF l0] by (auto simp: strict_value.simps [of d cs] sk)
    next
      case False
      then show ?thesis using "1.prems" "1.IH"(1) [OF d sk _ obj False] obj d leaves_trans [OF l0]
        by (simp add: strict_value.simps [of d cs] sk)
    qed
  next
    case arr
    then have l0: "leaves cs (skipWhitespace r0)"
      using leaves_trans [OF leaves_skip_Cons [OF sk] leaves_skip] by (simp add: is_high_def)
    show ?thesis
    proof (cases "take 1 (skipWhitespace r0) = [0x5D]")
      case True
      then have "leaves (skipWhitespace r0) (drop 1 (skipWhitespace r0))" by (intro leaves_drop) (simp add: is_high_def)
      then show ?thesis using "1.prems" d True arr leaves_trans [OF l0] by (auto simp: strict_value.simps [of d cs] sk)
    next
      case False
      then show ?thesis using "1.prems" "1.IH"(2) [OF d sk _ _ arr False] arr d leaves_trans [OF l0]
        by (simp add: strict_value.simps [of d cs] sk)
    qed
  next
    case other
    then have "strict_scalar (c # r0) = Inr (v, r)" using "1.prems" d by (simp add: strict_value.simps [of d cs] sk)
    then show ?thesis using leaves_trans [OF l] strict_scalar_leaves by blast
  qed
next
  case (2 d ps cs)
  from "2.prems" obtain key r0 v1 r1 cl r2 where k: "strict_key ps cs = Inr (key, r0)"
    and val: "strict_value (Suc d) r0 = Inr (v1, r1)" and nx: "strict_next 0x7D r1 = Inr (cl, r2)"
    and fin: "if cl then r = r2 else strict_object d (ps @ [(key, v1)]) r2 = Inr (v, r)"
    by (auto simp: strict_object.simps [of d ps cs] result_simps split: if_splits)
  have "leaves r0 r1" using "2.IH"(1) [OF k refl val] .
  moreover have "leaves r2 r" using fin "2.IH"(2) [OF k refl val refl nx refl] by (cases cl) auto
  moreover have "leaves r1 r2" by (rule strict_next_leaves [OF nx]) (simp add: is_high_def)
  ultimately show ?case using strict_key_leaves [OF k] by (meson leaves_trans)
next
  case (3 d xs cs)
  from "3.prems" obtain v1 r1 cl r2 where n: "\<not> MAX_ITEMS \<le> length xs" and val: "strict_value (Suc d) cs = Inr (v1, r1)"
    and nx: "strict_next 0x5D r1 = Inr (cl, r2)"
    and fin: "if cl then r = r2 else strict_array d (xs @ [v1]) r2 = Inr (v, r)"
    by (auto simp: strict_array.simps [of d xs cs] result_simps split: if_splits)
  have "leaves cs r1" using "3.IH"(1) [OF n val] .
  moreover have "leaves r2 r" using fin "3.IH"(2) [OF n val refl nx refl] by (cases cl) auto
  moreover have "leaves r1 r2" by (rule strict_next_leaves [OF nx]) (simp add: is_high_def)
  ultimately show ?case by (meson leaves_trans)
qed

text \<open>The tokens of the two parsers agree; the contract parser skips white space after a comma at once.\<close>

lemma strict_scalar_iff:
  assumes "c \<noteq> 0x22" "c \<noteq> 0x7B" "c \<noteq> 0x5B"
  shows "strict_scalar (c # cs) = Inr x \<longleftrightarrow>
    (if c = 0x2D \<or> is_digit c then parseNumber N (c # cs) else parseKeyword N (c # cs)) = Inr x"
proof (cases "c = 0x2D \<or> is_digit c")
  case True
  then have "c \<noteq> 0x74 \<and> c \<noteq> 0x66 \<and> c \<noteq> 0x6E" by (auto simp: is_digit_def)
  then have "strict_scalar (c # cs) = (case match_number (c # cs) of
        None \<Rightarrow> reject
      | Some (neg, t, r) \<Rightarrow>
          let number = token_number neg t
          in if is_finite number then Inr (JNum number, r) else reject)"
    by (simp add: strict_scalar_def u_literals)
  then show ?thesis using True by (auto simp: parseNumber_def Let_def split: option.splits)
next
  case False
  then have "match_number (c # cs) = None" using match_number_start [of "c # cs"] by (cases "match_number (c # cs)") auto
  then show ?thesis using False by (auto simp: strict_scalar_def parseKeyword_def)
qed

lemma strict_scalar_limits: "strict_scalar cs = Inr (v, r) \<Longrightarrow> in_limits d v \<longleftrightarrow> d \<le> MAX_DEPTH"
  by (auto simp: strict_scalar_def Let_def scalar_ok_def split: if_splits option.splits)

lemma parseKey_iff:
  assumes "wf_utf16 cs"
  shows "strict_key ps cs = Inr (k, r) \<longleftrightarrow> parseKey N ps (skipWhitespace cs) = Inr (k, r) \<and> scalar_text k"
proof (cases "skipWhitespace cs")
  case (Cons c r0)
  show ?thesis
  proof (cases "c = 0x22")
    case True
    have "wf_utf16 r0" using leaves_wf [OF leaves_skip_Cons [OF Cons] assms] by (simp add: True is_high_def)
    have colon: "parseColon N r1 = Inr r \<longleftrightarrow> skipWhitespace r1 = 0x3A # r" for r1
      by (auto simp: parseColon_def split: list.splits)
    show ?thesis
      by (auto simp: strict_key_Inr Cons True strict_string_iff [OF \<open>wf_utf16 r0\<close>, of _ _ N] parseKey_def result_simps colon
          split: if_splits)
  qed (simp add: strict_key_Inr Cons parseKey_def)
qed (simp add: strict_key_Inr parseKey_def)

lemma parseNext_iff:
  "parseNext N c m cs = Inr (b, r) \<longleftrightarrow> (\<exists>r'. strict_next c cs = Inr (b, r') \<and> r = (if b then r' else skipWhitespace r'))"
  by (auto simp: parseNext_def strict_next_def split: list.splits if_splits)

lemma in_limits_depth: "in_limits d v \<Longrightarrow> d \<le> MAX_DEPTH"
  by (cases v) auto

lemma parse_appends:
  "parseValue N md d cs = Inr (v, r) \<Longrightarrow> True"
  "parseObject N md d cs = Inr (v, r) \<Longrightarrow> True"
  "parse_members N md d ps cs = Inr (v, r) \<Longrightarrow> \<exists>qs. v = JObj (ps @ qs)"
  "parseArray N md d cs = Inr (v, r) \<Longrightarrow> True"
  "parse_elements N md d xs cs = Inr (v, r) \<Longrightarrow> \<exists>x ys. v = JArr (xs @ x # ys)"
proof (induction N md d cs and N md d cs and N md d ps cs and N md d cs and N md d xs cs
    arbitrary: v r and v r and v r and v r and v r
    rule: parseValue_parseObject_parse_members_parseArray_parse_elements.induct)
  case (3 N md d ps cs)
  then obtain key r0 v1 r1 cl r2 where k: "parseKey N ps cs = Inr (key, r0)" "parseValue N md d r0 = Inr (v1, r1)"
    "parseNext N 0x7D ''Expected a comma or closing brace.'' r1 = Inr (cl, r2)"
    and fin: "if cl then v = JObj (ps @ [(key, v1)]) else parse_members N md d (ps @ [(key, v1)]) r2 = Inr (v, r)"
    by (auto simp: parse_members.simps [of N md d ps cs] result_simps split: if_splits)
  then show ?case using "3.IH"(2) [OF k(1) refl k(2) refl k(3) refl] by (cases cl) auto
next
  case (5 N md d xs cs)
  then obtain v1 r1 cl r2 where k: "cs \<noteq> []" "parseValue N md d cs = Inr (v1, r1)"
    "parseNext N 0x5D ''Expected a comma or closing bracket.'' r1 = Inr (cl, r2)"
    and fin: "if cl then v = JArr (xs @ [v1]) else parse_elements N md d (xs @ [v1]) r2 = Inr (v, r)"
    by (auto simp: parse_elements.simps [of N md d xs cs] result_simps split: if_splits)
  then show ?case using "5.IH"(2) [OF k(1,2) refl k(3) refl] by (cases cl) auto
qed auto

lemma key_wf: "strict_key ps cs = Inr (k, r) \<Longrightarrow> wf_utf16 cs \<Longrightarrow> wf_utf16 r"
  by (rule leaves_wf [OF strict_key_leaves])

lemma member_wf:
  assumes "strict_key ps cs = Inr (k, r0)" "strict_value d r0 = Inr (v, r1)" "strict_next 0x7D r1 = Inr (b, r2)" "wf_utf16 cs"
  shows "wf_utf16 r0" "wf_utf16 r2"
  using leaves_wf [OF strict_key_leaves [OF assms(1)] assms(4)] leaves_wf [OF strict_leaves(1) [OF assms(2)]]
    leaves_wf [OF strict_next_leaves [OF assms(3)]] by (simp_all add: is_high_def)

lemma element_wf:
  assumes "strict_value d cs = Inr (v, r1)" "strict_next 0x5D r1 = Inr (b, r2)" "wf_utf16 cs"
  shows "wf_utf16 r2"
  using leaves_wf [OF strict_leaves(1) [OF assms(1)] assms(3)] leaves_wf [OF strict_next_leaves [OF assms(2)]]
  by (simp add: is_high_def)

lemma strict_agrees:
  assumes md: "MAX_DEPTH < md"
  shows "wf_utf16 cs \<Longrightarrow> strict_value d cs = Inr (v, r) \<longleftrightarrow> parseValue N md d cs = Inr (v, r) \<and> in_limits d v"
    "wf_utf16 cs \<Longrightarrow> d \<le> MAX_DEPTH \<Longrightarrow> \<forall>(k, x) \<in> set ps. scalar_text k \<and> in_limits (Suc d) x \<Longrightarrow>
      strict_object d ps cs = Inr (v, r) \<longleftrightarrow> parse_members N md (Suc d) ps (skipWhitespace cs) = Inr (v, r) \<and> in_limits d v"
    "wf_utf16 cs \<Longrightarrow> d \<le> MAX_DEPTH \<Longrightarrow> \<forall>x \<in> set xs. in_limits (Suc d) x \<Longrightarrow>
      strict_array d xs cs = Inr (v, r) \<longleftrightarrow> parse_elements N md (Suc d) xs (skipWhitespace cs) = Inr (v, r) \<and> in_limits d v"
proof (induction d cs and d ps cs and d xs cs arbitrary: v r and v r and v r
    rule: strict_value_strict_object_strict_array.induct)
  case (1 d cs)
  show ?case
  proof (cases "d \<le> MAX_DEPTH")
    case d: True
    then have d': "\<not> d > MAX_DEPTH" "\<not> md \<le> d" using md by auto
    show ?thesis
    proof (cases "skipWhitespace cs")
      case Nil
      then show ?thesis by (simp add: strict_value.simps parseValue.simps)
    next
      case (Cons c r0)
      have w: "wf_utf16 (skipWhitespace r0)" if "c \<in> {0x22, 0x7B, 0x5B}"
        using that leaves_wf [OF leaves_trans [OF leaves_skip_Cons [OF Cons] leaves_skip] "1.prems"] by (auto simp: is_high_def)
      consider (str) "c = 0x22" | (obj) "c = 0x7B" | (arr) "c = 0x5B" | (other) "c \<notin> {0x22, 0x7B, 0x5B}" by blast
      then show ?thesis
      proof cases
        case str
        have "wf_utf16 r0" using leaves_wf [OF leaves_skip_Cons [OF Cons] "1.prems"] by (simp add: str is_high_def)
        then show ?thesis using d d'
          by (auto simp: strict_value.simps [of d cs] parseValue.simps [of N md d cs] Cons str emap_Inr_conv
              strict_string_iff [of r0 _ _ N] scalar_ok_def)
      next
        case obj
        show ?thesis
        proof (cases "take 1 (skipWhitespace r0) = [0x7D]")
          case True
          then show ?thesis using d d' unfolding strict_value.simps [of d cs] parseValue.simps [of N md d cs] Cons
            by (cases "skipWhitespace r0") (auto simp: obj parseObject.simps)
        next
          case False
          have "parseObject N md (Suc d) r0 = parse_members N md (Suc d) [] (skipWhitespace r0)"
            using False by (auto simp: parseObject.simps split: list.splits)
          then show ?thesis using d d' "1.IH"(1) [OF d'(1) Cons _ obj False w d] False obj
            by (simp add: strict_value.simps [of d cs] parseValue.simps [of N md d cs] Cons)
        qed
      next
        case arr
        show ?thesis
        proof (cases "take 1 (skipWhitespace r0) = [0x5D]")
          case True
          then show ?thesis using d d' unfolding strict_value.simps [of d cs] parseValue.simps [of N md d cs] Cons
            by (cases "skipWhitespace r0") (auto simp: arr parseArray.simps)
        next
          case False
          have "parseArray N md (Suc d) r0 = parse_elements N md (Suc d) [] (skipWhitespace r0)"
            using False by (auto simp: parseArray.simps split: list.splits)
          then show ?thesis using d d' "1.IH"(2) [OF d'(1) Cons _ _ arr False w d] False arr
            by (simp add: strict_value.simps [of d cs] parseValue.simps [of N md d cs] Cons)
        qed
      next
        case other
        have "strict_value d cs = strict_scalar (c # r0)" using d' other by (simp add: strict_value.simps Cons)
        moreover have "parseValue N md d cs =
            (if c = 0x2D \<or> is_digit c then parseNumber N (c # r0) else parseKeyword N (c # r0))"
          using other by (simp add: parseValue.simps Cons)
        ultimately have "strict_value d cs = Inr (v, r) \<longleftrightarrow> parseValue N md d cs = Inr (v, r)"
          "strict_value d cs = Inr (v, r) \<Longrightarrow> in_limits d v"
          using strict_scalar_iff [of c r0 "(v, r)" N] other d strict_scalar_limits by auto
        then show ?thesis by blast
      qed
    qed
  next
    case False
    then show ?thesis using in_limits_depth by (auto simp: strict_value.simps)
  qed
next
  case (2 d ps cs)
  show ?case (is "?L \<longleftrightarrow> ?R")
  proof
    assume ?L
    then obtain key r0 v1 r1 cl r2 where k: "strict_key ps cs = Inr (key, r0)"
      and val: "strict_value (Suc d) r0 = Inr (v1, r1)" and nx: "strict_next 0x7D r1 = Inr (cl, r2)"
      and fin: "if cl then v = JObj (ps @ [(key, v1)]) \<and> r = r2 else strict_object d (ps @ [(key, v1)]) r2 = Inr (v, r)"
      by (auto simp: strict_object.simps [of d ps cs] result_simps split: if_splits)
    note w = member_wf [OF k val nx "2.prems"(1)]
    have ck: "parseKey N ps (skipWhitespace cs) = Inr (key, r0)" "scalar_text key"
      using k parseKey_iff [OF "2.prems"(1)] by auto
    have cv: "parseValue N md (Suc d) r0 = Inr (v1, r1)" "in_limits (Suc d) v1"
      using "2.IH"(1) [OF k refl w(1)] val by auto
    have cn: "parseNext N 0x7D ''Expected a comma or closing brace.'' r1 = Inr (cl, if cl then r2 else skipWhitespace r2)"
      using nx by (auto simp: parseNext_iff)
    show ?R
    proof (cases cl)
      case True
      then show ?thesis using fin "2.prems"(2,3) ck cv cn
        by (auto simp: parse_members.simps [of N md "Suc d" ps "skipWhitespace cs"])
    next
      case False
      then show ?thesis using fin "2.IH"(2) [OF k refl val refl nx refl False w(2) "2.prems"(2)] "2.prems"(3) ck cv cn
        by (auto simp: parse_members.simps [of N md "Suc d" ps "skipWhitespace cs"])
    qed
  next
    assume r: ?R
    then obtain key r0 v1 r1 cl r2 where ck: "parseKey N ps (skipWhitespace cs) = Inr (key, r0)"
      and cv: "parseValue N md (Suc d) r0 = Inr (v1, r1)"
      and nx: "strict_next 0x7D r1 = Inr (cl, r2)"
      and fin: "if cl then v = JObj (ps @ [(key, v1)]) \<and> r = r2
         else parse_members N md (Suc d) (ps @ [(key, v1)]) (skipWhitespace r2) = Inr (v, r)"
      by (fastforce simp: parse_members.simps [of N md "Suc d" ps "skipWhitespace cs"] result_simps parseNext_iff split: if_splits)
    obtain qs where "v = JObj (ps @ (key, v1) # qs)" using fin parse_appends(3) by (cases cl) fastforce+
    then have lim: "scalar_text key" "in_limits (Suc d) v1" using r by auto
    have k: "strict_key ps cs = Inr (key, r0)" using ck lim parseKey_iff [OF "2.prems"(1)] by auto
    have val: "strict_value (Suc d) r0 = Inr (v1, r1)"
      using "2.IH"(1) [OF k refl key_wf [OF k "2.prems"(1)]] cv lim by auto
    note w = member_wf [OF k val nx "2.prems"(1)]
    show ?L
    proof (cases cl)
      case False
      then show ?thesis using fin "2.IH"(2) [OF k refl val refl nx refl False w(2) "2.prems"(2)] "2.prems"(3) lim r
        by (simp add: strict_object.simps [of d ps cs] k val nx)
    qed (use fin in \<open>simp add: strict_object.simps [of d ps cs] k val nx\<close>)
  qed
next
  case (3 d xs cs)
  have pv: "parseValue N md (Suc d) (skipWhitespace cs) = parseValue N md (Suc d) cs"
    by (simp add: parseValue.simps [of N md "Suc d"])
  have ne: "skipWhitespace cs \<noteq> []" if "parseValue N md (Suc d) cs = Inr x" for x
    using that by (auto simp: parseValue.simps [of N md "Suc d" cs])
  show ?case (is "?L \<longleftrightarrow> ?R")
  proof
    assume ?L
    then obtain v1 r1 cl r2 where n: "\<not> MAX_ITEMS \<le> length xs"
      and val: "strict_value (Suc d) cs = Inr (v1, r1)" and nx: "strict_next 0x5D r1 = Inr (cl, r2)"
      and fin: "if cl then v = JArr (xs @ [v1]) \<and> r = r2 else strict_array d (xs @ [v1]) r2 = Inr (v, r)"
      by (auto simp: strict_array.simps [of d xs cs] result_simps split: if_splits)
    note w = element_wf [OF val nx "3.prems"(1)]
    have cv: "parseValue N md (Suc d) cs = Inr (v1, r1)" "in_limits (Suc d) v1"
      using "3.IH"(1) [OF n "3.prems"(1)] val by auto
    have cn: "parseNext N 0x5D ''Expected a comma or closing bracket.'' r1 = Inr (cl, if cl then r2 else skipWhitespace r2)"
      using nx by (auto simp: parseNext_iff)
    show ?R
    proof (cases cl)
      case True
      then show ?thesis using fin "3.prems"(2,3) cv cn n ne [OF cv(1)]
        by (auto simp: parse_elements.simps [of N md "Suc d" xs "skipWhitespace cs"] pv)
    next
      case False
      then show ?thesis using fin "3.IH"(2) [OF n val refl nx refl False w "3.prems"(2)] "3.prems"(3) cv cn ne [OF cv(1)]
        by (auto simp: parse_elements.simps [of N md "Suc d" xs "skipWhitespace cs"] pv)
    qed
  next
    assume r: ?R
    then obtain v1 r1 cl r2 where cv: "parseValue N md (Suc d) cs = Inr (v1, r1)"
      and nx: "strict_next 0x5D r1 = Inr (cl, r2)"
      and fin: "if cl then v = JArr (xs @ [v1]) \<and> r = r2
         else parse_elements N md (Suc d) (xs @ [v1]) (skipWhitespace r2) = Inr (v, r)"
      by (fastforce simp: parse_elements.simps [of N md "Suc d" xs "skipWhitespace cs"] pv result_simps parseNext_iff split: if_splits)
    obtain ys where "v = JArr (xs @ v1 # ys)" using fin parse_appends(5) by (cases cl) fastforce+
    then have lim: "in_limits (Suc d) v1" and n: "\<not> MAX_ITEMS \<le> length xs" using r by auto
    have val: "strict_value (Suc d) cs = Inr (v1, r1)" using "3.IH"(1) [OF n "3.prems"(1)] cv lim by auto
    note w = element_wf [OF val nx "3.prems"(1)]
    show ?L
    proof (cases cl)
      case False
      then show ?thesis using fin "3.IH"(2) [OF n val refl nx refl False w "3.prems"(2)] "3.prems"(3) lim r n
        by (simp add: strict_array.simps [of d xs cs] val nx)
    qed (use fin n in \<open>simp add: strict_array.simps [of d xs cs] val nx\<close>)
  qed
qed

theorem parseJson_iff:
  assumes "wf_utf16 text"
  shows "parseJson (InString text) = Inr j \<longleftrightarrow>
    parse (Suc MAX_DEPTH) text = Inr j \<and> in_limits 0 j \<and> byte_length text \<le> MAX_PAYLOAD_BYTES"
proof -
  let ?N = "length text"
  have pv: "parseValue ?N (Suc MAX_DEPTH) 0 (skipWhitespace text) = parseValue ?N (Suc MAX_DEPTH) 0 text"
    by (simp add: parseValue.simps [of ?N "Suc MAX_DEPTH" 0])
  have "strict_value 0 text = Inr (v, r) \<longleftrightarrow> parseValue ?N (Suc MAX_DEPTH) 0 text = Inr (v, r) \<and> in_limits 0 v" for v r
    by (rule strict_agrees(1) [OF _ assms]) simp
  then show ?thesis
    by (fastforce simp: parseJson_def decode_strict_def parse_def Let_def pv ebind_Inr_conv split: if_splits)
qed

section \<open>The round trip with the canonical text\<close>

lemma in_limits_jnorm [simp]: "in_limits d (jnorm j) \<longleftrightarrow> in_limits d j"
proof (induction j arbitrary: d)
  case (JObj ps)
  then show ?case by (fastforce simp: Basic_BNFs.snds.simps)
qed (auto simp: scalar_ok_def)

lemma in_limits_nesting: "in_limits d j \<Longrightarrow> json_depth j + d \<le> Suc MAX_DEPTH"
proof (induction j arbitrary: d)
  case (JArr xs)
  then have "\<forall>x \<in> set xs. json_depth x \<le> MAX_DEPTH - d" by fastforce
  then have "json_depth (JArr xs) \<le> Suc (MAX_DEPTH - d)" by (simp only: json_depth_Arr)
  then show ?case using in_limits_depth [OF JArr.prems] by linarith
next
  case (JObj ps)
  then have "\<forall>(k, x) \<in> set ps. json_depth x \<le> MAX_DEPTH - d" by (fastforce simp: Basic_BNFs.snds.simps)
  then have "json_depth (JObj ps) \<le> Suc (MAX_DEPTH - d)" by (simp only: json_depth_Obj)
  then show ?case using in_limits_depth [OF JObj.prems] by linarith
qed auto

lemma wf_utf16_plain: "\<forall>c \<in> set s. \<not> is_high c \<and> \<not> is_low c \<Longrightarrow> wf_utf16 s"
  by (induction s) auto

lemma wf_digits: "\<forall>d \<in> set ds. d < 10 \<Longrightarrow> wf_utf16 (map digit_unit ds)"
  by (rule wf_utf16_plain) (auto simp: high_unat low_unat unat_digit_unit)

lemma wf_token_text: "wf_token t \<Longrightarrow> wf_utf16 (token_text t)"
proof -
  assume w: "wf_token t"
  obtain ip fp ex where t: "t = (ip, fp, ex)" by (rule prod_cases3)
  have "wf_utf16 (exponent_text ex)"
    using w by (auto simp: wf_token_def t exponent_text_def wf_digits is_high_def is_low_def split: option.splits)
  then show ?thesis using w
    by (auto simp: wf_token_def t token_text_def is_high_def is_low_def intro!: wf_utf16_append wf_digits)
qed

lemma wf_number_text: "wf_number x \<Longrightarrow> wf_utf16 (number_to_string x)"
proof (cases x)
  case (Fin q)
  assume "wf_number x"
  then have "is_double q" by (simp add: Fin wf_number_def)
  then have "q \<noteq> 0 \<Longrightarrow> wf_utf16 (token_text (number_parts \<bar>q\<bar>))"
    by (intro wf_token_text wf_number_parts) (auto simp: abs_if)
  then show ?thesis by (auto simp: Fin number_to_string_def is_high_def is_low_def)
qed (simp_all add: number_to_string_def is_high_def is_low_def)

lemma wf_mark: "unat c < 0x80 \<Longrightarrow> wf_utf16 (c # s) \<longleftrightarrow> wf_utf16 s"
  by (simp add: high_unat low_unat)

lemma hex4_plain: "n < 65536 \<Longrightarrow> c \<in> set (hex4 n) \<Longrightarrow> unat c < 0x80"
proof -
  have h: "unat (hex_unit d) < 0x80" if "d < 16" for d
    using that by (simp add: hex_unit_def Let_def unat_unit_of)
  assume "n < 65536" "c \<in> set (hex4 n)"
  then show ?thesis unfolding hex4_def by (auto intro!: h)
qed

lemma wf_ascii: "\<forall>c \<in> set s. unat c < 0x80 \<Longrightarrow> wf_utf16 s"
  by (rule wf_utf16_plain) (auto simp: high_unat low_unat)

lemma wf_quote_unit: "\<not> is_high c \<Longrightarrow> \<not> is_low c \<Longrightarrow> wf_utf16 (quote_unit c)"
proof -
  assume c: "\<not> is_high c" "\<not> is_low c"
  have "wf_utf16 (unicode_escape c)"
    unfolding unicode_escape_def using hex4_plain [of "unat c"] unat_code_unit [of c] by (intro wf_ascii) auto
  moreover have "wf_utf16 [0x5C, x]" if "unat x < 0x80" for x using that by (intro wf_ascii) simp
  moreover have "wf_utf16 [c]" using c by simp
  ultimately show ?thesis unfolding quote_unit_def by (simp del: wf_utf16.simps)
qed

lemma wf_quote_units: "wf_utf16 s \<Longrightarrow> wf_utf16 (quote_units s)"
proof (induction s rule: wf_utf16_induct)
  case (Bmp c cs)
  then show ?case unfolding quote_units_Bmp [OF Bmp(1,2)] by (intro wf_utf16_append wf_quote_unit)
next
  case (Pair c d cs)
  then show ?case by (simp add: quote_units_Pair)
qed simp

lemma wf_json_quote: "wf_utf16 s \<Longrightarrow> wf_utf16 (json_quote s)"
  unfolding json_quote_def by (simp add: wf_mark wf_utf16_append wf_quote_units del: wf_utf16.simps(2))

lemma wf_join: "wf_utf16 sep \<Longrightarrow> \<forall>t \<in> set ts. wf_utf16 t \<Longrightarrow> wf_utf16 (join sep ts)"
  by (induction sep ts rule: join.induct) (simp_all add: wf_utf16_append del: wf_utf16.simps(2))

lemma wf_canon: "wf_json j \<Longrightarrow> wf_utf16 (canon j)"
proof (induction j)
  case (JArr xs)
  then show ?case by (simp add: wf_utf16_append wf_join)
next
  case (JObj ps)
  then have ih: "\<forall>(k, x) \<in> set ps. wf_utf16 (canon x) \<and> wf_utf16 k" by (fastforce simp: Basic_BNFs.snds.simps)
  have "wf_utf16 (member_text (k, x))" if "(k, x) \<in> set ps" for k x
  proof -
    have "wf_utf16 (0x3A # canon x)" "wf_utf16 (json_quote k)" using ih that wf_json_quote by (auto simp: wf_mark simp del: wf_utf16.simps)
    then have "wf_utf16 (json_quote k @ 0x3A # canon x)" by (intro wf_utf16_append)
    then show ?thesis by (simp add: member_text_def u_literals del: wf_utf16.simps)
  qed
  then have "wf_utf16 (join (u '','') (map member_text (sort_key fst ps)))" by (intro wf_join) auto
  then show ?case unfolding canon_Obj_members by (simp add: wf_mark wf_utf16_append del: wf_utf16.simps(2))
qed (simp_all add: wf_number_text wf_json_quote)

lemma canon_first:
  assumes "wf_json j"
  shows "\<exists>c cs. canon j = c # cs \<and> unat c < 0x80"
proof (cases j)
  case (JNum n)
  with assms have "wf_number n" "is_finite n" by simp_all
  moreover have "ends_number []" by (simp add: ends_number_def)
  ultimately obtain neg t where m: "match_number (number_to_string n @ []) = Some (neg, t, [])"
    using match_number_text by blast
  show ?thesis using match_number_start [OF m] by (auto simp: JNum is_digit_def)
qed (use assms in \<open>auto simp: u_literals json_quote_def canon_Obj\<close>)

lemma decode_canon: "wf_json j \<Longrightarrow> decode_strict (InBytes (utf8_encode (canon j))) = Inr (canon j)"
proof -
  assume w: "wf_json j"
  obtain c cs where c: "canon j = c # cs" "unat c < 0x80" using canon_first [OF w] by blast
  have "utf8_encode (canon j) = byte_of (unat c) # utf8_encode cs"
    using c code_points_ascii [of c cs]
    by (simp add: utf8_encode_def replace_surrogate_def utf8_cp_def del: code_points.simps)
  moreover have "byte_of (unat c) \<noteq> 0xEF"
  proof
    assume "byte_of (unat c) = 0xEF"
    then have "unat (byte_of (unat c)) = 0xEF" by simp
    then show False using c(2) by (simp add: unat_byte_of)
  qed
  ultimately have "take 3 (utf8_encode (canon j)) \<noteq> [0xEF, 0xBB, 0xBF]" by auto
  then show ?thesis by (simp add: decode_strict_def utf8_decode_encode wf_canon w)
qed

lemma strict_members_subset:
  "strict_members ps = Some ms \<Longrightarrow> set (map fst ms) \<subseteq> set (map fst ps) \<and> (distinct (map fst ps) \<longrightarrow> distinct (map fst ms))"
proof (induction ps arbitrary: ms)
  case (Cons p ps)
  obtain k s where p: "p = (k, s)" by (cases p)
  show ?case
  proof (cases "\<exists>v. s = HData True v")
    case True
    then obtain v where s: "s = HData True v" by blast
    then obtain x xs where "strict_members ps = Some xs" "ms = (k, x) # xs"
      using Cons.prems by (auto simp: p bind_eq_Some_conv)
    then show ?thesis using Cons.IH [of xs] by (auto simp: p)
  next
    case False
    then have "strict_members ps = Some ms" using Cons.prems by (auto simp: p split: hslot.splits bool.splits)
    then show ?thesis using Cons.IH [of ms] by (auto simp: p)
  qed
qed simp

lemma strict_view_wf:
  "strict_view v = Some j \<Longrightarrow> wf_hval v \<Longrightarrow> in_limits d j \<Longrightarrow> wf_json j"
  "strict_items ss = Some xs \<Longrightarrow> \<forall>s \<in> set ss. wf_slot s \<Longrightarrow> \<forall>x \<in> set xs. in_limits d x \<Longrightarrow> \<forall>x \<in> set xs. wf_json x"
  "strict_members ps = Some ms \<Longrightarrow> \<forall>(k, s) \<in> set ps. wf_slot s \<Longrightarrow>
     \<forall>(k, x) \<in> set ms. scalar_text k \<and> in_limits d x \<Longrightarrow> \<forall>(k, x) \<in> set ms. wf_utf16 k \<and> wf_json x"
proof (induction v and ss and ps arbitrary: d j and d xs and d ms
    rule: strict_view_strict_items_strict_members.induct)
  case (6 pr nsym ps)
  then obtain ms where m: "j = JObj ms" "strict_members ps = Some ms" by (auto split: if_splits)
  then have "distinct (map fst ms)" using strict_members_subset [OF m(2)] "6.prems" by simp
  then show ?case using 6 m by (fastforce split: if_splits)
next
  case (5 std nsym slots extras)
  then show ?case by (fastforce split: if_splits)
next
  case (9 s ss)
  then show ?case by (auto simp: bind_eq_Some_conv split: hslot.splits bool.splits)
next
  case (11 p ps)
  obtain k s where p: "p = (k, s)" by (cases p)
  show ?case
  proof (cases "\<exists>v. s = HData True v")
    case True
    then obtain v where s: "s = HData True v" by blast
    then obtain x xs where x: "strict_view v = Some x" "strict_members ps = Some xs" "ms = (k, x) # xs"
      using "11.prems" by (auto simp: p bind_eq_Some_conv)
    have "wf_json x" by (rule "11.IH"(2) [OF p [symmetric] s refl x(1)]) (use "11.prems"(2,3) p s x in auto)
    moreover have "\<forall>(k, x) \<in> set xs. wf_utf16 k \<and> wf_json x"
      by (rule "11.IH"(3) [OF p [symmetric] s refl x(1,2)]) (use "11.prems"(2,3) p s x in auto)
    moreover have "wf_utf16 k" using "11.prems"(3) x by (auto simp: scalar_text_def scalarString_def scalar_units_wf)
    ultimately show ?thesis using x by auto
  next
    case False
    then have m: "strict_members ps = Some ms" using "11.prems" by (auto simp: p split: hslot.splits bool.splits)
    have w: "\<forall>(k, s) \<in> set ps. wf_slot s" using "11.prems" by simp
    show ?thesis
    proof (cases s)
      case HHole
      show ?thesis by (rule "11.IH"(1) [OF p [symmetric] HHole m w "11.prems"(3)])
    next
      case (HData e v)
      then have "e = False" using False by (cases e) auto
      then show ?thesis by (rule "11.IH"(4) [OF p [symmetric] HData _ m w "11.prems"(3)])
    next
      case (HAccessor e v)
      then have "e = False" using "11.prems"(1) by (cases e) (auto simp: p)
      then show ?thesis by (rule "11.IH"(5) [OF p [symmetric] HAccessor _ m w "11.prems"(3)])
    qed
  qed
qed (auto simp: scalar_ok_def scalar_text_def scalarString_def scalar_units_wf)

text \<open>
  The canonical text of a caller value, however its objects are shared, is read back when it fits into a payload;
  a longer text is refused.
\<close>

theorem parseJson_canonical:
  assumes "shares I v" "canonicalJson I v = Inr t" "wf_hval v"
  shows "if byte_length t \<le> MAX_PAYLOAD_BYTES
    then \<exists>j. copyJson v = Inr j \<and> parseJson (InString t) = Inr (jnorm j) \<and>
             parseJson (InBytes (utf8_encode t)) = Inr (jnorm j)
    else parseJson (InString t) = reject \<and> parseJson (InBytes (utf8_encode t)) = reject"
proof -
  obtain j where view: "strict_view v = Some j" "in_limits 0 j" and t: "t = canon j"
    using canonicalJson_text [OF assms(1,2)] by blast
  have w: "wf_json j" by (rule strict_view_wf(1) [OF view(1) assms(3) view(2)])
  have bytes: "parseJson (InBytes (utf8_encode t)) = parseJson (InString t)"
    using decode_canon [OF w] by (simp add: parseJson_def t) (simp add: decode_strict_def)
  show ?thesis
  proof (cases "byte_length t \<le> MAX_PAYLOAD_BYTES")
    case True
    have "parse (Suc MAX_DEPTH) t = Inr (jnorm j)"
      unfolding t by (rule parse_canon_text [OF w]) (use in_limits_nesting [OF view(2)] in simp)
    then have p: "parseJson (InString t) = Inr (jnorm j)"
      using True view(2) by (simp add: parseJson_iff t wf_canon w)
    have "copyJson v = Inr j" using True view t by (simp add: copyJson_iff MAX_PAYLOAD_BYTES_def MAX_GRAPH_BYTES_def)
    then show ?thesis using bytes p True by simp
  next
    case False
    then have "parseJson (InString t) = reject" by (simp add: parseJson_def decode_strict_def)
    then show ?thesis using bytes False by simp
  qed
qed

section \<open>Freezing\<close>

text \<open>
  A value as \<open>freeze\<close> sees it: a primitive, or an object or array with its extensibility flag and the values of its
  properties.  An object that is frozen already is not entered.
\<close>

datatype freezable = Primitive json | Entity bool "freezable list"

fun freeze :: "freezable \<Rightarrow> freezable" where
  "freeze (Primitive v) = Primitive v"
| "freeze (Entity is_frozen items) = (if is_frozen then Entity is_frozen items else Entity True (map freeze items))"

fun all_frozen :: "freezable \<Rightarrow> bool" where
  "all_frozen (Primitive v) = True"
| "all_frozen (Entity is_frozen items) \<longleftrightarrow> is_frozen \<and> (\<forall>x \<in> set items. all_frozen x)"

fun nothing_frozen :: "freezable \<Rightarrow> bool" where
  "nothing_frozen (Primitive v) = True"
| "nothing_frozen (Entity is_frozen items) \<longleftrightarrow> \<not> is_frozen \<and> (\<forall>x \<in> set items. nothing_frozen x)"

lemma freeze_idem: "freeze (freeze v) = freeze v"
  by (cases v) auto

lemma freeze_fresh: "nothing_frozen v \<Longrightarrow> all_frozen (freeze v)"
  by (induction v) auto

section \<open>A sample\<close>

definition d_strict :: json where
  "d_strict = JArr [JNum NegZero, JStr (u ''x'')]"

lemma d_strict_text: "canon d_strict = u ''[0,'' @ [0x22] @ u ''x'' @ [0x22] @ u '']''"
  by (simp add: d_strict_def u_def json_quote_def quote_unit_def is_high_def is_low_def number_to_string_def)

lemma d_strict_runs:
  "canonicalJson unshared (hval_of d_strict) = Inr (canon d_strict)" "wf_hval (hval_of d_strict)"
  "byte_length (canon d_strict) \<le> MAX_PAYLOAD_BYTES"
proof -
  have t: "scalar_text (u ''x'')"
    by (simp_all add: scalar_text_def scalarString_def MAX_STRING_BYTES_def u_def is_high_def is_low_def byte_length_Cons_ascii)
  have b: "byte_length (canon d_strict) \<le> 100"
    unfolding d_strict_text by (simp add: u_def byte_length_Cons_ascii)
  then show "byte_length (canon d_strict) \<le> MAX_PAYLOAD_BYTES" by (simp add: MAX_PAYLOAD_BYTES_def)
  have "in_limits 0 d_strict" using t by (simp add: d_strict_def MAX_DEPTH_def MAX_ITEMS_def scalar_ok_def)
  then have "copyJson (hval_of d_strict) = Inr d_strict" using b by (simp add: copyJson_iff MAX_GRAPH_BYTES_def)
  then show "canonicalJson unshared (hval_of d_strict) = Inr (canon d_strict)" by (auto simp: canonicalJson_iff)
  show "wf_hval (hval_of d_strict)" by (rule wf_hval_of) (simp add: d_strict_def wf_number_def)
qed

end
