(* ===== verification/Consume.thy ===== *)
theory Consume
  imports Route Cost JsOps
begin

text \<open>
  The consumption runner (\<open>packages/kdna-eval/src/consume.js\<close>): routing, cost, composition, promotion, projection and
  quality of one consumption, each returned as a gate report.

  The options, the asset and the context are JSON data or absent (\<open>json option\<close>); the operators on their members are
  those of the language, with their coercions and exceptions.  Routing and cost are the modules \<open>route.js\<close> and
  \<open>cost.js\<close> (theories \<open>Route\<close> and \<open>Cost\<close>).
\<close>

section \<open>Operators\<close>

text \<open>\<open>JSON.stringify\<close>\<close>

fun stringify :: "json \<Rightarrow> jstring" where
  "stringify JNull = u ''null''"
| "stringify (JBool b) = (if b then u ''true'' else u ''false'')"
| "stringify (JNum n) = (if is_finite n then number_to_string n else u ''null'')"
| "stringify (JStr s) = json_quote s"
| "stringify (JArr xs) = u ''['' @ join (u '','') (map stringify xs) @ u '']''"
| "stringify (JObj ps) = u ''{'' @ join (u '','') (map (\<lambda>(k, v). json_quote k @ u '':'' @ stringify v) ps) @ u ''}''"

definition not_a_function :: "string \<Rightarrow> exn + 'a" where
  "not_a_function what = Inl (TypeErr (u (what @ '' is not a function'')))"

definition nat_json :: "nat \<Rightarrow> json" where
  "nat_json n = JNum (num_of_nat n)"

text \<open>An object literal; a member whose value is \<open>undefined\<close> reads like an absent one.\<close>

definition jo_opt :: "(string \<times> json option) list \<Rightarrow> json" where
  "jo_opt ms = jo (map (\<lambda>(k, v). (k, the v)) (filter (\<lambda>(k, v). v \<noteq> None) ms))"

definition gate_answer :: "string \<Rightarrow> json \<Rightarrow> json \<Rightarrow> json \<Rightarrow> jstring list \<Rightarrow> json" where
  "gate_answer gate pass score details errors =
     jo [(''gate'', js gate), (''pass'', pass), (''score'', score), (''details'', details), (''errors'', JArr (map JStr errors))]"

definition whole_score :: "bool \<Rightarrow> json" where
  "whole_score b = JNum (Fin (if b then 1 else 0))"

text \<open>The dash of the messages, between spaces.\<close>

definition dash :: jstring where "dash = [0x20, 0x2014, 0x20]"

record runner =
  ru_policies :: "json option"
  ru_budgetProfile :: "json option"

definition createConsumptionRunner :: "json option \<Rightarrow> runner" where
  "createConsumptionRunner options =
     \<lparr>ru_policies = get_opt options ''policies'', ru_budgetProfile = get_opt options ''budgetProfile''\<rparr>"

section \<open>Routing\<close>

definition shown :: "hval \<Rightarrow> json option" where
  "shown v = (if v = HUndefined then None else plain_view v)"

definition route_options :: "runner \<Rightarrow> json option \<Rightarrow> hval" where
  "route_options runner context =
     HObj PlainProto 0
       [(u ''policies'', HData True (hopt (ru_policies runner))),
        (u ''domainOverrides'', HData True (hopt (get_opt context ''domainOverrides''))),
        (u ''skipReason'', HData True (hopt (get_opt context ''skipReason'')))]"

definition consume_route :: "runner \<Rightarrow> json option \<Rightarrow> exn + json" where
  "consume_route runner context =
     (if \<not> truthy (ru_policies runner) then
        Inr (gate_answer ''route'' JNull JNull (jo [(''note'', JStr (u ''no policies provided'' @ dash @ u ''cannot route''))]) [])
      else
        let operation = or_else (get_opt context ''task'') (or_else (get_opt context ''operation'') (Some (js ''review''))) in
        case getRoutePolicy (hopt operation) (hopt (ru_policies runner)) of
          Inl e \<Rightarrow>
            Inr (gate_answer ''route'' (JBool False) (whole_score False) (jo_opt [(''operation'', operation)]) [error_message e])
        | Inr _ \<Rightarrow>
            ebind (resolveDomains (hopt operation) (route_options runner context)) (\<lambda>resolved.
              let selected = map (\<lambda>v. the (shown v)) (rs_selected resolved);
                  rejected = map (\<lambda>v. the (shown v)) (rs_skipped resolved);
                  primary = the (or_else (case selected of [] \<Rightarrow> None | d # _ \<Rightarrow> Some d) (Some JNull));
                  chosen = truthy (Some primary)
              in Inr (gate_answer ''route'' (JBool (primary \<noteq> JNull)) (whole_score chosen)
                   (jo_opt [(''operation'', operation), (''loadProfile'', shown (rs_loadProfile resolved)),
                        (''primary'', Some primary), (''selectedDomains'', Some (JArr selected)),
                        (''rejected'', Some (JArr rejected)), (''confidence'', Some (js (if chosen then ''high'' else ''none''))),
                        (''abstainReason'', Some (if chosen then JNull else js ''no matching domain for operation''))])
                   [])))"

section \<open>Cost\<close>

text \<open>\<open>for (const x of v)\<close>: the items of an array, the code points of a string.\<close>

definition iterated :: "json option \<Rightarrow> exn + json list" where
  "iterated v =
     (case v of
        Some (JArr xs) \<Rightarrow> Inr xs
      | Some (JStr s) \<Rightarrow> Inr (map (\<lambda>c. JStr (units_of_cp c)) (code_points s))
      | _ \<Rightarrow> Inl (TypeErr (u ''advisors is not iterable'')))"

text \<open>A call on the tracker: what it throws ends the gate.\<close>

definition called :: "(exn + unit) \<times> tracker \<Rightarrow> exn + tracker" where
  "called r = (case r of (Inl e, t) \<Rightarrow> Inl e | (Inr x, t) \<Rightarrow> Inr t)"

definition cost_asset :: "json \<Rightarrow> json" where
  "cost_asset asset =
     jo_opt [(''id'', or_else (get_opt (Some asset) ''id'') (get_opt (Some asset) ''path'')), (''type'', Some (js ''primary'')),
       (''tokens'', get_opt (Some asset) ''estimatedTokens''),
       (''chars'', or_else (get_opt (get_opt (Some asset) ''text'') ''length'') (Some (nat_json (length (stringify asset)))))]"

definition cost_advisor :: "json \<Rightarrow> exn + json" where
  "cost_advisor adv =
     ebind (get_prop (Some adv) ''id'') (\<lambda>i.
       Inr (jo_opt [(''id'', i), (''tokens'', get_opt (Some adv) ''estimatedTokens''),
              (''chars'', get_opt (get_opt (Some adv) ''content'') ''length'')]))"

fun track_advisors :: "json list \<Rightarrow> tracker \<Rightarrow> exn + tracker" where
  "track_advisors [] t = Inr t"
| "track_advisors (adv # advs) t =
     ebind (cost_advisor adv) (\<lambda>a. ebind (called (trackAdvisor (Some a) t)) (track_advisors advs))"

definition tracked :: "runner \<Rightarrow> json option \<Rightarrow> json option \<Rightarrow> exn + tracker" where
  "tracked runner asset context =
     (let t = createCostTracker (or_else (ru_budgetProfile runner) (Some (js ''interactive''))) in
      ebind (if truthy asset then called (trackAsset (Some (cost_asset (the asset))) t) else Inr t) (\<lambda>t1.
      ebind (iterated (or_else (get_opt context ''advisors'') (Some (JArr [])))) (\<lambda>advs. track_advisors advs t1)))"

definition reasons_text :: "json \<Rightarrow> jstring" where
  "reasons_text report =
     (case get_opt (Some report) ''over_budget_reasons'' of
        Some (JArr xs) \<Rightarrow> join (u '', '') (map (\<lambda>x. case x of JStr s \<Rightarrow> s | _ \<Rightarrow> []) xs)
      | _ \<Rightarrow> [])"

definition consume_cost :: "runner \<Rightarrow> json option \<Rightarrow> json option \<Rightarrow> exn + json" where
  "consume_cost runner asset context =
     ebind (tracked runner asset context) (\<lambda>t. ebind (getCostReport t) (\<lambda>report.
       let over = truthy (get_opt (Some report) ''over_budget'') in
       Inr (gate_answer ''cost'' (JBool (\<not> over)) (whole_score (\<not> over)) report
              (if over then [u ''Budget exceeded: '' @ reasons_text report] else []))))"

section \<open>Composition\<close>

text \<open>\<open>Object.values\<close>\<close>

definition object_values :: "json option \<Rightarrow> json list" where
  "object_values v =
     (case v of
        Some (JObj ps) \<Rightarrow> map snd ps
      | Some (JArr xs) \<Rightarrow> xs
      | Some (JStr s) \<Rightarrow> map (\<lambda>c. JStr [c]) s
      | _ \<Rightarrow> [])"

fun find_domain :: "json \<Rightarrow> json list \<Rightarrow> exn + json option" where
  "find_domain i [] = Inr None"
| "find_domain i (d # ds) =
     ebind (get_prop (Some d) ''id'') (\<lambda>k. if strict_eq k (Some i) then Inr (Some d) else find_domain i ds)"

definition js_sub :: "json option \<Rightarrow> json option \<Rightarrow> exn + number" where
  "js_sub a b = ebind (to_number a) (\<lambda>x. ebind (to_number b) (\<lambda>y. Inr (num_sub x y)))"

definition overlap :: "json option \<Rightarrow> json option \<Rightarrow> exn + bool" where
  "overlap w v =
     ebind (js_gt w (Some zero)) (\<lambda>a. if \<not> a then Inr False else
     ebind (js_gt v (Some zero)) (\<lambda>b. if \<not> b then Inr False else
     ebind (js_sub w v) (\<lambda>d. Inr (num_lt (num_abs d) (to_double (1 / 5))))))"

definition conflict_entry :: "json \<Rightarrow> json \<Rightarrow> json option \<Rightarrow> json option \<Rightarrow> exn + json" where
  "conflict_entry primaryId advId w v =
     ebind (prim_text w) (\<lambda>wt. ebind (prim_text v) (\<lambda>vt.
       Inr (jo [(''domain_a'', primaryId), (''domain_b'', advId),
                (''description'', JStr (u ''overlapping weight ranges (primary: '' @ wt @ u '', advisor: '' @ vt @ u '')''))])))"

fun advisor_conflicts :: "json \<Rightarrow> json \<Rightarrow> json list \<Rightarrow> json list \<Rightarrow> exn + json list" where
  "advisor_conflicts primaryId primaryDom domains [] = Inr []"
| "advisor_conflicts primaryId primaryDom domains (advId # ids) =
     ebind (find_domain advId domains) (\<lambda>found.
       case found of
         None \<Rightarrow> advisor_conflicts primaryId primaryDom domains ids
       | Some advDom \<Rightarrow>
           let w = get_opt (Some primaryDom) ''weight''; v = get_opt (Some advDom) ''weight'' in
           ebind (overlap w v) (\<lambda>near.
           ebind (if near then emap (\<lambda>c. [c]) (conflict_entry primaryId advId w v) else Inr []) (\<lambda>here.
             emap ((@) here) (advisor_conflicts primaryId primaryDom domains ids))))"

definition operation_conflicts :: "json \<Rightarrow> json list \<Rightarrow> json \<Rightarrow> exn + json list" where
  "operation_conflicts primaryId advisorIds op =
     ebind (get_prop (Some op) ''domains'') (\<lambda>ds.
       case or_else ds (Some (JArr [])) of
         Some (JArr domains) \<Rightarrow>
           ebind (find_domain primaryId domains) (\<lambda>found.
             case found of
               None \<Rightarrow> Inr []
             | Some primaryDom \<Rightarrow> advisor_conflicts primaryId primaryDom domains advisorIds)
       | _ \<Rightarrow> not_a_function ''domains.find'')"

definition detectConflicts :: "json \<Rightarrow> json list \<Rightarrow> json option \<Rightarrow> exn + json list" where
  "detectConflicts primaryId advisorIds policies =
     (if \<not> truthy policies \<or> \<not> truthy (Some primaryId) \<or> advisorIds = [] then Inr []
      else emap concat (mapE (operation_conflicts primaryId advisorIds) (object_values policies)))"

text \<open>The bound of \<open>slice\<close>, for a number that is not negative.\<close>

definition slice_bound :: "number \<Rightarrow> nat \<Rightarrow> nat" where
  "slice_bound x n = (case x of Fin q \<Rightarrow> min n (nat \<lfloor>q\<rfloor>) | PInf \<Rightarrow> n | _ \<Rightarrow> 0)"

definition advisor_entry :: "jstring \<Rightarrow> json \<Rightarrow> json" where
  "advisor_entry hardmax a =
     jo [(''domain_id'', a), (''weight'', JNum (Fin (1 / 2))), (''role'', js ''advisor''),
         (''attribution'', JStr (u ''selected as advisor within hardmax '' @ hardmax)), (''accepted'', JBool True)]"

definition rejected_entry :: "jstring \<Rightarrow> json \<Rightarrow> json" where
  "rejected_entry hardmax a =
     jo [(''domain_id'', a), (''reason'', JStr (u ''exceeds source hardmax ('' @ hardmax @ u '')''))]"

definition no_primary :: "json \<Rightarrow> json" where
  "no_primary hardmax =
     gate_answer ''compose'' (JBool False) (whole_score False)
       (jo [(''primary'', JNull), (''advisors'', JArr []), (''rejected_advisors'', JArr []), (''conflicts'', JArr []),
            (''source_hardmax'', hardmax), (''sources_used'', nat_json 0)])
       [u ''compose requires a primary domain'' @ dash @ u ''no fallback to all-assets'']"

definition consume_compose :: "runner \<Rightarrow> json option \<Rightarrow> exn + json" where
  "consume_compose runner context =
     (let primaryId = the (or_else (get_opt context ''primary'') (Some JNull));
          requested = or_else (get_opt context ''advisors'') (Some (JArr []));
          hardmax = the (or_else (get_opt context ''sourceHardmax'') (Some (nat_json 3)))
      in if \<not> truthy (Some primaryId) then Inr (no_primary hardmax)
         else ebind (to_number (Some hardmax)) (\<lambda>n.
           let maxAdvisors = num_max (Fin 0) (num_sub n (Fin 1)) in
           case requested of
             Some (JArr xs) \<Rightarrow>
               let bound = slice_bound maxAdvisors (length xs); accepted = take bound xs; rejected = drop bound xs in
               ebind (if xs = [] then Inr [] else prim_text (Some hardmax)) (\<lambda>shown_max.
               ebind (detectConflicts primaryId accepted (ru_policies runner)) (\<lambda>conflicts.
                 Inr (gate_answer ''compose'' (JBool True) (whole_score True)
                   (jo [(''primary'', jo [(''domain_id'', primaryId), (''weight'', nat_json 1),
                                        (''reason'', the (or_else (get_opt context ''primaryReason'') (Some (js ''specified or routed''))))]),
                        (''advisors'', JArr (map (advisor_entry shown_max) accepted)),
                        (''rejected_advisors'', JArr (map (rejected_entry shown_max) rejected)),
                        (''conflicts'', JArr conflicts), (''source_hardmax'', hardmax),
                        (''sources_used'', nat_json (1 + length accepted))])
                   [])))
           | Some (JStr s) \<Rightarrow> not_a_function ''acceptedAdvisors.map''
           | _ \<Rightarrow> not_a_function ''requestedAdvisors.slice''))"

section \<open>Promotion\<close>

definition reviewLevels :: "string list" where
  "reviewLevels = [''draft_generated'', ''lint_repaired'', ''human_reviewed'', ''eval_candidate'', ''trusted_runtime'']"

definition requiredSuites :: "string list" where
  "requiredSuites = [''repair'', ''holdout'', ''fresh'', ''candidate-sealed'', ''new-sealed'']"

text \<open>\<open>indexOf\<close>: \<open>-1\<close> when absent.\<close>

fun index_of :: "json option \<Rightarrow> string list \<Rightarrow> int" where
  "index_of v [] = -1"
| "index_of v (n # ns) = (if v = Some (js n) then 0 else let i = index_of v ns in if i < 0 then -1 else 1 + i)"

definition suite_passed :: "json option \<Rightarrow> string \<Rightarrow> bool" where
  "suite_passed replayResults s \<longleftrightarrow> get_opt (get_opt replayResults s) ''pass'' = Some (JBool True)"

definition consume_promotion :: "json option \<Rightarrow> exn + json" where
  "consume_promotion context =
     (let source = or_else (get_opt context ''source'') (or_else (get_opt context ''evidenceSource'') (Some (js ''unknown'')));
          reviewStatus = or_else (get_opt context ''reviewStatus'') (Some (js ''draft_generated''));
          replayResults = or_else (get_opt context ''replayResults'') (Some (JObj []));
          common = [(''source'', the source), (''reviewStatus'', the reviewStatus), (''replayResults'', the replayResults)]
      in if source = Some (js ''sealed-derived'') then
           Inr (gate_answer ''promotion'' (JBool False) (whole_score False)
             (jo (common @ [(''promotionBlocked'', JBool True),
                (''blockReason'', JStr (u ''sealed-derived evidence cannot be auto-promoted'' @ dash @ u ''requires human review''))]))
             [u ''sealed-derived auto-promotion blocked''])
         else if index_of reviewStatus reviewLevels < 2 then
           ebind (prim_text reviewStatus) (\<lambda>status.
             Inr (gate_answer ''promotion'' (JBool False) (whole_score False)
               (jo (common @ [(''promotionBlocked'', JBool True),
                  (''blockReason'', JStr (u ''review status '' @ [0x22] @ status @ [0x22] @ u '' below minimum '' @ [0x22] @
                                        u ''human_reviewed'' @ [0x22]))]))
               [u ''review status too low: '' @ status]))
         else
           let allPassed = list_all (suite_passed replayResults) requiredSuites;
               failed = join (u '', '') (map u (filter (\<lambda>s. \<not> suite_passed replayResults s) requiredSuites))
           in Inr (gate_answer ''promotion'' (JBool allPassed) (whole_score allPassed)
                (jo (common @ [(''suiteResults'', JArr (map (\<lambda>s. jo [(''suite'', js s),
                                  (''passed'', JBool (suite_passed replayResults s))]) requiredSuites)),
                   (''promotionBlocked'', JBool (\<not> allPassed)),
                   (''blockReason'', if allPassed then JNull else JStr (u ''required suites failed: '' @ failed))]))
                (if allPassed then [] else [u ''5-suite replay not fully passed. Missing/failed: '' @ failed])))"

section \<open>Projection\<close>

definition validShapes :: "string list" where
  "validShapes = [''answer-pattern'', ''compact'', ''scenario'', ''full'']"

definition budgetToShape :: "(string \<times> string) list" where
  "budgetToShape = [(''interactive'', ''answer-pattern''), (''code-review'', ''compact''), (''offline-audit'', ''full'')]"

text \<open>
  \<open>budgetToShape[context?.budget]\<close> is a property read of an ordinary object and finds the names of
  \<open>Object.prototype\<close> too; \<open>native\<close> gives the text of what they hold.  \<open>Inl\<close> is such an inherited member, which
  is no shape and not JSON: its place in the details stays empty.
\<close>

definition recommended_shape :: "jstring \<Rightarrow> jstring + json" where
  "recommended_shape key =
     (case map_of (map (\<lambda>(k, s). (u k, s)) budgetToShape) key of
        Some s \<Rightarrow> Inr (js s)
      | None \<Rightarrow> if key \<in> u ` set prototype_names then Inl key else Inr (js ''answer-pattern''))"

definition consume_projection :: "(jstring \<Rightarrow> jstring) \<Rightarrow> json option \<Rightarrow> exn + json" where
  "consume_projection native context =
     (let requestedShape = or_else (get_opt context ''shape'') (Some (js ''answer-pattern''));
          shapes = JArr (map js validShapes)
      in if \<not> one_of requestedShape validShapes then
           ebind (prim_text requestedShape) (\<lambda>text.
             Inr (gate_answer ''projection'' (JBool False) (whole_score False)
               (jo [(''requestedShape'', the requestedShape), (''validShapes'', shapes)])
               [u ''Unknown projection shape: '' @ text]))
         else
           ebind (prim_text (get_opt context ''budget'')) (\<lambda>budget.
             let recommended = recommended_shape budget;
                 mismatch = (recommended \<noteq> Inr (the requestedShape));
                 recommended_text = (case recommended of Inl k \<Rightarrow> native k | Inr (JStr s) \<Rightarrow> s | Inr _ \<Rightarrow> []);
                 requested_text = (case requestedShape of Some (JStr s) \<Rightarrow> s | _ \<Rightarrow> [])
             in Inr (gate_answer ''projection'' (JBool True) (if mismatch then JNum (to_double (7 / 10)) else whole_score True)
                  (jo_opt [(''requestedShape'', requestedShape),
                           (''recommendedShape'', case recommended of Inl _ \<Rightarrow> None | Inr s \<Rightarrow> Some s),
                           (''shapeMismatch'', Some (JBool mismatch)), (''validShapes'', Some shapes)])
                  (if mismatch
                   then [u ''Shape '' @ [0x22] @ requested_text @ [0x22] @ u '' differs from recommended '' @ [0x22] @ recommended_text @
                         [0x22] @ u '' for budget profile '' @ [0x22] @ budget @ [0x22]]
                   else []))))"

section \<open>Quality\<close>

definition quality_check :: "string \<Rightarrow> bool \<Rightarrow> jstring \<Rightarrow> json" where
  "quality_check name passed detail = jo [(''check'', js name), (''passed'', JBool passed), (''detail'', JStr detail)]"

definition rejection_rate :: "bool \<Rightarrow> json option \<Rightarrow> json option \<Rightarrow> exn + number" where
  "rejection_rate primary advisors rejected =
     ebind (js_add (Some (nat_json (if primary then 1 else 0))) advisors) (\<lambda>a. ebind (js_add (Some a) rejected) (\<lambda>total.
     ebind (js_gt (Some total) (Some zero)) (\<lambda>positive.
       if positive then ebind (to_number rejected) (\<lambda>r. ebind (to_number (Some total)) (\<lambda>t. Inr (num_div r t)))
       else Inr (Fin 0))))"

definition consume_quality :: "json option \<Rightarrow> exn + json" where
  "consume_quality context =
     (let primary = truthy (get_opt context ''primary'');
          len = (\<lambda>k. get_opt (or_else (get_opt context k) (Some (JArr []))) ''length'');
          conflict_free = strict_eq (len ''conflicts'') (Some (nat_json 0))
      in ebind (if conflict_free then Inr (u ''no conflicts'') else emap (\<lambda>t. t @ u '' conflict(s)'') (prim_text (len ''conflicts'')))
           (\<lambda>conflict_text.
         ebind (if primary then Inr True else js_gt (len ''advisors'') (Some zero)) (\<lambda>accepted.
         ebind (rejection_rate primary (len ''advisors'') (len ''rejected'')) (\<lambda>rate.
           let passes = [primary, conflict_free, accepted, num_le rate (Fin (1 / 2))];
               details = [u (if primary then ''primary domain selected'' else ''no primary domain''), conflict_text,
                          u (if accepted then ''domains accepted'' else ''no domains accepted''),
                          u ''rejection rate: '' @ to_fixed0 (num_mul rate (Fin 100)) @ u ''%''];
               names = [''primary_selected'', ''no_conflicts'', ''has_accepted'', ''acceptable_rejection_rate''];
               passed = length (filter id passes)
           in Inr (gate_answer ''quality'' (JBool (passed = 4)) (JNum (Fin (of_nat passed / 4)))
                (jo [(''checks'', JArr (map2 (\<lambda>n (p, d). quality_check n p d) names (zip passes details))),
                     (''passedChecks'', nat_json passed), (''totalChecks'', nat_json 4)])
                (map snd (filter (\<lambda>(p, d). \<not> p) (zip passes details))))))))"

section \<open>Reports\<close>

lemma gate_answer_get [simp]:
  "get_opt (Some (gate_answer g p s d es)) ''gate'' = Some (js g)"
  "get_opt (Some (gate_answer g p s d es)) ''pass'' = Some p"
  "get_opt (Some (gate_answer g p s d es)) ''score'' = Some s"
  "get_opt (Some (gate_answer g p s d es)) ''details'' = Some d"
  "get_opt (Some (gate_answer g p s d es)) ''errors'' = Some (JArr (map JStr es))"
  by (simp_all add: gate_answer_def jo_def)

lemma member_of_jo [simp]: "get_opt (Some (jo ps)) k = map_of ps k"
  using map_of_ho [of "\<lambda>v. v" ps] by (simp add: jo_def option.map_ident)

lemma or_else_fixed: "or_else a (Some (js s)) = Some (js t) \<longleftrightarrow> (if truthy a then a = Some (js t) else s = t)"
  by (auto simp: or_else_def js_def)

section \<open>Promotion: what a pass proves\<close>

text \<open>The levels from the third on are the last three of the list.\<close>

lemma review_high:
  "\<not> index_of v reviewLevels < 2 \<longleftrightarrow>
     v \<in> Some ` js ` {''human_reviewed'', ''eval_candidate'', ''trusted_runtime''}"
  by (auto simp: reviewLevels_def js_def Let_def)

lemma falsy_member: "\<not> truthy v \<Longrightarrow> k \<noteq> ''length'' \<Longrightarrow> get_opt v k = None"
  by (auto simp: truthy_def get_opt_def get_prop_def split: option.splits json.splits)

lemma suite_passed_or_else:
  "s \<in> set requiredSuites \<Longrightarrow>
     suite_passed (or_else v (Some (JObj []))) s \<longleftrightarrow> get_opt (get_opt v s) ''pass'' = Some (JBool True)"
  by (auto simp: suite_passed_def or_else_def requiredSuites_def falsy_member)

theorem promotion_pass_iff:
  "(\<exists>r. consume_promotion context = Inr r \<and> get_opt (Some r) ''pass'' = Some (JBool True)) \<longleftrightarrow>
     (if truthy (get_opt context ''source'') then get_opt context ''source'' else get_opt context ''evidenceSource'')
       \<noteq> Some (js ''sealed-derived'') \<and>
     get_opt context ''reviewStatus'' \<in> Some ` js ` {''human_reviewed'', ''eval_candidate'', ''trusted_runtime''} \<and>
     set requiredSuites \<subseteq>
       {s. get_opt (get_opt (get_opt context ''replayResults'') s) ''pass'' = Some (JBool True)}"
proof -
  let ?source = "or_else (get_opt context ''source'') (or_else (get_opt context ''evidenceSource'') (Some (js ''unknown'')))"
  let ?status = "or_else (get_opt context ''reviewStatus'') (Some (js ''draft_generated''))"
  let ?replays = "or_else (get_opt context ''replayResults'') (Some (JObj []))"
  have 1: "?source = Some (js ''sealed-derived'') \<longleftrightarrow>
      (if truthy (get_opt context ''source'') then get_opt context ''source'' else get_opt context ''evidenceSource'')
        = Some (js ''sealed-derived'')"
    by (auto simp: or_else_def js_def truthy_def u_def)
  have 2: "\<not> index_of ?status reviewLevels < 2 \<longleftrightarrow>
      get_opt context ''reviewStatus'' \<in> Some ` js ` {''human_reviewed'', ''eval_candidate'', ''trusted_runtime''}"
    unfolding review_high by (auto simp: or_else_def js_def truthy_def u_def)
  have 3: "list_all (suite_passed ?replays) requiredSuites \<longleftrightarrow>
      set requiredSuites \<subseteq> {s. get_opt (get_opt (get_opt context ''replayResults'') s) ''pass'' = Some (JBool True)}"
    using suite_passed_or_else by (auto simp: list_all_iff subset_iff)
  have "(\<exists>r. consume_promotion context = Inr r \<and> get_opt (Some r) ''pass'' = Some (JBool True)) \<longleftrightarrow>
      ?source \<noteq> Some (js ''sealed-derived'') \<and> \<not> index_of ?status reviewLevels < 2 \<and>
      list_all (suite_passed ?replays) requiredSuites"
    by (auto simp: consume_promotion_def Let_def ebind_Inr_conv)
  then show ?thesis unfolding 1 2 3 by simp
qed

section \<open>Composition stays within the hardmax\<close>

definition domain_ids :: "json option \<Rightarrow> json option list" where
  "domain_ids v = (case v of Some (JArr es) \<Rightarrow> map (\<lambda>e. get_opt (Some e) ''domain_id'') es | _ \<Rightarrow> [])"

lemma domain_ids_entries [simp]:
  "domain_ids (Some (JArr (map (advisor_entry h) xs))) = map Some xs"
  "domain_ids (Some (JArr (map (rejected_entry h) xs))) = map Some xs"
  "domain_ids (Some (JArr [])) = []"
  by (simp_all add: domain_ids_def advisor_entry_def rejected_entry_def)

lemma advisor_bound:
  assumes "0 < n" "n \<le> 2 ^ 53"
  shows "slice_bound (num_max (Fin 0) (num_sub (Fin (of_nat n)) (Fin 1))) m = min m (n - 1)"
proof -
  have "to_double (of_int (int n - 1)) = Fin (of_int (int n - 1))"
    using assms by (intro to_double_int) auto
  then have "num_sub (Fin (of_nat n)) (Fin 1) = Fin (of_nat (n - 1))"
    using assms by (simp add: num_sub_def of_nat_diff)
  then show ?thesis by (auto simp: num_max_def num_lt_def num_eq_def slice_bound_def)
qed

theorem compose_partition:
  assumes "consume_compose runner context = Inr r" "truthy (get_opt context ''primary'')"
    and "or_else (get_opt context ''sourceHardmax'') (Some (nat_json 3)) = Some (JNum (Fin (of_nat n)))" "0 < n" "n \<le> 2 ^ 53"
    and "or_else (get_opt context ''advisors'') (Some (JArr [])) = Some (JArr xs)"
  shows "\<exists>d. get_opt (Some r) ''pass'' = Some (JBool True) \<and> get_opt (Some r) ''details'' = Some d \<and>
     domain_ids (get_opt (Some d) ''advisors'') = map Some (take (n - 1) xs) \<and>
     domain_ids (get_opt (Some d) ''rejected_advisors'') = map Some (drop (n - 1) xs) \<and>
     get_opt (Some d) ''sources_used'' = Some (nat_json (1 + min (length xs) (n - 1)))"
proof -
  have "or_else (get_opt context ''primary'') (Some JNull) = get_opt context ''primary''"
    "get_opt context ''primary'' \<noteq> None"
    using assms(2) by (auto simp: or_else_def truthy_def split: option.splits)
  then show ?thesis
    using assms(1,2) unfolding consume_compose_def Let_def assms(3,6)
    by (auto simp: advisor_bound [OF assms(4,5)] ebind_Inr_conv min_def)
qed

section \<open>Quality: one decision from three counts\<close>

lemma half_rate:
  assumes "0 < t" "t \<le> 2 ^ 52"
  shows "num_le (to_double (of_nat r / of_nat t)) (Fin (1 / 2)) \<longleftrightarrow> 2 * r \<le> t"
proof
  have half: "is_double (1 / 2)" using is_double_dyadic [of 1 1] by simp
  show "num_le (to_double (of_nat r / of_nat t)) (Fin (1 / 2))" if "2 * r \<le> t"
  proof (rule to_double_le [OF half])
    have "(2 * of_nat r :: rat) \<le> of_nat t" using of_nat_mono [OF that, where 'a = rat] by simp
    then show "of_nat r / of_nat t \<le> (1 / 2 :: rat)" using assms by (simp add: divide_le_eq)
  qed
  define d :: rat where "d = of_int (2 ^ 52 + 1) / 2 ^ 53"
  have d: "is_double d" unfolding d_def by (rule is_double_dyadic) simp_all
  show "2 * r \<le> t" if le: "num_le (to_double (of_nat r / of_nat t)) (Fin (1 / 2))"
  proof (rule ccontr)
    assume "\<not> 2 * r \<le> t"
    then have "t + 1 \<le> 2 * r" by simp
    then have r: "of_nat t + 1 \<le> (2 * of_nat r :: rat)" using of_nat_mono [of "t + 1" "2 * r", where 'a = rat] by simp
    have t: "of_nat t \<le> (2 ^ 52 :: rat)" using of_nat_mono [OF assms(2), where 'a = rat] by simp
    have "d * of_nat t \<le> of_nat r"
    proof -
      have d': "d = 1 / 2 + 1 / 2 ^ 53" by (simp add: d_def)
      have "d * of_nat t = of_nat t / 2 + of_nat t / 2 ^ 53" unfolding d' distrib_right by simp
      also have "of_nat t / (2 ^ 53 :: rat) \<le> 1 / 2" using t by simp
      finally show ?thesis using r by linarith
    qed
    then have "d \<le> of_nat r / of_nat t" using assms(1) by (simp add: pos_le_divide_eq)
    then have "num_le (Fin d) (to_double (of_nat r / of_nat t))" by (rule to_double_ge [OF d])
    then have "num_le (Fin d) (Fin (1 / 2))"
      using le by (cases "to_double (of_nat r / of_nat t)") (auto simp: num_lt_def num_eq_def)
    then show False by (simp add: d_def)
  qed
qed

lemma num_div_nat:
  "0 < t \<Longrightarrow> num_div (Fin (of_nat r)) (Fin (of_nat t)) = to_double (of_nat r / of_nat t)"
  by (auto simp: num_div_def num_negative_def signed_def)

lemma rejection_rate_nat:
  assumes "1 + a + r \<le> 2 ^ 52"
  shows "\<exists>x. rejection_rate p (Some (JNum (num_of_nat a))) (Some (JNum (num_of_nat r))) = Inr x \<and>
     (p \<longrightarrow> (num_le x (Fin (1 / 2)) \<longleftrightarrow> r \<le> 1 + a))"
proof -
  let ?t = "(if p then 1 else 0) + a + r"
  have n: "num_of_nat a = Fin (of_nat a)" "num_of_nat r = Fin (of_nat r)" "num_of_nat ?t = Fin (of_nat ?t)"
    using assms num_of_nat_small [of a] num_of_nat_small [of r] num_of_nat_small [of ?t] by auto
  have s: "num_add (num_add (num_of_nat (if p then 1 else 0)) (num_of_nat a)) (num_of_nat r) = num_of_nat ?t"
    using assms by (simp add: num_add_nat)
  have pos: "js_gt (Some (JNum (num_of_nat ?t))) (Some zero) = Inr (0 < ?t)"
    unfolding n by (auto simp: zero_def num_lt_def num_eq_def)
  have rate: "rejection_rate p (Some (JNum (num_of_nat a))) (Some (JNum (num_of_nat r))) =
      Inr (if 0 < ?t then to_double (of_nat r / of_nat ?t) else Fin 0)"
    unfolding rejection_rate_def nat_json_def js_add_num ebind_simps s pos to_number_num
    unfolding n(2,3) using num_div_nat [of ?t r] by simp
  show ?thesis unfolding rate using half_rate [of ?t r] assms by (auto simp: add.assoc)
qed

lemma num_of_nat_zero: "num_eq (num_of_nat n) (num_of_nat 0) \<longleftrightarrow> n = 0"
proof
  assume z: "num_eq (num_of_nat n) (num_of_nat 0)"
  show "n = 0"
  proof (rule ccontr)
    assume "n \<noteq> 0"
    then have "num_le (Fin 1) (num_of_nat n)"
      unfolding num_of_nat_def using is_double_of_int [of 1] by (intro to_double_ge) simp_all
    then show False
      using z num_of_nat_small [of 0] by (cases "num_of_nat n") (auto simp: num_eq_def)
  qed
qed (use num_of_nat_small [of 0] in \<open>simp add: num_eq_def\<close>)

theorem quality_pass:
  assumes "get_opt context ''advisors'' = Some (JArr as)" "get_opt context ''rejected'' = Some (JArr rs)"
    and "get_opt context ''conflicts'' = Some (JArr cs)" and "1 + length as + length rs \<le> 2 ^ 52"
  shows "\<exists>r. consume_quality context = Inr r \<and>
     (get_opt (Some r) ''pass'' = Some (JBool True) \<longleftrightarrow>
        truthy (get_opt context ''primary'') \<and> cs = [] \<and> length rs \<le> 1 + length as)"
proof -
  let ?p = "truthy (get_opt context ''primary'')"
  have len: "get_opt (or_else (get_opt context k) (Some (JArr []))) ''length'' = Some (JNum (num_of_nat (length xs)))"
    if "get_opt context k = Some (JArr xs)" for k xs
    unfolding that by (simp add: or_else_def truthy_def get_opt_def [of "Some (JArr xs)"] get_prop_def)
  obtain x where x: "rejection_rate ?p (Some (JNum (num_of_nat (length as)))) (Some (JNum (num_of_nat (length rs)))) = Inr x"
    "?p \<longrightarrow> (num_le x (Fin (1 / 2)) \<longleftrightarrow> length rs \<le> 1 + length as)"
    using rejection_rate_nat [OF assms(4), of ?p] by auto
  have free: "strict_eq (Some (JNum (num_of_nat (length cs)))) (Some (nat_json 0)) \<longleftrightarrow> cs = []"
    by (simp add: nat_json_def num_of_nat_zero)
  have printed: "\<exists>t. prim_text (Some (JNum n)) = Inr t" for n by (simp add: prim_text_def)
  have gt: "\<exists>b. js_gt (Some (JNum n)) (Some zero) = Inr b" for n by (simp add: zero_def)
  obtain t where t: "prim_text (Some (JNum (num_of_nat (length cs)))) = Inr t" using printed by blast
  obtain b where b: "js_gt (Some (JNum (num_of_nat (length as)))) (Some zero) = Inr b" using gt by blast
  show ?thesis
    using x(2) unfolding consume_quality_def Let_def len [OF assms(1)] len [OF assms(2)] len [OF assms(3)] free t b x(1)
    by (cases ?p; cases "cs = []"; cases "num_le x (Fin (1 / 2))") auto
qed

section \<open>A composition\<close>

definition d_advisors :: "json list" where
  "d_advisors = [js ''b'', js ''c'', js ''d'']"

definition d_compose :: "json option" where
  "d_compose = Some (jo [(''primary'', js ''a''), (''advisors'', JArr d_advisors)])"

lemma d_compose_input:
  "truthy (get_opt d_compose ''primary'')"
  "or_else (get_opt d_compose ''sourceHardmax'') (Some (nat_json 3)) = Some (JNum (Fin (of_nat 3)))"
  "0 < (3 :: nat)" "(3 :: nat) \<le> 2 ^ 53"
  "or_else (get_opt d_compose ''advisors'') (Some (JArr [])) = Some (JArr d_advisors)"
  by (simp_all add: d_compose_def or_else_def truthy_def js_def u_def nat_json_def num_of_nat_small)

lemma d_compose_runs: "\<exists>r. consume_compose (createConsumptionRunner None) d_compose = Inr r"
proof -
  have "or_else (get_opt d_compose ''primary'') (Some JNull) = Some (js ''a'')"
    by (simp add: d_compose_def or_else_def truthy_def js_def u_def)
  moreover have "detectConflicts p xs (ru_policies (createConsumptionRunner None)) = Inr []" for p xs
    by (simp add: detectConflicts_def createConsumptionRunner_def truthy_def)
  ultimately show ?thesis
    unfolding consume_compose_def Let_def d_compose_input(2,5)
    by (simp add: prim_text_def js_def truthy_def u_def)
qed

end
