(* ===== verification/PlanData.thy ===== *)
theory PlanData
  imports PlanGraph ResultShape
begin

text \<open>
  What the plan checks of \<open>packages/kdna-core/src/public-contract/r2-plan.js\<close> read: members of a payload that
  the schema has accepted, and contracts and values as the datatypes of \<open>ResultShape\<close>.

  A member read by \<open>text_at\<close>, \<open>items_at\<close> or \<open>part\<close> has that type by the schema (\<open>generated-contract.json\<close>), which
  \<open>Plan\<close>, \<open>PlanNode\<close>, \<open>ConditionalPolicy\<close>, \<open>MethodUnit\<close> and \<open>ResultContract\<close> close; an optional array that is
  absent reads as empty, as the code's \<open>?? []\<close> does.
\<close>

section \<open>Members\<close>

definition fld :: "json \<Rightarrow> string \<Rightarrow> json option" where
  "fld v k = get_opt (Some v) k"

definition part :: "json \<Rightarrow> string \<Rightarrow> json" where
  "part v k = (case fld v k of Some x \<Rightarrow> x | None \<Rightarrow> JNull)"

definition text_at :: "json \<Rightarrow> string \<Rightarrow> jstring" where
  "text_at v k = (case fld v k of Some (JStr s) \<Rightarrow> s | _ \<Rightarrow> [])"

definition items_at :: "json \<Rightarrow> string \<Rightarrow> json list" where
  "items_at v k = (case fld v k of Some (JArr xs) \<Rightarrow> xs | _ \<Rightarrow> [])"

definition is_kind :: "json \<Rightarrow> string \<Rightarrow> bool" where
  "is_kind v k \<longleftrightarrow> fld v ''kind'' = Some (js k)"

definition path_of :: "json \<Rightarrow> string \<Rightarrow> jstring list" where
  "path_of v k = map (\<lambda>x. case x of JStr s \<Rightarrow> s | _ \<Rightarrow> []) (items_at v k)"

lemma map_of_smaller: "map_of ps k = Some v \<Longrightarrow> size v < size (JObj ps)"
  by (induction ps) (auto split: if_splits)

lemma fld_smaller: "fld v k = Some x \<Longrightarrow> size x < size v \<or> k = ''length''"
  by (cases v) (auto simp: fld_def get_opt_def get_prop_def split: if_splits dest: map_of_smaller)

lemma part_smaller: "fld v j = Some (JStr s) \<Longrightarrow> k \<noteq> ''length'' \<Longrightarrow> j \<noteq> ''length'' \<Longrightarrow> size (part v k) < size v"
  using fld_smaller [of v k] fld_smaller [of v j] by (auto simp: part_def split: option.splits)

lemma item_smaller: "x \<in> set xs \<Longrightarrow> size x < size (JArr xs)"
  by (induction xs) auto

lemma items_at_smaller:
  assumes "x \<in> set (items_at v k)" "k \<noteq> ''length''"
  shows "size x < size v"
proof -
  obtain xs where xs: "fld v k = Some (JArr xs)" "x \<in> set xs"
    using assms(1) by (auto simp: items_at_def split: option.splits json.splits dest: sym)
  from fld_smaller [OF xs(1)] item_smaller [OF xs(2)] assms(2) show ?thesis by linarith
qed

section \<open>Shapes, contracts and values of JSON data\<close>

definition int_of :: "json option \<Rightarrow> int" where
  "int_of v = (case v of Some (JNum (Fin q)) \<Rightarrow> \<lfloor>q\<rfloor> | _ \<Rightarrow> 0)"

definition limit_of :: "json option \<Rightarrow> int option" where
  "limit_of v = (if v = Some JNull then None else Some (int_of v))"

definition scalar_of :: "jstring \<Rightarrow> scalar_kind" where
  "scalar_of s =
     (if s = u ''text'' then TextKind else if s = u ''number'' then NumberKind
      else if s = u ''boolean'' then BooleanKind else NullKind)"

lemma part_not_greater: "k \<noteq> ''length'' \<Longrightarrow> size (part v k) \<le> size v"
  using fld_smaller [of v k] by (auto simp: part_def split: option.splits)

function shape_of :: "json \<Rightarrow> result_shape" where
  "shape_of v =
     (if is_kind v ''list'' then ListShape (shape_of (part v ''item_shape'')) (int_of (fld v ''minimum'')) (limit_of (fld v ''maximum''))
      else if is_kind v ''record''
      then RecordShape (map (\<lambda>f. (text_at f ''name'', fld f ''required'' = Some (JBool True), shape_of (part f ''shape''))) (items_at v ''fields''))
      else ScalarShape (scalar_of (text_at v ''scalar_type'')))"
  by pat_completeness auto
termination
proof (relation "measure size", rule wf_measure)
  fix v assume "is_kind v ''list''"
  then have "fld v ''kind'' = Some (JStr (u ''list''))" by (simp add: is_kind_def js_def)
  then have "size (part v ''item_shape'') < size v" by (rule part_smaller) simp_all
  then show "(part v ''item_shape'', v) \<in> measure size" by simp
next
  fix v x assume "x \<in> set (items_at v ''fields'')"
  then have "size x < size v" by (rule items_at_smaller) simp
  moreover have "size (part x ''shape'') \<le> size x" by (rule part_not_greater) simp
  ultimately show "(part x ''shape'', v) \<in> measure size" by simp
qed

declare shape_of.simps [simp del]

definition contract_of :: "json \<Rightarrow> contract" where
  "contract_of v =
     (if is_kind v ''emission_list'' then Emissions v
      else Results \<lparr>pc_id = text_at v ''id'', pc_shape = shape_of (part v ''shape''), pc_minimum = int_of (fld v ''minimum''),
                    pc_maximum = limit_of (fld v ''maximum''), pc_allowed = Some (items_at v ''allowed_result_types'')\<rparr>)"

function value_of :: "json \<Rightarrow> semantic_value" where
  "value_of v =
     (if is_kind v ''text'' then ValueText (text_at v ''value'')
      else if is_kind v ''number'' then ValueNumber (case fld v ''value'' of Some (JNum n) \<Rightarrow> n | _ \<Rightarrow> NaN)
      else if is_kind v ''boolean'' then ValueBoolean (fld v ''value'' = Some (JBool True))
      else if is_kind v ''list'' then ValueList (map value_of (items_at v ''items''))
      else if is_kind v ''record'' then ValueRecord (map (\<lambda>f. (text_at f ''name'', value_of (part f ''value''))) (items_at v ''fields''))
      else ValueNull)"
  by pat_completeness auto
termination
proof (relation "measure size", rule wf_measure)
  fix v x assume "x \<in> set (items_at v ''items'')"
  then show "(x, v) \<in> measure size" by (simp add: items_at_smaller)
next
  fix v x assume "x \<in> set (items_at v ''fields'')"
  then have "size x < size v" by (rule items_at_smaller) simp
  moreover have "size (part x ''value'') \<le> size x" by (rule part_not_greater) simp
  ultimately show "(part x ''value'', v) \<in> measure size" by simp
qed

declare value_of.simps [simp del]

text \<open>Reading a shape undoes writing it.\<close>

lemma kind_scalar [simp]: "scalar_of (u (kind_name k)) = k"
  by (cases k) (simp_all add: kind_name_def scalar_of_def)

lemma limits_of [simp]: "int_of (Some (int_json m)) = m" "limit_of (Some (limit_json h)) = h"
  by (auto simp: int_of_def limit_of_def int_json_def limit_json_def split: option.splits)

lemma jo_reads [simp]: "fld (jo ps) k = map_of ps k"
  using map_of_ho [of "\<lambda>v. v" ps] by (simp add: fld_def jo_def option.map_ident)

theorem shape_of_json: "shape_of (shape_json s) = s"
proof (induction s)
  case (RecordShape fs)
  have "shape_of (shape_json s) = s" if "(n, r, s) \<in> set fs" for n r s
    using RecordShape.IH [OF that, of "(r, s)" s] by simp
  then have "map (\<lambda>f. (text_at f ''name'', fld f ''required'' = Some (JBool True), shape_of (part f ''shape'')))
      (map (\<lambda>(n, r, s). jo [(''name'', JStr n), (''required'', JBool r), (''shape'', shape_json s)]) fs) = fs"
    by (auto simp: text_at_def part_def split: prod.splits intro!: map_idI)
  then show ?case
    by (subst shape_of.simps) (simp add: is_kind_def items_at_def js_def)
next
  case (ScalarShape k)
  then show ?case by (subst shape_of.simps) (simp add: is_kind_def js_def text_at_def)
next
  case (ListShape s lo hi)
  then show ?case by (subst shape_of.simps) (simp add: is_kind_def js_def part_def)
qed

section \<open>Loops that may refuse\<close>

fun foldE :: "('a \<Rightarrow> 's \<Rightarrow> exn + 's) \<Rightarrow> 'a list \<Rightarrow> 's \<Rightarrow> exn + 's" where
  "foldE f [] s = Inr s"
| "foldE f (x # xs) s = ebind (f x s) (foldE f xs)"

lemma foldE_invariant:
  "foldE f xs s = Inr s' \<Longrightarrow> P s \<Longrightarrow> (\<And>x s t. x \<in> set xs \<Longrightarrow> f x s = Inr t \<Longrightarrow> P s \<Longrightarrow> P t) \<Longrightarrow> P s'"
  by (induction xs arbitrary: s) (auto simp: ebind_Inr_conv)

text \<open>What one step establishes and every later step keeps holds at the end.\<close>

lemma foldE_establishes:
  assumes "foldE f xs s = Inr s'" "P s" "x \<in> set xs"
    and keep: "\<And>y s t. y \<in> set xs \<Longrightarrow> f y s = Inr t \<Longrightarrow> P s \<Longrightarrow> P t \<and> (\<forall>z. Q z s \<longrightarrow> Q z t)"
    and establish: "\<And>y s t. y \<in> set xs \<Longrightarrow> f y s = Inr t \<Longrightarrow> P s \<Longrightarrow> Q y t"
  shows "Q x s'"
  using assms(1-3) keep establish
proof (induction xs arbitrary: s)
  case (Cons y ys)
  from Cons.prems(1) obtain t where t: "f y s = Inr t" "foldE f ys t = Inr s'" by (auto simp: ebind_Inr_conv)
  have p: "P t" using Cons.prems(2,4) t(1) by auto
  show ?case
  proof (cases "x = y")
    case True
    then have q: "Q x t" using Cons.prems(2,5) t(1) by auto
    have "P s' \<and> Q x s'"
      by (rule foldE_invariant [OF t(2), of "\<lambda>s. P s \<and> Q x s"]) (use p q Cons.prems(4) in auto)
    then show ?thesis by simp
  next
    case False
    then show ?thesis using Cons.IH [OF t(2) p] Cons.prems(3-5) by auto
  qed
qed simp

end
