(* ===== verification/PlanFlow.thy ===== *)
theory PlanFlow
  imports PlanData
begin

text \<open>
  The data flow of one plan (\<open>checkPlans\<close> in \<open>packages/kdna-core/src/public-contract/r2-plan.js\<close>, from the ports
  of the nodes to the feedback loops): which ports a node has, what an endpoint refers to, the bindings and links
  that supply the inputs, and the data edges inside one round.

  The closure variables of a plan are the record \<open>plan_frame\<close> (fixed once the tree of nodes is accepted) and the
  record \<open>plan_work\<close> (what the loops update, with the registry and the call graph that all plans share).  The code
  reads a node through its registry record; the record of a plan node holds the node of the plan with that id, and
  \<open>pf_nodes\<close> is where it is looked up here.
\<close>

section \<open>State\<close>

text \<open>A port names its contract, or (the result of a feedback node) carries one that is resolved already.\<close>

datatype port_source = ByReference json | Resolved "contract option"

record port =
  po_name :: jstring
  po_contract :: port_source

text \<open>\<open>None\<close>: the ports of a judgment of another asset are unknown.\<close>

record node_ports =
  np_inputs :: "port list option"
  np_outputs :: "port list option"

datatype supply_source = FromBinding json | FromLink json | FromFeedback jstring jstring | FromPolicy json

type_synonym input_supply = "jstring list \<times> supply_source"

record plan_frame =
  pf_judgment :: json
  pf_plan :: json
  pf_nodes :: "(jstring \<times> json) list"
  pf_parents :: "(jstring \<times> jstring) list"
  pf_children :: graph

record plan_work =
  pw_registry :: registry
  pw_calls :: graph
  pw_ports :: "(jstring \<times> node_ports) list"
  pw_methods :: "(jstring \<times> jstring) list"
  pw_supplies :: "((jstring \<times> jstring) \<times> input_supply list) list"
  pw_graph :: graph

record endpoint =
  ep_node :: jstring
  ep_contract :: "contract option"
  ep_path :: "jstring list"
  ep_port :: jstring

abbreviation frame_id :: "plan_frame \<Rightarrow> jstring" where
  "frame_id F \<equiv> text_at (pf_judgment F) ''id''"

abbreviation node_target :: "jstring \<Rightarrow> json" where
  "node_target i \<equiv> js_ref ''plan_node'' (JStr i)"

definition node_view :: "json \<Rightarrow> plan_node" where
  "node_view node =
     \<lparr>pn_id = text_at node ''id'',
      pn_kind =
        if is_kind node ''sequence'' then SequenceNode (items_at node ''children'')
        else if is_kind node ''parallel'' then ParallelNode (items_at node ''children'')
        else if is_kind node ''feedback'' then FeedbackNode (part node ''body'')
        else if is_kind node ''branch'' then BranchNode (part node ''policy_ref'')
        else UseNode\<rparr>"

definition add_edge :: "jstring \<Rightarrow> jstring \<Rightarrow> graph \<Rightarrow> graph" where
  "add_edge source target g = map_at source (\<lambda>ts. if target \<in> set ts then ts else ts @ [target]) g"

definition found :: "registry \<Rightarrow> json \<Rightarrow> string \<Rightarrow> exn + registry_entry option" where
  "found r target kind = get_record r (Some target) (Some [kind])"

definition link_in :: "json \<Rightarrow> json \<Rightarrow> string \<Rightarrow> plan_work \<Rightarrow> exn + registry_entry option \<times> plan_work" where
  "link_in source target kind w =
     emap (\<lambda>(e, r). (e, w\<lparr>pw_registry := r\<rparr>)) (link_records source (Some target) True (Some [kind]) None (pw_registry w))"

definition linked :: "json \<Rightarrow> json \<Rightarrow> string \<Rightarrow> plan_work \<Rightarrow> exn + plan_work" where
  "linked source target kind w = emap snd (link_in source target kind w)"

definition find_named :: "string \<Rightarrow> jstring \<Rightarrow> json list \<Rightarrow> json option" where
  "find_named k name xs = List.find (\<lambda>x. text_at x k = name) xs"

section \<open>Contracts, ports and endpoints\<close>

definition contract_at :: "registry \<Rightarrow> json \<Rightarrow> bool \<Rightarrow> exn + contract option" where
  "contract_at r target allowSpecial =
     ebind (found r target ''contract'') (\<lambda>record.
       case record of
         None \<Rightarrow> Inr None
       | Some e \<Rightarrow>
           (case contract_of (re_value e) of
              Emissions v \<Rightarrow> if allowSpecial then Inr (Some (Emissions v)) else registry_fail
            | Results p \<Rightarrow> Inr (Some (Results p))))"

abbreviation normalContract :: "registry \<Rightarrow> json \<Rightarrow> exn + contract option" where
  "normalContract r target \<equiv> contract_at r target False"

definition port_of :: "json \<Rightarrow> port" where
  "port_of p = \<lparr>po_name = text_at p ''name'', po_contract = ByReference (part p ''contract_ref'')\<rparr>"

definition result_port :: "port_source \<Rightarrow> node_ports" where
  "result_port c = \<lparr>np_inputs = Some [], np_outputs = Some [\<lparr>po_name = u ''result'', po_contract = c\<rparr>]\<rparr>"

definition use_ports :: "plan_frame \<Rightarrow> json \<Rightarrow> plan_work \<Rightarrow> exn + node_ports \<times> plan_work" where
  "use_ports F node w =
     (let unit_ref = part node ''unit_ref'' in
      ebind (found (pw_registry w) unit_ref ''unit'') (\<lambda>unitRecord.
        case (unitRecord, find_named ''id'' (text_at unit_ref ''id'') (items_at (part (pf_judgment F) ''method'') ''units'')) of
          (Some e, Some unit) \<Rightarrow>
            if re_judgment e \<noteq> JStr (frame_id F) then registry_fail
            else ebind (linked (node_target (text_at node ''id'')) (re_target e) ''unit'' w) (\<lambda>w1.
                   Inr (\<lparr>np_inputs = Some (map port_of (items_at unit ''inputs'')),
                         np_outputs = Some (map port_of (items_at unit ''outputs''))\<rparr>,
                        w1\<lparr>pw_methods := pw_methods w1 @ [(text_at node ''id'', text_at unit ''method'')]\<rparr>))
        | _ \<Rightarrow> registry_fail))"

definition judgment_ports :: "plan_frame \<Rightarrow> json \<Rightarrow> plan_work \<Rightarrow> exn + node_ports \<times> plan_work" where
  "judgment_ports F node w =
     ebind (qualified_judgment (part node ''judgment_ref'')) (\<lambda>target.
     ebind (link_in (node_target (text_at node ''id'')) target ''judgment'' w) (\<lambda>(record, w1).
       case record of
         None \<Rightarrow> Inr (\<lparr>np_inputs = None, np_outputs = None\<rparr>, w1)
       | Some e \<Rightarrow>
           let towards = \<lambda>d. map port_of (filter (\<lambda>p. fld p ''direction'' = Some (js d)) (items_at (re_value e) ''ports''))
           in Inr (\<lparr>np_inputs = Some (towards ''input''), np_outputs = Some (towards ''output'')\<rparr>,
                   w1\<lparr>pw_calls := add_edge (frame_id F) (text_at (re_target e) ''id'') (pw_calls w1),
                      pw_methods := pw_methods w1 @
                        [(text_at node ''id'', text_at (part (part (re_value e) ''method'') ''method'') ''term'')]\<rparr>)))"

definition branch_ports :: "json \<Rightarrow> plan_work \<Rightarrow> exn + node_ports \<times> plan_work" where
  "branch_ports node w =
     ebind (found (pw_registry w) (part node ''policy_ref'') ''policy'') (\<lambda>policy.
       case policy of
         None \<Rightarrow> Inl (TypeErr (u ''Cannot read properties of null (reading value)''))
       | Some e \<Rightarrow> Inr (result_port (ByReference (part (re_value e) ''result_contract_ref'')), w))"

definition own_ports :: "plan_frame \<Rightarrow> json \<Rightarrow> plan_work \<Rightarrow> exn + node_ports \<times> plan_work" where
  "own_ports F node w =
     (if is_kind node ''use'' then use_ports F node w
      else if is_kind node ''judgment_use'' then judgment_ports F node w
      else if is_kind node ''branch'' then branch_ports node w
      else Inr (\<lparr>np_inputs = Some [], np_outputs = Some []\<rparr>, w))"

definition node_at :: "plan_frame \<Rightarrow> registry \<Rightarrow> json \<Rightarrow> exn + jstring" where
  "node_at F r target = localNode r (text_at (pf_plan F) ''id'') (map fst (pf_nodes F)) (Some target)"

text \<open>\<open>ports\<close> and \<open>endpoint\<close>; the first argument list is the set \<open>resolving\<close>.\<close>

function ports_at :: "plan_frame \<Rightarrow> jstring list \<Rightarrow> jstring \<Rightarrow> plan_work \<Rightarrow> exn + node_ports \<times> plan_work"
and endpoint_at :: "plan_frame \<Rightarrow> jstring list \<Rightarrow> json \<Rightarrow> bool \<Rightarrow> bool \<Rightarrow> plan_work \<Rightarrow> exn + endpoint \<times> plan_work" where
  "ports_at F resolving i w =
     (case map_of (pw_ports w) i of
        Some ps \<Rightarrow> Inr (ps, w)
      | None \<Rightarrow>
          if i \<in> set resolving then registry_fail
          else case map_of (pf_nodes F) i of
            None \<Rightarrow> registry_fail
          | Some node \<Rightarrow>
              ebind (if is_kind node ''feedback''
                     then ebind (endpoint_at F (i # resolving) (part node ''output'') False False w) (\<lambda>(output, w1).
                            Inr (result_port (Resolved (ep_contract output)), w1))
                     else own_ports F node w) (\<lambda>(ps, w1).
                Inr (ps, w1\<lparr>pw_ports := pw_ports w1 @ [(i, ps)]\<rparr>)))"
| "endpoint_at F resolving e as_input allowSpecial w =
     ebind (node_at F (pw_registry w) (part e ''node_ref'')) (\<lambda>i.
     ebind (ports_at F resolving i w) (\<lambda>(ps, w1).
       case (if as_input then np_inputs ps else np_outputs ps) of
         None \<Rightarrow> Inr (\<lparr>ep_node = i, ep_contract = None, ep_path = path_of e ''field_path'', ep_port = text_at e ''port''\<rparr>, w1)
       | Some list \<Rightarrow>
           (case List.find (\<lambda>p. po_name p = text_at e ''port'') list of
              None \<Rightarrow> registry_fail
            | Some p \<Rightarrow>
                ebind (case po_contract p of
                         Resolved c \<Rightarrow> Inr c
                       | ByReference t \<Rightarrow> contract_at (pw_registry w1) t allowSpecial) (\<lambda>whole.
                ebind (projected whole (path_of e ''field_path'')) (\<lambda>c.
                  Inr (\<lparr>ep_node = i, ep_contract = c, ep_path = path_of e ''field_path'', ep_port = text_at e ''port''\<rparr>, w1))))))"
  by pat_completeness auto
termination
proof (relation "measures
    [case_sum (\<lambda>(F, resolving, i, w). card (fst ` set (pf_nodes F) - set resolving))
              (\<lambda>(F, resolving, e, a, b, w). card (fst ` set (pf_nodes F) - set resolving)),
     case_sum (\<lambda>_. 0) (\<lambda>_. 1)]", goal_cases)
  case (2 F resolving i w node)
  then have "i \<in> fst ` set (pf_nodes F) - set resolving" by (auto dest: map_of_SomeD intro: rev_image_eqI)
  then have "fst ` set (pf_nodes F) - set (i # resolving) \<subset> fst ` set (pf_nodes F) - set resolving" by auto
  then show ?case by (simp add: psubset_card_mono)
qed simp_all

declare ports_at.simps [simp del] endpoint_at.simps [simp del]

section \<open>Position in the tree\<close>

declare ancestors.simps [code]

text \<open>The parents of a node, upwards; on an accepted tree the loop of \<open>ancestors\<close> ends (\<open>lineage_checked\<close>).\<close>

definition lineage :: "plan_frame \<Rightarrow> jstring \<Rightarrow> jstring list" where
  "lineage F i = (case ancestors (pf_parents F) i of Some ups \<Rightarrow> ups | None \<Rightarrow> [])"

definition lies_within :: "plan_frame \<Rightarrow> jstring \<Rightarrow> jstring \<Rightarrow> bool" where
  "lies_within F i parent \<longleftrightarrow> i = parent \<or> parent \<in> set (lineage F i)"

definition node_is :: "plan_frame \<Rightarrow> jstring \<Rightarrow> string \<Rightarrow> bool" where
  "node_is F i kind = (case map_of (pf_nodes F) i of None \<Rightarrow> False | Some node \<Rightarrow> is_kind node kind)"

definition round_of :: "plan_frame \<Rightarrow> jstring \<Rightarrow> jstring" where
  "round_of F i = join [0] (filter (\<lambda>a. node_is F a ''feedback'') (lineage F i))"

text \<open>The element before the first occurrence, and the position of the first occurrence.\<close>

fun preceding :: "'a \<Rightarrow> 'a list \<Rightarrow> 'a option" where
  "preceding x (a # b # xs) = (if b = x then Some a else preceding x (b # xs))"
| "preceding x xs = None"

fun position :: "'a \<Rightarrow> 'a list \<Rightarrow> nat" where
  "position x [] = 0"
| "position x (a # xs) = (if a = x then 0 else Suc (position x xs))"

definition ordered :: "plan_frame \<Rightarrow> jstring \<Rightarrow> jstring \<Rightarrow> exn + unit" where
  "ordered F source target =
     (let a = source # lineage F source; b = target # lineage F target in
      case List.find (\<lambda>i. i \<in> set b) a of
        None \<Rightarrow> Inr ()
      | Some common \<Rightarrow>
          if common = source \<or> common = target then Inr ()
          else case (preceding common a, preceding common b) of
            (Some left, Some right) \<Rightarrow>
              let cs = succs (pf_children F) common in
              if left = right then Inr ()
              else if node_is F common ''parallel'' \<or>
                      node_is F common ''sequence'' \<and> position left cs \<ge> position right cs
              then registry_fail else Inr ()
          | _ \<Rightarrow> Inr ())"

definition dataEdge :: "plan_frame \<Rightarrow> jstring \<Rightarrow> jstring \<Rightarrow> plan_work \<Rightarrow> exn + plan_work" where
  "dataEdge F source target w =
     (if source = target then registry_fail
      else ebind (ordered F source target) (\<lambda>_. Inr (w\<lparr>pw_graph := add_edge source target (pw_graph w)\<rparr>)))"

section \<open>What supplies an input\<close>

definition supplied :: "plan_work \<Rightarrow> jstring \<Rightarrow> jstring \<Rightarrow> input_supply list" where
  "supplied w i name = (case map_of (pw_supplies w) (i, name) of None \<Rightarrow> [] | Some s \<Rightarrow> s)"

definition add_supply :: "jstring \<Rightarrow> jstring \<Rightarrow> jstring list \<Rightarrow> supply_source \<Rightarrow> plan_work \<Rightarrow> plan_work" where
  "add_supply i name p source w = w\<lparr>pw_supplies := upsert (i, name) (supplied w i name @ [(p, source)]) (pw_supplies w)\<rparr>"

definition whole_port :: "jstring \<Rightarrow> jstring \<Rightarrow> json" where
  "whole_port i name = jo [(''node_ref'', node_target i), (''port'', JStr name), (''field_path'', JArr [])]"

definition binding_source :: "plan_frame \<Rightarrow> jstring \<Rightarrow> jstring \<Rightarrow> json \<Rightarrow> contract option \<Rightarrow> registry \<Rightarrow> exn + unit" where
  "binding_source F i name source target r =
     (if is_kind source ''literal''
      then (case target of None \<Rightarrow> Inr () | Some c \<Rightarrow> valueFor c (value_of (part source ''value'')))
      else if is_kind source ''input''
      then (case find_named ''name'' (text_at source ''name'') (items_at (pf_judgment F) ''inputs'') of
              None \<Rightarrow> registry_fail
            | Some input \<Rightarrow> ebind (normalContract r (part input ''contract_ref'')) (\<lambda>c. compatible c target))
      else
        ebind (node_at F r (part source ''feedback_ref'')) (\<lambda>f.
          case map_of (pf_nodes F) f of
            None \<Rightarrow> registry_fail
          | Some feedback \<Rightarrow>
              if \<not> is_kind feedback ''feedback'' \<or> \<not> lies_within F i (text_at (part feedback ''body'') ''id'') then registry_fail
              else case find_named ''name'' (text_at source ''slot'') (items_at feedback ''state'') of
                None \<Rightarrow> registry_fail
              | Some state \<Rightarrow>
                  ebind (normalContract r (part state ''contract_ref'')) (\<lambda>c. ebind (compatible c target) (\<lambda>_.
                    core_check (length (filter (\<lambda>update. text_at update ''state_slot'' = text_at state ''name'' \<and>
                        text_at (part (part update ''next_input'') ''node_ref'') ''id'' = i \<and>
                        text_at (part update ''next_input'') ''port'' = name \<and>
                        items_at (part update ''next_input'') ''field_path'' = []) (items_at feedback ''updates'')) = 1)))))"

definition check_binding :: "plan_frame \<Rightarrow> jstring \<Rightarrow> json \<Rightarrow> plan_work \<Rightarrow> exn + plan_work" where
  "check_binding F i binding w =
     ebind (endpoint_at F [] (whole_port i (text_at binding ''port'')) True False w) (\<lambda>(target, w1).
     ebind (binding_source F i (text_at binding ''port'') (part binding ''from'') (ep_contract target) (pw_registry w1)) (\<lambda>_.
       Inr (add_supply i (text_at binding ''port'') [] (FromBinding (part binding ''from'')) w1)))"

definition distinct_members :: "string \<Rightarrow> json list \<Rightarrow> bool" where
  "distinct_members k xs = distinct (map (\<lambda>x. text_at x k) xs)"

definition check_inputs :: "plan_frame \<Rightarrow> jstring \<times> json \<Rightarrow> plan_work \<Rightarrow> exn + plan_work" where
  "check_inputs F = (\<lambda>(i, node) w.
     ebind (ports_at F [] i w) (\<lambda>(ps, w1).
       if \<not> (is_kind node ''use'' \<or> is_kind node ''judgment_use'') then Inr w1
       else
         ebind (core_check (distinct_members ''port'' (items_at node ''input_bindings''))) (\<lambda>_.
         ebind (foldE (check_binding F i) (items_at node ''input_bindings'') w1) (\<lambda>w2.
         ebind (core_check (case np_inputs ps of None \<Rightarrow> True | Some list \<Rightarrow> distinct (map po_name list))) (\<lambda>_. Inr w2)))))"

section \<open>Links\<close>

definition check_flow :: "plan_frame \<Rightarrow> json \<Rightarrow> plan_work \<Rightarrow> exn + plan_work" where
  "check_flow F flow w =
     ebind (endpoint_at F [] (part flow ''from'') False False w) (\<lambda>(source, w1).
     ebind (endpoint_at F [] (part flow ''to'') True False w1) (\<lambda>(target, w2).
     ebind (core_check (round_of F (ep_node source) = round_of F (ep_node target))) (\<lambda>_.
     ebind (compatible (ep_contract source) (ep_contract target)) (\<lambda>_.
     ebind (dataEdge F (ep_node source) (ep_node target) w2) (\<lambda>w3.
       linked (node_target (ep_node target)) (node_target (ep_node source)) ''plan_node''
         (add_supply (ep_node target) (ep_port target) (ep_path target) (FromLink (part flow ''from'')) w3))))))"

section \<open>Feedback\<close>

definition check_slot :: "jstring \<Rightarrow> json \<Rightarrow> plan_work \<Rightarrow> exn + plan_work" where
  "check_slot i state w =
     ebind (normalContract (pw_registry w) (part state ''contract_ref'')) (\<lambda>c.
     ebind (case c of None \<Rightarrow> Inr () | Some c' \<Rightarrow> valueFor c' (value_of (part state ''initial''))) (\<lambda>_.
       linked (node_target i) (part state ''contract_ref'') ''contract'' w))"

text \<open>The initializers of a slot among the supplies of an input, and the check of one update.\<close>

definition from_state :: "supply_source \<Rightarrow> bool" where
  "from_state s = (case s of FromBinding b \<Rightarrow> is_kind b ''state'' | _ \<Rightarrow> False)"

definition initializes :: "jstring \<Rightarrow> jstring \<Rightarrow> jstring list \<Rightarrow> input_supply \<Rightarrow> bool" where
  "initializes i slot p s =
     (case s of
        (q, FromBinding b) \<Rightarrow>
          is_kind b ''state'' \<and> text_at (part b ''feedback_ref'') ''id'' = i \<and> text_at b ''slot'' = slot \<and> q = p
      | _ \<Rightarrow> False)"

definition check_update :: "plan_frame \<Rightarrow> jstring \<Rightarrow> json \<Rightarrow> json \<Rightarrow> plan_work \<Rightarrow> exn + plan_work" where
  "check_update F i node update w =
     ebind (endpoint_at F [] (part update ''from'') False False w) (\<lambda>(source, w1).
     ebind (endpoint_at F [] (part update ''next_input'') True False w1) (\<lambda>(target, w2).
       case find_named ''name'' (text_at update ''state_slot'') (items_at node ''state'') of
         None \<Rightarrow> registry_fail
       | Some state \<Rightarrow>
           let body = text_at (part node ''body'') ''id''; slot = text_at state ''name'' in
           ebind (core_check (lies_within F (ep_node source) body \<and> lies_within F (ep_node target) body)) (\<lambda>_.
           ebind (normalContract (pw_registry w2) (part state ''contract_ref'')) (\<lambda>c.
           ebind (compatible (ep_contract source) c) (\<lambda>_.
           ebind (compatible c (ep_contract target)) (\<lambda>_.
             let existing = supplied w2 (ep_node target) (ep_port target);
                 initializer = filter (initializes i slot (ep_path target)) existing
             in if length initializer > 1 \<or> (\<exists>s \<in> set existing. from_state (snd s)) \<and> length initializer \<noteq> 1
                then registry_fail
                else if initializer = []
                then Inr (add_supply (ep_node target) (ep_port target) (ep_path target) (FromFeedback i slot) w2)
                else Inr w2))))))"

definition check_feedback :: "plan_frame \<Rightarrow> jstring \<times> json \<Rightarrow> plan_work \<Rightarrow> exn + plan_work" where
  "check_feedback F = (\<lambda>(i, node) w.
     if \<not> is_kind node ''feedback'' then Inr w
     else
       let state = items_at node ''state''; updates = items_at node ''updates''; ending = part node ''termination'' in
       ebind (core_check (distinct_members ''name'' state \<and> distinct_members ''state_slot'' updates \<and>
                          state \<noteq> [] \<and> length state = length updates)) (\<lambda>_.
       ebind (if is_kind ending ''condition'' then linked (node_target i) (part ending ''when'') ''condition'' w else Inr w) (\<lambda>w1.
       ebind (endpoint_at F [] (part node ''output'') False False w1) (\<lambda>(output, w2).
       ebind (core_check (lies_within F (ep_node output) (text_at (part node ''body'') ''id''))) (\<lambda>_.
       ebind (foldE (check_slot i) state (w2\<lparr>pw_graph := add_edge (ep_node output) i (pw_graph w2)\<rparr>)) (\<lambda>w3.
         foldE (check_update F i node) updates w3))))))"

section \<open>One plan\<close>

record plan_context =
  cx_frame :: plan_frame
  cx_work :: plan_work

definition judgment_plan :: "json \<Rightarrow> json option" where
  "judgment_plan judgment = fld (part judgment ''method'') ''plan''"

definition plan_frame_of :: "json \<Rightarrow> json \<Rightarrow> plan_tree \<Rightarrow> plan_frame" where
  "plan_frame_of judgment plan t =
     \<lparr>pf_judgment = judgment, pf_plan = plan,
      pf_nodes = map (\<lambda>n. (text_at n ''id'', n)) (items_at plan ''nodes''),
      pf_parents = pt_parents t, pf_children = pt_children t\<rparr>"

definition first_work :: "json \<Rightarrow> plan_tree \<Rightarrow> graph \<Rightarrow> plan_work" where
  "first_work plan t calls =
     \<lparr>pw_registry = pt_registry t, pw_calls = calls, pw_ports = [], pw_methods = [], pw_supplies = [],
      pw_graph = map (\<lambda>n. (text_at n ''id'', [])) (items_at plan ''nodes'')\<rparr>"

definition check_plan :: "registry \<Rightarrow> graph \<Rightarrow> json \<Rightarrow> json \<Rightarrow> exn + plan_context" where
  "check_plan r calls judgment plan =
     ebind (plan_structure r (text_at judgment ''id'') (text_at plan ''id'') (part plan ''root'')
              (map node_view (items_at plan ''nodes''))) (\<lambda>(root_id, t).
       let F = plan_frame_of judgment plan t in
       ebind (foldE (check_inputs F) (pf_nodes F) (first_work plan t calls)) (\<lambda>w1.
       ebind (foldE (check_flow F) (items_at plan ''links'') w1) (\<lambda>w2.
       ebind (foldE (check_feedback F) (pf_nodes F) w2) (\<lambda>w3.
         Inr \<lparr>cx_frame = F, cx_work = w3\<rparr>))))"

end
