(* ===== verification/PlanPolicy.thy ===== *)
theory PlanPolicy
  imports PlanFlow
begin

text \<open>
  Conditional policies and the final checks of all plans of a payload (the rest of \<open>checkPlans\<close> in
  \<open>packages/kdna-core/src/public-contract/r2-plan.js\<close>): the candidates, entries and outcomes of a policy and its
  branch node, complete inputs and result bindings, the cycle checks, what contributes to a result, and the
  methods a judgment really uses.

  \<open>plan_set\<close> holds what all judgments share (the registry and the call graph) and the context of each judgment
  that has a plan; \<open>with_context\<close> runs a step on one context with the shared parts in place.
\<close>

section \<open>All plans\<close>

record plan_set =
  pl_registry :: registry
  pl_calls :: graph
  pl_contexts :: "(jstring \<times> plan_context) list"

definition opened :: "plan_set \<Rightarrow> plan_context \<Rightarrow> plan_work" where
  "opened ps cx = (cx_work cx)\<lparr>pw_registry := pl_registry ps, pw_calls := pl_calls ps\<rparr>"

definition with_context :: "jstring \<Rightarrow> (plan_frame \<Rightarrow> plan_work \<Rightarrow> exn + plan_work) \<Rightarrow> plan_set \<Rightarrow> exn + plan_set" where
  "with_context j f ps =
     (case map_of (pl_contexts ps) j of
        None \<Rightarrow> registry_fail
      | Some cx \<Rightarrow>
          emap (\<lambda>w. \<lparr>pl_registry = pw_registry w, pl_calls = pw_calls w,
                     pl_contexts = map_at j (\<lambda>c. c\<lparr>cx_work := w\<rparr>) (pl_contexts ps)\<rparr>)
            (f (cx_frame cx) (opened ps cx)))"

definition link_plans :: "json \<Rightarrow> json \<Rightarrow> string \<Rightarrow> plan_set \<Rightarrow> exn + plan_set" where
  "link_plans source target kind ps =
     emap (\<lambda>(e, r). ps\<lparr>pl_registry := r\<rparr>) (link_records source (Some target) True (Some [kind]) None (pl_registry ps))"

definition add_plan :: "json \<Rightarrow> plan_set \<Rightarrow> exn + plan_set" where
  "add_plan judgment ps =
     (case judgment_plan judgment of
        None \<Rightarrow> Inr ps
      | Some plan \<Rightarrow>
          emap (\<lambda>cx. \<lparr>pl_registry = pw_registry (cx_work cx), pl_calls = pw_calls (cx_work cx),
                      pl_contexts = upsert (text_at judgment ''id'') cx (pl_contexts ps)\<rparr>)
            (check_plan (pl_registry ps) (pl_calls ps) judgment plan))"

section \<open>Producers of a policy\<close>

datatype producer_key = TargetKey jstring | EndpointKey jstring jstring "jstring list"

definition producerKey :: "registry \<Rightarrow> json \<Rightarrow> exn + producer_key" where
  "producerKey r producer =
     (if truthy (fld producer ''kind'') then emap TargetKey (identity r producer)
      else emap (\<lambda>k. EndpointKey k (text_at producer ''port'') (path_of producer ''field_path''))
             (identity r (part producer ''node_ref'')))"

type_synonym producers = "(producer_key \<times> contract option) list"

definition check_candidate :: "json \<Rightarrow> plan_set \<Rightarrow> exn + plan_set" where
  "check_candidate candidate ps =
     ebind (link_plans (js_ref ''candidate'' (part candidate ''id'')) (part candidate ''contract_ref'') ''contract'' ps) (\<lambda>ps1.
     ebind (normalContract (pl_registry ps1) (part candidate ''contract_ref'')) (\<lambda>c.
     ebind (case c of None \<Rightarrow> Inr () | Some c' \<Rightarrow> valueFor c' (value_of (part candidate ''value''))) (\<lambda>_. Inr ps1)))"

definition branch_nodes :: "json \<Rightarrow> plan_frame \<Rightarrow> jstring list" where
  "branch_nodes policy F =
     map fst (filter (\<lambda>(i, n). is_kind n ''branch'' \<and> text_at (part n ''policy_ref'') ''id'' = text_at policy ''id'') (pf_nodes F))"

definition authored_merge :: "json \<Rightarrow> jstring option" where
  "authored_merge policy =
     (if is_kind (part policy ''combine'') ''authored''
      then Some (text_at (part (part policy ''combine'') ''merge_node_ref'') ''id'') else None)"

text \<open>An entry that emits a candidate, and one that emits an output of the plan.\<close>

definition candidate_entry :: "json \<Rightarrow> json \<Rightarrow> json \<Rightarrow> plan_set \<Rightarrow> exn + (json \<times> contract option) \<times> plan_set" where
  "candidate_entry policy etarget outcome ps =
     ebind (found (pl_registry ps) (part outcome ''candidate_ref'') ''candidate'') (\<lambda>candidate.
       case candidate of
         None \<Rightarrow> registry_fail
       | Some e \<Rightarrow>
           ebind (core_check (text_at (re_owner e) ''id'' = text_at policy ''id'' \<and>
                    text_at (re_target e) ''id'' \<in> set (map (\<lambda>c. text_at c ''id'') (items_at policy ''candidates'')))) (\<lambda>_.
           ebind (link_plans etarget (re_target e) ''candidate'' ps) (\<lambda>ps1.
           ebind (normalContract (pl_registry ps1) (part (re_value e) ''contract_ref'')) (\<lambda>c.
             Inr ((re_target e, c), ps1)))))"

definition branch_edge :: "plan_frame \<Rightarrow> jstring \<Rightarrow> jstring \<Rightarrow> plan_work \<Rightarrow> exn + plan_work" where
  "branch_edge F source branch w =
     ebind (core_check (round_of F source = round_of F branch)) (\<lambda>_. dataEdge F source branch w)"

definition emitted_output :: "json \<Rightarrow> json \<Rightarrow> json \<Rightarrow> plan_frame \<Rightarrow> plan_work \<Rightarrow> exn + contract option \<times> plan_work" where
  "emitted_output policy etarget outcome F w =
     ebind (endpoint_at F [] (part outcome ''from'') False False w) (\<lambda>(source, w1).
     ebind (normalContract (pw_registry w1) (part outcome ''contract_ref'')) (\<lambda>c.
     ebind (compatible (ep_contract source) c) (\<lambda>_.
     ebind (core_check (ep_node source \<notin> set (branch_nodes policy F) \<and> authored_merge policy \<noteq> Some (ep_node source))) (\<lambda>_.
     ebind (foldE (branch_edge F (ep_node source)) (branch_nodes policy F) w1) (\<lambda>w2.
     ebind (linked etarget (node_target (ep_node source)) ''plan_node'' w2) (\<lambda>w3.
     ebind (linked etarget (part outcome ''contract_ref'') ''contract'' w3) (\<lambda>w4. Inr (c, w4))))))))"

definition output_entry :: "json \<Rightarrow> json \<Rightarrow> json \<Rightarrow> json \<Rightarrow> plan_set \<Rightarrow> exn + (json \<times> contract option) \<times> plan_set" where
  "output_entry judgment policy etarget outcome ps =
     (case map_of (pl_contexts ps) (text_at judgment ''id'') of
        None \<Rightarrow> registry_fail
      | Some cx \<Rightarrow>
          emap (\<lambda>(c, w). ((part outcome ''from'', c),
              \<lparr>pl_registry = pw_registry w, pl_calls = pw_calls w,
               pl_contexts = map_at (text_at judgment ''id'') (\<lambda>cx. cx\<lparr>cx_work := w\<rparr>) (pl_contexts ps)\<rparr>))
            (emitted_output policy etarget outcome (cx_frame cx) (opened ps cx)))"

definition check_entry :: "json \<Rightarrow> json \<Rightarrow> json \<Rightarrow> plan_set \<times> producers \<Rightarrow> exn + plan_set \<times> producers" where
  "check_entry judgment policy entry = (\<lambda>(ps, known).
     let etarget = js_ref ''branch_entry'' (part entry ''id''); outcome = part entry ''then'' in
     ebind (link_plans (js_ref ''policy'' (part policy ''id'')) etarget ''branch_entry'' ps) (\<lambda>ps1.
     ebind (link_plans etarget (part entry ''when'') ''condition'' ps1) (\<lambda>ps2.
     ebind (if is_kind outcome ''candidate'' then candidate_entry policy etarget outcome ps2
            else output_entry judgment policy etarget outcome ps2) (\<lambda>((producer, c), ps3).
     ebind (producerKey (pl_registry ps3) producer) (\<lambda>k. Inr (ps3, upsert k c known))))))"

section \<open>The rules of a policy\<close>

definition priority_of :: "json \<Rightarrow> int option" where
  "priority_of entry =
     (case fld entry ''priority'' of
        Some (JNum n) \<Rightarrow> if is_integer n then map_option floor (num_value n) else None
      | _ \<Rightarrow> None)"

definition priorities_ok :: "json \<Rightarrow> bool" where
  "priorities_ok policy \<longleftrightarrow>
     (let ps = map priority_of (items_at policy ''entries'') in
      list_all (\<lambda>p. case p of None \<Rightarrow> False | Some n \<Rightarrow> safe_integer n \<and> 0 \<le> n) ps \<and> distinct ps)"

definition first_match :: "json \<Rightarrow> bool" where
  "first_match policy \<longleftrightarrow> fld policy ''match'' = Some (js ''first_match'')"

definition check_match :: "json \<Rightarrow> contract option \<Rightarrow> producers \<Rightarrow> exn + unit" where
  "check_match policy output known =
     ebind (if first_match policy
            then ebind (core_check (\<not> truthy (fld policy ''combine'') \<and> is_kind (part policy ''on_undetermined'') ''defer'')) (\<lambda>_.
                   each (\<lambda>(k, c). compatible c output) known)
            else core_check (truthy (fld policy ''combine''))) (\<lambda>_.
       if first_match policy \<or> fld (part policy ''combine'') ''order'' = Some (js ''priority'')
       then core_check (priorities_ok policy) else Inr ())"

definition exclusive_ok :: "registry \<Rightarrow> producers \<Rightarrow> json \<Rightarrow> exn + unit" where
  "exclusive_ok r known members =
     (let xs = (case members of JArr xs \<Rightarrow> xs | _ \<Rightarrow> []) in
      ebind (core_check (\<not> length xs < 2)) (\<lambda>_.
      ebind (mapE (producerKey r) xs) (\<lambda>ks. core_check (distinct ks \<and> set ks \<subseteq> fst ` set known))))"

definition check_no_match :: "json \<Rightarrow> json \<Rightarrow> contract option \<Rightarrow> plan_set \<Rightarrow> exn + plan_set" where
  "check_no_match ptarget outcome output ps =
     (if \<not> is_kind outcome ''value'' then Inr ps
      else
        ebind (normalContract (pl_registry ps) (part outcome ''contract_ref'')) (\<lambda>c.
        ebind (compatible c output) (\<lambda>_.
        ebind (case c of None \<Rightarrow> Inr () | Some c' \<Rightarrow> valueFor c' (value_of (part outcome ''value''))) (\<lambda>_.
          link_plans ptarget (part outcome ''contract_ref'') ''contract'' ps))))"

text \<open>A collecting policy produces the list of what its entries emit.\<close>

definition collects :: "contract option \<Rightarrow> contract option \<Rightarrow> nat \<Rightarrow> bool" where
  "collects output item entries =
     (case (output, item) of
        (Some (Results p), Some (Results q)) \<Rightarrow>
          (case pc_shape p of
             ListShape s lo hi \<Rightarrow>
               equal_shapes s (pc_shape q) \<and> pc_minimum p = lo \<and> pc_maximum p = hi \<and> pc_minimum p = 0 \<and>
               \<not> (case pc_maximum p of None \<Rightarrow> False | Some m \<Rightarrow> m < int entries)
           | _ \<Rightarrow> False)
      | _ \<Rightarrow> True)"

definition check_collect :: "json \<Rightarrow> json \<Rightarrow> contract option \<Rightarrow> producers \<Rightarrow> plan_set \<Rightarrow> exn + plan_set" where
  "check_collect ptarget policy output known ps =
     (let item_ref = part (part policy ''combine'') ''item_contract_ref'' in
      ebind (normalContract (pl_registry ps) item_ref) (\<lambda>item.
      ebind (link_plans ptarget item_ref ''contract'' ps) (\<lambda>ps1.
      ebind (core_check (collects output item (length (items_at policy ''entries'')))) (\<lambda>_.
      ebind (each (\<lambda>(k, c). compatible c item) known) (\<lambda>_.
      ebind (core_check (\<not> (is_kind (part policy ''on_undetermined'') ''partial'' \<and> items_at policy ''exclusive_sets'' \<noteq> [])))
        (\<lambda>_. Inr ps1))))))"

definition merge_edges :: "json \<Rightarrow> jstring \<Rightarrow> graph \<Rightarrow> graph" where
  "merge_edges policy merge g =
     fold (\<lambda>entry. if is_kind (part entry ''then'') ''output''
                   then add_edge (text_at (part (part (part entry ''then'') ''from'') ''node_ref'') ''id'') merge else id)
       (items_at policy ''entries'') g"

definition check_authored :: "json \<Rightarrow> json \<Rightarrow> contract option \<Rightarrow> plan_frame \<Rightarrow> plan_work \<Rightarrow> exn + plan_work" where
  "check_authored ptarget policy output F w =
     (let combine = part policy ''combine''; merge = text_at (part combine ''merge_node_ref'') ''id'' in
      case branch_nodes policy F of
        [branch] \<Rightarrow>
          ebind (core_check (is_kind (part policy ''on_undetermined'') ''defer'' \<and> node_is F merge ''use'' \<and>
                   map_of (pf_parents F) merge = Some branch)) (\<lambda>_.
          ebind (endpoint_at F [] (jo [(''node_ref'', part combine ''merge_node_ref''), (''port'', part combine ''input_port''),
                   (''field_path'', JArr [])]) True True w) (\<lambda>(input, w1).
          ebind (endpoint_at F [] (jo [(''node_ref'', part combine ''merge_node_ref''), (''port'', part combine ''output_port''),
                   (''field_path'', JArr [])]) False False w1) (\<lambda>(merged, w2).
            case ep_contract input of
              Some (Emissions c) \<Rightarrow>
                ebind (identity (pw_registry w2) (part c ''policy_ref'')) (\<lambda>a. ebind (identity (pw_registry w2) ptarget) (\<lambda>b.
                ebind (core_check (a = b)) (\<lambda>_.
                ebind (compatible (ep_contract merged) output) (\<lambda>_.
                  Inr ((add_supply merge (text_at combine ''input_port'') [] (FromPolicy ptarget) w2)
                         \<lparr>pw_graph := merge_edges policy merge (add_edge merge branch (pw_graph w2))\<rparr>)))))
            | _ \<Rightarrow> registry_fail)))
      | _ \<Rightarrow> registry_fail)"

definition check_policy :: "json \<Rightarrow> plan_set \<Rightarrow> exn + plan_set" where
  "check_policy judgment ps =
     (case fld (part judgment ''formation_rule'') ''policy'' of
        None \<Rightarrow> Inr ps
      | Some policy \<Rightarrow>
          let ptarget = js_ref ''policy'' (part policy ''id'') in
          ebind (normalContract (pl_registry ps) (part policy ''result_contract_ref'')) (\<lambda>output.
          ebind (link_plans ptarget (part policy ''result_contract_ref'') ''contract'' ps) (\<lambda>ps1.
          ebind (compatible output (Some (contract_of (part judgment ''result_contract'')))) (\<lambda>_.
          ebind (core_check (distinct_members ''id'' (items_at policy ''candidates''))) (\<lambda>_.
          ebind (foldE check_candidate (items_at policy ''candidates'') ps1) (\<lambda>ps2.
          ebind (foldE (check_entry judgment policy) (items_at policy ''entries'') (ps2, [])) (\<lambda>(ps3, known).
          ebind (check_match policy output known) (\<lambda>_.
          ebind (each (exclusive_ok (pl_registry ps3) known) (items_at policy ''exclusive_sets'')) (\<lambda>_.
          ebind (check_no_match ptarget (part policy ''on_no_match'') output ps3) (\<lambda>ps4.
          ebind (if is_kind (part policy ''combine'') ''collect'' then check_collect ptarget policy output known ps4
                 else if is_kind (part policy ''combine'') ''authored''
                 then with_context (text_at judgment ''id'') (check_authored ptarget policy output) ps4
                 else Inr ps4) (\<lambda>ps5.
          ebind (core_check (\<not> (is_kind (part policy ''on_undetermined'') ''partial'' \<and>
                   \<not> (fld policy ''match'' = Some (js ''all_matches'') \<and> is_kind (part policy ''combine'') ''collect'')))) (\<lambda>_.
            Inr ps5))))))))))))"

section \<open>Complete inputs and results\<close>

definition check_emissions :: "registry \<Rightarrow> jstring \<Rightarrow> jstring \<Rightarrow> json \<Rightarrow> input_supply list \<Rightarrow> exn + unit" where
  "check_emissions r i name c supplies =
     ebind (core_check (case supplies of [(_, FromPolicy _)] \<Rightarrow> True | _ \<Rightarrow> False)) (\<lambda>_.
     ebind (found r (part c ''policy_ref'') ''policy'') (\<lambda>policy.
       case policy of
         None \<Rightarrow> registry_fail
       | Some e \<Rightarrow>
           let combine = part (re_value e) ''combine'' in
           core_check (is_kind combine ''authored'' \<and> text_at (part combine ''merge_node_ref'') ''id'' = i \<and>
             text_at combine ''input_port'' = name)))"

definition contract_of_port :: "registry \<Rightarrow> bool \<Rightarrow> port \<Rightarrow> exn + contract option" where
  "contract_of_port r allowSpecial p =
     (case po_contract p of ByReference t \<Rightarrow> contract_at r t allowSpecial | Resolved c \<Rightarrow> Inr c)"

definition check_input_port :: "jstring \<Rightarrow> plan_work \<Rightarrow> port \<Rightarrow> exn + unit" where
  "check_input_port i w p =
     ebind (contract_of_port (pw_registry w) True p) (\<lambda>c.
       let supplies = supplied w i (po_name p) in
       case c of
         Some (Emissions v) \<Rightarrow> check_emissions (pw_registry w) i (po_name p) v supplies
       | Some (Results q) \<Rightarrow>
           ebind (core_check (supplies \<noteq> [])) (\<lambda>_. completeBindings (pc_shape q) (map fst supplies))
       | None \<Rightarrow> core_check (supplies \<noteq> []))"

definition check_node_ports :: "plan_frame \<Rightarrow> jstring \<times> json \<Rightarrow> plan_work \<Rightarrow> exn + plan_work" where
  "check_node_ports F = (\<lambda>(i, node) w.
     if \<not> (is_kind node ''use'' \<or> is_kind node ''judgment_use'') then Inr w
     else
       ebind (ports_at F [] i w) (\<lambda>(ps, w1).
         case np_inputs ps of
           None \<Rightarrow> Inr w1
         | Some inputs \<Rightarrow>
             ebind (each (check_input_port i w1) inputs) (\<lambda>_.
             ebind (each (\<lambda>p. emap (\<lambda>_. ()) (contract_of_port (pw_registry w1) False p))
                      (case np_outputs ps of None \<Rightarrow> [] | Some list \<Rightarrow> list)) (\<lambda>_. Inr w1))))"

definition result_contract_of :: "plan_frame \<Rightarrow> json" where
  "result_contract_of F = part (pf_judgment F) ''result_contract''"

definition check_result :: "plan_frame \<Rightarrow> json \<Rightarrow> plan_work \<Rightarrow> exn + plan_work" where
  "check_result F binding w =
     ebind (endpoint_at F [] (part binding ''from'') False False w) (\<lambda>(source, w1).
     ebind (core_check (round_of F (ep_node source) = [])) (\<lambda>_.
     ebind (projected (Some (contract_of (result_contract_of F))) (path_of binding ''field_path'')) (\<lambda>c.
     ebind (compatible (ep_contract source) c) (\<lambda>_. Inr w1))))"

section \<open>What contributes to a result\<close>

definition bound_nodes :: "plan_frame \<Rightarrow> jstring list" where
  "bound_nodes F =
     remdups (map (\<lambda>b. text_at (part (part b ''from'') ''node_ref'') ''id'') (items_at (pf_plan F) ''result_bindings''))"

text \<open>The reversed data edges, with the updates of feedback loops.\<close>

definition reverse_edges :: "plan_frame \<Rightarrow> graph \<Rightarrow> graph" where
  "reverse_edges F g =
     (let data = concat (map (\<lambda>(source, ts). map (\<lambda>t. (t, source)) ts) g);
          updates = concat (map (\<lambda>(i, node). if is_kind node ''feedback''
              then map (\<lambda>up. (text_at (part (part up ''next_input'') ''node_ref'') ''id'',
                              text_at (part (part up ''from'') ''node_ref'') ''id'')) (items_at node ''updates'')
              else []) (pf_nodes F))
      in map (\<lambda>(i, n). (i, map snd (filter (\<lambda>(t, s). t = i) (data @ updates)))) (pf_nodes F))"

text \<open>The loop over the queue, from its current position on.\<close>

fun unseen :: "jstring list \<Rightarrow> jstring list \<Rightarrow> jstring list" where
  "unseen seen [] = []"
| "unseen seen (n # ns) = (if n \<in> set seen then unseen seen ns else n # unseen (seen @ [n]) ns)"

lemma set_unseen [simp]: "set (unseen seen ns) = set ns - set seen"
  by (induction seen ns rule: unseen.induct) auto

function contribute :: "graph \<Rightarrow> jstring list \<Rightarrow> jstring list \<Rightarrow> jstring list" where
  "contribute g seen [] = seen"
| "contribute g seen (n # queue) =
     contribute g (seen @ unseen seen (succs g n)) (queue @ unseen seen (succs g n))"
  by pat_completeness auto
termination
proof (relation "measures [\<lambda>(g, seen, queue). card ((\<Union>ts \<in> snd ` set g. set ts) - set seen), \<lambda>(g, seen, queue). length queue]")
  fix g :: graph and seen :: "jstring list" and n :: jstring and queue :: "jstring list"
  define all where "all = (\<Union>ts \<in> snd ` set g. set ts)"
  define new where "new = unseen seen (succs g n)"
  have fin: "finite (all - set seen)" by (auto simp: all_def)
  have sub: "set new \<subseteq> all - set seen" using succs_targets [of g n] by (auto simp: all_def new_def)
  have "card (all - set (seen @ new)) < card (all - set seen) \<or> new = []"
  proof (cases new)
    case (Cons m ms)
    then have "m \<in> set new" by simp
    then have "all - set (seen @ new) \<subset> all - set seen" using sub by auto
    then show ?thesis using fin psubset_card_mono by blast
  qed simp
  then show "((g, seen @ unseen seen (succs g n), queue @ unseen seen (succs g n)), g, seen, n # queue) \<in> measures
      [\<lambda>(g, seen, queue). card ((\<Union>ts \<in> snd ` set g. set ts) - set seen), \<lambda>(g, seen, queue). length queue]"
    unfolding all_def new_def by (elim disjE) (simp_all del: set_append set_unseen)
qed simp

definition contributing :: "plan_context \<Rightarrow> jstring list" where
  "contributing cx =
     (let F = cx_frame cx in contribute (reverse_edges F (pw_graph (cx_work cx))) (bound_nodes F) (bound_nodes F))"

definition finish_work :: "plan_frame \<Rightarrow> plan_work \<Rightarrow> exn + plan_work" where
  "finish_work F w =
     ebind (foldE (check_node_ports F) (pf_nodes F) w) (\<lambda>w1.
     ebind (acyclic_check (pw_graph w1)) (\<lambda>_.
     ebind (foldE (check_result F) (items_at (pf_plan F) ''result_bindings'') w1) (\<lambda>w2.
     ebind (case contract_of (result_contract_of F) of
              Emissions _ \<Rightarrow> Inl (TypeErr (u ''Cannot read properties of undefined (reading kind)''))
            | Results q \<Rightarrow> completeBindings (pc_shape q) (map (\<lambda>b. path_of b ''field_path'') (items_at (pf_plan F) ''result_bindings''))) (\<lambda>_. Inr w2))))"

section \<open>The methods a judgment uses\<close>

text \<open>
  \<open>actualMethods\<close> with its memo \<open>settled\<close>.  It recurses along the judgments a plan uses; \<open>None\<close> is the recursion
  that does not end (in the language, a stack overflow), and \<open>actual_methods_total\<close> excludes it.
\<close>

type_synonym settled_methods = "(jstring \<times> jstring list) list"

fun add_all :: "jstring list \<Rightarrow> jstring list \<Rightarrow> jstring list" where
  "add_all [] seen = seen"
| "add_all (m # ms) seen = add_all ms (if m \<in> set seen then seen else seen @ [m])"

definition used_judgment :: "registry \<Rightarrow> json \<Rightarrow> exn + jstring option" where
  "used_judgment r node =
     ebind (qualified_judgment (part node ''judgment_ref'')) (\<lambda>target.
       emap (map_option (\<lambda>e. text_at (re_target e) ''id'')) (found r target ''judgment''))"

definition unit_method :: "registry \<Rightarrow> json \<Rightarrow> exn + jstring" where
  "unit_method r node =
     ebind (found r (part node ''unit_ref'') ''unit'') (\<lambda>e.
       case e of
         None \<Rightarrow> Inl (TypeErr (u ''Cannot read properties of null (reading value)''))
       | Some e' \<Rightarrow> Inr (text_at (re_value e') ''method''))"

fun over_nodes :: "registry \<Rightarrow> (jstring \<Rightarrow> settled_methods \<Rightarrow> (exn + jstring list \<times> settled_methods) option) \<Rightarrow>
    json list \<Rightarrow> jstring list \<Rightarrow> settled_methods \<Rightarrow> (exn + jstring list \<times> settled_methods) option" where
  "over_nodes r call [] out memo = Some (Inr (out, memo))"
| "over_nodes r call (node # nodes) out memo =
     (if is_kind node ''use''
      then (case unit_method r node of
              Inl e \<Rightarrow> Some (Inl e)
            | Inr m \<Rightarrow> over_nodes r call nodes (add_all [m] out) memo)
      else if is_kind node ''judgment_use''
      then (case used_judgment r node of
              Inl e \<Rightarrow> Some (Inl e)
            | Inr None \<Rightarrow> over_nodes r call nodes out memo
            | Inr (Some j) \<Rightarrow>
                (case call j memo of
                   None \<Rightarrow> None
                 | Some (Inl e) \<Rightarrow> Some (Inl e)
                 | Some (Inr (ms, memo1)) \<Rightarrow> over_nodes r call nodes (add_all ms out) memo1))
      else over_nodes r call nodes out memo)"

definition contributing_nodes :: "plan_context \<Rightarrow> json list" where
  "contributing_nodes cx = map snd (filter (\<lambda>(i, n). i \<in> set (contributing cx)) (pf_nodes (cx_frame cx)))"

fun actualMethods :: "nat \<Rightarrow> json list \<Rightarrow> plan_set \<Rightarrow> jstring \<Rightarrow> settled_methods \<Rightarrow>
    (exn + jstring list \<times> settled_methods) option" where
  "actualMethods 0 judgments ps i memo = None"
| "actualMethods (Suc n) judgments ps i memo =
     (case map_of memo i of
        Some ms \<Rightarrow> Some (Inr (ms, memo))
      | None \<Rightarrow>
          map_option (emap (\<lambda>(ms, memo1). (ms, memo1 @ [(i, ms)])))
            (case map_of (pl_contexts ps) i of
               None \<Rightarrow>
                 Some (case find_named ''id'' i judgments of
                         None \<Rightarrow> Inl (TypeErr (u ''Cannot read properties of undefined (reading method)''))
                       | Some j \<Rightarrow> Inr ([text_at (part (part j ''method'') ''method'') ''term''], memo))
             | Some cx \<Rightarrow> over_nodes (pl_registry ps) (actualMethods n judgments ps) (contributing_nodes cx) [] memo))"

definition stack_overflow :: exn where
  "stack_overflow = PlainError (u ''Maximum call stack size exceeded'')"

definition uses_unresolved :: "registry \<Rightarrow> jstring \<Rightarrow> exn + bool" where
  "uses_unresolved r j =
     anyE (map (\<lambda>(source, target, mandatory).
             if \<not> mandatory then Inr False
             else emap (\<lambda>e. case e of None \<Rightarrow> False | Some e' \<Rightarrow> re_judgment e' = JStr j) (get_record r (Some source) None))
           (rg_unresolved r))"

definition check_methods :: "json list \<Rightarrow> plan_set \<Rightarrow> json \<Rightarrow> settled_methods \<Rightarrow> exn + settled_methods" where
  "check_methods judgments ps judgment memo =
     (let i = text_at judgment ''id''; term = text_at (part (part judgment ''method'') ''method'') ''term'' in
      if map_of (pl_contexts ps) i = None then Inr memo
      else case actualMethods (Suc (length judgments)) judgments ps i memo of
        None \<Rightarrow> Inl stack_overflow
      | Some (Inl e) \<Rightarrow> Inl e
      | Some (Inr (methods, memo1)) \<Rightarrow>
          ebind (uses_unresolved (pl_registry ps) i) (\<lambda>external.
          ebind (core_check (if term = u ''composite'' then \<not> (length methods < 2 \<and> \<not> external)
                             else \<not> (\<exists>m \<in> set methods. m \<noteq> term))) (\<lambda>_. Inr memo1)))"

section \<open>Contracts of emission lists\<close>

text \<open>What a partial load passes: the judgments loaded, those that are complete, and a test of the caller.\<close>

record plan_scope =
  sc_loaded :: "json list"
  sc_complete :: "json list option"
  sc_require :: "registry_entry \<Rightarrow> exn + unit"

definition unit_uses :: "registry \<Rightarrow> registry_entry \<Rightarrow> json list \<Rightarrow> exn + (json \<times> bool \<times> json) list" where
  "unit_uses r e judgments =
     ebind (identity r (re_target e)) (\<lambda>key.
       emap (map snd \<circ> filter fst)
         (mapE (\<lambda>(candidate, is_input, p). emap (\<lambda>k. (k = key, candidate, is_input, p)) (identity r (part p ''contract_ref'')))
           (concat (map (\<lambda>j. concat (map (\<lambda>c. map (\<lambda>p. (c, True, p)) (items_at c ''inputs'') @ map (\<lambda>p. (c, False, p)) (items_at c ''outputs''))
              (items_at (part j ''method'') ''units''))) judgments))))"

definition check_emission_contract :: "json list \<Rightarrow> plan_scope option \<Rightarrow> plan_set \<Rightarrow> registry_entry \<Rightarrow> exn + unit" where
  "check_emission_contract judgments scope ps e =
     (let r = pl_registry ps in
      ebind (case scope of None \<Rightarrow> Inr () | Some s \<Rightarrow> sc_require s e) (\<lambda>_.
      ebind (found r (part (re_value e) ''policy_ref'') ''policy'') (\<lambda>policy.
        case policy of
          None \<Rightarrow> registry_fail
        | Some p \<Rightarrow>
            let combine = part (re_value p) ''combine'' in
            if \<not> is_kind combine ''authored'' then registry_fail
            else case (case re_judgment p of JStr j \<Rightarrow> map_of (pl_contexts ps) j | _ \<Rightarrow> None) of
              None \<Rightarrow> registry_fail
            | Some cx \<Rightarrow>
                (case map_of (pf_nodes (cx_frame cx)) (text_at (part combine ''merge_node_ref'') ''id'') of
                   None \<Rightarrow> registry_fail
                 | Some merge \<Rightarrow>
                     if \<not> is_kind merge ''use'' then registry_fail
                     else
                       ebind (found r (part merge ''unit_ref'') ''unit'') (\<lambda>used_unit.
                       ebind (unit_uses r e (case scope of Some s \<Rightarrow> (case sc_complete s of Some whole \<Rightarrow> whole | None \<Rightarrow> judgments) | None \<Rightarrow> judgments))
                         (\<lambda>ports_used.
                         case used_unit of
                           None \<Rightarrow> Inl (TypeErr (u ''Cannot read properties of null (reading value)''))
                         | Some ue \<Rightarrow>
                             let id_of = text_at (re_value ue) ''id'' in
                             core_check (list_all (\<lambda>(c, is_input, port). text_at c ''id'' = id_of \<and> is_input \<and>
                                  text_at port ''name'' = text_at combine ''input_port'') ports_used \<and> length ports_used = 1 \<and>
                                length (filter (\<lambda>(i, n). is_kind n ''use'' \<and> text_at (part n ''unit_ref'') ''id'' = id_of)
                                  (pf_nodes (cx_frame cx))) = 1)))))))"

definition in_scope :: "plan_scope option \<Rightarrow> registry_entry \<Rightarrow> bool" where
  "in_scope scope e \<longleftrightarrow>
     (case scope of None \<Rightarrow> True | Some s \<Rightarrow> re_judgment e = JNull \<or> re_judgment e \<in> set (sc_loaded s)) \<and>
     fld (re_target e) ''kind'' = Some (js ''contract'') \<and> is_kind (re_value e) ''emission_list''"

section \<open>All checks\<close>

text \<open>Everything up to the cycle check of the call graph, and the two loops that follow it.\<close>

definition checked_graphs :: "json list \<Rightarrow> registry \<Rightarrow> exn + plan_set" where
  "checked_graphs judgments r =
     (let start = \<lparr>pl_registry = r, pl_calls = map (\<lambda>j. (text_at j ''id'', [])) judgments, pl_contexts = []\<rparr> in
      ebind (foldE add_plan judgments start) (\<lambda>ps1.
      ebind (foldE check_policy judgments ps1) (\<lambda>ps2.
      ebind (foldE (\<lambda>j. with_context j finish_work) (map fst (pl_contexts ps2)) ps2) (\<lambda>ps3.
      ebind (acyclic_check (pl_calls ps3)) (\<lambda>_. Inr ps3)))))"

definition checkPlans :: "json list \<Rightarrow> registry \<Rightarrow> plan_scope option \<Rightarrow> exn + plan_set" where
  "checkPlans judgments r scope =
     ebind (checked_graphs judgments r) (\<lambda>ps.
     ebind (foldE (check_methods judgments ps) judgments []) (\<lambda>_.
     ebind (each (\<lambda>(k, e). if in_scope scope e then check_emission_contract judgments scope ps e else Inr ())
              (rg_records (pl_registry ps))) (\<lambda>_. Inr ps)))"

end
