(* ===== verification/PlanSound.thy ===== *)
theory PlanSound
  imports PlanPolicy
begin

text \<open>
  What accepted plans satisfy.  Every step of the checks only adds: \<open>work_grows\<close> relates the state of a plan before and
  after a step, \<open>plans_grow\<close> the state of all plans.  So what a link or a node establishes when it is checked still
  holds at the end (\<open>link_sound\<close>, \<open>noted\<close>), where the two cycle checks apply.
\<close>

section \<open>Registries with the same records\<close>

definition same_records :: "registry \<Rightarrow> registry \<Rightarrow> bool" where
  "same_records r r' \<longleftrightarrow> rg_records r' = rg_records r \<and> rg_asset r' = rg_asset r"

lemma same_records_refl [simp]: "same_records r r"
  by (simp add: same_records_def)

lemma same_records_trans: "same_records a b \<Longrightarrow> same_records b c \<Longrightarrow> same_records a c"
  by (simp add: same_records_def)

lemma same_records_sym: "same_records a b \<Longrightarrow> same_records b a"
  by (simp add: same_records_def)

lemma same_identity: "same_records r r' \<Longrightarrow> identity r' t = identity r t"
  by (rule identity_cong) (simp add: same_records_def)

lemma same_get:
  assumes s: "same_records r r'"
  shows "get_record r' t k = get_record r t k"
proof -
  have "rg_records r' = rg_records r" "is_local r' x = is_local r x" "identity r' x = identity r x" for x
    using s same_identity [OF s] by (simp_all add: same_records_def is_local_def)
  then show ?thesis by (simp add: get_record_def cong: if_cong)
qed

lemma same_link:
  assumes "link_records source target mandatory kinds role r = Inr (e, r')"
  shows "same_records r r' \<and> get_record r target kinds = Inr e"
proof -
  from assms have "get_record r target kinds = Inr e"
    by (auto simp: link_records_def result_simps split: option.splits if_splits)
  moreover from assms have "same_records r r'"
    by (rule link_records_eq) (simp_all add: same_records_def)
  ultimately show ?thesis by simp
qed

lemma same_found: "same_records r r' \<Longrightarrow> found r' t k = found r t k"
  by (simp add: found_def same_get)

lemma same_contract: "same_records r r' \<Longrightarrow> contract_at r' t b = contract_at r t b"
  by (simp add: contract_at_def same_found)

lemma same_node: "same_records r r' \<Longrightarrow> node_at F r' t = node_at F r t"
  by (simp add: node_at_def localNode_def same_get)

lemmas same_reads = same_found same_contract same_node same_identity

section \<open>Edges\<close>

lemma keys_add_edge [simp]: "map fst (add_edge x y g) = map fst g"
  by (simp add: add_edge_def)

lemma succs_map_at: "succs (map_at x f g) z = (if z = x \<and> x \<in> fst ` set g then f (succs g z) else succs g z)"
proof (cases "map_of g x")
  case None
  then have "x \<notin> fst ` set g" by (simp add: map_of_eq_None_iff)
  with None show ?thesis by (simp add: succs_def map_of_map_at)
next
  case (Some ts)
  then have "x \<in> fst ` set g" by (force dest: map_of_SomeD)
  with Some show ?thesis by (simp add: succs_def map_of_map_at)
qed

lemma succs_add_edge:
  "set (succs (add_edge x y g) z) = (if z = x \<and> x \<in> fst ` set g then insert y (set (succs g z)) else set (succs g z))"
  by (auto simp only: add_edge_def succs_map_at split: if_split) auto

lemma edges_add_edge: "edges_of g \<subseteq> edges_of (add_edge x y g)"
  by (auto simp: edges_of_def succs_add_edge)

lemma edge_added: "x \<in> set (map fst g) \<Longrightarrow> (x, y) \<in> edges_of (add_edge x y g)"
  by (simp add: edges_of_def succs_add_edge)

section \<open>Growth of a plan\<close>

definition work_grows :: "plan_work \<Rightarrow> plan_work \<Rightarrow> bool" where
  "work_grows w w' \<longleftrightarrow>
     same_records (pw_registry w) (pw_registry w') \<and>
     (\<forall>i ps. map_of (pw_ports w) i = Some ps \<longrightarrow> map_of (pw_ports w') i = Some ps) \<and>
     edges_of (pw_graph w) \<subseteq> edges_of (pw_graph w') \<and> map fst (pw_graph w') = map fst (pw_graph w) \<and>
     edges_of (pw_calls w) \<subseteq> edges_of (pw_calls w') \<and> map fst (pw_calls w') = map fst (pw_calls w)"

lemma work_grows_refl [simp]: "work_grows w w"
  by (simp add: work_grows_def)

lemma work_grows_trans: "work_grows a b \<Longrightarrow> work_grows b c \<Longrightarrow> work_grows a c"
  by (auto simp: work_grows_def intro: same_records_trans)

lemma work_growsD:
  assumes "work_grows w w'"
  shows "same_records (pw_registry w) (pw_registry w')" "map_of (pw_ports w) i = Some ps \<Longrightarrow> map_of (pw_ports w') i = Some ps"
    "e \<in> edges_of (pw_graph w) \<Longrightarrow> e \<in> edges_of (pw_graph w')" "map fst (pw_graph w') = map fst (pw_graph w)"
    "e \<in> edges_of (pw_calls w) \<Longrightarrow> e \<in> edges_of (pw_calls w')" "map fst (pw_calls w') = map fst (pw_calls w)"
  using assms by (auto simp: work_grows_def)

lemma work_grows_parts:
  "same_records (pw_registry w) r \<Longrightarrow> work_grows w (w\<lparr>pw_registry := r\<rparr>)"
  "work_grows w (w\<lparr>pw_methods := m\<rparr>)" "work_grows w (w\<lparr>pw_supplies := s\<rparr>)"
  "work_grows w (w\<lparr>pw_graph := add_edge x y (pw_graph w)\<rparr>)"
  "work_grows w (w\<lparr>pw_calls := add_edge x y (pw_calls w)\<rparr>)"
  "map_of (pw_ports w) i = None \<Longrightarrow> work_grows w (w\<lparr>pw_ports := pw_ports w @ [(i, ps)]\<rparr>)"
  by (auto simp: work_grows_def edges_add_edge [THEN subsetD] map_add_Some_iff)

text \<open>\<open>quiet w w'\<close>: moreover the data graph is the same; \<open>still w w'\<close>: and the ports found.\<close>

definition quiet :: "plan_work \<Rightarrow> plan_work \<Rightarrow> bool" where
  "quiet w w' \<longleftrightarrow> work_grows w w' \<and> pw_graph w' = pw_graph w"

lemma quiet_refl [simp]: "quiet w w"
  by (simp add: quiet_def)

lemma quiet_trans: "quiet a b \<Longrightarrow> quiet b c \<Longrightarrow> quiet a c"
  by (auto simp: quiet_def intro: work_grows_trans)

lemma quiet_grows: "quiet w w' \<Longrightarrow> work_grows w w'"
  by (simp add: quiet_def)

definition still :: "plan_work \<Rightarrow> plan_work \<Rightarrow> bool" where
  "still w w' \<longleftrightarrow> quiet w w' \<and> pw_ports w' = pw_ports w"

lemma still_refl [simp]: "still w w"
  by (simp add: still_def)

lemma still_trans: "still a b \<Longrightarrow> still b c \<Longrightarrow> still a c"
  by (auto simp: still_def intro: quiet_trans)

lemma still_parts:
  "same_records (pw_registry w) r \<Longrightarrow> still w (w\<lparr>pw_registry := r\<rparr>)"
  "still w (w\<lparr>pw_methods := m\<rparr>)" "still w (w\<lparr>pw_supplies := s\<rparr>)"
  "still w (w\<lparr>pw_calls := add_edge x y (pw_calls w)\<rparr>)"
  by (simp_all add: still_def quiet_def work_grows_parts)

lemma link_in_eq:
  assumes "link_in source target kind w = Inr (e, w')"
  shows "still w w' \<and> found (pw_registry w) target kind = Inr e"
proof -
  from assms obtain r where "link_records source (Some target) True (Some [kind]) None (pw_registry w) = Inr (e, r)"
    and w': "w' = w\<lparr>pw_registry := r\<rparr>"
    by (auto simp: link_in_def emap_Inr_conv)
  from same_link [OF this(1)] show ?thesis by (simp add: w' found_def still_parts)
qed

lemma still_linked: "linked source target kind w = Inr w' \<Longrightarrow> still w w'"
  by (auto simp: linked_def emap_Inr_conv dest: link_in_eq)

lemma still_add_supply [simp]: "still w (add_supply i n p s w)"
  by (simp add: add_supply_def still_parts)

lemma dataEdge_graph:
  assumes "dataEdge F a b w = Inr w'"
  shows "w' = w\<lparr>pw_graph := add_edge a b (pw_graph w)\<rparr> \<and> ordered F a b = Inr ()"
  using assms by (auto simp: dataEdge_def ebind_Inr_conv split: if_splits)

section \<open>What is read again\<close>

text \<open>What the calls of a node have noted.\<close>

definition noted :: "plan_frame \<Rightarrow> json \<Rightarrow> plan_work \<Rightarrow> bool" where
  "noted F node w \<longleftrightarrow>
     \<not> is_kind node ''judgment_use'' \<or>
     (\<forall>j. used_judgment (pw_registry w) node = Inr (Some j) \<longrightarrow> (frame_id F, j) \<in> edges_of (pw_calls w))"

definition noted_all :: "plan_frame \<Rightarrow> plan_work \<Rightarrow> bool" where
  "noted_all F w \<longleftrightarrow>
     (\<forall>i ps node. map_of (pw_ports w) i = Some ps \<longrightarrow> map_of (pf_nodes F) i = Some node \<longrightarrow> noted F node w)"

lemma same_used: "same_records r r' \<Longrightarrow> used_judgment r' node = used_judgment r node"
  by (simp add: used_judgment_def same_found)

lemma noted_grows: "noted F node w \<Longrightarrow> work_grows w w' \<Longrightarrow> noted F node w'"
  using same_used [OF work_growsD(1), of w w' node] by (auto simp: noted_def work_growsD(5))

lemma noted_all_still: "noted_all F w \<Longrightarrow> still w w' \<Longrightarrow> noted_all F w'"
  unfolding noted_all_def still_def quiet_def using noted_grows by metis

lemma use_ports_still:
  assumes "use_ports F node w = Inr (ps, w')"
  shows "still w w'"
proof -
  from assms obtain unit_record where r: "found (pw_registry w) (part node ''unit_ref'') ''unit'' = Inr unit_record"
    and c: "(case (unit_record, find_named ''id'' (text_at (part node ''unit_ref'') ''id'') (items_at (part (pf_judgment F) ''method'') ''units'')) of
          (Some e, Some unit) \<Rightarrow>
            if re_judgment e \<noteq> JStr (frame_id F) then registry_fail
            else ebind (linked (node_target (text_at node ''id'')) (re_target e) ''unit'' w) (\<lambda>w1.
                   Inr (\<lparr>np_inputs = Some (map port_of (items_at unit ''inputs'')),
                         np_outputs = Some (map port_of (items_at unit ''outputs''))\<rparr>,
                        w1\<lparr>pw_methods := pw_methods w1 @ [(text_at node ''id'', text_at unit ''method'')]\<rparr>))
        | _ \<Rightarrow> registry_fail) = Inr (ps, w')"
    unfolding use_ports_def Let_def by (rule ebind_InrE)
  show ?thesis
    using c by (auto simp: ebind_Inr_conv intro: still_trans [OF still_linked still_parts(2)] split: option.split_asm if_split_asm)
qed

lemma judgment_ports_still:
  assumes "judgment_ports F node w = Inr (ps, w')"
  shows "still w w' \<and> (frame_id F \<in> set (map fst (pw_calls w)) \<longrightarrow> noted F node w')"
proof -
  from assms obtain target where q: "qualified_judgment (part node ''judgment_ref'') = Inr target"
    and m: "ebind (link_in (node_target (text_at node ''id'')) target ''judgment'' w) (\<lambda>(record, w1).
       case record of
         None \<Rightarrow> Inr (\<lparr>np_inputs = None, np_outputs = None\<rparr>, w1)
       | Some e \<Rightarrow>
           let towards = \<lambda>d. map port_of (filter (\<lambda>p. fld p ''direction'' = Some (js d)) (items_at (re_value e) ''ports''))
           in Inr (\<lparr>np_inputs = Some (towards ''input''), np_outputs = Some (towards ''output'')\<rparr>,
                   w1\<lparr>pw_calls := add_edge (frame_id F) (text_at (re_target e) ''id'') (pw_calls w1),
                      pw_methods := pw_methods w1 @
                        [(text_at node ''id'', text_at (part (part (re_value e) ''method'') ''method'') ''term'')]\<rparr>)) = Inr (ps, w')"
    unfolding judgment_ports_def by (rule ebind_InrE)
  from m obtain e w1 where l: "link_in (node_target (text_at node ''id'')) target ''judgment'' w = Inr (e, w1)"
    and w': "w' = (case e of None \<Rightarrow> w1 | Some e \<Rightarrow>
        w1\<lparr>pw_calls := add_edge (frame_id F) (text_at (re_target e) ''id'') (pw_calls w1),
           pw_methods := pw_methods w1 @ [(text_at node ''id'', text_at (part (part (re_value e) ''method'') ''method'') ''term'')]\<rparr>)"
    by (rule ebind_InrE) (auto simp: Let_def split: option.split_asm)
  note s = link_in_eq [OF l]
  have t: "still w1 w'"
    using w' still_trans [OF still_parts(4) still_parts(2)] by (cases e) auto
  have n: "noted F node w'" if k: "frame_id F \<in> set (map fst (pw_calls w))"
  proof (cases e)
    case None
    then show ?thesis using w' s q same_used [of "pw_registry w" "pw_registry w1" node]
      by (auto simp: noted_def used_judgment_def still_def quiet_def work_grows_def)
  next
    case (Some e')
    have "frame_id F \<in> set (map fst (pw_calls w1))" using k s work_growsD(6) [of w w1] by (simp only: still_def quiet_def)
    then have "(frame_id F, text_at (re_target e') ''id'') \<in> edges_of (pw_calls w')" using w' edge_added by (auto simp: Some)
    moreover have "used_judgment (pw_registry w') node = used_judgment (pw_registry w) node"
      using s t by (intro same_used) (auto simp: still_def quiet_def work_grows_def intro: same_records_trans)
    ultimately show ?thesis using s q by (simp add: noted_def used_judgment_def Some)
  qed
  show ?thesis using n still_trans [of w w1 w'] s t by blast
qed

lemma own_ports_still:
  assumes "own_ports F node w = Inr (ps, w')"
  shows "still w w' \<and> (frame_id F \<in> set (map fst (pw_calls w)) \<longrightarrow> noted F node w')"
proof (cases "is_kind node ''judgment_use''")
  case True
  then have "\<not> is_kind node ''use''" by (simp add: is_kind_def js_def u_def)
  then show ?thesis using assms judgment_ports_still True by (simp add: own_ports_def)
next
  case False
  then have "noted F node w'" by (simp add: noted_def)
  moreover have "still w w'"
    using assms False use_ports_still by (auto simp: own_ports_def branch_ports_def ebind_Inr_conv split: if_splits option.splits)
  ultimately show ?thesis by simp
qed

text \<open>
  \<open>steady R w w'\<close>: a quiet step that leaves the ports of the nodes being resolved alone and keeps what is noted.
\<close>

definition steady :: "plan_frame \<Rightarrow> jstring list \<Rightarrow> plan_work \<Rightarrow> plan_work \<Rightarrow> bool" where
  "steady F R w w' \<longleftrightarrow>
     quiet w w' \<and> (\<forall>x \<in> set R. map_of (pw_ports w) x = None \<longrightarrow> map_of (pw_ports w') x = None) \<and>
     (frame_id F \<in> set (map fst (pw_calls w)) \<longrightarrow> noted_all F w \<longrightarrow> noted_all F w')"

lemma steady_refl [simp]: "steady F R w w"
  by (simp add: steady_def)

lemma still_steady: "still w w' \<Longrightarrow> steady F R w w'"
  by (auto simp: steady_def still_def intro: noted_all_still [unfolded still_def])

lemma steady_trans: "steady F R a b \<Longrightarrow> steady F R b c \<Longrightarrow> steady F R a c"
proof -
  assume s: "steady F R a b" "steady F R b c"
  then have "map fst (pw_calls b) = map fst (pw_calls a)" by (simp add: steady_def quiet_def work_growsD(6))
  moreover have "quiet a c" using s quiet_trans by (auto simp: steady_def)
  ultimately show "steady F R a c" using s by (simp add: steady_def)
qed

lemma steady_less: "steady F R a b \<Longrightarrow> set R' \<subseteq> set R \<Longrightarrow> steady F R' a b"
  by (auto simp: steady_def)

lemma steady_store:
  assumes "map_of (pw_ports w) i = None" "i \<notin> set R" "map_of (pf_nodes F) i = Some node"
    and n: "frame_id F \<in> set (map fst (pw_calls w)) \<longrightarrow> noted F node w"
  shows "steady F R w (w\<lparr>pw_ports := pw_ports w @ [(i, ps)]\<rparr>)"
proof -
  let ?w = "w\<lparr>pw_ports := pw_ports w @ [(i, ps)]\<rparr>"
  have g: "work_grows w ?w" by (rule work_grows_parts(6)) fact
  have "noted_all F ?w" if a: "noted_all F w" and k: "frame_id F \<in> set (map fst (pw_calls w))"
    unfolding noted_all_def
  proof (intro allI impI)
    fix x qs m
    assume "map_of (pw_ports ?w) x = Some qs" and m: "map_of (pf_nodes F) x = Some m"
    then have "x = i \<or> (\<exists>qs. map_of (pw_ports w) x = Some qs)" by (auto simp: map_add_Some_iff split: if_splits)
    then have "noted F m w" using a n k m assms(3) by (auto simp: noted_all_def)
    then show "noted F m ?w" using g by (rule noted_grows)
  qed
  then show ?thesis using g assms(2) by (auto simp: steady_def quiet_def map_add_def)
qed

lemma ports_steady:
  "ports_at F R i w = Inr (ps, w') \<Longrightarrow> steady F R w w' \<and> map_of (pw_ports w') i = Some ps"
  "endpoint_at F R e b s w = Inr (ep, w') \<Longrightarrow> steady F R w w'"
proof (induction F R i w and F R e b s w arbitrary: ps w' and ep w' rule: ports_at_endpoint_at.induct)
  case (1 F R i w)
  show ?case
  proof (cases "map_of (pw_ports w) i")
    case (Some qs)
    then show ?thesis using "1.prems" by (simp add: ports_at.simps [of F R i w])
  next
    case None
    with "1.prems" obtain node where i: "i \<notin> set R" and node: "map_of (pf_nodes F) i = Some node"
      by (auto simp: ports_at.simps [of F R i w] split: if_splits option.splits)
    with "1.prems" None obtain w1 where w': "w' = w1\<lparr>pw_ports := pw_ports w1 @ [(i, ps)]\<rparr>"
      and c: "(if is_kind node ''feedback''
               then ebind (endpoint_at F (i # R) (part node ''output'') False False w) (\<lambda>(output, w1).
                      Inr (result_port (Resolved (ep_contract output)), w1))
               else own_ports F node w) = Inr (ps, w1)"
      by (auto simp: ports_at.simps [of F R i w] ebind_Inr_conv)
    have s: "steady F R w w1 \<and> map_of (pw_ports w1) i = None \<and> (frame_id F \<in> set (map fst (pw_calls w1)) \<longrightarrow> noted F node w1)"
    proof (cases "is_kind node ''feedback''")
      case True
      with c obtain out where o: "endpoint_at F (i # R) (part node ''output'') False False w = Inr (out, w1)"
        by (auto simp: ebind_Inr_conv)
      have "steady F (i # R) w w1" by (rule "1.IH" [OF None i node True o])
      moreover have "noted F node w1" using True by (simp add: noted_def is_kind_def js_def u_def)
      ultimately show ?thesis using None steady_less [of F "i # R" w w1 R] by (auto simp: steady_def)
    next
      case False
      with c have o: "own_ports F node w = Inr (ps, w1)" by simp
      note own_ports_still [OF o]
      moreover from this have "map fst (pw_calls w1) = map fst (pw_calls w)" by (simp add: still_def quiet_def work_growsD(6))
      ultimately show ?thesis using None still_steady by (simp add: still_def)
    qed
    have "steady F R w1 w'" unfolding w' by (rule steady_store) (use s i node in auto)
    then have "steady F R w w'" using s steady_trans by blast
    then show ?thesis using s by (simp add: w' map_add_def)
  qed
next
  case (2 F R e b s w)
  then show ?case
    by (simp add: endpoint_at.simps [of F R e b s w]) (erule ebind_InrE, erule ebind_InrE,
      auto simp: ebind_Inr_conv split: option.split_asm port_source.split_asm)
qed

lemmas ports_at_steady = ports_steady(1) [THEN conjunct1]
lemmas endpoint_steady = ports_steady(2)

text \<open>An endpoint read once is read again with the same result, and without a step.\<close>

lemma endpoint_again:
  assumes e: "endpoint_at F R e b s w = Inr (ep, w1)" and g: "work_grows w1 w'"
  shows "endpoint_at F R' e b s w' = Inr (ep, w')"
proof -
  from e obtain i where n: "node_at F (pw_registry w) (part e ''node_ref'') = Inr i"
    and rest: "ebind (ports_at F R i w) (\<lambda>(ps, w1).
       case (if b then np_inputs ps else np_outputs ps) of
         None \<Rightarrow> Inr (\<lparr>ep_node = i, ep_contract = None, ep_path = path_of e ''field_path'', ep_port = text_at e ''port''\<rparr>, w1)
       | Some list \<Rightarrow>
           (case List.find (\<lambda>p. po_name p = text_at e ''port'') list of
              None \<Rightarrow> registry_fail
            | Some p \<Rightarrow>
                ebind (case po_contract p of
                         Resolved c \<Rightarrow> Inr c
                       | ByReference t \<Rightarrow> contract_at (pw_registry w1) t s) (\<lambda>whole.
                ebind (projected whole (path_of e ''field_path'')) (\<lambda>c.
                  Inr (\<lparr>ep_node = i, ep_contract = c, ep_path = path_of e ''field_path'', ep_port = text_at e ''port''\<rparr>, w1))))) = Inr (ep, w1)"
    unfolding endpoint_at.simps [of F R e b s w] by (rule ebind_InrE)
  from rest obtain ps w2 where p: "ports_at F R i w = Inr (ps, w2)" by (rule ebind_InrE) auto
  have w2: "w2 = w1" using rest p by (auto simp: ebind_Inr_conv split: option.split_asm)
  have "steady F R w w1" and q: "map_of (pw_ports w1) i = Some ps" using ports_steady(1) [OF p] by (simp_all add: w2)
  then have "same_records (pw_registry w) (pw_registry w1)" "same_records (pw_registry w1) (pw_registry w')"
    using g by (auto simp: steady_def quiet_def work_grows_def)
  note same_node [OF same_records_trans [OF this]] same_contract [OF this(2)]
  moreover have "map_of (pw_ports w') i = Some ps" using g q by (rule work_growsD(2))
  ultimately show ?thesis
    using n rest p by (simp add: endpoint_at.simps [of F R' e b s w'] ports_at.simps [of F R' i w'] w2 split del: if_split)
      (auto simp: ebind_Inr_conv split: option.split_asm option.split port_source.split_asm port_source.split split del: if_split)
qed

section \<open>The checks of one plan grow\<close>

text \<open>\<open>advances F w w'\<close>: a step of the checks of a plan.\<close>

definition advances :: "plan_frame \<Rightarrow> plan_work \<Rightarrow> plan_work \<Rightarrow> bool" where
  "advances F w w' \<longleftrightarrow> work_grows w w' \<and> (frame_id F \<in> set (map fst (pw_calls w)) \<longrightarrow> noted_all F w \<longrightarrow> noted_all F w')"

lemma advances_refl [simp]: "advances F w w"
  by (simp add: advances_def)

lemma advances_trans: "advances F a b \<Longrightarrow> advances F b c \<Longrightarrow> advances F a c"
proof -
  assume s: "advances F a b" "advances F b c"
  then have "map fst (pw_calls b) = map fst (pw_calls a)" by (simp add: advances_def work_growsD(6))
  moreover have "work_grows a c" using s work_grows_trans by (auto simp: advances_def)
  ultimately show "advances F a c" using s by (simp add: advances_def)
qed

lemma steady_advances: "steady F R w w' \<Longrightarrow> advances F w w'"
  by (simp add: steady_def advances_def quiet_def)

lemma advances_graph: "advances F w (w\<lparr>pw_graph := add_edge a b (pw_graph w)\<rparr>)"
  by (auto simp: advances_def work_grows_parts noted_all_def noted_def)

lemma advances_still: "still w w' \<Longrightarrow> advances F w w'"
  by (rule steady_advances, rule still_steady)

lemma dataEdge_advances: "dataEdge F a b w = Inr w' \<Longrightarrow> advances F w w'"
  by (drule dataEdge_graph) (simp add: advances_graph)

lemma foldE_advances:
  "foldE f xs w = Inr w' \<Longrightarrow> (\<And>x w w'. x \<in> set xs \<Longrightarrow> f x w = Inr w' \<Longrightarrow> advances F w w') \<Longrightarrow> advances F w w'"
  by (rule foldE_invariant [of f xs w w' "advances F w"]) (auto intro: advances_trans)

lemma advances_endpoint: "endpoint_at F R e b s w = Inr (ep, w') \<Longrightarrow> advances F w w'"
  by (rule steady_advances, rule endpoint_steady)

lemma check_binding_steady:
  assumes "check_binding F i binding w = Inr w'"
  shows "advances F w w'"
proof -
  from assms obtain target w1 where "endpoint_at F [] (whole_port i (text_at binding ''port'')) True False w = Inr (target, w1)"
    and "still w1 w'"
    unfolding check_binding_def by (elim ebind_InrE) (auto elim!: ebind_InrE)
  then show ?thesis by (rule advances_trans [OF advances_endpoint advances_still])
qed

lemma check_inputs_advances:
  assumes "check_inputs F (i, node) w = Inr w'"
  shows "advances F w w' \<and> (\<exists>ps. map_of (pw_ports w') i = Some ps)"
proof -
  from assms obtain ps w1 where p: "ports_at F [] i w = Inr (ps, w1)" and "advances F w1 w'"
    unfolding check_inputs_def
    by (auto simp: ebind_Inr_conv split: if_split_asm dest: foldE_advances [OF _ check_binding_steady])
  have "advances F w w1" by (rule steady_advances) (rule ports_at_steady [OF p])
  moreover have "map_of (pw_ports w') i = Some ps"
    using \<open>advances F w1 w'\<close> ports_steady(1) [OF p] work_growsD(2) by (auto simp: advances_def)
  ultimately show ?thesis using \<open>advances F w1 w'\<close> advances_trans by blast
qed

lemma check_flow_parts:
  assumes "check_flow F flow w = Inr w'"
  obtains source target w1 w2 w3 where
    "endpoint_at F [] (part flow ''from'') False False w = Inr (source, w1)"
    "endpoint_at F [] (part flow ''to'') True False w1 = Inr (target, w2)"
    "round_of F (ep_node source) = round_of F (ep_node target)"
    "compatible (ep_contract source) (ep_contract target) = Inr ()"
    "dataEdge F (ep_node source) (ep_node target) w2 = Inr w3" "still w3 w'"
proof -
  from assms obtain source w1 where s: "endpoint_at F [] (part flow ''from'') False False w = Inr (source, w1)"
    and rest: "ebind (endpoint_at F [] (part flow ''to'') True False w1) (\<lambda>(target, w2).
     ebind (core_check (round_of F (ep_node source) = round_of F (ep_node target))) (\<lambda>_.
     ebind (compatible (ep_contract source) (ep_contract target)) (\<lambda>_.
     ebind (dataEdge F (ep_node source) (ep_node target) w2) (\<lambda>w3.
       linked (node_target (ep_node target)) (node_target (ep_node source)) ''plan_node''
         (add_supply (ep_node target) (ep_port target) (ep_path target) (FromLink (part flow ''from'')) w3))))) = Inr w'"
    unfolding check_flow_def by (rule ebind_InrE) auto
  from rest obtain target w2 where t: "endpoint_at F [] (part flow ''to'') True False w1 = Inr (target, w2)"
    and rest: "ebind (core_check (round_of F (ep_node source) = round_of F (ep_node target))) (\<lambda>_.
     ebind (compatible (ep_contract source) (ep_contract target)) (\<lambda>_.
     ebind (dataEdge F (ep_node source) (ep_node target) w2) (\<lambda>w3.
       linked (node_target (ep_node target)) (node_target (ep_node source)) ''plan_node''
         (add_supply (ep_node target) (ep_port target) (ep_path target) (FromLink (part flow ''from'')) w3)))) = Inr w'"
    by (rule ebind_InrE) auto
  from rest obtain w3 where "round_of F (ep_node source) = round_of F (ep_node target)"
    "compatible (ep_contract source) (ep_contract target) = Inr ()"
    "dataEdge F (ep_node source) (ep_node target) w2 = Inr w3"
    "linked (node_target (ep_node target)) (node_target (ep_node source)) ''plan_node''
         (add_supply (ep_node target) (ep_port target) (ep_path target) (FromLink (part flow ''from'')) w3) = Inr w'"
    by (auto simp: ebind_Inr_conv)
  then show thesis using that s t still_trans [OF still_add_supply still_linked] by blast
qed

lemma check_flow_advances:
  assumes "check_flow F flow w = Inr w'"
  shows "advances F w w'"
  by (rule check_flow_parts [OF assms])
    (blast intro: advances_trans advances_endpoint advances_still dataEdge_advances)

text \<open>What a link establishes.\<close>

definition link_sound :: "plan_frame \<Rightarrow> plan_work \<Rightarrow> json \<Rightarrow> bool" where
  "link_sound F w flow \<longleftrightarrow>
     (\<exists>source target.
       endpoint_at F [] (part flow ''from'') False False w = Inr (source, w) \<and>
       endpoint_at F [] (part flow ''to'') True False w = Inr (target, w) \<and>
       compatible (ep_contract source) (ep_contract target) = Inr () \<and>
       round_of F (ep_node source) = round_of F (ep_node target) \<and>
       ordered F (ep_node source) (ep_node target) = Inr () \<and>
       (ep_node source, ep_node target) \<in> edges_of (pw_graph w))"

lemma link_sound_grows:
  assumes "link_sound F w flow" and g: "work_grows w w'"
  shows "link_sound F w' flow"
  using assms(1) endpoint_again [OF _ g, of F _ _ _ _ w] work_growsD(3) [OF g] unfolding link_sound_def by blast

lemma node_at_member: "node_at F r t = Inr i \<Longrightarrow> i \<in> set (map fst (pf_nodes F))"
  unfolding node_at_def by (rule localNode_member)

lemma endpoint_member:
  assumes "endpoint_at F R e b s w = Inr (ep, w')"
  shows "ep_node ep \<in> set (map fst (pf_nodes F))"
proof -
  from assms obtain i where i: "node_at F (pw_registry w) (part e ''node_ref'') = Inr i" and "ep_node ep = i"
    unfolding endpoint_at.simps [of F R e b s w]
    by (elim ebind_InrE) (auto simp: ebind_Inr_conv split: option.split_asm port_source.split_asm)
  with node_at_member [OF i] show ?thesis by simp
qed

lemma check_flow_sound:
  assumes "check_flow F flow w = Inr w'" and graph: "map fst (pw_graph w) = map fst (pf_nodes F)"
  shows "link_sound F w' flow"
proof (rule check_flow_parts [OF assms(1)])
  fix source target w1 w2 w3
  assume s: "endpoint_at F [] (part flow ''from'') False False w = Inr (source, w1)"
    and t: "endpoint_at F [] (part flow ''to'') True False w1 = Inr (target, w2)"
    and c: "round_of F (ep_node source) = round_of F (ep_node target)" "compatible (ep_contract source) (ep_contract target) = Inr ()"
    and e: "dataEdge F (ep_node source) (ep_node target) w2 = Inr w3" and l: "still w3 w'"
  have g: "work_grows w1 w2" "work_grows w2 w3" "work_grows w3 w'" "work_grows w w1"
    using endpoint_steady [OF s] endpoint_steady [OF t] dataEdge_advances [OF e] l
    by (auto simp: steady_def quiet_def advances_def still_def)
  note w3 = dataEdge_graph [OF e]
  note endpoint_member [OF s]
  moreover have "map fst (pw_graph w2) = map fst (pf_nodes F)" using g graph by (simp add: work_growsD(4))
  ultimately have "(ep_node source, ep_node target) \<in> edges_of (pw_graph w3)" using w3 by (simp add: edge_added)
  then have "(ep_node source, ep_node target) \<in> edges_of (pw_graph w')" using g(3) work_growsD(3) by blast
  moreover have "endpoint_at F [] (part flow ''from'') False False w' = Inr (source, w')"
    "endpoint_at F [] (part flow ''to'') True False w' = Inr (target, w')"
    using endpoint_again [OF s] endpoint_again [OF t] g work_grows_trans by blast+
  ultimately show ?thesis using c w3 by (auto simp: link_sound_def)
qed

text \<open>Feedback nodes.\<close>

lemma check_slot_still: "check_slot i state w = Inr w' \<Longrightarrow> still w w'"
  unfolding check_slot_def by (elim ebind_InrE) (rule still_linked)

lemma check_update_advances:
  assumes "check_update F i node update w = Inr w'"
  shows "advances F w w'"
proof -
  from assms obtain source w1 target w2 where
    "endpoint_at F [] (part update ''from'') False False w = Inr (source, w1)"
    "endpoint_at F [] (part update ''next_input'') True False w1 = Inr (target, w2)" "still w2 w'"
    unfolding check_update_def by (auto simp: ebind_Inr_conv Let_def split: option.split_asm if_split_asm)
  then show ?thesis using advances_trans advances_endpoint advances_still by blast
qed

lemma check_feedback_advances:
  assumes "check_feedback F (i, node) w = Inr w'"
  shows "advances F w w'"
proof (cases "is_kind node ''feedback''")
  case True
  let ?ending = "part node ''termination''"
  from assms True obtain w1 out w2 w3 where
    "(if is_kind ?ending ''condition'' then linked (node_target i) (part ?ending ''when'') ''condition'' w else Inr w) = Inr w1"
    and e: "endpoint_at F [] (part node ''output'') False False w1 = Inr (out, w2)"
    and s: "foldE (check_slot i) (items_at node ''state'') (w2\<lparr>pw_graph := add_edge (ep_node out) i (pw_graph w2)\<rparr>) = Inr w3"
    and f: "foldE (check_update F i node) (items_at node ''updates'') w3 = Inr w'"
    unfolding check_feedback_def Let_def by (auto simp: ebind_Inr_conv)
  then have "advances F w w1" using advances_still [OF still_linked] by (auto split: if_split_asm)
  moreover have "advances F (w2\<lparr>pw_graph := add_edge (ep_node out) i (pw_graph w2)\<rparr>) w3"
    by (rule foldE_advances [OF s]) (rule advances_still, erule check_slot_still)
  moreover have "advances F w3 w'" by (rule foldE_advances [OF f]) (erule check_update_advances)
  ultimately show ?thesis
    by (rule advances_trans [OF _ advances_trans [OF advances_endpoint [OF e] advances_trans [OF advances_graph advances_trans]]])
qed (use assms in \<open>simp add: check_feedback_def\<close>)

end
