(* ===== verification/PlanAccepted.thy ===== *)
theory PlanAccepted
  imports PlanSound
begin

text \<open>
  What an accepted payload has, for all its plans: the plans of \<open>check_plan\<close> are sound, every later step of
  \<open>checked_graphs\<close> keeps them so (\<open>plans_grow\<close>), and the two cycle checks apply to the final graphs.
\<close>

section \<open>The tree of a plan keeps the records\<close>

lemma child_same: "child plan_id ids parent target t = Inr t' \<Longrightarrow> same_records (pt_registry t) (pt_registry t')"
  unfolding child_def by (elim ebind_InrE) (auto simp: emap_Inr_conv split: if_split_asm dest: same_link [THEN conjunct1] elim: link_records_eq
    simp: same_records_def)

lemma all_children_same:
  "all_children plan_id ids parent cs t = Inr t' \<Longrightarrow> same_records (pt_registry t) (pt_registry t')"
  by (induction cs arbitrary: t) (auto simp: ebind_Inr_conv dest: child_same intro: same_records_trans)

lemma link_records_same:
  "link_records source target mandatory kinds role r = Inr (e, r') \<Longrightarrow> same_records r r'"
  by (erule link_records_eq) (simp_all add: same_records_def)

lemma node_children_same:
  assumes "node_children judgment_id plan_id ids node t = Inr t'"
  shows "same_records (pt_registry t) (pt_registry t')"
proof (cases "pn_kind node")
  case (BranchNode policy_ref)
  from assms show ?thesis
    unfolding node_children_def BranchNode plan_kind.case
    by (elim ebind_InrE) (auto simp: ebind_Inr_conv split: if_split_asm option.split_asm
      dest!: link_records_same child_same intro: same_records_trans)
qed (use assms in \<open>auto simp: node_children_def split: if_split_asm dest: all_children_same child_same\<close>)

lemma all_nodes_same:
  "all_nodes judgment_id plan_id ids ns t = Inr t' \<Longrightarrow> same_records (pt_registry t) (pt_registry t')"
  by (induction ns arbitrary: t) (auto simp: ebind_Inr_conv dest: node_children_same intro: same_records_trans)

lemma link_nodes_same: "link_nodes plan_id is r = Inr r' \<Longrightarrow> same_records r r'"
  by (induction "is" arbitrary: r) (auto simp: ebind_Inr_conv dest: link_records_same intro: same_records_trans)

lemma plan_structure_same:
  assumes "plan_structure r judgment_id plan_id start nodes = Inr (root_id, t)"
  shows "same_records r (pt_registry t) \<and> distinct (map pn_id nodes)"
proof -
  from assms obtain r1 where "distinct (map pn_id nodes)" "link_nodes plan_id (map pn_id nodes) r = Inr r1"
    "all_nodes judgment_id plan_id (map pn_id nodes) nodes
        \<lparr>pt_registry = r1, pt_parents = [], pt_children = map (\<lambda>i. (i, [])) (map pn_id nodes)\<rparr> = Inr t"
    by (auto simp: plan_structure_def Let_def ebind_Inr_conv split: if_split_asm)
  then show ?thesis using link_nodes_same all_nodes_same same_records_trans by fastforce
qed

text \<open>The root is the node the plan declares as its root.\<close>

lemma plan_structure_root:
  assumes "plan_structure r judgment_id plan_id start nodes = Inr (root_id, t)"
  shows "\<exists>e. get_record r (Some start) (Some [''plan_node'']) = Inr (Some e) \<and>
    get_opt (Some (re_target e)) ''id'' = Some (JStr root_id) \<and>
    get_opt (Some (re_owner e)) ''kind'' = Some (js ''plan'') \<and> get_opt (Some (re_owner e)) ''id'' = Some (JStr plan_id)"
proof -
  from assms have "localNode (pt_registry t) plan_id (map pn_id nodes) (Some start) = Inr root_id"
    by (auto simp: plan_structure_def Let_def ebind_Inr_conv split: if_split_asm)
  moreover have "get_record (pt_registry t) (Some start) (Some [''plan_node'']) = get_record r (Some start) (Some [''plan_node''])"
    by (rule same_get) (use plan_structure_same [OF assms] in simp)
  ultimately show ?thesis
    by (cases "get_record r (Some start) (Some [''plan_node''])")
      (auto simp: localNode_def split: option.split_asm json.split_asm if_split_asm)
qed

section \<open>One plan\<close>

definition plan_sound :: "plan_frame \<Rightarrow> plan_work \<Rightarrow> bool" where
  "plan_sound F w \<longleftrightarrow>
     (\<forall>flow \<in> set (items_at (pf_plan F) ''links''). link_sound F w flow) \<and> (\<forall>(i, node) \<in> set (pf_nodes F). noted F node w)"

lemma plan_sound_grows: "plan_sound F w \<Longrightarrow> work_grows w w' \<Longrightarrow> plan_sound F w'"
  using link_sound_grows noted_grows by (fastforce simp: plan_sound_def)

lemma check_plan_sound:
  assumes "check_plan r calls judgment plan = Inr cx" and key: "text_at judgment ''id'' \<in> set (map fst calls)"
  defines "w \<equiv> cx_work cx" and "F \<equiv> cx_frame cx"
  shows "same_records r (pw_registry w)" "edges_of calls \<subseteq> edges_of (pw_calls w)" "map fst (pw_calls w) = map fst calls"
    "frame_id F = text_at judgment ''id''" "plan_sound F w"
proof -
  from assms(1) obtain root_id t w1 w2 w3 where
    s: "plan_structure r (text_at judgment ''id'') (text_at plan ''id'') (part plan ''root'')
      (map node_view (items_at plan ''nodes'')) = Inr (root_id, t)"
    and c: "foldE (check_inputs (plan_frame_of judgment plan t)) (pf_nodes (plan_frame_of judgment plan t)) (first_work plan t calls) = Inr w1"
      "foldE (check_flow (plan_frame_of judgment plan t)) (items_at plan ''links'') w1 = Inr w2"
      "foldE (check_feedback (plan_frame_of judgment plan t)) (pf_nodes (plan_frame_of judgment plan t)) w2 = Inr w3"
      "cx = \<lparr>cx_frame = plan_frame_of judgment plan t, cx_work = w3\<rparr>"
    by (auto simp: check_plan_def ebind_Inr_conv Let_def)
  have F: "F = plan_frame_of judgment plan t" and "w = w3" by (simp_all add: F_def w_def c(4))
  note i = c(1) [folded F] and l = c(2) [folded F] and f = c(3) [folded F \<open>w = w3\<close>]
  let ?w0 = "first_work plan t calls"
  have view: "map pn_id (map node_view (items_at plan ''nodes'')) = map fst (pf_nodes F)"
    by (simp add: F plan_frame_of_def node_view_def o_def)
  note st = plan_structure_same [OF s, unfolded view]
  show id: "frame_id F = text_at judgment ''id''" by (simp add: F plan_frame_of_def)
  have first: "noted_all F ?w0" "map fst (pw_calls ?w0) = map fst calls" "map fst (pw_graph ?w0) = map fst (pf_nodes F)"
    by (simp_all add: noted_all_def first_work_def F plan_frame_of_def o_def)
  have a1: "advances F ?w0 w1" by (rule foldE_advances [OF i]) (auto dest: check_inputs_advances)
  have a2: "advances F w1 w2" by (rule foldE_advances [OF l]) (rule check_flow_advances)
  have a3: "advances F w2 w" by (rule foldE_advances [OF f]) (auto dest: check_feedback_advances)
  have g: "work_grows ?w0 w" "work_grows w1 w" "work_grows w2 w"
    using advances_trans [OF a1 advances_trans [OF a2 a3]] advances_trans [OF a2 a3] a3 by (simp_all add: advances_def)
  show "same_records r (pw_registry w)" "edges_of calls \<subseteq> edges_of (pw_calls w)" "map fst (pw_calls w) = map fst calls"
    using work_growsD [OF g(1)] same_records_trans [of r "pt_registry t" "pw_registry w"] st by (auto simp: first_work_def)
  have n1: "noted_all F w1" using a1 first key id by (simp add: advances_def)
  have "noted F node w" if m: "(x, node) \<in> set (pf_nodes F)" for x node
  proof -
    have "\<exists>ps. map_of (pw_ports w1) (fst (x, node)) = Some ps"
    proof (rule foldE_establishes [OF i, of "\<lambda>_. True" _ "\<lambda>p w. \<exists>ps. map_of (pw_ports w) (fst p) = Some ps"])
      fix p and v v' :: plan_work
      assume "check_inputs F p v = Inr v'"
      then have *: "advances F v v'" "\<exists>ps. map_of (pw_ports v') (fst p) = Some ps"
        using check_inputs_advances [of F "fst p" "snd p"] by simp_all
      then show "True \<and> (\<forall>z. (\<exists>ps. map_of (pw_ports v) (fst z) = Some ps) \<longrightarrow> (\<exists>ps. map_of (pw_ports v') (fst z) = Some ps))"
        by (simp add: advances_def work_grows_def) blast
      show "\<exists>ps. map_of (pw_ports v') (fst p) = Some ps" by (rule *(2))
    qed (use m in simp_all)
    moreover have "map_of (pf_nodes F) x = Some node" using m st by simp
    ultimately have "noted F node w1" using n1 by (auto simp: noted_all_def)
    then show ?thesis using g(2) by (rule noted_grows)
  qed
  moreover have "link_sound F w2 flow" if "flow \<in> set (items_at plan ''links'')" for flow
  proof (rule foldE_establishes [OF l, of "\<lambda>w. map fst (pw_graph w) = map fst (pf_nodes F)" _ "\<lambda>flow w. link_sound F w flow"])
    show "map fst (pw_graph w1) = map fst (pf_nodes F)" using a1 first work_growsD(4) [of ?w0 w1] by (simp add: advances_def)
    fix y and v v' :: plan_work
    assume c: "check_flow F y v = Inr v'" and p: "map fst (pw_graph v) = map fst (pf_nodes F)"
    have g: "work_grows v v'" using check_flow_advances [OF c] by (simp add: advances_def)
    then show "map fst (pw_graph v') = map fst (pf_nodes F) \<and> (\<forall>z. link_sound F v z \<longrightarrow> link_sound F v' z)"
      using p work_growsD(4) [OF g] link_sound_grows by simp
    show "link_sound F v' y" by (rule check_flow_sound [OF c p])
  qed (rule that)
  moreover have "pf_plan F = plan" by (simp add: F plan_frame_of_def)
  ultimately show "plan_sound F w" using link_sound_grows [OF _ g(3), of F] by (auto simp: plan_sound_def)
qed

section \<open>All plans only grow\<close>

definition plans_grow :: "plan_set \<Rightarrow> plan_set \<Rightarrow> bool" where
  "plans_grow ps ps' \<longleftrightarrow>
     same_records (pl_registry ps) (pl_registry ps') \<and>
     edges_of (pl_calls ps) \<subseteq> edges_of (pl_calls ps') \<and> map fst (pl_calls ps') = map fst (pl_calls ps) \<and>
     (\<forall>k cx'. map_of (pl_contexts ps') k = Some cx' \<longrightarrow>
        (\<exists>cx. map_of (pl_contexts ps) k = Some cx \<and> cx_frame cx' = cx_frame cx \<and> work_grows (opened ps cx) (opened ps' cx')))"

lemma plans_grow_refl [simp]: "plans_grow ps ps"
  by (simp add: plans_grow_def)

lemma plans_grow_trans:
  assumes a: "plans_grow x y" and b: "plans_grow y z"
  shows "plans_grow x z"
  unfolding plans_grow_def
proof (intro conjI allI impI)
  show "same_records (pl_registry x) (pl_registry z)" using a b same_records_trans unfolding plans_grow_def by blast
  show "edges_of (pl_calls x) \<subseteq> edges_of (pl_calls z)" "map fst (pl_calls z) = map fst (pl_calls x)"
    using a b unfolding plans_grow_def by auto
  fix k cx'
  assume "map_of (pl_contexts z) k = Some cx'"
  then obtain cy where y: "map_of (pl_contexts y) k = Some cy" "cx_frame cx' = cx_frame cy" "work_grows (opened y cy) (opened z cx')"
    using b unfolding plans_grow_def by blast
  then obtain cx where "map_of (pl_contexts x) k = Some cx" "cx_frame cy = cx_frame cx" "work_grows (opened x cx) (opened y cy)"
    using a unfolding plans_grow_def by blast
  then show "\<exists>cx. map_of (pl_contexts x) k = Some cx \<and> cx_frame cx' = cx_frame cx \<and> work_grows (opened x cx) (opened z cx')"
    using y work_grows_trans by auto
qed

lemma foldE_plans_grow:
  "foldE f xs ps = Inr ps' \<Longrightarrow> (\<And>x ps ps'. f x ps = Inr ps' \<Longrightarrow> plans_grow ps ps') \<Longrightarrow> plans_grow ps ps'"
  by (rule foldE_invariant [of f xs ps ps' "plans_grow ps"]) (auto intro: plans_grow_trans)

lemma opened_grows:
  assumes "same_records (pl_registry ps) (pl_registry ps')" "edges_of (pl_calls ps) \<subseteq> edges_of (pl_calls ps')"
    "map fst (pl_calls ps') = map fst (pl_calls ps)"
  shows "work_grows (opened ps cx) (opened ps' cx)"
  using assms by (simp add: work_grows_def opened_def)

lemma link_plans_grow: "link_plans source target kind ps = Inr ps' \<Longrightarrow> plans_grow ps ps'"
proof -
  assume "link_plans source target kind ps = Inr ps'"
  then obtain e r where l: "link_records source (Some target) True (Some [kind]) None (pl_registry ps) = Inr (e, r)"
    and ps': "ps' = ps\<lparr>pl_registry := r\<rparr>"
    by (auto simp: link_plans_def emap_Inr_conv)
  have "same_records (pl_registry ps) r" using l by (rule link_records_same)
  then show ?thesis using opened_grows [of ps ps'] by (simp add: plans_grow_def ps')
qed

text \<open>A step of one context.\<close>

lemma replace_grows:
  assumes cx: "map_of (pl_contexts ps) j = Some cx" and g: "work_grows (opened ps cx) w"
  shows "plans_grow ps \<lparr>pl_registry = pw_registry w, pl_calls = pw_calls w,
      pl_contexts = map_at j (\<lambda>c. c\<lparr>cx_work := w\<rparr>) (pl_contexts ps)\<rparr>" (is "plans_grow ps ?ps'")
proof -
  have s: "same_records (pl_registry ps) (pl_registry ?ps')" "edges_of (pl_calls ps) \<subseteq> edges_of (pl_calls ?ps')"
    "map fst (pl_calls ?ps') = map fst (pl_calls ps)"
    using g by (simp_all add: work_grows_def opened_def)
  have "\<exists>c. map_of (pl_contexts ps) k = Some c \<and> cx_frame c' = cx_frame c \<and> work_grows (opened ps c) (opened ?ps' c')"
    if "map_of (pl_contexts ?ps') k = Some c'" for k c'
  proof (cases "k = j")
    case True
    then have "c' = cx\<lparr>cx_work := w\<rparr>" using that cx by (simp add: map_of_map_at)
    then show ?thesis using True cx g by (simp add: opened_def)
  next
    case False
    then have "map_of (pl_contexts ps) k = Some c'" using that by (simp add: map_of_map_at)
    then show ?thesis using opened_grows [OF s] by blast
  qed
  then show ?thesis using s by (simp add: plans_grow_def)
qed

lemma with_context_grow:
  assumes "with_context j f ps = Inr ps'" and f: "\<And>F w w'. f F w = Inr w' \<Longrightarrow> work_grows w w'"
  shows "plans_grow ps ps'"
proof -
  from assms(1) obtain cx w where "map_of (pl_contexts ps) j = Some cx" "f (cx_frame cx) (opened ps cx) = Inr w"
    "ps' = \<lparr>pl_registry = pw_registry w, pl_calls = pw_calls w, pl_contexts = map_at j (\<lambda>c. c\<lparr>cx_work := w\<rparr>) (pl_contexts ps)\<rparr>"
    by (auto simp: with_context_def emap_Inr_conv split: option.splits)
  then show ?thesis using replace_grows f by blast
qed

section \<open>The steps of a policy\<close>

lemma check_candidate_grow: "check_candidate candidate ps = Inr ps' \<Longrightarrow> plans_grow ps ps'"
  unfolding check_candidate_def by (elim ebind_InrE) (auto dest: link_plans_grow)

lemma candidate_entry_grow: "candidate_entry policy etarget outcome ps = Inr (x, ps') \<Longrightarrow> plans_grow ps ps'"
  unfolding candidate_entry_def
  by (elim ebind_InrE) (auto simp: ebind_Inr_conv split: option.split_asm dest: link_plans_grow)

lemma branch_edge_grows: "branch_edge F source branch w = Inr w' \<Longrightarrow> advances F w w'"
  unfolding branch_edge_def by (elim ebind_InrE) (rule dataEdge_advances)

lemma emitted_output_advances:
  assumes "emitted_output policy etarget outcome F w = Inr (c, w')"
  shows "advances F w w'"
proof -
  from assms obtain source w1 w2 w3 where e: "endpoint_at F [] (part outcome ''from'') False False w = Inr (source, w1)"
    and b: "foldE (branch_edge F (ep_node source)) (branch_nodes policy F) w1 = Inr w2"
    and l: "linked etarget (node_target (ep_node source)) ''plan_node'' w2 = Inr w3"
      "linked etarget (part outcome ''contract_ref'') ''contract'' w3 = Inr w'"
    unfolding emitted_output_def by (auto simp: ebind_Inr_conv)
  have "advances F w1 w2" by (rule foldE_advances [OF b]) (rule branch_edge_grows)
  from advances_trans [OF advances_endpoint [OF e] advances_trans [OF this
      advances_still [OF still_trans [OF still_linked [OF l(1)] still_linked [OF l(2)]]]]]
  show ?thesis .
qed

lemma output_entry_grow:
  assumes "output_entry judgment policy etarget outcome ps = Inr (x, ps')"
  shows "plans_grow ps ps'"
proof -
  let ?j = "text_at judgment ''id''"
  from assms obtain cx c w where "map_of (pl_contexts ps) ?j = Some cx"
    "emitted_output policy etarget outcome (cx_frame cx) (opened ps cx) = Inr (c, w)"
    "ps' = \<lparr>pl_registry = pw_registry w, pl_calls = pw_calls w, pl_contexts = map_at ?j (\<lambda>c. c\<lparr>cx_work := w\<rparr>) (pl_contexts ps)\<rparr>"
    by (auto simp: output_entry_def emap_Inr_conv split: option.splits)
  then show ?thesis using replace_grows emitted_output_advances by (simp add: advances_def)
qed

lemma check_entry_grow:
  assumes "check_entry judgment policy entry (ps, known) = Inr (ps', known')"
  shows "plans_grow ps ps'"
proof -
  let ?etarget = "js_ref ''branch_entry'' (part entry ''id'')" and ?outcome = "part entry ''then''"
  from assms obtain ps1 ps2 x where "link_plans (js_ref ''policy'' (part policy ''id'')) ?etarget ''branch_entry'' ps = Inr ps1"
    "link_plans ?etarget (part entry ''when'') ''condition'' ps1 = Inr ps2"
    and b: "(if is_kind ?outcome ''candidate'' then candidate_entry policy ?etarget ?outcome ps2
       else output_entry judgment policy ?etarget ?outcome ps2) = Inr (x, ps')"
    unfolding check_entry_def Let_def by (auto simp: ebind_Inr_conv split del: if_split)
  then have "plans_grow ps ps1" "plans_grow ps1 ps2" by (simp_all add: link_plans_grow)
  moreover have "plans_grow ps2 ps'" using b candidate_entry_grow output_entry_grow by (simp split: if_split_asm)
  ultimately show ?thesis using plans_grow_trans by blast
qed

lemma check_entries_grow:
  "foldE (check_entry judgment policy) es (ps, known) = Inr (ps', known') \<Longrightarrow> plans_grow ps ps'"
  using foldE_invariant [of "check_entry judgment policy" es "(ps, known)" "(ps', known')" "\<lambda>s. plans_grow ps (fst s)"]
    check_entry_grow plans_grow_trans by fastforce

lemma check_no_match_grow: "check_no_match ptarget outcome out ps = Inr ps' \<Longrightarrow> plans_grow ps ps'"
  unfolding check_no_match_def
  by (auto simp: ebind_Inr_conv dest: link_plans_grow split: if_split_asm)

lemma check_collect_grow: "check_collect ptarget policy out known ps = Inr ps' \<Longrightarrow> plans_grow ps ps'"
  unfolding check_collect_def Let_def by (elim ebind_InrE) (auto dest: link_plans_grow)

lemma fold_add_edge:
  "(\<And>x. x \<in> set xs \<Longrightarrow> f x = id \<or> (\<exists>a b. f x = add_edge a b)) \<Longrightarrow>
    edges_of g \<subseteq> edges_of (fold f xs g) \<and> map fst (fold f xs g) = map fst g"
proof (induction xs arbitrary: g)
  case (Cons x xs)
  have "edges_of (f x g) \<subseteq> edges_of (fold f xs (f x g)) \<and> map fst (fold f xs (f x g)) = map fst (f x g)"
    using Cons by simp
  moreover have "edges_of g \<subseteq> edges_of (f x g) \<and> map fst (f x g) = map fst g"
    using Cons.prems [of x] edges_add_edge by fastforce
  ultimately show ?case by auto
qed simp

lemma merge_edges_grow: "edges_of g \<subseteq> edges_of (merge_edges policy m g) \<and> map fst (merge_edges policy m g) = map fst g"
  unfolding merge_edges_def by (rule fold_add_edge) auto

lemma check_authored_grows:
  assumes "check_authored ptarget policy out F w = Inr w'"
  shows "work_grows w w'"
proof -
  let ?combine = "part policy ''combine''"
  let ?merge = "text_at (part ?combine ''merge_node_ref'') ''id''"
  from assms obtain branch where b: "branch_nodes policy F = [branch]"
    by (auto simp: check_authored_def Let_def split: list.split_asm)
  from assms b obtain input w1 where
    i: "endpoint_at F [] (jo [(''node_ref'', part ?combine ''merge_node_ref''), (''port'', part ?combine ''input_port''),
         (''field_path'', JArr [])]) True True w = Inr (input, w1)"
    and rest: "ebind (endpoint_at F [] (jo [(''node_ref'', part ?combine ''merge_node_ref''), (''port'', part ?combine ''output_port''),
         (''field_path'', JArr [])]) False False w1) (\<lambda>(merged, w2).
       case ep_contract input of
         Some (Emissions c) \<Rightarrow>
           ebind (identity (pw_registry w2) (part c ''policy_ref'')) (\<lambda>a. ebind (identity (pw_registry w2) ptarget) (\<lambda>b.
           ebind (core_check (a = b)) (\<lambda>_.
           ebind (compatible (ep_contract merged) out) (\<lambda>_.
             Inr ((add_supply ?merge (text_at ?combine ''input_port'') [] (FromPolicy ptarget) w2)
                    \<lparr>pw_graph := merge_edges policy ?merge (add_edge ?merge branch (pw_graph w2))\<rparr>)))))
       | _ \<Rightarrow> registry_fail) = Inr w'"
    unfolding check_authored_def Let_def by (simp only: list.case) (elim ebind_InrE, auto)
  from rest obtain merged w2 where
    m: "endpoint_at F [] (jo [(''node_ref'', part ?combine ''merge_node_ref''), (''port'', part ?combine ''output_port''),
         (''field_path'', JArr [])]) False False w1 = Inr (merged, w2)"
    and w': "w' = (add_supply ?merge (text_at ?combine ''input_port'') [] (FromPolicy ptarget) w2)
       \<lparr>pw_graph := merge_edges policy ?merge (add_edge ?merge branch (pw_graph w2))\<rparr>"
    by (rule ebind_InrE) (cases "ep_contract input", auto simp: ebind_Inr_conv split: contract.split_asm)
  have "edges_of (pw_graph w2) \<subseteq> edges_of (pw_graph w')" "map fst (pw_graph w') = map fst (pw_graph w2)"
    using subset_trans [OF edges_add_edge merge_edges_grow [THEN conjunct1]]
      merge_edges_grow [of "add_edge ?merge branch (pw_graph w2)" policy ?merge] by (simp_all add: w')
  then have "work_grows w2 w'" by (simp add: work_grows_def w' add_supply_def)
  moreover have "advances F w w2" by (rule advances_trans [OF advances_endpoint [OF i] advances_endpoint [OF m]])
  ultimately show ?thesis using work_grows_trans by (auto simp: advances_def)
qed

lemma check_policy_grow:
  assumes "check_policy judgment ps = Inr ps'"
  shows "plans_grow ps ps'"
proof (cases "fld (part judgment ''formation_rule'') ''policy''")
  case (Some policy)
  let ?t = "js_ref ''policy'' (part policy ''id'')"
  from assms obtain out ps1 ps2 ps3 known ps4 where
    "link_plans ?t (part policy ''result_contract_ref'') ''contract'' ps = Inr ps1"
    and c: "foldE check_candidate (items_at policy ''candidates'') ps1 = Inr ps2"
    and e: "foldE (check_entry judgment policy) (items_at policy ''entries'') (ps2, []) = Inr (ps3, known)"
    and n: "check_no_match ?t (part policy ''on_no_match'') out ps3 = Inr ps4"
    and f: "(if is_kind (part policy ''combine'') ''collect'' then check_collect ?t policy out known ps4
             else if is_kind (part policy ''combine'') ''authored''
             then with_context (text_at judgment ''id'') (check_authored ?t policy out) ps4
             else Inr ps4) = Inr ps'"
    by (auto simp: check_policy_def Some Let_def ebind_Inr_conv split del: if_split)
  then have "plans_grow ps ps1" by (simp add: link_plans_grow)
  moreover have "plans_grow ps1 ps2" by (rule foldE_plans_grow [OF c]) (rule check_candidate_grow)
  moreover have "plans_grow ps2 ps3" by (rule check_entries_grow [OF e])
  moreover have "plans_grow ps3 ps4" by (rule check_no_match_grow [OF n])
  moreover have "plans_grow ps4 ps'"
    using f check_collect_grow with_context_grow [of _ "check_authored ?t policy out"] check_authored_grows
    by (auto split: if_split_asm)
  ultimately show ?thesis using plans_grow_trans by meson
qed (use assms in \<open>simp add: check_policy_def\<close>)

section \<open>The final checks leave the data graphs alone\<close>

lemma check_node_ports_quiet:
  assumes "check_node_ports F p w = Inr w'"
  shows "quiet w w'"
proof -
  obtain i node where p: "p = (i, node)" by fastforce
  have "w' = w \<or> (\<exists>ps. ports_at F [] i w = Inr (ps, w'))"
    using assms by (auto simp: p check_node_ports_def ebind_Inr_conv split: if_split_asm option.split_asm)
  then show ?thesis using ports_at_steady by (auto simp: steady_def)
qed

lemma check_result_quiet: "check_result F binding w = Inr w' \<Longrightarrow> quiet w w'"
  unfolding check_result_def by (elim ebind_InrE) (auto elim!: ebind_InrE dest!: endpoint_steady simp: steady_def)

lemma foldE_quiet:
  "foldE f xs w = Inr w' \<Longrightarrow> (\<And>x w w'. f x w = Inr w' \<Longrightarrow> quiet w w') \<Longrightarrow> quiet w w'"
  by (rule foldE_invariant [of f xs w w' "quiet w"]) (auto intro: quiet_trans)

lemma finish_work_quiet:
  assumes "finish_work F w = Inr w'"
  shows "quiet w w' \<and> acyclic (edges_of (pw_graph w'))"
proof -
  from assms obtain w1 where n: "foldE (check_node_ports F) (pf_nodes F) w = Inr w1"
    and a: "acyclic_check (pw_graph w1) = Inr ()"
    and r: "foldE (check_result F) (items_at (pf_plan F) ''result_bindings'') w1 = Inr w'"
    by (auto simp: finish_work_def ebind_Inr_conv)
  have "quiet w w1" by (rule foldE_quiet [OF n]) (rule check_node_ports_quiet)
  moreover have "quiet w1 w'" by (rule foldE_quiet [OF r]) (rule check_result_quiet)
  ultimately show ?thesis using a quiet_trans by (auto simp: acyclic_check_iff quiet_def)
qed

section \<open>Sound plan sets\<close>

definition set_sound :: "plan_set \<Rightarrow> bool" where
  "set_sound ps \<longleftrightarrow>
     (\<forall>k cx. map_of (pl_contexts ps) k = Some cx \<longrightarrow>
        frame_id (cx_frame cx) = k \<and> plan_sound (cx_frame cx) (opened ps cx))"

lemma set_sound_grow:
  assumes s: "set_sound ps" and g: "plans_grow ps ps'"
  shows "set_sound ps'"
  unfolding set_sound_def
proof (intro allI impI)
  fix k cx'
  assume "map_of (pl_contexts ps') k = Some cx'"
  then obtain cx where "map_of (pl_contexts ps) k = Some cx" "cx_frame cx' = cx_frame cx" "work_grows (opened ps cx) (opened ps' cx')"
    using g unfolding plans_grow_def by blast
  then show "frame_id (cx_frame cx') = k \<and> plan_sound (cx_frame cx') (opened ps' cx')"
    using s plan_sound_grows [of "cx_frame cx" "opened ps cx"] by (simp add: set_sound_def)
qed

lemma add_plan_sound:
  assumes a: "add_plan judgment ps = Inr ps'" and s: "set_sound ps" and k: "text_at judgment ''id'' \<in> set (map fst (pl_calls ps))"
  shows "set_sound ps' \<and> map fst (pl_calls ps') = map fst (pl_calls ps) \<and> same_records (pl_registry ps) (pl_registry ps')"
proof (cases "judgment_plan judgment")
  case None
  then show ?thesis using a s by (simp add: add_plan_def)
next
  case (Some plan)
  then obtain cx where c: "check_plan (pl_registry ps) (pl_calls ps) judgment plan = Inr cx"
    and ps': "ps' = \<lparr>pl_registry = pw_registry (cx_work cx), pl_calls = pw_calls (cx_work cx),
                     pl_contexts = upsert (text_at judgment ''id'') cx (pl_contexts ps)\<rparr>"
    using a by (auto simp: add_plan_def emap_Inr_conv)
  note p = check_plan_sound [OF c k]
  have o: "opened ps' cx = cx_work cx" by (simp add: opened_def ps')
  have g: "work_grows (opened ps c) (opened ps' c)" for c
    by (rule opened_grows) (use p in \<open>simp_all add: ps'\<close>)
  have "set_sound ps'"
    unfolding set_sound_def
  proof (intro allI impI)
    fix j c
    assume m: "map_of (pl_contexts ps') j = Some c"
    show "frame_id (cx_frame c) = j \<and> plan_sound (cx_frame c) (opened ps' c)"
    proof (cases "j = text_at judgment ''id''")
      case True
      then show ?thesis using m p o by (simp add: ps')
    next
      case False
      then have "frame_id (cx_frame c) = j \<and> plan_sound (cx_frame c) (opened ps c)" using m s by (simp add: ps' set_sound_def)
      then show ?thesis using g plan_sound_grows by blast
    qed
  qed
  then show ?thesis using p by (simp add: ps')
qed

text \<open>What \<open>checked_graphs\<close> establishes.\<close>

theorem checked_sound:
  assumes "checked_graphs judgments r = Inr ps"
  shows "set_sound ps" "map fst (pl_calls ps) = map (\<lambda>j. text_at j ''id'') judgments" "acyclic (edges_of (pl_calls ps))"
    "map_of (pl_contexts ps) k = Some cx \<Longrightarrow> acyclic (edges_of (pw_graph (cx_work cx)))"
proof -
  let ?ids = "map (\<lambda>j. text_at j ''id'') judgments"
  let ?start = "\<lparr>pl_registry = r, pl_calls = map (\<lambda>j. (text_at j ''id'', [])) judgments, pl_contexts = []\<rparr>"
  from assms obtain ps1 ps2 where
    p1: "foldE add_plan judgments ?start = Inr ps1" and p2: "foldE check_policy judgments ps1 = Inr ps2"
    and p3: "foldE (\<lambda>j. with_context j finish_work) (map fst (pl_contexts ps2)) ps2 = Inr ps"
    and a: "acyclic_check (pl_calls ps) = Inr ()"
    by (auto simp: checked_graphs_def ebind_Inr_conv)
  have s1: "set_sound ps1 \<and> map fst (pl_calls ps1) = ?ids"
  proof (rule foldE_invariant [OF p1, of "\<lambda>ps. set_sound ps \<and> map fst (pl_calls ps) = ?ids"])
    show "set_sound ?start \<and> map fst (pl_calls ?start) = ?ids" by (simp add: set_sound_def o_def)
  next
    fix j s t
    assume j: "j \<in> set judgments" "add_plan j s = Inr t" "set_sound s \<and> map fst (pl_calls s) = ?ids"
    then have "text_at j ''id'' \<in> set (map fst (pl_calls s))" by simp
    then show "set_sound t \<and> map fst (pl_calls t) = ?ids" using add_plan_sound [OF j(2)] j(3) by simp
  qed
  have g2: "plans_grow ps1 ps2" by (rule foldE_plans_grow [OF p2]) (rule check_policy_grow)
  have fin: "with_context j finish_work s = Inr t \<Longrightarrow> plans_grow s t" for j s t
    by (erule with_context_grow) (simp add: finish_work_quiet [THEN conjunct1, THEN quiet_grows])
  have g3: "plans_grow ps2 ps" by (rule foldE_plans_grow [OF p3]) (rule fin)
  show "set_sound ps" using s1 g2 g3 set_sound_grow by blast
  show "map fst (pl_calls ps) = ?ids" using s1 g2 g3 by (simp add: plans_grow_def)
  show "acyclic (edges_of (pl_calls ps))" using a by (simp add: acyclic_check_iff)
  let ?Q = "\<lambda>j ps. \<forall>cx. map_of (pl_contexts ps) j = Some cx \<longrightarrow> acyclic (edges_of (pw_graph (cx_work cx)))"
  assume m: "map_of (pl_contexts ps) k = Some cx"
  then obtain c2 where "map_of (pl_contexts ps2) k = Some c2" using g3 unfolding plans_grow_def by blast
  then have k: "k \<in> set (map fst (pl_contexts ps2))" by (force dest: map_of_SomeD)
  have "?Q k ps"
  proof (rule foldE_establishes [OF p3, of "\<lambda>_. True" _ ?Q])
    fix j s t
    assume "with_context j finish_work s = Inr t"
    then obtain c w where c: "map_of (pl_contexts s) j = Some c" "finish_work (cx_frame c) (opened s c) = Inr w"
      and t: "pl_contexts t = map_at j (\<lambda>c. c\<lparr>cx_work := w\<rparr>) (pl_contexts s)"
      by (auto simp: with_context_def emap_Inr_conv split: option.splits)
    have "acyclic (edges_of (pw_graph w))" using finish_work_quiet [OF c(2)] by simp
    then show "?Q j t" using c(1) by (simp add: t map_of_map_at)
    then show "True \<and> (\<forall>z. ?Q z s \<longrightarrow> ?Q z t)" using t by (auto simp: map_of_map_at split: if_splits)
  qed (use k in simp_all)
  then show "acyclic (edges_of (pw_graph (cx_work cx)))" using m by simp
qed

section \<open>The recursion over the judgments ends\<close>

lemma over_nodes_total:
  assumes "\<And>node j memo. node \<in> set nodes \<Longrightarrow> is_kind node ''judgment_use'' \<Longrightarrow> used_judgment r node = Inr (Some j) \<Longrightarrow>
      \<exists>res. call j memo = Some res"
  shows "\<exists>res. over_nodes r call nodes out memo = Some res"
  using assms
proof (induction nodes arbitrary: out memo)
  case (Cons node nodes)
  have rest: "\<exists>res. over_nodes r call nodes out memo = Some res" for out memo by (rule Cons.IH) (use Cons.prems in auto)
  consider (unit_use) "is_kind node ''use''" | (judgment_use) "\<not> is_kind node ''use''" "is_kind node ''judgment_use''"
    | (neither) "\<not> is_kind node ''use''" "\<not> is_kind node ''judgment_use''" by blast
  then show ?case
  proof cases
    case unit_use
    then show ?thesis using rest by (cases "unit_method r node") simp_all
  next
    case judgment_use
    show ?thesis
    proof (cases "used_judgment r node")
      case (Inr t)
      show ?thesis
      proof (cases t)
        case (Some j)
        obtain res where "call j memo = Some res" using Cons.prems [of node j memo] judgment_use Inr Some by auto
        then show ?thesis using judgment_use Inr Some rest by (cases res) auto
      qed (use judgment_use Inr rest in simp)
    qed (use judgment_use in simp)
  qed (use rest in simp)
qed simp

text \<open>What a judgment can reach through the judgments its plan uses.\<close>

definition reachable_calls :: "graph \<Rightarrow> jstring \<Rightarrow> jstring set" where
  "reachable_calls g i = {k \<in> vertices g. (i, k) \<in> (edges_of g)\<^sup>*}"

lemma reachable_calls_less:
  assumes a: "acyclic (edges_of g)" and e: "(i, j) \<in> edges_of g"
  shows "card (reachable_calls g j) < card (reachable_calls g i)"
proof (rule psubset_card_mono)
  show "finite (reachable_calls g i)" by (simp add: reachable_calls_def)
  have i: "i \<in> vertices g" using e succs_Nil [of i g] by (cases "i \<in> vertices g") (auto simp: edges_of_def)
  have "(j, i) \<notin> (edges_of g)\<^sup>*"
  proof
    assume "(j, i) \<in> (edges_of g)\<^sup>*"
    with e have "(i, i) \<in> (edges_of g)\<^sup>+" by (rule rtrancl_into_trancl2)
    with a show False by (simp add: acyclic_def)
  qed
  then have "i \<notin> reachable_calls g j" "i \<in> reachable_calls g i" using i by (simp_all add: reachable_calls_def)
  moreover have "reachable_calls g j \<subseteq> reachable_calls g i"
    using e by (auto simp: reachable_calls_def intro: converse_rtrancl_into_rtrancl)
  ultimately show "reachable_calls g j \<subset> reachable_calls g i" by blast
qed

lemma methods_total:
  assumes s: "set_sound ps" and a: "acyclic (edges_of (pl_calls ps))"
  shows "card (reachable_calls (pl_calls ps) i) < n \<Longrightarrow> \<exists>res. actualMethods n judgments ps i memo = Some res"
proof (induction n arbitrary: i memo)
  case (Suc n)
  show ?case
  proof (cases "map_of memo i")
    case None
    show ?thesis
    proof (cases "map_of (pl_contexts ps) i")
      case (Some cx)
      have k: "frame_id (cx_frame cx) = i" "plan_sound (cx_frame cx) (opened ps cx)" using s Some by (auto simp: set_sound_def)
      have "\<exists>res. over_nodes (pl_registry ps) (actualMethods n judgments ps) (contributing_nodes cx) [] memo = Some res"
      proof (rule over_nodes_total)
        fix node j memo'
        assume n: "node \<in> set (contributing_nodes cx)" "is_kind node ''judgment_use''" "used_judgment (pl_registry ps) node = Inr (Some j)"
        then have "noted (cx_frame cx) node (opened ps cx)" using k(2) by (auto simp: contributing_nodes_def plan_sound_def)
        then have "(i, j) \<in> edges_of (pl_calls ps)" using n k(1) by (simp add: noted_def opened_def)
        then have "card (reachable_calls (pl_calls ps) j) < n" using reachable_calls_less [OF a] Suc.prems by fastforce
        then show "\<exists>res. actualMethods n judgments ps j memo' = Some res" by (rule Suc.IH)
      qed
      then show ?thesis using None Some by auto
    qed (use None in simp)
  qed simp
qed simp

lemma over_nodes_more:
  assumes "over_nodes r call nodes out memo = Some res" and more: "\<And>j memo res. call j memo = Some res \<Longrightarrow> call' j memo = Some res"
  shows "over_nodes r call' nodes out memo = Some res"
  using assms(1)
proof (induction nodes arbitrary: out memo)
  case (Cons node nodes)
  then show ?case using more by (auto split: if_split_asm sum.split_asm option.split_asm)
qed simp

lemma methods_more:
  "actualMethods n judgments ps i memo = Some res \<Longrightarrow> n \<le> m \<Longrightarrow> actualMethods m judgments ps i memo = Some res"
proof (induction n arbitrary: m i memo res)
  case (Suc n)
  then obtain m' where m: "m = Suc m'" "n \<le> m'" by (cases m) auto
  have "over_nodes r (actualMethods n judgments ps) nodes out memo = Some x \<Longrightarrow>
      over_nodes r (actualMethods m' judgments ps) nodes out memo = Some x" for r nodes out memo x
    by (erule over_nodes_more) (erule Suc.IH [OF _ m(2)])
  then show ?case using Suc.prems(1) unfolding m(1)
    by (auto split: option.split_asm)
qed simp

theorem checked_methods_total:
  assumes "checked_graphs judgments r = Inr ps"
  shows "\<exists>res. \<forall>extra. actualMethods (Suc (length judgments) + extra) judgments ps i memo = Some res"
proof -
  note c = checked_sound [OF assms]
  let ?R = "reachable_calls (pl_calls ps) i"
  have v: "vertices (pl_calls ps) = set (map (\<lambda>j. text_at j ''id'') judgments)"
    by (simp only: vertices_def set_map [symmetric] c(2))
  have "card ?R \<le> card (vertices (pl_calls ps))" by (rule card_mono) (auto simp: reachable_calls_def)
  also have "\<dots> \<le> length judgments" using v card_length [of "map (\<lambda>j. text_at j ''id'') judgments"] by simp
  finally have "card ?R < Suc (length judgments)" by simp
  from methods_total [OF c(1,3) this] obtain res where "actualMethods (Suc (length judgments)) judgments ps i memo = Some res" by blast
  from methods_more [OF this le_add1] show ?thesis by blast
qed

end
