(* ===== verification/PlanMethods.thy ===== *)
theory PlanMethods
  imports PlanAccepted
begin

text \<open>
  What contributes to the result of a plan (\<open>contribute_reaches\<close>), the order of its data flow (\<open>flow_numbered\<close>),
  and the methods of an accepted judgment: every unit that contributes to a judgment that is not composite has the
  method the judgment declares (\<open>accepted_methods\<close>).
\<close>

section \<open>The nodes that contribute\<close>

text \<open>What has been seen and is no longer in the queue has all its successors among what has been seen.\<close>

lemma contribute_reaches:
  assumes "set queue \<subseteq> set seen" "\<forall>x \<in> set seen - set queue. set (succs g x) \<subseteq> set seen"
  shows "set (contribute g seen queue) = (edges_of g)\<^sup>* `` set seen"
  using assms
proof (induction g seen queue rule: contribute.induct)
  case (1 g seen)
  have "y \<in> set seen" if "(x, y) \<in> (edges_of g)\<^sup>*" "x \<in> set seen" for x y
    using that 1 by (induction rule: rtrancl_induct) (auto simp: edges_of_def)
  then show ?case by auto
next
  case (2 g seen n queue)
  let ?new = "unseen seen (succs g n)"
  have "set (contribute g (seen @ ?new) (queue @ ?new)) = (edges_of g)\<^sup>* `` set (seen @ ?new)"
  proof (rule "2.IH")
    show "set (queue @ ?new) \<subseteq> set (seen @ ?new)" using "2.prems"(1) by auto
    show "\<forall>x \<in> set (seen @ ?new) - set (queue @ ?new). set (succs g x) \<subseteq> set (seen @ ?new)"
      using "2.prems"(2) by auto
  qed
  moreover have "(edges_of g)\<^sup>* `` set (seen @ ?new) = (edges_of g)\<^sup>* `` set seen"
  proof -
    have "(n, y) \<in> (edges_of g)\<^sup>*" if "y \<in> set ?new" for y using that by (auto simp: edges_of_def)
    moreover have "n \<in> set seen" using "2.prems"(1) by simp
    ultimately show ?thesis by (auto intro: rtrancl_trans)
  qed
  ultimately show ?case by simp
qed

text \<open>
  What flows forward in a plan: along the edges of the data graph, and from the source of a feedback update
  to the input it sets for the next round.
\<close>

definition influences :: "plan_frame \<Rightarrow> graph \<Rightarrow> (jstring \<times> jstring) set" where
  "influences F g =
     {(a, b). (\<exists>targets. (a, targets) \<in> set g \<and> b \<in> set targets) \<or>
              (\<exists>i node update. (i, node) \<in> set (pf_nodes F) \<and> is_kind node ''feedback'' \<and>
                 update \<in> set (items_at node ''updates'') \<and>
                 a = text_at (part (part update ''from'') ''node_ref'') ''id'' \<and>
                 b = text_at (part (part update ''next_input'') ''node_ref'') ''id'')}"

lemma map_of_constant: "map_of (map (\<lambda>(i, n). (i, f i)) ps) k = (if k \<in> fst ` set ps then Some (f k) else None)"
  by (induction ps) auto

lemma reverse_edges_converse:
  "edges_of (reverse_edges F g) = {(a, b). (a, b) \<in> influences F g \<and> b \<in> fst ` set (pf_nodes F)}\<inverse>"
proof -
  have pick: "x \<in> set (map snd (filter (\<lambda>(t, s). t = i) ps)) \<longleftrightarrow> (i, x) \<in> set ps" for x i and ps :: "(jstring \<times> jstring) list"
    by force
  define data where "data = concat (map (\<lambda>(source, ts). map (\<lambda>t. (t, source)) ts) g)"
  define updates where "updates = concat (map (\<lambda>(i, node). if is_kind node ''feedback''
              then map (\<lambda>up. (text_at (part (part up ''next_input'') ''node_ref'') ''id'',
                              text_at (part (part up ''from'') ''node_ref'') ''id'')) (items_at node ''updates'')
              else []) (pf_nodes F))"
  have d: "(b, a) \<in> set data \<longleftrightarrow> (\<exists>targets. (a, targets) \<in> set g \<and> b \<in> set targets)" for a b
    by (force simp: data_def)
  have up: "(b, a) \<in> set updates \<longleftrightarrow> (\<exists>i node update. (i, node) \<in> set (pf_nodes F) \<and> is_kind node ''feedback'' \<and>
                 update \<in> set (items_at node ''updates'') \<and>
                 a = text_at (part (part update ''from'') ''node_ref'') ''id'' \<and>
                 b = text_at (part (part update ''next_input'') ''node_ref'') ''id'')" for a b
    by (fastforce simp: updates_def split: if_split_asm)
  have "(b, a) \<in> edges_of (reverse_edges F g) \<longleftrightarrow> b \<in> fst ` set (pf_nodes F) \<and> (b, a) \<in> set (data @ updates)" for a b
    by (simp add: edges_of_def succs_def reverse_edges_def Let_def map_of_constant data_def [symmetric]
        updates_def [symmetric] pick del: set_map set_filter set_append filter_append map_append)
  then have "(b, a) \<in> edges_of (reverse_edges F g) \<longleftrightarrow> b \<in> fst ` set (pf_nodes F) \<and> (a, b) \<in> influences F g" for a b
    by (simp only: set_append Un_iff d up influences_def mem_Collect_eq prod.case)
  then show ?thesis
    by (intro set_eqI, rename_tac x, case_tac x) (simp only: converse_iff mem_Collect_eq prod.case conj_commute)
qed

theorem contributing_sources:
  "set (contributing cx) =
     {n. \<exists>binding. binding \<in> set (items_at (pf_plan (cx_frame cx)) ''result_bindings'') \<and>
        (n, text_at (part (part binding ''from'') ''node_ref'') ''id'')
          \<in> {(a, b). (a, b) \<in> influences (cx_frame cx) (pw_graph (cx_work cx)) \<and>
                     b \<in> fst ` set (pf_nodes (cx_frame cx))}\<^sup>*}"
proof -
  let ?g = "reverse_edges (cx_frame cx) (pw_graph (cx_work cx))"
  have "set (contributing cx) = (edges_of ?g)\<^sup>* `` set (bound_nodes (cx_frame cx))"
    unfolding contributing_def Let_def by (rule contribute_reaches) simp_all
  then show ?thesis
    by (simp add: reverse_edges_converse rtrancl_converse bound_nodes_def) auto
qed

section \<open>The order of the data flow\<close>

lemma finite_edges_of [simp]: "finite (edges_of g)"
proof (rule finite_subset)
  show "edges_of g \<subseteq> vertices g \<times> (\<Union>ts \<in> snd ` set g. set ts)"
  proof
    fix e
    assume "e \<in> edges_of g"
    then obtain x y where e: "e = (x, y)" "y \<in> set (succs g x)" by (auto simp: edges_of_def)
    then have "x \<in> vertices g" using succs_Nil [of x g] by fastforce
    then show "e \<in> vertices g \<times> (\<Union>ts \<in> snd ` set g. set ts)" using e succs_targets [of g x] by auto
  qed
qed simp

lemma acyclic_numbered:
  assumes f: "finite E" and a: "acyclic E"
  shows "\<exists>step :: 'a \<Rightarrow> nat. \<forall>(x, y) \<in> E. step x < step y"
proof (intro exI ballI)
  fix e
  assume e: "e \<in> E"
  obtain x y where xy: "e = (x, y)" by fastforce
  have fin: "finite {z. (z, y) \<in> E\<^sup>+}"
    using finite_subset [of "{z. (z, y) \<in> E\<^sup>+}" "Domain E"] f by (auto simp: finite_Domain dest: tranclD)
  have "{z. (z, x) \<in> E\<^sup>+} \<subset> {z. (z, y) \<in> E\<^sup>+}"
    using e a by (auto simp: xy acyclic_def intro: trancl_into_trancl)
  from psubset_card_mono [OF fin this]
  show "case e of (x, y) \<Rightarrow> card {z. (z, x) \<in> E\<^sup>+} < card {z. (z, y) \<in> E\<^sup>+}" by (simp add: xy)
qed

lemma flow_numbered:
  assumes "checked_graphs judgments r = Inr ps" "map_of (pl_contexts ps) k = Some cx"
  defines "F \<equiv> cx_frame cx" and "w \<equiv> opened ps cx"
  shows "\<exists>step :: jstring \<Rightarrow> nat. \<forall>flow \<in> set (items_at (pf_plan F) ''links''). \<exists>source target.
    endpoint_at F [] (part flow ''from'') False False w = Inr (source, w) \<and>
    endpoint_at F [] (part flow ''to'') True False w = Inr (target, w) \<and>
    compatible (ep_contract source) (ep_contract target) = Inr () \<and>
    round_of F (ep_node source) = round_of F (ep_node target) \<and>
    ordered F (ep_node source) (ep_node target) = Inr () \<and>
    step (ep_node source) < step (ep_node target)"
proof -
  note c = checked_sound [OF assms(1)]
  have "acyclic (edges_of (pw_graph w))" using c(4) [OF assms(2)] by (simp add: w_def opened_def)
  from acyclic_numbered [OF finite_edges_of this] obtain step :: "jstring \<Rightarrow> nat"
    where step: "\<forall>(x, y) \<in> edges_of (pw_graph w). step x < step y" by blast
  have "plan_sound F w" using c(1) assms(2) by (simp add: set_sound_def F_def w_def)
  then have "link_sound F w flow" if "flow \<in> set (items_at (pf_plan F) ''links'')" for flow
    using that by (simp add: plan_sound_def)
  then show ?thesis using step unfolding link_sound_def by (intro exI [of _ step]) fast
qed

section \<open>The methods of a judgment\<close>

text \<open>A list of methods covers a plan when every unit that contributes has its method in it.\<close>

definition covers_units :: "plan_set \<Rightarrow> jstring \<Rightarrow> jstring list \<Rightarrow> bool" where
  "covers_units ps i ms \<longleftrightarrow>
     (\<forall>cx node. map_of (pl_contexts ps) i = Some cx \<longrightarrow> node \<in> set (contributing_nodes cx) \<longrightarrow> is_kind node ''use'' \<longrightarrow>
        (\<exists>m \<in> set ms. unit_method (pl_registry ps) node = Inr m))"

definition memo_covers :: "plan_set \<Rightarrow> settled_methods \<Rightarrow> bool" where
  "memo_covers ps memo \<longleftrightarrow> (\<forall>(i, ms) \<in> set memo. covers_units ps i ms)"

lemma set_add_all [simp]: "set (add_all ms seen) = set ms \<union> set seen"
  by (induction ms seen rule: add_all.induct) auto

lemma over_nodes_covers:
  assumes "over_nodes r call nodes out memo = Some (Inr (ms, memo'))" and p: "P memo"
    and call: "\<And>j memo ms memo'. call j memo = Some (Inr (ms, memo')) \<Longrightarrow> P memo \<Longrightarrow> P memo'"
  shows "P memo' \<and> set out \<subseteq> set ms \<and>
    (\<forall>node \<in> set nodes. is_kind node ''use'' \<longrightarrow> (\<exists>m \<in> set ms. unit_method r node = Inr m))"
  using assms(1) p
proof (induction nodes arbitrary: out memo)
  case (Cons node nodes)
  show ?case
  proof (cases "is_kind node ''use''")
    case True
    then obtain m where m: "unit_method r node = Inr m" "over_nodes r call nodes (add_all [m] out) memo = Some (Inr (ms, memo'))"
      using Cons.prems(1) by (auto split: sum.split_asm)
    from Cons.IH [OF m(2) Cons.prems(2)] show ?thesis using m(1) by auto
  next
    case False
    have rest: ?thesis if o: "over_nodes r call nodes out1 memo1 = Some (Inr (ms, memo'))" "P memo1" "set out \<subseteq> set out1" for out1 memo1
      using Cons.IH [OF o(1,2)] o(3) False by auto
    show ?thesis
    proof (cases "is_kind node ''judgment_use''")
      case True
      with False Cons.prems(1) obtain t where t: "used_judgment r node = Inr t" by (auto split: sum.split_asm)
      show ?thesis
      proof (cases t)
        case None
        then show ?thesis using Cons.prems True False t by (intro rest [of out memo]) simp_all
      next
        case (Some j)
        with Cons.prems(1) True False t obtain qs memo1 where "call j memo = Some (Inr (qs, memo1))"
          "over_nodes r call nodes (add_all qs out) memo1 = Some (Inr (ms, memo'))"
          by (auto split: option.split_asm sum.split_asm)
        then show ?thesis using call Cons.prems(2) by (intro rest [of "add_all qs out" memo1]) auto
      qed
    qed (use Cons.prems False in \<open>intro rest [of out memo]; simp\<close>)
  qed
qed simp

lemma actual_methods_cover:
  "actualMethods n judgments ps i memo = Some (Inr (ms, memo')) \<Longrightarrow> memo_covers ps memo \<Longrightarrow>
    covers_units ps i ms \<and> memo_covers ps memo'"
proof (induction n arbitrary: i memo ms memo')
  case (Suc n)
  show ?case
  proof (cases "map_of memo i")
    case (Some qs)
    then show ?thesis using Suc.prems by (auto simp: memo_covers_def dest: map_of_SomeD)
  next
    case None
    have m: "memo_covers ps (memo1 @ [(i, ms)])" if "memo_covers ps memo1" "covers_units ps i ms" for memo1
      using that by (simp add: memo_covers_def)
    show ?thesis
    proof (cases "map_of (pl_contexts ps) i")
      case None
      then have "covers_units ps i ms" by (simp add: covers_units_def)
      moreover have "memo' = memo @ [(i, ms)]" using Suc.prems(1) None \<open>map_of memo i = None\<close>
        by (auto simp: emap_Inr_conv split: option.split_asm)
      ultimately show ?thesis using m [OF Suc.prems(2)] by simp
    next
      case (Some cx)
      then obtain memo1 where o: "over_nodes (pl_registry ps) (actualMethods n judgments ps) (contributing_nodes cx) [] memo = Some (Inr (ms, memo1))"
        and memo': "memo' = memo1 @ [(i, ms)]"
        using Suc.prems(1) None by (auto simp: emap_Inr_conv)
      have "memo_covers ps memo1 \<and> set [] \<subseteq> set ms \<and> (\<forall>node \<in> set (contributing_nodes cx). is_kind node ''use'' \<longrightarrow>
          (\<exists>m \<in> set ms. unit_method (pl_registry ps) node = Inr m))"
        by (rule over_nodes_covers [where P = "memo_covers ps", OF o Suc.prems(2)]) (use Suc.IH in blast)
      then show ?thesis using m Some by (simp add: covers_units_def memo')
    qed
  qed
qed simp

lemma check_methods_memo:
  assumes "check_methods judgments ps j memo = Inr memo'" "memo_covers ps memo"
  shows "memo_covers ps memo'"
proof -
  have "memo' = memo \<or> (\<exists>n i ms. actualMethods n judgments ps i memo = Some (Inr (ms, memo')))"
    using assms(1) by (auto simp: check_methods_def Let_def ebind_Inr_conv simp del: actualMethods.simps
      split: if_split_asm option.split_asm sum.split_asm prod.split_asm)
  then show ?thesis using assms(2) actual_methods_cover by blast
qed

lemma accepted_methods:
  assumes "checkPlans judgments r scope = Inr ps" and j: "j \<in> set judgments"
    and cx: "map_of (pl_contexts ps) (text_at j ''id'') = Some cx"
    and simple_method: "text_at (part (part j ''method'') ''method'') ''term'' \<noteq> u ''composite''"
    and node: "node \<in> set (contributing_nodes cx)" "is_kind node ''use''"
  shows "unit_method (pl_registry ps) node = Inr (text_at (part (part j ''method'') ''method'') ''term'')"
proof -
  let ?declared = "\<lambda>j. text_at (part (part j ''method'') ''method'') ''term''"
  let ?Q = "\<lambda>j (memo :: settled_methods). ?declared j \<noteq> u ''composite'' \<longrightarrow> (\<forall>cx node. map_of (pl_contexts ps) (text_at j ''id'') = Some cx \<longrightarrow>
      node \<in> set (contributing_nodes cx) \<longrightarrow> is_kind node ''use'' \<longrightarrow> unit_method (pl_registry ps) node = Inr (?declared j))"
  from assms(1) obtain memo where f: "foldE (check_methods judgments ps) judgments [] = Inr memo"
    by (auto simp: checkPlans_def ebind_Inr_conv)
  have "?Q j memo"
  proof (rule foldE_establishes [OF f, of "memo_covers ps" _ ?Q])
    show "memo_covers ps []" by (simp add: memo_covers_def)
  next
    fix y s t
    assume c: "check_methods judgments ps y s = Inr t" and m: "memo_covers ps s"
    then show "memo_covers ps t \<and> (\<forall>z. ?Q z s \<longrightarrow> ?Q z t)" using check_methods_memo by simp
    show "?Q y t"
    proof (intro impI allI)
      fix cx node
      assume t: "?declared y \<noteq> u ''composite''" and cx: "map_of (pl_contexts ps) (text_at y ''id'') = Some cx"
        and n: "node \<in> set (contributing_nodes cx)" "is_kind node ''use''"
      with c obtain ms memo1 where a: "actualMethods (Suc (length judgments)) judgments ps (text_at y ''id'') s = Some (Inr (ms, memo1))"
        and e: "\<forall>m \<in> set ms. m = ?declared y"
        by (auto simp: check_methods_def Let_def ebind_Inr_conv simp del: actualMethods.simps
          split: option.split_asm sum.split_asm prod.split_asm)
      from actual_methods_cover [OF a m] cx n e show "unit_method (pl_registry ps) node = Inr (?declared y)"
        by (auto simp: covers_units_def)
    qed
  qed (rule j)
  then show ?thesis using simple_method cx node by blast
qed

end
