(* ===== verification/PlanExample.thy ===== *)
theory PlanExample
  imports PlanMethods
begin

text \<open>
  A concrete judgment whose plan \<open>checked_graphs\<close> accepts: the sequence \<open>s\<close> of the nodes \<open>a\<close> and \<open>b\<close>, which use the
  units \<open>ua\<close> and \<open>ub\<close>; the output \<open>y\<close> of the first flows to the input \<open>x\<close> of the second, whose output is the result.
\<close>

section \<open>The payload\<close>

definition e_contract :: "string \<Rightarrow> json" where
  "e_contract i =
     jo [(''id'', js i), (''shape'', jo [(''kind'', js ''scalar''), (''scalar_type'', js ''text'')]),
         (''minimum'', JNum (Fin 1)), (''maximum'', JNum (Fin 1)), (''allowed_result_types'', JArr [js ''t''])]"

definition e_port :: "string \<Rightarrow> json" where
  "e_port n = jo [(''name'', js n), (''contract_ref'', d_target ''contract'' ''c'')]"

definition e_unit :: "string \<Rightarrow> json list \<Rightarrow> json" where
  "e_unit i ins = jo [(''id'', js i), (''method'', js ''rule''), (''inputs'', JArr ins), (''outputs'', JArr [e_port ''y''])]"

definition e_end :: "string \<Rightarrow> string \<Rightarrow> json" where
  "e_end n p = jo [(''node_ref'', d_target ''plan_node'' n), (''port'', js p), (''field_path'', JArr [])]"

definition e_use :: "string \<Rightarrow> string \<Rightarrow> json" where
  "e_use i t = jo [(''id'', js i), (''kind'', js ''use''), (''unit_ref'', d_target ''unit'' t), (''input_bindings'', JArr [])]"

definition e_root :: json where
  "e_root = jo [(''id'', js ''s''), (''kind'', js ''sequence''),
     (''children'', JArr [d_target ''plan_node'' ''a'', d_target ''plan_node'' ''b''])]"

definition e_flow :: json where
  "e_flow = jo [(''from'', e_end ''a'' ''y''), (''to'', e_end ''b'' ''x'')]"

definition e_plan :: json where
  "e_plan = jo [(''id'', js ''p''), (''root'', d_target ''plan_node'' ''s''),
     (''nodes'', JArr [e_root, e_use ''a'' ''ua'', e_use ''b'' ''ub'']), (''links'', JArr [e_flow]),
     (''result_bindings'', JArr [jo [(''from'', e_end ''b'' ''y''), (''field_path'', JArr [])]])]"

definition e_judgment :: json where
  "e_judgment = jo [(''id'', js ''j''), (''result_contract'', e_contract ''rc''),
     (''method'', jo [(''method'', jo [(''term'', js ''rule'')]), (''plan'', e_plan),
        (''units'', JArr [e_unit ''ua'' [], e_unit ''ub'' [e_port ''x'']])])]"

section \<open>The registry\<close>

definition e_known :: "(string \<times> string) list" where
  "e_known = [(''plan'', ''p''), (''plan_node'', ''s''), (''plan_node'', ''a''), (''plan_node'', ''b''),
     (''unit'', ''ua''), (''unit'', ''ub''), (''contract'', ''c'')]"

definition e_entry :: "string \<Rightarrow> string \<Rightarrow> registry_entry" where
  "e_entry kind i = \<lparr>re_target = d_target kind i, re_owner = d_target ''plan'' ''p'',
     re_value = (if kind = ''contract'' then e_contract i else if kind = ''unit'' then e_unit i [] else JNull),
     re_judgment = js ''j'', re_path = [], re_activation = JNull\<rparr>"

definition e_registry :: registry where
  "e_registry =
     \<lparr>rg_asset = None, rg_records = map (\<lambda>(k, i). (d_key k i, e_entry k i)) e_known,
      rg_edges = map (\<lambda>(k, i). (d_key k i, [])) e_known, rg_roles = map (\<lambda>(k, i). (d_key k i, [])) e_known,
      rg_unresolved = []\<rparr>"

lemma e_key_texts:
  "list_all (\<lambda>(k, i). d_key k i = u ''[null,'' @ [0x22] @ u k @ [0x22] @ u '','' @ [0x22] @ u i @ [0x22] @ u '']'') e_known"
  by (simp add: e_known_def d_key_def js_def u_def json_quote_def quote_unit_def is_high_def is_low_def)

lemma e_texts: "list_all (\<lambda>(k, i). scalar_text (u k) \<and> scalar_text (u i)) e_known"
  by (simp add: e_known_def scalar_text_def scalarString_def MAX_STRING_BYTES_def u_def is_high_def is_low_def byte_length_Cons_ascii)

lemma e_sizes: "list_all (\<lambda>(k, i). byte_length (d_key k i) \<le> 100) e_known"
  by (simp add: e_known_def d_key_def js_def u_def json_quote_def quote_unit_def is_high_def is_low_def byte_length_Cons_ascii)

lemma e_identity: "(k, i) \<in> set e_known \<Longrightarrow> identity r (d_target k i) = Inr (d_key k i)"
  using e_texts e_sizes by (intro d_identity) (auto simp: list_all_iff)

lemma e_distinct: "distinct (map (\<lambda>(k, i). d_key k i) e_known)"
proof -
  have "map (\<lambda>(k, i). d_key k i) e_known =
      map (\<lambda>(k, i). u ''[null,'' @ [0x22] @ u k @ [0x22] @ u '','' @ [0x22] @ u i @ [0x22] @ u '']'') e_known"
    using e_key_texts by (intro map_cong) (auto simp: list_all_iff)
  then show ?thesis by (simp add: e_known_def u_def)
qed

definition e_kept :: "registry \<Rightarrow> bool" where
  "e_kept r \<longleftrightarrow> rg_records r = rg_records e_registry \<and> rg_asset r = None \<and> rg_unresolved r = []"

lemma e_record:
  assumes "e_kept r" "(k, i) \<in> set e_known"
  shows "(d_key k i, e_entry k i) \<in> set (rg_records r)"
  using assms by (auto simp: e_kept_def e_registry_def intro: rev_image_eqI)

lemma e_get:
  assumes "e_kept r" "(k, i) \<in> set e_known"
  shows "get_record r (Some (d_target k i)) (Some [k]) = Inr (Some (e_entry k i))"
proof -
  have "map_of (rg_records r) (d_key k i) = Some (e_entry k i)"
    using assms e_record [OF assms] e_distinct
    by (intro map_of_is_SomeI) (auto simp: e_kept_def e_registry_def o_def split_def)
  then show ?thesis using assms(2) by (simp add: get_record_def d_target_reads e_identity)
qed

text \<open>The registry after a link of two known targets.\<close>

definition e_linked :: "string \<Rightarrow> string \<Rightarrow> string \<Rightarrow> string \<Rightarrow> registry \<Rightarrow> registry" where
  "e_linked k i k' i' r =
     (case link_records (d_target k i) (Some (d_target k' i')) True (Some [k']) None r of Inl _ \<Rightarrow> r | Inr (_, r') \<Rightarrow> r')"

lemma e_link:
  assumes r: "e_kept r" and k: "(k, i) \<in> set e_known" "(k', i') \<in> set e_known"
  shows "link_records (d_target k i) (Some (d_target k' i')) True (Some [k']) None r = Inr (Some (e_entry k' i'), e_linked k i k' i' r)"
proof -
  have "d_key k i \<in> fst ` set (rg_records r)" using e_record [OF r k(1)] by force
  then show ?thesis using r k by (simp add: e_linked_def link_records_def e_get e_identity)
qed

lemma linked_unresolved:
  "link_records source target mandatory kinds role r = Inr (Some e, r') \<Longrightarrow> rg_unresolved r' = rg_unresolved r"
  by (erule link_records_eq) simp_all

lemma e_kept_linked:
  assumes "e_kept r" "(k, i) \<in> set e_known" "(k', i') \<in> set e_known"
  shows "e_kept (e_linked k i k' i' r)"
  using link_records_same [OF e_link [OF assms]] linked_unresolved [OF e_link [OF assms]] assms(1)
  by (simp only: e_kept_def same_records_def)

lemma e_registry_kept: "e_kept e_registry"
  by (simp add: e_kept_def e_registry_def)

section \<open>Reading the payload\<close>

lemma e_node_target [simp]: "js_ref k (JStr (u i)) = d_target k i"
  by (simp add: js_ref_def d_target_def js_def)

lemma e_reads [simp]:
  "part (jo ps) k = (case map_of ps k of Some x \<Rightarrow> x | None \<Rightarrow> JNull)"
  "text_at (jo ps) k = (case map_of ps k of Some (JStr s) \<Rightarrow> s | _ \<Rightarrow> [])"
  "items_at (jo ps) k = (case map_of ps k of Some (JArr xs) \<Rightarrow> xs | _ \<Rightarrow> [])"
  "is_kind (jo ps) k \<longleftrightarrow> map_of ps ''kind'' = Some (js k)"
  "path_of (jo ps) k = map (\<lambda>x. case x of JStr s \<Rightarrow> s | _ \<Rightarrow> []) (items_at (jo ps) k)"
  by (simp_all add: part_def text_at_def items_at_def is_kind_def path_of_def)

lemma e_target_reads [simp]:
  "text_at (d_target k i) ''id'' = u i" "text_at (d_target k i) ''kind'' = u k"
  by (simp_all add: d_target_def js_def)

lemma e_known_members [simp]:
  "(''plan'', ''p'') \<in> set e_known" "(''plan_node'', ''s'') \<in> set e_known" "(''plan_node'', ''a'') \<in> set e_known"
  "(''plan_node'', ''b'') \<in> set e_known" "(''unit'', ''ua'') \<in> set e_known" "(''unit'', ''ub'') \<in> set e_known"
  "(''contract'', ''c'') \<in> set e_known"
  by (simp_all add: e_known_def)

lemmas e_steps = e_get e_link e_kept_linked

text \<open>Nodes, contracts and units that are found.\<close>

definition e_ids :: "jstring list" where
  "e_ids = [u ''s'', u ''a'', u ''b'']"

lemma e_local:
  assumes "e_kept r" "i \<in> {''s'', ''a'', ''b''}"
  shows "localNode r (u ''p'') e_ids (Some (d_target ''plan_node'' i)) = Inr (u i)"
proof -
  have "(''plan_node'', i) \<in> set e_known" using assms(2) by auto
  then have "get_record r (Some (d_target ''plan_node'' i)) (Some [''plan_node'']) = Inr (Some (e_entry ''plan_node'' i))"
    by (rule e_get [OF assms(1)])
  then show ?thesis using assms(2) by (auto simp: localNode_def e_entry_def d_target_fields e_ids_def js_def)
qed

definition e_tree :: plan_tree where
  "e_tree =
     \<lparr>pt_registry = e_linked ''plan_node'' ''s'' ''plan_node'' ''b'' (e_linked ''plan_node'' ''s'' ''plan_node'' ''a''
        (e_linked ''plan'' ''p'' ''plan_node'' ''b'' (e_linked ''plan'' ''p'' ''plan_node'' ''a''
        (e_linked ''plan'' ''p'' ''plan_node'' ''s'' e_registry)))),
      pt_parents = [(u ''a'', u ''s''), (u ''b'', u ''s'')],
      pt_children = [(u ''s'', [u ''a'', u ''b'']), (u ''a'', []), (u ''b'', [])]\<rparr>"

lemma e_tree_kept: "e_kept (pt_registry e_tree)"
  by (simp add: e_tree_def e_kept_linked e_registry_kept)

definition e_views :: "plan_node list" where
  "e_views = [\<lparr>pn_id = u ''s'', pn_kind = SequenceNode [d_target ''plan_node'' ''a'', d_target ''plan_node'' ''b'']\<rparr>,
     \<lparr>pn_id = u ''a'', pn_kind = UseNode\<rparr>, \<lparr>pn_id = u ''b'', pn_kind = UseNode\<rparr>]"

lemma e_structure: "plan_structure e_registry (u ''j'') (u ''p'') (d_target ''plan_node'' ''s'') e_views = Inr (u ''s'', e_tree)"
proof -
  have ids: "map pn_id e_views = e_ids" "distinct e_ids" "length e_views = 3"
    by (simp_all add: e_views_def e_ids_def)
  have linked: "link_nodes (u ''p'') e_ids e_registry = Inr (e_linked ''plan'' ''p'' ''plan_node'' ''b'' (e_linked ''plan'' ''p'' ''plan_node'' ''a''
        (e_linked ''plan'' ''p'' ''plan_node'' ''s'' e_registry)))"
    by (simp add: e_ids_def e_steps e_registry_kept)
  have all: "all_nodes (u ''j'') (u ''p'') e_ids e_views
      \<lparr>pt_registry = e_linked ''plan'' ''p'' ''plan_node'' ''b'' (e_linked ''plan'' ''p'' ''plan_node'' ''a''
        (e_linked ''plan'' ''p'' ''plan_node'' ''s'' e_registry)), pt_parents = [], pt_children = map (\<lambda>i. (i, [])) e_ids\<rparr> = Inr e_tree"
    by (simp add: e_views_def node_children_def child_def e_local e_steps e_registry_kept map_at_def e_tree_def)
      (simp add: e_ids_def)
  have sc: "succs (pt_children e_tree) (u ''s'') = [u ''a'', u ''b'']" "succs (pt_children e_tree) (u ''a'') = []"
    "succs (pt_children e_tree) (u ''b'') = []" "map fst (pt_children e_tree) = e_ids"
    by (simp_all add: e_tree_def succs_def e_ids_def)
  have checked: "acyclic_check (pt_children e_tree) = Inr ()"
    by (simp add: acyclic_check_def sc(4) e_ids_def visit_node.simps sc)
  have reached: "card (reach_node (pt_children e_tree) (u ''s'') {}) = 3"
    by (simp add: reach_node.simps sc)
  show ?thesis
    using ids linked all checked reached e_local [OF e_tree_kept, of "''s''"]
    by (simp add: plan_structure_def Let_def) (simp add: e_tree_def e_ids_def)
qed

section \<open>The plan\<close>

definition e_frame :: plan_frame where
  "e_frame = plan_frame_of e_judgment e_plan e_tree"

lemma e_frame_parts:
  "pf_judgment e_frame = e_judgment" "pf_plan e_frame = e_plan"
  "pf_nodes e_frame = [(u ''s'', e_root), (u ''a'', e_use ''a'' ''ua''), (u ''b'', e_use ''b'' ''ub'')]"
  "pf_parents e_frame = [(u ''a'', u ''s''), (u ''b'', u ''s'')]" "pf_children e_frame = pt_children e_tree"
  by (simp_all add: e_frame_def plan_frame_of_def e_plan_def e_root_def e_use_def e_tree_def js_def)

definition e_ref_port :: "string \<Rightarrow> port" where
  "e_ref_port n = \<lparr>po_name = u n, po_contract = ByReference (d_target ''contract'' ''c'')\<rparr>"

definition e_ports :: "string list \<Rightarrow> string list \<Rightarrow> node_ports" where
  "e_ports ins outs = \<lparr>np_inputs = Some (map e_ref_port ins), np_outputs = Some (map e_ref_port outs)\<rparr>"

definition e_all_ports :: "(jstring \<times> node_ports) list" where
  "e_all_ports = [(u ''s'', e_ports [] []), (u ''a'', e_ports [] [''y'']), (u ''b'', e_ports [''x''] [''y''])]"

definition e_first :: plan_work where
  "e_first = first_work e_plan e_tree [(u ''j'', [])]"

definition e_inputs :: plan_work where
  "e_inputs = e_first\<lparr>
     pw_registry := e_linked ''plan_node'' ''b'' ''unit'' ''ub'' (e_linked ''plan_node'' ''a'' ''unit'' ''ua'' (pt_registry e_tree)),
     pw_ports := e_all_ports, pw_methods := [(u ''a'', u ''rule''), (u ''b'', u ''rule'')]\<rparr>"

lemma e_first_parts:
  "pw_registry e_first = pt_registry e_tree" "pw_ports e_first = []" "pw_methods e_first = []" "pw_supplies e_first = []"
  "pw_calls e_first = [(u ''j'', [])]" "pw_graph e_first = [(u ''s'', []), (u ''a'', []), (u ''b'', [])]"
  by (simp_all add: e_first_def first_work_def e_plan_def e_root_def e_use_def js_def)

lemma e_port_of [simp]: "port_of (e_port n) = e_ref_port n"
  by (simp add: port_of_def e_port_def e_ref_port_def js_def)

lemma e_linked_work:
  assumes "e_kept (pw_registry w)" "(k, i) \<in> set e_known" "(k', i') \<in> set e_known"
  shows "linked (d_target k i) (d_target k' i') k' w = Inr (w\<lparr>pw_registry := e_linked k i k' i' (pw_registry w)\<rparr>)"
  using assms by (simp add: linked_def link_in_def e_link)

lemma e_found: "e_kept r \<Longrightarrow> (k, i) \<in> set e_known \<Longrightarrow> found r (d_target k i) k = Inr (Some (e_entry k i))"
  by (simp add: found_def e_get)

text \<open>Ports of the three nodes, before they are known and after.\<close>

lemma e_ports_use:
  assumes "e_kept (pw_registry w)" "map_of (pw_ports w) (u i) = None"
    and "(i, t, ins) \<in> {(''a'', ''ua'', []), (''b'', ''ub'', [''x''])}"
  shows "ports_at e_frame [] (u i) w = Inr (e_ports ins [''y''],
    w\<lparr>pw_registry := e_linked ''plan_node'' i ''unit'' t (pw_registry w), pw_methods := pw_methods w @ [(u i, u ''rule'')],
      pw_ports := pw_ports w @ [(u i, e_ports ins [''y''])]\<rparr>)"
proof -
  have "own_ports e_frame (e_use i t) w = Inr (e_ports ins [''y''],
      w\<lparr>pw_registry := e_linked ''plan_node'' i ''unit'' t (pw_registry w), pw_methods := pw_methods w @ [(u i, u ''rule'')]\<rparr>)"
    using assms
    by (auto simp: own_ports_def use_ports_def Let_def e_use_def e_frame_parts e_judgment_def e_unit_def js_def find_named_def
        e_found e_linked_work e_entry_def e_ports_def)
  moreover have "map_of (pf_nodes e_frame) (u i) = Some (e_use i t)" "\<not> is_kind (e_use i t) ''feedback''"
    using assms(3) by (auto simp: e_frame_parts e_use_def js_def)
  ultimately show ?thesis using assms(2) by (simp add: ports_at.simps)
qed

lemma e_ports_root:
  assumes "map_of (pw_ports w) (u ''s'') = None"
  shows "ports_at e_frame [] (u ''s'') w = Inr (e_ports [] [], w\<lparr>pw_ports := pw_ports w @ [(u ''s'', e_ports [] [])]\<rparr>)"
  using assms by (simp add: ports_at.simps e_frame_parts own_ports_def e_root_def e_ports_def js_def)

lemma e_input_use:
  assumes "e_kept (pw_registry w)" "map_of (pw_ports w) (u i) = None"
    and "(i, t, ins) \<in> {(''a'', ''ua'', []), (''b'', ''ub'', [''x''])}"
  shows "check_inputs e_frame (u i, e_use i t) w = Inr (w\<lparr>pw_registry := e_linked ''plan_node'' i ''unit'' t (pw_registry w),
      pw_methods := pw_methods w @ [(u i, u ''rule'')], pw_ports := pw_ports w @ [(u i, e_ports ins [''y''])]\<rparr>)"
  using assms by (auto simp: check_inputs_def e_ports_use [OF assms]) (auto simp: e_use_def js_def core_check_def distinct_members_def e_ports_def)

lemma e_input_root:
  "map_of (pw_ports w) (u ''s'') = None \<Longrightarrow>
    check_inputs e_frame (u ''s'', e_root) w = Inr (w\<lparr>pw_ports := pw_ports w @ [(u ''s'', e_ports [] [])]\<rparr>)"
  by (simp add: check_inputs_def e_ports_root) (simp add: e_root_def js_def)

lemma e_inputs_run: "foldE (check_inputs e_frame) (pf_nodes e_frame) e_first = Inr e_inputs"
  by (simp add: e_frame_parts(3) e_input_root e_input_use e_first_parts e_tree_kept e_kept_linked)
    (simp add: e_inputs_def e_first_parts e_all_ports_def)

definition e_text_contract :: contract where
  "e_text_contract = contract_of (e_contract ''c'')"

lemma e_contract_value:
  "contract_of (e_contract i) =
     Results \<lparr>pc_id = u i, pc_shape = ScalarShape TextKind, pc_minimum = 1, pc_maximum = Some 1, pc_allowed = Some [js ''t'']\<rparr>"
  by (simp add: contract_of_def e_contract_def js_def shape_of.simps int_of_def limit_of_def scalar_of_def)

lemma e_contract_at: "e_kept r \<Longrightarrow> contract_at r (d_target ''contract'' ''c'') b = Inr (Some e_text_contract)"
  by (simp add: contract_at_def e_found e_entry_def e_text_contract_def) (simp add: e_contract_value)

definition e_endpoint :: "string \<Rightarrow> string \<Rightarrow> endpoint" where
  "e_endpoint i p = \<lparr>ep_node = u i, ep_contract = Some e_text_contract, ep_path = [], ep_port = u p\<rparr>"

lemma e_endpoint_at:
  assumes "e_kept (pw_registry w)" "pw_ports w = e_all_ports"
    and "(i, b, p) \<in> {(''a'', False, ''y''), (''b'', True, ''x''), (''b'', False, ''y'')}"
  shows "endpoint_at e_frame [] (e_end i p) b s w = Inr (e_endpoint i p, w)"
proof -
  have "node_at e_frame (pw_registry w) (d_target ''plan_node'' i) = Inr (u i)"
    using assms(3) e_local [OF assms(1), of i] by (auto simp: node_at_def e_frame_parts e_plan_def js_def e_ids_def)
  moreover have "ports_at e_frame [] (u i) w = Inr (if i = ''a'' then e_ports [] [''y''] else e_ports [''x''] [''y''], w)"
    using assms(2,3) by (auto simp: ports_at.simps e_all_ports_def)
  ultimately show ?thesis
    using assms unfolding endpoint_at.simps [of e_frame "[]" "e_end i p"]
    by (auto simp: e_end_def e_ports_def e_ref_port_def js_def e_contract_at projected_def e_endpoint_def)
qed

lemma e_compatible: "compatible (Some (contract_of (e_contract i))) (Some (contract_of (e_contract j))) = Inr ()"
  by (simp add: e_contract_value compatible_def equal_shapes_def equal_terms_def narrower_def)

lemma e_lineage: "lineage e_frame (u ''s'') = []" "lineage e_frame (u ''a'') = [u ''s'']" "lineage e_frame (u ''b'') = [u ''s'']"
  by (simp_all add: lineage_def e_frame_parts ancestors.simps)

lemma e_round: "i \<in> {''s'', ''a'', ''b''} \<Longrightarrow> round_of e_frame (u i) = []"
  by (auto simp: round_of_def e_lineage node_is_def e_frame_parts e_root_def js_def)

lemma e_ordered: "ordered e_frame (u ''a'') (u ''b'') = Inr ()"
  by (simp add: ordered_def e_lineage Let_def e_frame_parts(5) e_tree_def succs_def) (simp add: node_is_def e_frame_parts e_root_def js_def)

definition e_flowed :: plan_work where
  "e_flowed = e_inputs\<lparr>
     pw_registry := e_linked ''plan_node'' ''b'' ''plan_node'' ''a'' (pw_registry e_inputs),
     pw_supplies := [((u ''b'', u ''x''), [([], FromLink (e_end ''a'' ''y''))])],
     pw_graph := [(u ''s'', []), (u ''a'', [u ''b'']), (u ''b'', [])]\<rparr>"

lemma e_inputs_parts: "e_kept (pw_registry e_inputs)" "pw_ports e_inputs = e_all_ports" "pw_supplies e_inputs = []"
    "pw_graph e_inputs = [(u ''s'', []), (u ''a'', []), (u ''b'', [])]" "pw_calls e_inputs = [(u ''j'', [])]"
  by (simp_all add: e_inputs_def e_kept_linked e_tree_kept e_first_parts)

lemma e_flow_run: "check_flow e_frame e_flow e_inputs = Inr e_flowed"
proof -
  have ends: "part e_flow ''from'' = e_end ''a'' ''y''" "part e_flow ''to'' = e_end ''b'' ''x''" by (simp_all add: e_flow_def)
  have reads: "endpoint_at e_frame [] (e_end ''a'' ''y'') False False e_inputs = Inr (e_endpoint ''a'' ''y'', e_inputs)"
    "endpoint_at e_frame [] (e_end ''b'' ''x'') True False e_inputs = Inr (e_endpoint ''b'' ''x'', e_inputs)"
    by (rule e_endpoint_at; simp add: e_inputs_parts)+
  show ?thesis
    using e_ordered e_compatible [of "''c''" "''c''"]
    by (simp add: check_flow_def ends reads e_endpoint_def e_round dataEdge_def e_text_contract_def add_edge_def map_at_def
        add_supply_def supplied_def e_linked_work e_inputs_parts e_flowed_def core_check_def)
qed

section \<open>All checks\<close>

definition e_context :: plan_context where
  "e_context = \<lparr>cx_frame = e_frame, cx_work = e_flowed\<rparr>"

lemma e_flowed_parts: "e_kept (pw_registry e_flowed)" "pw_ports e_flowed = e_all_ports"
    "pw_supplies e_flowed = [((u ''b'', u ''x''), [([], FromLink (e_end ''a'' ''y''))])]"
    "pw_graph e_flowed = [(u ''s'', []), (u ''a'', [u ''b'']), (u ''b'', [])]" "pw_calls e_flowed = [(u ''j'', [])]"
  by (simp_all add: e_flowed_def e_inputs_parts e_kept_linked)

lemma e_plan_run: "check_plan e_registry [(u ''j'', [])] e_judgment e_plan = Inr e_context"
proof -
  have views: "map node_view (items_at e_plan ''nodes'') = e_views"
    by (simp add: e_plan_def e_views_def node_view_def e_root_def e_use_def js_def)
  have ids: "text_at e_judgment ''id'' = u ''j''" "text_at e_plan ''id'' = u ''p''" "part e_plan ''root'' = d_target ''plan_node'' ''s''"
    "items_at e_plan ''links'' = [e_flow]"
    by (simp_all add: e_judgment_def e_plan_def js_def)
  have feedback: "foldE (check_feedback e_frame) (pf_nodes e_frame) e_flowed = Inr e_flowed"
    by (simp add: e_frame_parts(3) check_feedback_def) (simp add: e_root_def e_use_def js_def)
  show ?thesis
    by (simp add: check_plan_def views ids e_structure Let_def e_frame_def [symmetric] e_first_def [symmetric] e_inputs_run
        e_flow_run feedback e_context_def)
qed

lemma e_node_ports:
  "check_node_ports e_frame (u ''s'', e_root) e_flowed = Inr e_flowed"
  "check_node_ports e_frame (u ''a'', e_use ''a'' ''ua'') e_flowed = Inr e_flowed"
  "check_node_ports e_frame (u ''b'', e_use ''b'' ''ub'') e_flowed = Inr e_flowed"
proof -
  have p: "ports_at e_frame [] (u ''a'') e_flowed = Inr (e_ports [] [''y''], e_flowed)"
    "ports_at e_frame [] (u ''b'') e_flowed = Inr (e_ports [''x''] [''y''], e_flowed)"
    by (simp_all add: ports_at.simps e_flowed_parts e_all_ports_def)
  have c: "contract_of_port (pw_registry e_flowed) b (e_ref_port n) = Inr (Some e_text_contract)" for b n
    by (simp add: contract_of_port_def e_ref_port_def e_contract_at e_flowed_parts)
  have i: "check_input_port (u ''b'') e_flowed (e_ref_port ''x'') = Inr ()"
    by (simp add: check_input_port_def c) (simp add: e_text_contract_def e_contract_value supplied_def e_ref_port_def e_flowed_parts
      core_check_def completeBindings_def)
  have k: "is_kind (e_use i t) ''use''" for i t by (simp add: e_use_def)
  show "check_node_ports e_frame (u ''s'', e_root) e_flowed = Inr e_flowed"
    by (simp add: check_node_ports_def e_root_def js_def)
  show "check_node_ports e_frame (u ''a'', e_use ''a'' ''ua'') e_flowed = Inr e_flowed"
    "check_node_ports e_frame (u ''b'', e_use ''b'' ''ub'') e_flowed = Inr e_flowed"
    using i by (simp_all add: check_node_ports_def p k e_ports_def c)
qed

lemma e_finish: "finish_work e_frame e_flowed = Inr e_flowed"
proof -
  have graph: "acyclic_check (pw_graph e_flowed) = Inr ()"
    by (simp add: acyclic_check_def e_flowed_parts visit_node.simps succs_def)
  have "endpoint_at e_frame [] (e_end ''b'' ''y'') False False e_flowed = Inr (e_endpoint ''b'' ''y'', e_flowed)"
    by (rule e_endpoint_at) (simp_all add: e_flowed_parts)
  then have result: "check_result e_frame (jo [(''from'', e_end ''b'' ''y''), (''field_path'', JArr [])]) e_flowed = Inr e_flowed"
    by (simp add: check_result_def e_endpoint_def e_round result_contract_of_def e_frame_parts e_judgment_def projected_def
        e_text_contract_def e_compatible core_check_def)
  have bindings: "items_at (pf_plan e_frame) ''result_bindings'' = [jo [(''from'', e_end ''b'' ''y''), (''field_path'', JArr [])]]"
    by (simp add: e_frame_parts e_plan_def)
  have contract: "contract_of (result_contract_of e_frame) = contract_of (e_contract ''rc'')"
    by (simp add: result_contract_of_def e_frame_parts e_judgment_def)
  show ?thesis
    by (simp add: finish_work_def e_frame_parts(3) e_node_ports graph bindings result contract)
      (simp add: bindings e_contract_value completeBindings_def core_check_def)
qed

definition e_plans :: plan_set where
  "e_plans = \<lparr>pl_registry = pw_registry e_flowed, pl_calls = [(u ''j'', [])], pl_contexts = [(u ''j'', e_context)]\<rparr>"

lemma e_opened: "opened e_plans e_context = e_flowed"
  by (simp add: opened_def e_plans_def e_context_def e_flowed_parts(5) [symmetric])

theorem e_accepted: "checked_graphs [e_judgment] e_registry = Inr e_plans"
proof -
  have id: "text_at e_judgment ''id'' = u ''j''" by (simp add: e_judgment_def js_def)
  have plan: "judgment_plan e_judgment = Some e_plan" by (simp add: judgment_plan_def e_judgment_def)
  have policy: "check_policy e_judgment ps = Inr ps" for ps
    by (simp add: check_policy_def e_judgment_def fld_def get_opt_def get_prop_def)
  have add: "add_plan e_judgment \<lparr>pl_registry = e_registry, pl_calls = [(u ''j'', [])], pl_contexts = []\<rparr> = Inr e_plans"
    by (simp add: add_plan_def plan e_plan_run id) (simp add: e_context_def e_plans_def e_flowed_parts)
  have finish: "with_context (u ''j'') finish_work e_plans = Inr e_plans"
    using e_opened by (simp add: with_context_def) (simp add: e_plans_def e_context_def e_finish e_flowed_parts map_at_def)
  have calls: "acyclic_check (pl_calls e_plans) = Inr ()"
    by (simp add: acyclic_check_def e_plans_def visit_node.simps succs_def)
  have keys: "map fst (pl_contexts e_plans) = [u ''j'']" by (simp add: e_plans_def)
  show ?thesis
    by (simp add: checked_graphs_def Let_def id add policy keys finish calls)
qed

text \<open>Both nodes contribute to the result, by their method \<open>rule\<close>.\<close>

lemma e_reverse: "reverse_edges e_frame (pw_graph e_flowed) = [(u ''s'', []), (u ''a'', []), (u ''b'', [u ''a''])]"
proof -
  have "\<not> is_kind e_root ''feedback''" "\<not> is_kind (e_use i t) ''feedback''" for i t
    by (simp_all add: e_root_def e_use_def js_def)
  then show ?thesis by (simp add: reverse_edges_def e_flowed_parts(4) e_frame_parts(3))
qed

lemma e_contributing: "contributing e_context = [u ''b'', u ''a'']"
proof -
  define g where "g = reverse_edges e_frame (pw_graph e_flowed)"
  have g: "succs g (u ''a'') = []" "succs g (u ''b'') = [u ''a'']" by (simp_all add: g_def e_reverse succs_def)
  have "bound_nodes e_frame = [u ''b'']" by (simp add: bound_nodes_def e_frame_parts(2) e_plan_def e_end_def)
  then show ?thesis by (simp add: contributing_def e_context_def g_def [symmetric] g)
qed

lemma e_contributing_nodes: "contributing_nodes e_context = [e_use ''a'' ''ua'', e_use ''b'' ''ub'']"
  by (simp add: contributing_nodes_def e_contributing) (simp add: e_context_def e_frame_parts)

theorem e_checked: "checkPlans [e_judgment] e_registry None = Inr e_plans"
proof -
  have reg: "pl_registry e_plans = pw_registry e_flowed" "map_of (pl_contexts e_plans) (u ''j'') = Some e_context"
    by (simp_all add: e_plans_def)
  have methods: "unit_method (pw_registry e_flowed) (e_use i t) = Inr (u ''rule'')" if "(''unit'', t) \<in> set e_known" for i t
    using that by (simp add: unit_method_def e_use_def e_found e_flowed_parts e_entry_def e_unit_def js_def)
  have use: "is_kind (e_use i t) ''use''" for i t by (simp add: e_use_def)
  have actual: "actualMethods (Suc (Suc 0)) [e_judgment] e_plans (u ''j'') [] = Some (Inr ([u ''rule''], [(u ''j'', [u ''rule''])]))"
    by (simp add: reg e_contributing_nodes use methods)
  have external: "uses_unresolved (pw_registry e_flowed) (u ''j'') = Inr False"
    using e_flowed_parts(1) by (simp add: uses_unresolved_def e_kept_def anyE.simps)
  have id: "text_at e_judgment ''id'' = u ''j''" "text_at (part (part e_judgment ''method'') ''method'') ''term'' = u ''rule''"
    by (simp_all add: e_judgment_def js_def)
  have check: "check_methods [e_judgment] e_plans e_judgment [] = Inr [(u ''j'', [u ''rule''])]"
    using actual by (simp add: check_methods_def id reg external core_check_def del: actualMethods.simps)
  have "\<not> is_kind (e_contract i) ''emission_list''" for i by (simp add: e_contract_def)
  then have "\<not> in_scope None (e_entry k i)" for k i
    by (simp add: in_scope_def e_entry_def d_target_def js_def)
  then have "each (\<lambda>(k, e). if in_scope None e then check_emission_contract [e_judgment] None e_plans e else Inr ())
      (map (\<lambda>(k, i). (d_key k i, e_entry k i)) xs) = Inr ()" for xs
    by (induction xs) auto
  moreover have "rg_records (pw_registry e_flowed) = map (\<lambda>(k, i). (d_key k i, e_entry k i)) e_known"
    using e_flowed_parts(1) by (simp add: e_kept_def e_registry_def)
  ultimately show ?thesis by (simp add: checkPlans_def e_accepted check reg)
qed

lemma e_plans_contexts: "map_of (pl_contexts e_plans) (u ''j'') = Some e_context" "cx_frame e_context = e_frame"
  by (simp_all add: e_plans_def e_context_def)

lemma e_flow_listed:
  "e_flow \<in> set (items_at (pf_plan e_frame) ''links'')" "part e_flow ''from'' = e_end ''a'' ''y''" "part e_flow ''to'' = e_end ''b'' ''x''"
  by (simp_all add: e_frame_parts e_plan_def e_flow_def)

lemma e_judgment_reads:
  "text_at e_judgment ''id'' = u ''j''" "text_at (part (part e_judgment ''method'') ''method'') ''term'' = u ''rule''"
  "is_kind (e_use i t) ''use''"
  by (simp_all add: e_judgment_def e_use_def js_def)

end
