(* ===== verification/Spec2Isabelle.thy ===== *)
theory Spec2Isabelle
  imports Scenario Gates Cost Route RouteCard ConsumerIndex LoaderVersion EvidenceCanonical StrictInput Replay ResultShape PlanGraph PayloadRules StrictParser Consume PlanExample
begin

text \<open>
  Verification library of KDNA (\<open>packages/kdna-core\<close> and \<open>packages/kdna-eval\<close>).

  \<^bold>\<open>The program.\<close>  KDNA packages an author's judgments as data.  \<open>kdna-core\<close> reads such an asset, validates it,
  and correlates its use: a consumption plan says what a host may do with it, an Agent Host request carries the
  Runtime Capsule to the host, a receipt reports what the host did, and a judgment trace ties the three together.
  Every document travels as JSON, is compared and hashed through one canonical text, and is admitted by schema
  validators plus hand-written correlation guards.  \<open>kdna-eval\<close> evaluates and routes assets with gates, cost
  budgets, route policies and cards, consumer indexes, replays and fingerprints.

  \<^bold>\<open>Shared vocabulary.\<close>
  \<^item> Theory \<open>Prelude\<close>: \<open>'e + 'a\<close> for code that throws, \<open>ebind\<close>, \<open>emap\<close>, \<open>mapE\<close>; lists used as insertion-ordered maps.
  \<^item> \<open>JsString\<close>: strings as lists of 16-bit words, UTF-8 bytes, both orders of strings.  \<open>JsNumber\<close>: binary64 as exact
    rationals plus the special values; rounding is defined.  \<open>JsValue\<close>: \<open>json\<close>, and \<open>hval\<close> for a caller's value with
    prototype, accessors, non-enumerable properties, symbols and cycles.  \<open>JsArith\<close>: \<open>+\<close>, \<open>Math.max\<close>, comparison and
    truthiness; \<open>JsOps\<close>: the other arithmetic operators, rounding included.  \<open>JsText\<close>: numbers to text and back.
    \<open>Sha256\<close>: the hash on words.  \<open>Digraph\<close>: graphs in insertion order and the iterative search for a cycle.

  \<^bold>\<open>Canonical JSON and its uses\<close> (\<open>packages/kdna-core/src/runtime-contract.js\<close>, \<open>runtime-capsule.js\<close>).
  \<^item> \<open>StrictJson\<close> is \<open>StrictJsonParser\<close> with its limits; \<open>Jcs\<close> is \<open>canonicalizeJcs\<close>; \<open>JsonRoundTrip\<close> shows that they
    are inverse up to member order.  \<open>ContractJson\<close> has the public parser, \<open>equalJson\<close> and the digests.
  \<^item> \<open>Codec\<close> states the interface between them as locales: \<open>canonical_codec\<close> (decoding an encoding gives the normal
    form), \<open>digest_codec\<close> which extends it with a hash, and \<open>result_normalizer\<close>.  \<open>ContractJson\<close> interprets the first
    two (\<open>json_codec\<close>, \<open>json_digest\<close>), \<open>Gates\<close> the third (\<open>gate_norm\<close>).
  \<^item> \<open>ContractCore\<close>: snapshots and schema results.  \<open>ConsumptionPlan\<close>, \<open>HostRequest\<close>, \<open>HostReceipt\<close>, \<open>Budget\<close>,
    \<open>TraceSemantics\<close>, \<open>JudgmentTrace\<close>: one theory per document, with every guard in the order of the code.
    \<open>RuntimeCapsule\<close>: digest evidence, signature evidence and the capsule builder.  \<open>TraceProperties\<close>: what an accepted
    trace proves.  \<open>Scenario\<close>: a complete exchange that every validator accepts, from which the witnesses are taken.

  \<^bold>\<open>The public contract\<close> (\<open>packages/kdna-core/src/public-contract\<close>).
  \<^item> \<open>StrictInput\<close> and \<open>StrictParser\<close> are \<open>strict-input.js\<close>: the byte-metered copy, the check in place, the canonical
    text; then its own parser, which agrees with \<open>StrictJsonParser\<close> within its limits, byte order and freezing.
    The copy charges an object on every path, the check once: the check takes the identities of the objects
    (\<open>identities\<close>, a number for each path) and the heights of those it has finished (\<open>heights\<close>), and accepts every
    value the copy accepts, the same ones when no object is shared, and more when one is (\<open>shared_check_only\<close>).
  \<^item> \<open>JudgmentRegistry\<close> is \<open>r2-registry.js\<close>: the state is the record \<open>registry\<close>; \<open>add_record\<close> and \<open>link_records\<close> are its
    steps, \<open>registry_reachable\<close> the states they build, \<open>registry_ok\<close> the invariant, \<open>closure_of\<close> the closure of a
    selection, refined to reachability over mandatory links.
  \<^item> \<open>ResultShape\<close> is \<open>r2-values.js\<close>: shapes, values, contracts, and when a flow between contracts is safe.
  \<^item> \<open>r2-plan.js\<close>, the checks of all plans of a payload, in six theories.  \<open>PlanGraph\<close>: cycle check, node tree,
    reachability, ancestors.  \<open>PlanData\<close>: members of a payload as shapes, contracts and values.  \<open>PlanFlow\<close>: one plan;
    its closure variables are the records \<open>plan_frame\<close> and \<open>plan_work\<close>, its loops \<open>check_inputs\<close>, \<open>check_flow\<close> and
    \<open>check_feedback\<close>.  \<open>PlanPolicy\<close>: policies, the final checks, what contributes, \<open>actualMethods\<close>, and \<open>checkPlans\<close>
    on the record \<open>plan_set\<close>.  \<open>PlanSound\<close> and \<open>PlanAccepted\<close> show that every step only adds (\<open>work_grows\<close>, \<open>plans_grow\<close>), so
    what a link or a node establishes holds at the end, where the cycle checks apply; \<open>PlanMethods\<close> draws the conclusions.
    \<open>PlanExample\<close> is a plan that all checks accept.
  \<^item> \<open>CrossEntry\<close> and \<open>PayloadRules\<close> are \<open>cross-entry.js\<close>: the rules and the paths of their violations, the report and the
    admission.  The locale \<open>payload_rule\<close> is what the rules share (a rule is ok when it pushes no violation); each rule
    interprets it (\<open>forms\<close>, \<open>capability\<close>, \<open>identities\<close>, \<open>terms\<close>, \<open>vocabulary\<close>, \<open>parents\<close>, \<open>labels\<close>, \<open>lifecycles\<close>).

  \<^bold>\<open>Evaluation\<close> (\<open>packages/kdna-eval/src\<close>).
  \<^item> \<open>Gates\<close> (\<open>gates.js\<close>) with \<open>SafeData\<close> (its copy of what a gate returns), \<open>Cost\<close> (\<open>cost.js\<close>, the closure variables as a record),
    \<open>Route\<close>, \<open>RouteCard\<close>, \<open>ConsumerIndex\<close>, \<open>EvidenceCanonical\<close>, \<open>Replay\<close>, \<open>Consume\<close> (\<open>consume.js\<close>: promotion,
    composition, quality and the other gates of the runner).  \<open>LoaderVersion\<close> is
    \<open>loader-compatibility.js\<close> of \<open>kdna-core\<close>.
  \<^item> \<open>Validation\<close>: the locale \<open>validator\<close>, the shape shared by validators that collect messages, interpreted by
    \<open>RouteCard\<close> and \<open>ConsumerIndex\<close> (\<open>route_card\<close>, \<open>consumer_index\<close>).

  \<^bold>\<open>What the lemmas show.\<close>  The first group of properties below is about whole documents: what an accepted trace (executed or
  blocked), receipt, request or plan proves, and when a plan is accepted.  The second is about the JSON
  layer: round trips, the exact domain of each serializer and copy, agreement of the serializers with each other.  The
  third is about evaluation: normal forms of gate results, fail-closed verdicts, cost totals, policies and cards, trust,
  promotion, composition, fingerprints, replays.  The last is about the judgment graph: registry invariant, closure, flows,
  bindings, plan trees, the order of the data flow in accepted plans, what contributes, methods, and payload admission.

  \<^bold>\<open>Parameters.\<close>  Code that is not in the repository, or is generated, is an argument: the Ajv validators, the reading of
  a capsule from a packaged file, \<open>read_json\<close> for files, the value a getter throws, \<open>String\<close> of an arbitrary object,
  the clock, what a call of \<open>map\<close> on an array with another
  prototype than \<open>Array.prototype\<close> gives (\<open>M\<close> and \<open>C\<close> of \<open>EvidenceCanonical\<close>), the texts of the members every
  object inherits (\<open>native\<close>), and the callback of a partial load (\<open>plan_scope\<close>).  No law is assumed of them unless a theorem names it.

  \<^bold>\<open>Termination and fuel.\<close>  All operations are total functions except \<open>ancestors\<close> of \<open>PlanGraph\<close>, a loop that need
  not end; that it ends on every accepted plan is a theorem, and \<open>actualMethods\<close> of \<open>PlanPolicy\<close>,
  whose fuel is one more than the number of judgments: after the cycle check that is always enough, also a theorem.  The parsers recurse under a measure on the rest of the input.
  Depth limits are those of the code.

  \<^bold>\<open>Limits of the model.\<close>
  \<^item> Objects are association lists in insertion order; that the language moves integer-like keys to the front is not
    represented where only the set of members matters.
  \<^item> A caller's value is a tree with a marker for a cycle; which of its objects are one and the same is represented
    where the code depends on it (\<open>assertStrictJson\<close>).  Proxies and other exotic objects are not represented.  Objects with another prototype show only their own properties.
  \<^item> In the judgment graph, payloads are JSON after schema validation; shapes, values and plan nodes are the closed unions of
    the schema.  Refusals keep the code \<open>READ_CORE_INVALID\<close> but not its diagnostic.
  \<^item> The text of a \<open>SyntaxError\<close> of \<open>JSON.parse\<close> is not represented.

  \<^bold>\<open>Not modelled.\<close>  Byte containers (ZIP, CBOR codecs), signatures and encryption (calls into \<open>node:crypto\<close>), generated
  validators, file and process input and output, the command line, and the components listed as not modelled in the manifest.
\<close>

text \<open>C1: A trace accepted with any status but blocked proves that the host received exactly the capsule of the request: the digest the host recomputed, the one the trace records and the digest of the request's capsule are the same, and the receipt says matched.\<close>

theorem trace_execution_matches_request:
  assumes "validateTraceSemantics E t p r c caps core obs = Inr None" "wf_json r"
    and "path (Some t) [''overall_status''] = Inr s" "s \<noteq> Some (js ''blocked'')"
  shows "\<exists>capsule. path (Some r) [''capsule''] = Inr (Some capsule) \<and>
     path (Some c) [''runtime_receipt'', ''host_recomputed_capsule_delivery_digest''] =
       Inr (Some (JStr (json_digest.digest capsule))) \<and>
     path (Some t) [''capsule_delivery_evidence'', ''host_recomputed''] =
       Inr (Some (JStr (json_digest.digest capsule))) \<and>
     path (Some c) [''runtime_receipt'', ''capsule_delivery_comparison''] = Inr (Some (js ''matched''))"
  using assms by (rule executed_matched)

theorem trace_execution_matches_request_witness:
  "\<exists>capsule. path (Some d_request) [''capsule''] = Inr (Some capsule) \<and>
     path (Some d_receipt) [''runtime_receipt'', ''host_recomputed_capsule_delivery_digest''] =
       Inr (Some (JStr (json_digest.digest capsule))) \<and>
     path (Some d_trace) [''capsule_delivery_evidence'', ''host_recomputed''] =
       Inr (Some (JStr (json_digest.digest capsule))) \<and>
     path (Some d_receipt) [''runtime_receipt'', ''capsule_delivery_comparison''] = Inr (Some (js ''matched''))"
  by (rule trace_execution_matches_request [OF d_trace_valid wf_request(1) d_trace_tops(5)]) simp

text \<open>C2: A trace accepted as completed has an outcome in the receipt, its recorded result digest is the canonical digest of that outcome, and the provider status is completed.\<close>

theorem completed_trace_binds_result:
  assumes "validateTraceSemantics E t p r c caps core obs = Inr None" "wf_json c"
    and "path (Some t) [''overall_status''] = Inr (Some (js ''execution_completed''))"
  shows "\<exists>outcome. path (Some c) [''outcome''] = Inr (Some outcome) \<and> outcome \<noteq> JNull \<and>
     path (Some t) [''result_ref'', ''result_digest''] = Inr (Some (JStr (json_digest.digest outcome))) \<and>
     path (Some c) [''runtime_receipt'', ''provider_execution_status''] = Inr (Some (js ''completed''))"
  using assms by (rule completed_result)

theorem completed_trace_binds_result_witness:
  "\<exists>outcome. path (Some d_receipt) [''outcome''] = Inr (Some outcome) \<and> outcome \<noteq> JNull \<and>
     path (Some d_trace) [''result_ref'', ''result_digest''] = Inr (Some (JStr (json_digest.digest outcome))) \<and>
     path (Some d_receipt) [''runtime_receipt'', ''provider_execution_status''] = Inr (Some (js ''completed''))"
  by (rule completed_trace_binds_result [OF d_trace_valid]) simp_all

text \<open>C3: For every accepted trace that is not blocked the budget evidence can be derived, and it is over a limit only for a timed out trace whose elapsed time is over the deadline.\<close>

theorem executed_trace_within_budget:
  assumes "validateTraceSemantics E t p r c caps core obs = Inr None"
    and "path (Some t) [''overall_status''] = Inr s" "s \<noteq> Some (js ''blocked'')"
  shows "\<exists>b. expectedBudgetEvidence p r c = Inr b \<and>
     (overall (comparison b) = ''exceeded'' \<longrightarrow> s = Some (js ''timed_out'') \<and> elapsed_ms (comparison b) = ''exceeded'')"
  using assms by (rule executed_budget_sound)

theorem executed_trace_within_budget_witness:
  "\<exists>b. expectedBudgetEvidence d_plan d_request d_receipt = Inr b \<and>
     (overall (comparison b) = ''exceeded'' \<longrightarrow>
        Some (js ''execution_completed'') = Some (js ''timed_out'') \<and> elapsed_ms (comparison b) = ''exceeded'')"
  by (rule executed_trace_within_budget [OF d_trace_valid d_trace_tops(5)]) simp



text \<open>C5: A receipt that correlates with its request either proves delivery (the host recomputed the digest of the very capsule of the request and something was started) or reports a mismatch (then nothing was started and there is no outcome).\<close>

theorem receipt_proves_delivery_or_refusal:
  assumes "validateReceiptSemantics c r = Inr None" "wf_json r"
  shows "\<exists>rr. path (Some c) [''runtime_receipt''] = Inr rr \<and>
     ((\<exists>capsule. path (Some r) [''capsule''] = Inr (Some capsule) \<and>
         path rr [''capsule_delivery_comparison''] = Inr (Some (js ''matched'')) \<and>
         path (Some r) [''runtime_contract'', ''capsule_delivery_digest''] = Inr (Some (JStr (json_digest.digest capsule))) \<and>
         path rr [''host_recomputed_capsule_delivery_digest''] = Inr (Some (JStr (json_digest.digest capsule))) \<and>
         path rr [''provider_execution_status''] \<noteq> Inr (Some (js ''not_started''))) \<or>
      path rr [''capsule_delivery_comparison''] = Inr (Some (js ''mismatched'')) \<and>
      path rr [''provider_execution_status''] = Inr (Some (js ''not_started'')) \<and>
      path (Some c) [''outcome''] = Inr (Some JNull))"
proof (cases rule: receipt_dichotomy [OF assms])
  case (1 rr capsule)
  then show ?thesis by blast
next
  case (2 rr)
  then show ?thesis by blast
qed

theorem receipt_proves_delivery_or_refusal_witness:
  "\<exists>rr. path (Some d_receipt) [''runtime_receipt''] = Inr rr \<and>
     ((\<exists>capsule. path (Some d_request) [''capsule''] = Inr (Some capsule) \<and>
         path rr [''capsule_delivery_comparison''] = Inr (Some (js ''matched'')) \<and>
         path (Some d_request) [''runtime_contract'', ''capsule_delivery_digest''] =
           Inr (Some (JStr (json_digest.digest capsule))) \<and>
         path rr [''host_recomputed_capsule_delivery_digest''] = Inr (Some (JStr (json_digest.digest capsule))) \<and>
         path rr [''provider_execution_status''] \<noteq> Inr (Some (js ''not_started''))) \<or>
      path rr [''capsule_delivery_comparison''] = Inr (Some (js ''mismatched'')) \<and>
      path rr [''provider_execution_status''] = Inr (Some (js ''not_started'')) \<and>
      path (Some d_receipt) [''outcome''] = Inr (Some JNull))"
  by (rule receipt_proves_delivery_or_refusal [OF d_receipt_valid]) simp

text \<open>C6: A request that correlates with a plan under budget enforcement names the digest of that plan's body, carries the digest of its own capsule, and its capsule is no longer in characters than a numeric limit of the budget.\<close>

theorem request_bound_to_plan_and_capsule:
  assumes "validateRequestSemantics r p True = Inr None" "wf_json r" "wf_json p"
    and "path (Some r) [''budget'', ''max_projection_chars''] = Inr (Some (JNum limit))"
  shows "path (Some r) [''plan_ref'', ''plan_digest''] = Inr (Some (JStr (json_digest.digest (plan_body p)))) \<and>
     (\<exists>capsule. path (Some r) [''capsule''] = Inr (Some capsule) \<and>
        path (Some r) [''runtime_contract'', ''capsule_delivery_digest''] = Inr (Some (JStr (json_digest.digest capsule))) \<and>
        \<not> num_lt limit (num_of_nat (length (code_points (canon capsule)))))"
proof -
  obtain capsule where c: "path (Some r) [''capsule''] = Inr (Some capsule)"
    "path (Some r) [''runtime_contract'', ''capsule_delivery_digest''] = Inr (Some (JStr (json_digest.digest capsule)))"
    using capsule_digest_of [OF assms(2,1)] by blast
  show ?thesis
    using request_plan_digest [OF assms(1,3)] request_within_budget [OF assms(1,2) c(1) assms(4)] c by blast
qed

theorem request_bound_to_plan_and_capsule_witness:
  "path (Some d_request) [''plan_ref'', ''plan_digest''] = Inr (Some (JStr (json_digest.digest (plan_body d_plan)))) \<and>
     (\<exists>capsule. path (Some d_request) [''capsule''] = Inr (Some capsule) \<and>
        path (Some d_request) [''runtime_contract'', ''capsule_delivery_digest''] =
          Inr (Some (JStr (json_digest.digest capsule))) \<and>
        \<not> num_lt (Fin 100000) (num_of_nat (length (code_points (canon capsule)))))"
  by (rule request_bound_to_plan_and_capsule [OF d_request_valid]) (simp_all add: d_limit_def)



text \<open>C8: A consumption plan validates exactly when the context provides a trusted lowercase sha256 digest, the plan snapshots and is schema-valid, and the trusted digest, the digest of the plan without its integrity block, and the digest the plan carries are one.\<close>

theorem consumption_plan_accepted_iff:
  "validateConsumptionPlan E plan context = Inr (Valid p) \<longleftrightarrow>
     (\<exists>sc t. snapshotContext context [''trustedPlanDigest''] = Valid sc \<and>
        get_opt (Some sc) ''trustedPlanDigest'' = Some (JStr t) \<and> is_sha256_text t \<and>
        snapshotJsonValue plan = Inr p \<and> E ''plan'' p = None \<and> is_obj p \<and>
        t = json_digest.digest (plan_body p) \<and>
        path (Some p) [''integrity'', ''plan_digest''] = Inr (Some (JStr t)))"
  by (rule validateConsumptionPlan_iff)

text \<open>C9: Two validated plans that carry the same plan digest have the same body, or their bodies are an explicit SHA-256 collision.\<close>

theorem plan_digest_tamper_evident:
  assumes "validateConsumptionPlan E plan1 ctx1 = Inr (Valid p1)" "wf_hval plan1"
    and "validateConsumptionPlan E plan2 ctx2 = Inr (Valid p2)" "wf_hval plan2"
    and "path (Some p1) [''integrity'', ''plan_digest''] = path (Some p2) [''integrity'', ''plan_digest'']"
  shows "plan_body p1 = plan_body p2 \<or>
         (canon (plan_body p1) \<noteq> canon (plan_body p2) \<and>
          sha256_text (canon (plan_body p1)) = sha256_text (canon (plan_body p2)))"
  using assms by (rule plan_tamper_evidence)

theorem plan_digest_tamper_evident_witness:
  "plan_body (jnorm d_plan) = plan_body (jnorm d_plan) \<or>
         (canon (plan_body (jnorm d_plan)) \<noteq> canon (plan_body (jnorm d_plan)) \<and>
          sha256_text (canon (plan_body (jnorm d_plan))) = sha256_text (canon (plan_body (jnorm d_plan))))"
  by (rule plan_digest_tamper_evident [OF d_plan_built(2) _ d_plan_built(2)]) (simp_all add: wf_hval_of)

text \<open>C10: The plan builder, given JSON members whose plan fits the limits and satisfies the schema, returns the plan with the digest of its body filled in, and the validator accepts that plan under that digest.\<close>

theorem built_plan_validates:
  assumes "wf_json a" "wf_json b" "wf_json c" "wf_json d" "wf_json e" "wf_json f" "wf_json g" "wf_json h"
    and "t = json_digest.digest (plan_body (plan_json a b c d e f g h []))"
    and "fits_limits (plan_json a b c d e f g h t)"
    and "E ''plan'' (jnorm (plan_json a b c d e f g h t)) = None"
  shows "buildConsumptionPlan E
           (ho [(''plan_id'', hval_of a), (''created_at'', hval_of b), (''task'', hval_of c),
                (''asset_ref'', hval_of d), (''projection_profile'', hval_of e), (''budget'', hval_of f),
                (''trace_policy'', hval_of g), (''constraints'', hval_of h)]) =
           Inr (hval_of (plan_json a b c d e f g h t)) \<and>
         validateConsumptionPlan E (hval_of (plan_json a b c d e f g h t)) (ho [(''trustedPlanDigest'', HStr t)]) =
           Inr (Valid (jnorm (plan_json a b c d e f g h t)))"
  using buildConsumptionPlan_json [of "plan_json a b c d e f g h" a b c d e f g h t E, OF refl assms] by blast

theorem built_plan_validates_witness:
  "buildConsumptionPlan accept_all
           (ho [(''plan_id'', hval_of (js ''plan-1'')), (''created_at'', hval_of (js ''2026-01-01T00:00:00Z'')),
                (''task'', hval_of d_task), (''asset_ref'', hval_of d_asset), (''projection_profile'', hval_of (js ''index'')),
                (''budget'', hval_of d_budget), (''trace_policy'', hval_of (JObj [])), (''constraints'', hval_of (JArr []))]) =
           Inr (hval_of (plan_json (js ''plan-1'') (js ''2026-01-01T00:00:00Z'') d_task d_asset (js ''index'') d_budget
             (JObj []) (JArr []) d_plan_digest)) \<and>
   validateConsumptionPlan accept_all
           (hval_of (plan_json (js ''plan-1'') (js ''2026-01-01T00:00:00Z'') d_task d_asset (js ''index'') d_budget
             (JObj []) (JArr []) d_plan_digest)) (ho [(''trustedPlanDigest'', HStr d_plan_digest)]) =
           Inr (Valid (jnorm (plan_json (js ''plan-1'') (js ''2026-01-01T00:00:00Z'') d_task d_asset (js ''index'') d_budget
             (JObj []) (JArr []) d_plan_digest)))"
proof (rule built_plan_validates)
  show "d_plan_digest = json_digest.digest (plan_body (plan_json (js ''plan-1'') (js ''2026-01-01T00:00:00Z'') d_task d_asset
      (js ''index'') d_budget (JObj []) (JArr []) []))"
    by (simp add: d_plan_digest_def d_plan_with_def)
  show "fits_limits (plan_json (js ''plan-1'') (js ''2026-01-01T00:00:00Z'') d_task d_asset (js ''index'') d_budget
      (JObj []) (JArr []) d_plan_digest)"
    using fits_plan [of d_plan_digest] by (simp add: d_plan_with_def d_plan_digest_def)
qed (simp_all add: accept_all_def)

text \<open>C11: Parsing the canonical text of a well-formed JSON value whose nesting fits gives back the value in normal form (members sorted, negative zero as zero) and consumes exactly that text.\<close>

theorem parse_canonical_text:
  assumes "wf_json j" "json_depth j + d \<le> md" "ends_number rest"
  shows "parseValue N md d (canon j @ rest) = Inr (jnorm j, rest)"
  using assms by (rule parse_canon)

theorem parse_canonical_text_witness:
  "parseValue 9 2 0 (canon (JObj [(u ''b'', JArr [JNull]), (u ''a'', JStr (u ''x''))]) @ [0x2C]) =
     Inr (jnorm (JObj [(u ''b'', JArr [JNull]), (u ''a'', JStr (u ''x''))]), [0x2C])"
  by (rule parse_canonical_text) simp_all

text \<open>C12: Every value the contract parser returns, for any input and options, has well-formed Unicode strings, binary64 numbers, distinct member names, and a nesting of at most 64.\<close>

theorem parser_output_well_formed:
  assumes "parseRuntimeContractJson i opts = Inr j"
  shows "wf_json j \<and> json_depth j \<le> JSON_MAX_DEPTH"
  using assms by (rule parseRuntimeContractJson_wf)

theorem parser_output_well_formed_witness: "wf_json (jnorm d_caps) \<and> json_depth (jnorm d_caps) \<le> JSON_MAX_DEPTH"
proof (rule parser_output_well_formed)
  show "parseRuntimeContractJson (InString (canon d_caps)) HUndefined = Inr (jnorm d_caps)"
    using parseRuntimeContractJson_canon [of d_caps] fits_limits_csize [of d_caps] csize_data(4) by simp
qed

text \<open>C13: canonicalizeJcs succeeds exactly on caller values that show plain JSON with well-formed strings and finite numbers, and returns their canonical text.\<close>

theorem canonicalize_iff:
  "canonicalizeJcs v = Inr t \<longleftrightarrow> (\<exists>j. plain_view v = Some j \<and> scalar_json j \<and> t = canon j)"
  by (rule canonicalizeJcs_success)

text \<open>C14: The snapshot of a caller value exists exactly when the value shows plain JSON within the depth and byte limits, and is that JSON in normal form.\<close>

theorem snapshot_iff:
  assumes "wf_hval v"
  shows "snapshotJsonValue v = Inr w \<longleftrightarrow>
     (\<exists>j. plain_view v = Some j \<and> scalar_json j \<and> fits_limits j \<and> w = jnorm j)"
  using assms by (rule snapshotJsonValue_iff)

theorem snapshot_iff_witness:
  "snapshotJsonValue (hval_of d_caps) = Inr (jnorm d_caps) \<longleftrightarrow>
     (\<exists>j. plain_view (hval_of d_caps) = Some j \<and> scalar_json j \<and> fits_limits j \<and> jnorm d_caps = jnorm j)"
  by (rule snapshot_iff) (simp add: wf_hval_of)

text \<open>C15: Whatever a gate returns, its normalized result under a non-blank fallback name has a non-blank gate name, a verdict that is true, false or null, a score that is null or finite, an object of details and a list of error texts; it is the own copy of the returned value, or a failing result when no copy of that value is of this form; and normalizing it again changes nothing.\<close>

theorem gate_results_normalized:
  assumes "\<not> blank g"
  shows "gate_result (normalizeGateResult v g) \<and>
         (is_copy_of (normalizeGateResult v g) v \<or>
            fails (normalizeGateResult v g) \<and> (\<forall>j. \<not> (is_copy_of j v \<and> gate_result j))) \<and>
         normalizeGateResult (hval_of (normalizeGateResult v g)) h = normalizeGateResult v g"
  using gate_norm.norm_wf [OF assms] normalize_exact gate_norm.norm_idem [OF assms] by blast

theorem gate_results_normalized_witness:
  "gate_result (normalizeGateResult HUndefined (u ''anonymous'')) \<and>
     (is_copy_of (normalizeGateResult HUndefined (u ''anonymous'')) HUndefined \<or>
        fails (normalizeGateResult HUndefined (u ''anonymous'')) \<and>
        (\<forall>j. \<not> (is_copy_of j HUndefined \<and> gate_result j))) \<and>
     normalizeGateResult (hval_of (normalizeGateResult HUndefined (u ''anonymous''))) (u ''x'') =
     normalizeGateResult HUndefined (u ''anonymous'')"
  by (rule gate_results_normalized) simp

text \<open>C16: The aggregate verdict is a pass exactly when the argument is a non-empty array each of whose elements is itself a well-formed passing result; every result is counted once as blocked, passed or failed.\<close>

theorem gate_verdict_fail_closed:
  assumes "aggregateGates results = Inr a"
  shows "(gr_overall a = ''pass'' \<longleftrightarrow>
            (\<exists>std n slots ex. results = HArr std n slots ex \<and> slots \<noteq> [] \<and> list_all passing_slot slots)) \<and>
         length (gr_blocked a) + length (gr_passed a) + length (gr_failed a) = gr_count a"
  using aggregate_pass_iff [OF assms] aggregate_counts(1) [OF assms] by (rule conjI)

theorem gate_verdict_fail_closed_witness:
  "(gr_overall no_results = ''pass'' \<longleftrightarrow>
            (\<exists>std n slots ex. HNull = HArr std n slots ex \<and> slots \<noteq> [] \<and> list_all passing_slot slots)) \<and>
         length (gr_blocked no_results) + length (gr_passed no_results) + length (gr_failed no_results) =
           gr_count no_results"
  by (rule gate_verdict_fail_closed) (simp add: aggregateGates_def)



text \<open>C18: Validation of a route card accepts exactly the cards with the right version, identifier, role, boundaries, neighbors, advisor edges and provenance; it returns the card itself then, and no card but at least one message otherwise; a card for which it throws is not valid.\<close>

theorem route_card_valid_iff:
  "case validateRouteCard card' of
     Inl _ \<Rightarrow> \<not> route_card_ok card'
   | Inr r \<Rightarrow> vr_valid r = route_card_ok card' \<and>
            vr_value r = (if route_card_ok card' then card' else None) \<and>
            (vr_errors r = []) = route_card_ok card'"
  by (rule route_card.spec)

text \<open>C19: Applying a card to policies requires a valid card, keeps every policy name in its place, leaves policies without domains alone, and in the others only appends domain entries: the existing entries keep their order and names, and the card domain and every neighbor end up listed.\<close>

theorem route_card_extends_policies:
  assumes "applyRouteCard card' (Some (JObj ps)) = Inr r"
  shows "route_card_ok card' \<and>
     (\<exists>ops. r = JObj (zip (map fst ps) ops) \<and>
        list_all2 (\<lambda>(k, op) op'. policy_extended card' (json_clone op) op') ps ops)"
  using assms by (rule applyRouteCard_policies)

theorem route_card_extends_policies_witness:
  "route_card_ok (Some d_card) \<and>
     (\<exists>ops. JObj d_card_policies' = JObj (zip (map fst d_card_policies) ops) \<and>
        list_all2 (\<lambda>(k, op) op'. policy_extended (Some d_card) (json_clone op) op') d_card_policies ops)"
  by (rule route_card_extends_policies [OF d_card_applied])

text \<open>C20: A resolution is trusted exactly when isTrusted answers true for the domain and the deciding entry does not exclude the task: excluding a task never grants trust, and no preference list can add it.\<close>

theorem consumer_trust_agrees:
  assumes "resolveConsumerIndex index task domainId = Inr r"
  shows "\<exists>b. isTrusted index domainId = Inr b \<and>
     (cn_trusted r \<longleftrightarrow> b \<and> (case deciding_entry index domainId of None \<Rightarrow> True | Some e \<Rightarrow> \<not> kept_away e task)) \<and>
     (b \<longleftrightarrow> (\<exists>e. deciding_entry index domainId = Some e \<and>
               get_opt (Some e) ''status'' = Some (js ''trusted_runtime'') \<and>
               get_opt (Some e) ''enabled'' = Some (JBool True)))"
  using resolve_trust_agrees [OF assms] isTrusted_spec [of index domainId] by (auto split: option.splits)

theorem consumer_trust_agrees_witness:
  "\<exists>r. resolveConsumerIndex (Some d_index) (Some (js ''draft'')) (Some (js ''law'')) = Inr r \<and>
     (\<exists>b. isTrusted (Some d_index) (Some (js ''law'')) = Inr b \<and>
       (cn_trusted r \<longleftrightarrow> b \<and> (case deciding_entry (Some d_index) (Some (js ''law'')) of None \<Rightarrow> True
            | Some e \<Rightarrow> \<not> kept_away e (Some (js ''draft'')))) \<and>
       (b \<longleftrightarrow> (\<exists>e. deciding_entry (Some d_index) (Some (js ''law'')) = Some e \<and>
               get_opt (Some e) ''status'' = Some (js ''trusted_runtime'') \<and>
               get_opt (Some e) ''enabled'' = Some (JBool True))))"
proof -
  obtain r where r: "resolveConsumerIndex (Some d_index) (Some (js ''draft'')) (Some (js ''law'')) = Inr r"
    using d_index_resolved by blast
  from r consumer_trust_agrees [OF r] show ?thesis by (intro exI [of _ r] conjI)
qed

text \<open>C21: Promotion passes exactly when the evidence is not sealed-derived, the review status is one of the three upper levels, and each of the five required suites has a replay result that passed; in every other case, also when the code throws, there is no pass.\<close>

theorem promotion_pass_requires_evidence:
  "(\<exists>r. consume_promotion context = Inr r \<and> get_opt (Some r) ''pass'' = Some (JBool True)) \<longleftrightarrow>
     (if truthy (get_opt context ''source'') then get_opt context ''source'' else get_opt context ''evidenceSource'')
       \<noteq> Some (js ''sealed-derived'') \<and>
     get_opt context ''reviewStatus'' \<in> Some ` js ` {''human_reviewed'', ''eval_candidate'', ''trusted_runtime''} \<and>
     {''repair'', ''holdout'', ''fresh'', ''candidate-sealed'', ''new-sealed''} \<subseteq>
       {s. get_opt (get_opt (get_opt context ''replayResults'') s) ''pass'' = Some (JBool True)}"
  using promotion_pass_iff by (simp add: requiredSuites_def)

text \<open>C22: For a whole-number source hardmax n of at least 1 (3 by default), composition accepts exactly the first n - 1 requested advisors (all of them when there are fewer) in their order and rejects exactly the rest; the sources it reports are the primary and the accepted advisors, so at most n.\<close>

theorem composition_within_hardmax:
  assumes "consume_compose runner context = Inr r" "truthy (get_opt context ''primary'')"
    and "or_else (get_opt context ''sourceHardmax'') (Some (nat_json 3)) = Some (JNum (Fin (of_nat n)))" "0 < n" "n \<le> 2 ^ 53"
    and "or_else (get_opt context ''advisors'') (Some (JArr [])) = Some (JArr xs)"
  shows "\<exists>d. get_opt (Some r) ''details'' = Some d \<and>
     domain_ids (get_opt (Some d) ''advisors'') = map Some (take (n - 1) xs) \<and>
     domain_ids (get_opt (Some d) ''rejected_advisors'') = map Some (drop (n - 1) xs) \<and>
     get_opt (Some d) ''sources_used'' = Some (nat_json (1 + length (take (n - 1) xs))) \<and>
     1 + length (take (n - 1) xs) \<le> n"
  using compose_partition [OF assms] assms(4) by auto

theorem composition_within_hardmax_witness:
  "\<exists>r d. consume_compose (createConsumptionRunner None) d_compose = Inr r \<and>
     get_opt (Some r) ''details'' = Some d \<and>
     domain_ids (get_opt (Some d) ''advisors'') = map Some (take (3 - 1) d_advisors) \<and>
     domain_ids (get_opt (Some d) ''rejected_advisors'') = map Some (drop (3 - 1) d_advisors) \<and>
     get_opt (Some d) ''sources_used'' = Some (nat_json (1 + length (take (3 - 1) d_advisors))) \<and>
     1 + length (take (3 - 1) d_advisors) \<le> (3 :: nat)"
proof -
  obtain r where r: "consume_compose (createConsumptionRunner None) d_compose = Inr r" using d_compose_runs by blast
  show ?thesis using r composition_within_hardmax [OF r d_compose_input] by blast
qed

text \<open>C23: The quality gate passes exactly when a primary domain is chosen, there is no conflict, and at most as many domains are rejected as are chosen (the rounded division of the code decides that comparison correctly for all counts below 2^52).\<close>

theorem quality_pass_iff:
  assumes "get_opt context ''advisors'' = Some (JArr as)" "get_opt context ''rejected'' = Some (JArr rs)"
    and "get_opt context ''conflicts'' = Some (JArr cs)" and "1 + length as + length rs \<le> 2 ^ 52"
  shows "\<exists>r. consume_quality context = Inr r \<and>
     (get_opt (Some r) ''pass'' = Some (JBool True) \<longleftrightarrow>
        truthy (get_opt context ''primary'') \<and> cs = [] \<and> length rs \<le> 1 + length as)"
  using assms by (rule quality_pass)

theorem quality_pass_iff_witness:
  "\<exists>r. consume_quality (Some (jo [(''primary'', js ''a''), (''advisors'', JArr [js ''b'']), (''rejected'', JArr [js ''c'']),
        (''conflicts'', JArr [])])) = Inr r \<and> get_opt (Some r) ''pass'' = Some (JBool True)"
  using quality_pass_iff [of "Some (jo [(''primary'', js ''a''), (''advisors'', JArr [js ''b'']), (''rejected'', JArr [js ''c'']),
        (''conflicts'', JArr [])])" "[js ''b'']" "[js ''c'']" "[]"]
  by (simp add: js_def truthy_def u_def)

text \<open>C24: Evidence whose arrays are ordinary ones (or evidence of any kind where other arrays have no usable map method) has a canonical text exactly when it is plain JSON data (finite numbers, dense ordinary arrays, plain objects, enumerable data properties, no symbols or cycles); the text is then the canonical JSON text of the value it shows, and it agrees with the text the contract serializer produces when that accepts the value too. Evidence that is not plain data is refused with a TypeError in every case.\<close>

theorem evidence_text_canonical:
  assumes "standard_arrays v \<or> (\<forall>x s. M x \<noteq> Inr s)"
  shows "(canonicalStringify M v = Inr t \<longleftrightarrow> plain_evidence v \<and> standard_arrays v \<and> (\<exists>j. plain_view v = Some j \<and> t = canon j)) \<and>
    \<not> (canonicalStringify M v = Inr t \<and> canonicalizeJcs v = Inr t' \<and> t' \<noteq> t) \<and>
    (plain_evidence v \<or> (\<exists>m. canonicalStringify M v = Inl (TypeErr m)))"
  using canonicalStringify_iff [OF assms] evidence_text_is_jcs [OF assms] canonicalStringify_refuses by blast

theorem evidence_text_canonical_witness:
  "canonicalStringify (\<lambda>_. Inl GetterThrow) (HArr True 0 [HData True HNull] []) = Inr (canon (JArr [JNull])) \<and>
   \<not> (\<exists>t. canonicalStringify (\<lambda>_. Inl GetterThrow) (HArr False 0 [HData True HNull] []) = Inr t)"
  using evidence_text_canonical [of "HArr True 0 [HData True HNull] []" "\<lambda>_. Inl GetterThrow" "canon (JArr [JNull])"]
    evidence_text_canonical [of "HArr False 0 [HData True HNull] []" "\<lambda>_. Inl GetterThrow"] by auto

text \<open>C25: copyJson accepts exactly the caller values of the strict form within the limits on depth, items, strings and total bytes, and returns what they show. However objects are shared in the value, the in-place check assertStrictJson, which charges an object once, accepts everything the copy accepts, and whatever it accepts has the strict form within the limits on depth, items and strings; so on values whose text fits into the byte limit, and on all values without shared objects, the two accept the same. canonicalJson returns the canonical text of what the value shows whenever the check accepts.\<close>

theorem strict_input_agrees:
  assumes "shares I v"
  shows "(copyJson v = Inr j \<longleftrightarrow> strict_view v = Some j \<and> in_limits 0 j \<and> byte_length (canon j) \<le> MAX_GRAPH_BYTES) \<and>
    (copyJson v = Inr j \<longrightarrow> assertStrictJson I v = Inr v) \<and>
    (assertStrictJson I v = Inr w \<longrightarrow> w = v \<and> (\<exists>x. strict_view v = Some x \<and> in_limits 0 x \<and> canonicalJson I v = Inr (canon x))) \<and>
    (assertStrictJson unshared v = Inr v \<longleftrightarrow> (\<exists>x. copyJson v = Inr x))"
  using copyJson_iff assertStrictJson_complete [OF assms] assertStrictJson_accepts [OF assms] assertStrictJson_iff by blast

theorem strict_input_agrees_witness:
  "shares one_part d_shared \<and> assertStrictJson one_part d_shared = Inr d_shared \<and>
   (\<exists>x. strict_view d_shared = Some x \<and> in_limits 0 x \<and> canonicalJson one_part d_shared = Inr (canon x))"
  using d_shared_fits shared_check_only(1) strict_input_agrees [OF d_shared_fits, of _ d_shared] by blast

text \<open>C26: The parser of the public contract and the one of the execution contract, written separately, agree: on well-formed text the first returns a value exactly when the second does, with the same value, and the limits of the first on depth, array length, string size and bytes hold.\<close>

theorem strict_parsers_agree:
  assumes "wf_utf16 text"
  shows "parseJson (InString text) = Inr j \<longleftrightarrow>
    parse (Suc MAX_DEPTH) text = Inr j \<and> in_limits 0 j \<and> byte_length text \<le> MAX_PAYLOAD_BYTES"
  using assms by (rule parseJson_iff)

theorem strict_parsers_agree_witness:
  "parseJson (InString (canon d_strict)) = Inr (jnorm d_strict) \<longleftrightarrow>
    parse (Suc MAX_DEPTH) (canon d_strict) = Inr (jnorm d_strict) \<and> in_limits 0 (jnorm d_strict) \<and>
    byte_length (canon d_strict) \<le> MAX_PAYLOAD_BYTES"
  by (rule strict_parsers_agree) (rule wf_canon, simp add: d_strict_def wf_number_def)

text \<open>C27: The canonical text of a caller value (its numbers binary64, however its objects are shared), as text or as UTF-8 bytes, is parsed back to the copy of that value with its members in canonical order when it has at most 8 MiB, the limit for a payload; a longer canonical text is refused.\<close>

theorem strict_text_round_trip:
  assumes "shares I v" "canonicalJson I v = Inr t" "wf_hval v"
  shows "if byte_length t \<le> MAX_PAYLOAD_BYTES
    then \<exists>j. copyJson v = Inr j \<and> parseJson (InString t) = Inr (jnorm j) \<and>
             parseJson (InBytes (utf8_encode t)) = Inr (jnorm j)
    else parseJson (InString t) = reject \<and> parseJson (InBytes (utf8_encode t)) = reject"
  using assms by (rule parseJson_canonical)

theorem strict_text_round_trip_witness:
  "\<exists>j. copyJson (hval_of d_strict) = Inr j \<and> parseJson (InString (canon d_strict)) = Inr (jnorm j) \<and>
    parseJson (InBytes (utf8_encode (canon d_strict))) = Inr (jnorm j)"
  using strict_text_round_trip [OF unshared_shares d_strict_runs(1,2)] d_strict_runs(3) by simp

text \<open>C28: A replay call that throws leaves the kept runs alone; otherwise the run it returns, and keeps exactly when there were fixtures, evaluates each fixture once, in order, and records one result for it: an object in good order (a non-blank identifier, the other properties absent or of their types) as it is; of anything else the identifier the evaluator gave if it is a non-blank string, the numbered fallback identifier if not (either one when a getter of the returned object throws); a verdict or a score only if the evaluator gave that boolean or that finite number. The summary counts all fixtures, those recorded as passed, the rest, and those without a verdict; and a run does not differ from itself. This holds for every evaluator, thrown values included, whose returned objects have each property name once, as objects do, and an identifier that is enumerable if they have one; other returned values are not restricted.\<close>

theorem replay_runs_consistent:
  assumes "\<And>ev. evaluate = Some ev \<Longrightarrow> visible_evaluator ev"
    "replayRun S G now mode policy fixtures previousRun evaluate c runs = (out, c', runs')"
  shows "case out of
       Inl e \<Rightarrow> runs' = runs
     | Inr run \<Rightarrow>
         run_consistent (evaluator_in_use evaluate policy mode) c (evaluated fixtures) run \<and>
         runs' = (if evaluated fixtures = [] then runs else runs @ [run]) \<and>
         compareRuns (Some run) (Some run) = ([], Fin 0)"
  using assms by (rule replayRun_invariant)

theorem replay_runs_consistent_witness:
  "\<exists>run c' runs'. replayRun (\<lambda>_. None) (ThrownError None) (u ''now'') (u ''fresh'') None (Some (JArr d_fixtures)) None
      None () [] = (Inr run, c', runs') \<and>
    run_consistent (evaluator_in_use None None (u ''fresh'')) () d_fixtures run \<and> runs' = [run] \<and>
    compareRuns (Some run) (Some run) = ([], Fin 0)"
proof -
  have "u ''fresh'' \<in> u ` set REPLAY_MODES" by (simp add: REPLAY_MODES_def)
  then obtain run c' runs' where r: "replayRun (\<lambda>_. None) (ThrownError None) (u ''now'') (u ''fresh'') None
      (Some (JArr d_fixtures)) None None () [] = (Inr run, c', runs')"
    using default_run_returns by (metis prod.collapse)
  show ?thesis
    using r replay_runs_consistent [OF _ r] by (auto simp: evaluated_def d_fixtures_def)
qed

text \<open>C29: The regression flags of results against a previous run are exactly these: a pass regression for each result that failed where the last previous result of the same identifier had not failed, and a score regression, with both scores and their difference, for each result whose score is below the score of that previous result less the tolerance times it. With the default tolerance there is no flag exactly when the engine's own isRegression finds none; without a previous run there are none.\<close>

theorem replay_flags_exact:
  "(PassRegression i cur prv \<in> set (detectRegressions rs (Some ps) t) \<longleftrightarrow>
      (\<exists>r prev. r \<in> set rs \<and> rget r ''id'' = i \<and> last_with ps i prev \<and>
         rget r ''pass'' = HBool False \<and> cur = HBool False \<and> rget prev ''pass'' = prv \<and> prv \<noteq> HBool False)) \<and>
   (ScoreRegression i cur prv d \<in> set (detectRegressions rs (Some ps) t) \<longleftrightarrow>
      (\<exists>r prev n m. r \<in> set rs \<and> rget r ''id'' = i \<and> last_with ps i prev \<and>
         rget r ''score'' = HNum n \<and> cur = HNum n \<and> rget prev ''score'' = HNum m \<and> prv = HNum m \<and>
         num_lt n (num_sub m (num_mul t m)) \<and> d = num_sub n m)) \<and>
   (detectRegressions rs (Some ps) default_tolerance = [] \<longleftrightarrow>
      \<not> (\<exists>r prev. r \<in> set rs \<and> last_with ps (rget r ''id'') prev \<and> isRegression (Some r) (Some prev) None)) \<and>
   detectRegressions rs None t = []"
  unfolding in_detectRegressions pass_flag score_flag detectRegressions_Nil
  by (auto simp: detectRegressions_def)

text \<open>C30: In every registry that registrations and links can build, the closure of a selection succeeds exactly when every seed names a registered record, and then lists, in declaration order, exactly the records reachable from the seeds over mandatory links: the queue loop implements reachability.\<close>

theorem selection_closure_is_reachability:
  assumes "registry_reachable a r"
  shows "closure_of r seeds = Inr es \<longleftrightarrow>
    (\<exists>keys. mapE (identity r) seeds = Inr keys \<and> set keys \<subseteq> set (record_keys r) \<and>
       es = map snd (filter (\<lambda>(k, e). \<exists>s \<in> set keys. (s, k) \<in> (mandatory_edges r)\<^sup>*) (rg_records r)))"
  by (rule closure_exact) (use reachable_ok [OF assms] in simp)

theorem selection_closure_is_reachability_witness:
  "\<exists>keys. mapE (identity d_linked) [d_target ''asset'' ''a''] = Inr keys \<and> set keys \<subseteq> set (record_keys d_linked) \<and>
     [d_entry ''asset'' ''a'', d_entry ''judgment'' ''j''] =
       map snd (filter (\<lambda>(k, e). \<exists>s \<in> set keys. (s, k) \<in> (mandatory_edges d_linked)\<^sup>*) (rg_records d_linked))"
  using selection_closure_is_reachability [OF d_reachable] d_closure by blast

text \<open>C31: In every registry that registrations and links can build, each record is stored once under the key of its own target, links lead only to registered records, and a link is mandatory exactly when one of the roles declared on the pair is.\<close>

theorem registry_links_consistent:
  assumes "registry_reachable a r"
  shows "distinct (record_keys r) \<and> map fst (rg_edges r) = record_keys r \<and> map fst (rg_roles r) = record_keys r \<and>
    (\<forall>(k, e) \<in> set (rg_records r). identity r (re_target e) = Inr k) \<and>
    (\<forall>(k, es) \<in> set (rg_edges r). distinct (map fst es) \<and> fst ` set es \<subseteq> set (record_keys r)) \<and>
    list_all2 (\<lambda>(k, es) (k', bt). k = k' \<and>
        (\<forall>t. map_of es t = map_option (\<lambda>roles. \<exists>role. map_of roles role = Some True) (map_of bt t)))
      (rg_edges r) (rg_roles r)"
  using reachable_ok [OF assms] by (intro registry_ok_links) simp

theorem registry_links_consistent_witness:
  "\<exists>r. registry_reachable None r \<and> rg_edges r \<noteq> [] \<and> distinct (record_keys r) \<and> map fst (rg_edges r) = record_keys r \<and> map fst (rg_roles r) = record_keys r \<and>
    (\<forall>(k, e) \<in> set (rg_records r). identity r (re_target e) = Inr k) \<and>
    (\<forall>(k, es) \<in> set (rg_edges r). distinct (map fst es) \<and> fst ` set es \<subseteq> set (record_keys r)) \<and>
    list_all2 (\<lambda>(k, es) (k', bt). k = k' \<and>
        (\<forall>t. map_of es t = map_option (\<lambda>roles. \<exists>role. map_of roles role = Some True) (map_of bt t)))
      (rg_edges r) (rg_roles r)"
  using d_reachable registry_links_consistent [OF d_reachable] by (intro exI [of _ d_linked] conjI) (simp_all add: d_registry_def)

text \<open>C32: A data flow that passes the checks keeps its promise: when a value satisfies the contract of the source, the part of it at the field path of the flow satisfies the contract of the target, for every shape, bound and value.\<close>

theorem checked_flow_keeps_values:
  assumes "projected (Some a) p = Inr (Some c)" "compatible (Some c) (Some b) = Inr ()"
    "valueFor a v = Inr ()" "value_at v p = Some w" "wf_contract a" "wf_contract b"
  shows "valueFor b w = Inr ()"
  using assms by (rule flow_safe)

theorem checked_flow_keeps_values_witness:
  "valueFor (Results d_list_contract) (ValueList [ValueText (u ''a''), ValueText (u ''b'')]) = Inr ()"
  by (rule checked_flow_keeps_values [OF d_projected d_compatible d_value_for d_value_at d_contracts_wf])

text \<open>C33: The bindings of a result are accepted exactly when no bound path lies inside another and every leaf that a chain of required fields leads to is at or below a bound path.\<close>

theorem bindings_complete_iff:
  "completeBindings s paths = Inr () \<longleftrightarrow>
     pairwise (\<lambda>a b. \<not> prefix a b \<and> \<not> prefix b a) paths \<and>
     set (required_leaves s) \<subseteq> {l. \<exists>p. p \<in> set paths \<and> prefix p l}"
  by (auto simp: completeBindings_iff)

text \<open>C34: A plan whose structure is accepted is a tree on exactly its declared nodes, and its root is the node the plan declares as its root (the registered plan node of this plan that the declared reference finds): no cycle, one parent for every other node, and every node reachable from the root; the loop over the parents of a node then ends, at the root, and visits exactly the nodes above it.\<close>

theorem checked_plan_is_rooted_tree:
  assumes "plan_structure r judgment_id plan_id start nodes = Inr (root_id, t)"
  shows "(\<exists>e. get_record r (Some start) (Some [''plan_node'']) = Inr (Some e) \<and>
      get_opt (Some (re_target e)) ''id'' = Some (JStr root_id) \<and>
      get_opt (Some (re_owner e)) ''kind'' = Some (js ''plan'') \<and> get_opt (Some (re_owner e)) ''id'' = Some (JStr plan_id)) \<and>
    rooted_tree (map pn_id nodes) root_id t \<and>
    (\<forall>n \<in> set (map pn_id nodes). \<exists>above. ancestors (pt_parents t) n = Some above \<and> last (n # above) = root_id \<and>
       set (n # above) = {a. (a, n) \<in> (edges_of (pt_children t))\<^sup>*})"
  using plan_structure_root [OF assms] plan_structure_tree [OF assms] ancestors_total [OF plan_structure_tree [OF assms]]
  by blast

theorem checked_plan_is_rooted_tree_witness:
  "\<exists>t e. plan_structure d_plan_registry (u ''j'') (u ''p'') (d_target ''plan_node'' ''s'') d_nodes = Inr (u ''s'', t) \<and>
    get_record d_plan_registry (Some (d_target ''plan_node'' ''s'')) (Some [''plan_node'']) = Inr (Some e) \<and>
    get_opt (Some (re_target e)) ''id'' = Some (JStr (u ''s'')) \<and>
    rooted_tree (map pn_id d_nodes) (u ''s'') t \<and>
    (\<forall>n \<in> set (map pn_id d_nodes). \<exists>above. ancestors (pt_parents t) n = Some above \<and> last (n # above) = u ''s'' \<and>
       set (n # above) = {a. (a, n) \<in> (edges_of (pt_children t))\<^sup>*})"
proof -
  obtain t where t: "plan_structure d_plan_registry (u ''j'') (u ''p'') (d_target ''plan_node'' ''s'') d_nodes = Inr (u ''s'', t)"
    using d_plan_runs by blast
  show ?thesis using t checked_plan_is_rooted_tree [OF t] by blast
qed

text \<open>C35: In an accepted set of plans, the nodes of each plan can be numbered so that every link goes to a higher number; both ends of a link resolve to ports with compatible contracts, lie in the same feedback round and respect the sequences and parallels of the tree.\<close>

theorem accepted_flows_ordered:
  assumes "checked_graphs judgments r = Inr ps" "map_of (pl_contexts ps) k = Some cx"
  shows "let F = cx_frame cx; w = opened ps cx in
    \<exists>step :: jstring \<Rightarrow> nat. \<forall>flow \<in> set (items_at (pf_plan F) ''links''). \<exists>source target.
      endpoint_at F [] (part flow ''from'') False False w = Inr (source, w) \<and>
      endpoint_at F [] (part flow ''to'') True False w = Inr (target, w) \<and>
      compatible (ep_contract source) (ep_contract target) = Inr () \<and>
      round_of F (ep_node source) = round_of F (ep_node target) \<and>
      ordered F (ep_node source) (ep_node target) = Inr () \<and>
      step (ep_node source) < step (ep_node target)"
  unfolding Let_def by (rule flow_numbered [OF assms])

theorem accepted_flows_ordered_witness:
  "\<exists>(step :: jstring \<Rightarrow> nat) source target.
     endpoint_at e_frame [] (e_end ''a'' ''y'') False False e_flowed = Inr (source, e_flowed) \<and>
     endpoint_at e_frame [] (e_end ''b'' ''x'') True False e_flowed = Inr (target, e_flowed) \<and>
     compatible (ep_contract source) (ep_contract target) = Inr () \<and>
     step (ep_node source) < step (ep_node target)"
proof -
  have "\<exists>step :: jstring \<Rightarrow> nat. \<exists>source target.
      endpoint_at e_frame [] (part e_flow ''from'') False False e_flowed = Inr (source, e_flowed) \<and>
      endpoint_at e_frame [] (part e_flow ''to'') True False e_flowed = Inr (target, e_flowed) \<and>
      compatible (ep_contract source) (ep_contract target) = Inr () \<and> step (ep_node source) < step (ep_node target)"
    using accepted_flows_ordered [OF e_accepted e_plans_contexts(1), unfolded Let_def e_opened e_plans_contexts(2)]
      e_flow_listed(1) by fast
  then show ?thesis by (simp only: e_flow_listed(2,3))
qed

text \<open>C36: The nodes that contribute to the results of a plan are exactly those from which the source node of some result binding can be reached: along the links and other data edges of the plan, and from the source of a feedback update to the input it sets for the next round (each step ending at a declared node).\<close>

theorem contributing_is_reachability:
  "set (contributing cx) =
     {n. \<exists>binding. binding \<in> set (items_at (pf_plan (cx_frame cx)) ''result_bindings'') \<and>
        (n, text_at (part (part binding ''from'') ''node_ref'') ''id'')
          \<in> {(a, b). (a, b) \<in> influences (cx_frame cx) (pw_graph (cx_work cx)) \<and>
                     b \<in> fst ` set (pf_nodes (cx_frame cx))}\<^sup>*}"
  by (rule contributing_sources)

text \<open>C37: When all plan checks pass, every unit that contributes to the result of a judgment whose method is not composite has exactly the method the judgment declares, also when that judgment was first met through another judgment that uses it.\<close>

theorem units_follow_declared_method:
  assumes "checkPlans judgments r scope = Inr ps" "j \<in> set judgments"
    and "map_of (pl_contexts ps) (text_at j ''id'') = Some cx"
    and "text_at (part (part j ''method'') ''method'') ''term'' \<noteq> u ''composite''"
    and "node \<in> set (contributing_nodes cx)" "is_kind node ''use''"
  shows "unit_method (pl_registry ps) node = Inr (text_at (part (part j ''method'') ''method'') ''term'')"
  by (rule accepted_methods [OF assms])

theorem units_follow_declared_method_witness:
  "unit_method (pl_registry e_plans) (e_use ''a'' ''ua'') = Inr (u ''rule'')"
  using units_follow_declared_method [OF e_checked, of e_judgment e_context "e_use ''a'' ''ua''"] e_judgment_reads
  by (simp add: e_plans_contexts e_contributing_nodes)

text \<open>C38: Once the cycle checks have passed, the recursion that collects the methods of a judgment from the judgments its plan uses ends: with one more level than there are judgments it returns, and more levels change nothing.\<close>

theorem method_search_terminates:
  assumes "checked_graphs judgments r = Inr ps"
  shows "\<exists>res. \<forall>extra. actualMethods (Suc (length judgments) + extra) judgments ps i memo = Some res"
  by (rule checked_methods_total [OF assms])

theorem method_search_terminates_witness:
  "\<exists>res. \<forall>extra. actualMethods (Suc (length [e_judgment]) + extra) [e_judgment] e_plans (u ''j'') [] = Some res"
  by (rule method_search_terminates [OF e_accepted])

text \<open>C39: Admission of a payload succeeds exactly when every judgment has a consistent form, the asset capability is the one of the forms, every identifier class is free of duplicates, definition terms are unique, the parent references resolve and are acyclic, every term is registered or the author's own, no judgment has a label, every lifecycle is well formed and the replacements inside the asset are acyclic.\<close>

theorem payload_admitted_iff:
  "assertPayload payload registry = Inr True \<longleftrightarrow>
     forms_ok payload \<and> capability_ok payload \<and> identities_ok payload \<and> terms_ok payload \<and> parents_ok payload \<and>
     vocabulary_ok registry payload \<and> labels_ok payload \<and> each_lifecycle_ok payload \<and> acyclic (replacement_edges payload)"
  using replacement_graph_acyclic [of payload]
  by (auto simp: assertPayload_iff payload_ok_def lifecycles_ok_def each_lifecycle_ok_def)

text \<open>C40: Admission agrees with the full report: when every rule of the report is ok it succeeds, and otherwise the error names the first rule that is not, its message and field being those of that rule's first violation.\<close>

theorem admission_reports_first_violation:
  "assertPayload payload registry =
     (case List.find (\<lambda>r. \<not> rr_ok r) (checkPayload payload registry) of
        None \<Rightarrow> Inr True
      | Some r \<Rightarrow> Inl \<lparr>pr_message = rr_rule r @ u '': '' @ vi_message (hd (rr_violations r)), pr_rule = rr_rule r,
                        pr_field = u ''/payload'' @ vi_path (hd (rr_violations r))\<rparr>)"
  using assertPayload_report [of payload registry] by (auto split: option.splits)

end
